(* ===== verification/Prelude.thy ===== *)
theory Prelude
  imports Complex_Main "HOL-Library.Word" "HOL-Library.Char_ord"
    "HOL-Library.List_Lexorder" "HOL-Library.Product_Lexorder" "HOL-Library.Sublist"
begin

text \<open>
  Shared vocabulary of the gateway model: Go's time, string and JSON values, the parts of
  Go's standard library the modelled packages call (\<open>strings.TrimSpace\<close>,
  \<open>strings.ToLower\<close>, \<open>fmt.Sprintf\<close> of a zero-padded decimal), generic facts on lists
  and maps, and the locale of machines whose operations keep an invariant.

  Time. A \<open>time.Time\<close> is the number of nanoseconds since Go's zero time, so \<open>IsZero\<close> is
  equality with 0 and \<open>Truncate\<close> (which Go defines relative to the zero time) is rounding
  down to a multiple. A \<open>time.Duration\<close> is its number of nanoseconds. Both are unbounded
  integers here: Go's 64-bit durations reach 292 years and no modelled value comes near.
  Locations carry no meaning in the modelled code (\<open>UTC()\<close> only changes presentation).

  Bytes. A Go string is a byte string; \<open>string\<close> (a list of 8-bit characters) is the same.
\<close>

named_theorems go_defs \<comment> \<open>unfolding equations of small wrappers\<close>
named_theorems keeps_inv \<comment> \<open>an operation keeps its component's invariant\<close>

subsection \<open>Time\<close>

type_synonym gotime = int
type_synonym dur = int
type_synonym u64 = "64 word"

abbreviation millisecond :: dur where "millisecond \<equiv> 1000000"
abbreviation second :: dur where "second \<equiv> 1000000000"
abbreviation minute :: dur where "minute \<equiv> 60000000000"
abbreviation hour :: dur where "hour \<equiv> 3600000000000"

definition IsZero :: "gotime \<Rightarrow> bool" where [simp]: "IsZero t = (t = 0)"

subsection \<open>Strings\<close>

text \<open>
  The UTF-8 encodings of the code points for which \<open>unicode.IsSpace\<close> holds.
\<close>

definition space_seqs :: "string list" where
  "space_seqs =
    [[CHR 0x20], [CHR 0x09], [CHR 0x0A], [CHR 0x0B], [CHR 0x0C], [CHR 0x0D],
     [CHR 0xC2, CHR 0x85], [CHR 0xC2, CHR 0xA0], [CHR 0xE1, CHR 0x9A, CHR 0x80]] @
    map (\<lambda>c. [CHR 0xE2, CHR 0x80, c])
      [CHR 0x80, CHR 0x81, CHR 0x82, CHR 0x83, CHR 0x84, CHR 0x85, CHR 0x86, CHR 0x87,
       CHR 0x88, CHR 0x89, CHR 0x8A, CHR 0xA8, CHR 0xA9, CHR 0xAF] @
    [[CHR 0xE2, CHR 0x81, CHR 0x9F], [CHR 0xE3, CHR 0x80, CHR 0x80]]"

function strip_seqs :: "string list \<Rightarrow> string \<Rightarrow> string" where
  "strip_seqs ws s =
     (case find (\<lambda>w. w \<noteq> [] \<and> prefix w s) ws of
        None \<Rightarrow> s
      | Some w \<Rightarrow> strip_seqs ws (drop (length w) s))"
  by pat_completeness auto
termination
proof (relation "measure (\<lambda>(ws, s). length s)", goal_cases)
  case 1
  show ?case by simp
next
  case (2 ws s w)
  then have "w \<noteq> []" and "prefix w s" by (auto simp: find_Some_iff)
  then have "0 < length w" and "length w \<le> length s" by (auto simp: prefix_length_le)
  then have "length s - length w < length s" by linarith
  then show ?case by simp
qed

declare strip_seqs.simps [simp del]

text \<open>\<open>strings.TrimSpace\<close>: leading, then trailing white space.\<close>

definition trim_left :: "string \<Rightarrow> string" where
  "trim_left s = strip_seqs space_seqs s"

definition trim_right :: "string \<Rightarrow> string" where
  "trim_right s = rev (strip_seqs (map rev space_seqs) (rev s))"

definition trim_space :: "string \<Rightarrow> string" where
  "trim_space s = trim_right (trim_left s)"

lemma strip_seqs_Nil [simp]: "strip_seqs ws [] = []"
  by (subst strip_seqs.simps) (auto split: option.splits simp: find_Some_iff)

lemma strip_seqs_suffix: "suffix (strip_seqs ws s) s"
proof (induction ws s rule: strip_seqs.induct)
  case (1 ws s)
  show ?case
  proof (cases "find (\<lambda>w. w \<noteq> [] \<and> prefix w s) ws")
    case None
    then show ?thesis by (subst strip_seqs.simps) simp
  next
    case (Some w)
    with 1 have "suffix (strip_seqs ws (drop (length w) s)) (drop (length w) s)" by simp
    with Some show ?thesis
      by (subst strip_seqs.simps) (auto intro: suffix_order.trans suffix_drop)
  qed
qed

lemma strip_seqs_done:
  "w \<in> set ws \<Longrightarrow> w \<noteq> [] \<Longrightarrow> \<not> prefix w (strip_seqs ws s)"
proof (induction ws s rule: strip_seqs.induct)
  case (1 ws s)
  show ?case
  proof (cases "find (\<lambda>w. w \<noteq> [] \<and> prefix w s) ws")
    case None
    then have "strip_seqs ws s = s" by (subst strip_seqs.simps) simp
    with None 1 show ?thesis by (auto simp: find_None_iff)
  next
    case (Some v)
    then have "strip_seqs ws s = strip_seqs ws (drop (length v) s)"
      by (subst strip_seqs.simps) simp
    with Some 1 show ?thesis by simp
  qed
qed

lemma strip_seqs_stop:
  "(\<And>w. w \<in> set ws \<Longrightarrow> w \<noteq> [] \<Longrightarrow> \<not> prefix w s) \<Longrightarrow> strip_seqs ws s = s"
  by (subst strip_seqs.simps) (auto split: option.splits simp: find_Some_iff)

lemma trim_space_Nil [simp]: "trim_space [] = []"
  by (simp add: trim_space_def trim_left_def trim_right_def)

lemma trim_right_prefix: "prefix (trim_right s) s"
  by (metis rev_rev_ident strip_seqs_suffix suffix_to_prefix trim_right_def)

lemma strip_seqs_idem [simp]: "strip_seqs ws (strip_seqs ws s) = strip_seqs ws s"
  by (rule strip_seqs_stop) (rule strip_seqs_done)

lemma trim_left_idem: "prefix t (trim_left s) \<Longrightarrow> trim_left t = t"
  unfolding trim_left_def
  by (rule strip_seqs_stop) (meson prefix_order.trans strip_seqs_done)

lemma trim_right_idem: "trim_right (trim_right s) = trim_right s"
  unfolding trim_right_def by simp

lemma trim_right_left [simp]: "trim_left (trim_right (trim_left s)) = trim_right (trim_left s)"
  by (rule trim_left_idem) (rule trim_right_prefix)

text \<open>Trimming twice is trimming once: a trimmed key names the same entry everywhere.\<close>

lemma trim_space_idem [simp]: "trim_space (trim_space s) = trim_space s"
  by (simp add: trim_space_def trim_right_idem)

text \<open>A character that is part of no white space survives trimming.\<close>

lemma strip_seqs_keeps:
  "c \<in> set s \<Longrightarrow> (\<And>w. w \<in> set ws \<Longrightarrow> c \<notin> set w) \<Longrightarrow> c \<in> set (strip_seqs ws s)"
proof (induction ws s rule: strip_seqs.induct)
  case (1 ws s)
  show ?case
  proof (cases "find (\<lambda>w. w \<noteq> [] \<and> prefix w s) ws")
    case None
    with 1 show ?thesis by (subst strip_seqs.simps) simp
  next
    case (Some w)
    then have w: "w \<in> set ws" "prefix w s" by (auto simp: find_Some_iff)
    then obtain t where t: "s = w @ t" by (auto simp: prefix_def)
    with 1 w Some have "c \<in> set (strip_seqs ws (drop (length w) s))" by auto
    with Some show ?thesis by (subst strip_seqs.simps) simp
  qed
qed

lemma trim_space_keeps:
  assumes "c \<in> set s" and "\<And>w. w \<in> set space_seqs \<Longrightarrow> c \<notin> set w"
  shows "c \<in> set (trim_space s)"
proof -
  have "c \<in> set (trim_left s)" unfolding trim_left_def by (rule strip_seqs_keeps [OF assms])
  then have "c \<in> set (strip_seqs (map rev space_seqs) (rev (trim_left s)))"
    by (intro strip_seqs_keeps) (use assms(2) in auto)
  then show ?thesis by (simp add: trim_space_def trim_right_def)
qed

text \<open>
  \<open>strings.ToLower\<close>, exactly on every byte string that reaches a comparison with an ASCII
  string: the ASCII letters, and the only two other code points whose lower case is ASCII
  (U+0130 to \<open>i\<close>, U+212A to \<open>k\<close>). Other code points lower to code points outside ASCII
  and are left as they are.
\<close>

definition lower_char :: "char \<Rightarrow> char" where
  "lower_char c = (if CHR ''A'' \<le> c \<and> c \<le> CHR ''Z'' then char_of (of_char c + 32 :: nat) else c)"

fun to_lower :: "string \<Rightarrow> string" where
  "to_lower [] = []"
| "to_lower (c # s) =
     (if c = CHR 0xC4 \<and> take 1 s = [CHR 0xB0] then CHR ''i'' # to_lower (drop 1 s)
      else if c = CHR 0xE2 \<and> take 2 s = [CHR 0x84, CHR 0xAA] then CHR ''k'' # to_lower (drop 2 s)
      else lower_char c # to_lower s)"

text \<open>
  \<open>strings.EqualFold\<close> against an ASCII text: besides the other case of a letter, U+017F folds to \<open>s\<close> and
  U+212A to \<open>k\<close>; no other code point folds into ASCII.
\<close>

fun fold_ascii :: "string \<Rightarrow> string" where
  "fold_ascii [] = []"
| "fold_ascii (c # s) =
     (if c = CHR 0xC5 \<and> take 1 s = [CHR 0xBF] then CHR ''s'' # fold_ascii (drop 1 s)
      else if c = CHR 0xE2 \<and> take 2 s = [CHR 0x84, CHR 0xAA] then CHR ''k'' # fold_ascii (drop 2 s)
      else lower_char c # fold_ascii s)"

definition EqualFold :: "string \<Rightarrow> string \<Rightarrow> bool" where
  "EqualFold s t = (fold_ascii s = fold_ascii t)"

subsection \<open>Decimal rendering\<close>

fun digits :: "nat \<Rightarrow> string" where
  "digits n = (if n < 10 then [char_of (48 + n)] else digits (n div 10) @ [char_of (48 + n mod 10)])"

declare digits.simps [simp del]

fun undigits :: "nat \<Rightarrow> string \<Rightarrow> nat" where
  "undigits acc [] = acc"
| "undigits acc (c # s) = undigits (10 * acc + (of_char c - 48)) s"

lemma undigits_append: "undigits acc (s @ t) = undigits (undigits acc s) t"
  by (induction s arbitrary: acc) auto

lemma of_char_digit: "n < 10 \<Longrightarrow> (of_char (char_of (48 + n :: nat) :: char) :: nat) = 48 + n"
  by (simp add: of_char_of take_bit_eq_mod)

lemma undigits_digits: "undigits 0 (digits n) = n"
proof (induction n rule: digits.induct)
  case (1 n)
  show ?case
  proof (cases "n < 10")
    case True
    then show ?thesis by (subst digits.simps) (simp add: of_char_digit)
  next
    case False
    with 1 show ?thesis
      by (subst digits.simps) (simp add: undigits_append of_char_digit)
  qed
qed

text \<open>\<open>fmt.Sprintf("%012d", n)\<close> for the counters.\<close>

definition pad12 :: "nat \<Rightarrow> string" where
  "pad12 n = replicate (12 - length (digits n)) (CHR ''0'') @ digits n"

lemma undigits_zeros: "undigits 0 (replicate k (CHR ''0'')) = 0"
  by (induction k) auto

lemma undigits_pad12: "undigits 0 (pad12 n) = n"
  by (simp add: pad12_def undigits_append undigits_zeros undigits_digits)

lemma pad12_inj [simp]: "pad12 m = pad12 n \<longleftrightarrow> m = n"
  by (metis undigits_pad12)

subsection \<open>JSON values\<close>

text \<open>
  The \<open>any\<close> values that Go's \<open>encoding/json\<close> produces. Numbers are \<open>float64\<close> in Go and
  every finite one is rational. An object is an association list: the list order stands for
  one iteration order of the Go map, its keys are distinct (\<open>json_wf\<close>), and facts that must
  not depend on Go's random iteration order are proved for every permutation.
\<close>

datatype json =
    JNull
  | JBool bool
  | JNum rat
  | JStr string
  | JArr "json list"
  | JObj "(string \<times> json) list"

type_synonym jmap = "(string \<times> json) list"

fun json_wf :: "json \<Rightarrow> bool" where
  "json_wf (JArr vs) = list_all json_wf vs"
| "json_wf (JObj m) = (distinct (map fst m) \<and> list_all (\<lambda>kv. json_wf (snd kv)) m)"
| "json_wf _ = True"

text \<open>\<open>m[k] = v\<close> on a Go map.\<close>

fun jput :: "string \<Rightarrow> json \<Rightarrow> jmap \<Rightarrow> jmap" where
  "jput k v [] = [(k, v)]"
| "jput k v ((k', v') # m) = (if k = k' then (k, v) # m else (k', v') # jput k v m)"

text \<open>\<open>delete(m, k)\<close> on a Go map.\<close>

definition jdel :: "string \<Rightarrow> jmap \<Rightarrow> jmap" where
  "jdel k m = filter (\<lambda>kv. fst kv \<noteq> k) m"

lemma map_of_jput [simp]: "map_of (jput k v m) = (map_of m)(k \<mapsto> v)"
  by (induction m) (auto simp: fun_eq_iff)

lemma keys_jput: "set (map fst (jput k v m)) = insert k (set (map fst m))"
proof (induction m)
  case Nil
  show ?case by simp
next
  case (Cons kv m)
  then show ?case by (cases kv) (auto simp del: set_map)
qed

lemma distinct_jput [simp]: "distinct (map fst m) \<Longrightarrow> distinct (map fst (jput k v m))"
proof (induction m)
  case Nil
  show ?case by simp
next
  case (Cons kv m)
  then show ?case by (cases kv) (auto simp: keys_jput simp del: set_map)
qed

subsection \<open>Lists\<close>

text \<open>Replacing the first element that satisfies \<open>P\<close> (a Go loop that assigns and returns).\<close>

fun update_first :: "('a \<Rightarrow> bool) \<Rightarrow> ('a \<Rightarrow> 'a) \<Rightarrow> 'a list \<Rightarrow> 'a list" where
  "update_first P f [] = []"
| "update_first P f (x # xs) = (if P x then f x # xs else x # update_first P f xs)"

lemma length_update_first [simp]: "length (update_first P f xs) = length xs"
  by (induction xs) auto

lemma update_first_eq_map:
  "distinct (map g xs) \<Longrightarrow> (\<And>x. P x \<longleftrightarrow> g x = k) \<Longrightarrow>
   update_first P f xs = map (\<lambda>x. if P x then f x else x) xs"
proof (induction xs)
  case Nil
  then show ?case by simp
next
  case (Cons x xs)
  then show ?case
    by (auto intro!: map_idI [symmetric] simp: image_iff)
qed

lemma set_update_first: "set (update_first P f xs) \<subseteq> set xs \<union> f ` set xs"
  by (induction xs) auto

subsection \<open>Machines\<close>

text \<open>
  The contract every store keeps: each operation, run under the store's mutex, takes a state
  that satisfies the component's invariant to one that does. Since the mutex serialises the
  operations, an execution is a list of them.
\<close>

locale machine =
  fixes step :: "'op \<Rightarrow> 's \<Rightarrow> 's"
    and inv :: "'s \<Rightarrow> bool"
  assumes step_inv: "inv s \<Longrightarrow> inv (step op s)"
begin

lemma run_inv: "inv s \<Longrightarrow> inv (fold step ops s)"
  by (induction ops arbitrary: s) (auto intro: step_inv)

end

text \<open>
  A machine whose operations also move the state forward in a preorder (statuses advance,
  logs grow, generations rise); \<open>fwd\<close> says which operations do.
\<close>

locale forward_machine = machine step inv
  for step :: "'op \<Rightarrow> 's \<Rightarrow> 's" and inv :: "'s \<Rightarrow> bool" +
  fixes fwd :: "'op \<Rightarrow> bool"
    and le :: "'s \<Rightarrow> 's \<Rightarrow> bool"
  assumes le_refl: "le s s"
    and le_trans: "le s t \<Longrightarrow> le t u \<Longrightarrow> le s u"
    and step_le: "inv s \<Longrightarrow> fwd op \<Longrightarrow> le s (step op s)"
begin

lemma run_le: "inv s \<Longrightarrow> list_all fwd ops \<Longrightarrow> le s (fold step ops s)"
proof (induction ops arbitrary: s)
  case Nil
  show ?case by (simp add: le_refl)
next
  case (Cons op ops)
  then have "le (step op s) (fold step ops (step op s))" by (simp add: step_inv)
  moreover have "le s (step op s)" using Cons.prems by (simp add: step_le)
  ultimately show ?case using le_trans by simp
qed

end

text \<open>
  A machine whose operations carry the time they run at, and whose invariant is read at a
  time: what a lease or a hold excludes at \<open>t\<close> it still excludes later, because it can only
  lapse. \<open>ok\<close> says which operations the callers issue.
\<close>

locale clocked_machine =
  fixes step :: "'op \<Rightarrow> 's \<Rightarrow> 's"
    and clock :: "'op \<Rightarrow> gotime"
    and ok :: "'op \<Rightarrow> bool"
    and inv :: "gotime \<Rightarrow> 's \<Rightarrow> bool"
  assumes later: "inv t s \<Longrightarrow> t \<le> t' \<Longrightarrow> inv t' s"
    and clocked_step: "inv (clock op) s \<Longrightarrow> ok op \<Longrightarrow> inv (clock op) (step op s)"
begin

lemma clocked_run:
  "inv t s \<Longrightarrow> list_all ok ops \<Longrightarrow> sorted (t # map clock ops) \<Longrightarrow>
   inv (last (t # map clock ops)) (fold step ops s)"
proof (induction ops arbitrary: t s)
  case Nil
  then show ?case by simp
next
  case (Cons op ops)
  then have "inv (clock op) (step op s)" by (auto intro: clocked_step later)
  then have "inv (last (clock op # map clock ops)) (fold step ops (step op s))"
    using Cons.prems by (intro Cons.IH) auto
  then show ?case by simp
qed

end

text \<open>
  A machine in a preorder whose callers respect a discipline \<open>ok\<close> on the operations they
  issue: under it the invariant is kept and every operation moves forward.
\<close>

locale guarded_machine =
  fixes step :: "'op \<Rightarrow> 's \<Rightarrow> 's"
    and ok :: "'op \<Rightarrow> bool"
    and inv :: "'s \<Rightarrow> bool"
    and le :: "'s \<Rightarrow> 's \<Rightarrow> bool"
  assumes guarded_refl: "le s s"
    and guarded_trans: "le s t \<Longrightarrow> le t u \<Longrightarrow> le s u"
    and guarded_inv: "inv s \<Longrightarrow> ok op \<Longrightarrow> inv (step op s)"
    and guarded_le: "inv s \<Longrightarrow> ok op \<Longrightarrow> le s (step op s)"
begin

lemma guarded_run:
  "inv s \<Longrightarrow> list_all ok ops \<Longrightarrow> inv (fold step ops s) \<and> le s (fold step ops s)"
proof (induction ops arbitrary: s)
  case Nil
  then show ?case by (simp add: guarded_refl)
next
  case (Cons op ops)
  then have "inv (step op s)" and "le s (step op s)" by (auto intro: guarded_inv guarded_le)
  then show ?case using Cons by (auto intro: guarded_trans)
qed

end

end
