(* ===== verification/JobStatus.thy ===== *)
theory JobStatus
  imports Prelude
begin

text \<open>
  The job status vocabulary (\<open>internal/jobs/vocabulary.go\<close> and the status part of
  \<open>internal/jobs/store.go\<close>): the status table with ranks and terminal flags, the transition
  rule every store routes through, and the mapping of worker event types to statuses.

  A Go \<open>Status\<close> is a string; \<open>StatusOther s\<close> stands for a string that is none of the 14
  declared ones, and \<open>Status\<close> is the Go conversion from a string.
\<close>

datatype status =
    StatusCreated
  | StatusScheduled
  | StatusQueued
  | StatusAssigned
  | StatusRunning
  | StatusTokenStreaming
  | StatusCompleting
  | StatusCompleted
  | StatusCompletedWithWarnings
  | StatusFailedRetryable
  | StatusFailedTerminal
  | StatusDeadLetter
  | StatusCanceled
  | StatusTimedOut
  | StatusOther string

definition LifecycleStatuses :: "status list" where
  "LifecycleStatuses =
    [StatusCreated, StatusScheduled, StatusQueued, StatusAssigned, StatusRunning,
     StatusTokenStreaming, StatusCompleting, StatusCompleted, StatusCompletedWithWarnings,
     StatusFailedRetryable, StatusFailedTerminal, StatusDeadLetter, StatusCanceled,
     StatusTimedOut]"

fun status_string :: "status \<Rightarrow> string" where
  "status_string StatusCreated = ''created''"
| "status_string StatusScheduled = ''scheduled''"
| "status_string StatusQueued = ''queued''"
| "status_string StatusAssigned = ''assigned''"
| "status_string StatusRunning = ''running''"
| "status_string StatusTokenStreaming = ''token_streaming''"
| "status_string StatusCompleting = ''completing''"
| "status_string StatusCompleted = ''completed''"
| "status_string StatusCompletedWithWarnings = ''completed_with_warnings''"
| "status_string StatusFailedRetryable = ''failed_retryable''"
| "status_string StatusFailedTerminal = ''failed_terminal''"
| "status_string StatusDeadLetter = ''dead_letter''"
| "status_string StatusCanceled = ''cancelled''"
| "status_string StatusTimedOut = ''timed_out''"
| "status_string (StatusOther s) = s"

definition Status :: "string \<Rightarrow> status" where
  "Status s = (case find (\<lambda>st. status_string st = s) LifecycleStatuses of
     Some st \<Rightarrow> st | None \<Rightarrow> StatusOther s)"

record statusMeta =
  rank :: int
  terminal :: bool

fun statusTable :: "status \<Rightarrow> statusMeta option" where
  "statusTable StatusCreated = Some \<lparr>rank = 0, terminal = False\<rparr>"
| "statusTable StatusScheduled = Some \<lparr>rank = 5, terminal = False\<rparr>"
| "statusTable StatusQueued = Some \<lparr>rank = 10, terminal = False\<rparr>"
| "statusTable StatusAssigned = Some \<lparr>rank = 20, terminal = False\<rparr>"
| "statusTable StatusRunning = Some \<lparr>rank = 30, terminal = False\<rparr>"
| "statusTable StatusTokenStreaming = Some \<lparr>rank = 40, terminal = False\<rparr>"
| "statusTable StatusCompleting = Some \<lparr>rank = 50, terminal = False\<rparr>"
| "statusTable StatusCompleted = Some \<lparr>rank = 100, terminal = True\<rparr>"
| "statusTable StatusCompletedWithWarnings = Some \<lparr>rank = 100, terminal = True\<rparr>"
| "statusTable StatusFailedRetryable = Some \<lparr>rank = 100, terminal = True\<rparr>"
| "statusTable StatusFailedTerminal = Some \<lparr>rank = 100, terminal = True\<rparr>"
| "statusTable StatusDeadLetter = Some \<lparr>rank = 100, terminal = True\<rparr>"
| "statusTable StatusCanceled = Some \<lparr>rank = 100, terminal = True\<rparr>"
| "statusTable StatusTimedOut = Some \<lparr>rank = 100, terminal = True\<rparr>"
| "statusTable (StatusOther _) = None"

definition KnownStatus :: "status \<Rightarrow> bool" where
  "KnownStatus st = (statusTable st \<noteq> None)"

definition TerminalStatus :: "status \<Rightarrow> bool" where
  "TerminalStatus st = (case statusTable st of None \<Rightarrow> False | Some meta \<Rightarrow> terminal meta)"

definition shouldAdvanceStatus :: "status \<Rightarrow> status \<Rightarrow> bool" where
  "shouldAdvanceStatus current nxt =
     (case statusTable nxt of
        None \<Rightarrow> False
      | Some meta \<Rightarrow>
          if current = nxt then False
          else (case statusTable current of
                  None \<Rightarrow> False
                | Some curMeta \<Rightarrow> if terminal curMeta then False else rank curMeta \<le> rank meta))"

definition workerEventTypes :: "string list" where
  "workerEventTypes =
    [''created'', ''queued'', ''assigned'', ''running'', ''browser_opened'', ''session.opening'',
     ''session.authenticated'', ''session.manual_action_required'', ''prompt_submitted'',
     ''token'', ''token_streaming'', ''completing'', ''completed'', ''completed_with_warnings'',
     ''failed'', ''failed_retryable'', ''failed_terminal'', ''dead_letter'', ''cancelled'',
     ''canceled'', ''timed_out'', ''timeout'', ''artifact_created'', ''blocked'', ''warning'']"

definition knownWorkerEventType :: "string \<Rightarrow> bool" where
  "knownWorkerEventType eventType = List.member workerEventTypes eventType"

definition workerEventStatus :: "string \<Rightarrow> bool \<Rightarrow> status option" where
  "workerEventStatus eventType retryable =
     (if eventType = ''created'' then Some StatusCreated
      else if eventType = ''queued'' then Some StatusQueued
      else if eventType = ''assigned'' then Some StatusAssigned
      else if eventType = ''running'' then Some StatusRunning
      else if eventType = ''token'' \<or> eventType = ''token_streaming'' then Some StatusTokenStreaming
      else if eventType = ''completing'' then Some StatusCompleting
      else if eventType = ''completed'' then Some StatusCompleted
      else if eventType = ''completed_with_warnings'' then Some StatusCompletedWithWarnings
      else if eventType = ''failed'' \<or> eventType = ''failed_retryable''
        then (if retryable then Some StatusFailedRetryable else Some StatusFailedTerminal)
      else if eventType = ''failed_terminal'' then Some StatusFailedTerminal
      else if eventType = ''blocked'' then Some StatusFailedRetryable
      else if eventType = ''dead_letter'' then Some StatusDeadLetter
      else if eventType = ''cancelled'' \<or> eventType = ''canceled'' then Some StatusCanceled
      else if eventType = ''timed_out'' \<or> eventType = ''timeout'' then Some StatusTimedOut
      else None)"

definition buildFailureEventTypes :: "string list" where
  "buildFailureEventTypes =
     filter (\<lambda>eventType.
        case workerEventStatus eventType False of
          None \<Rightarrow> False
        | Some st \<Rightarrow> st = StatusFailedRetryable \<or> st = StatusFailedTerminal \<or>
                    st = StatusDeadLetter \<or> st = StatusTimedOut) workerEventTypes"

definition IsFailureEventType :: "string \<Rightarrow> bool" where
  "IsFailureEventType eventType = List.member buildFailureEventTypes eventType"

text \<open>\<open>data["retryable"].(bool)\<close> with the default of both callers.\<close>

definition event_retryable :: "jmap \<Rightarrow> bool" where
  "event_retryable data = (case map_of data ''retryable'' of Some (JBool r) \<Rightarrow> r | _ \<Rightarrow> True)"

definition EventEndsJob :: "string \<Rightarrow> jmap \<Rightarrow> bool" where
  "EventEndsJob eventType data =
     (case workerEventStatus eventType (event_retryable data) of
        None \<Rightarrow> False | Some st \<Rightarrow> TerminalStatus st)"

subsection \<open>Facts about the table\<close>

lemma KnownStatus_iff: "KnownStatus st \<longleftrightarrow> (\<forall>s. st \<noteq> StatusOther s)"
  by (cases st) (auto simp: KnownStatus_def)

lemma KnownStatus_lifecycle: "KnownStatus st \<longleftrightarrow> st \<in> set LifecycleStatuses"
  by (cases st) (auto simp: KnownStatus_def LifecycleStatuses_def)

lemma Terminal_known: "TerminalStatus st \<Longrightarrow> KnownStatus st"
  by (auto simp: TerminalStatus_def KnownStatus_def split: option.splits)

lemma shouldAdvance_not_terminal: "shouldAdvanceStatus c n \<Longrightarrow> \<not> TerminalStatus c"
  by (auto simp: shouldAdvanceStatus_def TerminalStatus_def split: option.splits if_splits)

lemma shouldAdvance_known: "shouldAdvanceStatus c n \<Longrightarrow> KnownStatus n"
  by (auto simp: shouldAdvanceStatus_def KnownStatus_def split: option.splits if_splits)

lemma workerEventStatus_known: "workerEventStatus t r = Some st \<Longrightarrow> KnownStatus st"
  by (auto simp: workerEventStatus_def KnownStatus_def split: if_splits)

lemma Status_string [simp]: "KnownStatus st \<Longrightarrow> Status (status_string st) = st"
  by (cases st) (simp_all add: Status_def LifecycleStatuses_def KnownStatus_def)

lemma status_string_Status [simp]: "status_string (Status s) = s"
  by (auto simp: Status_def find_Some_iff split: option.splits)

text \<open>The rank of a status as the transition rule sees it; unknown strings have none.\<close>

definition status_rank :: "status \<Rightarrow> int" where
  "status_rank st = (case statusTable st of None \<Rightarrow> -1 | Some meta \<Rightarrow> rank meta)"

text \<open>
  Forward moves: a job's status never goes back and never leaves a terminal status. This is
  the order in which every operation of a store moves a job.
\<close>

definition status_le :: "status \<Rightarrow> status \<Rightarrow> bool" where
  "status_le a b = (a = b \<or> \<not> TerminalStatus a \<and> KnownStatus b \<and> status_rank a \<le> status_rank b)"

lemma status_le_refl [simp]: "status_le a a"
  by (simp add: status_le_def)

lemma terminal_rank: "KnownStatus st \<Longrightarrow> TerminalStatus st \<longleftrightarrow> status_rank st = 100"
  by (cases st) (auto simp: TerminalStatus_def status_rank_def KnownStatus_def)

lemma rank_le_100: "status_rank st \<le> 100"
  by (cases st) (auto simp: status_rank_def)

lemma status_le_trans: "status_le a b \<Longrightarrow> status_le b c \<Longrightarrow> status_le a c"
  unfolding status_le_def by auto

lemma shouldAdvance_le: "shouldAdvanceStatus c n \<Longrightarrow> status_le c n"
  unfolding status_le_def
  by (auto simp: shouldAdvanceStatus_def status_rank_def KnownStatus_def TerminalStatus_def
      split: option.splits if_splits)

lemma terminal_fixed: "status_le a b \<Longrightarrow> TerminalStatus a \<Longrightarrow> b = a"
  by (simp add: status_le_def)

end
