(* ===== verification/PayloadPolicy.thy ===== *)
theory PayloadPolicy
  imports Prelude
begin

text \<open>
  The payload safety policy (\<open>internal/payloadpolicy/policy.go\<close>): the normalisation of keys,
  the table of disallowed keys, the three value patterns and the recursive validation that
  every job payload and every worker event passes.

  Go's \<open>regexp\<close> works on code points, so strings are decoded to runes (invalid bytes read
  as U+FFFD, one byte each) and the patterns are matched by the set of positions at which a
  match can end, which is what an unanchored \<open>MatchString\<close> asks for. \<open>(?i)\<close> folds as Go
  does: U+017F with s and U+212A with k.
\<close>

subsection \<open>Runes and patterns\<close>

definition in_range :: "nat \<Rightarrow> nat \<Rightarrow> nat \<Rightarrow> bool" where
  "in_range lo hi n = (lo \<le> n \<and> n \<le> hi)"

definition byte_at :: "nat list \<Rightarrow> nat \<Rightarrow> nat" where
  "byte_at bs i = (if i < length bs then bs ! i else 0)"

definition cont :: "nat \<Rightarrow> bool" where
  "cont b = in_range 0x80 0xBF b"

definition decode_rune :: "nat list \<Rightarrow> nat \<times> nat" where
  "decode_rune bs =
     (let a = byte_at bs 0; b = byte_at bs 1; c = byte_at bs 2; d = byte_at bs 3 in
      if a < 0x80 then (a, 1)
      else if in_range 0xC2 0xDF a \<and> cont b then ((a - 0xC0) * 64 + (b - 0x80), 2)
      else if in_range 0xE0 0xEF a \<and> cont b \<and> (a = 0xE0 \<longrightarrow> 0xA0 \<le> b) \<and> (a = 0xED \<longrightarrow> b \<le> 0x9F)
              \<and> cont c
        then ((a - 0xE0) * 4096 + (b - 0x80) * 64 + (c - 0x80), 3)
      else if in_range 0xF0 0xF4 a \<and> cont b \<and> (a = 0xF0 \<longrightarrow> 0x90 \<le> b) \<and> (a = 0xF4 \<longrightarrow> b \<le> 0x8F)
              \<and> cont c \<and> cont d
        then ((a - 0xF0) * 262144 + (b - 0x80) * 4096 + (c - 0x80) * 64 + (d - 0x80), 4)
      else (0xFFFD, 1))"

lemma decode_rune_pos: "0 < snd (decode_rune bs)"
  by (simp add: decode_rune_def Let_def)

function decode_runes :: "nat list \<Rightarrow> nat list" where
  "decode_runes [] = []"
| "decode_runes (a # bs) =
     fst (decode_rune (a # bs)) # decode_runes (drop (snd (decode_rune (a # bs))) (a # bs))"
  by pat_completeness auto
termination
  by (relation "measure length") (simp_all add: decode_rune_pos diff_less)

definition runes :: "string \<Rightarrow> nat list" where
  "runes s = decode_runes (map of_char s)"

datatype rx =
    One "nat \<Rightarrow> bool"
  | Rep "nat \<Rightarrow> bool" nat "nat option" \<comment> \<open>a class repeated lo..hi times\<close>
  | Bnd \<comment> \<open>ASCII word boundary\<close>
  | Seq rx rx
  | Alt rx rx

definition word_rune :: "nat \<Rightarrow> bool" where
  "word_rune r = (in_range 0x30 0x39 r \<or> in_range 0x41 0x5A r \<or> in_range 0x61 0x7A r \<or> r = 0x5F)"

fun ends :: "nat list \<Rightarrow> rx \<Rightarrow> nat \<Rightarrow> nat list" where
  "ends t (One P) i = (if i < length t \<and> P (t ! i) then [Suc i] else [])"
| "ends t (Rep P lo hi) i =
     filter (\<lambda>j. list_all P (take (j - i) (drop i t)))
       [i + lo ..< Suc (case hi of None \<Rightarrow> length t | Some h \<Rightarrow> min (length t) (i + h))]"
| "ends t Bnd i =
     (if (0 < i \<and> word_rune (t ! (i - 1))) \<noteq> (i < length t \<and> word_rune (t ! i)) then [i] else [])"
| "ends t (Seq r s) i = concat (map (ends t s) (ends t r i))"
| "ends t (Alt r s) i = ends t r i @ ends t s i"

definition MatchString :: "rx \<Rightarrow> string \<Rightarrow> bool" where
  "MatchString r s = (let t = runes s in list_ex (\<lambda>i. ends t r i \<noteq> []) [0 ..< Suc (length t)])"

text \<open>A case-folded literal; the pattern text is lower case.\<close>

definition fold_eq :: "nat \<Rightarrow> nat \<Rightarrow> bool" where
  "fold_eq c r = (r = c \<or> in_range 0x61 0x7A c \<and> r + 32 = c \<or> c = 0x73 \<and> r = 0x17F \<or> c = 0x6B \<and> r = 0x212A)"

fun lit :: "string \<Rightarrow> rx" where
  "lit [] = Rep (\<lambda>_. True) 0 (Some 0)"
| "lit [c] = One (fold_eq (of_char c))"
| "lit (c # s) = Seq (One (fold_eq (of_char c))) (lit s)"

definition letter_fold :: "nat \<Rightarrow> bool" where
  "letter_fold r = (in_range 0x41 0x5A r \<or> in_range 0x61 0x7A r \<or> r = 0x17F \<or> r = 0x212A)"

definition bearerValuePattern :: rx where
  "bearerValuePattern =
     Seq Bnd (Seq (lit ''bearer'')
       (Seq (Rep (\<lambda>r. r \<in> {0x09, 0x0A, 0x0C, 0x0D, 0x20}) 1 None)
         (Rep (\<lambda>r. letter_fold r \<or> in_range 0x30 0x39 r \<or> r \<in> {0x2E, 0x5F, 0x7E, 0x2B, 0x2F, 0x3D, 0x2D}) 12 None)))"

definition privateKeyValuePattern :: rx where
  "privateKeyValuePattern =
     Seq (lit ''-----begin '') (Seq (Rep (\<lambda>r. letter_fold r \<or> r = 0x20) 0 None) (lit ''private key-----''))"

definition captchaSolverPattern :: rx where
  "captchaSolverPattern =
     (let gap = Rep (\<lambda>r. r \<noteq> 0x0A) 0 (Some 40) in
      Alt
        (Seq Bnd (Seq (Alt (lit ''solve'') (Alt (lit ''bypass'') (Alt (lit ''delegate'') (lit ''outsource''))))
          (Seq Bnd (Seq gap (Seq Bnd (Seq (lit ''captcha'') Bnd))))))
        (Seq Bnd (Seq (lit ''captcha'')
          (Seq Bnd (Seq gap (Seq Bnd (Seq (Alt (lit ''solver'') (Alt (lit ''solving'') (lit ''bypass''))) Bnd)))))))"

subsection \<open>Keys\<close>

definition is_lower_digit :: "char \<Rightarrow> bool" where
  "is_lower_digit c = (CHR ''a'' \<le> c \<and> c \<le> CHR ''z'' \<or> CHR ''0'' \<le> c \<and> c \<le> CHR ''9'')"

definition is_upper :: "char \<Rightarrow> bool" where
  "is_upper c = (CHR ''A'' \<le> c \<and> c \<le> CHR ''Z'')"

definition is_alnum :: "char \<Rightarrow> bool" where
  "is_alnum c = (is_lower_digit c \<or> is_upper c)"

text \<open>\<open>([a-z0-9])([A-Z])\<close> replaced by \<open>${1}_${2}\<close>.\<close>

fun camel_split :: "string \<Rightarrow> string" where
  "camel_split [] = []"
| "camel_split [c] = [c]"
| "camel_split (c # d # s) =
     (if is_lower_digit c \<and> is_upper d then c # CHR ''_'' # camel_split (d # s)
      else c # camel_split (d # s))"

text \<open>\<open>[^A-Za-z0-9]+\<close> replaced by \<open>_\<close>; the flag says whether a run is already open.\<close>

fun sep_runs :: "bool \<Rightarrow> string \<Rightarrow> string" where
  "sep_runs run [] = []"
| "sep_runs run (c # s) =
     (if is_alnum c then c # sep_runs False s
      else if run then sep_runs True s else CHR ''_'' # sep_runs True s)"

text \<open>\<open>_+\<close> replaced by \<open>_\<close>.\<close>

fun squeeze :: "bool \<Rightarrow> string \<Rightarrow> string" where
  "squeeze run [] = []"
| "squeeze run (c # s) =
     (if c \<noteq> CHR ''_'' then c # squeeze False s
      else if run then squeeze True s else CHR ''_'' # squeeze True s)"

text \<open>\<open>strings.Trim(value, "_")\<close>.\<close>

definition trim_underscores :: "string \<Rightarrow> string" where
  "trim_underscores s =
     rev (dropWhile (\<lambda>c. c = CHR ''_'') (rev (dropWhile (\<lambda>c. c = CHR ''_'') s)))"

definition NormalizeKey :: "string \<Rightarrow> string" where
  "NormalizeKey value =
     (let value = camel_split (trim_space value);
          value = sep_runs False value;
          value = squeeze False value
      in to_lower (trim_underscores value))"

definition reason_tokens :: string where
  "reason_tokens = ''tokens are not accepted in job payloads''"

definition reason_apikeys :: string where
  "reason_apikeys = ''API keys are not accepted in job payloads''"

definition reason_auth :: string where
  "reason_auth = ''authorization material is not accepted in job payloads''"

definition reason_captcha :: string where
  "reason_captcha = ''CAPTCHA-solving material is not accepted in job payloads''"

definition reason_cookies :: string where
  "reason_cookies = ''cookies are not accepted in job payloads''"

definition reason_credentials :: string where
  "reason_credentials = ''credentials are not accepted in job payloads''"

definition reason_mfa :: string where
  "reason_mfa = ''MFA codes are not accepted in job payloads''"

definition reason_totp :: string where
  "reason_totp = ''TOTP codes are not accepted in job payloads''"

definition reason_passwords :: string where
  "reason_passwords = ''passwords are not accepted in job payloads''"

definition reason_privkeys :: string where
  "reason_privkeys = ''private keys are not accepted in job payloads''"

definition reason_secrets :: string where
  "reason_secrets = ''secrets are not accepted in job payloads''"

definition reason_bearer :: string where
  "reason_bearer = ''bearer tokens are not accepted in job payloads''"

definition disallowedKeys :: "(string \<times> string) list" where
  "disallowedKeys =
    [(''access_token'', reason_tokens), (''api_key'', reason_apikeys), (''apikey'', reason_apikeys),
     (''auth_token'', reason_tokens), (''authorization'', reason_auth), (''bearer'', reason_bearer),
     (''captcha_response'', reason_captcha), (''captcha_solution'', reason_captcha),
     (''captcha_token'', reason_captcha), (''cookie'', reason_cookies), (''cookies'', reason_cookies),
     (''credential'', reason_credentials), (''credentials'', reason_credentials),
     (''id_token'', reason_tokens), (''mfa_code'', reason_mfa),
     (''novnc_url'', ''noVNC URLs must be generated by the runtime''),
     (''password'', reason_passwords), (''private_key'', reason_privkeys),
     (''refresh_token'', reason_tokens), (''secret'', reason_secrets),
     (''session'', ''browser session material is not accepted in job payloads''),
     (''session_cookie'', reason_cookies),
     (''session_state'', ''browser session state is not accepted in job payloads''),
     (''set_cookie'', reason_cookies),
     (''storage_state'', ''browser storage state is not accepted in job payloads''),
     (''totp'', reason_totp), (''x_api_key'', reason_apikeys)]"

definition isSecretReferenceKey :: "string \<Rightarrow> bool" where
  "isSecretReferenceKey normalized =
     (normalized = ''secret_id'' \<or> normalized = ''secret_ref'' \<or>
      suffix ''_secret_id'' normalized \<or> suffix ''_secret_ref'' normalized)"

text \<open>\<open>strings.Split(normalized, "_")\<close>.\<close>

fun split_underscore :: "string \<Rightarrow> string \<Rightarrow> string list" where
  "split_underscore acc [] = [rev acc]"
| "split_underscore acc (c # s) =
     (if c = CHR ''_'' then rev acc # split_underscore [] s else split_underscore (c # acc) s)"

definition segment_reason :: "string \<Rightarrow> string option" where
  "segment_reason segment =
     (if segment = ''password'' then Some reason_passwords
      else if segment = ''secret'' then Some reason_secrets
      else if segment = ''token'' then Some reason_tokens
      else if segment = ''credential'' \<or> segment = ''credentials'' then Some reason_credentials
      else if segment = ''cookie'' \<or> segment = ''cookies'' then Some reason_cookies
      else if segment = ''captcha'' then Some reason_captcha
      else if segment = ''totp'' then Some reason_totp
      else if segment = ''mfa'' then Some reason_mfa
      else if segment = ''authorization'' \<or> segment = ''bearer'' then Some reason_auth
      else None)"

definition compact_markers :: "(string \<times> string) list" where
  "compact_markers =
    [(''apikey'', reason_apikeys), (''privatekey'', reason_privkeys),
     (''storagestate'', ''browser storage state is not accepted in job payloads''),
     (''sessionstate'', ''browser session state is not accepted in job payloads''),
     (''sessiontoken'', reason_tokens), (''accesskey'', reason_apikeys)]"

definition disallowedKeyReason :: "string \<Rightarrow> string option" where
  "disallowedKeyReason normalized =
     (if normalized = ''manual_session'' \<or> normalized = ''session_id'' then None
      else if normalized = ''token_index'' \<or> normalized = ''token_count'' \<or>
              normalized = ''first_token'' \<or> normalized = ''token_events'' then None
      else if isSecretReferenceKey normalized then None
      else case map_of disallowedKeys normalized of
        Some reason \<Rightarrow> Some reason
      | None \<Rightarrow>
          case List.map_filter segment_reason (split_underscore [] normalized) of
            reason # _ \<Rightarrow> Some reason
          | [] \<Rightarrow>
              let compact = filter (\<lambda>c. c \<noteq> CHR ''_'') normalized in
              map_option snd (find (\<lambda>marker. sublist (fst marker) compact) compact_markers))"

subsection \<open>Validation\<close>

record violation =
  Path :: string
  Reason :: string

definition stringReason :: "string \<Rightarrow> string option" where
  "stringReason s =
     (if MatchString privateKeyValuePattern s then Some reason_privkeys
      else if MatchString bearerValuePattern s then Some reason_bearer
      else if MatchString captchaSolverPattern s
        then Some ''CAPTCHA-solving instructions are not accepted in job payloads''
      else None)"

fun validateValue :: "json \<Rightarrow> string \<Rightarrow> violation option"
  and validateEntries :: "jmap \<Rightarrow> string \<Rightarrow> violation option"
  and validateItems :: "json list \<Rightarrow> nat \<Rightarrow> string \<Rightarrow> violation option" where
  "validateValue (JObj m) path = validateEntries m path"
| "validateValue (JArr vs) path = validateItems vs 0 path"
| "validateValue (JStr s) path = map_option (\<lambda>r. \<lparr>Path = path, Reason = r\<rparr>) (stringReason s)"
| "validateValue v path = None"
| "validateEntries [] path = None"
| "validateEntries ((key, child) # m) path =
     (let childPath = path @ ''.'' @ key in
      case disallowedKeyReason (NormalizeKey key) of
        Some reason \<Rightarrow> Some \<lparr>Path = childPath, Reason = reason\<rparr>
      | None \<Rightarrow>
          (case validateValue child childPath of
             Some e \<Rightarrow> Some e
           | None \<Rightarrow> validateEntries m path))"
| "validateItems [] index path = None"
| "validateItems (child # vs) index path =
     (case validateValue child (path @ ''['' @ digits index @ '']'') of
        Some e \<Rightarrow> Some e
      | None \<Rightarrow> validateItems vs (Suc index) path)"

definition Validate :: "json \<Rightarrow> violation option" where
  "Validate value = validateValue value ''$''"

subsection \<open>What the policy promises\<close>

text \<open>The keys and the strings of a value, at every depth: the abstract view of a payload.\<close>

fun json_keys :: "json \<Rightarrow> string set" where
  "json_keys (JObj m) = fst ` set m \<union> (\<Union>kv \<in> set m. json_keys (snd kv))"
| "json_keys (JArr vs) = (\<Union>v \<in> set vs. json_keys v)"
| "json_keys _ = {}"

fun json_strings :: "json \<Rightarrow> string set" where
  "json_strings (JObj m) = (\<Union>kv \<in> set m. json_strings (snd kv))"
| "json_strings (JArr vs) = (\<Union>v \<in> set vs. json_strings v)"
| "json_strings (JStr s) = {s}"
| "json_strings _ = {}"

definition key_ok :: "string \<Rightarrow> bool" where
  "key_ok k = (disallowedKeyReason (NormalizeKey k) = None)"

definition payload_ok :: "json \<Rightarrow> bool" where
  "payload_ok v = ((\<forall>k \<in> json_keys v. key_ok k) \<and> (\<forall>s \<in> json_strings v. stringReason s = None))"

lemma payload_ok_simps [simp]:
  "payload_ok (JObj m) \<longleftrightarrow> (\<forall>kv \<in> set m. key_ok (fst kv) \<and> payload_ok (snd kv))"
  "payload_ok (JArr vs) \<longleftrightarrow> (\<forall>v \<in> set vs. payload_ok v)"
  "payload_ok (JStr s) \<longleftrightarrow> stringReason s = None"
  "payload_ok (JBool b)" "payload_ok (JNum q)" "payload_ok JNull"
  by (auto simp: payload_ok_def)

lemma validate_iff:
  "validateValue v path = None \<longleftrightarrow> payload_ok v"
  "validateEntries m path = None \<longleftrightarrow> payload_ok (JObj m)"
  "validateItems vs index path = None \<longleftrightarrow> payload_ok (JArr vs)"
  by (induction v path and m path and vs index path
      rule: validateValue_validateEntries_validateItems.induct)
    (auto simp: Let_def key_ok_def split: option.splits)

end
