(* ===== verification/Attempt.thy ===== *)
theory Attempt
  imports Prelude
begin

text \<open>
  The store-independent rules of the attempt ledger (\<open>internal/jobs/attempts.go\<close>): what an
  attempt is, which requests are well formed, the fence every write passes and the decision
  \<open>planBegin\<close> that grants the next lease. A lease generation is a Go \<open>uint64\<close>, kept at its
  width. Both stores with a ledger (memory and Postgres) share these rules.
\<close>

datatype attempt_state = AttemptActive | AttemptFinished | AttemptExpired

datatype attempt_error =
    ErrAttemptStale
  | ErrAttemptInactive
  | ErrAttemptNotFound
  | ErrAttemptConflict
  | ErrAttemptFingerprint
  | ErrAttemptSubmitted
  | ErrAttemptJobTerminal
  | ErrAttemptInvalid
  | ErrAttemptEventMismatch

text \<open>\<open>errors.Is(err, ErrAttemptFenced)\<close>.\<close>

definition is_fenced :: "attempt_error \<Rightarrow> bool" where
  "is_fenced e = (e = ErrAttemptStale \<or> e = ErrAttemptInactive)"

definition DefaultAttemptLeaseTTL :: dur where
  "DefaultAttemptLeaseTTL = 120 * second"

definition MaxAttemptLeaseTTL :: dur where
  "MaxAttemptLeaseTTL = 15 * minute"

definition MaxAttemptCommitEvents :: nat where
  "MaxAttemptCommitEvents = 256"

definition MaxAttemptIDLength :: nat where
  "MaxAttemptIDLength = 128"

definition maxAttemptFieldLength :: nat where
  "maxAttemptFieldLength = 256"

definition DefaultExpireBatch :: int where
  "DefaultExpireBatch = 100"

definition maxExpireBatch :: int where
  "maxExpireBatch = 1000"

record attempt =
  att_JobID :: string
  att_AttemptID :: string
  att_Generation :: u64
  att_NodeID :: string
  att_State :: attempt_state
  att_LeaseExpiresAt :: gotime
  att_InputFingerprint :: string
  att_WorkloadVersion :: string
  att_SubmittedAt :: "gotime option"
  att_CreatedAt :: gotime
  att_UpdatedAt :: gotime
  att_EndedAt :: "gotime option"

record attempt_ref =
  ref_JobID :: string
  ref_AttemptID :: string
  ref_Generation :: u64

record begin_request =
  bar_JobID :: string
  bar_AttemptID :: string
  bar_NodeID :: string
  bar_ExpectedGeneration :: u64
  bar_TTL :: dur
  bar_InputFingerprint :: string
  bar_WorkloadVersion :: string
  bar_AllowAfterSubmitted :: bool

definition Submitted :: "attempt \<Rightarrow> bool" where
  "Submitted a = (att_SubmittedAt a \<noteq> None)"

definition Ref :: "attempt \<Rightarrow> attempt_ref" where
  "Ref a = \<lparr>ref_JobID = att_JobID a, ref_AttemptID = att_AttemptID a,
            ref_Generation = att_Generation a\<rparr>"

definition alnum_char :: "char \<Rightarrow> bool" where
  "alnum_char c =
     list_ex (\<lambda>(lo, hi). lo \<le> c \<and> c \<le> hi)
       [(CHR ''0'', CHR ''9''), (CHR ''A'', CHR ''Z''), (CHR ''a'', CHR ''z'')]"

definition ValidAttemptID :: "string \<Rightarrow> bool" where
  "ValidAttemptID ident =
     (prefix ''att_'' ident \<and> drop 4 ident \<noteq> [] \<and> length ident \<le> MaxAttemptIDLength \<and>
      list_all alnum_char (drop 4 ident))"

definition attemptTTL :: "dur \<Rightarrow> attempt_error + dur" where
  "attemptTTL ttl =
     (if ttl = 0 then Inr DefaultAttemptLeaseTTL
      else if ttl < 0 \<or> MaxAttemptLeaseTTL < ttl then Inl ErrAttemptInvalid
      else Inr ttl)"

definition ref_validate :: "attempt_ref \<Rightarrow> attempt_error option" where
  "ref_validate r =
     (if ref_JobID r = [] \<or> \<not> ValidAttemptID (ref_AttemptID r) \<or> ref_Generation r = 0
      then Some ErrAttemptInvalid else None)"

definition begin_validate :: "begin_request \<Rightarrow> attempt_error + dur" where
  "begin_validate r =
     (if bar_JobID r = [] \<or> \<not> ValidAttemptID (bar_AttemptID r) then Inl ErrAttemptInvalid
      else if length (bar_NodeID r) > maxAttemptFieldLength
              \<or> length (bar_InputFingerprint r) > maxAttemptFieldLength
              \<or> length (bar_WorkloadVersion r) > maxAttemptFieldLength
        then Inl ErrAttemptInvalid
      else attemptTTL (bar_TTL r))"

text \<open>The fence. The stored attempt is \<open>None\<close> when the ledger has none for the reference.\<close>

definition fenceAttempt :: "attempt_ref \<Rightarrow> attempt option \<Rightarrow> bool \<Rightarrow> attempt_error option" where
  "fenceAttempt ref found allowFinished =
     (case found of
        None \<Rightarrow> Some ErrAttemptNotFound
      | Some a \<Rightarrow>
          if att_Generation a \<noteq> ref_Generation ref then Some ErrAttemptStale
          else if att_State a = AttemptActive \<or> att_State a = AttemptFinished \<and> allowFinished
            then None
          else Some ErrAttemptInactive)"

record begin_plan =
  plan_attempt :: attempt
  plan_replay :: bool
  plan_expire :: "string option" \<comment> \<open>the lapsed predecessor to mark expired\<close>

text \<open>
  \<open>planBegin\<close>. The first loop finds an attempt with the requested id: a matching active one
  is a replay, anything else is refused. Then the generation compare-and-set, the input
  fingerprint, the lease of the predecessor and the submission boundary are checked, in
  this order.
\<close>

definition planBegin ::
  "begin_request \<Rightarrow> dur \<Rightarrow> attempt list \<Rightarrow> gotime \<Rightarrow> attempt_error + begin_plan" where
  "planBegin req ttl history now =
     (case find (\<lambda>a. att_AttemptID a = bar_AttemptID req) history of
        Some a \<Rightarrow>
          if att_NodeID a \<noteq> bar_NodeID req \<or> att_InputFingerprint a \<noteq> bar_InputFingerprint req \<or>
             att_WorkloadVersion a \<noteq> bar_WorkloadVersion req \<or>
             att_Generation a \<noteq> bar_ExpectedGeneration req + 1
            then Inl ErrAttemptConflict
          else if att_State a \<noteq> AttemptActive then Inl ErrAttemptInactive
          else Inr \<lparr>plan_attempt = a, plan_replay = True, plan_expire = None\<rparr>
      | None \<Rightarrow>
          let latest = (if history = [] then None else Some (last history));
              latestGen = (case latest of None \<Rightarrow> 0 | Some l \<Rightarrow> att_Generation l);
              grant = (\<lambda>expire. Inr \<lparr>
                plan_attempt = \<lparr>
                  att_JobID = bar_JobID req, att_AttemptID = bar_AttemptID req,
                  att_Generation = latestGen + 1, att_NodeID = bar_NodeID req,
                  att_State = AttemptActive, att_LeaseExpiresAt = now + ttl,
                  att_InputFingerprint = bar_InputFingerprint req,
                  att_WorkloadVersion = bar_WorkloadVersion req,
                  att_SubmittedAt = None, att_CreatedAt = now, att_UpdatedAt = now,
                  att_EndedAt = None\<rparr>,
                plan_replay = False, plan_expire = expire\<rparr>)
          in if latestGen \<noteq> bar_ExpectedGeneration req then Inl ErrAttemptConflict
             else (case latest of
                None \<Rightarrow> grant None
              | Some l \<Rightarrow>
                  if att_Generation l = 0 then grant None
                  else if att_InputFingerprint l \<noteq> bar_InputFingerprint req
                    then Inl ErrAttemptFingerprint
                  else if att_State l = AttemptActive \<and> now < att_LeaseExpiresAt l
                    then Inl ErrAttemptConflict
                  else if att_SubmittedAt l \<noteq> None \<and> \<not> bar_AllowAfterSubmitted req
                    then Inl ErrAttemptSubmitted
                  else grant (if att_State l = AttemptActive then Some (att_AttemptID l) else None)))"

definition expireBatch :: "int \<Rightarrow> int" where
  "expireBatch limit = (if limit \<le> 0 then DefaultExpireBatch else min limit maxExpireBatch)"

subsection \<open>Facts about the rules\<close>

lemma attemptTTL_bounds: "attemptTTL ttl = Inr d \<Longrightarrow> 0 < d \<and> d \<le> MaxAttemptLeaseTTL"
  by (auto simp: attemptTTL_def DefaultAttemptLeaseTTL_def MaxAttemptLeaseTTL_def split: if_splits)

lemma begin_validate_bounds:
  "begin_validate r = Inr d \<Longrightarrow> 0 < d \<and> d \<le> MaxAttemptLeaseTTL"
  by (auto simp: begin_validate_def attemptTTL_bounds split: if_splits)

lemma begin_validate_id: "begin_validate r = Inr d \<Longrightarrow> ValidAttemptID (bar_AttemptID r)"
  by (auto simp: begin_validate_def split: if_splits)

lemma fence_open:
  "fenceAttempt ref found allow = None \<longleftrightarrow>
     (\<exists>a. found = Some a \<and> att_Generation a = ref_Generation ref \<and>
          (att_State a = AttemptActive \<or> allow \<and> att_State a = AttemptFinished))"
  by (auto simp: fenceAttempt_def split: option.splits)

lemma expireBatch_bounds: "0 < expireBatch n \<and> expireBatch n \<le> maxExpireBatch"
  by (auto simp: expireBatch_def DefaultExpireBatch_def maxExpireBatch_def)

end
