(* ===== verification/JobStore.thy ===== *)
theory JobStore
  imports JobStatus PayloadPolicy Attempt
begin

text \<open>
  The in-memory job store (\<open>internal/jobs/memory.go\<close>, types of \<open>internal/jobs/store.go\<close>):
  its state, every operation that changes it, the worker-event data rules and the invariant
  all operations keep.

  The store's injected clock \<open>now func() time.Time\<close> is the field \<open>ms_now\<close>: reading it
  returns the value of the current tick and advances the tick, so each call of the source's
  \<open>m.now()\<close> is a reading of its own. Counters (\<open>sequence\<close>, \<open>eventSeq\<close>) are natural
  numbers; Go's 64-bit counters do not reach their bound. Waiting (\<open>WaitEvents\<close>) blocks on a
  condition variable and re-reads \<open>listEventsLocked\<close>; only that read is modelled.

  Go's \<open>encoding/json.Marshal\<close> (only the length of its output is used), the RFC 3339
  rendering, \<open>net/url.Parse\<close> and \<open>net.ParseIP\<close> are the fields of an \<open>env\<close> argument.
\<close>

subsection \<open>Data\<close>

record url =
  url_Scheme :: string
  url_hasUser :: bool
  url_RawQuery :: string
  url_Fragment :: string
  url_Hostname :: string
  url_Port :: string
  url_EscapedPath :: string

record env =
  marshal_len :: "json \<Rightarrow> int"
  format_time :: "gotime \<Rightarrow> string"
  parse_url :: "string \<Rightarrow> url option"
  ip_loopback :: "string \<Rightarrow> bool option" \<comment> \<open>\<open>None\<close>: not an IP address\<close>

record event =
  evt_ID :: string
  evt_JobID :: string
  evt_APIVersion :: string
  evt_Type :: string
  evt_Sequence :: nat
  evt_Data :: jmap
  evt_TraceID :: string
  evt_CreatedAt :: gotime

record worker_event =
  we_EventID :: string
  we_JobID :: string
  we_APIVersion :: string
  we_Type :: string
  we_Sequence :: int
  we_Data :: "jmap option" \<comment> \<open>\<open>None\<close>: a nil map\<close>
  we_TraceID :: string
  we_CreatedAt :: gotime

record create_request =
  cr_APIVersion :: string
  cr_TenantID :: string
  cr_AppID :: string
  cr_IdempotencyKey :: string
  cr_Target :: string
  cr_CommandType :: string
  cr_Client :: "jmap option"
  cr_ConversationID :: string
  cr_TemplateID :: string
  cr_Input :: "jmap option"
  cr_Options :: "jmap option"
  cr_Callbacks :: "jmap option"
  cr_Context :: "jmap option"
  cr_TraceID :: string
  cr_RetryOf :: string
  cr_NotBefore :: "gotime option"
  cr_AwaitingAttachments :: bool

record job =
  job_ID :: string
  job_APIVersion :: string
  job_TenantID :: string
  job_AppID :: string
  job_IdempotencyKey :: string
  job_Target :: string
  job_CommandType :: string
  job_Client :: "jmap option"
  job_ConversationID :: string
  job_TemplateID :: string
  job_Input :: "jmap option"
  job_Options :: "jmap option"
  job_Callbacks :: "jmap option"
  job_Context :: "jmap option"
  job_Status :: status
  job_Result :: json
  job_TraceID :: string
  job_RetryOf :: string
  job_NotBefore :: "gotime option"
  job_CreatedAt :: gotime
  job_UpdatedAt :: gotime

record list_filter =
  lf_TenantID :: string
  lf_AppID :: string
  lf_Status :: string
  lf_Target :: string
  lf_Descending :: bool
  lf_AfterID :: string
  lf_Limit :: int

record event_filter =
  ef_TenantID :: string
  ef_AppID :: string
  ef_AfterEventID :: string
  ef_Limit :: int

record memory_store =
  ms_now :: "nat \<Rightarrow> gotime"
  ms_ticks :: nat
  ms_sequence :: nat
  ms_eventSeqGlobal :: nat
  ms_eventSeq :: "string \<Rightarrow> nat"
  ms_eventKey :: "string \<Rightarrow> string set"
  ms_jobs :: "string \<Rightarrow> job option"
  ms_events :: "string \<Rightarrow> event list"
  ms_order :: "string list"
  ms_attempts :: "string \<Rightarrow> attempt list"

datatype job_error =
    UnknownStatus status
  | JobIDRequired
  | TypeRequired
  | TypeUnsupported string
  | APIVersionRequired
  | TraceIDRequired
  | EventKeyRequired
  | APIVersionMismatch string string
  | TraceIDMismatch string string
  | DataTooLarge
  | DataUnsafe violation
  | BatchSize
  | BatchMixesJobs string string

definition NewMemoryStore :: "(nat \<Rightarrow> gotime) \<Rightarrow> memory_store" where
  "NewMemoryStore clock =
     \<lparr>ms_now = clock, ms_ticks = 0, ms_sequence = 0, ms_eventSeqGlobal = 0, ms_eventSeq = (\<lambda>_. 0),
      ms_eventKey = (\<lambda>_. {}), ms_jobs = Map.empty, ms_events = (\<lambda>_. []), ms_order = [],
      ms_attempts = (\<lambda>_. [])\<rparr>"

text \<open>\<open>m.now().UTC()\<close>\<close>

definition now_value :: "memory_store \<Rightarrow> gotime" where
  "now_value m = ms_now m (ms_ticks m)"

definition tick :: "memory_store \<Rightarrow> memory_store" where
  "tick m = m\<lparr>ms_ticks := Suc (ms_ticks m)\<rparr>"

definition job_ident :: "nat \<Rightarrow> string" where
  "job_ident n = ''job_'' @ pad12 n"

definition event_ident :: "nat \<Rightarrow> string" where
  "event_ident n = ''evt_'' @ pad12 n"

lemma job_ident_inj [simp]: "job_ident a = job_ident b \<longleftrightarrow> a = b"
  by (simp add: job_ident_def)

lemma event_ident_inj [simp]: "event_ident a = event_ident b \<longleftrightarrow> a = b"
  by (simp add: event_ident_def)

subsection \<open>Appending an event\<close>

definition appendEventLocked :: "memory_store \<Rightarrow> job \<Rightarrow> string \<Rightarrow> jmap \<Rightarrow> memory_store" where
  "appendEventLocked m job eventType data =
     (let g = Suc (ms_eventSeqGlobal m);
          sequence = Suc (ms_eventSeq m (job_ID job));
          e = \<lparr>evt_ID = event_ident g, evt_JobID = job_ID job, evt_APIVersion = job_APIVersion job,
               evt_Type = eventType, evt_Sequence = sequence, evt_Data = data,
               evt_TraceID = job_TraceID job, evt_CreatedAt = now_value m\<rparr>
      in tick m\<lparr>ms_eventSeqGlobal := g,
                ms_eventSeq := (ms_eventSeq m)(job_ID job := sequence),
                ms_events := (ms_events m)(job_ID job := ms_events m (job_ID job) @ [e])\<rparr>)"

subsection \<open>Create and the status operations\<close>

definition create_status :: "create_request \<Rightarrow> gotime \<Rightarrow> status" where
  "create_status request now =
     (if cr_AwaitingAttachments request then StatusCreated
      else case cr_NotBefore request of
        Some nb \<Rightarrow> if now < nb then StatusScheduled else StatusQueued
      | None \<Rightarrow> StatusQueued)"

definition Create :: "create_request \<Rightarrow> memory_store \<Rightarrow> memory_store \<times> job" where
  "Create request m0 =
     (let m1 = m0\<lparr>ms_sequence := Suc (ms_sequence m0)\<rparr>;
          now = now_value m1;
          m2 = tick m1;
          ident = job_ident (ms_sequence m1);
          job = \<lparr>job_ID = ident, job_APIVersion = cr_APIVersion request,
                 job_TenantID = cr_TenantID request, job_AppID = cr_AppID request,
                 job_IdempotencyKey = cr_IdempotencyKey request, job_Target = cr_Target request,
                 job_CommandType = cr_CommandType request, job_Client = cr_Client request,
                 job_ConversationID = cr_ConversationID request,
                 job_TemplateID = cr_TemplateID request, job_Input = cr_Input request,
                 job_Options = cr_Options request, job_Callbacks = cr_Callbacks request,
                 job_Context = cr_Context request, job_Status = create_status request now,
                 job_Result = JNull, job_TraceID = cr_TraceID request,
                 job_RetryOf = cr_RetryOf request, job_NotBefore = cr_NotBefore request,
                 job_CreatedAt = now, job_UpdatedAt = now\<rparr>;
          m3 = m2\<lparr>ms_jobs := (ms_jobs m2)(ident \<mapsto> job), ms_order := ms_order m2 @ [ident]\<rparr>;
          initialEvent = (if job_Status job = StatusCreated then ''created'' else ''queued'')
      in (appendEventLocked m3 job initialEvent
            [(''status'', JStr (status_string (job_Status job))),
             (''target'', JStr (job_Target job)),
             (''command_type'', JStr (job_CommandType job))], job))"

text \<open>
  The results of the mutators: an error, or the job read (\<open>None\<close> when the id is unknown)
  together with the flag the source returns beside it.
\<close>

definition set_status :: "job \<Rightarrow> status \<Rightarrow> memory_store \<Rightarrow> memory_store \<times> job" where
  "set_status job st m =
     (let job' = job\<lparr>job_Status := st, job_UpdatedAt := now_value m\<rparr>;
          m1 = tick m;
          m2 = m1\<lparr>ms_jobs := (ms_jobs m1)(job_ID job \<mapsto> job')\<rparr>
      in (appendEventLocked m2 job' (status_string st)
            [(''status'', JStr (status_string st)), (''target'', JStr (job_Target job'))], job'))"

definition TransitionStatus ::
  "string \<Rightarrow> status \<Rightarrow> status \<Rightarrow> memory_store \<Rightarrow> memory_store \<times> (job_error + job option \<times> bool)" where
  "TransitionStatus ident from_st to_st m =
     (if \<not> KnownStatus to_st then (m, Inl (UnknownStatus to_st))
      else case ms_jobs m ident of
        None \<Rightarrow> (m, Inr (None, False))
      | Some job \<Rightarrow>
          if job_Status job \<noteq> from_st then (m, Inr (Some job, False))
          else let (m', job') = set_status job to_st m in (m', Inr (Some job', True)))"

definition UpdateStatus ::
  "string \<Rightarrow> status \<Rightarrow> memory_store \<Rightarrow> memory_store \<times> (job_error + job option \<times> bool)" where
  "UpdateStatus ident st m =
     (if \<not> KnownStatus st then (m, Inl (UnknownStatus st))
      else case ms_jobs m ident of
        None \<Rightarrow> (m, Inr (None, False))
      | Some job \<Rightarrow>
          if job_Status job = st then (m, Inr (Some job, True))
          else if TerminalStatus (job_Status job) then (m, Inr (Some job, True))
          else if \<not> shouldAdvanceStatus (job_Status job) st then (m, Inr (Some job, True))
          else let (m', job') = set_status job st m in (m', Inr (Some job', True)))"

subsection \<open>Reads\<close>

definition GetScoped :: "string \<Rightarrow> string \<Rightarrow> string \<Rightarrow> memory_store \<Rightarrow> job option" where
  "GetScoped ident tenantID appID m =
     (case ms_jobs m ident of
        None \<Rightarrow> None
      | Some job \<Rightarrow> if job_TenantID job \<noteq> tenantID \<or> job_AppID job \<noteq> appID then None else Some job)"

definition filter_matches :: "list_filter \<Rightarrow> job \<Rightarrow> bool" where
  "filter_matches f job =
     (\<not> (lf_TenantID f \<noteq> [] \<and> job_TenantID job \<noteq> lf_TenantID f) \<and>
      \<not> (lf_AppID f \<noteq> [] \<and> job_AppID job \<noteq> lf_AppID f) \<and>
      \<not> (lf_Status f \<noteq> [] \<and> status_string (job_Status job) \<noteq> lf_Status f) \<and>
      \<not> (lf_Target f \<noteq> [] \<and> job_Target job \<noteq> lf_Target f))"

definition matching_jobs :: "list_filter \<Rightarrow> memory_store \<Rightarrow> job list" where
  "matching_jobs f m = filter (filter_matches f) (List.map_filter (ms_jobs m) (ms_order m))"

definition ordered_jobs :: "list_filter \<Rightarrow> memory_store \<Rightarrow> job list" where
  "ordered_jobs f m =
     (let jobs = sort_key (\<lambda>job. (job_CreatedAt job, job_ID job)) (matching_jobs f m)
      in if lf_Descending f then rev jobs else jobs)"

text \<open>\<open>jobs[index+1:]\<close> after the cursor job; an absent cursor leaves the list as it is.\<close>

fun after_cursor :: "('a \<Rightarrow> bool) \<Rightarrow> 'a list \<Rightarrow> 'a list option" where
  "after_cursor P [] = None"
| "after_cursor P (x # xs) = (if P x then Some xs else after_cursor P xs)"

definition ListJobs :: "list_filter \<Rightarrow> memory_store \<Rightarrow> job list" where
  "ListJobs f m =
     (let jobs = ordered_jobs f m;
          jobs = (if trim_space (lf_AfterID f) \<noteq> []
                  then (case after_cursor (\<lambda>job. job_ID job = lf_AfterID f) jobs of
                          Some rest \<Rightarrow> rest | None \<Rightarrow> jobs)
                  else jobs)
      in if 0 < lf_Limit f \<and> lf_Limit f < int (length jobs) then take (nat (lf_Limit f)) jobs
         else jobs)"

definition CountsByStatus :: "list_filter \<Rightarrow> memory_store \<Rightarrow> (status \<Rightarrow> nat) \<times> nat" where
  "CountsByStatus f m =
     fold (\<lambda>job (counts, total). (counts(job_Status job := Suc (counts (job_Status job))), Suc total))
       (matching_jobs f m) (\<lambda>_. 0, 0)"

definition listEventsLocked :: "string \<Rightarrow> int \<Rightarrow> int \<Rightarrow> memory_store \<Rightarrow> event list option" where
  "listEventsLocked jobID afterSequence limit m =
     (case ms_jobs m jobID of
        None \<Rightarrow> None
      | Some _ \<Rightarrow>
          let limit = (if limit \<le> 0 then 100 else limit)
          in Some (take (nat limit)
                (filter (\<lambda>e. \<not> int (evt_Sequence e) \<le> afterSequence) (ms_events m jobID))))"

definition RecentEvents :: "string \<Rightarrow> int \<Rightarrow> memory_store \<Rightarrow> event list option" where
  "RecentEvents jobID limit m =
     (case ms_jobs m jobID of
        None \<Rightarrow> None
      | Some _ \<Rightarrow>
          let limit = (if limit \<le> 0 then 100 else limit);
              items = ms_events m jobID;
              start = (if limit < int (length items) then length items - nat limit else 0)
          in Some (drop start items))"

definition scoped_events :: "event_filter \<Rightarrow> memory_store \<Rightarrow> event list" where
  "scoped_events f m =
     sort_key (\<lambda>e. (evt_CreatedAt e, evt_ID e))
       (concat (map (\<lambda>jobID.
          case ms_jobs m jobID of
            None \<Rightarrow> []
          | Some job \<Rightarrow>
              if ef_TenantID f \<noteq> [] \<and> job_TenantID job \<noteq> ef_TenantID f then []
              else if ef_AppID f \<noteq> [] \<and> job_AppID job \<noteq> ef_AppID f then []
              else ms_events m jobID) (ms_order m)))"

definition ListAllEvents :: "event_filter \<Rightarrow> memory_store \<Rightarrow> event list" where
  "ListAllEvents f m =
     (let limit = (if ef_Limit f \<le> 0 then 100 else ef_Limit f);
          scoped = scoped_events f m;
          rest = (if ef_AfterEventID f = [] then scoped
                  else case after_cursor (\<lambda>e. evt_ID e = ef_AfterEventID f) scoped of
                    Some rest \<Rightarrow> rest | None \<Rightarrow> [])
      in take (nat limit) rest)"

subsection \<open>Worker-event data\<close>

definition session_id_char :: "char \<Rightarrow> bool" where
  "session_id_char c = (is_alnum c \<or> c \<in> {CHR ''_'', CHR ''-'', CHR ''.'', CHR '':''})"

definition isSafeRuntimeSessionID :: "json \<Rightarrow> bool" where
  "isSafeRuntimeSessionID value =
     (case value of
        JStr text \<Rightarrow>
          let text = trim_space text
          in text \<noteq> [] \<and> length text \<le> 128 \<and> list_all session_id_char text
      | _ \<Rightarrow> False)"

definition isSafeLoopbackNoVNCURL :: "env \<Rightarrow> json \<Rightarrow> bool" where
  "isSafeLoopbackNoVNCURL env value =
     (case value of
        JStr text \<Rightarrow>
          (case parse_url env (trim_space text) of
             None \<Rightarrow> False
           | Some parsed \<Rightarrow>
               if url_Scheme parsed \<noteq> ''http'' \<or> url_hasUser parsed \<or> url_RawQuery parsed \<noteq> []
                  \<or> url_Fragment parsed \<noteq> [] then False
               else if url_Hostname parsed = [] \<or> url_Port parsed = []
                  \<or> \<not> prefix ''/session/'' (url_EscapedPath parsed) then False
               else (case ip_loopback env (url_Hostname parsed) of
                       Some loopback \<Rightarrow> loopback
                     | None \<Rightarrow> EqualFold (url_Hostname parsed) ''localhost''))
      | _ \<Rightarrow> False)"

definition allowManualRuntimeEventKey :: "env \<Rightarrow> string \<Rightarrow> string \<Rightarrow> json \<Rightarrow> bool" where
  "allowManualRuntimeEventKey env eventType key value =
     (if eventType \<noteq> ''session.manual_action_required'' then False
      else if NormalizeKey key = ''session_id'' then isSafeRuntimeSessionID value
      else if NormalizeKey key = ''novnc_url'' then isSafeLoopbackNoVNCURL env value
      else False)"

definition redacted_keys :: "string list" where
  "redacted_keys =
    [''access_token'', ''api_key'', ''apikey'', ''auth_token'', ''authorization'', ''bearer'',
     ''captcha_response'', ''captcha_solution'', ''captcha_token'', ''cookie'', ''cookies'',
     ''credential'', ''credentials'', ''id_token'', ''mfa_code'', ''novnc_url'', ''password'',
     ''private_key'', ''refresh_token'', ''secret'', ''session'', ''session_cookie'',
     ''session_id'', ''session_state'', ''set_cookie'', ''storage_state'', ''totp'',
     ''x_api_key'']"

definition redactWorkerEventKey :: "env \<Rightarrow> string \<Rightarrow> string \<Rightarrow> json \<Rightarrow> bool" where
  "redactWorkerEventKey env eventType key value =
     (if allowManualRuntimeEventKey env eventType key value then False
      else if eventType = ''session.manual_action_required'' \<and>
              (NormalizeKey key = ''session_id'' \<or> NormalizeKey key = ''novnc_url'') then True
      else List.member redacted_keys (NormalizeKey key))"

fun sanitizeWorkerData :: "env \<Rightarrow> string \<Rightarrow> json \<Rightarrow> json"
  and sanitizeEntries :: "env \<Rightarrow> string \<Rightarrow> jmap \<Rightarrow> jmap"
  and sanitizeItems :: "env \<Rightarrow> string \<Rightarrow> json list \<Rightarrow> json list" where
  "sanitizeWorkerData env et (JObj m) = JObj (sanitizeEntries env et m)"
| "sanitizeWorkerData env et (JArr vs) = JArr (sanitizeItems env et vs)"
| "sanitizeWorkerData env et v = v"
| "sanitizeEntries env et [] = []"
| "sanitizeEntries env et ((key, child) # m) =
     (key, if redactWorkerEventKey env et key child then JStr ''[redacted]''
           else sanitizeWorkerData env et child) # sanitizeEntries env et m"
| "sanitizeItems env et [] = []"
| "sanitizeItems env et (v # vs) = sanitizeWorkerData env et v # sanitizeItems env et vs"

fun removeUnsafeWorkerKeys :: "env \<Rightarrow> string \<Rightarrow> json \<Rightarrow> json"
  and removeUnsafeEntries :: "env \<Rightarrow> string \<Rightarrow> jmap \<Rightarrow> jmap"
  and removeUnsafeItems :: "env \<Rightarrow> string \<Rightarrow> json list \<Rightarrow> json list" where
  "removeUnsafeWorkerKeys env et (JObj m) = JObj (removeUnsafeEntries env et m)"
| "removeUnsafeWorkerKeys env et (JArr vs) = JArr (removeUnsafeItems env et vs)"
| "removeUnsafeWorkerKeys env et v = v"
| "removeUnsafeEntries env et [] = []"
| "removeUnsafeEntries env et ((key, child) # m) =
     (if redactWorkerEventKey env et key child \<or> allowManualRuntimeEventKey env et key child
      then removeUnsafeEntries env et m
      else (key, removeUnsafeWorkerKeys env et child) # removeUnsafeEntries env et m)"
| "removeUnsafeItems env et [] = []"
| "removeUnsafeItems env et (v # vs) = removeUnsafeWorkerKeys env et v # removeUnsafeItems env et vs"

definition validateWorkerEventData :: "env \<Rightarrow> string \<Rightarrow> jmap option \<Rightarrow> job_error option" where
  "validateWorkerEventData env eventType data =
     (case data of
        None \<Rightarrow> None
      | Some m \<Rightarrow>
          if 64 * 1024 < marshal_len env (JObj m) then Some DataTooLarge
          else map_option DataUnsafe (Validate (removeUnsafeWorkerKeys env eventType (JObj m))))"

subsection \<open>Worker events\<close>

definition show_int :: "int \<Rightarrow> string" where
  "show_int i = (if i < 0 then ''-'' @ digits (nat (- i)) else digits (nat i))"

definition workerEventKey :: "worker_event \<Rightarrow> string" where
  "workerEventKey event =
     (if we_EventID event \<noteq> [] then ''id:'' @ we_EventID event
      else if 0 < we_Sequence event then ''seq:'' @ show_int (we_Sequence event) @ '':'' @ we_Type event
      else [])"

definition checkWorkerEvent :: "worker_event \<Rightarrow> job_error option" where
  "checkWorkerEvent event =
     (if we_JobID event = [] then Some JobIDRequired
      else if we_Type event = [] then Some TypeRequired
      else if \<not> knownWorkerEventType (we_Type event) then Some (TypeUnsupported (we_Type event))
      else if we_APIVersion event = [] then Some APIVersionRequired
      else if we_TraceID event = [] then Some TraceIDRequired
      else if workerEventKey event = [] then Some EventKeyRequired
      else None)"

definition checkWorkerEventAgainstJob :: "job \<Rightarrow> worker_event \<Rightarrow> job_error option" where
  "checkWorkerEventAgainstJob job event =
     (if we_APIVersion event \<noteq> job_APIVersion job
        then Some (APIVersionMismatch (we_APIVersion event) (job_APIVersion job))
      else if job_TraceID job \<noteq> [] \<and> we_TraceID event \<noteq> job_TraceID job
        then Some (TraceIDMismatch (we_TraceID event) (job_TraceID job))
      else None)"

text \<open>Reading a possibly nil Go map.\<close>

definition data_map :: "worker_event \<Rightarrow> jmap" where
  "data_map event = (case we_Data event of None \<Rightarrow> [] | Some m \<Rightarrow> m)"

definition statusFromWorkerEvent :: "worker_event \<Rightarrow> status \<Rightarrow> status" where
  "statusFromWorkerEvent event fallback =
     (let mapped = (case workerEventStatus (we_Type event) (event_retryable (data_map event)) of
                      Some st \<Rightarrow> st | None \<Rightarrow> fallback)
      in case map_of (data_map event) ''status'' of
           Some (JStr s) \<Rightarrow>
             (let candidate = Status s
              in if KnownStatus candidate \<and> \<not> TerminalStatus candidate
                    \<and> shouldAdvanceStatus fallback candidate
                 then candidate else mapped)
         | _ \<Rightarrow> mapped)"

definition wrapped_text :: "string \<Rightarrow> json" where
  "wrapped_text text =
     JObj [(''output'', JObj [(''text'', JStr text), (''plain_text'', JStr text), (''sections'', JObj [])]),
           (''validation'', JObj [(''schema_id'', JStr ''worker.text.out''), (''passed'', JBool True)]),
           (''cached'', JBool False), (''cache_source'', JNull)]"

text \<open>\<open>None\<close> is Go's nil: no result.\<close>

definition resultFromWorkerEvent :: "worker_event \<Rightarrow> jmap \<Rightarrow> json option" where
  "resultFromWorkerEvent event data =
     (let st = statusFromWorkerEvent event (StatusOther [])
      in if st \<noteq> StatusCompleted \<and> st \<noteq> StatusCompletedWithWarnings \<and>
            we_Type event \<noteq> ''completed'' \<and> we_Type event \<noteq> ''completed_with_warnings''
         then None
         else case map_of data ''result'' of
           None \<Rightarrow> None
         | Some JNull \<Rightarrow> None
         | Some (JObj result) \<Rightarrow>
             (case map_of result ''output'' of
                Some (JObj _) \<Rightarrow> Some (JObj result)
              | _ \<Rightarrow>
                  (case map_of result ''text'' of
                     Some (JStr text) \<Rightarrow> Some (wrapped_text text)
                   | _ \<Rightarrow> Some (JObj result)))
         | Some raw \<Rightarrow> Some raw)"

text \<open>The data recorded for an event: sanitised, with the worker's metadata added.\<close>

definition recorded_data :: "env \<Rightarrow> worker_event \<Rightarrow> jmap" where
  "recorded_data env event =
     (let metadata =
            [(''event_id'', JStr (we_EventID event)),
             (''sequence'', JNum (of_int (we_Sequence event))),
             (''type'', JStr (we_Type event))] @
            (if IsZero (we_CreatedAt event) then []
             else [(''created_at'', JStr (format_time env (we_CreatedAt event)))])
      in jput ''worker_event'' (JObj metadata)
           (sanitizeEntries env (we_Type event) (data_map event)))"

definition applyWorkerEventLocked ::
  "env \<Rightarrow> memory_store \<Rightarrow> job \<Rightarrow> worker_event \<Rightarrow> memory_store \<times> job \<times> job_error option" where
  "applyWorkerEventLocked env m job event =
     (case checkWorkerEventAgainstJob job event of
        Some e \<Rightarrow> (m, job, Some e)
      | None \<Rightarrow>
          let eventKey = workerEventKey event;
              keys = ms_eventKey m (job_ID job)
          in if eventKey \<noteq> [] \<and> eventKey \<in> keys then (m, job, None)
             else
               let m1 = (if eventKey \<noteq> []
                         then m\<lparr>ms_eventKey := (ms_eventKey m)(job_ID job := insert eventKey keys)\<rparr>
                         else m)
               in if TerminalStatus (job_Status job) then (m1, job, None)
                  else case validateWorkerEventData env (we_Type event) (we_Data event) of
                    Some e \<Rightarrow> (m1, job, Some e)
                  | None \<Rightarrow>
                      let data = recorded_data env event;
                          nextStatus = statusFromWorkerEvent event (job_Status job);
                          job1 = (case resultFromWorkerEvent event data of
                                    Some result \<Rightarrow> job\<lparr>job_Result := result\<rparr> | None \<Rightarrow> job);
                          job2 = (if shouldAdvanceStatus (job_Status job1) nextStatus
                                  then job1\<lparr>job_Status := nextStatus\<rparr> else job1);
                          job3 = job2\<lparr>job_UpdatedAt := now_value m1\<rparr>;
                          m2 = tick m1;
                          m3 = m2\<lparr>ms_jobs := (ms_jobs m2)(job_ID job3 \<mapsto> job3)\<rparr>
                      in (appendEventLocked m3 job3 (we_Type event) data, job3, None))"

definition ApplyWorkerEvent ::
  "env \<Rightarrow> worker_event \<Rightarrow> memory_store \<Rightarrow> memory_store \<times> (job_error + job option)" where
  "ApplyWorkerEvent env event m =
     (case checkWorkerEvent event of
        Some e \<Rightarrow> (m, Inl e)
      | None \<Rightarrow>
          (case ms_jobs m (we_JobID event) of
             None \<Rightarrow> (m, Inr None)
           | Some job \<Rightarrow>
               (case applyWorkerEventLocked env m job event of
                  (m', job', None) \<Rightarrow> (m', Inr (Some job'))
                | (m', job', Some e) \<Rightarrow> (m', Inl e))))"

fun apply_each ::
  "env \<Rightarrow> memory_store \<Rightarrow> job \<Rightarrow> worker_event list \<Rightarrow> memory_store \<times> job \<times> job_error option" where
  "apply_each env m job [] = (m, job, None)"
| "apply_each env m job (event # events) =
     (case applyWorkerEventLocked env m job event of
        (m', job', Some e) \<Rightarrow> (m', job', Some e)
      | (m', job', None) \<Rightarrow> apply_each env m' job' events)"

definition applyBatchLocked ::
  "env \<Rightarrow> memory_store \<Rightarrow> job \<Rightarrow> worker_event list \<Rightarrow> memory_store \<times> job \<times> job_error option" where
  "applyBatchLocked env m job events =
     (let before = job;
          eventCount = length (ms_events m (job_ID job));
          eventSeq = ms_eventSeq m (job_ID job);
          globalSeq = ms_eventSeqGlobal m;
          keys = ms_eventKey m (job_ID job)
      in case apply_each env m job events of
           (m', job', None) \<Rightarrow> (m', job', None)
         | (m', job', Some e) \<Rightarrow>
             (m'\<lparr>ms_jobs := (ms_jobs m')(job_ID before \<mapsto> before),
                 ms_events := (ms_events m')
                   (job_ID before := take eventCount (ms_events m' (job_ID before))),
                 ms_eventSeq := (ms_eventSeq m')(job_ID before := eventSeq),
                 ms_eventSeqGlobal := globalSeq,
                 ms_eventKey := (ms_eventKey m')(job_ID before := keys)\<rparr>, before, Some e))"

fun check_batch :: "string \<Rightarrow> worker_event list \<Rightarrow> job_error option" where
  "check_batch first [] = None"
| "check_batch first (event # events) =
     (if we_JobID event \<noteq> first then Some (BatchMixesJobs first (we_JobID event))
      else case checkWorkerEvent event of
        Some e \<Rightarrow> Some e
      | None \<Rightarrow> check_batch first events)"

definition validateEventBatch :: "worker_event list \<Rightarrow> job_error option" where
  "validateEventBatch events =
     (case events of
        [] \<Rightarrow> Some BatchSize
      | event # _ \<Rightarrow>
          if MaxAttemptCommitEvents < length events then Some BatchSize
          else check_batch (we_JobID event) events)"

definition ApplyWorkerEvents ::
  "env \<Rightarrow> worker_event list \<Rightarrow> memory_store \<Rightarrow> memory_store \<times> (job_error + job option)" where
  "ApplyWorkerEvents env events m =
     (case validateEventBatch events of
        Some e \<Rightarrow> (m, Inl e)
      | None \<Rightarrow>
          (case ms_jobs m (we_JobID (hd events)) of
             None \<Rightarrow> (m, Inr None)
           | Some job \<Rightarrow>
               (case applyBatchLocked env m job events of
                  (m', job', None) \<Rightarrow> (m', Inr (Some job'))
                | (m', job', Some e) \<Rightarrow> (m', Inl e))))"

end
