(* ===== verification/JobStoreInv.thy ===== *)
theory JobStoreInv
  imports JobStore
begin

text \<open>
  The invariant of the in-memory job store and its preservation by each operation of
  \<open>internal/jobs/memory.go\<close>: ids are the rendered counters and never reused, every status is
  a declared one, each job's event log carries the sequence numbers 1, 2, 3, ... without a
  gap, and no event id occurs twice in the whole store. The second half is the forward order:
  what an operation may do to the jobs that exist.
\<close>

definition jobs_ok :: "memory_store \<Rightarrow> bool" where
  "jobs_ok m =
     ((\<forall>ident j. ms_jobs m ident = Some j \<longrightarrow>
         job_ID j = ident \<and> KnownStatus (job_Status j) \<and> (\<exists>k \<le> ms_sequence m. ident = job_ident k)) \<and>
      set (ms_order m) = dom (ms_jobs m) \<and> distinct (ms_order m))"

definition logs_ok :: "memory_store \<Rightarrow> bool" where
  "logs_ok m =
     (\<forall>ident. map evt_Sequence (ms_events m ident) = [1 ..< Suc (ms_eventSeq m ident)] \<and>
        (\<forall>e \<in> set (ms_events m ident). evt_JobID e = ident) \<and>
        (ms_events m ident \<noteq> [] \<longrightarrow> ident \<in> dom (ms_jobs m)))"

definition event_ids_ok :: "memory_store \<Rightarrow> bool" where
  "event_ids_ok m =
     ((\<forall>ident. \<forall>e \<in> set (ms_events m ident). \<exists>g \<le> ms_eventSeqGlobal m. evt_ID e = event_ident g) \<and>
      (\<forall>id1 id2 i j. i < length (ms_events m id1) \<longrightarrow> j < length (ms_events m id2) \<longrightarrow>
         evt_ID (ms_events m id1 ! i) = evt_ID (ms_events m id2 ! j) \<longrightarrow> id1 = id2 \<and> i = j))"

definition store_ok :: "memory_store \<Rightarrow> bool" where
  "store_ok m = (jobs_ok m \<and> logs_ok m \<and> event_ids_ok m)"

lemma store_ok_new: "store_ok (NewMemoryStore clock)"
  by (simp add: store_ok_def jobs_ok_def logs_ok_def event_ids_ok_def NewMemoryStore_def)

lemma jobs_okD:
  "store_ok m \<Longrightarrow> ms_jobs m ident = Some j \<Longrightarrow> job_ID j = ident \<and> KnownStatus (job_Status j)"
  by (auto simp: store_ok_def jobs_ok_def)

lemma tick_simps [simp]:
  "ms_jobs (tick m) = ms_jobs m" "ms_events (tick m) = ms_events m"
  "ms_eventSeq (tick m) = ms_eventSeq m" "ms_eventKey (tick m) = ms_eventKey m"
  "ms_eventSeqGlobal (tick m) = ms_eventSeqGlobal m" "ms_sequence (tick m) = ms_sequence m"
  "ms_order (tick m) = ms_order m" "ms_attempts (tick m) = ms_attempts m"
  by (simp_all add: tick_def)

text \<open>Neither the clock nor the dedupe keys nor the attempt ledger matter to the invariant.\<close>

lemma store_ok_frame [simp]:
  "store_ok (tick m) = store_ok m"
  "store_ok (m\<lparr>ms_eventKey := k\<rparr>) = store_ok m"
  "store_ok (m\<lparr>ms_attempts := a\<rparr>) = store_ok m"
  by (simp_all add: store_ok_def jobs_ok_def logs_ok_def event_ids_ok_def)

subsection \<open>Appending\<close>

definition new_event :: "memory_store \<Rightarrow> job \<Rightarrow> string \<Rightarrow> jmap \<Rightarrow> event" where
  "new_event m job eventType data =
     \<lparr>evt_ID = event_ident (Suc (ms_eventSeqGlobal m)), evt_JobID = job_ID job,
      evt_APIVersion = job_APIVersion job, evt_Type = eventType,
      evt_Sequence = Suc (ms_eventSeq m (job_ID job)), evt_Data = data,
      evt_TraceID = job_TraceID job, evt_CreatedAt = now_value m\<rparr>"

lemma append_simps [simp]:
  "ms_jobs (appendEventLocked m job t d) = ms_jobs m"
  "ms_order (appendEventLocked m job t d) = ms_order m"
  "ms_sequence (appendEventLocked m job t d) = ms_sequence m"
  "ms_eventKey (appendEventLocked m job t d) = ms_eventKey m"
  "ms_attempts (appendEventLocked m job t d) = ms_attempts m"
  "ms_eventSeqGlobal (appendEventLocked m job t d) = Suc (ms_eventSeqGlobal m)"
  "ms_events (appendEventLocked m job t d) =
     (ms_events m)(job_ID job := ms_events m (job_ID job) @ [new_event m job t d])"
  "ms_eventSeq (appendEventLocked m job t d) =
     (ms_eventSeq m)(job_ID job := Suc (ms_eventSeq m (job_ID job)))"
  by (simp_all add: appendEventLocked_def new_event_def Let_def)

lemma append_jobs_ok: "jobs_ok (appendEventLocked m job t d) = jobs_ok m"
  by (simp add: jobs_ok_def)

lemma append_logs_ok:
  assumes "logs_ok m" and "job_ID job \<in> dom (ms_jobs m)"
  shows "logs_ok (appendEventLocked m job t d)"
  using assms by (auto simp: logs_ok_def new_event_def)

lemma fresh_event_id:
  assumes "event_ids_ok m" and "e \<in> set (ms_events m ident)"
  shows "evt_ID e \<noteq> evt_ID (new_event m job t d)"
proof -
  from assms obtain g where "g \<le> ms_eventSeqGlobal m" and "evt_ID e = event_ident g"
    unfolding event_ids_ok_def by blast
  then show ?thesis by (simp add: new_event_def)
qed

lemma append_event_at:
  assumes "k < length (ms_events (appendEventLocked m job t d) x)"
  shows "k < length (ms_events m x) \<and>
           ms_events (appendEventLocked m job t d) x ! k = ms_events m x ! k \<or>
         x = job_ID job \<and> k = length (ms_events m x) \<and>
           ms_events (appendEventLocked m job t d) x ! k = new_event m job t d"
  using assms by (auto simp: nth_append less_Suc_eq split: if_splits)

lemma append_event_ids_ok:
  assumes ok: "event_ids_ok m"
  shows "event_ids_ok (appendEventLocked m job t d)"
proof -
  let ?m' = "appendEventLocked m job t d"
  have fresh: "evt_ID (ms_events m x ! k) \<noteq> evt_ID (new_event m job t d)"
    if "k < length (ms_events m x)" for x k
    using fresh_event_id [OF ok nth_mem [OF that]] .
  have old: "x = y \<and> k = l"
    if "k < length (ms_events m x)" "l < length (ms_events m y)"
       "evt_ID (ms_events m x ! k) = evt_ID (ms_events m y ! l)" for x y k l
    using ok that unfolding event_ids_ok_def by blast
  have "x = y \<and> k = l"
    if "k < length (ms_events ?m' x)" "l < length (ms_events ?m' y)"
       "evt_ID (ms_events ?m' x ! k) = evt_ID (ms_events ?m' y ! l)" for x y k l
    using append_event_at [OF that(1)] append_event_at [OF that(2)] that(3) old fresh by metis
  moreover have "\<exists>g \<le> ms_eventSeqGlobal ?m'. evt_ID e = event_ident g"
    if "e \<in> set (ms_events ?m' x)" for x e
  proof (cases "e \<in> set (ms_events m x)")
    case True
    with ok obtain g where "g \<le> ms_eventSeqGlobal m" "evt_ID e = event_ident g"
      unfolding event_ids_ok_def by blast
    then show ?thesis by (auto intro: le_SucI)
  next
    case False
    with that have "e = new_event m job t d" by (auto split: if_splits)
    then show ?thesis by (auto simp: new_event_def)
  qed
  ultimately show ?thesis unfolding event_ids_ok_def by blast
qed

lemma append_store_ok:
  "store_ok m \<Longrightarrow> job_ID job \<in> dom (ms_jobs m) \<Longrightarrow> store_ok (appendEventLocked m job t d)"
  by (simp add: store_ok_def append_jobs_ok append_logs_ok append_event_ids_ok)

text \<open>Overwriting an existing job with one of the same id and a declared status.\<close>

lemma put_job_ok:
  assumes "store_ok m" and "ms_jobs m (job_ID job) \<noteq> None" and "KnownStatus (job_Status job)"
  shows "store_ok (m\<lparr>ms_jobs := (ms_jobs m)(job_ID job \<mapsto> job)\<rparr>)"
  using assms by (auto simp: store_ok_def jobs_ok_def logs_ok_def event_ids_ok_def)

subsection \<open>The operations keep the invariant\<close>

lemma create_status_known [simp]: "KnownStatus (create_status r now)"
  by (auto simp: create_status_def KnownStatus_def split: option.splits)

lemma fresh_job_id:
  assumes "store_ok m"
  shows "ms_jobs m (job_ident (Suc (ms_sequence m))) = None"
proof (rule ccontr)
  assume "ms_jobs m (job_ident (Suc (ms_sequence m))) \<noteq> None"
  then obtain j where "ms_jobs m (job_ident (Suc (ms_sequence m))) = Some j" by blast
  with assms obtain k where "k \<le> ms_sequence m" "job_ident (Suc (ms_sequence m)) = job_ident k"
    unfolding store_ok_def jobs_ok_def by blast
  then show False by simp
qed

lemma Create_store_ok [keeps_inv]:
  assumes ok: "store_ok m"
  shows "store_ok (fst (Create r m))"
proof -
  define ident where "ident = job_ident (Suc (ms_sequence m))"
  define job where "job = snd (Create r m)"
  define m3 where "m3 = (tick (m\<lparr>ms_sequence := Suc (ms_sequence m)\<rparr>))
     \<lparr>ms_jobs := (ms_jobs m)(ident \<mapsto> job), ms_order := ms_order m @ [ident]\<rparr>"
  have id: "job_ID job = ident" and st: "KnownStatus (job_Status job)"
    by (simp_all add: job_def ident_def Create_def Let_def)
  have none: "ms_jobs m ident = None" using fresh_job_id [OF ok] by (simp add: ident_def)
  have "jobs_ok m3"
    using ok none st id unfolding store_ok_def jobs_ok_def m3_def ident_def
    by (auto intro: exI [of _ "Suc (ms_sequence m)"]) (meson le_SucI)
  moreover have "logs_ok m3" "event_ids_ok m3"
    using ok unfolding store_ok_def logs_ok_def event_ids_ok_def m3_def by auto
  ultimately have "store_ok m3" by (simp add: store_ok_def)
  moreover have "job_ID job \<in> dom (ms_jobs m3)" by (simp add: id m3_def)
  moreover obtain t d where "fst (Create r m) = appendEventLocked m3 job t d"
    unfolding m3_def job_def ident_def Create_def Let_def by simp
  ultimately show ?thesis by (simp add: append_store_ok)
qed

lemma set_status_store_ok:
  assumes ok: "store_ok m" and job: "ms_jobs m (job_ID job) \<noteq> None" and st: "KnownStatus st"
  shows "store_ok (fst (set_status job st m))"
proof -
  let ?job = "job\<lparr>job_Status := st, job_UpdatedAt := now_value m\<rparr>"
  have "store_ok ((tick m)\<lparr>ms_jobs := (ms_jobs (tick m))(job_ID ?job \<mapsto> ?job)\<rparr>)"
    by (rule put_job_ok) (use assms in simp_all)
  then show ?thesis
    by (auto simp: set_status_def Let_def intro!: append_store_ok)
qed

lemma TransitionStatus_store_ok [keeps_inv]:
  "store_ok m \<Longrightarrow> store_ok (fst (TransitionStatus i a b m))"
  using jobs_okD set_status_store_ok
  by (fastforce simp: TransitionStatus_def split: option.splits prod.splits)

lemma UpdateStatus_store_ok [keeps_inv]:
  "store_ok m \<Longrightarrow> store_ok (fst (UpdateStatus i st m))"
  using jobs_okD set_status_store_ok
  by (fastforce simp: UpdateStatus_def split: option.splits prod.splits)

end
