(* ===== verification/JobStoreEvents.thy ===== *)
theory JobStoreEvents
  imports JobStoreInv
begin

text \<open>
  Worker events on the in-memory job store: what one application does (five outcomes), the
  frame of a batch, its rollback, and the forward order (statuses only advance, identities
  are immutable, logs only grow) under which every operation but a backward
  \<open>TransitionStatus\<close> moves the store.
\<close>

subsection \<open>One event\<close>

definition take_key :: "memory_store \<Rightarrow> job \<Rightarrow> worker_event \<Rightarrow> memory_store" where
  "take_key m job event =
     (if workerEventKey event \<noteq> []
      then m\<lparr>ms_eventKey := (ms_eventKey m)
               (job_ID job := insert (workerEventKey event) (ms_eventKey m (job_ID job)))\<rparr>
      else m)"

definition landed_job :: "env \<Rightarrow> memory_store \<Rightarrow> job \<Rightarrow> worker_event \<Rightarrow> job" where
  "landed_job env m job event =
     (let job1 = (case resultFromWorkerEvent event (recorded_data env event) of
                    Some result \<Rightarrow> job\<lparr>job_Result := result\<rparr> | None \<Rightarrow> job);
          nextStatus = statusFromWorkerEvent event (job_Status job)
      in (if shouldAdvanceStatus (job_Status job) nextStatus
          then job1\<lparr>job_Status := nextStatus\<rparr> else job1)\<lparr>job_UpdatedAt := now_value m\<rparr>)"

definition landed :: "env \<Rightarrow> memory_store \<Rightarrow> job \<Rightarrow> worker_event \<Rightarrow> memory_store" where
  "landed env m job event =
     (let job' = landed_job env m job event
      in appendEventLocked ((tick m)\<lparr>ms_jobs := (ms_jobs m)(job_ID job' \<mapsto> job')\<rparr>) job'
           (we_Type event) (recorded_data env event))"

lemma apply_outcome:
  "applyWorkerEventLocked env m job event =
     (case checkWorkerEventAgainstJob job event of
        Some e \<Rightarrow> (m, job, Some e)
      | None \<Rightarrow>
          if workerEventKey event \<noteq> [] \<and> workerEventKey event \<in> ms_eventKey m (job_ID job)
            then (m, job, None)
          else if TerminalStatus (job_Status job) then (take_key m job event, job, None)
          else case validateWorkerEventData env (we_Type event) (we_Data event) of
            Some e \<Rightarrow> (take_key m job event, job, Some e)
          | None \<Rightarrow> (landed env (take_key m job event) job event,
                      landed_job env (take_key m job event) job event, None))"
  unfolding applyWorkerEventLocked_def landed_def landed_job_def take_key_def
  by (simp add: Let_def split: option.split)

text \<open>The five ways one application ends, as an elimination rule.\<close>

lemma apply_cases:
  assumes "applyWorkerEventLocked env m job event = (m', job', r)"
  obtains (refused) e where "checkWorkerEventAgainstJob job event = Some e" "m' = m" "job' = job" "r = Some e"
  | (duplicate) "checkWorkerEventAgainstJob job event = None"
      "workerEventKey event \<noteq> []" "workerEventKey event \<in> ms_eventKey m (job_ID job)"
      "m' = m" "job' = job" "r = None"
  | (ended) "checkWorkerEventAgainstJob job event = None" "TerminalStatus (job_Status job)"
      "m' = take_key m job event" "job' = job" "r = None"
  | (unsafe) e where "checkWorkerEventAgainstJob job event = None" "\<not> TerminalStatus (job_Status job)"
      "validateWorkerEventData env (we_Type event) (we_Data event) = Some e"
      "m' = take_key m job event" "job' = job" "r = Some e"
  | (lands) "checkWorkerEventAgainstJob job event = None" "\<not> TerminalStatus (job_Status job)"
      "validateWorkerEventData env (we_Type event) (we_Data event) = None"
      "m' = landed env (take_key m job event) job event"
      "job' = landed_job env (take_key m job event) job event" "r = None"
proof (cases "checkWorkerEventAgainstJob job event")
  case (Some e)
  with assms show ?thesis by (intro refused [OF Some]) (auto simp: apply_outcome)
next
  case check: None
  show ?thesis
  proof (cases "workerEventKey event \<noteq> [] \<and> workerEventKey event \<in> ms_eventKey m (job_ID job)")
    case True
    with assms check show ?thesis by (intro duplicate) (auto simp: apply_outcome)
  next
    case new: False
    show ?thesis
    proof (cases "TerminalStatus (job_Status job)")
      case True
      with assms check new show ?thesis by (intro ended) (auto simp: apply_outcome)
    next
      case live: False
      show ?thesis
      proof (cases "validateWorkerEventData env (we_Type event) (we_Data event)")
        case None
        with assms check new live show ?thesis by (intro lands) (auto simp: apply_outcome)
      next
        case (Some e)
        with assms check new live show ?thesis by (intro unsafe [OF check live Some]) (auto simp: apply_outcome)
      qed
    qed
  qed
qed

lemma take_key_simps [simp]:
  "ms_jobs (take_key m job e) = ms_jobs m" "ms_events (take_key m job e) = ms_events m"
  "ms_eventSeq (take_key m job e) = ms_eventSeq m" "ms_order (take_key m job e) = ms_order m"
  "ms_eventSeqGlobal (take_key m job e) = ms_eventSeqGlobal m"
  "ms_sequence (take_key m job e) = ms_sequence m" "ms_attempts (take_key m job e) = ms_attempts m"
  "ms_now (take_key m job e) = ms_now m" "ms_ticks (take_key m job e) = ms_ticks m"
  "store_ok (take_key m job e) = store_ok m" "now_value (take_key m job e) = now_value m"
  by (simp_all add: take_key_def now_value_def)

lemma landed_job_simps [simp]:
  "job_ID (landed_job env m job e) = job_ID job"
  "job_TenantID (landed_job env m job e) = job_TenantID job"
  "job_AppID (landed_job env m job e) = job_AppID job"
  by (simp_all add: landed_job_def Let_def split: option.split)

lemma statusFromWorkerEvent_known:
  "KnownStatus fallback \<Longrightarrow> KnownStatus (statusFromWorkerEvent e fallback)"
  by (auto simp: statusFromWorkerEvent_def Let_def workerEventStatus_known
      split: option.splits json.splits)

text \<open>
  A worker event makes a job terminal only through its type: the payload's \<open>status\<close> field
  never yields a terminal status.
\<close>

lemma statusFromWorkerEvent_terminal:
  assumes "TerminalStatus (statusFromWorkerEvent e fallback)" and "\<not> TerminalStatus fallback"
  shows "workerEventStatus (we_Type e) (event_retryable (data_map e)) =
           Some (statusFromWorkerEvent e fallback)"
  using assms
  by (auto simp: statusFromWorkerEvent_def Let_def split: option.splits json.splits if_splits)

lemma landed_job_status:
  "job_Status (landed_job env m job e) =
     (if shouldAdvanceStatus (job_Status job) (statusFromWorkerEvent e (job_Status job))
      then statusFromWorkerEvent e (job_Status job) else job_Status job)"
  by (simp add: landed_job_def Let_def split: option.split)

lemma landed_job_known: "KnownStatus (job_Status job) \<Longrightarrow> KnownStatus (job_Status (landed_job env m job e))"
  by (simp add: landed_job_status statusFromWorkerEvent_known)

lemma landed_jobs [simp]:
  "ms_jobs (landed env m job e) = (ms_jobs m)(job_ID job \<mapsto> landed_job env m job e)"
  by (simp add: landed_def Let_def)

lemma landed_store_ok:
  assumes "store_ok m" and "ms_jobs m (job_ID job) = Some job"
  shows "store_ok (landed env m job e)"
proof -
  let ?j = "landed_job env m job e"
  have "KnownStatus (job_Status ?j)" using assms jobs_okD landed_job_known by blast
  then have "store_ok ((tick m)\<lparr>ms_jobs := (ms_jobs (tick m))(job_ID ?j \<mapsto> ?j)\<rparr>)"
    by (intro put_job_ok) (use assms in simp_all)
  then show ?thesis by (simp add: landed_def Let_def append_store_ok)
qed

lemma apply_store_ok:
  assumes "applyWorkerEventLocked env m job event = (m', job', r)"
    and "store_ok m" and "ms_jobs m (job_ID job) = Some job"
  shows "store_ok m' \<and> ms_jobs m' (job_ID job) = Some job' \<and> job_ID job' = job_ID job"
  using assms(1) by (cases rule: apply_cases) (use assms(2,3) in \<open>auto intro: landed_store_ok\<close>)

subsection \<open>What a batch may touch\<close>

definition touches :: "string \<Rightarrow> memory_store \<Rightarrow> memory_store \<Rightarrow> bool" where
  "touches ident m m' =
     (ms_now m' = ms_now m \<and> ms_sequence m' = ms_sequence m \<and> ms_order m' = ms_order m \<and>
      ms_attempts m' = ms_attempts m \<and>
      (\<forall>x. x \<noteq> ident \<longrightarrow> ms_jobs m' x = ms_jobs m x \<and> ms_events m' x = ms_events m x \<and>
              ms_eventSeq m' x = ms_eventSeq m x \<and> ms_eventKey m' x = ms_eventKey m x) \<and>
      prefix (ms_events m ident) (ms_events m' ident))"

lemma touches_refl [simp]: "touches ident m m"
  by (simp add: touches_def)

lemma touches_trans: "touches ident m m' \<Longrightarrow> touches ident m' m'' \<Longrightarrow> touches ident m m''"
  by (auto simp: touches_def)

lemma append_now_tick [simp]:
  "ms_now (appendEventLocked m job t d) = ms_now m" "ms_now (tick m) = ms_now m"
  by (simp_all add: appendEventLocked_def Let_def tick_def)

lemma touches_take_key: "touches (job_ID job) m (take_key m job e)"
  by (simp add: touches_def) (simp add: take_key_def)

lemma touches_landed: "touches (job_ID job) m (landed env m job e)"
  by (simp add: touches_def landed_def Let_def)

lemma apply_touches:
  assumes "applyWorkerEventLocked env m job event = (m', job', r)"
  shows "touches (job_ID job) m m'"
  using assms
  by (cases rule: apply_cases) (auto intro: touches_trans touches_take_key touches_landed)

lemma apply_each_step:
  assumes "apply_each env m job events = (m', job', r)"
    and "store_ok m" and "ms_jobs m (job_ID job) = Some job"
  shows "store_ok m' \<and> ms_jobs m' (job_ID job) = Some job' \<and> job_ID job' = job_ID job \<and>
         touches (job_ID job) m m'"
  using assms
proof (induction events arbitrary: m job)
  case Nil
  then show ?case by simp
next
  case (Cons event events)
  obtain m1 job1 r1 where step: "applyWorkerEventLocked env m job event = (m1, job1, r1)"
    by (cases "applyWorkerEventLocked env m job event")
  from apply_store_ok [OF step Cons.prems(2,3)] have
    ok: "store_ok m1" "ms_jobs m1 (job_ID job1) = Some job1" and id: "job_ID job1 = job_ID job"
    by simp_all
  show ?case
  proof (cases r1)
    case None
    with step Cons.prems(1) have "apply_each env m1 job1 events = (m', job', r)" by simp
    from Cons.IH [OF this ok] apply_touches [OF step] show ?thesis
      by (auto simp: id intro: touches_trans)
  next
    case (Some e)
    with step Cons.prems(1) ok id apply_touches [OF step] show ?thesis by auto
  qed
qed

lemma fun_upd_restore: "(\<And>x. x \<noteq> i \<Longrightarrow> g x = f x) \<Longrightarrow> g(i := f i) = f"
  by (rule ext) simp

text \<open>
  All or nothing: a batch that fails leaves the store as it was, but for the readings taken
  from the clock.
\<close>

lemma batch_rollback:
  assumes run: "applyBatchLocked env m job events = (m', job', Some e)"
    and ok: "store_ok m" and job: "ms_jobs m (job_ID job) = Some job"
  shows "m' = m\<lparr>ms_ticks := ms_ticks m'\<rparr> \<and> job' = job"
proof -
  obtain m1 job1 r1 where each: "apply_each env m job events = (m1, job1, r1)"
    by (cases "apply_each env m job events")
  with run have r1: "r1 = Some e" and job': "job' = job"
    and m': "m' = m1\<lparr>ms_jobs := (ms_jobs m1)(job_ID job \<mapsto> job),
       ms_events := (ms_events m1)(job_ID job := take (length (ms_events m (job_ID job))) (ms_events m1 (job_ID job))),
       ms_eventSeq := (ms_eventSeq m1)(job_ID job := ms_eventSeq m (job_ID job)),
       ms_eventSeqGlobal := ms_eventSeqGlobal m,
       ms_eventKey := (ms_eventKey m1)(job_ID job := ms_eventKey m (job_ID job))\<rparr>"
    by (auto simp: applyBatchLocked_def Let_def split: option.splits)
  from apply_each_step [OF each ok job] have t: "touches (job_ID job) m m1" by simp
  then have "take (length (ms_events m (job_ID job))) (ms_events m1 (job_ID job)) = ms_events m (job_ID job)"
    by (auto simp: touches_def prefix_def)
  moreover have "(ms_jobs m1)(job_ID job := ms_jobs m (job_ID job)) = ms_jobs m"
    and "(ms_events m1)(job_ID job := ms_events m (job_ID job)) = ms_events m"
    and "(ms_eventSeq m1)(job_ID job := ms_eventSeq m (job_ID job)) = ms_eventSeq m"
    and "(ms_eventKey m1)(job_ID job := ms_eventKey m (job_ID job)) = ms_eventKey m"
    by (rule fun_upd_restore, use t in \<open>simp add: touches_def\<close>)+
  ultimately have "m' = m\<lparr>ms_ticks := ms_ticks m'\<rparr>"
    using t job unfolding m' by (intro memory_store.equality) (simp_all add: touches_def)
  with job' show ?thesis by simp
qed

lemma batch_lands:
  assumes "applyBatchLocked env m job events = (m', job', None)"
  shows "apply_each env m job events = (m', job', None)"
  using assms by (auto simp: applyBatchLocked_def Let_def split: prod.splits option.splits)

lemma ticks_store_ok [simp]: "store_ok (m\<lparr>ms_ticks := n\<rparr>) = store_ok m"
  by (simp add: store_ok_def jobs_ok_def logs_ok_def event_ids_ok_def)

lemma batch_store_ok:
  assumes run: "applyBatchLocked env m job events = (m', job', r)"
    and ok: "store_ok m" and job: "ms_jobs m (job_ID job) = Some job"
  shows "store_ok m'"
proof (cases r)
  case None
  with run have "apply_each env m job events = (m', job', None)" by (auto intro: batch_lands)
  from apply_each_step [OF this ok job] show ?thesis by simp
next
  case (Some e)
  with batch_rollback [OF _ ok job] run have "m' = m\<lparr>ms_ticks := ms_ticks m'\<rparr>" by blast
  then show ?thesis using ok by (metis ticks_store_ok)
qed

lemma ApplyWorkerEvent_store_ok [keeps_inv]:
  assumes ok: "store_ok m"
  shows "store_ok (fst (ApplyWorkerEvent env e m))"
proof (cases "ms_jobs m (we_JobID e)")
  case None
  with ok show ?thesis by (simp add: ApplyWorkerEvent_def split: option.split)
next
  case (Some job)
  then have job: "ms_jobs m (job_ID job) = Some job" using jobs_okD [OF ok] by fastforce
  obtain m' job' r where a: "applyWorkerEventLocked env m job e = (m', job', r)"
    by (cases "applyWorkerEventLocked env m job e")
  from apply_store_ok [OF a ok job] a Some ok show ?thesis
    by (simp add: ApplyWorkerEvent_def split: option.split)
qed

lemma ApplyWorkerEvents_store_ok [keeps_inv]:
  assumes ok: "store_ok m"
  shows "store_ok (fst (ApplyWorkerEvents env es m))"
proof (cases "ms_jobs m (we_JobID (hd es))")
  case None
  with ok show ?thesis by (simp add: ApplyWorkerEvents_def split: option.split)
next
  case (Some job)
  then have job: "ms_jobs m (job_ID job) = Some job" using jobs_okD [OF ok] by fastforce
  obtain m' job' r where a: "applyBatchLocked env m job es = (m', job', r)"
    by (cases "applyBatchLocked env m job es")
  from batch_store_ok [OF a ok job] a Some ok show ?thesis
    by (simp add: ApplyWorkerEvents_def split: option.split)
qed

end
