(* ===== verification/AttemptLedger.thy ===== *)
theory AttemptLedger
  imports JobStoreEvents
begin

text \<open>
  The attempt ledger on the in-memory store (\<open>internal/jobs/memory_attempts.go\<close> and the
  commit validation of \<open>attempts.go\<close>): begin, renew, mark submitted, commit and expire, the
  shape every job's history keeps (generations 1, 2, 3, ...; at most the newest attempt
  active; an attempt is ended exactly when it is not active) and the interface of the ledger
  as its clients see it.

  The ledger is \<open>map[string][]Attempt\<close>. A history only exists for a job that exists
  (\<open>ledgers_ok\<close>), so \<open>ExpireAttempts\<close>, which ranges over the whole Go map, ranges over the
  jobs of \<open>ms_order\<close> here; its result is sorted, so the iteration order does not matter.
\<close>

datatype commit_error = AttemptErr attempt_error | JobErr job_error

definition is_attempt :: "string \<Rightarrow> attempt \<Rightarrow> bool" where
  "is_attempt aid a = (att_AttemptID a = aid)"

definition attemptIndexLocked :: "memory_store \<Rightarrow> attempt_ref \<Rightarrow> attempt option" where
  "attemptIndexLocked m ref = find (is_attempt (ref_AttemptID ref)) (ms_attempts m (ref_JobID ref))"

text \<open>\<open>m.attempts[jobID][i] = a\<close> at the index \<open>attemptIndexLocked\<close> found.\<close>

definition put_attempt :: "string \<Rightarrow> string \<Rightarrow> (attempt \<Rightarrow> attempt) \<Rightarrow> memory_store \<Rightarrow> memory_store" where
  "put_attempt jobID aid f m =
     m\<lparr>ms_attempts := (ms_attempts m)
         (jobID := update_first (is_attempt aid) f (ms_attempts m jobID))\<rparr>"

definition end_attempt :: "attempt_state \<Rightarrow> gotime \<Rightarrow> attempt \<Rightarrow> attempt" where
  "end_attempt st now a = a\<lparr>att_State := st, att_UpdatedAt := now, att_EndedAt := Some now\<rparr>"

definition BeginAttempt ::
  "begin_request \<Rightarrow> memory_store \<Rightarrow> memory_store \<times> (attempt_error + attempt)" where
  "BeginAttempt request m =
     (case begin_validate request of
        Inl e \<Rightarrow> (m, Inl e)
      | Inr ttl \<Rightarrow>
          (case ms_jobs m (bar_JobID request) of
             None \<Rightarrow> (m, Inl ErrAttemptNotFound)
           | Some job \<Rightarrow>
               if TerminalStatus (job_Status job) then (m, Inl ErrAttemptJobTerminal)
               else
                 let now = now_value m; m = tick m;
                     history = ms_attempts m (bar_JobID request)
                 in case planBegin request ttl history now of
                      Inl e \<Rightarrow> (m, Inl e)
                    | Inr plan \<Rightarrow>
                        if plan_replay plan then (m, Inr (plan_attempt plan))
                        else
                          let history = (case plan_expire plan of
                                None \<Rightarrow> history
                              | Some _ \<Rightarrow> butlast history @ [end_attempt AttemptExpired now (last history)])
                          in (m\<lparr>ms_attempts := (ms_attempts m)
                                 (bar_JobID request := history @ [plan_attempt plan])\<rparr>,
                              Inr (plan_attempt plan))))"

definition RenewAttempt ::
  "attempt_ref \<Rightarrow> dur \<Rightarrow> memory_store \<Rightarrow> memory_store \<times> (attempt_error + attempt)" where
  "RenewAttempt ref ttl m =
     (case ref_validate ref of
        Some e \<Rightarrow> (m, Inl e)
      | None \<Rightarrow>
          (case attemptTTL ttl of
             Inl e \<Rightarrow> (m, Inl e)
           | Inr ttl \<Rightarrow>
               let found = attemptIndexLocked m ref
               in case fenceAttempt ref found False of
                    Some e \<Rightarrow> (m, Inl e)
                  | None \<Rightarrow>
                      let now = now_value m; m = tick m;
                          renew = (\<lambda>a. a\<lparr>
                            att_LeaseExpiresAt := (if att_LeaseExpiresAt a < now + ttl
                                                   then now + ttl else att_LeaseExpiresAt a),
                            att_UpdatedAt := now\<rparr>)
                      in (put_attempt (ref_JobID ref) (ref_AttemptID ref) renew m,
                          Inr (renew (the found)))))"

definition MarkSubmitted ::
  "attempt_ref \<Rightarrow> memory_store \<Rightarrow> memory_store \<times> (attempt_error + attempt)" where
  "MarkSubmitted ref m =
     (case ref_validate ref of
        Some e \<Rightarrow> (m, Inl e)
      | None \<Rightarrow>
          let found = attemptIndexLocked m ref
          in case fenceAttempt ref found False of
               Some e \<Rightarrow> (m, Inl e)
             | None \<Rightarrow>
                 let now = now_value m; m = tick m;
                     mark = (\<lambda>a. a\<lparr>
                       att_SubmittedAt := (case att_SubmittedAt a of None \<Rightarrow> Some now | Some t \<Rightarrow> Some t),
                       att_UpdatedAt := now\<rparr>)
                 in (put_attempt (ref_JobID ref) (ref_AttemptID ref) mark m, Inr (mark (the found))))"

fun check_commit :: "attempt_ref \<Rightarrow> worker_event list \<Rightarrow> commit_error option" where
  "check_commit ref [] = None"
| "check_commit ref (event # events) =
     (if we_JobID event \<noteq> ref_JobID ref then Some (AttemptErr ErrAttemptEventMismatch)
      else if (case map_of (data_map event) ''attempt_id'' of
                 Some (JStr stamped) \<Rightarrow> stamped \<noteq> [] \<and> stamped \<noteq> ref_AttemptID ref
               | _ \<Rightarrow> False)
        then Some (AttemptErr ErrAttemptEventMismatch)
      else case checkWorkerEvent event of
        Some e \<Rightarrow> Some (JobErr e)
      | None \<Rightarrow> check_commit ref events)"

definition validateAttemptCommit :: "attempt_ref \<Rightarrow> worker_event list \<Rightarrow> commit_error option" where
  "validateAttemptCommit ref events =
     (case ref_validate ref of
        Some e \<Rightarrow> Some (AttemptErr e)
      | None \<Rightarrow>
          if events = [] \<or> MaxAttemptCommitEvents < length events
          then Some (AttemptErr ErrAttemptInvalid)
          else check_commit ref events)"

definition CommitEvents ::
  "env \<Rightarrow> attempt_ref \<Rightarrow> worker_event list \<Rightarrow> memory_store \<Rightarrow> memory_store \<times> (commit_error + job)" where
  "CommitEvents env ref events m =
     (case validateAttemptCommit ref events of
        Some e \<Rightarrow> (m, Inl e)
      | None \<Rightarrow>
          let found = attemptIndexLocked m ref
          in case fenceAttempt ref found True of
               Some e \<Rightarrow> (m, Inl (AttemptErr e))
             | None \<Rightarrow>
                 (case ms_jobs m (ref_JobID ref) of
                    None \<Rightarrow> (m, Inl (AttemptErr ErrAttemptNotFound))
                  | Some job \<Rightarrow>
                      (case applyBatchLocked env m job events of
                         (m1, job1, Some e) \<Rightarrow> (m1, Inl (JobErr e))
                       | (m1, job1, None) \<Rightarrow>
                           if att_State (the found) = AttemptActive \<and> TerminalStatus (job_Status job1)
                           then let now = now_value m1; m2 = tick m1
                                in (put_attempt (ref_JobID ref) (ref_AttemptID ref)
                                      (end_attempt AttemptFinished now) m2, Inr job1)
                           else (m1, Inr job1))))"

definition due_attempts :: "gotime \<Rightarrow> memory_store \<Rightarrow> attempt list" where
  "due_attempts now m =
     sort_key (\<lambda>a. (att_LeaseExpiresAt a, att_JobID a, att_AttemptID a))
       (filter (\<lambda>a. att_State a = AttemptActive \<and> \<not> now < att_LeaseExpiresAt a)
          (concat (map (ms_attempts m) (ms_order m))))"

definition ExpireAttempts :: "int \<Rightarrow> memory_store \<Rightarrow> memory_store \<times> attempt list" where
  "ExpireAttempts limit m =
     (let now = now_value m; m = tick m;
          due = take (nat (expireBatch limit)) (due_attempts now m)
      in (fold (\<lambda>a. put_attempt (att_JobID a) (att_AttemptID a) (end_attempt AttemptExpired now)) due m,
          map (end_attempt AttemptExpired now) due))"

definition ListAttempts :: "string \<Rightarrow> memory_store \<Rightarrow> attempt list" where
  "ListAttempts jobID m = ms_attempts m jobID"

subsection \<open>The shape of a history\<close>

text \<open>What holds of every history, however long.\<close>

definition history_base :: "string \<Rightarrow> attempt list \<Rightarrow> bool" where
  "history_base j h =
     ((\<forall>a \<in> set h. att_JobID a = j \<and> ((att_EndedAt a = None) = (att_State a = AttemptActive))) \<and>
      distinct (map att_AttemptID h))"

definition history_numbered :: "attempt list \<Rightarrow> bool" where
  "history_numbered h =
     ((\<forall>i < length h. att_Generation (h ! i) = of_nat (Suc i)) \<and>
      (\<forall>i. Suc i < length h \<longrightarrow> att_State (h ! i) \<noteq> AttemptActive \<and>
         att_InputFingerprint (h ! i) = att_InputFingerprint (h ! Suc i)))"

text \<open>
  A \<open>uint64\<close> generation tells \<open>2^64 - 1\<close> attempts of a job apart; the numbering holds up to
  there (at the wrap-around the next generation is 0, which \<open>planBegin\<close> takes for "none").
\<close>

definition history_ok :: "string \<Rightarrow> attempt list \<Rightarrow> bool" where
  "history_ok j h = (history_base j h \<and> (length h < 2 ^ 64 \<longrightarrow> history_numbered h))"

definition ledgers_ok :: "memory_store \<Rightarrow> bool" where
  "ledgers_ok m =
     (\<forall>j. history_ok j (ms_attempts m j) \<and> (ms_attempts m j \<noteq> [] \<longrightarrow> j \<in> dom (ms_jobs m)))"

text \<open>
  The forward order of attempts: identity, generation and input never change, an ended
  attempt stays as it ended, a recorded submission stays, a lease is never shortened.
\<close>

definition att_le :: "attempt \<Rightarrow> attempt \<Rightarrow> bool" where
  "att_le a b =
     (att_JobID b = att_JobID a \<and> att_AttemptID b = att_AttemptID a \<and>
      att_Generation b = att_Generation a \<and> att_NodeID b = att_NodeID a \<and>
      att_InputFingerprint b = att_InputFingerprint a \<and>
      att_WorkloadVersion b = att_WorkloadVersion a \<and> att_CreatedAt b = att_CreatedAt a \<and>
      (att_State a \<noteq> AttemptActive \<longrightarrow>
         att_State b = att_State a \<and> att_EndedAt b = att_EndedAt a) \<and>
      (att_SubmittedAt a \<noteq> None \<longrightarrow> att_SubmittedAt b = att_SubmittedAt a) \<and>
      att_LeaseExpiresAt a \<le> att_LeaseExpiresAt b)"

definition history_le :: "attempt list \<Rightarrow> attempt list \<Rightarrow> bool" where
  "history_le h h' = (length h \<le> length h' \<and> (\<forall>i < length h. att_le (h ! i) (h' ! i)))"

definition ledger_le :: "memory_store \<Rightarrow> memory_store \<Rightarrow> bool" where
  "ledger_le m m' = (\<forall>j. history_le (ms_attempts m j) (ms_attempts m' j))"

lemma att_le_refl [simp]: "att_le a a"
  by (simp add: att_le_def)

lemma att_le_trans: "att_le a b \<Longrightarrow> att_le b c \<Longrightarrow> att_le a c"
  by (auto simp: att_le_def)

lemma history_le_refl [simp]: "history_le h h"
  by (simp add: history_le_def)

lemma history_le_trans: "history_le h h' \<Longrightarrow> history_le h' h'' \<Longrightarrow> history_le h h''"
  unfolding history_le_def using att_le_trans by (meson order_less_le_trans order_trans)

lemma ledger_le_refl [simp]: "ledger_le m m"
  by (simp add: ledger_le_def)

lemma ledger_le_trans: "ledger_le m m' \<Longrightarrow> ledger_le m' m'' \<Longrightarrow> ledger_le m m''"
  unfolding ledger_le_def using history_le_trans by blast

lemma ledger_le_same: "ms_attempts m' = ms_attempts m \<Longrightarrow> ledger_le m m'"
  by (simp add: ledger_le_def)

text \<open>A well-formed attempt record.\<close>

definition ended_ok :: "attempt \<Rightarrow> bool" where
  "ended_ok a = ((att_EndedAt a = None) = (att_State a = AttemptActive))"

lemma history_le_replace: "i < length h \<Longrightarrow> att_le (h ! i) b \<Longrightarrow> history_le h (h[i := b])"
  by (auto simp: history_le_def nth_list_update)

lemma history_replace:
  assumes ok: "history_ok j h" and i: "i < length h" and le: "att_le (h ! i) b" and b: "ended_ok b"
  shows "history_ok j (h[i := b])"
proof -
  have "map att_AttemptID (h[i := b]) = map att_AttemptID h"
    using le by (simp add: map_update att_le_def) (metis i length_map list_update_id nth_map)
  moreover have "\<forall>a \<in> set (h[i := b]). att_JobID a = j \<and> ((att_EndedAt a = None) = (att_State a = AttemptActive))"
    using ok le b i set_update_subset_insert [of h i b] nth_mem [OF i]
    unfolding history_ok_def history_base_def ended_ok_def att_le_def by (metis insertE subsetD)
  moreover have "history_numbered (h[i := b])" if "history_numbered h"
    using that le i unfolding history_numbered_def att_le_def
    by (auto simp: nth_list_update)
  ultimately show ?thesis using ok unfolding history_ok_def history_base_def by simp
qed

lemma history_append:
  assumes ok: "history_ok j h" and a: "ended_ok a" "att_JobID a = j"
    and fresh: "att_AttemptID a \<notin> att_AttemptID ` set h"
    and num: "length h < 2 ^ 64 \<Longrightarrow> att_Generation a = of_nat (Suc (length h)) \<and>
       (h \<noteq> [] \<longrightarrow> att_State (last h) \<noteq> AttemptActive \<and>
          att_InputFingerprint (last h) = att_InputFingerprint a)"
  shows "history_ok j (h @ [a])"
proof -
  have "history_numbered (h @ [a])" if len: "length (h @ [a]) < 2 ^ 64"
  proof -
    from len ok have h: "history_numbered h" by (simp add: history_ok_def)
    from num len have a: "att_Generation a = of_nat (Suc (length h))" and
      last: "h \<noteq> [] \<Longrightarrow> att_State (last h) \<noteq> AttemptActive \<and>
          att_InputFingerprint (last h) = att_InputFingerprint a" by simp_all
    have "att_State (h ! i) \<noteq> AttemptActive \<and> att_InputFingerprint (h ! i) = att_InputFingerprint ((h @ [a]) ! Suc i)"
      if "i < length h" for i
    proof (cases "Suc i < length h")
      case True
      then show ?thesis using h by (simp add: history_numbered_def nth_append)
    next
      case False
      with that have len: "length h = Suc i" and ne: "h \<noteq> []" by auto
      then have "h ! i = last h" by (simp add: last_conv_nth)
      with len ne show ?thesis using last by (simp add: nth_append)
    qed
    then show ?thesis
      using h a by (auto simp: history_numbered_def nth_append less_Suc_eq)
  qed
  then show ?thesis
    using ok a fresh by (auto simp: history_ok_def history_base_def ended_ok_def)
qed

text \<open>The write \<open>m.attempts[jobID][i] = a\<close> at the index the lookup found.\<close>

lemma update_first_found:
  "find P h = Some a \<Longrightarrow> \<exists>i < length h. h ! i = a \<and> P a \<and> update_first P f h = h[i := f a]"
proof (induction h)
  case Nil
  then show ?case by simp
next
  case (Cons x h)
  show ?case
  proof (cases "P x")
    case True
    with Cons.prems show ?thesis by (intro exI [of _ 0]) auto
  next
    case False
    with Cons obtain i where "i < length h \<and> h ! i = a \<and> P a \<and> update_first P f h = h[i := f a]"
      by auto
    with False show ?thesis by (intro exI [of _ "Suc i"]) auto
  qed
qed

lemma put_attempt_simps [simp]:
  "ms_jobs (put_attempt j aid f m) = ms_jobs m"
  "store_ok (put_attempt j aid f m) = store_ok m"
  "ms_attempts (put_attempt j aid f m) =
     (ms_attempts m)(j := update_first (is_attempt aid) f (ms_attempts m j))"
  by (simp_all add: put_attempt_def)

lemma put_attempt_ok:
  assumes ok: "ledgers_ok m" and found: "find (is_attempt aid) (ms_attempts m j) = Some a"
    and f: "att_le a (f a)" "ended_ok (f a)"
  shows "ledgers_ok (put_attempt j aid f m) \<and> ledger_le m (put_attempt j aid f m)"
proof -
  from update_first_found [OF found] obtain i where i: "i < length (ms_attempts m j)"
    "ms_attempts m j ! i = a" "update_first (is_attempt aid) f (ms_attempts m j) = (ms_attempts m j)[i := f a]"
    by blast
  from i(1) have "ms_attempts m j \<noteq> []" by auto
  with ok have h: "history_ok j (ms_attempts m j)" and j: "j \<in> dom (ms_jobs m)"
    unfolding ledgers_ok_def by blast+
  have "history_ok j ((ms_attempts m j)[i := f a])"
    using history_replace [OF h i(1)] i(2) f by simp
  moreover have "history_le (ms_attempts m j) ((ms_attempts m j)[i := f a])"
    using history_le_replace [OF i(1)] i(2) f by simp
  ultimately show ?thesis
    using ok j by (simp add: ledgers_ok_def ledger_le_def i(3))
qed

lemma of_nat_u64_zero: "0 < n \<Longrightarrow> n < 2 ^ 64 \<Longrightarrow> (of_nat n :: u64) \<noteq> 0"
  by (auto simp: word_of_nat_eq_0_iff dest: dvd_imp_le)

lemma last_nth: "h \<noteq> [] \<Longrightarrow> last h = h ! (length h - 1)"
  by (rule last_conv_nth)

text \<open>What a granted, not replayed plan says about the history it extends.\<close>

lemma planBegin_fresh:
  assumes plan: "planBegin req ttl h now = Inr p" and fresh: "\<not> plan_replay p"
  shows "bar_AttemptID req \<notin> att_AttemptID ` set h"
    and "att_AttemptID (plan_attempt p) = bar_AttemptID req"
    and "att_JobID (plan_attempt p) = bar_JobID req"
    and "att_State (plan_attempt p) = AttemptActive"
    and "att_EndedAt (plan_attempt p) = None"
    and "att_SubmittedAt (plan_attempt p) = None"
    and "att_LeaseExpiresAt (plan_attempt p) = now + ttl"
    and "att_InputFingerprint (plan_attempt p) = bar_InputFingerprint req"
    and "plan_expire p \<noteq> None \<Longrightarrow> h \<noteq> [] \<and> att_State (last h) = AttemptActive"
proof -
  have none: "find (\<lambda>a. att_AttemptID a = bar_AttemptID req) h = None"
    using plan fresh unfolding planBegin_def by (auto split: option.splits if_splits)
  then show "bar_AttemptID req \<notin> att_AttemptID ` set h" by (auto simp: find_None_iff)
  note unfolded = plan [unfolded planBegin_def none option.case Let_def]
  show "att_AttemptID (plan_attempt p) = bar_AttemptID req"
    and "att_JobID (plan_attempt p) = bar_JobID req"
    and "att_State (plan_attempt p) = AttemptActive"
    and "att_EndedAt (plan_attempt p) = None"
    and "att_SubmittedAt (plan_attempt p) = None"
    and "att_LeaseExpiresAt (plan_attempt p) = now + ttl"
    and "att_InputFingerprint (plan_attempt p) = bar_InputFingerprint req"
    and "plan_expire p \<noteq> None \<Longrightarrow> h \<noteq> [] \<and> att_State (last h) = AttemptActive"
    using unfolded by (auto split: if_splits)
qed

lemma last_generation: "history_numbered h \<Longrightarrow> h \<noteq> [] \<Longrightarrow> att_Generation (last h) = of_nat (length h)"
proof -
  assume h: "history_numbered h" and ne: "h \<noteq> []"
  then have "length h - 1 < length h" by simp
  with h have "att_Generation (h ! (length h - 1)) = of_nat (Suc (length h - 1))"
    unfolding history_numbered_def by blast
  with ne show ?thesis by (simp add: last_nth del: of_nat_Suc)
qed

lemma planBegin_grant:
  assumes plan: "planBegin req ttl h now = Inr p" and fresh: "\<not> plan_replay p"
    and shape: "history_numbered h" and len: "length h < 2 ^ 64"
  shows "att_Generation (plan_attempt p) = of_nat (Suc (length h))"
    and "bar_ExpectedGeneration req = of_nat (length h)"
    and "h \<noteq> [] \<Longrightarrow> att_InputFingerprint (last h) = bar_InputFingerprint req"
    and "h \<noteq> [] \<Longrightarrow> att_State (last h) = AttemptActive \<Longrightarrow>
           plan_expire p = Some (att_AttemptID (last h)) \<and> att_LeaseExpiresAt (last h) \<le> now"
    and "h \<noteq> [] \<Longrightarrow> att_SubmittedAt (last h) \<noteq> None \<Longrightarrow> bar_AllowAfterSubmitted req"
proof -
  have none: "find (\<lambda>a. att_AttemptID a = bar_AttemptID req) h = None"
    using plan fresh unfolding planBegin_def by (auto split: option.splits if_splits)
  note gen = last_generation [OF shape]
  have gen0: "h \<noteq> [] \<Longrightarrow> att_Generation (last h) \<noteq> 0"
    using gen len of_nat_u64_zero [of "length h"] by simp
  note unfolded = plan [unfolded planBegin_def none option.case Let_def]
  show "att_Generation (plan_attempt p) = of_nat (Suc (length h))"
    using unfolded gen by (cases "h = []") (auto split: if_splits simp: add.commute)
  show "bar_ExpectedGeneration req = of_nat (length h)"
    using unfolded gen by (cases "h = []") (auto split: if_splits)
  show "h \<noteq> [] \<Longrightarrow> att_InputFingerprint (last h) = bar_InputFingerprint req"
    and "h \<noteq> [] \<Longrightarrow> att_State (last h) = AttemptActive \<Longrightarrow>
           plan_expire p = Some (att_AttemptID (last h)) \<and> att_LeaseExpiresAt (last h) \<le> now"
    and "h \<noteq> [] \<Longrightarrow> att_SubmittedAt (last h) \<noteq> None \<Longrightarrow> bar_AllowAfterSubmitted req"
    using unfolded gen0 by (auto split: if_splits)
qed

end
