(* ===== verification/AttemptInv.thy ===== *)
theory AttemptInv
  imports AttemptLedger
begin

text \<open>
  Every operation of the attempt ledger keeps the shape of the histories and moves the ledger
  forward: attempts are only appended, their identity never changes, an attempt that ended
  stays ended, a recorded submission stays recorded and a lease is never shortened. Together
  with the same facts for the job operations (which do not touch the ledger) this is the
  ledger half of the store's invariant.
\<close>

lemma ledgers_ok_new: "ledgers_ok (NewMemoryStore clock)"
  by (simp add: ledgers_ok_def NewMemoryStore_def history_ok_def history_base_def history_numbered_def)

lemma ledgers_ok_tick [simp]: "ledgers_ok (tick m) = ledgers_ok m"
  by (simp add: ledgers_ok_def)

lemma ledger_le_tick [simp]: "ledger_le m (tick m') = ledger_le m m'" "ledger_le (tick m) m' = ledger_le m m'"
  by (simp_all add: ledger_le_def)

lemma ledgers_ok_more_jobs:
  "ledgers_ok m \<Longrightarrow> ms_attempts m' = ms_attempts m \<Longrightarrow> dom (ms_jobs m) \<subseteq> dom (ms_jobs m') \<Longrightarrow> ledgers_ok m'"
  unfolding ledgers_ok_def by auto

lemma now_value_tick: "now_value (tick m) = ms_now m (Suc (ms_ticks m))"
  by (simp add: now_value_def tick_def)

subsection \<open>Begin\<close>

lemma update_last: "h \<noteq> [] \<Longrightarrow> butlast h @ [b] = h[length h - 1 := b]"
  by (metis append_butlast_last_id length_butlast list_update_length)

lemma history_ok_expire_last:
  assumes "history_ok j h" and "h \<noteq> []" and "att_State (last h) = AttemptActive"
  shows "history_ok j (butlast h @ [end_attempt AttemptExpired now (last h)])"
    and "history_le h (butlast h @ [end_attempt AttemptExpired now (last h)])"
proof -
  have le: "att_le (last h) (end_attempt AttemptExpired now (last h))"
    using assms(3) by (simp add: att_le_def end_attempt_def)
  then show "history_ok j (butlast h @ [end_attempt AttemptExpired now (last h)])"
    unfolding update_last [OF assms(2)] using assms(1,2)
    by (intro history_replace) (simp_all add: last_conv_nth ended_ok_def end_attempt_def)
  show "history_le h (butlast h @ [end_attempt AttemptExpired now (last h)])"
    unfolding update_last [OF assms(2)] using le assms(2)
    by (intro history_le_replace) (simp_all add: last_conv_nth)
qed

lemma history_le_append: "history_le h (h @ [a])"
  by (simp add: history_le_def nth_append)

text \<open>The history \<open>BeginAttempt\<close> stores for a plan it grants.\<close>

definition granted_history :: "attempt list \<Rightarrow> begin_plan \<Rightarrow> gotime \<Rightarrow> attempt list" where
  "granted_history h p now =
     (case plan_expire p of
        None \<Rightarrow> h | Some _ \<Rightarrow> butlast h @ [end_attempt AttemptExpired now (last h)]) @ [plan_attempt p]"

lemma granted_history_ok:
  assumes ok: "history_ok (bar_JobID req) h"
    and plan: "planBegin req ttl h now = Inr p" and fresh: "\<not> plan_replay p"
  shows "history_ok (bar_JobID req) (granted_history h p now) \<and> history_le h (granted_history h p now)"
proof -
  note p = planBegin_fresh [OF plan fresh]
  note g = planBegin_grant [OF plan fresh]
  have a: "ended_ok (plan_attempt p)" "att_JobID (plan_attempt p) = bar_JobID req"
    "att_AttemptID (plan_attempt p) \<notin> att_AttemptID ` set h"
    using p(1-5) by (simp_all add: ended_ok_def)
  have num: "history_numbered h" if "length h < 2 ^ 64" using ok that by (simp add: history_ok_def)
  have gen: "att_Generation (plan_attempt p) = of_nat (Suc (length h))" if "length h < 2 ^ 64"
    by (rule g(1) [OF num that]) (rule that)
  have fp: "att_InputFingerprint (last h) = att_InputFingerprint (plan_attempt p)"
    if "length h < 2 ^ 64" "h \<noteq> []"
    using g(3) [OF num [OF that(1)] that] p(8) by simp
  have active: "plan_expire p \<noteq> None"
    if "length h < 2 ^ 64" "h \<noteq> []" "att_State (last h) = AttemptActive"
    using g(4) [OF num [OF that(1)] that] by simp
  show ?thesis
  proof (cases "plan_expire p")
    case None
    have "history_ok (bar_JobID req) (h @ [plan_attempt p])"
      by (rule history_append [OF ok a]) (use gen fp active None in blast)
    then show ?thesis using None by (simp add: granted_history_def history_le_append)
  next
    case (Some e)
    then have ne: "h \<noteq> []" "att_State (last h) = AttemptActive" using p(9) by auto
    let ?h = "butlast h @ [end_attempt AttemptExpired now (last h)]"
    note h = history_ok_expire_last [OF ok ne, of now]
    have "att_AttemptID ` set h = att_AttemptID ` set (butlast h @ [last h])"
      using ne(1) by simp
    also have "\<dots> = att_AttemptID ` set ?h" by (simp add: end_attempt_def)
    finally have ids: "att_AttemptID (plan_attempt p) \<notin> att_AttemptID ` set ?h" using a(3) by simp
    have hl: "length ?h = length h" using ne(1) by simp
    have "history_ok (bar_JobID req) (?h @ [plan_attempt p])"
      by (rule history_append [OF h(1) a(1,2) ids], unfold hl)
        (use gen fp ne(1) in \<open>simp add: end_attempt_def del: of_nat_Suc\<close>)
    then show ?thesis
      using Some history_le_trans [OF h(2) history_le_append] by (simp add: granted_history_def)
  qed
qed

text \<open>What \<open>BeginAttempt\<close> does, in the three ways it can end.\<close>

lemma BeginAttempt_cases:
  assumes "BeginAttempt req m = (m', r)"
  obtains (refused) e where "r = Inl e" "m' = m \<or> m' = tick m"
  | (replayed) ttl p job where "begin_validate req = Inr ttl" "ms_jobs m (bar_JobID req) = Some job"
      "\<not> TerminalStatus (job_Status job)"
      "planBegin req ttl (ms_attempts m (bar_JobID req)) (now_value m) = Inr p" "plan_replay p"
      "r = Inr (plan_attempt p)" "m' = tick m"
  | (granted) ttl p job where "begin_validate req = Inr ttl" "ms_jobs m (bar_JobID req) = Some job"
      "\<not> TerminalStatus (job_Status job)"
      "planBegin req ttl (ms_attempts m (bar_JobID req)) (now_value m) = Inr p" "\<not> plan_replay p"
      "r = Inr (plan_attempt p)"
      "m' = (tick m)\<lparr>ms_attempts := (ms_attempts m)
               (bar_JobID req := granted_history (ms_attempts m (bar_JobID req)) p (now_value m))\<rparr>"
proof -
  show ?thesis
  proof (cases "begin_validate req")
    case (Inl e)
    with assms show ?thesis by (intro refused) (auto simp: BeginAttempt_def)
  next
    case valid: (Inr ttl)
    show ?thesis
    proof (cases "ms_jobs m (bar_JobID req)")
      case None
      with assms valid show ?thesis by (intro refused) (auto simp: BeginAttempt_def)
    next
      case job: (Some job)
      show ?thesis
      proof (cases "TerminalStatus (job_Status job)")
        case True
        with assms valid job show ?thesis by (intro refused) (auto simp: BeginAttempt_def)
      next
        case live: False
        show ?thesis
        proof (cases "planBegin req ttl (ms_attempts m (bar_JobID req)) (now_value m)")
          case (Inl e)
          with assms valid job live show ?thesis
            by (intro refused [of e]) (auto simp: BeginAttempt_def Let_def)
        next
          case plan: (Inr p)
          show ?thesis
          proof (cases "plan_replay p")
            case True
            show ?thesis
              by (rule replayed [OF valid job live plan True])
                (use assms valid job live plan True in \<open>auto simp: BeginAttempt_def Let_def\<close>)
          next
            case False
            show ?thesis
              by (rule granted [OF valid job live plan False])
                (use assms valid job live plan False in
                  \<open>auto simp: BeginAttempt_def Let_def granted_history_def split: option.splits\<close>)
          qed
        qed
      qed
    qed
  qed
qed

lemma BeginAttempt_ledgers:
  assumes ok: "ledgers_ok m"
  shows "ledgers_ok (fst (BeginAttempt req m)) \<and> ledger_le m (fst (BeginAttempt req m))"
proof -
  obtain m' r where run: "BeginAttempt req m = (m', r)" by (cases "BeginAttempt req m")
  then show ?thesis
  proof (cases rule: BeginAttempt_cases)
    case (granted ttl p job)
    let ?h = "granted_history (ms_attempts m (bar_JobID req)) p (now_value m)"
    have "history_ok (bar_JobID req) (ms_attempts m (bar_JobID req))"
      using ok by (simp add: ledgers_ok_def)
    from granted_history_ok [OF this granted(4,5)]
    have "history_ok (bar_JobID req) ?h" "history_le (ms_attempts m (bar_JobID req)) ?h" by simp_all
    then show ?thesis
      using ok domI [of "ms_jobs m", OF granted(2)] run unfolding granted(7) by (simp add: ledgers_ok_def ledger_le_def)
  qed (use ok run in auto)
qed

lemma BeginAttempt_store_ok [keeps_inv]:
  assumes "store_ok m"
  shows "store_ok (fst (BeginAttempt req m))"
proof -
  obtain m' r where run: "BeginAttempt req m = (m', r)" by (cases "BeginAttempt req m")
  then show ?thesis by (cases rule: BeginAttempt_cases) (use assms run in auto)
qed

subsection \<open>Renew, mark submitted\<close>

lemma fence_found:
  assumes "fenceAttempt ref (attemptIndexLocked m ref) allow = None"
  obtains a where "attemptIndexLocked m ref = Some a"
    "find (is_attempt (ref_AttemptID ref)) (ms_attempts m (ref_JobID ref)) = Some a"
    "att_Generation a = ref_Generation ref"
    "att_State a = AttemptActive \<or> allow \<and> att_State a = AttemptFinished"
    "a \<in> set (ms_attempts m (ref_JobID ref))" "att_AttemptID a = ref_AttemptID ref"
proof -
  from assms obtain a where a: "attemptIndexLocked m ref = Some a"
    "att_Generation a = ref_Generation ref"
    "att_State a = AttemptActive \<or> allow \<and> att_State a = AttemptFinished"
    unfolding fence_open by blast
  then have f: "find (is_attempt (ref_AttemptID ref)) (ms_attempts m (ref_JobID ref)) = Some a"
    by (simp add: attemptIndexLocked_def)
  then have "a \<in> set (ms_attempts m (ref_JobID ref))" "att_AttemptID a = ref_AttemptID ref"
    by (auto simp: find_Some_iff is_attempt_def)
  with a f show ?thesis by (intro that)
qed

lemma found_ended_ok:
  "ledgers_ok m \<Longrightarrow> a \<in> set (ms_attempts m j) \<Longrightarrow> ended_ok a \<and> att_JobID a = j"
  unfolding ledgers_ok_def history_ok_def history_base_def ended_ok_def by blast

lemma put_tick: "put_attempt j aid f (tick m) = tick (put_attempt j aid f m)"
  by (simp add: put_attempt_def tick_def)

lemma RenewAttempt_ledgers:
  assumes ok: "ledgers_ok m"
  shows "ledgers_ok (fst (RenewAttempt ref ttl m)) \<and> ledger_le m (fst (RenewAttempt ref ttl m)) \<and>
         store_ok (fst (RenewAttempt ref ttl m)) = store_ok m"
proof (cases "\<exists>m' a. RenewAttempt ref ttl m = (m', Inr a)")
  case True
  then obtain d where gates: "ref_validate ref = None" "attemptTTL ttl = Inr d"
    "fenceAttempt ref (attemptIndexLocked m ref) False = None"
    by (auto simp: RenewAttempt_def Let_def split: option.splits sum.splits)
  then obtain a where a: "find (is_attempt (ref_AttemptID ref)) (ms_attempts m (ref_JobID ref)) = Some a"
    "att_State a = AttemptActive" "a \<in> set (ms_attempts m (ref_JobID ref))"
    by (elim fence_found) auto
  have e: "ended_ok a" using found_ended_ok [OF ok a(3)] by simp
  have "ledgers_ok (put_attempt (ref_JobID ref) (ref_AttemptID ref) f m) \<and>
        ledger_le m (put_attempt (ref_JobID ref) (ref_AttemptID ref) f m)"
    if "att_le a (f a)" "ended_ok (f a)" for f
    by (rule put_attempt_ok [where f = f, OF ok a(1) that])
  then show ?thesis
    using gates a(2) e by (simp add: RenewAttempt_def Let_def put_tick att_le_def ended_ok_def)
next
  case False
  then have "fst (RenewAttempt ref ttl m) = m"
    by (auto simp: RenewAttempt_def Let_def split: option.splits sum.splits)
  then show ?thesis using ok by simp
qed

lemma MarkSubmitted_ledgers:
  assumes ok: "ledgers_ok m"
  shows "ledgers_ok (fst (MarkSubmitted ref m)) \<and> ledger_le m (fst (MarkSubmitted ref m)) \<and>
         store_ok (fst (MarkSubmitted ref m)) = store_ok m"
proof (cases "\<exists>m' a. MarkSubmitted ref m = (m', Inr a)")
  case True
  then have gates: "ref_validate ref = None"
    "fenceAttempt ref (attemptIndexLocked m ref) False = None"
    by (auto simp: MarkSubmitted_def Let_def split: option.splits)
  then obtain a where a: "find (is_attempt (ref_AttemptID ref)) (ms_attempts m (ref_JobID ref)) = Some a"
    "att_State a = AttemptActive" "a \<in> set (ms_attempts m (ref_JobID ref))"
    by (elim fence_found) auto
  have e: "ended_ok a" using found_ended_ok [OF ok a(3)] by simp
  have "ledgers_ok (put_attempt (ref_JobID ref) (ref_AttemptID ref) f m) \<and>
        ledger_le m (put_attempt (ref_JobID ref) (ref_AttemptID ref) f m)"
    if "att_le a (f a)" "ended_ok (f a)" for f
    by (rule put_attempt_ok [where f = f, OF ok a(1) that])
  then show ?thesis
    using gates a(2) e
    by (simp add: MarkSubmitted_def Let_def put_tick att_le_def ended_ok_def split: option.split)
next
  case False
  then have "fst (MarkSubmitted ref m) = m"
    by (auto simp: MarkSubmitted_def Let_def split: option.splits)
  then show ?thesis using ok by simp
qed

subsection \<open>Commit\<close>

text \<open>The four ways a commit ends.\<close>

lemma CommitEvents_cases:
  assumes "CommitEvents env ref events m = (m', r)"
  obtains (refused) e where "r = Inl e" "m' = m"
  | (failed) a job job1 e where "validateAttemptCommit ref events = None"
      "find (is_attempt (ref_AttemptID ref)) (ms_attempts m (ref_JobID ref)) = Some a"
      "att_Generation a = ref_Generation ref" "att_State a \<noteq> AttemptExpired"
      "ms_jobs m (ref_JobID ref) = Some job"
      "applyBatchLocked env m job events = (m', job1, Some e)" "r = Inl (JobErr e)"
  | (ended) a job job1 m1 where "validateAttemptCommit ref events = None"
      "find (is_attempt (ref_AttemptID ref)) (ms_attempts m (ref_JobID ref)) = Some a"
      "att_Generation a = ref_Generation ref" "att_State a = AttemptActive"
      "ms_jobs m (ref_JobID ref) = Some job"
      "applyBatchLocked env m job events = (m1, job1, None)" "TerminalStatus (job_Status job1)"
      "m' = tick (put_attempt (ref_JobID ref) (ref_AttemptID ref)
                    (end_attempt AttemptFinished (now_value m1)) m1)" "r = Inr job1"
  | (kept) a job job1 where "validateAttemptCommit ref events = None"
      "find (is_attempt (ref_AttemptID ref)) (ms_attempts m (ref_JobID ref)) = Some a"
      "att_Generation a = ref_Generation ref" "att_State a \<noteq> AttemptExpired"
      "ms_jobs m (ref_JobID ref) = Some job"
      "applyBatchLocked env m job events = (m', job1, None)"
      "att_State a = AttemptActive \<longrightarrow> \<not> TerminalStatus (job_Status job1)" "r = Inr job1"
proof (cases "validateAttemptCommit ref events")
  case (Some e)
  with assms show ?thesis by (intro refused) (auto simp: CommitEvents_def)
next
  case valid: None
  show ?thesis
  proof (cases "fenceAttempt ref (attemptIndexLocked m ref) True")
    case (Some e)
    with assms valid show ?thesis by (intro refused) (auto simp: CommitEvents_def Let_def)
  next
    case fence: None
    then obtain a where a: "attemptIndexLocked m ref = Some a"
      "find (is_attempt (ref_AttemptID ref)) (ms_attempts m (ref_JobID ref)) = Some a"
      "att_Generation a = ref_Generation ref" "att_State a \<noteq> AttemptExpired"
      by (elim fence_found) auto
    show ?thesis
    proof (cases "ms_jobs m (ref_JobID ref)")
      case None
      with assms valid fence show ?thesis by (intro refused) (auto simp: CommitEvents_def Let_def)
    next
      case job: (Some job)
      obtain m1 job1 e where run: "applyBatchLocked env m job events = (m1, job1, e)"
        by (cases "applyBatchLocked env m job events")
      note eqs = valid fence job run a(1)
      show ?thesis
      proof (cases e)
        case (Some e')
        with assms eqs show ?thesis
          by (intro failed [OF valid a(2,3,4) job]) (auto simp: CommitEvents_def Let_def)
      next
        case None
        show ?thesis
        proof (cases "att_State a = AttemptActive \<and> TerminalStatus (job_Status job1)")
          case True
          with assms eqs None show ?thesis
            by (intro ended [OF valid a(2,3) _ job])
              (auto simp: CommitEvents_def Let_def put_tick)
        next
          case False
          with assms eqs None show ?thesis
            by (intro kept [OF valid a(2,3,4) job]) (auto simp: CommitEvents_def Let_def)
        qed
      qed
    qed
  qed
qed

lemma batch_ledger:
  assumes ok: "store_ok m" and job: "ms_jobs m x = Some job"
    and run: "applyBatchLocked env m job events = (m', job', r)"
  shows "ms_attempts m' = ms_attempts m \<and> dom (ms_jobs m) \<subseteq> dom (ms_jobs m') \<and> store_ok m'"
proof -
  from jobs_okD [OF ok job] job have self: "ms_jobs m (job_ID job) = Some job" by simp
  have "store_ok m'" by (rule batch_store_ok [OF run ok self])
  moreover have "ms_attempts m' = ms_attempts m \<and> dom (ms_jobs m) \<subseteq> dom (ms_jobs m')"
  proof (cases r)
    case None
    with run have "apply_each env m job events = (m', job', None)" by (auto intro: batch_lands)
    from apply_each_step [OF this ok self] show ?thesis
      unfolding touches_def dom_def by (metis (mono_tags, lifting) mem_Collect_eq option.distinct(1) subsetI)
  next
    case (Some e)
    with batch_rollback [OF _ ok self] run have "m' = m\<lparr>ms_ticks := ms_ticks m'\<rparr>" by blast
    then have "ms_attempts m' = ms_attempts (m\<lparr>ms_ticks := ms_ticks m'\<rparr>)"
      "ms_jobs m' = ms_jobs (m\<lparr>ms_ticks := ms_ticks m'\<rparr>)" by metis+
    then show ?thesis by simp
  qed
  ultimately show ?thesis by simp
qed

lemma CommitEvents_ledgers:
  assumes ok: "ledgers_ok m" and store: "store_ok m"
  shows "ledgers_ok (fst (CommitEvents env ref events m)) \<and>
         ledger_le m (fst (CommitEvents env ref events m)) \<and>
         store_ok (fst (CommitEvents env ref events m))"
proof -
  obtain m' r where run: "CommitEvents env ref events m = (m', r)"
    by (cases "CommitEvents env ref events m")
  then have "ledgers_ok m' \<and> ledger_le m m' \<and> store_ok m'"
  proof (cases rule: CommitEvents_cases)
    case refused
    then show ?thesis using ok store by simp
  next
    case (failed a job job1 e)
    from batch_ledger [OF store failed(5,6)] show ?thesis
      using ledgers_ok_more_jobs [OF ok] ledger_le_same by blast
  next
    case (kept a job job1)
    from batch_ledger [OF store kept(5,6)] show ?thesis
      using ledgers_ok_more_jobs [OF ok] ledger_le_same by blast
  next
    case (ended a job job1 m1)
    from batch_ledger [OF store ended(5,6)] have m1: "ms_attempts m1 = ms_attempts m" "store_ok m1"
      and ok1: "ledgers_ok m1" and le: "ledger_le m m1"
      using ledgers_ok_more_jobs [OF ok] ledger_le_same by blast+
    have "ledgers_ok (put_attempt (ref_JobID ref) (ref_AttemptID ref)
              (end_attempt AttemptFinished (now_value m1)) m1) \<and>
          ledger_le m1 (put_attempt (ref_JobID ref) (ref_AttemptID ref)
              (end_attempt AttemptFinished (now_value m1)) m1)"
      by (rule put_attempt_ok [OF ok1, where a = a])
        (use ended(2,4) m1 in \<open>simp_all add: att_le_def ended_ok_def end_attempt_def\<close>)
    then show ?thesis
      using ledger_le_trans [OF le] m1(2) unfolding ended(8) by simp
  qed
  with run show ?thesis by simp
qed

subsection \<open>Expire\<close>

definition expire_all :: "gotime \<Rightarrow> attempt list \<Rightarrow> memory_store \<Rightarrow> memory_store" where
  "expire_all now due m =
     fold (\<lambda>a. put_attempt (att_JobID a) (att_AttemptID a) (end_attempt AttemptExpired now)) due m"

definition att_key :: "attempt \<Rightarrow> string \<times> string" where
  "att_key a = (att_JobID a, att_AttemptID a)"

lemma find_distinct: "distinct (map g h) \<Longrightarrow> a \<in> set h \<Longrightarrow> find (\<lambda>x. g x = g a) h = Some a"
  by (induction h) (auto simp: image_iff)

lemma ledger_find:
  assumes "ledgers_ok m" and "a \<in> set (ms_attempts m j)"
  shows "att_JobID a = j \<and> find (is_attempt (att_AttemptID a)) (ms_attempts m j) = Some a"
proof -
  have "distinct (map att_AttemptID (ms_attempts m j))"
    using assms(1) by (simp add: ledgers_ok_def history_ok_def history_base_def)
  from find_distinct [OF this assms(2)] show ?thesis
    using found_ended_ok [OF assms] by (simp add: is_attempt_def [abs_def])
qed

text \<open>One write of the loop, as a map over every ledger.\<close>

lemma put_attempt_map:
  assumes ok: "ledgers_ok m" and a: "a \<in> set (ms_attempts m (att_JobID a))"
  shows "ms_attempts (put_attempt (att_JobID a) (att_AttemptID a) f m) j =
           map (\<lambda>x. if x = a then f x else x) (ms_attempts m j)"
proof (cases "j = att_JobID a")
  case True
  have d: "distinct (map att_AttemptID (ms_attempts m j))"
    using ok by (simp add: ledgers_ok_def history_ok_def history_base_def)
  have "update_first (is_attempt (att_AttemptID a)) f (ms_attempts m j) =
          map (\<lambda>x. if is_attempt (att_AttemptID a) x then f x else x) (ms_attempts m j)"
    by (rule update_first_eq_map [OF d]) (simp add: is_attempt_def)
  moreover have "is_attempt (att_AttemptID a) x = (x = a)" if "x \<in> set (ms_attempts m j)" for x
    using d that a True unfolding is_attempt_def by (auto simp: distinct_map inj_on_def)
  ultimately show ?thesis using True by simp
next
  case False
  then have "x \<noteq> a" if "x \<in> set (ms_attempts m j)" for x
    using found_ended_ok [OF ok that] by auto
  with False show ?thesis by (auto intro!: map_idI [symmetric])
qed

lemma expire_all_spec:
  assumes "ledgers_ok m"
    and "\<forall>a \<in> set due. a \<in> set (ms_attempts m (att_JobID a)) \<and> att_State a = AttemptActive"
    and "distinct (map att_key due)"
  shows "ledgers_ok (expire_all now due m) \<and> ledger_le m (expire_all now due m) \<and>
         ms_jobs (expire_all now due m) = ms_jobs m \<and>
         store_ok (expire_all now due m) = store_ok m \<and>
         (\<forall>j. ms_attempts (expire_all now due m) j =
            map (\<lambda>x. if x \<in> set due then end_attempt AttemptExpired now x else x) (ms_attempts m j))"
  using assms
proof (induction due arbitrary: m)
  case Nil
  then show ?case by (simp add: expire_all_def)
next
  case (Cons a due)
  let ?f = "end_attempt AttemptExpired now"
  let ?m1 = "put_attempt (att_JobID a) (att_AttemptID a) ?f m"
  have a: "a \<in> set (ms_attempts m (att_JobID a))" "att_State a = AttemptActive" using Cons.prems(2) by auto
  have one: "ledgers_ok ?m1 \<and> ledger_le m ?m1"
    by (rule put_attempt_ok [OF Cons.prems(1), where a = a])
      (use ledger_find [OF Cons.prems(1) a(1)] a(2) in \<open>simp_all add: att_le_def ended_ok_def end_attempt_def\<close>)
  note map1 = put_attempt_map [OF Cons.prems(1) a(1), of ?f]
  have other: "x \<noteq> a" if "x \<in> set due" for x
    using Cons.prems(3) that by (auto simp: image_iff)
  have due: "\<forall>x \<in> set due. x \<in> set (ms_attempts ?m1 (att_JobID x)) \<and> att_State x = AttemptActive"
  proof
    fix x assume x: "x \<in> set due"
    then have "x \<in> set (ms_attempts m (att_JobID x))" "att_State x = AttemptActive" using Cons.prems(2) by auto
    with other [OF x] show "x \<in> set (ms_attempts ?m1 (att_JobID x)) \<and> att_State x = AttemptActive"
      unfolding map1 by (auto simp: image_iff)
  qed
  have dist: "distinct (map att_key due)" using Cons.prems(3) by simp
  note IH = Cons.IH [OF conjunct1 [OF one] due dist]
  have run: "expire_all now (a # due) m = expire_all now due ?m1" by (simp add: expire_all_def)
  have ended: "?f a \<notin> set due"
  proof
    assume "?f a \<in> set due"
    then have "att_State (?f a) = AttemptActive" using Cons.prems(2) by (meson list.set_intros(2))
    then show False by (simp add: end_attempt_def)
  qed
  have "map (\<lambda>x. if x \<in> set due then ?f x else x) (map (\<lambda>x. if x = a then ?f x else x) h) =
        map (\<lambda>x. if x \<in> set (a # due) then ?f x else x) h" for h
    using other ended by auto
  then show ?case
    using IH one ledger_le_trans unfolding run map1 by auto
qed

lemma due_attempts_spec:
  assumes ok: "ledgers_ok m" and store: "store_ok m"
  shows "set (due_attempts now m) =
           {a. a \<in> set (ms_attempts m (att_JobID a)) \<and> att_State a = AttemptActive \<and> att_LeaseExpiresAt a \<le> now}"
    and "distinct (map att_key (due_attempts now m))"
proof -
  have jobs: "set (ms_order m) = dom (ms_jobs m)" "distinct (ms_order m)"
    using store by (simp_all add: store_ok_def jobs_ok_def)
  have here: "att_JobID a = j \<and> j \<in> set (ms_order m)" if "a \<in> set (ms_attempts m j)" for a j
  proof -
    from that have "ms_attempts m j \<noteq> []" by auto
    with ok have "j \<in> dom (ms_jobs m)" unfolding ledgers_ok_def by blast
    then show ?thesis using jobs found_ended_ok [OF ok that] by simp
  qed
  then show "set (due_attempts now m) =
      {a. a \<in> set (ms_attempts m (att_JobID a)) \<and> att_State a = AttemptActive \<and> att_LeaseExpiresAt a \<le> now}"
    by (auto simp: due_attempts_def not_less)
  have "distinct (map att_key (concat (map (ms_attempts m) js)))" if "distinct js" for js
    using that
  proof (induction js)
    case Nil
    show ?case by simp
  next
    case (Cons j js)
    have "distinct (map att_AttemptID (ms_attempts m j))"
      using ok by (simp add: ledgers_ok_def history_ok_def history_base_def)
    then have "distinct (map att_key (ms_attempts m j))"
      by (auto simp: distinct_map inj_on_def att_key_def)
    moreover have "att_key a \<noteq> att_key b" if "a \<in> set (ms_attempts m j)" "b \<in> set (ms_attempts m j')" "j' \<in> set js" for a b j'
      using here that Cons.prems by (auto simp: att_key_def)
    then have "set (map att_key (ms_attempts m j)) \<inter> set (map att_key (concat (map (ms_attempts m) js))) = {}"
      by fastforce
    ultimately show ?case using Cons by (simp del: set_map)
  qed
  from this [OF jobs(2)] have "distinct (map att_key (filter P (concat (map (ms_attempts m) (ms_order m)))))" for P
    by (rule distinct_map_filter)
  then show "distinct (map att_key (due_attempts now m))"
    unfolding due_attempts_def distinct_map distinct_sort set_sort .
qed

lemma ExpireAttempts_eq:
  "ExpireAttempts limit m =
     (let due = take (nat (expireBatch limit)) (due_attempts (now_value m) m)
      in (expire_all (now_value m) due (tick m), map (end_attempt AttemptExpired (now_value m)) due))"
  by (simp add: ExpireAttempts_def expire_all_def due_attempts_def Let_def)

lemma ExpireAttempts_spec:
  assumes ok: "ledgers_ok m" and store: "store_ok m"
    and due: "due = take (nat (expireBatch limit)) (due_attempts (now_value m) m)"
  shows "ledgers_ok (fst (ExpireAttempts limit m))" "ledger_le m (fst (ExpireAttempts limit m))"
    "store_ok (fst (ExpireAttempts limit m))"
    "ms_attempts (fst (ExpireAttempts limit m)) j =
       map (\<lambda>x. if x \<in> set due then end_attempt AttemptExpired (now_value m) x else x) (ms_attempts m j)"
proof -
  have "\<forall>a \<in> set due. a \<in> set (ms_attempts (tick m) (att_JobID a)) \<and> att_State a = AttemptActive"
    using due_attempts_spec(1) [OF ok store] unfolding due by (auto dest: in_set_takeD)
  moreover have "distinct (map att_key due)"
    using due_attempts_spec(2) [OF ok store] unfolding due by (simp flip: take_map)
  ultimately have "ledgers_ok (expire_all (now_value m) due (tick m)) \<and> ledger_le (tick m) (expire_all (now_value m) due (tick m)) \<and>
         ms_jobs (expire_all (now_value m) due (tick m)) = ms_jobs (tick m) \<and>
         store_ok (expire_all (now_value m) due (tick m)) = store_ok (tick m) \<and>
         (\<forall>j. ms_attempts (expire_all (now_value m) due (tick m)) j =
            map (\<lambda>x. if x \<in> set due then end_attempt AttemptExpired (now_value m) x else x) (ms_attempts (tick m) j))"
    using ok by (intro expire_all_spec) simp_all
  then show "ledgers_ok (fst (ExpireAttempts limit m))" "ledger_le m (fst (ExpireAttempts limit m))"
    "store_ok (fst (ExpireAttempts limit m))"
    "ms_attempts (fst (ExpireAttempts limit m)) j =
       map (\<lambda>x. if x \<in> set due then end_attempt AttemptExpired (now_value m) x else x) (ms_attempts m j)"
    using store by (simp_all add: ExpireAttempts_eq Let_def flip: due)
qed

end
