(* ===== verification/JobMachine.thy ===== *)
theory JobMachine
  imports AttemptInv
begin

text \<open>
  The job store as a machine: every operation of the store as one step, the invariant of all
  its parts, the forward order on jobs and logs, and the interface a fenced writer relies on
  (the locale \<open>fenced_ledger\<close>), interpreted on the in-memory store.
\<close>

datatype jobs_op =
    OpCreate create_request
  | OpTransition string status status
  | OpUpdate string status
  | OpApply worker_event
  | OpApplyBatch "worker_event list"
  | OpBegin begin_request
  | OpRenew attempt_ref dur
  | OpMarkSubmitted attempt_ref
  | OpCommit attempt_ref "worker_event list"
  | OpExpire int

fun jobs_step :: "env \<Rightarrow> jobs_op \<Rightarrow> memory_store \<Rightarrow> memory_store" where
  "jobs_step env (OpCreate r) m = fst (Create r m)"
| "jobs_step env (OpTransition i a b) m = fst (TransitionStatus i a b m)"
| "jobs_step env (OpUpdate i st) m = fst (UpdateStatus i st m)"
| "jobs_step env (OpApply e) m = fst (ApplyWorkerEvent env e m)"
| "jobs_step env (OpApplyBatch es) m = fst (ApplyWorkerEvents env es m)"
| "jobs_step env (OpBegin r) m = fst (BeginAttempt r m)"
| "jobs_step env (OpRenew r ttl) m = fst (RenewAttempt r ttl m)"
| "jobs_step env (OpMarkSubmitted r) m = fst (MarkSubmitted r m)"
| "jobs_step env (OpCommit r es) m = fst (CommitEvents env r es m)"
| "jobs_step env (OpExpire n) m = fst (ExpireAttempts n m)"

definition jobs_run :: "env \<Rightarrow> jobs_op list \<Rightarrow> memory_store \<Rightarrow> memory_store" where
  "jobs_run env ops m = fold (jobs_step env) ops m"

definition jobs_inv :: "memory_store \<Rightarrow> bool" where
  "jobs_inv m = (store_ok m \<and> ledgers_ok m)"

text \<open>
  The forward order: no job disappears, what a client submitted never changes, statuses only
  advance, logs only grow.
\<close>

definition job_le :: "job \<Rightarrow> job \<Rightarrow> bool" where
  "job_le a b =
     (b = a\<lparr>job_Status := job_Status b, job_Result := job_Result b, job_UpdatedAt := job_UpdatedAt b\<rparr> \<and>
      status_le (job_Status a) (job_Status b))"

definition store_le :: "memory_store \<Rightarrow> memory_store \<Rightarrow> bool" where
  "store_le m m' =
     ((\<forall>i j. ms_jobs m i = Some j \<longrightarrow> (\<exists>j'. ms_jobs m' i = Some j' \<and> job_le j j')) \<and>
      (\<forall>i. prefix (ms_events m i) (ms_events m' i) \<and> ms_eventKey m i \<subseteq> ms_eventKey m' i))"

text \<open>The part of it that even a backward \<open>TransitionStatus\<close> keeps.\<close>

definition job_same :: "job \<Rightarrow> job \<Rightarrow> bool" where
  "job_same a b =
     (b = a\<lparr>job_Status := job_Status b, job_Result := job_Result b, job_UpdatedAt := job_UpdatedAt b\<rparr>)"

definition log_le :: "memory_store \<Rightarrow> memory_store \<Rightarrow> bool" where
  "log_le m m' =
     ((\<forall>i j. ms_jobs m i = Some j \<longrightarrow> (\<exists>j'. ms_jobs m' i = Some j' \<and> job_same j j')) \<and>
      (\<forall>i. prefix (ms_events m i) (ms_events m' i) \<and> ms_eventKey m i \<subseteq> ms_eventKey m' i))"

text \<open>Every operation but a \<open>TransitionStatus\<close> between statuses that do not advance.\<close>

fun op_forward :: "jobs_op \<Rightarrow> bool" where
  "op_forward (OpTransition _ a b) = status_le a b"
| "op_forward _ = True"

lemma job_le_refl [simp]: "job_le j j"
  by (simp add: job_le_def)

lemma job_le_trans: "job_le a b \<Longrightarrow> job_le b c \<Longrightarrow> job_le a c"
  by (cases a; cases b; cases c) (auto simp: job_le_def intro: status_le_trans)

lemma store_le_refl [simp]: "store_le m m"
  by (auto simp: store_le_def)

lemma store_le_trans: "store_le m m' \<Longrightarrow> store_le m' m'' \<Longrightarrow> store_le m m''"
  unfolding store_le_def by (meson job_le_trans prefix_order.trans subset_trans)

lemma store_le_log: "store_le m m' \<Longrightarrow> log_le m m'"
  unfolding store_le_def log_le_def job_le_def job_same_def by blast

lemma job_same_trans: "job_same a b \<Longrightarrow> job_same b c \<Longrightarrow> job_same a c"
  by (cases a; cases b; cases c) (auto simp: job_same_def)

lemma log_le_trans: "log_le m m' \<Longrightarrow> log_le m' m'' \<Longrightarrow> log_le m m''"
  unfolding log_le_def by (meson job_same_trans prefix_order.trans subset_trans)

lemma log_le_refl: "log_le m m"
  by (rule store_le_log) simp

lemma store_le_same:
  "ms_jobs m' = ms_jobs m \<Longrightarrow> ms_events m' = ms_events m \<Longrightarrow> ms_eventKey m' = ms_eventKey m \<Longrightarrow>
   store_le m m'"
  by (auto simp: store_le_def)

lemma store_le_append [simp]: "store_le m (appendEventLocked m' job t d)" if "store_le m m'"
proof -
  have "store_le m' (appendEventLocked m' job t d)" by (auto simp: store_le_def)
  with that show ?thesis by (rule store_le_trans)
qed

text \<open>Writing a later version of a job.\<close>

lemma store_le_put:
  assumes "ms_jobs m (job_ID job) = Some job" and "job_le job job'"
    and "ms_jobs m' = (ms_jobs m)(job_ID job \<mapsto> job')" and "ms_events m' = ms_events m"
    and "ms_eventKey m' = ms_eventKey m"
  shows "store_le m m'"
  using assms by (auto simp: store_le_def)

subsection \<open>Each operation moves forward\<close>

lemma Create_le:
  assumes ok: "store_ok m"
  shows "store_le m (fst (Create r m))"
proof -
  let ?id = "job_ident (Suc (ms_sequence m))"
  have none: "ms_jobs m ?id = None" by (rule fresh_job_id [OF ok])
  define m3 where "m3 = (tick (m\<lparr>ms_sequence := Suc (ms_sequence m)\<rparr>))
     \<lparr>ms_jobs := (ms_jobs m)(?id \<mapsto> snd (Create r m)), ms_order := ms_order m @ [?id]\<rparr>"
  obtain t d where "fst (Create r m) = appendEventLocked m3 (snd (Create r m)) t d"
    unfolding m3_def Create_def Let_def by simp
  moreover have "store_le m m3" using none by (auto simp: store_le_def m3_def)
  ultimately show ?thesis by simp
qed

lemma set_status_le:
  assumes "ms_jobs m (job_ID job) = Some job" and "status_le (job_Status job) st"
  shows "store_le m (fst (set_status job st m))"
proof -
  have "job_le job (job\<lparr>job_Status := st, job_UpdatedAt := now_value m\<rparr>)"
    using assms(2) by (simp add: job_le_def)
  from store_le_put [OF assms(1) this] show ?thesis
    by (simp add: set_status_def Let_def)
qed

lemma TransitionStatus_le:
  assumes ok: "store_ok m" and le: "status_le a b"
  shows "store_le m (fst (TransitionStatus i a b m))"
proof (cases "ms_jobs m i")
  case None
  then show ?thesis by (simp add: TransitionStatus_def)
next
  case (Some job)
  then have "ms_jobs m (job_ID job) = Some job" using jobs_okD [OF ok] by fastforce
  from set_status_le [OF this] le Some show ?thesis
    by (auto simp: TransitionStatus_def split_beta)
qed

lemma UpdateStatus_le:
  assumes ok: "store_ok m"
  shows "store_le m (fst (UpdateStatus i st m))"
proof (cases "ms_jobs m i")
  case None
  then show ?thesis by (simp add: UpdateStatus_def)
next
  case (Some job)
  then have job: "ms_jobs m (job_ID job) = Some job" using jobs_okD [OF ok] by fastforce
  show ?thesis
  proof (cases "shouldAdvanceStatus (job_Status job) st")
    case True
    from set_status_le [OF job shouldAdvance_le [OF True]] Some show ?thesis
      by (auto simp: UpdateStatus_def split_beta)
  next
    case False
    with Some show ?thesis by (simp add: UpdateStatus_def)
  qed
qed

lemma landed_job_le: "job_le job (landed_job env m job e)"
proof -
  have "status_le (job_Status job) (job_Status (landed_job env m job e))"
    by (simp add: landed_job_status shouldAdvance_le)
  then show ?thesis
    by (cases job) (auto simp: job_le_def landed_job_def Let_def split: option.split)
qed

lemma landed_le:
  assumes "ms_jobs m (job_ID job) = Some job"
  shows "store_le m (landed env m job e)"
proof -
  let ?m = "(tick m)\<lparr>ms_jobs := (ms_jobs m)(job_ID job \<mapsto> landed_job env m job e)\<rparr>"
  have "store_le m ?m" by (rule store_le_put [OF assms landed_job_le]) simp_all
  then show ?thesis by (simp add: landed_def Let_def)
qed

lemma apply_le:
  assumes "applyWorkerEventLocked env m job event = (m', job', r)"
    and "ms_jobs m (job_ID job) = Some job"
  shows "store_le m m' \<and> job_le job job'"
proof -
  have key: "store_le m (take_key m job event)" 
    by (auto simp: store_le_def take_key_def)
  from assms(1) show ?thesis
  proof (cases rule: apply_cases)
    case lands
    then show ?thesis
      using store_le_trans [OF key landed_le] assms(2) landed_job_le by simp
  qed (use key in auto)
qed

lemma apply_each_le:
  assumes "apply_each env m job events = (m', job', r)"
    and "store_ok m" and "ms_jobs m (job_ID job) = Some job"
  shows "store_le m m' \<and> job_le job job'"
  using assms
proof (induction events arbitrary: m job)
  case Nil
  then show ?case by simp
next
  case (Cons event events)
  obtain m1 job1 r1 where step: "applyWorkerEventLocked env m job event = (m1, job1, r1)"
    by (cases "applyWorkerEventLocked env m job event")
  from apply_store_ok [OF step Cons.prems(2,3)] have
    ok: "store_ok m1" "ms_jobs m1 (job_ID job1) = Some job1" by simp_all
  note le = apply_le [OF step Cons.prems(3)]
  show ?case
  proof (cases r1)
    case None
    with step Cons.prems(1) have "apply_each env m1 job1 events = (m', job', r)" by simp
    from Cons.IH [OF this ok] le show ?thesis using store_le_trans job_le_trans by blast
  next
    case (Some e)
    with step Cons.prems(1) le show ?thesis by auto
  qed
qed

lemma batch_le:
  assumes run: "applyBatchLocked env m job events = (m', job', r)"
    and ok: "store_ok m" and job: "ms_jobs m (job_ID job) = Some job"
  shows "store_le m m'"
proof (cases r)
  case None
  with run have "apply_each env m job events = (m', job', None)" by (auto intro: batch_lands)
  from apply_each_le [OF this ok job] show ?thesis by simp
next
  case (Some e)
  with batch_rollback [OF _ ok job] run have "m' = m\<lparr>ms_ticks := ms_ticks m'\<rparr>" by blast
  then have "ms_jobs m' = ms_jobs (m\<lparr>ms_ticks := ms_ticks m'\<rparr>)"
    "ms_events m' = ms_events (m\<lparr>ms_ticks := ms_ticks m'\<rparr>)"
    "ms_eventKey m' = ms_eventKey (m\<lparr>ms_ticks := ms_ticks m'\<rparr>)" by metis+
  then show ?thesis by (intro store_le_same) simp_all
qed

lemma ApplyWorkerEvent_le:
  assumes ok: "store_ok m"
  shows "store_le m (fst (ApplyWorkerEvent env e m))"
proof (cases "ms_jobs m (we_JobID e)")
  case None
  then show ?thesis by (simp add: ApplyWorkerEvent_def split: option.split)
next
  case (Some job)
  then have job: "ms_jobs m (job_ID job) = Some job" using jobs_okD [OF ok] by fastforce
  obtain m' job' r where a: "applyWorkerEventLocked env m job e = (m', job', r)"
    by (cases "applyWorkerEventLocked env m job e")
  from apply_le [OF a job] a Some show ?thesis
    by (simp add: ApplyWorkerEvent_def split: option.split)
qed

lemma ApplyWorkerEvents_le:
  assumes ok: "store_ok m"
  shows "store_le m (fst (ApplyWorkerEvents env es m))"
proof (cases "ms_jobs m (we_JobID (hd es))")
  case None
  then show ?thesis by (simp add: ApplyWorkerEvents_def split: option.split)
next
  case (Some job)
  then have job: "ms_jobs m (job_ID job) = Some job" using jobs_okD [OF ok] by fastforce
  obtain m' job' r where a: "applyBatchLocked env m job es = (m', job', r)"
    by (cases "applyBatchLocked env m job es")
  from batch_le [OF a ok job] a Some show ?thesis
    by (simp add: ApplyWorkerEvents_def split: option.split)
qed

lemma BeginAttempt_le: "store_le m (fst (BeginAttempt req m))"
proof -
  obtain m' r where run: "BeginAttempt req m = (m', r)" by (cases "BeginAttempt req m")
  then show ?thesis by (cases rule: BeginAttempt_cases) (use run in \<open>auto intro: store_le_same\<close>)
qed

lemma put_attempt_le: "store_le m (put_attempt j aid f m')" if "store_le m m'"
  by (rule store_le_trans [OF that store_le_same]) (simp_all add: put_attempt_def)

lemma store_le_tick: "store_le m (tick m')" if "store_le m m'"
  by (rule store_le_trans [OF that store_le_same]) simp_all

lemma RenewAttempt_le: "store_le m (fst (RenewAttempt ref ttl m))"
  by (auto simp: RenewAttempt_def Let_def put_tick intro!: store_le_tick put_attempt_le
      split: option.split sum.split)

lemma MarkSubmitted_le: "store_le m (fst (MarkSubmitted ref m))"
  by (auto simp: MarkSubmitted_def Let_def put_tick intro!: store_le_tick put_attempt_le
      split: option.split)

lemma CommitEvents_le:
  assumes store: "store_ok m"
  shows "store_le m (fst (CommitEvents env ref events m))"
proof -
  have batch: "store_le m m1"
    if "ms_jobs m x = Some job" "applyBatchLocked env m job events = (m1, job1, e)" for x job m1 job1 e
    using batch_le [OF that(2) store] jobs_okD [OF store that(1)] that(1) by simp
  obtain m' r where run: "CommitEvents env ref events m = (m', r)"
    by (cases "CommitEvents env ref events m")
  then have "store_le m m'"
    by (cases rule: CommitEvents_cases) (auto intro: batch store_le_tick put_attempt_le)
  with run show ?thesis by simp
qed

lemma expire_all_le: "store_le m (expire_all now due m)"
proof -
  have "store_le m m' \<Longrightarrow> store_le m (expire_all now due m')" for m'
    unfolding expire_all_def by (induction due arbitrary: m') (auto intro: put_attempt_le)
  then show ?thesis by simp
qed

lemma ExpireAttempts_le: "store_le m (fst (ExpireAttempts n m))"
  by (simp add: ExpireAttempts_eq Let_def store_le_trans [OF store_le_tick expire_all_le])

subsection \<open>Job operations leave the ledger alone\<close>

lemma job_ops_ledger:
  "ms_attempts (fst (Create r m)) = ms_attempts m"
  "ms_attempts (fst (TransitionStatus i a b m)) = ms_attempts m"
  "ms_attempts (fst (UpdateStatus i st m)) = ms_attempts m"
  by (simp_all add: Create_def TransitionStatus_def UpdateStatus_def set_status_def Let_def
      split: option.split)

lemma ApplyWorkerEvent_ledger:
  assumes ok: "store_ok m"
  shows "ms_attempts (fst (ApplyWorkerEvent env e m)) = ms_attempts m"
proof (cases "ms_jobs m (we_JobID e)")
  case None
  then show ?thesis by (simp add: ApplyWorkerEvent_def split: option.split)
next
  case (Some job)
  obtain m' job' r where a: "applyWorkerEventLocked env m job e = (m', job', r)"
    by (cases "applyWorkerEventLocked env m job e")
  from apply_touches [OF a] a Some show ?thesis
    by (simp add: ApplyWorkerEvent_def touches_def split: option.split)
qed

lemma ApplyWorkerEvents_ledger:
  assumes ok: "store_ok m"
  shows "ms_attempts (fst (ApplyWorkerEvents env es m)) = ms_attempts m"
proof (cases "ms_jobs m (we_JobID (hd es))")
  case None
  then show ?thesis by (simp add: ApplyWorkerEvents_def split: option.split)
next
  case (Some job)
  obtain m' job' r where a: "applyBatchLocked env m job es = (m', job', r)"
    by (cases "applyBatchLocked env m job es")
  from batch_ledger [OF ok Some a] a Some show ?thesis
    by (simp add: ApplyWorkerEvents_def split: option.split)
qed

text \<open>No job disappears, under any operation.\<close>

lemma dom_mono: "store_le m m' \<Longrightarrow> dom (ms_jobs m) \<subseteq> dom (ms_jobs m')"
  unfolding store_le_def dom_def by blast

lemma TransitionStatus_dom: "dom (ms_jobs m) \<subseteq> dom (ms_jobs (fst (TransitionStatus i a b m)))"
  by (auto simp: TransitionStatus_def set_status_def Let_def split: option.split)

subsection \<open>The machine\<close>

lemma jobs_step_inv:
  assumes "jobs_inv m"
  shows "jobs_inv (jobs_step env op m)"
proof -
  from assms have store: "store_ok m" and led: "ledgers_ok m" by (simp_all add: jobs_inv_def)
  note keep = ledgers_ok_more_jobs [OF led]
  show ?thesis
  proof (cases op)
    case (OpCreate r)
    with keep [OF job_ops_ledger(1) dom_mono [OF Create_le [OF store]]] Create_store_ok [OF store]
    show ?thesis by (simp add: jobs_inv_def)
  next
    case (OpTransition i a b)
    with keep [OF job_ops_ledger(2) TransitionStatus_dom] TransitionStatus_store_ok [OF store]
    show ?thesis by (simp add: jobs_inv_def)
  next
    case (OpUpdate i st)
    with keep [OF job_ops_ledger(3) dom_mono [OF UpdateStatus_le [OF store]]] UpdateStatus_store_ok [OF store]
    show ?thesis by (simp add: jobs_inv_def)
  next
    case (OpApply e)
    with keep [OF ApplyWorkerEvent_ledger [OF store] dom_mono [OF ApplyWorkerEvent_le [OF store]]]
      ApplyWorkerEvent_store_ok [OF store]
    show ?thesis by (simp add: jobs_inv_def)
  next
    case (OpApplyBatch es)
    with keep [OF ApplyWorkerEvents_ledger [OF store] dom_mono [OF ApplyWorkerEvents_le [OF store]]]
      ApplyWorkerEvents_store_ok [OF store]
    show ?thesis by (simp add: jobs_inv_def)
  qed (use store led BeginAttempt_ledgers BeginAttempt_store_ok RenewAttempt_ledgers
        MarkSubmitted_ledgers CommitEvents_ledgers ExpireAttempts_spec(1,3) [OF led store refl] in
        \<open>simp_all add: jobs_inv_def\<close>)
qed

lemma jobs_step_le:
  assumes "jobs_inv m" and "op_forward op"
  shows "store_le m (jobs_step env op m)"
  using assms
  by (cases op) (simp_all add: jobs_inv_def Create_le TransitionStatus_le UpdateStatus_le
      ApplyWorkerEvent_le ApplyWorkerEvents_le BeginAttempt_le RenewAttempt_le MarkSubmitted_le
      CommitEvents_le ExpireAttempts_le)

lemma TransitionStatus_log_le:
  assumes ok: "store_ok m"
  shows "log_le m (fst (TransitionStatus i a b m))"
proof (cases "ms_jobs m i")
  case None
  then show ?thesis by (simp add: TransitionStatus_def log_le_refl)
next
  case (Some job)
  then have "job_ID job = i" using jobs_okD [OF ok] by simp
  with Some show ?thesis
    by (auto simp: TransitionStatus_def set_status_def Let_def log_le_def job_same_def)
qed

lemma jobs_step_log_le:
  assumes "jobs_inv m"
  shows "log_le m (jobs_step env op m)"
proof (cases "op_forward op")
  case True
  then show ?thesis using jobs_step_le [OF assms] store_le_log by blast
next
  case False
  then obtain i a b where "op = OpTransition i a b" by (cases op) auto
  then show ?thesis using assms by (simp add: jobs_inv_def TransitionStatus_log_le)
qed

lemma jobs_step_ledger_le:
  assumes "jobs_inv m"
  shows "ledger_le m (jobs_step env op m)"
proof -
  from assms have store: "store_ok m" and led: "ledgers_ok m" by (simp_all add: jobs_inv_def)
  show ?thesis
    by (cases op) (use store led BeginAttempt_ledgers RenewAttempt_ledgers MarkSubmitted_ledgers
        CommitEvents_ledgers ExpireAttempts_spec(2) [OF led store refl] in
      \<open>simp_all add: ledger_le_same job_ops_ledger ApplyWorkerEvent_ledger ApplyWorkerEvents_ledger\<close>)
qed

interpretation jobs_machine: forward_machine "jobs_step env" jobs_inv op_forward store_le for env
  by unfold_locales (auto intro: jobs_step_inv jobs_step_le store_le_trans)

interpretation log_machine: forward_machine "jobs_step env" jobs_inv "\<lambda>_. True" log_le for env
  by unfold_locales (auto intro: jobs_step_inv jobs_step_log_le log_le_trans log_le_refl)

interpretation ledger_machine: forward_machine "jobs_step env" jobs_inv "\<lambda>_. True" ledger_le for env
  by unfold_locales (auto intro: jobs_step_inv jobs_step_ledger_le ledger_le_trans)

lemma jobs_inv_new: "jobs_inv (NewMemoryStore clock)"
  by (simp add: jobs_inv_def store_ok_new ledgers_ok_new)

lemma jobs_run_inv: "jobs_inv m \<Longrightarrow> jobs_inv (jobs_run env ops m)"
  unfolding jobs_run_def by (rule jobs_machine.run_inv)

lemma jobs_run_le: "jobs_inv m \<Longrightarrow> list_all op_forward ops \<Longrightarrow> store_le m (jobs_run env ops m)"
  unfolding jobs_run_def by (rule jobs_machine.run_le)

lemma jobs_run_ledger_le: "jobs_inv m \<Longrightarrow> ledger_le m (jobs_run env ops m)"
  unfolding jobs_run_def by (rule ledger_machine.run_le) (simp_all add: list_all_iff)

lemma jobs_run_log_le: "jobs_inv m \<Longrightarrow> log_le m (jobs_run env ops m)"
  unfolding jobs_run_def by (rule log_machine.run_le) (simp_all add: list_all_iff)

subsection \<open>The interface of a fenced writer\<close>

text \<open>
  What an executor that holds an attempt relies on: the ledger only moves forward, and a write
  under a reference is accepted only while the ledger holds that very attempt unexpired.
\<close>

locale fenced_ledger = forward_machine step inv fwd le
  for step :: "'op \<Rightarrow> 's \<Rightarrow> 's" and inv :: "'s \<Rightarrow> bool" and fwd :: "'op \<Rightarrow> bool"
    and le :: "'s \<Rightarrow> 's \<Rightarrow> bool" +
  fixes hist :: "'s \<Rightarrow> string \<Rightarrow> attempt list"
    and put :: "attempt_ref \<Rightarrow> 'p \<Rightarrow> 's \<Rightarrow> 's \<times> (commit_error + 'r)"
  assumes inv_hist: "inv s \<Longrightarrow> history_ok j (hist s j)"
    and le_hist: "le s t \<Longrightarrow> history_le (hist s j) (hist t j)"
    and put_fenced: "inv s \<Longrightarrow> put ref p s = (t, Inr r) \<Longrightarrow>
          \<exists>a \<in> set (hist s (ref_JobID ref)). Ref a = ref \<and> att_State a \<noteq> AttemptExpired"
begin

lemma expired_stays:
  assumes inv: "inv s" and ops: "list_all fwd ops"
    and a: "a \<in> set (hist s j)" and expired: "att_State a = AttemptExpired"
    and b: "b \<in> set (hist (fold step ops s) j)" and same: "att_AttemptID b = att_AttemptID a"
  shows "att_State b = AttemptExpired"
proof -
  let ?t = "fold step ops s"
  from a obtain i where i: "i < length (hist s j)" "hist s j ! i = a" by (auto simp: in_set_conv_nth)
  have le: "history_le (hist s j) (hist ?t j)" by (rule le_hist [OF run_le [OF inv ops]])
  with i have len: "i < length (hist ?t j)" and c: "att_le a (hist ?t j ! i)"
    unfolding history_le_def by auto
  have "distinct (map att_AttemptID (hist ?t j))"
    using inv_hist [OF run_inv [OF inv]] unfolding history_ok_def history_base_def by blast
  moreover have "att_AttemptID (hist ?t j ! i) = att_AttemptID b" using c same by (simp add: att_le_def)
  ultimately have "hist ?t j ! i = b"
    using nth_mem [OF len] b unfolding distinct_map by (meson inj_onD)
  with c expired show ?thesis by (auto simp: att_le_def)
qed

text \<open>Once its attempt has expired, a writer is refused for ever.\<close>

lemma expired_writer_refused:
  assumes inv: "inv s" and ops: "list_all fwd ops"
    and a: "a \<in> set (hist s j)" and expired: "att_State a = AttemptExpired"
  shows "\<exists>e. snd (put (Ref a) p (fold step ops s)) = Inl e"
proof (rule ccontr)
  assume "\<nexists>e. snd (put (Ref a) p (fold step ops s)) = Inl e"
  then obtain t r where "put (Ref a) p (fold step ops s) = (t, Inr r)"
    by (metis old.sum.exhaust prod.collapse)
  from put_fenced [OF run_inv [OF inv] this]
  obtain b where b: "b \<in> set (hist (fold step ops s) (att_JobID a))" "Ref b = Ref a"
    "att_State b \<noteq> AttemptExpired" by (auto simp: Ref_def)
  have "att_JobID a = j" using inv_hist [OF inv, of j] a by (auto simp: history_ok_def history_base_def)
  with expired_stays [OF inv ops a expired] b show False by (auto simp: Ref_def)
qed

end

lemma CommitEvents_fenced:
  assumes "jobs_inv s" and "CommitEvents env ref es s = (t, Inr r)"
  shows "\<exists>a \<in> set (ms_attempts s (ref_JobID ref)). Ref a = ref \<and> att_State a \<noteq> AttemptExpired"
proof -
  have *: "a \<in> set (ms_attempts s (ref_JobID ref)) \<and> Ref a = ref"
    if "find (is_attempt (ref_AttemptID ref)) (ms_attempts s (ref_JobID ref)) = Some a"
      "att_Generation a = ref_Generation ref" for a
  proof -
    from that(1) have a: "a \<in> set (ms_attempts s (ref_JobID ref))" "att_AttemptID a = ref_AttemptID ref"
      by (auto simp: find_Some_iff is_attempt_def)
    with that(2) found_ended_ok [OF _ a(1)] assms(1) show ?thesis by (simp add: jobs_inv_def Ref_def)
  qed
  from assms(2) show ?thesis
    by (cases rule: CommitEvents_cases) (use * in fastforce)+
qed

interpretation commit_ledger: fenced_ledger "jobs_step env" jobs_inv "\<lambda>_. True" ledger_le
  ms_attempts "CommitEvents env" for env
  by unfold_locales
    (auto simp: jobs_inv_def ledgers_ok_def ledger_le_def intro: CommitEvents_fenced)

end
