(* ===== verification/JobProps.thy ===== *)
theory JobProps
  imports JobMachine
begin

text \<open>
  The properties of the job store, over every reachable state: an execution is a list of
  operations applied to the empty store (\<open>jobs_reach\<close>). The witnesses run the model on one
  concrete job.
\<close>

definition jobs_reach :: "env \<Rightarrow> (nat \<Rightarrow> gotime) \<Rightarrow> jobs_op list \<Rightarrow> memory_store" where
  "jobs_reach env clock ops = jobs_run env ops (NewMemoryStore clock)"

lemma jobs_reach_inv: "jobs_inv (jobs_reach env clock ops)"
  unfolding jobs_reach_def by (rule jobs_run_inv [OF jobs_inv_new])

lemma jobs_reach_ok: "store_ok (jobs_reach env clock ops)" "ledgers_ok (jobs_reach env clock ops)"
  using jobs_reach_inv by (simp_all add: jobs_inv_def)

subsection \<open>Concrete data for the witnesses\<close>

definition wit_env :: env where
  "wit_env = \<lparr>marshal_len = (\<lambda>_. 70000), format_time = (\<lambda>_. []), parse_url = (\<lambda>_. None),
              ip_loopback = (\<lambda>_. None)\<rparr>"

definition wit_request :: create_request where
  "wit_request = \<lparr>cr_APIVersion = ''v1'', cr_TenantID = ''t'', cr_AppID = ''a'',
     cr_IdempotencyKey = [], cr_Target = ''mock'', cr_CommandType = ''chat.prompt'', cr_Client = None,
     cr_ConversationID = [], cr_TemplateID = [], cr_Input = None, cr_Options = None,
     cr_Callbacks = None, cr_Context = None, cr_TraceID = ''tr'', cr_RetryOf = [],
     cr_NotBefore = None, cr_AwaitingAttachments = False\<rparr>"

definition wit_id :: string where
  "wit_id = ''job_000000000001''"

definition wit_event :: "string \<Rightarrow> string \<Rightarrow> jmap option \<Rightarrow> worker_event" where
  "wit_event ident type data = \<lparr>we_EventID = ident, we_JobID = wit_id, we_APIVersion = ''v1'',
     we_Type = type, we_Sequence = 0, we_Data = data, we_TraceID = ''tr'', we_CreatedAt = 0\<rparr>"

definition wit_begin :: "string \<Rightarrow> u64 \<Rightarrow> begin_request" where
  "wit_begin aid gen = \<lparr>bar_JobID = wit_id, bar_AttemptID = aid, bar_NodeID = ''n'',
     bar_ExpectedGeneration = gen, bar_TTL = 0, bar_InputFingerprint = ''fp'',
     bar_WorkloadVersion = ''w'', bar_AllowAfterSubmitted = False\<rparr>"

text \<open>A clock that is past every lease on its third reading.\<close>

definition wit_clock :: "nat \<Rightarrow> gotime" where
  "wit_clock n = int n * hour"

subsection \<open>Lemmas\<close>

lemma job_self: "store_ok m \<Longrightarrow> ms_jobs m i = Some j \<Longrightarrow> ms_jobs m (job_ID j) = Some j \<and> job_ID j = i"
  using jobs_okD by fastforce

text \<open>A write that fails leaves everything but the clock readings.\<close>

lemma ApplyWorkerEvents_error:
  assumes ok: "store_ok m" and err: "snd (ApplyWorkerEvents env es m) = Inl e"
  shows "fst (ApplyWorkerEvents env es m) = m\<lparr>ms_ticks := ms_ticks (fst (ApplyWorkerEvents env es m))\<rparr>"
proof (cases "validateEventBatch es")
  case (Some e')
  then show ?thesis by (simp add: ApplyWorkerEvents_def)
next
  case valid: None
  show ?thesis
  proof (cases "ms_jobs m (we_JobID (hd es))")
    case None
    with valid show ?thesis by (simp add: ApplyWorkerEvents_def)
  next
    case (Some job)
    obtain m' job' r where run: "applyBatchLocked env m job es = (m', job', r)"
      by (cases "applyBatchLocked env m job es")
    with valid Some err obtain e' where r: "r = Some e'"
      by (cases r) (auto simp: ApplyWorkerEvents_def)
    from batch_rollback [OF run [unfolded r] ok] job_self [OF ok Some]
    have "m' = m\<lparr>ms_ticks := ms_ticks m'\<rparr>" by blast
    then show ?thesis using valid Some run r by (simp add: ApplyWorkerEvents_def)
  qed
qed

lemma CommitEvents_error:
  assumes ok: "store_ok m" and err: "snd (CommitEvents env ref es m) = Inl e"
  shows "fst (CommitEvents env ref es m) = m\<lparr>ms_ticks := ms_ticks (fst (CommitEvents env ref es m))\<rparr>"
proof -
  obtain m' r where run: "CommitEvents env ref es m = (m', r)" by (cases "CommitEvents env ref es m")
  then have "m' = m\<lparr>ms_ticks := ms_ticks m'\<rparr>"
  proof (cases rule: CommitEvents_cases)
    case (failed a job job1 e1)
    with batch_rollback [OF failed(6) ok] job_self [OF ok failed(5)] show ?thesis by blast
  qed (use run err in auto)
  with run show ?thesis by simp
qed

text \<open>An event that was accepted has its key recorded, and stays a duplicate.\<close>

lemma check_key: "checkWorkerEvent e = None \<Longrightarrow> workerEventKey e \<noteq> []"
  by (auto simp: checkWorkerEvent_def split: if_splits)

lemma take_key_has: "workerEventKey e \<noteq> [] \<Longrightarrow> workerEventKey e \<in> ms_eventKey (take_key m job e) (job_ID job)"
  by (simp add: take_key_def)

lemma landed_keys [simp]: "ms_eventKey (landed env m job e) = ms_eventKey m"
  by (simp add: landed_def Let_def)

lemma apply_records_key:
  assumes "applyWorkerEventLocked env m job e = (m', job', r)"
    and "checkWorkerEventAgainstJob job e = None" and "workerEventKey e \<noteq> []"
  shows "workerEventKey e \<in> ms_eventKey m' (job_ID job)"
  using assms(1) by (cases rule: apply_cases) (use assms(2,3) take_key_has in auto)

lemma job_same_check: "job_same j j' \<Longrightarrow> checkWorkerEventAgainstJob j' e = checkWorkerEventAgainstJob j e"
  unfolding job_same_def by (cases j; cases j') (auto simp: checkWorkerEventAgainstJob_def)

lemma known_key_is_duplicate:
  assumes "store_ok m" and "ms_jobs m (we_JobID e) = Some j" and "checkWorkerEvent e = None"
    and "checkWorkerEventAgainstJob j e = None" and "workerEventKey e \<in> ms_eventKey m (we_JobID e)"
  shows "ApplyWorkerEvent env e m = (m, Inr (Some j))"
  using assms check_key [OF assms(3)] job_self [OF assms(1,2)]
  by (simp add: ApplyWorkerEvent_def apply_outcome)

lemma ApplyWorkerEvent_ran:
  assumes "ApplyWorkerEvent env e m = (m', Inr (Some j))"
  obtains job where "checkWorkerEvent e = None" "ms_jobs m (we_JobID e) = Some job"
    "applyWorkerEventLocked env m job e = (m', j, None)"
  using assms
  by (auto simp: ApplyWorkerEvent_def split: option.splits prod.splits)

subsection \<open>The store\<close>

text \<open>C1. In every state the job store can reach, under any sequence of creates, status
  changes, worker events, batches and attempt operations: every stored job has a status of the
  published lifecycle, sits under its own id and is listed exactly once in creation order; every
  job's event log is numbered 1, 2, 3, ... without gaps and its events carry that job's id; no
  event id occurs twice in the store; and every attempt ledger has the job's id, distinct
  attempt ids, generations 1, 2, 3, ... and at most its newest attempt active.\<close>

theorem job_store_invariant:
  "store_ok (jobs_reach env clock ops) \<and> ledgers_ok (jobs_reach env clock ops)"
  using jobs_reach_ok by blast

text \<open>C3. Jobs only move forward: from any reachable state, whatever happens next (a
  \<open>TransitionStatus\<close> that goes backwards excepted), a job stays, keeps everything its client
  submitted, never lowers its rank, never leaves a terminal status, and its event log is only
  appended to.\<close>

theorem job_moves_forward:
  assumes "ms_jobs (jobs_reach env clock ops) i = Some j"
    and "list_all op_forward later"
  shows "\<exists>j'. ms_jobs (jobs_run env later (jobs_reach env clock ops)) i = Some j' \<and>
           j' = j\<lparr>job_Status := job_Status j', job_Result := job_Result j',
                  job_UpdatedAt := job_UpdatedAt j'\<rparr> \<and>
           status_rank (job_Status j) \<le> status_rank (job_Status j') \<and>
           (TerminalStatus (job_Status j) \<longrightarrow> job_Status j' = job_Status j) \<and>
           prefix (ms_events (jobs_reach env clock ops) i)
                  (ms_events (jobs_run env later (jobs_reach env clock ops)) i)"
proof -
  have "store_le (jobs_reach env clock ops) (jobs_run env later (jobs_reach env clock ops))"
    by (rule jobs_run_le [OF jobs_reach_inv assms(2)])
  then obtain j' where "ms_jobs (jobs_run env later (jobs_reach env clock ops)) i = Some j'" "job_le j j'"
    and "prefix (ms_events (jobs_reach env clock ops) i)
                (ms_events (jobs_run env later (jobs_reach env clock ops)) i)"
    using assms(1) unfolding store_le_def by blast
  then show ?thesis by (auto simp: job_le_def status_le_def)
qed

lemma wit_canceled:
  "map_option job_Status
     (ms_jobs (jobs_reach wit_env (\<lambda>_. 1) [OpCreate wit_request, OpUpdate wit_id StatusCanceled]) wit_id)
   = Some StatusCanceled"
  by code_simp

lemma job_moves_forward_witness:
  "\<exists>j. ms_jobs (jobs_run wit_env [OpUpdate wit_id StatusRunning]
          (jobs_reach wit_env (\<lambda>_. 1) [OpCreate wit_request, OpUpdate wit_id StatusCanceled])) wit_id
        = Some j \<and> job_Status j = StatusCanceled"
proof -
  let ?m = "jobs_reach wit_env (\<lambda>_. 1) [OpCreate wit_request, OpUpdate wit_id StatusCanceled]"
  from wit_canceled obtain j where j: "ms_jobs ?m wit_id = Some j" "job_Status j = StatusCanceled" by auto
  have fwd: "list_all op_forward [OpUpdate wit_id StatusRunning]" by simp
  from job_moves_forward [OF j(1) fwd] j(2) show ?thesis by (auto simp: TerminalStatus_def)
qed

text \<open>C4. A batch of worker events is all or nothing: when \<open>ApplyWorkerEvents\<close> or a fenced
  \<open>CommitEvents\<close> reports any error, the whole store (jobs, logs, counters, dedupe keys,
  ledger) is exactly what it was, but for the number of clock readings taken.\<close>

theorem batch_all_or_nothing:
  "((\<exists>e. snd (ApplyWorkerEvents env es (jobs_reach env clock ops)) = Inl e) \<longrightarrow>
      fst (ApplyWorkerEvents env es (jobs_reach env clock ops)) =
        (jobs_reach env clock ops)
          \<lparr>ms_ticks := ms_ticks (fst (ApplyWorkerEvents env es (jobs_reach env clock ops)))\<rparr>) \<and>
   ((\<exists>e. snd (CommitEvents env ref es (jobs_reach env clock ops)) = Inl e) \<longrightarrow>
      fst (CommitEvents env ref es (jobs_reach env clock ops)) =
        (jobs_reach env clock ops)
          \<lparr>ms_ticks := ms_ticks (fst (CommitEvents env ref es (jobs_reach env clock ops)))\<rparr>)"
  using ApplyWorkerEvents_error [OF jobs_reach_ok(1)] CommitEvents_error [OF jobs_reach_ok(1)] by blast

definition wit_batch :: "worker_event list" where
  "wit_batch = [wit_event ''e1'' ''running'' None, wit_event ''e2'' ''token'' (Some [])]"

definition wit_ref :: attempt_ref where
  "wit_ref = \<lparr>ref_JobID = wit_id, ref_AttemptID = ''att_1'', ref_Generation = 1\<rparr>"

lemma wit_batch_fails:
  "snd (ApplyWorkerEvents wit_env wit_batch
     (jobs_reach wit_env (\<lambda>_. 1) [OpCreate wit_request, OpBegin (wit_begin ''att_1'' 0)]))
   = Inl DataTooLarge"
  "snd (CommitEvents wit_env wit_ref wit_batch
     (jobs_reach wit_env (\<lambda>_. 1) [OpCreate wit_request, OpBegin (wit_begin ''att_1'' 0)]))
   = Inl (JobErr DataTooLarge)"
  by code_simp+

lemma batch_all_or_nothing_witness:
  "\<exists>m n k. m = jobs_reach wit_env (\<lambda>_. 1) [OpCreate wit_request, OpBegin (wit_begin ''att_1'' 0)] \<and>
     fst (ApplyWorkerEvents wit_env wit_batch m) = m\<lparr>ms_ticks := n\<rparr> \<and>
     fst (CommitEvents wit_env wit_ref wit_batch m) = m\<lparr>ms_ticks := k\<rparr>"
  using batch_all_or_nothing [of wit_env wit_batch "\<lambda>_. 1"
      "[OpCreate wit_request, OpBegin (wit_begin ''att_1'' 0)]" wit_ref] wit_batch_fails
  by blast

text \<open>C6. Delivering a worker event again changes nothing: once an event was accepted for a job,
  the same event, delivered again after any further operations, is reported as accepted and
  leaves the store exactly as it is.\<close>

theorem redelivery_changes_nothing:
  assumes "ApplyWorkerEvent env e (jobs_reach env clock ops) = (m', Inr (Some j))"
  shows "\<exists>j'. ApplyWorkerEvent env e (jobs_run env later m') = (jobs_run env later m', Inr (Some j'))"
proof -
  let ?m = "jobs_reach env clock ops"
  note ok = jobs_reach_ok(1) [of env clock ops]
  obtain job where run: "checkWorkerEvent e = None" "ms_jobs ?m (we_JobID e) = Some job"
    "applyWorkerEventLocked env ?m job e = (m', j, None)"
    using assms by (rule ApplyWorkerEvent_ran)
  note self = job_self [OF ok run(2)]
  have m': "m' = jobs_step env (OpApply e) ?m" using assms by simp
  have inv': "jobs_inv m'" unfolding m' by (rule jobs_step_inv [OF jobs_reach_inv])
  have chk: "checkWorkerEventAgainstJob job e = None"
    using run(3) by (cases rule: apply_cases) auto
  have key: "workerEventKey e \<in> ms_eventKey m' (we_JobID e)"
    using apply_records_key [OF run(3) chk check_key [OF run(1)]] self by simp
  have le: "log_le ?m (jobs_run env later m')" "log_le m' (jobs_run env later m')"
    using log_le_trans [OF jobs_step_log_le [OF jobs_reach_inv] jobs_run_log_le] inv'
      jobs_run_log_le [OF inv'] unfolding m' by blast+
  then obtain j' where j': "ms_jobs (jobs_run env later m') (we_JobID e) = Some j'" "job_same job j'"
    using run(2) unfolding log_le_def by blast
  have "ApplyWorkerEvent env e (jobs_run env later m') = (jobs_run env later m', Inr (Some j'))"
  proof (rule known_key_is_duplicate)
    show "store_ok (jobs_run env later m')" using jobs_run_inv [OF inv'] by (simp add: jobs_inv_def)
    show "workerEventKey e \<in> ms_eventKey (jobs_run env later m') (we_JobID e)"
      using le(2) key unfolding log_le_def by blast
  qed (use run(1) j' chk job_same_check in auto)
  then show ?thesis by blast
qed

lemma wit_apply_ok:
  "map_sum (\<lambda>_. ()) (map_option job_Status) (snd (ApplyWorkerEvent wit_env (wit_event ''e1'' ''completed'' None)
     (jobs_reach wit_env (\<lambda>_. 1) [OpCreate wit_request]))) = Inr (Some StatusCompleted)"
  by code_simp

lemma redelivery_changes_nothing_witness:
  "\<exists>m' j'. ApplyWorkerEvent wit_env (wit_event ''e1'' ''completed'' None)
       (jobs_run wit_env [OpTransition wit_id StatusCompleted StatusQueued] m')
     = (jobs_run wit_env [OpTransition wit_id StatusCompleted StatusQueued] m', Inr (Some j'))"
proof -
  obtain m' r where run: "ApplyWorkerEvent wit_env (wit_event ''e1'' ''completed'' None)
     (jobs_reach wit_env (\<lambda>_. 1) [OpCreate wit_request]) = (m', r)" by fastforce
  with wit_apply_ok obtain j where "r = Inr (Some j)" by (cases r) auto
  with run redelivery_changes_nothing show ?thesis by blast
qed

text \<open>A worker can end a job only through the type of an event: when an event makes a running
  job terminal, the terminal status is the one the vocabulary maps the event's type to. The
  payload's free-form \<open>status\<close> never does it.\<close>

theorem only_the_event_type_ends_a_job:
  assumes "ms_jobs (jobs_reach env clock ops) i = Some j" and "\<not> TerminalStatus (job_Status j)"
    and "ms_jobs (fst (ApplyWorkerEvent env e (jobs_reach env clock ops))) i = Some j'"
    and "TerminalStatus (job_Status j')"
  shows "we_JobID e = i \<and>
         workerEventStatus (we_Type e) (event_retryable (data_map e)) = Some (job_Status j')"
proof -
  let ?m = "jobs_reach env clock ops"
  note ok = jobs_reach_ok(1) [of env clock ops]
  have changed: "ms_jobs (fst (ApplyWorkerEvent env e ?m)) i \<noteq> ms_jobs ?m i" using assms by auto
  then have "checkWorkerEvent e = None" and "ms_jobs ?m (we_JobID e) \<noteq> None"
    by (auto simp: ApplyWorkerEvent_def split: option.splits)
  then obtain job where job: "checkWorkerEvent e = None" "ms_jobs ?m (we_JobID e) = Some job" by blast
  note self = job_self [OF ok job(2)]
  obtain m' job' r where run: "applyWorkerEventLocked env ?m job e = (m', job', r)"
    by (cases "applyWorkerEventLocked env ?m job e")
  have fst: "fst (ApplyWorkerEvent env e ?m) = m'"
    using job run by (simp add: ApplyWorkerEvent_def split: option.split)
  from run have "m' = landed env (take_key ?m job e) job e"
    by (cases rule: apply_cases) (use changed fst in auto)
  with fst changed self have "i = we_JobID e" "ms_jobs m' i = Some (landed_job env (take_key ?m job e) job e)"
    by (auto split: if_splits)
  with assms fst job self have "j' = landed_job env (take_key ?m job e) job e" "j = job" by auto
  then show ?thesis
    using assms(2,4) \<open>i = we_JobID e\<close> statusFromWorkerEvent_terminal
    by (auto simp: landed_job_status split: if_splits)
qed

lemma wit_running_then_failed:
  "map_option job_Status (ms_jobs (jobs_reach wit_env (\<lambda>_. 1)
      [OpCreate wit_request, OpUpdate wit_id StatusRunning]) wit_id) = Some StatusRunning"
  "map_option job_Status (ms_jobs (fst (ApplyWorkerEvent wit_env (wit_event ''e1'' ''timeout'' None)
      (jobs_reach wit_env (\<lambda>_. 1) [OpCreate wit_request, OpUpdate wit_id StatusRunning]))) wit_id)
   = Some StatusTimedOut"
  by code_simp+

lemma only_the_event_type_ends_a_job_witness:
  "workerEventStatus ''timeout'' True = Some StatusTimedOut"
proof -
  let ?m = "jobs_reach wit_env (\<lambda>_. 1) [OpCreate wit_request, OpUpdate wit_id StatusRunning]"
  obtain j where j: "ms_jobs ?m wit_id = Some j" "job_Status j = StatusRunning"
    using wit_running_then_failed(1) by auto
  obtain j' where j': "ms_jobs (fst (ApplyWorkerEvent wit_env (wit_event ''e1'' ''timeout'' None) ?m)) wit_id = Some j'"
    "job_Status j' = StatusTimedOut" using wit_running_then_failed(2) by auto
  from only_the_event_type_ends_a_job [OF j(1) _ j'(1)] j(2) j'(2)
  show ?thesis by (simp add: TerminalStatus_def wit_event_def data_map_def event_retryable_def)
qed

text \<open>A claim succeeds once: after \<open>TransitionStatus\<close> moved a job from one status up to a
  higher-ranked one, the same transition, tried again by another claimant after any forward
  operations, is refused and changes nothing.\<close>

theorem transition_claims_once:
  assumes "TransitionStatus i a b (jobs_reach env clock ops) = (m', Inr (Some j, True))"
    and "status_rank a < status_rank b" and "list_all op_forward later"
  shows "\<exists>j'. TransitionStatus i a b (jobs_run env later m') = (jobs_run env later m', Inr (Some j', False))"
proof -
  let ?m = "jobs_reach env clock ops"
  have m': "m' = jobs_step env (OpTransition i a b) ?m" using assms(1) by simp
  have inv': "jobs_inv m'" unfolding m' by (rule jobs_step_inv [OF jobs_reach_inv])
  from assms(1) obtain job where job: "KnownStatus b" "ms_jobs ?m i = Some job"
    and set: "set_status job b ?m = (m', j)"
    by (auto simp: TransitionStatus_def split: if_splits option.splits prod.splits)
  have "ms_jobs m' i = Some j" "job_Status j = b"
    using set job_self [OF jobs_reach_ok(1) job(2)] by (auto simp: set_status_def Let_def)
  moreover have "store_le m' (jobs_run env later m')" by (rule jobs_run_le [OF inv' assms(3)])
  ultimately obtain j' where j': "ms_jobs (jobs_run env later m') i = Some j'" "status_le b (job_Status j')"
    unfolding store_le_def job_le_def by blast
  then have "status_rank b \<le> status_rank (job_Status j')" by (auto simp: status_le_def)
  with assms(2) have "job_Status j' \<noteq> a" by auto
  with j'(1) job(1) show ?thesis by (simp add: TransitionStatus_def)
qed

lemma wit_claim:
  "map_sum (\<lambda>_. ()) (\<lambda>(j, ok). (map_option job_Status j, ok)) (snd (TransitionStatus wit_id StatusQueued StatusAssigned
     (jobs_reach wit_env (\<lambda>_. 1) [OpCreate wit_request]))) = Inr (Some StatusAssigned, True)"
  by code_simp

lemma transition_claims_once_witness:
  "\<exists>m' j'. TransitionStatus wit_id StatusQueued StatusAssigned
       (jobs_run wit_env [OpUpdate wit_id StatusRunning] m')
     = (jobs_run wit_env [OpUpdate wit_id StatusRunning] m', Inr (Some j', False))"
proof -
  obtain m' r where run: "TransitionStatus wit_id StatusQueued StatusAssigned
     (jobs_reach wit_env (\<lambda>_. 1) [OpCreate wit_request]) = (m', r)" by fastforce
  with wit_claim obtain j where "r = Inr (Some j, True)" by (cases r) auto
  with transition_claims_once [OF run [unfolded this], where later = "[OpUpdate wit_id StatusRunning]"]
  show ?thesis by (auto simp: status_rank_def)
qed

text \<open>The in-memory store remembers an event it refuses: when \<open>ApplyWorkerEvent\<close> rejects the
  data of a worker event, the event's dedupe key is recorded all the same, so a redelivery is
  reported as accepted although no event is logged and the job has not moved. (The batch
  operations do not do this, C3.)\<close>

theorem refused_event_is_swallowed_on_redelivery:
  assumes "ApplyWorkerEvent env e (jobs_reach env clock ops) = (m', Inl DataTooLarge)"
  shows "\<exists>j. ApplyWorkerEvent env e m' = (m', Inr (Some j)) \<and>
             ms_jobs m' (we_JobID e) = ms_jobs (jobs_reach env clock ops) (we_JobID e) \<and>
             ms_events m' = ms_events (jobs_reach env clock ops)"
proof -
  let ?m = "jobs_reach env clock ops"
  note ok = jobs_reach_ok(1) [of env clock ops]
  from assms obtain job job' where run: "checkWorkerEvent e = None" "ms_jobs ?m (we_JobID e) = Some job"
    "applyWorkerEventLocked env ?m job e = (m', job', Some DataTooLarge)"
    by (auto simp: ApplyWorkerEvent_def checkWorkerEvent_def split: option.splits prod.splits if_splits)
  note self = job_self [OF ok run(2)]
  from run(3) have "checkWorkerEventAgainstJob job e = None \<and> m' = take_key ?m job e"
    by (cases rule: apply_cases) (auto simp: checkWorkerEventAgainstJob_def split: if_splits)
  then have chk: "checkWorkerEventAgainstJob job e = None" and m': "m' = take_key ?m job e" by simp_all
  have "ApplyWorkerEvent env e m' = (m', Inr (Some job))"
    by (rule known_key_is_duplicate)
      (use run chk self ok take_key_has [OF check_key [OF run(1)], of ?m job] in \<open>simp_all add: m'\<close>)
  then show ?thesis using run(2) by (simp add: m')
qed

lemma wit_refused:
  "map_sum id (\<lambda>_. ()) (snd (ApplyWorkerEvent wit_env (wit_event ''e1'' ''token'' (Some []))
     (jobs_reach wit_env (\<lambda>_. 1) [OpCreate wit_request]))) = Inl DataTooLarge"
  by code_simp

lemma refused_event_is_swallowed_on_redelivery_witness:
  "\<exists>m' j. ApplyWorkerEvent wit_env (wit_event ''e1'' ''token'' (Some []))
     (jobs_reach wit_env (\<lambda>_. 1) [OpCreate wit_request]) = (m', Inl DataTooLarge) \<and>
     ApplyWorkerEvent wit_env (wit_event ''e1'' ''token'' (Some [])) m' = (m', Inr (Some j))"
proof -
  obtain m' r where run: "ApplyWorkerEvent wit_env (wit_event ''e1'' ''token'' (Some []))
     (jobs_reach wit_env (\<lambda>_. 1) [OpCreate wit_request]) = (m', r)" by fastforce
  with wit_refused have "r = Inl DataTooLarge" by (cases r) auto
  with run refused_event_is_swallowed_on_redelivery show ?thesis by blast
qed

text \<open>The \<open>status\<close> field of a payload outranks the event's type: an event that lands on a live
  job and whose data names a declared, non-terminal status the job may still advance to puts
  the job there, even when the event's type ends jobs (\<open>EventEndsJob\<close>), as in the witness.\<close>

theorem payload_status_outranks_type:
  assumes "ms_jobs (jobs_reach env clock ops) (we_JobID e) = Some j"
    and "workerEventKey e \<notin> ms_eventKey (jobs_reach env clock ops) (we_JobID e)"
    and "map_of (data_map e) ''status'' = Some (JStr (status_string st))"
    and "KnownStatus st" and "\<not> TerminalStatus st" and "shouldAdvanceStatus (job_Status j) st"
    and "ApplyWorkerEvent env e (jobs_reach env clock ops) = (m', Inr (Some j'))"
  shows "job_Status j' = st"
proof -
  note ok = jobs_reach_ok(1) [of env clock ops]
  obtain job where run: "checkWorkerEvent e = None"
    "applyWorkerEventLocked env (jobs_reach env clock ops) job e = (m', j', None)"
    and "job = j" using assms(7) assms(1) by (elim ApplyWorkerEvent_ran) simp
  have "statusFromWorkerEvent e (job_Status j) = st"
    using assms(3-6) by (simp add: statusFromWorkerEvent_def)
  moreover have "\<not> TerminalStatus (job_Status j)" using assms(6) by (rule shouldAdvance_not_terminal)
  ultimately have facts: "statusFromWorkerEvent e (job_Status job) = st" "\<not> TerminalStatus (job_Status job)"
    "workerEventKey e \<notin> ms_eventKey (jobs_reach env clock ops) (job_ID job)"
    "shouldAdvanceStatus (job_Status job) st"
    using job_self [OF ok assms(1)] assms(2,6) \<open>job = j\<close> by simp_all
  from run(2) show ?thesis
    by (cases rule: apply_cases) (use facts in \<open>auto simp: landed_job_status\<close>)
qed

definition wit_completed :: worker_event where
  "wit_completed = wit_event ''e1'' ''completed'' (Some [(''status'', JStr ''completing'')])"

lemma wit_overridden:
  "map_sum (\<lambda>_. ()) (map_option job_Status) (snd (ApplyWorkerEvent (wit_env\<lparr>marshal_len := (\<lambda>_. 0)\<rparr>) wit_completed
     (jobs_reach (wit_env\<lparr>marshal_len := (\<lambda>_. 0)\<rparr>) (\<lambda>_. 1) [OpCreate wit_request]))) = Inr (Some StatusCompleting)"
  "map_option job_Status (ms_jobs (jobs_reach (wit_env\<lparr>marshal_len := (\<lambda>_. 0)\<rparr>) (\<lambda>_. 1) [OpCreate wit_request]) wit_id)
     = Some StatusQueued"
  "ms_eventKey (jobs_reach (wit_env\<lparr>marshal_len := (\<lambda>_. 0)\<rparr>) (\<lambda>_. 1) [OpCreate wit_request]) wit_id = {}"
  by code_simp+

lemma payload_status_outranks_type_witness:
  "EventEndsJob (we_Type wit_completed) (data_map wit_completed) \<and>
   (\<exists>m' j'. ApplyWorkerEvent (wit_env\<lparr>marshal_len := (\<lambda>_. 0)\<rparr>) wit_completed
       (jobs_reach (wit_env\<lparr>marshal_len := (\<lambda>_. 0)\<rparr>) (\<lambda>_. 1) [OpCreate wit_request]) = (m', Inr (Some j')) \<and>
     \<not> TerminalStatus (job_Status j'))"
proof -
  let ?env = "wit_env\<lparr>marshal_len := (\<lambda>_. 0)\<rparr>"
  let ?m = "jobs_reach ?env (\<lambda>_. 1) [OpCreate wit_request]"
  obtain j where j: "ms_jobs ?m wit_id = Some j" "job_Status j = StatusQueued" using wit_overridden(2) by auto
  obtain m' r where run: "ApplyWorkerEvent ?env wit_completed ?m = (m', r)" by fastforce
  with wit_overridden(1) obtain j' where r: "r = Inr (Some j')" by (cases r) auto
  have "job_Status j' = StatusCompleting"
    by (rule payload_status_outranks_type [OF _ _ _ _ _ _ run [unfolded r], where j = j])
      (use j wit_overridden(3) in \<open>simp_all add: wit_completed_def wit_event_def data_map_def KnownStatus_def
         TerminalStatus_def shouldAdvanceStatus_def\<close>)
  moreover have "EventEndsJob (we_Type wit_completed) (data_map wit_completed)" by code_simp
  ultimately show ?thesis using run r by (auto simp: TerminalStatus_def)
qed

subsection \<open>Reading\<close>

definition all_jobs :: "list_filter \<Rightarrow> memory_store \<Rightarrow> job list" where
  "all_jobs f m = ListJobs (f\<lparr>lf_AfterID := [], lf_Limit := 0\<rparr>) m"

lemma all_jobs_ordered: "all_jobs f m = ordered_jobs f m"
  by (simp add: all_jobs_def ListJobs_def ordered_jobs_def matching_jobs_def filter_matches_def [abs_def])

lemma stored_jobs:
  assumes ok: "store_ok m"
  shows "set (List.map_filter (ms_jobs m) (ms_order m)) = {j. ms_jobs m (job_ID j) = Some j}"
    and "distinct (map job_ID (List.map_filter (ms_jobs m) (ms_order m)))"
proof -
  have order: "set (ms_order m) = dom (ms_jobs m)" "distinct (ms_order m)"
    using ok by (simp_all add: store_ok_def jobs_ok_def)
  show "set (List.map_filter (ms_jobs m) (ms_order m)) = {j. ms_jobs m (job_ID j) = Some j}"
  proof (intro set_eqI iffI)
    fix j assume "j \<in> set (List.map_filter (ms_jobs m) (ms_order m))"
    then obtain i where "ms_jobs m i = Some j" by (auto simp: map_filter_def)
    then show "j \<in> {j. ms_jobs m (job_ID j) = Some j}" using job_self [OF ok] by simp
  next
    fix j assume "j \<in> {j. ms_jobs m (job_ID j) = Some j}"
    then have j: "ms_jobs m (job_ID j) = Some j" by simp
    then have "job_ID j \<in> set (ms_order m)" unfolding order(1) by (rule domI)
    with j show "j \<in> set (List.map_filter (ms_jobs m) (ms_order m))"
      by (force simp: map_filter_def)
  qed
  have "map job_ID (List.map_filter (ms_jobs m) is) = is" if "set is \<subseteq> dom (ms_jobs m)" for "is"
    using that
  proof (induction "is")
    case (Cons i "is")
    then obtain j where "ms_jobs m i = Some j" by auto
    with Cons jobs_okD [OF ok] show ?case by (simp add: List.map_filter_simps)
  qed (simp add: List.map_filter_simps)
  from this [of "ms_order m"] show "distinct (map job_ID (List.map_filter (ms_jobs m) (ms_order m)))"
    using order by simp
qed

lemma ordered_jobs_spec:
  assumes ok: "store_ok m"
  shows "set (ordered_jobs f m) = {j. ms_jobs m (job_ID j) = Some j \<and> filter_matches f j}"
    and "distinct (map job_ID (ordered_jobs f m))"
proof -
  show "set (ordered_jobs f m) = {j. ms_jobs m (job_ID j) = Some j \<and> filter_matches f j}"
    using stored_jobs(1) [OF ok] by (auto simp: ordered_jobs_def matching_jobs_def Let_def)
  have "distinct (map job_ID (matching_jobs f m))"
    unfolding matching_jobs_def by (rule distinct_map_filter [OF stored_jobs(2) [OF ok]])
  then show "distinct (map job_ID (ordered_jobs f m))"
    by (simp add: ordered_jobs_def Let_def distinct_map)
qed

text \<open>Reading is scoped and exact: \<open>GetScoped\<close> yields a job only to its own tenant and app; the
  unpaged listing is exactly the stored jobs that match the filter, each once, ordered by
  creation time and id (reversed when descending); every page is a part of it.\<close>

theorem listing_is_exact_and_scoped:
  "GetScoped i t a (jobs_reach env clock ops) =
     (if \<exists>j. ms_jobs (jobs_reach env clock ops) i = Some j \<and> job_TenantID j = t \<and> job_AppID j = a
      then ms_jobs (jobs_reach env clock ops) i else None) \<and>
   set (all_jobs f (jobs_reach env clock ops)) =
     {j. ms_jobs (jobs_reach env clock ops) (job_ID j) = Some j \<and> filter_matches f j} \<and>
   distinct (map job_ID (all_jobs f (jobs_reach env clock ops))) \<and>
   sorted (map (\<lambda>j. (job_CreatedAt j, job_ID j))
     (if lf_Descending f then rev (all_jobs f (jobs_reach env clock ops))
      else all_jobs f (jobs_reach env clock ops))) \<and>
   sublist (ListJobs f (jobs_reach env clock ops)) (all_jobs f (jobs_reach env clock ops))"
proof (intro conjI)
  let ?m = "jobs_reach env clock ops"
  note ok = jobs_reach_ok(1) [of env clock ops]
  show "GetScoped i t a ?m =
     (if \<exists>j. ms_jobs ?m i = Some j \<and> job_TenantID j = t \<and> job_AppID j = a
      then ms_jobs ?m i else None)"
    by (auto simp: GetScoped_def split: option.splits)
  show "set (all_jobs f ?m) = {j. ms_jobs ?m (job_ID j) = Some j \<and> filter_matches f j}"
    "distinct (map job_ID (all_jobs f ?m))"
    unfolding all_jobs_ordered by (rule ordered_jobs_spec [OF ok])+
  show "sorted (map (\<lambda>j. (job_CreatedAt j, job_ID j)) (if lf_Descending f then rev (all_jobs f ?m) else all_jobs f ?m))"
    by (simp add: all_jobs_ordered ordered_jobs_def Let_def)
  have "suffix rest xs" if "after_cursor P xs = Some rest" for P rest and xs :: "job list"
    using that by (induction xs) (auto split: if_splits intro: suffix_ConsI)
  then have suf: "sublist rest xs" if "after_cursor P xs = Some rest" for P rest and xs :: "job list"
    using that by blast
  have tk: "sublist (take n xs) ys" if "sublist xs ys" for n and xs ys :: "job list"
    using that sublist_order.order_trans sublist_take by blast
  show "sublist (ListJobs f ?m) (all_jobs f ?m)"
    unfolding all_jobs_ordered ListJobs_def by (auto simp: Let_def suf tk split: option.split)
qed

lemma after_cursor_nth:
  "distinct (map g xs) \<Longrightarrow> k < length xs \<Longrightarrow>
   after_cursor (\<lambda>x. g x = g (xs ! k)) xs = Some (drop (Suc k) xs)"
proof (induction xs arbitrary: k)
  case Nil
  then show ?case by simp
next
  case (Cons x xs)
  show ?case
  proof (cases k)
    case (Suc l)
    with Cons.prems have "xs ! l \<in> set xs" "g x \<notin> g ` set xs" by simp_all
    then have "g x \<noteq> g (xs ! l)" by blast
    with Suc Cons show ?thesis by simp
  qed simp
qed

lemma job_ident_not_blank: "trim_space (job_ident n) \<noteq> []"
proof -
  have "CHR ''j'' \<in> set (job_ident n)" by (simp add: job_ident_def)
  then have "CHR ''j'' \<in> set (trim_space (job_ident n))"
    by (rule trim_space_keeps) (auto simp: space_seqs_def)
  then show ?thesis by auto
qed

lemma listed_id_not_blank:
  assumes ok: "store_ok m" and "j \<in> set (ordered_jobs f m)"
  shows "trim_space (job_ID j) \<noteq> []"
proof -
  from ordered_jobs_spec(1) [OF ok] assms(2) have "ms_jobs m (job_ID j) = Some j" by blast
  with ok obtain n where "job_ID j = job_ident n" unfolding store_ok_def jobs_ok_def by blast
  then show ?thesis using job_ident_not_blank by simp
qed

text \<open>Paging never skips or repeats a job: the first page of size \<open>n\<close> is the first \<open>n\<close>
  entries of the whole listing, and the page after the \<open>k\<close>-th job is the \<open>n\<close> entries that
  follow it, in both orders and under every filter.\<close>

theorem paging_walks_the_listing:
  assumes "k < length (all_jobs f (jobs_reach env clock ops))" and "0 < n"
  shows "ListJobs (f\<lparr>lf_AfterID := [], lf_Limit := int n\<rparr>) (jobs_reach env clock ops) =
           take n (all_jobs f (jobs_reach env clock ops)) \<and>
         ListJobs (f\<lparr>lf_AfterID := job_ID (all_jobs f (jobs_reach env clock ops) ! k),
                     lf_Limit := int n\<rparr>) (jobs_reach env clock ops) =
           take n (drop (Suc k) (all_jobs f (jobs_reach env clock ops)))"
proof -
  let ?m = "jobs_reach env clock ops"
  note ok = jobs_reach_ok(1) [of env clock ops]
  have same: "ordered_jobs (f\<lparr>lf_AfterID := x, lf_Limit := y\<rparr>) ?m = ordered_jobs f ?m" for x y
    by (simp add: ordered_jobs_def matching_jobs_def filter_matches_def [abs_def])
  have k: "k < length (ordered_jobs f ?m)" using assms(1) by (simp add: all_jobs_ordered)
  have cut: "(if 0 < int n \<and> int n < int (length xs) then take (nat (int n)) xs else xs) = take n xs"
    for xs :: "job list" using assms(2) by simp
  have "trim_space (job_ID (ordered_jobs f ?m ! k)) \<noteq> []"
    by (rule listed_id_not_blank [OF ok nth_mem [OF k]])
  moreover have "after_cursor (\<lambda>job. job_ID job = job_ID (ordered_jobs f ?m ! k)) (ordered_jobs f ?m)
       = Some (drop (Suc k) (ordered_jobs f ?m))"
    by (rule after_cursor_nth [OF ordered_jobs_spec(2) [OF ok] k])
  ultimately show ?thesis
    unfolding all_jobs_ordered ListJobs_def same using cut assms(2) by (simp add: Let_def)
qed

definition wit_filter :: list_filter where
  "wit_filter = \<lparr>lf_TenantID = ''t'', lf_AppID = [], lf_Status = [], lf_Target = [],
     lf_Descending = True, lf_AfterID = [], lf_Limit = 0\<rparr>"

lemma wit_listing:
  "map job_ID (all_jobs wit_filter (jobs_reach wit_env (\<lambda>_. 1) [OpCreate wit_request, OpCreate wit_request]))
   = [''job_000000000002'', wit_id]"
  by code_simp

lemma paging_walks_the_listing_witness:
  "map job_ID (ListJobs (wit_filter\<lparr>lf_AfterID := ''job_000000000002'', lf_Limit := 1\<rparr>)
     (jobs_reach wit_env (\<lambda>_. 1) [OpCreate wit_request, OpCreate wit_request])) = [wit_id]"
proof -
  let ?m = "jobs_reach wit_env (\<lambda>_. 1) [OpCreate wit_request, OpCreate wit_request]"
  have len: "length (all_jobs wit_filter ?m) = 2" using wit_listing by (metis length_Cons length_map list.size(3) numeral_2_eq_2)
  obtain j2 j1 where two: "all_jobs wit_filter ?m = [j2, j1]" "job_ID j2 = ''job_000000000002''" "job_ID j1 = wit_id"
    using wit_listing by auto
  from paging_walks_the_listing [of 0 wit_filter wit_env "\<lambda>_. 1" "[OpCreate wit_request, OpCreate wit_request]" 1]
  show ?thesis using two by simp
qed

lemma counts_fold:
  "fold (\<lambda>job (counts, total). (counts(job_Status job := Suc (counts (job_Status job))), Suc total)) js (c, t) =
   ((\<lambda>st. c st + length (filter (\<lambda>j. job_Status j = st) js)), t + length js)"
  by (induction js arbitrary: c t) (auto simp: fun_eq_iff)

text \<open>The metrics agree with the listing: for every filter, \<open>CountsByStatus\<close> counts for each
  status the listed jobs that have it, its total is the number of listed jobs, and so the
  counts of the lifecycle statuses add up to the total.\<close>

theorem counts_agree_with_listing:
  "fst (CountsByStatus f (jobs_reach env clock ops)) st =
     length (filter (\<lambda>j. job_Status j = st) (all_jobs f (jobs_reach env clock ops))) \<and>
   snd (CountsByStatus f (jobs_reach env clock ops)) = length (all_jobs f (jobs_reach env clock ops)) \<and>
   snd (CountsByStatus f (jobs_reach env clock ops)) =
     sum_list (map (fst (CountsByStatus f (jobs_reach env clock ops))) LifecycleStatuses)"
proof -
  let ?m = "jobs_reach env clock ops"
  note ok = jobs_reach_ok(1) [of env clock ops]
  have len: "length (filter P (ordered_jobs f ?m)) = length (filter P (matching_jobs f ?m))" for P
    by (simp add: ordered_jobs_def Let_def filter_sort rev_filter [symmetric])
  have cnt: "fst (CountsByStatus f ?m) st = length (filter (\<lambda>j. job_Status j = st) (ordered_jobs f ?m))"
    "snd (CountsByStatus f ?m) = length (ordered_jobs f ?m)" for st
    using len [of "\<lambda>_. True"] by (simp_all add: CountsByStatus_def counts_fold len)
  have known: "length (filter (\<lambda>j. job_Status j \<in> set sts) js) =
      sum_list (map (\<lambda>st. length (filter (\<lambda>j. job_Status j = st) js)) sts)"
    if "distinct sts" for sts and js :: "job list"
    using that
  proof (induction sts)
    case (Cons st sts)
    have "length (filter (\<lambda>j. job_Status j \<in> set (st # sts)) xs) =
        length (filter (\<lambda>j. job_Status j = st) xs) + length (filter (\<lambda>j. job_Status j \<in> set sts) xs)"
      for xs :: "job list"
      using Cons.prems by (induction xs) auto
    with Cons show ?case by simp
  qed simp
  have "job_Status j \<in> set LifecycleStatuses" if "j \<in> set (ordered_jobs f ?m)" for j
    using that ordered_jobs_spec(1) [OF ok] jobs_okD [OF ok] KnownStatus_lifecycle by blast
  then have "filter (\<lambda>j. job_Status j \<in> set LifecycleStatuses) (ordered_jobs f ?m) = ordered_jobs f ?m"
    by (simp add: filter_id_conv)
  with known [of LifecycleStatuses "ordered_jobs f ?m"] cnt show ?thesis
    by (simp add: all_jobs_ordered LifecycleStatuses_def)
qed

end
