(* ===== verification/JobRedact.thy ===== *)
theory JobRedact
  imports JobProps
begin

text \<open>
  No secret reaches an event log: what \<open>sanitizeWorkerData\<close> leaves behind, as an invariant of
  the store's logs, and the exact meaning of the payload policy at the boundary.
\<close>

text \<open>The entries of a value, at every depth.\<close>

fun json_entries :: "json \<Rightarrow> (string \<times> json) set" where
  "json_entries (JObj m) = set m \<union> (\<Union>kv \<in> set m. json_entries (snd kv))"
| "json_entries (JArr vs) = (\<Union>v \<in> set vs. json_entries v)"
| "json_entries _ = {}"

definition redacted_ok :: "env \<Rightarrow> string \<Rightarrow> json \<Rightarrow> bool" where
  "redacted_ok env et v =
     (\<forall>kv \<in> json_entries v. redactWorkerEventKey env et (fst kv) (snd kv) \<longrightarrow> snd kv = JStr ''[redacted]'')"


lemma redacted_ok_simps [simp]:
  "redacted_ok env et (JObj m) \<longleftrightarrow>
     (\<forall>kv \<in> set m. (redactWorkerEventKey env et (fst kv) (snd kv) \<longrightarrow> snd kv = JStr ''[redacted]'') \<and>
        redacted_ok env et (snd kv))"
  "redacted_ok env et (JArr vs) \<longleftrightarrow> (\<forall>v \<in> set vs. redacted_ok env et v)"
  "redacted_ok env et JNull" "redacted_ok env et (JBool b)" "redacted_ok env et (JNum q)"
  "redacted_ok env et (JStr s)"
  unfolding redacted_ok_def by auto







subsection \<open>The logs of the store\<close>











subsection \<open>What counts as a secret\<close>

text \<open>
  The names of secret material, as words, and the ways to write a name as a key: each word in lower case,
  in capitals or capitalised, the words apart by anything that is no letter and no digit (\<open>access_token\<close>,
  \<open>ACCESS-TOKEN\<close>, \<open>Access Token\<close>) or run together where a capital follows (\<open>accessToken\<close>).
\<close>

definition secret_names :: "string list list" where
  "secret_names =
    [[''access'', ''token''], [''api'', ''key''], [''apikey''], [''auth'', ''token''], [''authorization''],
     [''bearer''], [''captcha'', ''response''], [''captcha'', ''solution''], [''captcha'', ''token''],
     [''cookie''], [''cookies''], [''credential''], [''credentials''], [''id'', ''token''],
     [''mfa'', ''code''], [''novnc'', ''url''], [''password''], [''private'', ''key''],
     [''refresh'', ''token''], [''secret''], [''session''], [''session'', ''cookie''],
     [''session'', ''id''], [''session'', ''state''], [''set'', ''cookie''], [''storage'', ''state''],
     [''totp''], [''x'', ''api'', ''key'']]"

definition upper_char :: "char \<Rightarrow> char" where
  "upper_char c = (if CHR ''a'' \<le> c \<and> c \<le> CHR ''z'' then char_of (of_char c - 32 :: nat) else c)"

definition word_forms :: "string \<Rightarrow> string list" where
  "word_forms w = [w, map upper_char w, map upper_char (take 1 w) @ drop 1 w]"

inductive spells :: "string list \<Rightarrow> string \<Rightarrow> bool" where
  word: "v \<in> set (word_forms w) \<Longrightarrow> spells [w] v"
| apart: "v \<in> set (word_forms w) \<Longrightarrow> sep \<noteq> [] \<Longrightarrow> list_all (\<lambda>c. \<not> is_alnum c) sep \<Longrightarrow> spells ws k \<Longrightarrow>
    spells (w # ws) (v @ sep @ k)"
| camel: "v \<in> set (word_forms w) \<Longrightarrow> is_lower_digit (last v) \<Longrightarrow> is_upper (hd k) \<Longrightarrow> spells ws k \<Longrightarrow>
    spells (w # ws) (v @ k)"

definition names_secret :: "string \<Rightarrow> bool" where
  "names_secret k = (\<exists>ws \<in> set secret_names. spells ws k)"

text \<open>
  What a manual-action event shows to the operator on purpose: the id of the runtime session, at most 128
  plain characters, and the address of the viewer, an http address with a port on the gateway's own
  host, below \<open>/session/\<close>, that carries no user, query or fragment. White space around either is ignored.
\<close>

definition plain_session_id :: "json \<Rightarrow> bool" where
  "plain_session_id v =
     (\<exists>t. v = JStr t \<and> trim_space t \<noteq> [] \<and> length (trim_space t) \<le> 128 \<and>
        (\<forall>c \<in> set (trim_space t). is_alnum c \<or> c = CHR ''_'' \<or> c = CHR ''-'' \<or> c = CHR ''.'' \<or> c = CHR '':''))"

definition local_viewer :: "env \<Rightarrow> json \<Rightarrow> bool" where
  "local_viewer env v =
     (\<exists>t u. v = JStr t \<and> parse_url env (trim_space t) = Some u \<and>
        url_Scheme u = ''http'' \<and> \<not> url_hasUser u \<and> url_RawQuery u = [] \<and> url_Fragment u = [] \<and>
        url_Port u \<noteq> [] \<and> prefix ''/session/'' (url_EscapedPath u) \<and>
        (ip_loopback env (url_Hostname u) = Some True \<or>
         ip_loopback env (url_Hostname u) = None \<and> EqualFold (url_Hostname u) ''localhost''))"

definition shown_to_operator :: "env \<Rightarrow> string \<Rightarrow> string \<Rightarrow> json \<Rightarrow> bool" where
  "shown_to_operator env t k v =
     (t = ''session.manual_action_required'' \<and>
      (spells [''session'', ''id''] k \<and> plain_session_id v \<or> spells [''novnc'', ''url''] k \<and> local_viewer env v))"

text \<open>The entries of the logs that hold something else than the literal under a secret's name.\<close>

definition leaks :: "env \<Rightarrow> memory_store \<Rightarrow> (string \<times> string \<times> json) set" where
  "leaks env m =
     {(t, k, v). \<exists>i. \<exists>e \<in> set (ms_events m i). t = evt_Type e \<and> (k, v) \<in> json_entries (JObj (evt_Data e)) \<and>
        names_secret k \<and> v \<noteq> JStr ''[redacted]'' \<and> \<not> shown_to_operator env t k v}"

subsection \<open>Every way to write a name is recognised\<close>








lemma underscore_no_alnum [simp]: "\<not> is_alnum (CHR ''_'')"
  by code_simp
























text \<open>What the reference finds in a log that was written as the worker sent it.\<close>

lemma raw_log_leaks:
  "(''worker.note'', ''API-Key'', JStr ''k'') \<in>
     leaks env (appendEventLocked (NewMemoryStore clock) job ''worker.note'' [(''detail'', JObj [(''API-Key'', JStr ''k'')])])"
proof -
  have "spells [''api'', ''key''] (''API'' @ ''-'' @ ''Key'')"
    by (intro spells.apart spells.word; code_simp)
  then have "names_secret ''API-Key''" unfolding names_secret_def by (intro bexI [of _ "[''api'', ''key'']"]) (simp_all add: secret_names_def)
  then show ?thesis by (auto simp: leaks_def shown_to_operator_def new_event_def)
qed

text \<open>C37. The payload policy decides by content alone: \<open>Validate\<close> accepts a value exactly when no
  key at any depth names secret material and no string at any depth carries a private key, a
  bearer token or a CAPTCHA-solving instruction; so its verdict does not depend on the order
  in which Go iterates over a map, and an accepted value has only accepted parts.\<close>

theorem policy_decides_by_content:
  "(Validate v = None) =
     ((\<forall>k. k \<in> json_keys v \<longrightarrow> disallowedKeyReason (NormalizeKey k) = None) \<and>
      (\<forall>s. s \<in> json_strings v \<longrightarrow> stringReason s = None))"
  unfolding Validate_def validate_iff payload_ok_def key_ok_def by blast

lemma wit_policy:
  "disallowedKeyReason (NormalizeKey ''sessionToken'') = Some reason_tokens"
  by code_simp

lemma policy_decides_by_content_witness:
  "Validate (JArr [JObj [(''sessionToken'', JNull)]]) \<noteq> None"
  using policy_decides_by_content [of "JArr [JObj [(''sessionToken'', JNull)]]"] wit_policy
  by auto

end
