(* ===== verification/AttemptProps.thy ===== *)
theory AttemptProps
  imports JobProps
begin

text \<open>
  The properties of the attempt ledger over every reachable state: one grant per generation,
  fencing of superseded writers, the submission boundary and expiry.
\<close>

lemma reach_history: "history_ok j (ms_attempts (jobs_reach env clock ops) j)"
  using jobs_reach_ok(2) by (simp add: ledgers_ok_def)

lemma numbered_last_active:
  assumes "history_ok j h" and "length h < 2 ^ 64" and "a \<in> set h" and "att_State a = AttemptActive"
  shows "a = last h"
proof -
  from assms(3) obtain i where i: "i < length h" "h ! i = a" by (auto simp: in_set_conv_nth)
  have "history_numbered h" using assms(1,2) by (simp add: history_ok_def)
  then have "\<not> Suc i < length h" using assms(4) i unfolding history_numbered_def by blast
  with i have "i = length h - 1" by simp
  with i show ?thesis by (metis last_conv_nth list.size(3) not_less_zero)
qed

text \<open>What a replayed plan is.\<close>

lemma planBegin_replay:
  assumes "planBegin req ttl h now = Inr p" and "plan_replay p"
  shows "plan_attempt p \<in> set h \<and> att_AttemptID (plan_attempt p) = bar_AttemptID req \<and>
         att_State (plan_attempt p) = AttemptActive \<and>
         att_Generation (plan_attempt p) = bar_ExpectedGeneration req + 1"
proof (cases "find (\<lambda>a. att_AttemptID a = bar_AttemptID req) h")
  case None
  with assms show ?thesis by (auto simp: planBegin_def Let_def split: option.splits if_splits)
next
  case (Some a)
  then have "a \<in> set h" "att_AttemptID a = bar_AttemptID req" by (auto simp: find_Some_iff)
  with Some assms show ?thesis by (auto simp: planBegin_def split: if_splits)
qed

subsection \<open>One grant per generation\<close>

lemma granted_history_last: "last (granted_history h p now) = plan_attempt p"
  by (simp add: granted_history_def)

lemma granted_history_length: "plan_expire p \<noteq> None \<longrightarrow> h \<noteq> [] \<Longrightarrow> length (granted_history h p now) = Suc (length h)"
  by (auto simp: granted_history_def split: option.split)

lemma u64_inj:
  assumes "m < 2 ^ 64" and "n < 2 ^ 64" and "(of_nat m :: u64) = of_nat n"
  shows "m = n"
proof -
  from assms(3) have "unat (of_nat m :: u64) = unat (of_nat n :: u64)" by simp
  with assms(1,2) show ?thesis by (simp add: unat_of_nat)
qed

text \<open>What a grant (as opposed to a replay) establishes.\<close>

lemma BeginAttempt_grant:
  assumes ok: "ledgers_ok m" and len: "length (ms_attempts m (bar_JobID r)) < 2 ^ 64"
    and run: "BeginAttempt r m = (m', Inr b)"
    and new: "ms_attempts m' (bar_JobID r) \<noteq> ms_attempts m (bar_JobID r)"
  shows "length (ms_attempts m' (bar_JobID r)) = Suc (length (ms_attempts m (bar_JobID r)))"
    and "last (ms_attempts m' (bar_JobID r)) = b" and "att_AttemptID b = bar_AttemptID r"
    and "bar_ExpectedGeneration r = of_nat (length (ms_attempts m (bar_JobID r)))"
    and "ms_attempts m (bar_JobID r) \<noteq> [] \<Longrightarrow>
           Submitted (last (ms_attempts m (bar_JobID r))) \<Longrightarrow> bar_AllowAfterSubmitted r"
    and "ms_attempts m (bar_JobID r) \<noteq> [] \<Longrightarrow>
           att_State (last (ms_attempts m (bar_JobID r))) = AttemptActive \<Longrightarrow>
           end_attempt AttemptExpired (now_value m) (last (ms_attempts m (bar_JobID r)))
             \<in> set (ms_attempts m' (bar_JobID r))"
proof -
  let ?h = "ms_attempts m (bar_JobID r)"
  from run new obtain ttl p where plan: "planBegin r ttl ?h (now_value m) = Inr p" "\<not> plan_replay p"
    and b: "b = plan_attempt p"
    and m': "ms_attempts m' (bar_JobID r) = granted_history ?h p (now_value m)"
    by (cases rule: BeginAttempt_cases) auto
  have num: "history_numbered ?h" using ok len by (simp add: ledgers_ok_def history_ok_def)
  note f = planBegin_fresh [OF plan] and g = planBegin_grant [OF plan num len]
  show "length (ms_attempts m' (bar_JobID r)) = Suc (length ?h)"
    unfolding m' using f(9) by (intro granted_history_length) blast
  show "last (ms_attempts m' (bar_JobID r)) = b" unfolding m' b by (rule granted_history_last)
  show "att_AttemptID b = bar_AttemptID r" using f(2) b by simp
  show "bar_ExpectedGeneration r = of_nat (length ?h)" by (rule g(2))
  show "?h \<noteq> [] \<Longrightarrow> Submitted (last ?h) \<Longrightarrow> bar_AllowAfterSubmitted r"
    using g(5) by (simp add: Submitted_def)
  show "?h \<noteq> [] \<Longrightarrow> att_State (last ?h) = AttemptActive \<Longrightarrow>
      end_attempt AttemptExpired (now_value m) (last ?h) \<in> set (ms_attempts m' (bar_JobID r))"
    using g(4) unfolding m' granted_history_def by auto
qed

lemma BeginAttempt_ledger_change:
  assumes "BeginAttempt r m = (m', x)"
  shows "j \<noteq> bar_JobID r \<Longrightarrow> ms_attempts m' j = ms_attempts m j"
    and "x = Inl e \<Longrightarrow> ms_attempts m' = ms_attempts m"
  using assms by (cases rule: BeginAttempt_cases; auto)+

text \<open>C5. A lease is granted once per generation: after \<open>BeginAttempt\<close> recorded a new attempt,
  every other begin that expected the same predecessor generation (a racing executor) is
  refused, whatever happened in between.\<close>

theorem begin_grants_once:
  assumes "BeginAttempt r1 (jobs_reach env clock ops) = (m', Inr b)"
    and "ms_attempts m' (bar_JobID r1) \<noteq> ms_attempts (jobs_reach env clock ops) (bar_JobID r1)"
    and "bar_JobID r2 = bar_JobID r1" and "bar_ExpectedGeneration r2 = bar_ExpectedGeneration r1"
    and "bar_AttemptID r2 \<noteq> bar_AttemptID r1"
    and "length (ms_attempts (jobs_run env later m') (bar_JobID r1)) < 2 ^ 64"
  shows "\<exists>e. snd (BeginAttempt r2 (jobs_run env later m')) = Inl e"
proof -
  let ?m = "jobs_reach env clock ops" and ?j = "bar_JobID r1" and ?t = "jobs_run env later m'"
  have m': "m' = jobs_step env (OpBegin r1) ?m" using assms(1) by simp
  have inv': "jobs_inv m'" unfolding m' by (rule jobs_step_inv [OF jobs_reach_inv])
  have okt: "ledgers_ok ?t" using jobs_run_inv [OF inv'] by (simp add: jobs_inv_def)
  then have ht: "history_ok ?j (ms_attempts ?t ?j)" by (simp add: ledgers_ok_def)
  have le: "history_le (ms_attempts ?m ?j) (ms_attempts m' ?j)" "history_le (ms_attempts m' ?j) (ms_attempts ?t ?j)"
    using jobs_step_ledger_le [OF jobs_reach_inv] jobs_run_ledger_le [OF inv']
    unfolding m' ledger_le_def by blast+
  let ?n = "length (ms_attempts ?m ?j)"
  have lens: "?n \<le> length (ms_attempts m' ?j)" "length (ms_attempts m' ?j) \<le> length (ms_attempts ?t ?j)"
    using le by (simp_all add: history_le_def)
  then have n: "?n < 2 ^ 64" using assms(6) by linarith
  note grant = BeginAttempt_grant [OF jobs_reach_ok(2) n assms(1,2)]
  have at_n: "att_AttemptID (ms_attempts ?t ?j ! ?n) = bar_AttemptID r1" "?n < length (ms_attempts ?t ?j)"
  proof -
    have "ms_attempts m' ?j ! ?n = b" using grant(1,2)
      by (metis diff_Suc_1 last_conv_nth list.size(3) nat.distinct(1))
    then show "att_AttemptID (ms_attempts ?t ?j ! ?n) = bar_AttemptID r1"
      using le(2) grant(1,3) by (auto simp: history_le_def att_le_def)
    show "?n < length (ms_attempts ?t ?j)" using lens grant(1) by simp
  qed
  have num: "history_numbered (ms_attempts ?t ?j)" using ht assms(6) by (simp add: history_ok_def)
  show ?thesis
  proof (rule ccontr)
    assume "\<nexists>e. snd (BeginAttempt r2 ?t) = Inl e"
    then obtain t' b2 where run: "BeginAttempt r2 ?t = (t', Inr b2)"
      by (metis old.sum.exhaust prod.collapse)
    then show False
    proof (cases rule: BeginAttempt_cases)
      case (replayed ttl p job)
      from planBegin_replay [OF replayed(4,5)] obtain i where i: "i < length (ms_attempts ?t ?j)"
        "ms_attempts ?t ?j ! i = plan_attempt p" "att_AttemptID (plan_attempt p) = bar_AttemptID r2"
        "att_Generation (plan_attempt p) = bar_ExpectedGeneration r1 + 1"
        using assms(3,4) by (auto simp: in_set_conv_nth)
      have "(of_nat (Suc i) :: u64) = of_nat (Suc ?n)"
        using num i grant(4) unfolding history_numbered_def by (metis add.commute of_nat_Suc)
      then have "Suc i = Suc ?n" by (rule u64_inj [rotated 2]) (use i(1) at_n(2) assms(6) in linarith)+
      with i at_n assms(5) show False by simp
    next
      case (granted ttl p job)
      have "bar_ExpectedGeneration r2 = of_nat (length (ms_attempts ?t ?j))"
        using planBegin_grant(2) [OF granted(4,5)] num assms(3,6) by simp
      then have "(of_nat ?n :: u64) = of_nat (length (ms_attempts ?t ?j))" using assms(4) grant(4) by simp
      then have "?n = length (ms_attempts ?t ?j)" by (rule u64_inj [OF n assms(6)])
      then show False using at_n(2) by simp
    qed simp
  qed
qed

lemma wit_begin_runs:
  "snd (BeginAttempt (wit_begin ''att_1'' 0) (jobs_reach wit_env wit_clock [OpCreate wit_request])) =
   Inr \<lparr>att_JobID = wit_id, att_AttemptID = ''att_1'', att_Generation = 1, att_NodeID = ''n'',
        att_State = AttemptActive, att_LeaseExpiresAt = 2 * hour + 120 * second,
        att_InputFingerprint = ''fp'', att_WorkloadVersion = ''w'', att_SubmittedAt = None,
        att_CreatedAt = 2 * hour, att_UpdatedAt = 2 * hour, att_EndedAt = None\<rparr>"
  "length (ms_attempts (jobs_reach wit_env wit_clock [OpCreate wit_request]) wit_id) = 0"
  "length (ms_attempts (fst (BeginAttempt (wit_begin ''att_1'' 0)
     (jobs_reach wit_env wit_clock [OpCreate wit_request]))) wit_id) = 1"
  by code_simp+

lemma begin_grants_once_witness:
  "\<exists>e. snd (BeginAttempt (wit_begin ''att_2'' 0)
     (fst (BeginAttempt (wit_begin ''att_1'' 0) (jobs_reach wit_env wit_clock [OpCreate wit_request])))) = Inl e"
proof -
  let ?m = "jobs_reach wit_env wit_clock [OpCreate wit_request]"
  obtain m' b where run: "BeginAttempt (wit_begin ''att_1'' 0) ?m = (m', Inr b)"
    using wit_begin_runs(1) by (metis prod.collapse)
  with wit_begin_runs have "ms_attempts m' wit_id \<noteq> ms_attempts ?m wit_id" "length (ms_attempts m' wit_id) = 1"
    by auto
  with begin_grants_once [OF run, where later = "[]" and ?r2.0 = "wit_begin ''att_2'' 0"] run
  show ?thesis by (simp add: wit_begin_def jobs_run_def)
qed

subsection \<open>Fencing\<close>

text \<open>C2. A superseded writer is fenced for ever: once \<open>BeginAttempt\<close> hands a job to another
  attempt, no commit under the previous, then still active attempt is accepted any more, at
  any later time, and such a commit leaves the store exactly as it is.\<close>

theorem superseded_writer_is_fenced:
  assumes "a \<in> set (ms_attempts (jobs_reach env clock ops) (bar_JobID r))"
    and "att_State a = AttemptActive" and "att_AttemptID a \<noteq> bar_AttemptID r"
    and "length (ms_attempts (jobs_reach env clock ops) (bar_JobID r)) < 2 ^ 64"
    and "BeginAttempt r (jobs_reach env clock ops) = (m', Inr b)"
  shows "\<exists>e n. CommitEvents env (Ref a) es (jobs_run env later m') =
                 ((jobs_run env later m')\<lparr>ms_ticks := n\<rparr>, Inl e)"
proof -
  let ?m = "jobs_reach env clock ops" and ?j = "bar_JobID r" and ?t = "jobs_run env later m'"
  have m': "m' = jobs_step env (OpBegin r) ?m" using assms(5) by simp
  have inv': "jobs_inv m'" unfolding m' by (rule jobs_step_inv [OF jobs_reach_inv])
  have a: "a = last (ms_attempts ?m ?j)" by (rule numbered_last_active [OF reach_history assms(4,1,2)])
  have ne: "ms_attempts ?m ?j \<noteq> []" using assms(1) by auto
  have "ms_attempts m' ?j \<noteq> ms_attempts ?m ?j"
  proof
    assume same: "ms_attempts m' ?j = ms_attempts ?m ?j"
    from assms(5) show False
    proof (cases rule: BeginAttempt_cases)
      case (replayed ttl p job)
      note p = planBegin_replay [OF replayed(4,5)]
      with numbered_last_active [OF reach_history assms(4)] a assms(3) show False by metis
    next
      case (granted ttl p job)
      then have "length (ms_attempts m' ?j) = Suc (length (ms_attempts ?m ?j))"
        using planBegin_fresh(9) [OF granted(4,5)] granted_history_length by simp
      with same show False by simp
    qed simp
  qed
  from BeginAttempt_grant(6) [OF jobs_reach_ok(2) assms(4,5) this ne] assms(2) a
  have "end_attempt AttemptExpired (now_value ?m) a \<in> set (ms_attempts m' ?j)" by simp
  from commit_ledger.expired_writer_refused [OF inv' _ this, of later env es]
  obtain e where e: "snd (CommitEvents env (Ref a) es ?t) = Inl e"
    by (auto simp: Ref_def end_attempt_def jobs_run_def list_all_iff)
  from CommitEvents_error [OF _ this] jobs_run_inv [OF inv'] e show ?thesis
    by (metis jobs_inv_def prod.collapse)
qed

definition wit_attempt :: attempt where
  "wit_attempt = hd (ms_attempts (jobs_reach wit_env wit_clock
     [OpCreate wit_request, OpBegin (wit_begin ''att_1'' 0)]) wit_id)"

lemma wit_superseded:
  "length (ms_attempts (jobs_reach wit_env wit_clock
     [OpCreate wit_request, OpBegin (wit_begin ''att_1'' 0)]) wit_id) = 1"
  "att_State wit_attempt = AttemptActive" "att_AttemptID wit_attempt = ''att_1''"
  "map_sum (\<lambda>_. ()) att_AttemptID (snd (BeginAttempt (wit_begin ''att_2'' 1)
     (jobs_reach wit_env wit_clock [OpCreate wit_request, OpBegin (wit_begin ''att_1'' 0)]))) = Inr ''att_2''"
  by code_simp+

lemma superseded_writer_is_fenced_witness:
  "\<exists>m' e n. CommitEvents wit_env (Ref wit_attempt) [wit_event ''e1'' ''completed'' None] m' =
     (m'\<lparr>ms_ticks := n\<rparr>, Inl e)"
proof -
  let ?m = "jobs_reach wit_env wit_clock [OpCreate wit_request, OpBegin (wit_begin ''att_1'' 0)]"
  have "wit_attempt \<in> set (ms_attempts ?m wit_id)"
    using wit_superseded(1) unfolding wit_attempt_def by (cases "ms_attempts ?m wit_id") auto
  moreover obtain m' b where "BeginAttempt (wit_begin ''att_2'' 1) ?m = (m', Inr b)"
    using wit_superseded(4) by (cases "BeginAttempt (wit_begin ''att_2'' 1) ?m") (auto split: sum.splits, metis map_sum.simps(1) old.sum.exhaust sum.distinct(1))
  ultimately show ?thesis
    using superseded_writer_is_fenced [of wit_attempt wit_env wit_clock
        "[OpCreate wit_request, OpBegin (wit_begin ''att_1'' 0)]" "wit_begin ''att_2'' 1" m' b] wit_superseded(1-3)
    by (force simp: wit_begin_def)
qed

text \<open>C7. A submitted prompt is not sent twice: once the newest attempt of a job has crossed the
  submission boundary, \<open>BeginAttempt\<close> adds no attempt to the job (it is refused, or it replays
  that very attempt) unless the request says that running after submission is allowed.\<close>

theorem no_attempt_after_submission:
  assumes "ms_attempts (jobs_reach env clock ops) (bar_JobID r) \<noteq> []"
    and "Submitted (last (ms_attempts (jobs_reach env clock ops) (bar_JobID r)))"
    and "\<not> bar_AllowAfterSubmitted r"
    and "length (ms_attempts (jobs_reach env clock ops) (bar_JobID r)) < 2 ^ 64"
  shows "ms_attempts (fst (BeginAttempt r (jobs_reach env clock ops))) = ms_attempts (jobs_reach env clock ops)"
proof (rule ccontr)
  let ?m = "jobs_reach env clock ops"
  obtain m' x where run: "BeginAttempt r ?m = (m', x)" by (cases "BeginAttempt r ?m")
  assume "ms_attempts (fst (BeginAttempt r ?m)) \<noteq> ms_attempts ?m"
  with run have ne: "ms_attempts m' \<noteq> ms_attempts ?m" by simp
  then obtain b where x: "x = Inr b" using BeginAttempt_ledger_change(2) [OF run] by (cases x) auto
  from ne have "ms_attempts m' (bar_JobID r) \<noteq> ms_attempts ?m (bar_JobID r)"
    using BeginAttempt_ledger_change(1) [OF run] by (metis ext)
  from BeginAttempt_grant(5) [OF jobs_reach_ok(2) assms(4) run [unfolded x] this] assms(1-3)
  show False by simp
qed

lemma wit_submitted:
  "map Submitted (ms_attempts (jobs_reach wit_env wit_clock
     [OpCreate wit_request, OpBegin (wit_begin ''att_1'' 0), OpMarkSubmitted wit_ref]) wit_id) = [True]"
  by code_simp

lemma no_attempt_after_submission_witness:
  "ms_attempts (fst (BeginAttempt (wit_begin ''att_2'' 1) (jobs_reach wit_env wit_clock
     [OpCreate wit_request, OpBegin (wit_begin ''att_1'' 0), OpMarkSubmitted wit_ref]))) =
   ms_attempts (jobs_reach wit_env wit_clock
     [OpCreate wit_request, OpBegin (wit_begin ''att_1'' 0), OpMarkSubmitted wit_ref])"
proof -
  obtain a where "ms_attempts (jobs_reach wit_env wit_clock
     [OpCreate wit_request, OpBegin (wit_begin ''att_1'' 0), OpMarkSubmitted wit_ref]) wit_id = [a]"
    and "Submitted a" using wit_submitted by auto
  then show ?thesis by (intro no_attempt_after_submission) (simp_all add: wit_begin_def)
qed

text \<open>The sweep expires exactly what has lapsed: \<open>ExpireAttempts\<close> ends at most a batch of
  attempts, each one active with a lease that has run out; an attempt whose lease still runs
  is left as it is; and when it returns less than a full batch, no active attempt with a
  lapsed lease is left in the store.\<close>

theorem sweep_expires_what_lapsed:
  "let m = jobs_reach env clock ops; (m', ended) = ExpireAttempts n m in
     length ended \<le> nat (expireBatch n) \<and>
     (\<forall>b. b \<in> set ended \<longrightarrow> (\<exists>a. b = end_attempt AttemptExpired (now_value m) a \<and>
        a \<in> set (ms_attempts m (att_JobID a)) \<and> att_State a = AttemptActive \<and>
        att_LeaseExpiresAt a \<le> now_value m)) \<and>
     (\<forall>j a. a \<in> set (ms_attempts m j) \<and> now_value m < att_LeaseExpiresAt a \<longrightarrow> a \<in> set (ms_attempts m' j)) \<and>
     (length ended < nat (expireBatch n) \<longrightarrow>
        (\<forall>j a. a \<in> set (ms_attempts m' j) \<and> att_State a = AttemptActive \<longrightarrow> now_value m < att_LeaseExpiresAt a))"
proof -
  let ?m = "jobs_reach env clock ops"
  let ?due = "take (nat (expireBatch n)) (due_attempts (now_value ?m) ?m)"
  note due = due_attempts_spec(1) [OF jobs_reach_ok(2) [of env clock ops] jobs_reach_ok(1), of "now_value ?m"]
  note spec = ExpireAttempts_spec [where limit = n, OF jobs_reach_ok(2) [of env clock ops] jobs_reach_ok(1) refl]
  have ended: "snd (ExpireAttempts n ?m) = map (end_attempt AttemptExpired (now_value ?m)) ?due"
    by (simp add: ExpireAttempts_eq Let_def)
  have in_due: "a \<in> set ?due \<Longrightarrow> a \<in> set (ms_attempts ?m (att_JobID a)) \<and> att_State a = AttemptActive \<and>
      att_LeaseExpiresAt a \<le> now_value ?m" for a
    using due by (auto dest: in_set_takeD)
  have kept: "a \<in> set (ms_attempts (fst (ExpireAttempts n ?m)) j)"
    if "a \<in> set (ms_attempts ?m j)" "now_value ?m < att_LeaseExpiresAt a" for a j
  proof -
    have "a \<notin> set ?due" using in_due that(2) by fastforce
    then show ?thesis using that(1) unfolding spec(4) by force
  qed
  have none: "now_value ?m < att_LeaseExpiresAt b"
    if full: "length ?due < nat (expireBatch n)"
      and b: "b \<in> set (ms_attempts (fst (ExpireAttempts n ?m)) j)" "att_State b = AttemptActive" for b j
  proof -
    from b have old: "b \<in> set (ms_attempts ?m j)" "b \<notin> set ?due"
      unfolding spec(4) by (auto simp: end_attempt_def split: if_splits)
    from full have "?due = due_attempts (now_value ?m) ?m" by simp
    with old b(2) due found_ended_ok [OF jobs_reach_ok(2) old(1)] show ?thesis by (auto simp: not_le)
  qed
  show ?thesis
    using in_due kept none ended by (simp add: Let_def split_beta) blast
qed

lemma wit_sweep:
  "map att_AttemptID (snd (ExpireAttempts 0 (jobs_reach wit_env wit_clock
     [OpCreate wit_request, OpBegin (wit_begin ''att_1'' 0)]))) = [''att_1'']"
  by code_simp

lemma sweep_expires_what_lapsed_witness:
  "\<exists>a :: attempt. att_AttemptID a = ''att_1'' \<and> att_LeaseExpiresAt a \<le>
     now_value (jobs_reach wit_env wit_clock [OpCreate wit_request, OpBegin (wit_begin ''att_1'' 0)])"
proof -
  let ?m = "jobs_reach wit_env wit_clock [OpCreate wit_request, OpBegin (wit_begin ''att_1'' 0)]"
  obtain b where one: "snd (ExpireAttempts 0 ?m) = [b]" and id: "att_AttemptID b = ''att_1''"
    using wit_sweep by auto
  then have b: "b \<in> set (snd (ExpireAttempts 0 ?m))" by simp
  with sweep_expires_what_lapsed [of wit_env wit_clock
      "[OpCreate wit_request, OpBegin (wit_begin ''att_1'' 0)]" 0]
  obtain a where a: "b = end_attempt AttemptExpired (now_value ?m) a" "att_LeaseExpiresAt a \<le> now_value ?m"
    by (auto simp: Let_def split_beta)
  with id have "att_AttemptID a = ''att_1''" by (simp add: end_attempt_def)
  with a(2) show ?thesis by blast
qed

end
