(* ===== verification/GoNet.thy ===== *)
theory GoNet
  imports Prelude
begin

text \<open>
  The parts of Go's \<open>strconv\<close> and \<open>net\<close> that the fleet code validates its input with:
  \<open>strconv.Atoi\<close> on a 64-bit platform, \<open>net.SplitHostPort\<close> and whether \<open>net.ParseIP\<close>
  accepts a string (its callers here only compare the result with nil).
\<close>

subsection \<open>Numbers\<close>

definition is_digit :: "char \<Rightarrow> bool" where
  "is_digit c = (CHR ''0'' \<le> c \<and> c \<le> CHR ''9'')"

definition is_hex :: "char \<Rightarrow> bool" where
  "is_hex c = (is_digit c \<or> (CHR ''a'' \<le> c \<and> c \<le> CHR ''f'') \<or> (CHR ''A'' \<le> c \<and> c \<le> CHR ''F''))"

text \<open>\<open>strconv.Atoi\<close>: an optional sign, then decimal digits whose value fits in an \<open>int64\<close>.\<close>

definition Atoi :: "string \<Rightarrow> int option" where
  "Atoi s =
     (let neg = (take 1 s = ''-'');
          ds = (if take 1 s = ''-'' \<or> take 1 s = ''+'' then drop 1 s else s);
          n = int (undigits 0 ds);
          v = (if neg then - n else n)
      in if ds = [] \<or> \<not> list_all is_digit ds then None
         else if v < - (2 ^ 63) \<or> 2 ^ 63 \<le> v then None
         else Some v)"

text \<open>Two's complement wrap-around of a 64-bit product (\<open>time.Duration(n) * time.Second\<close>).\<close>

definition wrap64 :: "int \<Rightarrow> int" where
  "wrap64 x = (x + 2 ^ 63) mod 2 ^ 64 - 2 ^ 63"

lemma wrap64_id [simp]: "- (2 ^ 63) \<le> x \<Longrightarrow> x < 2 ^ 63 \<Longrightarrow> wrap64 x = x"
  by (simp add: wrap64_def)

subsection \<open>Host and port\<close>

fun index_of :: "char \<Rightarrow> string \<Rightarrow> nat option" where
  "index_of c [] = None"
| "index_of c (x # xs) = (if x = c then Some 0 else map_option Suc (index_of c xs))"

definition last_index_of :: "char \<Rightarrow> string \<Rightarrow> nat option" where
  "last_index_of c s = map_option (\<lambda>k. length s - 1 - k) (index_of c (rev s))"

text \<open>
  \<open>net.SplitHostPort\<close>. The port starts after the last colon; an IPv6 host stands in
  brackets, the first closing bracket just before that colon; no other bracket occurs.
\<close>

definition SplitHostPort :: "string \<Rightarrow> (string \<times> string) option" where
  "SplitHostPort s =
     (case last_index_of (CHR '':'') s of
        None \<Rightarrow> None
      | Some i \<Rightarrow>
          if hd s = CHR ''['' then
            (case index_of (CHR '']'') s of
               None \<Rightarrow> None
             | Some e \<Rightarrow>
                 if e + 1 \<noteq> i then None
                 else if CHR ''['' \<in> set (drop 1 s) \<or> CHR '']'' \<in> set (drop (e + 1) s) then None
                 else Some (take (e - 1) (drop 1 s), drop (i + 1) s))
          else if CHR '':'' \<in> set (take i s) \<or> CHR ''['' \<in> set s \<or> CHR '']'' \<in> set s then None
          else Some (take i s, drop (i + 1) s))"

subsection \<open>IP addresses\<close>

fun split_on :: "char \<Rightarrow> string \<Rightarrow> string list" where
  "split_on c [] = [[]]"
| "split_on c (x # xs) =
     (if x = c then [] # split_on c xs
      else (case split_on c xs of [] \<Rightarrow> [[x]] | w # ws \<Rightarrow> (x # w) # ws))"

text \<open>\<open>netip.parseIPv4Fields\<close>: four octets without leading zeros.\<close>

definition ipv4_octet :: "string \<Rightarrow> bool" where
  "ipv4_octet w =
     (w \<noteq> [] \<and> list_all is_digit w \<and> (hd w \<noteq> CHR ''0'' \<or> length w = 1) \<and> undigits 0 w \<le> 255)"

definition ipv4_ok :: "string \<Rightarrow> bool" where
  "ipv4_ok s = (let ws = split_on (CHR ''.'') s in length ws = 4 \<and> list_all ipv4_octet ws)"

text \<open>
  The loop of \<open>netip.parseIPv6\<close>: \<open>i\<close> bytes of the address are filled, \<open>ell\<close> says whether an
  ellipsis was read. The result is \<open>None\<close> on an error, else the bytes filled, the ellipsis
  and what is left of the string.
\<close>

function ipv6_loop :: "nat \<Rightarrow> bool \<Rightarrow> string \<Rightarrow> (nat \<times> bool \<times> string) option" where
  "ipv6_loop i ell s =
     (if 16 \<le> i then Some (i, ell, s)
      else
        let h = takeWhile is_hex s; off = length h; r = drop off s in
        if off = 0 \<or> 4 < off then None
        else if take 1 r = ''.'' then
          (if \<not> ell \<and> i \<noteq> 12 then None
           else if 16 < i + 4 then None
           else if ipv4_ok s then Some (i + 4, ell, []) else None)
        else if r = [] then Some (i + 2, ell, [])
        else if hd r \<noteq> CHR '':'' \<or> length r = 1 then None
        else if r ! 1 = CHR '':'' then
          (if ell then None
           else if length r = 2 then Some (i + 2, True, [])
           else ipv6_loop (i + 2) True (drop 2 r))
        else ipv6_loop (i + 2) ell (drop 1 r))"
  by pat_completeness auto
termination by (relation "measure (\<lambda>(i, ell, s). 16 - i)") auto

declare ipv6_loop.simps [simp del]

definition ipv6_ok :: "string \<Rightarrow> bool" where
  "ipv6_ok s =
     (if take 2 s = ''::'' then
        s = ''::'' \<or>
        (case ipv6_loop 0 True (drop 2 s) of
           None \<Rightarrow> False | Some (i, ell, r) \<Rightarrow> r = [] \<and> i < 16)
      else
        (case ipv6_loop 0 False s of
           None \<Rightarrow> False | Some (i, ell, r) \<Rightarrow> r = [] \<and> (if ell then i < 16 else 16 \<le> i)))"

text \<open>
  \<open>net.ParseIP(s) != nil\<close>: the first of the characters \<open>.\<close>, \<open>:\<close> and \<open>%\<close> decides the family;
  a zone (\<open>%\<close>) is refused.
\<close>

definition ParseIP_ok :: "string \<Rightarrow> bool" where
  "ParseIP_ok s =
     (case find (\<lambda>c. c \<in> set ''.:%'') s of
        None \<Rightarrow> False
      | Some c \<Rightarrow>
          if c = CHR ''.'' then ipv4_ok s
          else if c = CHR '':'' then CHR ''%'' \<notin> set s \<and> ipv6_ok s
          else False)"

end
