(* ===== verification/Workflow.thy ===== *)
theory Workflow
  imports GoNet
begin

text \<open>
  Multi-step workflows (\<open>internal/workflow\<close>): definitions and runs with their validation
  (\<open>store.go\<close>), the in-memory store (\<open>memory.go\<close>), the dependency sort (\<open>dag.go\<close>) and the
  engine that drives a run (\<open>engine.go\<close>).

  The engine's effects are a trace: each write of the run to the store, with whether it was taken, and each call of the
  injected \<open>dispatch\<close> callback. The callback is the parameter \<open>dispatch\<close>, which may answer
  every call differently (its first argument is the number of calls made before), and the CEL
  library behind \<open>when\<close> expressions is the parameter \<open>cel\<close>. Ids from the random source come
  from the stream \<open>wfs_ids\<close>. \<open>clone*\<close> copies are the identity on values.
\<close>

subsection \<open>Data and validation\<close>

datatype run_state =
    StatePending | StateRunning | StateSucceeded | StateFailed | StateCanceled
  | StateText string \<comment> \<open>any other string, the empty one included\<close>

definition TerminalState :: "run_state \<Rightarrow> bool" where
  "TerminalState s = (s = StateSucceeded \<or> s = StateFailed \<or> s = StateCanceled)"

datatype step =
  Step (step_ID: string) (step_Target: string) (step_Command: string) (step_TemplateID: string)
    (step_Input: "jmap option") (step_ContinueOnError: bool) (step_DependsOn: "string list")
    (step_When: string) (step_Compensation: "step option") (step_MaxRetries: int)

record definition_rec =
  def_ID :: string
  def_TenantID :: string
  def_AppID :: string
  def_Name :: string
  def_Steps :: "step list"
  def_CreatedAt :: gotime

record step_run =
  sr_StepID :: string
  sr_State :: run_state
  sr_JobID :: string
  sr_Error :: string
  sr_Retries :: nat
  sr_StartedAt :: gotime
  sr_CompletedAt :: gotime

record run =
  run_ID :: string
  run_DefinitionID :: string
  run_TenantID :: string
  run_AppID :: string
  run_State :: run_state
  run_CurrentStep :: nat
  run_Steps :: "step_run list"
  run_IdempotencyKey :: string
  run_CreatedAt :: gotime
  run_UpdatedAt :: gotime

datatype wf_error =
    WfNotFound
  | WfScope
  | WfInvalidDef
  | WfInvalidRun
  | WfStepsMismatch
  | WfTerminalRun
  | WfDispatch string \<comment> \<open>the error of the dispatch callback\<close>

definition normalizeLimit :: "int \<Rightarrow> int" where
  "normalizeLimit limit = (if limit \<le> 0 \<or> 1000 < limit then 100 else limit)"

definition validateScope :: "string \<Rightarrow> string \<Rightarrow> wf_error option" where
  "validateScope tenantID appID =
     (if trim_space tenantID = [] then Some WfScope
      else if trim_space appID = [] then Some WfScope else None)"

definition target_head :: "char \<Rightarrow> bool" where
  "target_head c = (CHR ''0'' \<le> c \<and> c \<le> CHR ''9'' \<or> CHR ''a'' \<le> c \<and> c \<le> CHR ''z'')"

text \<open>\<open>^[a-z0-9][a-z0-9._-]{0,127}$\<close>\<close>

definition targetPattern :: "string \<Rightarrow> bool" where
  "targetPattern s =
     (case s of
        [] \<Rightarrow> False
      | c # cs \<Rightarrow> target_head c \<and> length cs \<le> 127 \<and>
          list_all (\<lambda>d. target_head d \<or> d \<in> {CHR ''.'', CHR ''_'', CHR ''-''}) cs)"

definition validateStep :: "step \<Rightarrow> wf_error option" where
  "validateStep s =
     (if trim_space (step_ID s) = [] then Some WfInvalidDef
      else if \<not> targetPattern (step_Target s) then Some WfInvalidDef
      else if trim_space (step_Command s) = [] then Some WfInvalidDef
      else if step_MaxRetries s < 0 then Some WfInvalidDef
      else None)"

fun validateSteps :: "string list \<Rightarrow> step list \<Rightarrow> wf_error option" where
  "validateSteps seen [] = None"
| "validateSteps seen (s # steps) =
     (case validateStep s of
        Some e \<Rightarrow> Some e
      | None \<Rightarrow> if step_ID s \<in> set seen then Some WfInvalidDef else validateSteps (step_ID s # seen) steps)"

definition validateDefinition :: "definition_rec \<Rightarrow> wf_error option" where
  "validateDefinition d =
     (case validateScope (def_TenantID d) (def_AppID d) of
        Some e \<Rightarrow> Some e
      | None \<Rightarrow>
          if trim_space (def_Name d) = [] then Some WfInvalidDef
          else if def_Steps d = [] then Some WfInvalidDef
          else validateSteps [] (def_Steps d))"

definition validateRun :: "run \<Rightarrow> wf_error option" where
  "validateRun r =
     (case validateScope (run_TenantID r) (run_AppID r) of
        Some e \<Rightarrow> Some e
      | None \<Rightarrow> if trim_space (run_DefinitionID r) = [] then Some WfInvalidRun else None)"

definition NewStepRuns :: "definition_rec \<Rightarrow> step_run list" where
  "NewStepRuns d =
     map (\<lambda>s. \<lparr>sr_StepID = step_ID s, sr_State = StatePending, sr_JobID = [], sr_Error = [],
              sr_Retries = 0, sr_StartedAt = 0, sr_CompletedAt = 0\<rparr>) (def_Steps d)"

subsection \<open>The in-memory store\<close>

record wf_store =
  wfs_now :: "nat \<Rightarrow> gotime"
  wfs_ticks :: nat
  wfs_ids :: "nat \<Rightarrow> string"
  wfs_drawn :: nat
  wfs_definitions :: "string \<Rightarrow> definition_rec option"
  wfs_runs :: "string \<Rightarrow> run option"
  wfs_defOrder :: "string list"
  wfs_runOrder :: "string list"
  wfs_runIdem :: "string \<Rightarrow> string option"

definition wf_new :: "(nat \<Rightarrow> gotime) \<Rightarrow> (nat \<Rightarrow> string) \<Rightarrow> wf_store" where
  "wf_new clock ids =
     \<lparr>wfs_now = clock, wfs_ticks = 0, wfs_ids = ids, wfs_drawn = 0, wfs_definitions = Map.empty,
      wfs_runs = Map.empty, wfs_defOrder = [], wfs_runOrder = [], wfs_runIdem = Map.empty\<rparr>"

definition CreateDefinition :: "definition_rec \<Rightarrow> wf_store \<Rightarrow> wf_store \<times> (wf_error + definition_rec)" where
  "CreateDefinition d m =
     (case validateDefinition d of
        Some e \<Rightarrow> (m, Inl e)
      | None \<Rightarrow>
          (case (if def_ID d = [] then None else wfs_definitions m (def_ID d)) of
             Some existing \<Rightarrow>
               if def_TenantID existing \<noteq> def_TenantID d \<or> def_AppID existing \<noteq> def_AppID d
               then (m, Inl WfScope) else (m, Inr existing)
           | None \<Rightarrow>
               let m1 = (if def_ID d = [] then m\<lparr>wfs_drawn := Suc (wfs_drawn m)\<rparr> else m);
                   d1 = (if def_ID d = [] then d\<lparr>def_ID := wfs_ids m (wfs_drawn m)\<rparr> else d);
                   m2 = (if IsZero (def_CreatedAt d1) then m1\<lparr>wfs_ticks := Suc (wfs_ticks m1)\<rparr> else m1);
                   d2 = (if IsZero (def_CreatedAt d1)
                         then d1\<lparr>def_CreatedAt := wfs_now m1 (wfs_ticks m1)\<rparr> else d1)
               in (m2\<lparr>wfs_definitions := (wfs_definitions m2)(def_ID d2 \<mapsto> d2),
                      wfs_defOrder := wfs_defOrder m2 @ [def_ID d2]\<rparr>, Inr d2)))"

definition GetDefinition :: "string \<Rightarrow> string \<Rightarrow> string \<Rightarrow> wf_store \<Rightarrow> wf_error + definition_rec option" where
  "GetDefinition tenantID appID ident m =
     (case validateScope tenantID appID of
        Some e \<Rightarrow> Inl e
      | None \<Rightarrow>
          (case wfs_definitions m ident of
             None \<Rightarrow> Inr None
           | Some d \<Rightarrow>
               if def_TenantID d \<noteq> tenantID \<or> def_AppID d \<noteq> appID then Inr None else Inr (Some d)))"

definition ListDefinitions :: "string \<Rightarrow> string \<Rightarrow> int \<Rightarrow> wf_store \<Rightarrow> wf_error + definition_rec list" where
  "ListDefinitions tenantID appID limit m =
     (case validateScope tenantID appID of
        Some e \<Rightarrow> Inl e
      | None \<Rightarrow>
          Inr (take (nat (normalizeLimit limit))
            (sort_key (\<lambda>d. (def_CreatedAt d, def_ID d))
              (filter (\<lambda>d. \<not> (def_TenantID d \<noteq> tenantID \<or> def_AppID d \<noteq> appID))
                (List.map_filter (wfs_definitions m) (wfs_defOrder m))))))"

definition idemKey :: "string \<Rightarrow> string \<Rightarrow> string \<Rightarrow> string" where
  "idemKey tenantID appID key =
     (if key = [] then [] else tenantID @ [CHR 0x00] @ appID @ [CHR 0x00] @ key)"

definition CreateRun :: "run \<Rightarrow> wf_store \<Rightarrow> wf_store \<times> (wf_error + run)" where
  "CreateRun r m =
     (case validateRun r of
        Some e \<Rightarrow> (m, Inl e)
      | None \<Rightarrow>
          let key = idemKey (run_TenantID r) (run_AppID r) (run_IdempotencyKey r)
          in (case (if key = [] then None else wfs_runIdem m key) of
                Some ident \<Rightarrow> (m, (case wfs_runs m ident of Some r' \<Rightarrow> Inr r' | None \<Rightarrow> Inl WfNotFound))
              | None \<Rightarrow>
                  if run_ID r \<noteq> [] \<and> wfs_runs m (run_ID r) \<noteq> None then (m, Inl WfInvalidRun)
                  else
                    let m1 = (if run_ID r = [] then m\<lparr>wfs_drawn := Suc (wfs_drawn m)\<rparr> else m);
                        r1 = (if run_ID r = [] then r\<lparr>run_ID := wfs_ids m (wfs_drawn m)\<rparr> else r);
                        now = wfs_now m1 (wfs_ticks m1);
                        m2 = m1\<lparr>wfs_ticks := Suc (wfs_ticks m1)\<rparr>;
                        r2 = r1\<lparr>run_State := (if run_State r1 = StateText [] then StatePending else run_State r1),
                                run_CreatedAt := (if IsZero (run_CreatedAt r1) then now else run_CreatedAt r1),
                                run_UpdatedAt := now\<rparr>;
                        m3 = m2\<lparr>wfs_runs := (wfs_runs m2)(run_ID r2 \<mapsto> r2),
                                wfs_runOrder := wfs_runOrder m2 @ [run_ID r2]\<rparr>
                    in (if key = [] then m3
                        else m3\<lparr>wfs_runIdem := (wfs_runIdem m3)(key \<mapsto> run_ID r2)\<rparr>, Inr r2)))"

definition GetRun :: "string \<Rightarrow> string \<Rightarrow> string \<Rightarrow> wf_store \<Rightarrow> wf_error + run option" where
  "GetRun tenantID appID ident m =
     (case validateScope tenantID appID of
        Some e \<Rightarrow> Inl e
      | None \<Rightarrow>
          (case wfs_runs m ident of
             None \<Rightarrow> Inr None
           | Some r \<Rightarrow>
               if run_TenantID r \<noteq> tenantID \<or> run_AppID r \<noteq> appID then Inr None else Inr (Some r)))"

definition ListRuns :: "string \<Rightarrow> string \<Rightarrow> int \<Rightarrow> wf_store \<Rightarrow> wf_error + run list" where
  "ListRuns tenantID appID limit m =
     (case validateScope tenantID appID of
        Some e \<Rightarrow> Inl e
      | None \<Rightarrow>
          Inr (take (nat (normalizeLimit limit))
            (sort_key (\<lambda>r. (run_CreatedAt r, run_ID r))
              (filter (\<lambda>r. \<not> (run_TenantID r \<noteq> tenantID \<or> run_AppID r \<noteq> appID))
                (List.map_filter (wfs_runs m) (wfs_runOrder m))))))"

definition UpdateRun :: "run \<Rightarrow> wf_store \<Rightarrow> wf_store \<times> wf_error option" where
  "UpdateRun r m =
     (case validateRun r of
        Some e \<Rightarrow> (m, Some e)
      | None \<Rightarrow>
          (case wfs_runs m (run_ID r) of
             None \<Rightarrow> (m, Some WfNotFound)
           | Some existing \<Rightarrow>
               if run_TenantID existing \<noteq> run_TenantID r \<or> run_AppID existing \<noteq> run_AppID r
               then (m, Some WfScope)
               else
                 let m1 = (if IsZero (run_UpdatedAt r) then m\<lparr>wfs_ticks := Suc (wfs_ticks m)\<rparr> else m);
                     r1 = r\<lparr>run_CreatedAt := run_CreatedAt existing,
                            run_UpdatedAt := (if IsZero (run_UpdatedAt r) then wfs_now m (wfs_ticks m)
                                              else run_UpdatedAt r)\<rparr>
                 in (m1\<lparr>wfs_runs := (wfs_runs m1)(run_ID r \<mapsto> r1)\<rparr>, None)))"

subsection \<open>The dependency sort\<close>

text \<open>\<open>idToIdx\<close>: the last step with an id wins (a later assignment overwrites).\<close>

definition idToIdx :: "step list \<Rightarrow> string \<Rightarrow> nat option" where
  "idToIdx steps ident = find (\<lambda>i. step_ID (steps ! i) = ident) (rev [0 ..< length steps])"

fun resolve_deps :: "step list \<Rightarrow> nat \<Rightarrow> string list \<Rightarrow> nat list option" where
  "resolve_deps steps i [] = Some []"
| "resolve_deps steps i (depID # rest) =
     (case idToIdx steps depID of
        None \<Rightarrow> None
      | Some j \<Rightarrow> if j = i then None else map_option ((#) j) (resolve_deps steps i rest))"

definition deps_at :: "step list \<Rightarrow> nat \<Rightarrow> nat list option" where
  "deps_at steps i =
     (if step_DependsOn (steps ! i) = [] \<and> 0 < i then Some [i - 1]
      else resolve_deps steps i (step_DependsOn (steps ! i)))"

text \<open>\<open>depOf\<close>, with the first error in step order (\<open>those\<close> fails when one of them fails).\<close>

definition depOf :: "step list \<Rightarrow> nat list list option" where
  "depOf steps = those (map (deps_at steps) [0 ..< length steps])"

text \<open>\<open>dependents[cur]\<close>: every step once per occurrence of \<open>cur\<close> among its dependencies.\<close>

definition dependents :: "nat list list \<Rightarrow> nat \<Rightarrow> nat list" where
  "dependents deps j = concat (map (\<lambda>i. replicate (count_list (deps ! i) j) i) [0 ..< length deps])"

fun relax :: "nat list \<Rightarrow> (nat \<Rightarrow> int) \<Rightarrow> nat list \<Rightarrow> (nat \<Rightarrow> int) \<times> nat list" where
  "relax [] inDegree queue = (inDegree, queue)"
| "relax (i # is) inDegree queue =
     (let inDegree' = inDegree(i := inDegree i - 1)
      in relax is inDegree' (if inDegree' i = 0 then queue @ [i] else queue))"

text \<open>
  Kahn's loop. The fuel counts loop rounds; \<open>None\<close> is an exhausted fuel, which \<open>topoSort\<close>'s
  fuel (one more than the number of steps) never is (\<open>kahn_returns\<close>).
\<close>

fun kahn :: "nat \<Rightarrow> nat list list \<Rightarrow> (nat \<Rightarrow> int) \<Rightarrow> nat list \<Rightarrow> nat list \<Rightarrow> nat list option" where
  "kahn fuel deps inDegree [] order = Some order"
| "kahn 0 deps inDegree (cur # queue) order = None"
| "kahn (Suc fuel) deps inDegree (cur # queue) order =
     (let (inDegree', queue') = relax (dependents deps cur) inDegree queue
      in kahn fuel deps inDegree' queue' (order @ [cur]))"

definition topoSort :: "step list \<Rightarrow> wf_error + nat list" where
  "topoSort steps =
     (case depOf steps of
        None \<Rightarrow> Inl WfInvalidDef
      | Some deps \<Rightarrow>
          let n = length steps;
              inDegree = (\<lambda>i. if i < n then int (length (deps ! i)) else 0);
              queue = filter (\<lambda>i. inDegree i = 0) [0 ..< n]
          in case kahn (Suc n) deps inDegree queue [] of
               None \<Rightarrow> Inl WfInvalidDef
             | Some order \<Rightarrow> if length order \<noteq> n then Inl WfInvalidDef else Inr order)"

definition ValidateDependencies :: "step list \<Rightarrow> wf_error option" where
  "ValidateDependencies steps = (case topoSort steps of Inl e \<Rightarrow> Some e | Inr _ \<Rightarrow> None)"

subsection \<open>The engine\<close>

datatype effect =
    Persisted run \<comment> \<open>the store took the write\<close>
  | PersistFailed run
  | Dispatched nat step \<comment> \<open>a step of the definition, with its index\<close>
  | Compensated step

record engine =
  eng_store :: wf_store
  eng_ticks :: nat \<comment> \<open>readings of the engine's clock\<close>
  eng_calls :: nat \<comment> \<open>calls of the dispatch callback\<close>
  eng_trace :: "effect list"

record engine_env =
  env_now :: "nat \<Rightarrow> gotime"
  env_dispatch :: "nat \<Rightarrow> step \<Rightarrow> string + string" \<comment> \<open>\<open>Inl\<close> the error text, \<open>Inr\<close> the job id\<close>
  env_cel :: "string \<Rightarrow> (string \<times> run_state \<times> string \<times> string \<times> nat) list \<Rightarrow> string \<Rightarrow> string + bool"

text \<open>\<open>evalWhen\<close>: the \<open>steps\<close> variable maps each step id to its state, error, job id and retries.\<close>

definition evalWhen :: "engine_env \<Rightarrow> string \<Rightarrow> run \<Rightarrow> definition_rec \<Rightarrow> string + bool" where
  "evalWhen env expr r d =
     (if expr = [] then Inr True
      else env_cel env expr
        (map (\<lambda>i. let sr = run_Steps r ! i
                  in (if i < length (def_Steps d) then step_ID (def_Steps d ! i) else sr_StepID sr,
                      sr_State sr, sr_Error sr, sr_JobID sr, sr_Retries sr)) [0 ..< length (run_Steps r)])
        (run_ID r))"

definition eng_persist :: "engine_env \<Rightarrow> run \<Rightarrow> engine \<Rightarrow> engine \<times> run \<times> wf_error option" where
  "eng_persist env r g =
     (let r' = r\<lparr>run_UpdatedAt := env_now env (eng_ticks g)\<rparr>;
          (st, e) = UpdateRun r' (eng_store g)
      in (g\<lparr>eng_store := st, eng_ticks := Suc (eng_ticks g), eng_trace := eng_trace g @ [if e = None then Persisted r' else PersistFailed r']\<rparr>,
          r', e))"

definition set_step :: "nat \<Rightarrow> (step_run \<Rightarrow> step_run) \<Rightarrow> run \<Rightarrow> run" where
  "set_step idx f r = r\<lparr>run_Steps := (run_Steps r)[idx := f (run_Steps r ! idx)]\<rparr>"

definition call_dispatch ::
  "engine_env \<Rightarrow> effect \<Rightarrow> step \<Rightarrow> engine \<Rightarrow> engine \<times> (string + string)" where
  "call_dispatch env note s g =
     (g\<lparr>eng_calls := Suc (eng_calls g), eng_trace := eng_trace g @ [note]\<rparr>,
      env_dispatch env (eng_calls g) s)"

text \<open>
  \<open>dispatchWithRetries\<close>: \<open>left\<close> is \<open>maxTries - attempt\<close>, where \<open>maxTries\<close>, a 64-bit sum, may have wrapped to a
  negative number, so that the loop does not run. A failed write to the store also ends
  the loop with its error, as in the source.
\<close>

fun dispatch_tries ::
  "engine_env \<Rightarrow> step \<Rightarrow> nat \<Rightarrow> nat \<Rightarrow> nat \<Rightarrow> run \<Rightarrow> engine \<Rightarrow> engine \<times> run \<times> wf_error option" where
  "dispatch_tries env s idx attempt 0 r g = (g, r, None)"
| "dispatch_tries env s idx attempt (Suc left) r g =
     (let r1 = set_step idx (\<lambda>sr. sr\<lparr>sr_State := StateRunning,
                 sr_StartedAt := env_now env (eng_ticks g), sr_Error := []\<rparr>) r
      in case eng_persist env r1 (g\<lparr>eng_ticks := Suc (eng_ticks g)\<rparr>) of
           (g2, r2, Some e) \<Rightarrow> (g2, r2, Some e)
         | (g2, r2, None) \<Rightarrow>
             (case call_dispatch env (Dispatched idx s) s g2 of
                (g3, answer) \<Rightarrow>
                  let r3 = set_step idx (\<lambda>sr. sr\<lparr>sr_CompletedAt := env_now env (eng_ticks g3)\<rparr>) r2;
                      g4 = g3\<lparr>eng_ticks := Suc (eng_ticks g3)\<rparr>
                  in (case answer of
                        Inr jobID \<Rightarrow>
                          eng_persist env (set_step idx (\<lambda>sr. sr\<lparr>sr_JobID := jobID,
                            sr_State := StateSucceeded\<rparr>) r3) g4
                      | Inl err \<Rightarrow>
                          let r4 = set_step idx (\<lambda>sr. sr\<lparr>sr_State := StateFailed, sr_Error := err,
                                     sr_Retries := Suc attempt\<rparr>) r3;
                              r5 = (if 0 < left then set_step idx (\<lambda>sr. sr\<lparr>sr_State := StatePending\<rparr>) r4
                                    else r4)
                          in (case eng_persist env r5 g4 of
                                (g5, r6, Some e) \<Rightarrow> (g5, r6, Some e)
                              | (g5, r6, None) \<Rightarrow>
                                  if left = 0 then (g5, r6, Some (WfDispatch err))
                                  else dispatch_tries env s idx (Suc attempt) left r6 g5))))"

definition dispatchWithRetries ::
  "engine_env \<Rightarrow> step \<Rightarrow> nat \<Rightarrow> run \<Rightarrow> engine \<Rightarrow> engine \<times> run \<times> wf_error option" where
  "dispatchWithRetries env s idx r g = dispatch_tries env s idx 0 (nat (wrap64 (step_MaxRetries s + 1))) r g"

text \<open>
  The loop of \<open>Advance\<close> over the rest of the order, \<open>drop CurrentStep topoOrder\<close>: every round
  either returns or raises \<open>CurrentStep\<close> by one.
\<close>

definition next_step :: "run \<Rightarrow> run" where
  "next_step r = r\<lparr>run_CurrentStep := Suc (run_CurrentStep r)\<rparr>"

fun advance_loop ::
  "engine_env \<Rightarrow> definition_rec \<Rightarrow> nat list \<Rightarrow> run \<Rightarrow> engine \<Rightarrow> engine \<times> run \<times> wf_error option" where
  "advance_loop env d [] r g = eng_persist env (r\<lparr>run_State := StateSucceeded\<rparr>) g"
| "advance_loop env d (idx # rest) r g =
     (let s = def_Steps d ! idx;
          continue = (\<lambda>r g.
            case eng_persist env (next_step r) g of
              (g', r', Some e) \<Rightarrow> (g', r', Some e)
            | (g', r', None) \<Rightarrow> advance_loop env d rest r' g')
      in if sr_State (run_Steps r ! idx) = StateSucceeded
         then advance_loop env d rest (next_step r) g
         else case (if step_When s = [] then Inr True else evalWhen env (step_When s) r d) of
           Inl celErr \<Rightarrow>
             let r1 = set_step idx (\<lambda>sr. sr\<lparr>sr_State := StateFailed, sr_Error := celErr\<rparr>) r
             in if step_ContinueOnError s then continue r1 g
                else eng_persist env (r1\<lparr>run_State := StateFailed\<rparr>) g
         | Inr False \<Rightarrow>
             continue (set_step idx (\<lambda>sr. sr\<lparr>sr_State := StateSucceeded\<rparr>) r) g
         | Inr True \<Rightarrow>
             (case dispatchWithRetries env s idx r g of
                (g1, r1, None) \<Rightarrow> continue r1 g1
              | (g1, r1, Some _) \<Rightarrow>
                  if step_ContinueOnError s then continue r1 g1
                  else
                    let g2 = (case step_Compensation s of
                                None \<Rightarrow> g1 | Some undo \<Rightarrow> fst (call_dispatch env (Compensated undo) undo g1))
                    in eng_persist env (r1\<lparr>run_State := StateFailed\<rparr>) g2))"

definition Advance :: "engine_env \<Rightarrow> run \<Rightarrow> engine \<Rightarrow> engine \<times> run \<times> wf_error option" where
  "Advance env r g =
     (case validateRun r of
        Some e \<Rightarrow> (g, r, Some e)
      | None \<Rightarrow>
          if TerminalState (run_State r) then (g, r, Some WfTerminalRun)
          else case GetDefinition (run_TenantID r) (run_AppID r) (run_DefinitionID r) (eng_store g) of
            Inl e \<Rightarrow> (g, r, Some e)
          | Inr None \<Rightarrow> (g, r, Some WfNotFound)
          | Inr (Some d) \<Rightarrow>
              (case topoSort (def_Steps d) of
                 Inl e \<Rightarrow> (g, r, Some e)
               | Inr order \<Rightarrow>
                   let r1 = (if run_Steps r = [] then r\<lparr>run_Steps := NewStepRuns d\<rparr> else r)
                   in if length (run_Steps r1) \<noteq> length (def_Steps d) then (g, r1, Some WfStepsMismatch)
                      else if map sr_StepID (run_Steps r1) \<noteq> map step_ID (def_Steps d)
                        then (g, r1, Some WfStepsMismatch)
                      else case eng_persist env (r1\<lparr>run_State := StateRunning\<rparr>) g of
                        (g2, r2, Some e) \<Rightarrow> (g2, r2, Some e)
                      | (g2, r2, None) \<Rightarrow> advance_loop env d (drop (run_CurrentStep r2) order) r2 g2))"

definition CancelRun :: "engine_env \<Rightarrow> run \<Rightarrow> engine \<Rightarrow> engine \<times> run \<times> wf_error option" where
  "CancelRun env r g =
     (case validateRun r of
        Some e \<Rightarrow> (g, r, Some e)
      | None \<Rightarrow>
          if TerminalState (run_State r) then (g, r, Some WfTerminalRun)
          else
            let now = env_now env (eng_ticks g);
                g1 = g\<lparr>eng_ticks := Suc (eng_ticks g)\<rparr>;
                stop = (\<lambda>sr. if TerminalState (sr_State sr) then sr
                             else sr\<lparr>sr_State := StateCanceled,
                                     sr_CompletedAt := (if IsZero (sr_CompletedAt sr) then now
                                                        else sr_CompletedAt sr)\<rparr>)
            in eng_persist env (r\<lparr>run_State := StateCanceled, run_Steps := map stop (run_Steps r)\<rparr>) g1)"

end
