(* ===== verification/WorkflowSort.thy ===== *)
theory WorkflowSort
  imports Workflow
begin

text \<open>
  The dependency sort of workflows is correct: it returns an order exactly when the dependency
  graph of the steps is well defined and acyclic, and then the order lists every step once,
  after everything it depends on.
\<close>

text \<open>The dependency relation as the package documents it.\<close>

definition depends :: "step list \<Rightarrow> nat \<Rightarrow> nat \<Rightarrow> bool" where
  "depends steps i j =
     (i < length steps \<and>
      (if step_DependsOn (steps ! i) = [] \<and> 0 < i then j = i - 1
       else \<exists>d \<in> set (step_DependsOn (steps ! i)). idToIdx steps d = Some j))"

definition unknown_dependency :: "step list \<Rightarrow> bool" where
  "unknown_dependency steps =
     (\<exists>s \<in> set steps. \<exists>d \<in> set (step_DependsOn s). d \<notin> step_ID ` set steps)"

subsection \<open>Resolving the dependencies\<close>

lemma idToIdx_Some: "idToIdx steps d = Some j \<Longrightarrow> j < length steps \<and> step_ID (steps ! j) = d"
  by (auto simp: idToIdx_def find_Some_iff rev_nth)

lemma idToIdx_None: "idToIdx steps d = None \<longleftrightarrow> d \<notin> step_ID ` set steps"
proof -
  have "idToIdx steps d = None \<longleftrightarrow> (\<forall>i < length steps. step_ID (steps ! i) \<noteq> d)"
    by (auto simp: idToIdx_def find_None_iff)
  also have "\<dots> \<longleftrightarrow> d \<notin> step_ID ` set steps" by (metis image_iff in_set_conv_nth)
  finally show ?thesis .
qed

lemma resolve_deps_Some:
  "resolve_deps steps i ds = Some js \<Longrightarrow> set js = {j. \<exists>d \<in> set ds. idToIdx steps d = Some j}"
  by (induction ds arbitrary: js) (auto split: option.splits if_splits)

lemma resolve_deps_None:
  "resolve_deps steps i ds = None \<longleftrightarrow> (\<exists>d \<in> set ds. idToIdx steps d = None \<or> idToIdx steps d = Some i)"
  by (induction ds) (auto split: option.splits)

lemma those_Some: "those xs = Some ys \<longleftrightarrow> xs = map Some ys"
  by (induction xs arbitrary: ys) (auto split: option.splits simp: Cons_eq_map_conv)

lemma those_None: "those xs = None \<longleftrightarrow> None \<in> set xs"
  by (induction xs) (auto split: option.splits)

lemma depOf_Some:
  assumes "depOf steps = Some deps"
  shows "length deps = length steps" and "i < length steps \<Longrightarrow> set (deps ! i) = {j. depends steps i j}"
proof -
  from assms have map: "map (deps_at steps) [0 ..< length steps] = map Some deps"
    by (simp add: depOf_def those_Some)
  then have "length (map (deps_at steps) [0 ..< length steps]) = length (map Some deps)" by metis
  then show len: "length deps = length steps" by simp
  assume i: "i < length steps"
  have "map (deps_at steps) [0 ..< length steps] ! i = map Some deps ! i" by (simp only: map)
  with i len have "deps_at steps i = Some (deps ! i)" by simp
  then show "set (deps ! i) = {j. depends steps i j}"
  proof (cases "step_DependsOn (steps ! i) = [] \<and> 0 < i")
    case True
    with \<open>deps_at steps i = Some (deps ! i)\<close> have "deps ! i = [i - 1]" by (simp add: deps_at_def)
    with i True show ?thesis by (auto simp: depends_def)
  next
    case False
    with \<open>deps_at steps i = Some (deps ! i)\<close>
    have "resolve_deps steps i (step_DependsOn (steps ! i)) = Some (deps ! i)"
      by (simp add: deps_at_def)
    from resolve_deps_Some [OF this] i False show ?thesis by (auto simp: depends_def)
  qed
qed

lemma depends_bound: "depends steps i j \<Longrightarrow> i < length steps \<and> j < length steps"
  by (auto simp: depends_def split: if_splits dest: idToIdx_Some)

lemma deps_at_None:
  "deps_at steps i = None \<longleftrightarrow>
     (\<exists>d \<in> set (step_DependsOn (steps ! i)). idToIdx steps d = None \<or> idToIdx steps d = Some i)"
  by (cases "step_DependsOn (steps ! i) = []") (auto simp: deps_at_def resolve_deps_None)

lemma depends_self:
  "depends steps i i \<longleftrightarrow>
     i < length steps \<and> (\<exists>d \<in> set (step_DependsOn (steps ! i)). idToIdx steps d = Some i)"
  by (cases "step_DependsOn (steps ! i) = []") (auto simp: depends_def)

lemma unknown_nth:
  "unknown_dependency steps \<longleftrightarrow>
     (\<exists>i < length steps. \<exists>d \<in> set (step_DependsOn (steps ! i)). d \<notin> step_ID ` set steps)"
  unfolding unknown_dependency_def by (metis in_set_conv_nth)

lemma depOf_None:
  "depOf steps = None \<longleftrightarrow> unknown_dependency steps \<or> (\<exists>i. depends steps i i)"
proof -
  have "depOf steps = None \<longleftrightarrow> (\<exists>i < length steps. deps_at steps i = None)"
    unfolding depOf_def those_None by (auto simp: image_iff Bex_def eq_commute [of None])
  also have "\<dots> \<longleftrightarrow> (\<exists>i < length steps. \<exists>d \<in> set (step_DependsOn (steps ! i)).
      idToIdx steps d = None \<or> idToIdx steps d = Some i)"
    using deps_at_None by blast
  also have "\<dots> \<longleftrightarrow> unknown_dependency steps \<or> (\<exists>i. depends steps i i)"
    unfolding unknown_nth depends_self idToIdx_None by blast
  finally show ?thesis .
qed

subsection \<open>Kahn's loop\<close>

lemma relax_indegree: "fst (relax ds indeg q) i = indeg i - int (count_list ds i)"
  by (induction ds arbitrary: indeg q) (auto simp: Let_def)

lemma relax_spec:
  "(\<exists>new. snd (relax ds indeg q) = q @ new \<and> distinct new \<and>
      set new = {j. 0 < indeg j \<and> indeg j \<le> int (count_list ds j)})"
proof (induction ds arbitrary: indeg q)
  case Nil
  then show ?case by (auto intro: exI [of _ "[]"])
next
  case (Cons d ds)
  let ?indeg = "indeg(d := indeg d - 1)"
  have set: "{j. 0 < ?indeg j \<and> ?indeg j \<le> int (count_list ds j)} \<union> (if indeg d = 1 then {d} else {}) =
      {j. 0 < indeg j \<and> indeg j \<le> int (count_list (d # ds) j)}"
    by (auto split: if_splits)
  show ?case
  proof (cases "indeg d = 1")
    case True
    with Cons [of ?indeg "q @ [d]"] obtain new where new: "snd (relax ds ?indeg (q @ [d])) = (q @ [d]) @ new"
      "distinct new" "set new = {j. 0 < ?indeg j \<and> ?indeg j \<le> int (count_list ds j)}" by blast
    moreover have "d \<notin> set new" unfolding new(3) using True by simp
    ultimately have "snd (relax (d # ds) indeg q) = q @ (d # new)" "distinct (d # new)"
      "set (d # new) = {j. 0 < indeg j \<and> indeg j \<le> int (count_list (d # ds) j)}"
      using True set by (auto simp: Let_def)
    then show ?thesis by blast
  next
    case False
    with Cons [of ?indeg q] obtain new where "snd (relax ds ?indeg q) = q @ new" "distinct new"
      "set new = {j. 0 < ?indeg j \<and> ?indeg j \<le> int (count_list ds j)}" by blast
    with False set have "snd (relax (d # ds) indeg q) = q @ new" "distinct new"
      "set new = {j. 0 < indeg j \<and> indeg j \<le> int (count_list (d # ds) j)}"
      by (simp_all add: Let_def)
    then show ?thesis by blast
  qed
qed

lemma count_concat_replicate:
  "distinct is \<Longrightarrow> count_list (concat (map (\<lambda>i. replicate (f i) i) is)) x = (if x \<in> set is then f x else 0)"
proof (induction "is")
  case (Cons i "is")
  have "count_list (replicate k i) x = (if x = i then k else 0)" for k by (induction k) auto
  with Cons show ?case by auto
qed simp

lemma count_dependents:
  "count_list (dependents deps cur) i = (if i < length deps then count_list (deps ! i) cur else 0)"
  unfolding dependents_def by (subst count_concat_replicate) auto

text \<open>How many dependencies of a step are still to come.\<close>

definition missing :: "nat list list \<Rightarrow> nat list \<Rightarrow> nat \<Rightarrow> nat list" where
  "missing deps order i = filter (\<lambda>j. j \<notin> set order) (deps ! i)"

definition kahn_inv :: "nat list list \<Rightarrow> (nat \<Rightarrow> int) \<Rightarrow> nat list \<Rightarrow> nat list \<Rightarrow> bool" where
  "kahn_inv deps indeg queue order =
     ((\<forall>i < length deps. indeg i = int (length (missing deps order i))) \<and>
      (\<forall>i \<ge> length deps. indeg i = 0) \<and>
      distinct (order @ queue) \<and>
      set (order @ queue) = {i. i < length deps \<and> indeg i = 0} \<and>
      (\<forall>k < length order. set (deps ! (order ! k)) \<subseteq> set (take k order)))"

lemma missing_snoc:
  assumes "cur \<notin> set order"
  shows "length (missing deps order i) = length (missing deps (order @ [cur]) i) + count_list (deps ! i) cur"
proof -
  have "length (filter (\<lambda>j. j \<notin> set order) xs) =
      length (filter (\<lambda>j. j \<notin> set (order @ [cur])) xs) + count_list xs cur" for xs
    using assms by (induction xs) auto
  then show ?thesis by (simp add: missing_def)
qed

lemma kahn_step:
  assumes inv: "kahn_inv deps indeg (cur # queue) order"
    and relax: "relax (dependents deps cur) indeg queue = (indeg', queue')"
  shows "kahn_inv deps indeg' queue' (order @ [cur])"
proof -
  let ?n = "length deps" and ?ds = "dependents deps cur"
  from inv have cur: "cur < ?n" "indeg cur = 0" "cur \<notin> set order" unfolding kahn_inv_def by auto
  have indeg': "indeg' i = indeg i - int (count_list ?ds i)" for i
    using relax_indegree [of ?ds indeg queue i] relax by simp
  obtain new where new: "queue' = queue @ new" "distinct new"
    "set new = {j. 0 < indeg j \<and> indeg j \<le> int (count_list ?ds j)}"
    using relax_spec [of ?ds indeg queue] relax by auto
  have left: "indeg' i = int (length (missing deps (order @ [cur]) i))" if "i < ?n" for i
    using that inv missing_snoc [OF cur(3), of deps i] unfolding kahn_inv_def
    by (simp add: indeg' count_dependents)
  have zero: "indeg' i = 0" if "i \<ge> ?n" for i
    using that inv unfolding kahn_inv_def by (simp add: indeg' count_dependents)
  have ge: "0 \<le> indeg' i" for i using left zero by (cases "i < ?n") auto
  have old: "set (order @ cur # queue) = {i. i < ?n \<and> indeg i = 0}"
    and dist: "distinct (order @ cur # queue)" using inv unfolding kahn_inv_def by auto
  have fresh: "set new \<inter> set (order @ cur # queue) = {}" unfolding new(3) old by auto
  have small: "j < ?n" if "j \<in> set new" for j
    using that inv unfolding new(3) kahn_inv_def by (cases "j < ?n") auto
  have zeroed: "indeg' j = 0" if "j \<in> set new" for j
    using that ge [of j] unfolding new(3) indeg' by simp
  have stays: "indeg' j = 0" if "indeg j = 0" for j
    using that ge [of j] unfolding indeg' by simp
  have unzeroed: "j \<in> set new \<or> indeg j = 0" if "indeg' j = 0" for j
    using that count_dependents [of deps cur j] inv
    unfolding new(3) indeg' kahn_inv_def by (cases "j < ?n") auto
  have "x \<in> set ((order @ [cur]) @ queue') \<longleftrightarrow> x \<in> set (order @ cur # queue) \<or> x \<in> set new" for x
    by (auto simp: new(1))
  then have "set ((order @ [cur]) @ queue') = {i. i < ?n \<and> indeg' i = 0}"
    unfolding old using small zeroed stays unzeroed by blast
  moreover have "distinct ((order @ [cur]) @ queue')" using dist fresh new(1,2) by auto
  moreover have "set (deps ! ((order @ [cur]) ! k)) \<subseteq> set (take k (order @ [cur]))"
    if "k < length (order @ [cur])" for k
  proof (cases "k < length order")
    case True
    then show ?thesis using inv unfolding kahn_inv_def by (auto simp: nth_append)
  next
    case False
    with that have k: "k = length order" by simp
    have "missing deps order cur = []" using inv cur unfolding kahn_inv_def by auto
    then have "set (deps ! cur) \<subseteq> set order" unfolding missing_def filter_empty_conv by auto
    then show ?thesis using k by simp
  qed
  ultimately show ?thesis using left zero unfolding kahn_inv_def by blast
qed

lemma kahn_returns:
  assumes "kahn_inv deps indeg queue order" and "length deps \<le> fuel + length order"
  shows "\<exists>order' indeg'. kahn fuel deps indeg queue order = Some order' \<and> kahn_inv deps indeg' [] order'"
  using assms
proof (induction fuel deps indeg queue order rule: kahn.induct)
  case (1 fuel deps indeg order)
  then show ?case by auto
next
  case (2 deps indeg cur queue order)
  have "card (set (order @ cur # queue)) = length (order @ cur # queue)"
    using 2(1) distinct_card unfolding kahn_inv_def by blast
  moreover have "card (set (order @ cur # queue)) \<le> length deps"
    using 2(1) card_mono [of "{..<length deps}" "set (order @ cur # queue)"] unfolding kahn_inv_def by auto
  ultimately show ?case using 2(2) by simp
next
  case (3 fuel deps indeg cur queue order)
  obtain indeg' queue' where r: "relax (dependents deps cur) indeg queue = (indeg', queue')"
    by (cases "relax (dependents deps cur) indeg queue")
  with 3 kahn_step [OF 3(2) r] show ?case by simp
qed

lemma kahn_inv_init:
  assumes "\<And>i. indeg i = (if i < length deps then int (length (deps ! i)) else 0)"
  shows "kahn_inv deps indeg (filter (\<lambda>i. indeg i = 0) [0 ..< length deps]) []"
  using assms by (auto simp: kahn_inv_def missing_def)

subsection \<open>The result\<close>

definition dep_rel :: "step list \<Rightarrow> (nat \<times> nat) set" where
  "dep_rel steps = {(j, i). depends steps i j}"

text \<open>The loop ends with an order of the steps whose dependencies can all be met.\<close>

lemma topoSort_run:
  assumes deps: "depOf steps = Some deps"
  obtains order indeg where "kahn_inv deps indeg [] order"
    "topoSort steps = (if length order \<noteq> length steps then Inl WfInvalidDef else Inr order)"
proof -
  let ?n = "length steps" and ?indeg = "\<lambda>i. if i < length steps then int (length (deps ! i)) else 0"
  have len: "length deps = ?n" by (rule depOf_Some(1) [OF deps])
  have "kahn_inv deps ?indeg (filter (\<lambda>i. ?indeg i = 0) [0 ..< ?n]) []"
    using kahn_inv_init [of ?indeg deps] len by simp
  from kahn_returns [OF this, of "Suc ?n"] len obtain order indeg where
    "kahn (Suc ?n) deps ?indeg (filter (\<lambda>i. ?indeg i = 0) [0 ..< ?n]) [] = Some order"
    "kahn_inv deps indeg [] order" by auto
  with deps that show ?thesis by (auto simp: topoSort_def Let_def simp del: kahn.simps)
qed

lemma topoSort_order:
  assumes "topoSort steps = Inr order"
  shows "distinct order" and "set order = {..<length steps}"
    and "depends steps (order ! k) j \<Longrightarrow> k < length order \<Longrightarrow> \<exists>l < k. order ! l = j"
    and "depOf steps \<noteq> None"
proof -
  from assms obtain deps where deps: "depOf steps = Some deps"
    by (auto simp: topoSort_def split: option.splits)
  from topoSort_run [OF this] obtain order' indeg where
    "kahn_inv deps indeg [] order'" and
    "topoSort steps = (if length order' \<noteq> length steps then Inl WfInvalidDef else Inr order')" by blast
  with assms have inv: "kahn_inv deps indeg [] order" and len: "length order = length steps"
    by (auto split: if_splits)
  note n = depOf_Some [OF deps]
  show dist: "distinct order" using inv by (simp add: kahn_inv_def)
  have "set order \<subseteq> {..<length steps}" using inv n(1) unfolding kahn_inv_def by auto
  then show set: "set order = {..<length steps}"
    using distinct_card [OF dist] len by (simp add: card_subset_eq)
  show "depOf steps \<noteq> None" using deps by simp
  assume d: "depends steps (order ! k) j" and k: "k < length order"
  have "j \<in> set (deps ! (order ! k))" using n(2) d depends_bound by blast
  with inv k have "j \<in> set (take k order)" unfolding kahn_inv_def by blast
  then show "\<exists>l < k. order ! l = j" by (auto simp: in_set_conv_nth)
qed

text \<open>A sorted workflow can be run in order: when \<open>topoSort\<close> returns an order, it lists every
  step exactly once, and whatever a step depends on (its named dependencies, or the step
  before it when it names none) stands earlier in the order.\<close>

theorem sort_respects_dependencies:
  assumes "topoSort steps = Inr order"
  shows "distinct order \<and> set order = {..<length steps} \<and>
         (\<forall>k j. k < length order \<and> depends steps (order ! k) j \<longrightarrow> (\<exists>l < k. order ! l = j))"
  using topoSort_order [OF assms] by blast

definition wit_steps :: "step list" where
  "wit_steps =
    [Step ''a'' ''mock'' ''c'' [] None False [] [] None 0,
     Step ''b'' ''mock'' ''c'' [] None False [''d''] [] None 0,
     Step ''d'' ''mock'' ''c'' [] None True [''a''] [] None 1]"

lemma wit_sorted: "topoSort wit_steps = Inr [0, 2, 1]"
  by code_simp

lemma sort_respects_dependencies_witness:
  "topoSort wit_steps = Inr [0, 2, 1] \<and> depends wit_steps 1 2 \<and>
   (\<exists>l < 2. [0 :: nat, 2, 1] ! l = 2)"
proof -
  have "depends wit_steps ([0, 2, 1] ! 2) 2"
    by (simp add: depends_def wit_steps_def, code_simp?)
  then show ?thesis
    using sort_respects_dependencies [OF wit_sorted] wit_sorted
    by (auto simp: numeral_2_eq_2)
qed

text \<open>A returned order makes the dependencies acyclic: positions in it are a measure.\<close>

lemma sorted_acyclic:
  assumes ord: "topoSort steps = Inr order"
  shows "acyclic (dep_rel steps)"
proof -
  note o = topoSort_order [OF ord]
  have "\<forall>i < length steps. \<exists>k. k < length order \<and> order ! k = i"
    using o(2) by (metis in_set_conv_nth lessThan_iff)
  then obtain pos where pos: "\<And>i. i < length steps \<Longrightarrow> pos i < length order \<and> order ! pos i = i"
    by metis
  have "pos j < pos i" if ji: "(j, i) \<in> dep_rel steps" for i j
  proof -
    from ji have d: "depends steps i j" by (simp add: dep_rel_def)
    then have i: "i < length steps" and j: "j < length steps" using depends_bound by blast+
    from o(3) [of "pos i" j] pos [OF i] d obtain l where "l < pos i" "order ! l = j" by auto
    moreover from this pos [OF i] pos [OF j] have "l = pos j"
      using o(1) by (metis (no_types, lifting) dual_order.strict_trans nth_eq_iff_index_eq)
    ultimately show ?thesis by simp
  qed
  then have "dep_rel steps \<subseteq> measure pos" by auto
  then show ?thesis by (meson wf_acyclic wf_measure wf_subset)
qed

text \<open>Steps the loop never reaches each depend on another such step, so they contain a cycle.\<close>

lemma stuck_cyclic:
  assumes deps: "depOf steps = Some deps" and inv: "kahn_inv deps indeg [] order"
    and short: "length order \<noteq> length steps"
  shows "\<not> acyclic (dep_rel steps)"
proof -
  note n = depOf_Some [OF deps]
  let ?R = "{i. i < length steps \<and> i \<notin> set order}"
  have dist: "distinct order" and sub: "set order \<subseteq> {..<length steps}"
    using inv n(1) unfolding kahn_inv_def by auto
  have ne: "?R \<noteq> {}"
  proof
    assume "?R = {}"
    then have "set order = {..<length steps}" using sub by auto
    with distinct_card [OF dist] short show False by simp
  qed
  have stuck: "\<exists>j \<in> ?R. (j, i) \<in> dep_rel steps" if "i \<in> ?R" for i
  proof -
    from that inv n(1) have "indeg i \<noteq> 0" "indeg i = int (length (missing deps order i))"
      unfolding kahn_inv_def by auto
    then have "missing deps order i \<noteq> []" by auto
    then obtain j where "j \<in> set (deps ! i)" "j \<notin> set order"
      unfolding missing_def filter_empty_conv by blast
    with n(2) that have "depends steps i j" by blast
    with \<open>j \<notin> set order\<close> depends_bound show ?thesis by (auto simp: dep_rel_def)
  qed
  have "\<not> wf (dep_rel steps)"
  proof
    assume "wf (dep_rel steps)"
    then obtain z where "z \<in> ?R" "\<And>y. (y, z) \<in> dep_rel steps \<Longrightarrow> y \<notin> ?R"
      using ne by (rule wfE_min') blast
    with stuck show False by blast
  qed
  moreover have "finite (dep_rel steps)"
    by (rule finite_subset [of _ "{..<length steps} \<times> {..<length steps}"])
      (auto simp: dep_rel_def dest: depends_bound)
  ultimately show ?thesis using finite_acyclic_wf by blast
qed

lemma sorts_iff:
  "(\<exists>order. topoSort steps = Inr order) = (\<not> unknown_dependency steps \<and> acyclic (dep_rel steps))"
proof (cases "depOf steps")
  case None
  then have "unknown_dependency steps \<or> (\<exists>i. depends steps i i)" by (simp add: depOf_None)
  then have "unknown_dependency steps \<or> \<not> acyclic (dep_rel steps)"
    unfolding acyclic_def dep_rel_def by blast
  then show ?thesis using None by (auto simp: topoSort_def)
next
  case (Some deps)
  then have known: "\<not> unknown_dependency steps" using depOf_None [of steps] by simp
  from topoSort_run [OF Some] obtain order indeg where inv: "kahn_inv deps indeg [] order"
    and res: "topoSort steps = (if length order \<noteq> length steps then Inl WfInvalidDef else Inr order)" by blast
  show ?thesis
  proof (cases "length order = length steps")
    case True
    then have ord: "topoSort steps = Inr order" using res by simp
    then show ?thesis using known sorted_acyclic [OF ord] by auto
  next
    case False
    then show ?thesis using res stuck_cyclic [OF Some inv False] by simp
  qed
qed

text \<open>The sort accepts exactly the workflows that can be run: \<open>topoSort\<close> returns an order,
  and \<open>ValidateDependencies\<close> accepts the steps, if and only if every dependency named is some
  step's id and the dependencies have no cycle.\<close>

theorem sort_refuses_exactly_cycles:
  "((\<exists>order. topoSort steps = Inr order) = (\<not> unknown_dependency steps \<and> acyclic (dep_rel steps))) \<and>
   ((ValidateDependencies steps = None) = (\<not> unknown_dependency steps \<and> acyclic (dep_rel steps)))"
proof -
  have "(ValidateDependencies steps = None) = (\<exists>order. topoSort steps = Inr order)"
    by (auto simp: ValidateDependencies_def split: sum.splits)
  then show ?thesis using sorts_iff [of steps] by simp
qed

end
