(* ===== verification/WorkflowEngine.thy ===== *)
theory WorkflowEngine
  imports WorkflowSort
begin

text \<open>
  The workflow engine keeps what a definition promises: a step is dispatched only after
  everything it depends on is settled in the store, at most \<open>MaxRetries + 1\<close> times per
  \<open>Advance\<close>, and a run that is reported finished is stored as finished.
\<close>

subsection \<open>Traces\<close>

text \<open>\<open>g'\<close> extends the trace of \<open>g\<close>, and every dispatch in the extension follows a write of the
  run that satisfies \<open>P\<close>.\<close>

definition grows :: "(nat \<Rightarrow> step \<Rightarrow> run \<Rightarrow> bool) \<Rightarrow> engine \<Rightarrow> engine \<Rightarrow> bool" where
  "grows P g g' =
     (\<exists>new. eng_trace g' = eng_trace g @ new \<and>
        (\<forall>pre i s suf. new = pre @ Dispatched i s # suf \<longrightarrow>
           pre \<noteq> [] \<and> (\<exists>r. last pre = Persisted r \<and> P i s r)))"

lemma grows_refl: "eng_trace g' = eng_trace g \<Longrightarrow> grows P g g'"
  by (auto simp: grows_def)

lemma grows_one: "eng_trace g' = eng_trace g @ [x] \<Longrightarrow> (\<And>i s. x \<noteq> Dispatched i s) \<Longrightarrow> grows P g g'"
  unfolding grows_def by (rule exI [of _ "[x]"]) (auto simp: Cons_eq_append_conv)

lemma grows_mono: "grows P g g' \<Longrightarrow> (\<And>i s r. P i s r \<Longrightarrow> Q i s r) \<Longrightarrow> grows Q g g'"
  unfolding grows_def by blast

lemma grows_trans:
  assumes "grows P g g1" and "grows P g1 g2"
  shows "grows P g g2"
proof -
  from assms obtain n1 n2 where n1: "eng_trace g1 = eng_trace g @ n1"
    "\<And>pre i s suf. n1 = pre @ Dispatched i s # suf \<Longrightarrow> pre \<noteq> [] \<and> (\<exists>r. last pre = Persisted r \<and> P i s r)"
    and n2: "eng_trace g2 = eng_trace g1 @ n2"
    "\<And>pre i s suf. n2 = pre @ Dispatched i s # suf \<Longrightarrow> pre \<noteq> [] \<and> (\<exists>r. last pre = Persisted r \<and> P i s r)"
    unfolding grows_def by blast
  have "pre \<noteq> [] \<and> (\<exists>r. last pre = Persisted r \<and> P i s r)"
    if "n1 @ n2 = pre @ Dispatched i s # suf" for pre i s suf
  proof -
    from that consider us where "n1 = pre @ us" "us @ n2 = Dispatched i s # suf"
      | us where "pre = n1 @ us" "n2 = us @ Dispatched i s # suf"
      by (auto simp: append_eq_append_conv2)
    then show ?thesis
    proof cases
      case (1 us)
      show ?thesis
      proof (cases us)
        case Nil
        with 1 n2(2) [of "[]" i s suf] show ?thesis by simp
      next
        case (Cons u us')
        with 1 have "n1 = pre @ Dispatched i s # us'" by simp
        then show ?thesis by (rule n1(2))
      qed
    next
      case (2 us)
      from n2(2) [OF 2(2)] 2(1) show ?thesis by auto
    qed
  qed
  with n1(1) n2(1) show ?thesis unfolding grows_def by (intro exI [of _ "n1 @ n2"]) auto
qed

definition dispatches :: "nat \<Rightarrow> effect list \<Rightarrow> nat" where
  "dispatches idx tr = length (filter (\<lambda>e. case e of Dispatched i _ \<Rightarrow> i = idx | _ \<Rightarrow> False) tr)"

lemma dispatches_append [simp]: "dispatches i (xs @ ys) = dispatches i xs + dispatches i ys"
  by (simp add: dispatches_def)

lemma dispatches_simps [simp]:
  "dispatches i [] = 0" "dispatches i (Persisted r # tr) = dispatches i tr" "dispatches i (PersistFailed r # tr) = dispatches i tr"
  "dispatches i (Compensated s # tr) = dispatches i tr"
  "dispatches i (Dispatched k s # tr) = (if k = i then 1 else 0) + dispatches i tr"
  by (simp_all add: dispatches_def)

subsection \<open>Persisting\<close>

lemma eng_persist_eqs:
  assumes "eng_persist env r g = (g', r', e)"
  shows "r' = r\<lparr>run_UpdatedAt := env_now env (eng_ticks g)\<rparr>"
    and "eng_trace g' = eng_trace g @ [if e = None then Persisted r' else PersistFailed r']"
    and "dispatches i (eng_trace g') = dispatches i (eng_trace g)"
  using assms by (auto simp: eng_persist_def Let_def split: prod.splits)

lemma eng_persist_grows: "eng_persist env r g = (g', r', e) \<Longrightarrow> grows P g g'"
  by (rule grows_one [OF eng_persist_eqs(2)]) auto

text \<open>A write that succeeds stores the run.\<close>

definition stored_as :: "run \<Rightarrow> wf_store \<Rightarrow> bool" where
  "stored_as r m =
     (case wfs_runs m (run_ID r) of
        None \<Rightarrow> False
      | Some st \<Rightarrow> run_State st = run_State r \<and> run_Steps st = run_Steps r \<and>
                   run_CurrentStep st = run_CurrentStep r)"

lemma eng_persist_stored:
  "eng_persist env r g = (g', r', None) \<Longrightarrow> stored_as r' (eng_store g')"
  by (auto simp: eng_persist_def UpdateRun_def Let_def stored_as_def
      split: prod.splits option.splits if_splits)

subsection \<open>One step\<close>

definition same_except :: "nat \<Rightarrow> run \<Rightarrow> run \<Rightarrow> bool" where
  "same_except idx r r' =
     (length (run_Steps r') = length (run_Steps r) \<and> run_CurrentStep r' = run_CurrentStep r \<and>
      (\<forall>j. j \<noteq> idx \<longrightarrow> run_Steps r' ! j = run_Steps r ! j))"

lemma same_except_refl [simp]: "same_except idx r r"
  by (simp add: same_except_def)

lemma same_except_trans: "same_except idx r r' \<Longrightarrow> same_except idx r' r'' \<Longrightarrow> same_except idx r r''"
  by (auto simp: same_except_def)

lemma same_except_set [simp]: "same_except idx r (set_step idx f r)"
  by (auto simp: same_except_def set_step_def)

lemma same_except_persist: "eng_persist env r g = (g', r', e) \<Longrightarrow> same_except idx r r'"
  by (drule eng_persist_eqs(1)) (simp add: same_except_def)

lemma state_set_step: "idx < length (run_Steps r) \<Longrightarrow> run_Steps (set_step idx f r) ! idx = f (run_Steps r ! idx)"
  by (simp add: set_step_def)

lemma state_persist: "eng_persist env r g = (g', r', e) \<Longrightarrow> run_Steps r' = run_Steps r"
  by (drule eng_persist_eqs(1)) simp

text \<open>What one dispatch with its retries does to the run and the trace.\<close>

lemma dispatch_tries_spec:
  assumes "dispatch_tries env s idx attempt left r g = (g', r', e)"
    and "idx < length (run_Steps r)"
  shows "grows (\<lambda>i s' r''. i = idx \<and> s' = s \<and> same_except idx r r'') g g' \<and> same_except idx r r' \<and>
    (\<forall>i. dispatches i (eng_trace g') \<le> dispatches i (eng_trace g) + (if i = idx then left else 0)) \<and>
    (e = None \<longrightarrow> 0 < left \<longrightarrow> sr_State (run_Steps r' ! idx) = StateSucceeded)"
  using assms
proof (induction env s idx attempt left r g rule: dispatch_tries.induct)
  case (1 env s idx attempt r g)
  then show ?case by (auto intro: grows_refl)
next
  case (2 env s idx attempt left r g)
  let ?P = "\<lambda>i s' r''. i = idx \<and> s' = s \<and> same_except idx r r''"
  let ?r1 = "set_step idx (\<lambda>sr. sr\<lparr>sr_State := StateRunning,
               sr_StartedAt := env_now env (eng_ticks g), sr_Error := []\<rparr>) r"
  obtain g2 r2 e2 where p1: "eng_persist env ?r1 (g\<lparr>eng_ticks := Suc (eng_ticks g)\<rparr>) = (g2, r2, e2)"
    by (cases "eng_persist env ?r1 (g\<lparr>eng_ticks := Suc (eng_ticks g)\<rparr>)")
  have same2: "same_except idx r r2"
    using same_except_trans [OF same_except_set same_except_persist [OF p1]] .
  show ?case
  proof (cases e2)
    case (Some err)
    with 2(2) p1 have "g' = g2" "r' = r2" "e \<noteq> None" by (auto simp: Let_def)
    then show ?thesis using same2 eng_persist_grows [OF p1] eng_persist_eqs(3) [OF p1] by (auto simp: grows_def)
  next
    case None
    have tr2: "eng_trace g2 = eng_trace g @ [Persisted r2]" using eng_persist_eqs(2) [OF p1] None by simp
    let ?g3 = "fst (call_dispatch env (Dispatched idx s) s g2)"
    have tr3: "eng_trace ?g3 = eng_trace g @ [Persisted r2, Dispatched idx s]"
      by (simp add: call_dispatch_def tr2)
    have grow3: "grows ?P g g3" if "eng_trace g3 = eng_trace g @ [Persisted r2, Dispatched idx s]" for g3
      unfolding grows_def
    proof (intro exI [of _ "[Persisted r2, Dispatched idx s]"] conjI allI impI that)
      fix pre i s' suf
      assume "[Persisted r2, Dispatched idx s] = pre @ Dispatched i s' # suf"
      then have "pre = [Persisted r2] \<and> i = idx \<and> s' = s"
        by (cases pre) (auto simp: Cons_eq_append_conv)
      then show "pre \<noteq> []" and "\<exists>r. last pre = Persisted r \<and> ?P i s' r" using same2 by auto
    qed
    let ?r3 = "set_step idx (\<lambda>sr. sr\<lparr>sr_CompletedAt := env_now env (eng_ticks ?g3)\<rparr>) r2"
    let ?g4 = "?g3\<lparr>eng_ticks := Suc (eng_ticks ?g3)\<rparr>"
    have grow4: "grows ?P g ?g4" by (rule grow3) (simp add: tr3)
    have same3: "same_except idx r ?r3" by (rule same_except_trans [OF same2 same_except_set])
    have len3: "idx < length (run_Steps ?r3)" using 2(3) same3 by (simp add: same_except_def)
    show ?thesis
    proof (cases "snd (call_dispatch env (Dispatched idx s) s g2)")
      case (Inr jobID)
      let ?r4 = "set_step idx (\<lambda>sr. sr\<lparr>sr_JobID := jobID, sr_State := StateSucceeded\<rparr>) ?r3"
      from 2(2) p1 None Inr have p: "eng_persist env ?r4 ?g4 = (g', r', e)"
        by (simp add: Let_def split_beta)
      have "same_except idx r r'"
        using same_except_trans [OF same_except_trans [OF same3 same_except_set] same_except_persist [OF p]] .
      moreover have "sr_State (run_Steps r' ! idx) = StateSucceeded"
        using state_persist [OF p] state_set_step [OF len3] by simp
      moreover have "dispatches i (eng_trace g') = dispatches i (eng_trace g) + (if i = idx then 1 else 0)" for i
        using eng_persist_eqs(3) [OF p] tr3 by simp
      ultimately show ?thesis
        using grows_trans [OF grow4 eng_persist_grows [OF p]] by auto
    next
      case (Inl err)
      let ?r4 = "set_step idx (\<lambda>sr. sr\<lparr>sr_State := StateFailed, sr_Error := err, sr_Retries := Suc attempt\<rparr>) ?r3"
      let ?r5 = "if 0 < left then set_step idx (\<lambda>sr. sr\<lparr>sr_State := StatePending\<rparr>) ?r4 else ?r4"
      obtain g5 r6 e6 where p: "eng_persist env ?r5 ?g4 = (g5, r6, e6)" by (cases "eng_persist env ?r5 ?g4")
      have "same_except idx ?r3 ?r5"
        using same_except_trans [OF same_except_set same_except_set] by simp
      then have same6: "same_except idx r r6"
        using same_except_trans [OF same_except_trans [OF same3] same_except_persist [OF p]] by blast
      have count5: "dispatches i (eng_trace g5) = dispatches i (eng_trace g) + (if i = idx then 1 else 0)" for i
        using eng_persist_eqs(3) [OF p] tr3 by simp
      note grow5 = grows_trans [OF grow4 eng_persist_grows [OF p]]
      show ?thesis
      proof (cases "e6 = None \<and> left \<noteq> 0")
        case False
        with 2(2) p1 None Inl p have "g' = g5" "r' = r6" "e \<noteq> None"
          by (auto simp: Let_def split_beta split: option.splits if_splits)
        then show ?thesis using same6 count5 grow5 by auto
      next
        case True
        with 2(2) p1 None Inl p have rest: "dispatch_tries env s idx (Suc attempt) left r6 g5 = (g', r', e)"
          by (simp add: Let_def split_beta)
        have IH: "grows (\<lambda>i s' r''. i = idx \<and> s' = s \<and> same_except idx r6 r'') g5 g' \<and> same_except idx r6 r' \<and>
            (\<forall>i. dispatches i (eng_trace g') \<le> dispatches i (eng_trace g5) + (if i = idx then left else 0)) \<and>
            (e = None \<longrightarrow> 0 < left \<longrightarrow> sr_State (run_Steps r' ! idx) = StateSucceeded)"
          by (rule "2.IH" [OF refl p1 [symmetric] refl None _ refl refl Inl refl refl p [symmetric] refl _ _ rest])
            (use True same6 2(3) in \<open>auto simp: same_except_def call_dispatch_def\<close>)
        then have "grows ?P g5 g'" using same_except_trans [OF same6] by (auto elim: grows_mono)
        moreover have "dispatches i (eng_trace g') \<le> dispatches i (eng_trace g) + (if i = idx then Suc left else 0)" for i
          using IH count5 [of i] by (auto dest!: spec [of _ i] split: if_splits)
        ultimately show ?thesis
          using IH grows_trans [OF grow5] same_except_trans [OF same6] True by auto
      qed
    qed
  qed
qed

subsection \<open>The loop\<close>

text \<open>
  A step the run may build on: it succeeded, or the definition says to go on without it, or it is one that the
  loop of tries skips without an error, because \<open>MaxRetries + 1\<close> is beyond the 64-bit range.
\<close>

definition never_tried :: "step \<Rightarrow> bool" where
  "never_tried s = (wrap64 (step_MaxRetries s + 1) \<le> 0)"

text \<open>That is the largest value of Go's \<open>int\<close>, and no other that passes the validation.\<close>

lemma never_tried_iff:
  assumes "0 \<le> step_MaxRetries s" "step_MaxRetries s < 2 ^ 63"
  shows "never_tried s \<longleftrightarrow> step_MaxRetries s = 2 ^ 63 - 1"
  using assms by (cases "step_MaxRetries s = 2 ^ 63 - 1") (simp_all add: never_tried_def wrap64_def)

definition settled :: "definition_rec \<Rightarrow> run \<Rightarrow> nat \<Rightarrow> bool" where
  "settled d r j =
     (step_ContinueOnError (def_Steps d ! j) \<or> sr_State (run_Steps r ! j) = StateSucceeded \<or> never_tried (def_Steps d ! j))"

lemma settled_simps [simp]:
  "settled d (next_step r) j = settled d r j" "settled d (r\<lparr>run_State := st\<rparr>) j = settled d r j"
  by (simp_all add: settled_def next_step_def)

lemma settled_same: "same_except idx r r1 \<Longrightarrow> j \<noteq> idx \<Longrightarrow> settled d r1 j = settled d r j"
  by (simp add: settled_def same_except_def)

definition dispatch_ok :: "definition_rec \<Rightarrow> nat \<Rightarrow> step \<Rightarrow> run \<Rightarrow> bool" where
  "dispatch_ok d i s r =
     (i < length (def_Steps d) \<and> s = def_Steps d ! i \<and> (\<forall>j. depends (def_Steps d) i j \<longrightarrow> settled d r j))"

text \<open>What the loop has done when \<open>past\<close> is the part of the order before it.\<close>

definition loop_inv :: "definition_rec \<Rightarrow> nat list \<Rightarrow> nat list \<Rightarrow> run \<Rightarrow> bool" where
  "loop_inv d past rest r =
     (topoSort (def_Steps d) = Inr (past @ rest) \<and> length (run_Steps r) = length (def_Steps d) \<and>
      run_CurrentStep r = length past \<and> (\<forall>j \<in> set past. settled d r j))"

definition tries :: "definition_rec \<Rightarrow> nat \<Rightarrow> nat" where
  "tries d i = nat (wrap64 (step_MaxRetries (def_Steps d ! i) + 1))"

definition loop_post :: "definition_rec \<Rightarrow> nat list \<Rightarrow> engine \<Rightarrow> engine \<Rightarrow> run \<Rightarrow> wf_error option \<Rightarrow> bool" where
  "loop_post d rest g g' r' e =
     (grows (dispatch_ok d) g g' \<and>
      (\<forall>i. dispatches i (eng_trace g') \<le>
             dispatches i (eng_trace g) + (if i \<in> set rest then tries d i else 0)) \<and>
      (\<exists>past' rest'. loop_inv d past' rest' r') \<and>
      (e = None \<longrightarrow> stored_as r' (eng_store g') \<and>
         (run_State r' = StateFailed \<or>
          run_State r' = StateSucceeded \<and> (\<forall>j < length (def_Steps d). settled d r' j))))"

lemma loop_inv_nodup:
  assumes "loop_inv d past (idx # rest) r"
  shows "idx \<notin> set past" and "idx \<notin> set rest" and "idx < length (def_Steps d)"
    and "depends (def_Steps d) idx j \<Longrightarrow> j \<in> set past \<and> j \<noteq> idx"
proof -
  from assms have ord: "topoSort (def_Steps d) = Inr (past @ idx # rest)" by (simp add: loop_inv_def)
  note o = topoSort_order [OF ord]
  show "idx \<notin> set past" "idx \<notin> set rest" using o(1) by auto
  show "idx < length (def_Steps d)" using o(2) by auto
  assume "depends (def_Steps d) idx j"
  with o(3) [of "length past" j] obtain l where "l < length past" "(past @ idx # rest) ! l = j" by auto
  then have "j \<in> set past" by (auto simp: nth_append in_set_conv_nth)
  with \<open>idx \<notin> set past\<close> show "j \<in> set past \<and> j \<noteq> idx" by auto
qed

text \<open>Going on after a step leaves the invariant for the rest.\<close>

lemma loop_inv_next:
  assumes inv: "loop_inv d past (idx # rest) r" and same: "same_except idx r r1"
    and settled: "settled d r1 idx"
  shows "loop_inv d (past @ [idx]) rest (next_step r1)"
proof -
  have "settled d r1 j" if "j \<in> set past" for j
  proof -
    have "j \<noteq> idx" using that loop_inv_nodup(1) [OF inv] by auto
    with that inv settled_same [OF same] show ?thesis by (simp add: loop_inv_def)
  qed
  moreover have "length (run_Steps (next_step r1)) = length (run_Steps r)"
    "run_CurrentStep (next_step r1) = Suc (run_CurrentStep r)"
    using same by (simp_all add: same_except_def next_step_def)
  ultimately show ?thesis using inv settled by (simp add: loop_inv_def)
qed

lemma loop_inv_persist:
  "eng_persist env r g = (g', r', e) \<Longrightarrow> loop_inv d past rest r' = loop_inv d past rest r"
  by (drule eng_persist_eqs(1)) (simp add: loop_inv_def settled_def)

lemma loop_inv_stop:
  assumes inv: "loop_inv d past (idx # rest) r" and same: "same_except idx r r1"
  shows "loop_inv d past (idx # rest) (r1\<lparr>run_State := st\<rparr>)"
proof -
  have "settled d r1 j" if "j \<in> set past" for j
  proof -
    have "j \<noteq> idx" using that loop_inv_nodup(1) [OF inv] by auto
    with that inv settled_same [OF same] show ?thesis by (simp add: loop_inv_def)
  qed
  moreover have "length (run_Steps r1) = length (run_Steps r)" "run_CurrentStep r1 = run_CurrentStep r"
    using same by (simp_all add: same_except_def)
  ultimately show ?thesis using inv by (simp add: loop_inv_def)
qed

text \<open>The exit that marks the run failed, after a trace that is already fine.\<close>

lemma loop_post_fail:
  assumes p: "eng_persist env (r\<lparr>run_State := StateFailed\<rparr>) g1 = (g', r', e)"
    and grow: "grows (dispatch_ok d) g g1"
    and count: "\<And>i. dispatches i (eng_trace g1) \<le>
        dispatches i (eng_trace g) + (if i \<in> set rest then tries d i else 0)"
    and inv: "loop_inv d past' rest' (r\<lparr>run_State := StateFailed\<rparr>)"
  shows "loop_post d rest g g' r' e"
  unfolding loop_post_def
  using grows_trans [OF grow eng_persist_grows [OF p]] count eng_persist_eqs [OF p]
    loop_inv_persist [OF p] inv eng_persist_stored [of env _ g1 g' r'] p
  by auto

text \<open>Going on: write the run and run the rest.\<close>

lemma loop_post_next:
  assumes run: "(case eng_persist env (next_step r1) g1 of
        (g2, r2, Some e) \<Rightarrow> (g2, r2, Some e)
      | (g2, r2, None) \<Rightarrow> advance_loop env d rest r2 g2) = (g', r', e)"
    and IH: "\<And>r2 g2 g' r' e. advance_loop env d rest r2 g2 = (g', r', e) \<Longrightarrow>
        loop_inv d (past @ [idx]) rest r2 \<Longrightarrow> loop_post d rest g2 g' r' e"
    and grow: "grows (dispatch_ok d) g g1"
    and count: "\<And>i. dispatches i (eng_trace g1) \<le>
        dispatches i (eng_trace g) + (if i = idx then tries d i else 0)"
    and inv: "loop_inv d (past @ [idx]) rest (next_step r1)"
    and new: "idx \<notin> set rest"
  shows "loop_post d (idx # rest) g g' r' e"
proof -
  obtain g2 r2 e2 where p: "eng_persist env (next_step r1) g1 = (g2, r2, e2)"
    by (cases "eng_persist env (next_step r1) g1")
  have inv2: "loop_inv d (past @ [idx]) rest r2" using loop_inv_persist [OF p] inv by simp
  note tr2 = eng_persist_eqs(3) [OF p]
  note grow2 = grows_trans [OF grow eng_persist_grows [OF p]]
  show ?thesis
  proof (cases e2)
    case (Some err)
    with run p have "g' = g2" "r' = r2" "e = Some err" by simp_all
    moreover have "dispatches i (eng_trace g2) \<le>
        dispatches i (eng_trace g) + (if i \<in> set (idx # rest) then tries d i else 0)" for i
      using count [of i] tr2 by (auto split: if_splits)
    ultimately show ?thesis using grow2 inv2 unfolding loop_post_def by blast
  next
    case None
    with run p have "advance_loop env d rest r2 g2 = (g', r', e)" by simp
    from IH [OF this inv2] have post: "loop_post d rest g2 g' r' e" .
    have "dispatches i (eng_trace g') \<le>
        dispatches i (eng_trace g) + (if i \<in> set (idx # rest) then tries d i else 0)" for i
    proof -
      have "dispatches i (eng_trace g') \<le>
          dispatches i (eng_trace g1) + (if i \<in> set rest then tries d i else 0)"
        using post tr2 by (auto simp: loop_post_def)
      then show ?thesis using count [of i] new by (auto split: if_splits)
    qed
    then show ?thesis
      using post grows_trans [OF grow2] unfolding loop_post_def by blast
  qed
qed

lemma advance_loop_spec:
  "advance_loop env d rest r g = (g', r', e) \<Longrightarrow> loop_inv d past rest r \<Longrightarrow> loop_post d rest g g' r' e"
proof (induction rest arbitrary: r g g' r' e past)
  case Nil
  then have p: "eng_persist env (r\<lparr>run_State := StateSucceeded\<rparr>) g = (g', r', e)" by simp
  have "set past = {..<length (def_Steps d)}"
    using Nil(2) topoSort_order(2) by (fastforce simp: loop_inv_def)
  then have all: "\<forall>j < length (def_Steps d). settled d r j"
    using Nil(2) by (auto simp: loop_inv_def)
  then have "\<forall>j < length (def_Steps d). settled d r' j"
    using state_persist [OF p] by (simp add: settled_def)
  moreover have "loop_inv d past [] (r\<lparr>run_State := StateSucceeded\<rparr>)"
    using Nil(2) by (simp add: loop_inv_def)
  then have "loop_inv d past [] r'" using loop_inv_persist [OF p] by simp
  ultimately show ?case
    using eng_persist_grows [OF p] eng_persist_eqs [OF p] eng_persist_stored p
    unfolding loop_post_def by auto
next
  case (Cons idx rest)
  let ?s = "def_Steps d ! idx"
  note inv = Cons.prems(2)
  note nodup = loop_inv_nodup [OF inv]
  have idx: "idx < length (run_Steps r)" using nodup(3) inv by (simp add: loop_inv_def)
  have IH: "loop_post d rest g2 g' r' e"
    if "advance_loop env d rest r2 g2 = (g', r', e)" "loop_inv d (past @ [idx]) rest r2" for r2 g2 g' r' e
    by (rule Cons.IH [OF that])
  show ?case
  proof (cases "sr_State (run_Steps r ! idx) = StateSucceeded")
    case True
    have "loop_inv d (past @ [idx]) rest (next_step r)"
      by (rule loop_inv_next [OF inv same_except_refl]) (simp add: settled_def True)
    with True Cons.prems(1) IH have post: "loop_post d rest g g' r' e" by simp
    have "dispatches i (eng_trace g') \<le>
        dispatches i (eng_trace g) + (if i \<in> set (idx # rest) then tries d i else 0)" for i
    proof -
      have "dispatches i (eng_trace g') \<le>
          dispatches i (eng_trace g) + (if i \<in> set rest then tries d i else 0)"
        using post by (simp add: loop_post_def)
      then show ?thesis by (auto split: if_splits)
    qed
    with post show ?thesis unfolding loop_post_def by blast
  next
    case todo: False
    let ?when = "if step_When ?s = [] then Inr True else evalWhen env (step_When ?s) r d"
    show ?thesis
    proof (cases ?when)
      case (Inl celErr)
      let ?r1 = "set_step idx (\<lambda>sr. sr\<lparr>sr_State := StateFailed, sr_Error := celErr\<rparr>) r"
      show ?thesis
      proof (cases "step_ContinueOnError ?s")
        case True
        show ?thesis
        proof (rule loop_post_next [where past = past, OF _ _ grows_refl [OF refl] _ _ nodup(2)])
          show "\<And>r2 g2 g' r' e. advance_loop env d rest r2 g2 = (g', r', e) \<Longrightarrow>
              loop_inv d (past @ [idx]) rest r2 \<Longrightarrow> loop_post d rest g2 g' r' e" by (rule IH)
          show "(case eng_persist env (next_step ?r1) g of
              (g2, r2, Some e) \<Rightarrow> (g2, r2, Some e)
            | (g2, r2, None) \<Rightarrow> advance_loop env d rest r2 g2) = (g', r', e)"
            using Cons.prems(1) todo Inl True by (simp add: Let_def)
          show "loop_inv d (past @ [idx]) rest (next_step ?r1)"
            by (rule loop_inv_next [OF inv same_except_set]) (simp add: settled_def True)
        qed simp
      next
        case False
        show ?thesis
        proof (rule loop_post_fail [OF _ grows_refl [OF refl]])
          show "eng_persist env (?r1\<lparr>run_State := StateFailed\<rparr>) g = (g', r', e)"
            using Cons.prems(1) todo Inl False by (simp add: Let_def)
          show "loop_inv d past (idx # rest) (?r1\<lparr>run_State := StateFailed\<rparr>)"
            by (rule loop_inv_stop [OF inv same_except_set])
        qed simp
      qed
    next
      case (Inr go)
      show ?thesis
      proof (cases go)
        case False
        let ?r1 = "set_step idx (\<lambda>sr. sr\<lparr>sr_State := StateSucceeded\<rparr>) r"
        show ?thesis
        proof (rule loop_post_next [where past = past, OF _ _ grows_refl [OF refl] _ _ nodup(2)])
          show "\<And>r2 g2 g' r' e. advance_loop env d rest r2 g2 = (g', r', e) \<Longrightarrow>
              loop_inv d (past @ [idx]) rest r2 \<Longrightarrow> loop_post d rest g2 g' r' e" by (rule IH)
          show "(case eng_persist env (next_step ?r1) g of
              (g2, r2, Some e) \<Rightarrow> (g2, r2, Some e)
            | (g2, r2, None) \<Rightarrow> advance_loop env d rest r2 g2) = (g', r', e)"
            using Cons.prems(1) todo Inr False by (simp add: Let_def)
          show "loop_inv d (past @ [idx]) rest (next_step ?r1)"
            by (rule loop_inv_next [OF inv same_except_set]) (simp add: settled_def state_set_step [OF idx])
        qed simp
      next
        case True
        obtain g1 r1 e1 where run: "dispatchWithRetries env ?s idx r g = (g1, r1, e1)"
          by (cases "dispatchWithRetries env ?s idx r g")
        note spec = dispatch_tries_spec [OF run [unfolded dispatchWithRetries_def] idx]
        have "dispatch_ok d idx ?s r''" if "same_except idx r r''" for r''
          using that nodup(3,4) inv
          by (auto simp: dispatch_ok_def loop_inv_def settled_def same_except_def)
        then have grow: "grows (dispatch_ok d) g g1" using spec by (auto elim: grows_mono)
        have all: "\<forall>i. dispatches i (eng_trace g1) \<le> dispatches i (eng_trace g) +
            (if i = idx then nat (wrap64 (step_MaxRetries ?s + 1)) else 0)" using spec by blast
        have count: "dispatches i (eng_trace g1) \<le> dispatches i (eng_trace g) + (if i = idx then tries d i else 0)" for i
          using all [rule_format, of i] by (cases "i = idx") (simp_all add: tries_def)
        have same: "same_except idx r r1" using spec by blast
        show ?thesis
        proof (cases "e1 = None \<or> step_ContinueOnError ?s")
          case go_on: True
          show ?thesis
          proof (rule loop_post_next [where past = past, OF _ _ grow count _ nodup(2)])
            show "\<And>r2 g2 g' r' e. advance_loop env d rest r2 g2 = (g', r', e) \<Longrightarrow>
              loop_inv d (past @ [idx]) rest r2 \<Longrightarrow> loop_post d rest g2 g' r' e" by (rule IH)
            show "(case eng_persist env (next_step r1) g1 of
                (g2, r2, Some e) \<Rightarrow> (g2, r2, Some e)
              | (g2, r2, None) \<Rightarrow> advance_loop env d rest r2 g2) = (g', r', e)"
              using Cons.prems(1) todo Inr True run go_on by (auto simp: Let_def split: option.splits)
            show "loop_inv d (past @ [idx]) rest (next_step r1)"
            proof (rule loop_inv_next [OF inv same])
              show "settled d r1 idx"
              proof (cases "step_ContinueOnError ?s")
                case False
                with go_on have "e1 = None" by simp
                then show ?thesis using spec by (auto simp: settled_def never_tried_def)
              qed (simp add: settled_def)
            qed
          qed
        next
          case stop: False
          let ?g2 = "case step_Compensation ?s of None \<Rightarrow> g1
                     | Some undo \<Rightarrow> fst (call_dispatch env (Compensated undo) undo g1)"
          have "grows (dispatch_ok d) g1 ?g2"
            by (auto simp: call_dispatch_def intro: grows_refl grows_one split: option.split)
          then have grow2: "grows (dispatch_ok d) g ?g2" by (rule grows_trans [OF grow])
          have count2: "dispatches i (eng_trace ?g2) = dispatches i (eng_trace g1)" for i
            by (simp add: call_dispatch_def split: option.split)
          show ?thesis
          proof (rule loop_post_fail [OF _ grow2])
            show "eng_persist env (r1\<lparr>run_State := StateFailed\<rparr>) ?g2 = (g', r', e)"
              using Cons.prems(1) todo Inr True run stop by (auto simp: Let_def split: option.splits)
            show "dispatches i (eng_trace ?g2) \<le>
                dispatches i (eng_trace g) + (if i \<in> set (idx # rest) then tries d i else 0)" for i
              using count [of i] unfolding count2 by (auto split: if_splits)
            show "loop_inv d past (idx # rest) (r1\<lparr>run_State := StateFailed\<rparr>)"
              by (rule loop_inv_stop [OF inv same])
          qed
        qed
      qed
    qed
  qed
qed

subsection \<open>Advance\<close>

text \<open>A run as the engine writes it: fresh, or with every step before the current one settled.\<close>

definition resumable :: "definition_rec \<Rightarrow> run \<Rightarrow> bool" where
  "resumable d r =
     (if run_Steps r = [] then run_CurrentStep r = 0
      else run_CurrentStep r \<le> length (def_Steps d) \<and>
        (case topoSort (def_Steps d) of
           Inl _ \<Rightarrow> True
         | Inr order \<Rightarrow> list_all (settled d r) (take (run_CurrentStep r) order)))"

lemma Advance_cases:
  assumes run: "Advance env r g = (g', r', e)"
    and d: "GetDefinition (run_TenantID r) (run_AppID r) (run_DefinitionID r) (eng_store g) = Inr (Some d)"
    and valid: "validateDefinition d = None" and res: "resumable d r"
  obtains (refused) "g' = g" "e \<noteq> None"
  | (unsaved) "grows (dispatch_ok d) g g'" "e \<noteq> None" "\<And>i. dispatches i (eng_trace g') = dispatches i (eng_trace g)"
      "\<exists>past rest. loop_inv d past rest r'"
  | (ran) g2 rest where "grows (dispatch_ok d) g g2" "\<And>i. dispatches i (eng_trace g2) = dispatches i (eng_trace g)"
      "loop_post d rest g2 g' r' e"
proof (cases "validateRun r = None \<and> \<not> TerminalState (run_State r) \<and> (\<exists>order. topoSort (def_Steps d) = Inr order)")
  case False
  then consider err where "validateRun r = Some err" | "validateRun r = None" "TerminalState (run_State r)"
    | err where "validateRun r = None" "\<not> TerminalState (run_State r)" "topoSort (def_Steps d) = Inl err"
    by (cases "validateRun r"; cases "topoSort (def_Steps d)") auto
  then have "\<exists>err. Advance env r g = (g, r, Some err)"
    by cases (use d in \<open>auto simp: Advance_def\<close>)
  then show ?thesis using run by (intro refused) auto
next
  case True
  then obtain order where ord: "topoSort (def_Steps d) = Inr order" by blast
  note live = True
  let ?r1 = "if run_Steps r = [] then r\<lparr>run_Steps := NewStepRuns d\<rparr> else r"
  show ?thesis
  proof (cases "map sr_StepID (run_Steps ?r1) = map step_ID (def_Steps d)")
    case bad: False
    then have "\<exists>err. Advance env r g = (g, ?r1, Some err)"
      using d live ord by (auto simp: Advance_def Let_def)
    then show ?thesis using run by (intro refused) auto
  next
    case ids: True
    then have len: "length (run_Steps ?r1) = length (def_Steps d)" by (metis length_map)
    obtain g2 r2 e2 where p: "eng_persist env (?r1\<lparr>run_State := StateRunning\<rparr>) g = (g2, r2, e2)"
      by (cases "eng_persist env (?r1\<lparr>run_State := StateRunning\<rparr>) g")
    note eqs = eng_persist_eqs [OF p]
    let ?k = "run_CurrentStep r"
    have cur: "run_CurrentStep r2 = ?k" "run_Steps r2 = run_Steps ?r1" by (simp_all add: eqs(1))
    have "length order = length (def_Steps d)"
      using topoSort_order(1,2) [OF ord] by (metis card_lessThan distinct_card)
    moreover have "?k \<le> length (def_Steps d)" using res by (auto simp: resumable_def split: if_splits)
    moreover have "settled d r2 j" if "j \<in> set (take ?k order)" for j
    proof (cases "run_Steps r = []")
      case True
      with res that show ?thesis by (simp add: resumable_def)
    next
      case False
      with res ord that have "settled d r j" by (auto simp: resumable_def list_all_iff)
      with False cur show ?thesis by (simp add: settled_def)
    qed
    ultimately have inv: "loop_inv d (take ?k order) (drop ?k order) r2"
      using ord len cur
      by (auto simp: loop_inv_def validateDefinition_def split: option.splits if_splits)
    have grow: "grows (dispatch_ok d) g g2" by (rule eng_persist_grows [OF p])
    have count: "dispatches i (eng_trace g2) = dispatches i (eng_trace g)" for i by (rule eqs(3))
    show ?thesis
    proof (cases e2)
      case (Some err)
      have "g' = g2" "r' = r2" "e = Some err"
        using run d live ord ids len p Some by (auto simp: Advance_def Let_def)
      with grow count inv show ?thesis by (intro unsaved) auto
    next
      case None
      have "advance_loop env d (drop ?k order) r2 g2 = (g', r', e)"
        using run d live ord ids len p None cur by (auto simp: Advance_def Let_def)
      from advance_loop_spec [OF this inv] show ?thesis by (rule ran [OF grow count])
    qed
  qed
qed

lemma loop_inv_resumable:
  "loop_inv d past rest r \<Longrightarrow> def_Steps d \<noteq> [] \<Longrightarrow> resumable d r"
proof -
  assume inv: "loop_inv d past rest r" and ne: "def_Steps d \<noteq> []"
  then have ord: "topoSort (def_Steps d) = Inr (past @ rest)" by (simp add: loop_inv_def)
  have "length (past @ rest) = length (def_Steps d)"
    using topoSort_order(1,2) [OF ord] by (metis card_lessThan distinct_card)
  with inv ne ord show ?thesis by (auto simp: loop_inv_def resumable_def list_all_iff)
qed

lemma valid_def_steps: "validateDefinition d = None \<Longrightarrow> def_Steps d \<noteq> []"
  by (auto simp: validateDefinition_def split: option.splits if_splits)

text \<open>C28. No step runs before what it depends on: whenever \<open>Advance\<close> hands a step to the dispatch
  callback, the write to the store just before it was taken and shows every dependency of that step either
  succeeded, or marked \<open>ContinueOnError\<close>, or skipped without a try because its \<open>MaxRetries\<close> is the largest
  64-bit integer (\<open>never_tried_iff\<close>; the run then succeeds with the step pending, see
  \<open>largest_retries_skip_the_step\<close>). Whatever the callback, the CEL evaluation and the
  store answer, the run that \<open>Advance\<close> leaves can be resumed with the same guarantee.\<close>

theorem dispatch_after_dependencies:
  assumes "Advance env r g = (g', r', e)"
    and "GetDefinition (run_TenantID r) (run_AppID r) (run_DefinitionID r) (eng_store g) = Inr (Some d)"
    and "validateDefinition d = None" and "resumable d r"
    and "eng_trace g' = eng_trace g @ pre @ Dispatched i s # suf"
  shows "pre \<noteq> [] \<and> i < length (def_Steps d) \<and> s = def_Steps d ! i \<and>
         (\<exists>q. last pre = Persisted q \<and>
            (\<forall>j. depends (def_Steps d) i j \<longrightarrow>
               step_ContinueOnError (def_Steps d ! j) \<or> sr_State (run_Steps q ! j) = StateSucceeded \<or> never_tried (def_Steps d ! j))) \<and>
         resumable d r'"
proof -
  have "grows (dispatch_ok d) g g' \<and> (g' = g \<or> resumable d r')"
    using assms(1-4)
  proof (cases rule: Advance_cases)
    case unsaved
    then show ?thesis using loop_inv_resumable valid_def_steps [OF assms(3)] by blast
  next
    case (ran g2 rest)
    then have "grows (dispatch_ok d) g2 g'" "\<exists>past rest. loop_inv d past rest r'"
      by (auto simp: loop_post_def)
    then show ?thesis
      using grows_trans [OF ran(1)] loop_inv_resumable valid_def_steps [OF assms(3)] by blast
  qed (simp add: grows_refl)
  then have grow: "grows (dispatch_ok d) g g'" and res: "g' = g \<or> resumable d r'" by simp_all
  then obtain new where new: "eng_trace g' = eng_trace g @ new"
    "\<And>pre i s suf. new = pre @ Dispatched i s # suf \<Longrightarrow>
       pre \<noteq> [] \<and> (\<exists>r. last pre = Persisted r \<and> dispatch_ok d i s r)"
    unfolding grows_def by blast
  then have "new = pre @ Dispatched i s # suf" using assms(5) by simp
  from new(2) [OF this] have "pre \<noteq> [] \<and> (\<exists>r. last pre = Persisted r \<and> dispatch_ok d i s r)" .
  moreover have "g' \<noteq> g" using assms(5) by auto
  ultimately show ?thesis using res by (auto simp: dispatch_ok_def settled_def)
qed

definition wit_pair :: "step list" where
  "wit_pair =
    [Step ''a'' ''mock'' ''c'' [] None False [] [] None 0,
     Step ''b'' ''mock'' ''c'' [] None False [] [] None 1]"

definition wit_definition :: definition_rec where
  "wit_definition = \<lparr>def_ID = ''d1'', def_TenantID = ''t'', def_AppID = ''a'', def_Name = ''n'',
     def_Steps = wit_pair, def_CreatedAt = 1\<rparr>"

definition wit_run :: run where
  "wit_run = \<lparr>run_ID = ''r1'', run_DefinitionID = ''d1'', run_TenantID = ''t'', run_AppID = ''a'',
     run_State = StatePending, run_CurrentStep = 0, run_Steps = [], run_IdempotencyKey = [],
     run_CreatedAt = 1, run_UpdatedAt = 1\<rparr>"

definition wit_engine :: engine where
  "wit_engine = \<lparr>eng_store = fst (CreateRun wit_run (fst (CreateDefinition wit_definition
     (wf_new (\<lambda>_. 1) (\<lambda>_. ''x''))))), eng_ticks = 0, eng_calls = 0, eng_trace = []\<rparr>"

definition wit_eng_env :: engine_env where
  "wit_eng_env = \<lparr>env_now = (\<lambda>n. int n + 1),
     env_dispatch = (\<lambda>_ _. Inr ''job''),
     env_cel = (\<lambda>_ _ _. Inr True)\<rparr>"

fun wit_dispatched :: "effect list \<Rightarrow> nat list" where
  "wit_dispatched [] = []"
| "wit_dispatched (Dispatched i s # tr) = (if s = wit_pair ! i then [i] else []) @ wit_dispatched tr"
| "wit_dispatched (_ # tr) = wit_dispatched tr"

lemma wit_dispatched_in: "i \<in> set (wit_dispatched tr) \<Longrightarrow> Dispatched i (wit_pair ! i) \<in> set tr"
  by (induction tr rule: wit_dispatched.induct) (auto split: if_splits)

lemma wit_advance:
  "(\<lambda>(g, r, e). (wit_dispatched (eng_trace g), run_State r, e)) (Advance wit_eng_env wit_run wit_engine)
     = ([0, 1], StateSucceeded, None)"
  "GetDefinition (run_TenantID wit_run) (run_AppID wit_run) (run_DefinitionID wit_run) (eng_store wit_engine)
     = Inr (Some wit_definition)"
  "validateDefinition wit_definition = None" "resumable wit_definition wit_run"
  by code_simp+

lemma dispatch_after_dependencies_witness:
  "\<exists>pre suf. eng_trace (fst (Advance wit_eng_env wit_run wit_engine)) = pre @ Dispatched 1 (wit_pair ! 1) # suf \<and>
     (\<exists>q. last pre = Persisted q \<and> (\<forall>j. depends wit_pair 1 j \<longrightarrow>
        step_ContinueOnError (wit_pair ! j) \<or> sr_State (run_Steps q ! j) = StateSucceeded))"
proof -
  obtain g' r' e where run: "Advance wit_eng_env wit_run wit_engine = (g', r', e)"
    by (cases "Advance wit_eng_env wit_run wit_engine")
  with wit_advance(1) have "1 \<in> set (wit_dispatched (eng_trace g'))" by simp
  then have "Dispatched 1 (wit_pair ! 1) \<in> set (eng_trace g')"
    by (rule wit_dispatched_in)
  then obtain pre suf where tr: "eng_trace g' = pre @ Dispatched 1 (wit_pair ! 1) # suf"
    by (auto simp: in_set_conv_decomp)
  moreover have "eng_trace wit_engine = []" by (simp add: wit_engine_def)
  moreover have "\<not> never_tried (wit_pair ! j)" if "depends wit_pair 1 j" for j
    using that by (auto simp: depends_def wit_pair_def never_tried_iff less_Suc_eq)
  ultimately show ?thesis
    using dispatch_after_dependencies [OF run wit_advance(2-4), of pre 1 "wit_pair ! 1" suf] run
    by (auto simp: wit_definition_def)
qed

text \<open>C29. An advance ends with a stored verdict after a bounded number of dispatches: every step is
  dispatched at most \<open>MaxRetries + 1\<close> times, a 64-bit sum; and when \<open>Advance\<close> reports no error, the run is
  stored either failed or succeeded, succeeded only if every step succeeded or may be
  continued without, or is one of those skipped without a try because their \<open>MaxRetries\<close> is the largest 64-bit
  integer.\<close>

theorem advance_is_bounded_and_final:
  assumes "Advance env r g = (g', r', e)"
    and "GetDefinition (run_TenantID r) (run_AppID r) (run_DefinitionID r) (eng_store g) = Inr (Some d)"
    and "validateDefinition d = None" and "resumable d r"
  shows "dispatches i (eng_trace g') \<le>
           dispatches i (eng_trace g) + nat (wrap64 (step_MaxRetries (def_Steps d ! i) + 1)) \<and>
         (e = None \<longrightarrow> stored_as r' (eng_store g') \<and>
            (run_State r' = StateFailed \<or>
             run_State r' = StateSucceeded \<and>
               (\<forall>j < length (def_Steps d). step_ContinueOnError (def_Steps d ! j) \<or>
                  sr_State (run_Steps r' ! j) = StateSucceeded \<or> never_tried (def_Steps d ! j))))"
  using assms
proof (cases rule: Advance_cases)
  case (ran g2 rest)
  have "dispatches i (eng_trace g') \<le> dispatches i (eng_trace g2) + (if i \<in> set rest then tries d i else 0)"
    using ran(3) by (simp add: loop_post_def)
  then have "dispatches i (eng_trace g') \<le> dispatches i (eng_trace g) + tries d i"
    using ran(2) by (auto split: if_splits)
  then show ?thesis using ran(3) by (auto simp: loop_post_def settled_def tries_def)
qed auto

lemma advance_is_bounded_and_final_witness:
  "dispatches 1 (eng_trace (fst (Advance wit_eng_env wit_run wit_engine))) \<le> 2 \<and>
   stored_as (fst (snd (Advance wit_eng_env wit_run wit_engine)))
     (eng_store (fst (Advance wit_eng_env wit_run wit_engine)))"
proof -
  obtain g' r' where run: "Advance wit_eng_env wit_run wit_engine = (g', r', None)"
    using wit_advance(1) by (cases "Advance wit_eng_env wit_run wit_engine") auto
  have "eng_trace wit_engine = []" "step_MaxRetries (def_Steps wit_definition ! 1) = 1"
    by (simp_all add: wit_engine_def wit_definition_def wit_pair_def)
  with advance_is_bounded_and_final [OF run wit_advance(2-4), of 1]
  show ?thesis by (simp add: run)
qed

text \<open>
  The exception occurs: with the largest \<open>MaxRetries\<close> the first step is never dispatched, the step that depends
  on it is, and the run is stored as succeeded with the first step pending.
\<close>

definition wit_skipped :: "step list" where
  "wit_skipped =
    [Step ''a'' ''mock'' ''c'' [] None False [] [] None 9223372036854775807,
     Step ''b'' ''mock'' ''c'' [] None False [''a''] [] None 0]"

definition wit_skip_definition :: definition_rec where
  "wit_skip_definition = wit_definition\<lparr>def_Steps := wit_skipped\<rparr>"

lemma largest_retries_skip_the_step:
  "(let g = wit_engine\<lparr>eng_store := fst (CreateRun wit_run (fst (CreateDefinition wit_skip_definition (wf_new (\<lambda>_. 1) (\<lambda>_. ''x'')))))\<rparr>;
        (g', r', e) = Advance wit_eng_env wit_run g in
    validateDefinition wit_skip_definition = None \<and> e = None \<and> run_State r' = StateSucceeded \<and>
    map sr_State (run_Steps r') = [StatePending, StateSucceeded] \<and> eng_calls g' = 1)"
  by code_simp

end
