(* ===== verification/Voice.thy ===== *)
theory Voice
  imports Prelude
begin

text \<open>
  Voice sessions (\<open>voice/voice.go\<close>, \<open>voice/lane.go\<close>): the session record, the fence of a
  node-bound media lease, and every operation of the in-memory store. A session owns two
  exclusive things while it is live, a provider account and a browser environment; a
  terminated session may keep both for a bounded hold.

  \<open>MemoryStore.sessions\<close> is a Go map from ids to records. Here it is the list of its records,
  in the order the code's next \<open>range\<close> loop meets them; Go leaves that order open, so nothing
  below depends on it. Records are updated in place (\<open>vput\<close>).
\<close>

subsection \<open>Records\<close>

datatype vstatus = VQueued | VConnecting | VConnected | VTerminated

fun vs_Active :: "vstatus \<Rightarrow> bool" where
  "vs_Active VTerminated = False"
| "vs_Active _ = True"

fun holdsLease :: "vstatus \<Rightarrow> bool" where
  "holdsLease VConnecting = True"
| "holdsLease VConnected = True"
| "holdsLease _ = False"

abbreviation ModeLive :: string where "ModeLive \<equiv> ''live''"
abbreviation ModeUtterance :: string where "ModeUtterance \<equiv> ''utterance''"

record vsession =
  vs_id :: string
  vs_tenant :: string
  vs_app :: string
  vs_target :: string
  vs_mode :: string
  vs_job :: string
  vs_status :: vstatus
  vs_muted :: bool
  vs_identity :: string
  vs_instance :: string
  vs_error :: string
  vs_created :: gotime
  vs_updated :: gotime
  vs_expires :: gotime
  vs_ended :: gotime
  vs_node :: string
  vs_gen :: u64
  vs_media :: gotime
  vs_hold :: gotime

type_synonym voice_store = "vsession list"

definition TerminatingHoldMax :: dur where
  "TerminatingHoldMax = 45 * second"

definition maxBoundGeneration :: u64 where
  "maxBoundGeneration = 9007199254740991"

datatype voice_error =
  VRequired | VConflict | VNotFound | VQueueFull | VBadBinding | VStaleGeneration | VNodeMismatch

record vfence =
  vf_node :: string
  vf_gen :: u64

definition validNodeID :: "string \<Rightarrow> bool" where
  "validNodeID i = (i \<noteq> [] \<and> length i \<le> 128 \<and> CHR ''|'' \<notin> set i)"

definition vfence_valid :: "vfence \<Rightarrow> bool" where
  "vfence_valid f = (validNodeID (vf_node f) \<and> 0 < vf_gen f \<and> vf_gen f \<le> maxBoundGeneration)"

definition checkFence :: "vsession \<Rightarrow> vfence \<Rightarrow> voice_error option" where
  "checkFence s f =
     (if vs_node s \<noteq> vf_node f then Some VNodeMismatch
      else if vs_gen s \<noteq> vf_gen f then Some VStaleGeneration
      else None)"

definition holdMiss :: "vsession \<Rightarrow> bool \<Rightarrow> vfence \<Rightarrow> voice_error option" where
  "holdMiss s found f =
     (if \<not> found then Some VNotFound
      else case checkFence s f of
        Some e \<Rightarrow> Some e
      | None \<Rightarrow> if vs_status s \<noteq> VTerminated then Some VConflict else None)"

definition visible :: "vsession \<Rightarrow> vsession" where
  "visible s =
     (if vs_status s = VTerminated then s\<lparr>vs_identity := [], vs_instance := []\<rparr> else s)"

record placement =
  pl_identity :: string
  pl_instance :: string

definition pl_clean :: "placement \<Rightarrow> placement \<times> bool" where
  "pl_clean p =
     (let q = \<lparr>pl_identity = trim_space (pl_identity p), pl_instance = trim_space (pl_instance p)\<rparr>
      in (q, pl_identity q \<noteq> [] \<and> pl_instance q \<noteq> []))"

record reserve_req =
  rr_id :: string
  rr_tenant :: string
  rr_app :: string
  rr_target :: string
  rr_mode :: string
  rr_job :: string
  rr_places :: "placement list"
  rr_max_active :: int
  rr_max_queued :: int
  rr_ttl :: dur
  rr_now :: gotime

record claim_req =
  cr_tenant :: string
  cr_id :: string
  cr_places :: "placement list"
  cr_max_active :: int
  cr_ttl :: dur
  cr_now :: gotime

subsection \<open>The store\<close>

definition vfind :: "voice_store \<Rightarrow> string \<Rightarrow> string \<Rightarrow> vsession option" where
  "vfind m tenant i =
     (case find (\<lambda>s. vs_id s = i) m of
        Some s \<Rightarrow> if vs_tenant s = tenant then Some s else None
      | None \<Rightarrow> None)"

definition vput :: "voice_store \<Rightarrow> vsession \<Rightarrow> voice_store" where
  "vput m s' = map (\<lambda>s. if vs_id s = vs_id s' then s' else s) m"

definition leaseKey :: "string \<Rightarrow> string \<Rightarrow> string \<Rightarrow> string" where
  "leaseKey tenant target identity = tenant @ [CHR 0x00] @ target @ [CHR 0x00] @ identity"

definition instanceKey :: "string \<Rightarrow> string" where
  "instanceKey i = ''instance'' @ [CHR 0x00] @ i"

definition reserves_at :: "gotime \<Rightarrow> vsession \<Rightarrow> bool" where
  "reserves_at now s = (\<not> (vs_status s = VTerminated \<and> \<not> now < vs_hold s))"

definition lease_keys :: "vsession \<Rightarrow> string list" where
  "lease_keys s =
     (if vs_identity s \<noteq> [] then [leaseKey (vs_tenant s) (vs_target s) (vs_identity s)] else []) @
     (if vs_instance s \<noteq> [] then [instanceKey (vs_instance s)] else [])"

definition activeIndex :: "voice_store \<Rightarrow> gotime \<Rightarrow> string list" where
  "activeIndex m now = concat (map lease_keys (filter (reserves_at now) m))"

definition placementFree :: "string list \<Rightarrow> string \<Rightarrow> string \<Rightarrow> placement \<Rightarrow> bool" where
  "placementFree active tenant target p =
     (leaseKey tenant target (pl_identity p) \<notin> set active \<and>
      instanceKey (pl_instance p) \<notin> set active)"

fun first_free :: "string list \<Rightarrow> string \<Rightarrow> string \<Rightarrow> placement list \<Rightarrow> placement option" where
  "first_free active tenant target [] = None"
| "first_free active tenant target (p # ps) =
     (let (q, ok) = pl_clean p in
      if \<not> ok \<or> \<not> placementFree active tenant target q then first_free active tenant target ps
      else Some q)"

text \<open>The tenant's live-mode sessions, (leased, queued).\<close>

definition vcounts :: "voice_store \<Rightarrow> string \<Rightarrow> int \<times> int" where
  "vcounts m tenant =
     (let live = filter (\<lambda>s. \<not> (vs_tenant s \<noteq> tenant \<or> vs_mode s = ModeUtterance)) m in
      (int (length (filter (\<lambda>s. holdsLease (vs_status s)) live)),
       int (length (filter (\<lambda>s. vs_status s = VQueued) live))))"

subsection \<open>Admission\<close>

text \<open>
  \<open>Reserve\<close> and \<open>Claim\<close> read the clock only when the request carries no time; \<open>wall\<close> is that
  reading.
\<close>

definition req_now :: "gotime \<Rightarrow> gotime \<Rightarrow> gotime" where
  "req_now wall t = (if IsZero t then wall else t)"

definition new_session :: "gotime \<Rightarrow> reserve_req \<Rightarrow> string \<Rightarrow> placement option \<Rightarrow> vsession" where
  "new_session now r mode place =
     \<lparr>vs_id = rr_id r, vs_tenant = rr_tenant r, vs_app = rr_app r, vs_target = rr_target r,
      vs_mode = mode, vs_job = rr_job r,
      vs_status = (if place = None then VQueued else VConnecting), vs_muted = False,
      vs_identity = (case place of None \<Rightarrow> [] | Some p \<Rightarrow> pl_identity p),
      vs_instance = (case place of None \<Rightarrow> [] | Some p \<Rightarrow> pl_instance p),
      vs_error = [], vs_created = now, vs_updated = now, vs_expires = now + rr_ttl r, vs_ended = 0,
      vs_node = [], vs_gen = 0, vs_media = 0, vs_hold = 0\<rparr>"

definition VoiceReserve ::
  "gotime \<Rightarrow> reserve_req \<Rightarrow> voice_store \<Rightarrow> voice_store \<times> (voice_error + vsession)" where
  "VoiceReserve wall r m =
     (if rr_id r = [] \<or> rr_tenant r = [] \<or> rr_target r = [] then (m, Inl VRequired)
      else let now = req_now wall (rr_now r) in
      if find (\<lambda>s. vs_id s = rr_id r) m \<noteq> None then (m, Inl VConflict)
      else let mode = (if trim_space (rr_mode r) = [] then ModeLive else rr_mode r);
               (leased, queued) = vcounts m (rr_tenant r);
               place = (if mode = ModeLive \<and> (rr_max_active r \<le> 0 \<or> leased < rr_max_active r)
                        then first_free (activeIndex m now) (rr_tenant r) (rr_target r) (rr_places r)
                        else None) in
      if mode = ModeLive \<and> place = None \<and> 0 < rr_max_queued r \<and> rr_max_queued r \<le> queued
      then (m, Inl VQueueFull)
      else let s = new_session now r mode place in (m @ [s], Inr s))"

definition VoiceClaim ::
  "gotime \<Rightarrow> claim_req \<Rightarrow> voice_store \<Rightarrow> voice_store \<times> (voice_error + vsession)" where
  "VoiceClaim wall r m =
     (let now = req_now wall (cr_now r) in
      case vfind m (cr_tenant r) (cr_id r) of
        None \<Rightarrow> (m, Inl VNotFound)
      | Some s \<Rightarrow>
          if vs_status s \<noteq> VQueued then (m, Inl VConflict)
          else if 0 < cr_max_active r \<and> cr_max_active r \<le> fst (vcounts m (cr_tenant r))
          then (m, Inl VConflict)
          else case first_free (activeIndex m now) (cr_tenant r) (vs_target s) (cr_places r) of
                 None \<Rightarrow> (m, Inl VConflict)
               | Some p \<Rightarrow>
                   let s' = s\<lparr>vs_status := VConnecting, vs_identity := pl_identity p,
                             vs_instance := pl_instance p, vs_expires := now + cr_ttl r,
                             vs_updated := now\<rparr>
                   in (vput m s', Inr s'))"

subsection \<open>Reads\<close>

definition VoiceGet :: "string \<Rightarrow> string \<Rightarrow> voice_store \<Rightarrow> vsession option" where
  "VoiceGet tenant i m = map_option visible (vfind m tenant i)"

text \<open>\<open>sort.Slice\<close> by creation time, newest first; ties come in any order there.\<close>

definition VoiceList :: "string \<Rightarrow> string \<Rightarrow> int \<Rightarrow> voice_store \<Rightarrow> vsession list" where
  "VoiceList tenant target limit m =
     (let out = map visible
            (filter (\<lambda>s. vs_tenant s = tenant \<and> (target \<noteq> [] \<longrightarrow> vs_target s = target)) m);
          out = sort_key (\<lambda>s. - vs_created s) out in
      if 0 < limit \<and> limit < int (length out) then take (nat limit) out else out)"

record lease_holder =
  lh_session :: string
  lh_tenant :: string
  lh_target :: string
  lh_instance :: string
  lh_node :: string

definition ListLeaseHolders :: "gotime \<Rightarrow> voice_store \<Rightarrow> lease_holder list" where
  "ListLeaseHolders now m =
     map (\<lambda>s. \<lparr>lh_session = vs_id s, lh_tenant = vs_tenant s, lh_target = vs_target s,
              lh_instance = vs_instance s, lh_node = vs_node s\<rparr>)
       (filter (\<lambda>s. \<not> (vs_mode s = ModeUtterance \<or> vs_instance s = []) \<and> reserves_at now s) m)"

definition GlobalSessionCounts :: "voice_store \<Rightarrow> int \<times> int" where
  "GlobalSessionCounts m =
     (int (length (filter (\<lambda>s. holdsLease (vs_status s)) m)),
      int (length (filter (\<lambda>s. vs_status s = VQueued) m)))"

definition TenantCounts :: "string \<Rightarrow> voice_store \<Rightarrow> int \<times> int" where
  "TenantCounts tenant m = vcounts m tenant"

subsection \<open>State changes\<close>

definition voice_transition ::
  "string \<Rightarrow> string \<Rightarrow> vfence option \<Rightarrow> vstatus \<Rightarrow> vstatus \<Rightarrow> gotime \<Rightarrow> string \<Rightarrow>
   voice_store \<Rightarrow> voice_store \<times> voice_error option" where
  "voice_transition tenant i fence from to now err m =
     (case vfind m tenant i of
        None \<Rightarrow> (m, Some VNotFound)
      | Some s \<Rightarrow>
          (case (case fence of None \<Rightarrow> None | Some f \<Rightarrow> checkFence s f) of
             Some e \<Rightarrow> (m, Some e)
           | None \<Rightarrow>
               if vs_status s \<noteq> from then (m, Some VConflict)
               else let s' = s\<lparr>vs_status := to, vs_updated := now, vs_error := err\<rparr> in
                 (vput m (if to = VTerminated
                          then s'\<lparr>vs_ended := now, vs_identity := [], vs_instance := []\<rparr>
                          else s'), None)))"

definition VoiceTransition ::
  "string \<Rightarrow> string \<Rightarrow> vstatus \<Rightarrow> vstatus \<Rightarrow> gotime \<Rightarrow> string \<Rightarrow>
   voice_store \<Rightarrow> voice_store \<times> voice_error option" where
  "VoiceTransition tenant i from to now err = voice_transition tenant i None from to now err"

definition CommitTransition ::
  "string \<Rightarrow> string \<Rightarrow> vfence \<Rightarrow> vstatus \<Rightarrow> vstatus \<Rightarrow> gotime \<Rightarrow> string \<Rightarrow>
   voice_store \<Rightarrow> voice_store \<times> voice_error option" where
  "CommitTransition tenant i f from to now err m =
     (if \<not> vfence_valid f then (m, Some VBadBinding)
      else voice_transition tenant i (Some f) from to now err m)"

definition SetMuted ::
  "string \<Rightarrow> string \<Rightarrow> bool \<Rightarrow> gotime \<Rightarrow> voice_store \<Rightarrow> voice_store \<times> voice_error option" where
  "SetMuted tenant i muted now m =
     (case vfind m tenant i of
        None \<Rightarrow> (m, Some VNotFound)
      | Some s \<Rightarrow>
          if vs_status s = VTerminated then (m, Some VConflict)
          else (vput m (s\<lparr>vs_muted := muted, vs_updated := now\<rparr>), None))"

definition CommitMuted ::
  "string \<Rightarrow> string \<Rightarrow> vfence \<Rightarrow> bool \<Rightarrow> gotime \<Rightarrow>
   voice_store \<Rightarrow> voice_store \<times> voice_error option" where
  "CommitMuted tenant i f muted now m =
     (if \<not> vfence_valid f then (m, Some VBadBinding)
      else case vfind m tenant i of
        None \<Rightarrow> (m, Some VNotFound)
      | Some s \<Rightarrow>
          (case checkFence s f of
             Some e \<Rightarrow> (m, Some e)
           | None \<Rightarrow>
               if vs_status s = VTerminated then (m, Some VConflict)
               else (vput m (s\<lparr>vs_muted := muted, vs_updated := now\<rparr>), None)))"

definition ended :: "gotime \<Rightarrow> string \<Rightarrow> vsession \<Rightarrow> vsession" where
  "ended now reason s =
     s\<lparr>vs_status := VTerminated, vs_ended := now, vs_updated := now, vs_error := reason\<rparr>"

definition freed :: "vsession \<Rightarrow> vsession" where
  "freed s = s\<lparr>vs_identity := [], vs_instance := []\<rparr>"

definition Terminate ::
  "string \<Rightarrow> string \<Rightarrow> gotime \<Rightarrow> string \<Rightarrow> voice_store \<Rightarrow> voice_store \<times> voice_error option" where
  "Terminate tenant i now reason m =
     (case vfind m tenant i of
        None \<Rightarrow> (m, Some VNotFound)
      | Some s \<Rightarrow>
          if vs_status s = VTerminated then (m, None)
          else (vput m (freed (ended now reason s)), None))"

definition BeginTerminate ::
  "string \<Rightarrow> string \<Rightarrow> gotime \<Rightarrow> string \<Rightarrow> dur \<Rightarrow>
   voice_store \<Rightarrow> voice_store \<times> voice_error option" where
  "BeginTerminate tenant i now reason hold m =
     (if hold \<le> 0 then Terminate tenant i now reason m
      else let hold = min hold TerminatingHoldMax in
      case vfind m tenant i of
        None \<Rightarrow> (m, Some VNotFound)
      | Some s \<Rightarrow>
          if vs_status s = VTerminated then (m, None)
          else (vput m (if holdsLease (vs_status s)
                        then (ended now reason s)\<lparr>vs_hold := now + hold\<rparr>
                        else freed (ended now reason s)), None))"

definition ReleaseHold ::
  "string \<Rightarrow> string \<Rightarrow> vfence \<Rightarrow> gotime \<Rightarrow> voice_store \<Rightarrow> voice_store \<times> voice_error option" where
  "ReleaseHold tenant i f now m =
     (case vfind m tenant i of
        None \<Rightarrow> (m, Some VNotFound)
      | Some s \<Rightarrow>
          if vs_status s \<noteq> VTerminated \<or> checkFence s f \<noteq> None then (m, holdMiss s True f)
          else (vput m ((freed s)\<lparr>vs_hold := 0, vs_updated := now\<rparr>), None))"

definition BindNode ::
  "string \<Rightarrow> string \<Rightarrow> string \<Rightarrow> dur \<Rightarrow> gotime \<Rightarrow>
   voice_store \<Rightarrow> voice_store \<times> (voice_error + vsession)" where
  "BindNode tenant i node mediaTTL now m =
     (if \<not> validNodeID node \<or> mediaTTL \<le> 0 then (m, Inl VBadBinding)
      else case vfind m tenant i of
        None \<Rightarrow> (m, Inl VNotFound)
      | Some s \<Rightarrow>
          if \<not> holdsLease (vs_status s) \<or> \<not> now < vs_expires s then (m, Inl VConflict)
          else if maxBoundGeneration \<le> vs_gen s then (m, Inl VBadBinding)
          else let s' = s\<lparr>vs_node := node, vs_gen := vs_gen s + 1, vs_media := now + mediaTTL,
                         vs_updated := now\<rparr>
               in (vput m s', Inr s'))"

definition RenewMediaLease ::
  "string \<Rightarrow> string \<Rightarrow> vfence \<Rightarrow> gotime \<Rightarrow> gotime \<Rightarrow>
   voice_store \<Rightarrow> voice_store \<times> voice_error option" where
  "RenewMediaLease tenant i f until now m =
     (if \<not> vfence_valid f then (m, Some VBadBinding)
      else case vfind m tenant i of
        None \<Rightarrow> (m, Some VNotFound)
      | Some s \<Rightarrow>
          (case checkFence s f of
             Some e \<Rightarrow> (m, Some e)
           | None \<Rightarrow>
               if \<not> holdsLease (vs_status s) \<or> \<not> now < vs_media s then (m, Some VConflict)
               else (vput m (s\<lparr>vs_media := until, vs_updated := now\<rparr>), None)))"

definition RenewLease ::
  "string \<Rightarrow> string \<Rightarrow> gotime \<Rightarrow> gotime \<Rightarrow> voice_store \<Rightarrow> voice_store \<times> voice_error option" where
  "RenewLease tenant i until now m =
     (case vfind m tenant i of
        None \<Rightarrow> (m, Some VNotFound)
      | Some s \<Rightarrow>
          if vs_status s = VTerminated \<or> vs_status s = VQueued \<or> \<not> now < vs_expires s
          then (m, Some VConflict)
          else (vput m (s\<lparr>vs_expires := until, vs_updated := now\<rparr>), None))"

text \<open>One turn of the sweep's loop: the record it leaves and whether it was swept.\<close>

definition sweep_one :: "gotime \<Rightarrow> vsession \<Rightarrow> vsession \<times> bool" where
  "sweep_one now s =
     (if vs_status s = VTerminated then
        (if \<not> IsZero (vs_hold s) \<and> \<not> now < vs_hold s then (freed s)\<lparr>vs_hold := 0\<rparr> else s, False)
      else if vs_status s = VQueued then (s, False)
      else if \<not> IsZero (vs_expires s) \<and> now < vs_expires s then
        (if vs_node s = [] \<or> now < vs_media s then (s, False)
         else (freed (ended now ''media_lease_expired'' s), True))
      else (freed (ended now ''lease_expired'' s), True))"

definition VoiceSweepExpired :: "gotime \<Rightarrow> voice_store \<Rightarrow> voice_store \<times> string list" where
  "VoiceSweepExpired now m =
     (map (\<lambda>s. fst (sweep_one now s)) m,
      map vs_id (filter (\<lambda>s. snd (sweep_one now s)) m))"

subsection \<open>The lane probe\<close>

text \<open>
  \<open>LaneProbe.VoiceHoldsLane\<close> asks the topology store for the lanes of a tenant's instances:
  \<open>lanes tenant\<close> is what \<open>instanceLanes\<close> returns (a map, or an error when the topology cannot
  be read). Holders on a Helper Node are passed over; a holder whose lane is unknown counts as
  holding every lane.
\<close>

fun holders_hold_lane ::
  "(string \<Rightarrow> (string \<Rightarrow> string option) option) \<Rightarrow> string \<Rightarrow> lease_holder list \<Rightarrow> bool option" where
  "holders_hold_lane lanes lane [] = Some False"
| "holders_hold_lane lanes lane (h # hs) =
     (if lh_node h \<noteq> [] then holders_hold_lane lanes lane hs
      else case lanes (lh_tenant h) of
        None \<Rightarrow> None
      | Some by_instance \<Rightarrow>
          (case by_instance (lh_instance h) of
             None \<Rightarrow> Some True
           | Some held \<Rightarrow>
               if held = lane then Some True else holders_hold_lane lanes lane hs))"

definition VoiceHoldsLane ::
  "(string \<Rightarrow> (string \<Rightarrow> string option) option) \<Rightarrow> gotime \<Rightarrow> voice_store \<Rightarrow> string \<Rightarrow> bool option" where
  "VoiceHoldsLane lanes now m lane =
     (if lane = [] then Some False else holders_hold_lane lanes lane (ListLeaseHolders now m))"

end
