(* ===== verification/VoiceInv.thy ===== *)
theory VoiceInv
  imports Voice
begin

text \<open>
  The voice store as a machine: one operation at a time (\<open>voice_step\<close>), what every operation
  keeps (ids, lifecycle, fence generations, the bound of a terminating hold) and the exclusion
  of leases, which is read at a time because holds lapse.
\<close>

subsection \<open>Operations\<close>

datatype voice_op =
  VReserve gotime reserve_req
| VClaim gotime claim_req
| VTransition string string vstatus vstatus gotime string
| VCommit string string vfence vstatus vstatus gotime string
| VSetMuted string string bool gotime
| VCommitMuted string string vfence bool gotime
| VTerminate string string gotime string
| VBeginTerminate string string gotime string dur
| VReleaseHold string string vfence gotime
| VBindNode string string string dur gotime
| VRenewMedia string string vfence gotime gotime
| VRenewLease string string gotime gotime
| VSweep gotime

fun voice_step :: "voice_op \<Rightarrow> voice_store \<Rightarrow> voice_store" where
  "voice_step (VReserve w r) m = fst (VoiceReserve w r m)"
| "voice_step (VClaim w r) m = fst (VoiceClaim w r m)"
| "voice_step (VTransition t i from to now e) m = fst (VoiceTransition t i from to now e m)"
| "voice_step (VCommit t i f from to now e) m = fst (CommitTransition t i f from to now e m)"
| "voice_step (VSetMuted t i b now) m = fst (SetMuted t i b now m)"
| "voice_step (VCommitMuted t i f b now) m = fst (CommitMuted t i f b now m)"
| "voice_step (VTerminate t i now e) m = fst (Terminate t i now e m)"
| "voice_step (VBeginTerminate t i now e hold) m = fst (BeginTerminate t i now e hold m)"
| "voice_step (VReleaseHold t i f now) m = fst (ReleaseHold t i f now m)"
| "voice_step (VBindNode t i n ttl now) m = fst (BindNode t i n ttl now m)"
| "voice_step (VRenewMedia t i f until now) m = fst (RenewMediaLease t i f until now m)"
| "voice_step (VRenewLease t i until now) m = fst (RenewLease t i until now m)"
| "voice_step (VSweep now) m = fst (VoiceSweepExpired now m)"

fun voice_clock :: "voice_op \<Rightarrow> gotime" where
  "voice_clock (VReserve w r) = req_now w (rr_now r)"
| "voice_clock (VClaim w r) = req_now w (cr_now r)"
| "voice_clock (VTransition t i from to now e) = now"
| "voice_clock (VCommit t i f from to now e) = now"
| "voice_clock (VSetMuted t i b now) = now"
| "voice_clock (VCommitMuted t i f b now) = now"
| "voice_clock (VTerminate t i now e) = now"
| "voice_clock (VBeginTerminate t i now e hold) = now"
| "voice_clock (VReleaseHold t i f now) = now"
| "voice_clock (VBindNode t i n ttl now) = now"
| "voice_clock (VRenewMedia t i f until now) = now"
| "voice_clock (VRenewLease t i until now) = now"
| "voice_clock (VSweep now) = now"

text \<open>
  \<open>Transition\<close> moves between whatever statuses its caller names. The gateway's callers
  (\<open>httpapi/voice_control.go\<close>, \<open>voice/remote.go\<close>) only go from \<open>connecting\<close> to \<open>connected\<close>;
  allowed here is every transition from a live status that does not put a session back in the
  queue.
\<close>

fun voice_op_ok :: "voice_op \<Rightarrow> bool" where
  "voice_op_ok (VTransition t i from to now e) = (holdsLease from \<and> to \<noteq> VQueued)"
| "voice_op_ok (VCommit t i f from to now e) = (holdsLease from \<and> to \<noteq> VQueued)"
| "voice_op_ok _ = True"

definition voice_run :: "voice_op list \<Rightarrow> voice_store \<Rightarrow> voice_store" where
  "voice_run = fold voice_step"

subsection \<open>Look-up and update\<close>

definition vids_ok :: "voice_store \<Rightarrow> bool" where
  "vids_ok m = distinct (map vs_id m)"

lemma vfind_SomeD:
  "vfind m tenant i = Some s \<Longrightarrow> s \<in> set m \<and> vs_id s = i \<and> vs_tenant s = tenant"
  by (auto simp: vfind_def find_Some_iff split: option.splits if_splits)

lemma vid_unique:
  "vids_ok m \<Longrightarrow> s \<in> set m \<Longrightarrow> s' \<in> set m \<Longrightarrow> vs_id s = vs_id s' \<Longrightarrow> s = s'"
  unfolding vids_ok_def by (metis eq_key_imp_eq_value map_of_is_SomeI distinct_map inj_onD)

lemma vids_vput [simp]: "map vs_id (vput m s) = map vs_id m"
  by (auto simp: vput_def)

lemma vput_length [simp]: "length (vput m s) = length m"
  by (simp add: vput_def)

lemma vput_all2:
  assumes "vids_ok m" "s \<in> set m" "vs_id s' = vs_id s" "R s s'" "\<And>x. R x x"
  shows "list_all2 R m (vput m s')"
proof -
  have "R x (if vs_id x = vs_id s' then s' else x)" if "x \<in> set m" for x
    using assms that vid_unique [of m s x] by auto
  then show ?thesis by (simp add: vput_def list_all2_map2 list_all2_same)
qed

lemma vput_in: "s \<in> set m \<Longrightarrow> vs_id s' = vs_id s \<Longrightarrow> s' \<in> set (vput m s')"
  by (force simp: vput_def)

subsection \<open>Lifecycle\<close>

text \<open>What a later record of a session keeps of an earlier one.\<close>

definition hold_ok :: "vsession \<Rightarrow> bool" where
  "hold_ok s = (vs_hold s = 0 \<or>
     vs_status s = VTerminated \<and> vs_hold s \<le> vs_ended s + TerminatingHoldMax)"

definition gen_ok :: "vsession \<Rightarrow> bool" where
  "gen_ok s = (vs_gen s \<le> maxBoundGeneration)"

definition vlife :: "vsession \<Rightarrow> vsession \<Rightarrow> bool" where
  "vlife s s' =
     (vs_id s' = vs_id s \<and> vs_tenant s' = vs_tenant s \<and> vs_target s' = vs_target s \<and>
      vs_app s' = vs_app s \<and> vs_mode s' = vs_mode s \<and> vs_job s' = vs_job s \<and>
      vs_created s' = vs_created s \<and>
      vs_gen s \<le> vs_gen s' \<and> (vs_gen s' = vs_gen s \<longrightarrow> vs_node s' = vs_node s) \<and>
      (vs_node s' = [] \<longrightarrow> vs_node s = []) \<and>
      (vs_status s = VTerminated \<longrightarrow> vs_status s' = VTerminated \<and> vs_ended s' = vs_ended s \<and>
         vs_gen s' = vs_gen s) \<and>
      (hold_ok s \<longrightarrow> hold_ok s') \<and> (gen_ok s \<longrightarrow> gen_ok s'))"

text \<open>What an operation may do to a session's leases: keep them or give them up.\<close>

definition vkeeps :: "gotime \<Rightarrow> vsession \<Rightarrow> vsession \<Rightarrow> bool" where
  "vkeeps now s s' =
     (reserves_at now s' \<longrightarrow>
        (vs_identity s' = [] \<or> vs_identity s' = vs_identity s \<and> reserves_at now s) \<and>
        (vs_instance s' = [] \<or> vs_instance s' = vs_instance s \<and> reserves_at now s))"

lemma vlife_refl [simp]: "vlife s s"
  by (simp add: vlife_def)

lemma vlife_trans:
  assumes a: "vlife s t" and b: "vlife t u"
  shows "vlife s u"
proof -
  note A = a [unfolded vlife_def] and B = b [unfolded vlife_def]
  have gen: "vs_gen s \<le> vs_gen t" "vs_gen t \<le> vs_gen u" using A B by blast+
  then have "vs_gen s \<le> vs_gen u" by (rule order_trans)
  moreover have "vs_gen u = vs_gen s \<Longrightarrow> vs_gen t = vs_gen s" using gen by simp
  then have "vs_gen u = vs_gen s \<longrightarrow> vs_node u = vs_node s" using A B by metis
  moreover have "vs_node u = [] \<longrightarrow> vs_node s = []" using A B by blast
  moreover have "vs_status s = VTerminated \<longrightarrow> vs_status u = VTerminated \<and> vs_ended u = vs_ended s \<and> vs_gen u = vs_gen s"
    using A B by metis
  moreover have "hold_ok s \<longrightarrow> hold_ok u" "gen_ok s \<longrightarrow> gen_ok u" using A B by blast+
  moreover have "vs_id u = vs_id s" "vs_tenant u = vs_tenant s" "vs_target u = vs_target s"
    "vs_app u = vs_app s" "vs_mode u = vs_mode s" "vs_job u = vs_job s" "vs_created u = vs_created s"
    using A B by metis+
  ultimately show ?thesis unfolding vlife_def by blast
qed

lemma vkeeps_refl [simp]: "vkeeps now s s"
  by (simp add: vkeeps_def)

lemma vgen_next:
  "vs_gen s < maxBoundGeneration \<Longrightarrow> vs_gen s < vs_gen s + 1 \<and> vs_gen s + 1 \<le> maxBoundGeneration"
  unfolding maxBoundGeneration_def by unat_arith auto

text \<open>Every operation other than an admission: records change in place, leases only shrink
  (at any time one looks).\<close>

fun admits :: "voice_op \<Rightarrow> bool" where
  "admits (VReserve w r) = True"
| "admits (VClaim w r) = True"
| "admits _ = False"

definition vstep_rel :: "gotime \<Rightarrow> vsession \<Rightarrow> vsession \<Rightarrow> bool" where
  "vstep_rel now s s' = (vlife s s' \<and> vkeeps now s s' \<and>
     (holdsLease (vs_status s') \<longrightarrow> holdsLease (vs_status s)) \<and>
     (vs_status s' = VQueued \<longrightarrow> vs_status s = VQueued))"

lemma sweep_one_step: "vstep_rel time s (fst (sweep_one now s))"
  by (auto simp: sweep_one_def vstep_rel_def vlife_def vkeeps_def hold_ok_def gen_ok_def freed_def
      ended_def reserves_at_def)

lemma vstep_rel_refl [simp]: "vstep_rel now s s"
  by (simp add: vstep_rel_def)

lemma vput_step:
  assumes "vids_ok m" "vfind m tenant i = Some s" "vs_id s' = vs_id s" "vstep_rel now s s'"
  shows "list_all2 (vstep_rel now) m (vput m s')"
  using assms by (auto intro!: vput_all2 dest: vfind_SomeD)

lemma all2_refl [simp]: "list_all2 (vstep_rel now) m m"
  by (simp add: list_all2_refl)

lemmas vstep_defs =
  vstep_rel_def vlife_def vkeeps_def hold_ok_def gen_ok_def freed_def ended_def reserves_at_def
  maxBoundGeneration_def

lemma quiet_step:
  assumes ids: "vids_ok m" and ok: "voice_op_ok op" and na: "\<not> admits op"
  shows "list_all2 (vstep_rel time) m (voice_step op m)"
proof (cases op)
  case (VTransition t i st st2 now e)
  with ids ok show ?thesis
    by (auto simp: VoiceTransition_def voice_transition_def Let_def vstep_defs
        intro!: vput_step split: option.splits)
next
  case (VCommit t i f st st2 now e)
  with ids ok show ?thesis
    by (auto simp: CommitTransition_def voice_transition_def Let_def vstep_defs
        intro!: vput_step split: option.splits)
next
  case (VSetMuted t i b now)
  with ids show ?thesis
    by (auto simp: SetMuted_def vstep_defs intro!: vput_step split: option.splits)
next
  case (VCommitMuted t i f b now)
  with ids show ?thesis
    by (auto simp: CommitMuted_def vstep_defs intro!: vput_step split: option.splits)
next
  case (VTerminate t i now e)
  with ids show ?thesis
    by (auto simp: Terminate_def vstep_defs intro!: vput_step split: option.splits)
next
  case (VBeginTerminate t i now e hold)
  with ids show ?thesis
    by (auto simp: BeginTerminate_def Terminate_def Let_def vstep_defs
        intro!: vput_step split: option.splits elim: holdsLease.elims)
next
  case (VReleaseHold t i f now)
  with ids show ?thesis
    by (auto simp: ReleaseHold_def vstep_defs intro!: vput_step split: option.splits)
next
  case (VBindNode t i n ttl now)
  have "vstep_rel time s (s\<lparr>vs_node := n, vs_gen := vs_gen s + 1, vs_media := now + ttl,
      vs_updated := now\<rparr>)" if "holdsLease (vs_status s)" "\<not> maxBoundGeneration \<le> vs_gen s"
      "validNodeID n" for s
    using that vgen_next [of s]
    by (auto simp: vstep_rel_def vlife_def vkeeps_def hold_ok_def gen_ok_def reserves_at_def not_le
        validNodeID_def intro: less_imp_le)
  with VBindNode ids show ?thesis
    by (auto simp: BindNode_def Let_def intro!: vput_step split: option.splits)
next
  case (VRenewMedia t i f until now)
  with ids show ?thesis
    by (auto simp: RenewMediaLease_def vstep_defs intro!: vput_step split: option.splits)
next
  case (VRenewLease t i until now)
  with ids show ?thesis
    by (auto simp: RenewLease_def vstep_defs intro!: vput_step split: option.splits)
next
  case (VSweep now)
  then show ?thesis
    by (simp add: VoiceSweepExpired_def list_all2_map2 list_all2_same sweep_one_step)
qed (use na in auto)

subsection \<open>Admissions\<close>

lemma first_free_SomeD:
  "first_free active tenant target ps = Some q \<Longrightarrow>
   placementFree active tenant target q \<and> pl_identity q \<noteq> [] \<and> pl_instance q \<noteq> [] \<and>
   (\<exists>p \<in> set ps. pl_clean p = (q, True))"
  by (induction ps) (auto simp: pl_clean_def Let_def split: if_splits)

lemma first_free_None:
  "first_free active tenant target ps = None \<Longrightarrow> p \<in> set ps \<Longrightarrow> pl_clean p = (q, True) \<Longrightarrow>
   \<not> placementFree active tenant target q"
  by (induction ps) (auto simp: Let_def split: if_splits prod.splits)

lemma activeIndex_keys:
  "s \<in> set m \<Longrightarrow> reserves_at now s \<Longrightarrow> set (lease_keys s) \<subseteq> set (activeIndex m now)"
  by (auto simp: activeIndex_def)

definition clash :: "vsession \<Rightarrow> vsession \<Rightarrow> bool" where
  "clash s1 s2 =
     (vs_identity s1 \<noteq> [] \<and> vs_identity s1 = vs_identity s2 \<and> vs_tenant s1 = vs_tenant s2 \<and>
        vs_target s1 = vs_target s2 \<or>
      vs_instance s1 \<noteq> [] \<and> vs_instance s1 = vs_instance s2)"

lemma clash_sym: "clash s1 s2 = clash s2 s1"
  by (auto simp: clash_def)

lemma free_no_clash:
  assumes "placementFree (activeIndex m now) tenant target q" "s \<in> set m" "reserves_at now s"
    "vs_tenant s' = tenant" "vs_target s' = target"
    "vs_identity s' = pl_identity q" "vs_instance s' = pl_instance q"
  shows "\<not> clash s s'"
  using assms activeIndex_keys [of s m now]
  by (auto simp: placementFree_def clash_def lease_keys_def split: if_splits)

definition exclusive :: "gotime \<Rightarrow> voice_store \<Rightarrow> bool" where
  "exclusive now m =
     (\<forall>s1 \<in> set m. \<forall>s2 \<in> set m. vs_id s1 \<noteq> vs_id s2 \<longrightarrow>
        reserves_at now s1 \<longrightarrow> reserves_at now s2 \<longrightarrow> \<not> clash s1 s2)"

lemma exclusiveD:
  "exclusive now m \<Longrightarrow> s1 \<in> set m \<Longrightarrow> s2 \<in> set m \<Longrightarrow> vs_id s1 \<noteq> vs_id s2 \<Longrightarrow>
   reserves_at now s1 \<Longrightarrow> reserves_at now s2 \<Longrightarrow> \<not> clash s1 s2"
  by (simp add: exclusive_def)

lemma reserves_earlier: "reserves_at t' s \<Longrightarrow> t \<le> t' \<Longrightarrow> reserves_at t s"
  by (auto simp: reserves_at_def)

lemma exclusive_later: "exclusive t m \<Longrightarrow> t \<le> t' \<Longrightarrow> exclusive t' m"
  unfolding exclusive_def by (meson reserves_earlier)

lemma all2_mem:
  "list_all2 P xs ys \<Longrightarrow> y \<in> set ys \<Longrightarrow> \<exists>x \<in> set xs. P x y"
  by (metis in_set_conv_nth list_all2_conv_all_nth)

lemma vkeeps_clash:
  assumes "vstep_rel now s1 s1'" "vstep_rel now s2 s2'" "clash s1' s2'"
    "reserves_at now s1'" "reserves_at now s2'"
  shows "clash s1 s2 \<and> reserves_at now s1 \<and> reserves_at now s2"
proof -
  have same: "vs_tenant s1' = vs_tenant s1" "vs_target s1' = vs_target s1"
    "vs_tenant s2' = vs_tenant s2" "vs_target s2' = vs_target s2"
    using assms(1,2) by (simp_all add: vstep_rel_def vlife_def)
  have "vkeeps now s1 s1'" "vkeeps now s2 s2'" using assms(1,2) by (simp_all add: vstep_rel_def)
  with same assms(3-5) show ?thesis by (auto simp: vkeeps_def clash_def)
qed

lemma vstep_ids: "list_all2 (vstep_rel now) m m' \<Longrightarrow> map vs_id m' = map vs_id m"
  by (induction rule: list_all2_induct) (auto simp: vstep_rel_def vlife_def)

lemma exclusive_quiet:
  assumes "exclusive now m" "list_all2 (vstep_rel now) m m'"
  shows "exclusive now m'"
  unfolding exclusive_def
proof (intro ballI impI)
  fix s1' s2' assume in': "s1' \<in> set m'" "s2' \<in> set m'" and ne: "vs_id s1' \<noteq> vs_id s2'"
    and r: "reserves_at now s1'" "reserves_at now s2'"
  obtain s1 s2 where s: "s1 \<in> set m" "vstep_rel now s1 s1'" "s2 \<in> set m" "vstep_rel now s2 s2'"
    using all2_mem [OF assms(2)] in' by blast
  then have "vs_id s1 \<noteq> vs_id s2" using ne by (auto simp: vstep_rel_def vlife_def)
  then show "\<not> clash s1' s2'"
    using vkeeps_clash [OF s(2,4)] r exclusiveD [OF assms(1) s(1,3)] by blast
qed

text \<open>The two admissions: a new record at the end, or one queued record promoted.\<close>

definition rr_full_mode :: "reserve_req \<Rightarrow> string" where
  "rr_full_mode r = (if trim_space (rr_mode r) = [] then ModeLive else rr_mode r)"

definition rr_clock :: "gotime \<Rightarrow> reserve_req \<Rightarrow> gotime" where
  "rr_clock w r = req_now w (rr_now r)"

lemma VoiceReserve_cases:
  obtains (refused) e where "VoiceReserve w r m = (m, Inl e)"
  | (admitted) place s where "s = new_session (rr_clock w r) r (rr_full_mode r) place"
      "VoiceReserve w r m = (m @ [s], Inr s)" "rr_id r \<notin> vs_id ` set m"
      "place = None \<longrightarrow> rr_full_mode r = ModeLive \<longrightarrow> 0 < rr_max_queued r \<longrightarrow>
         snd (vcounts m (rr_tenant r)) < rr_max_queued r"
      "place \<noteq> None \<longrightarrow> rr_full_mode r = ModeLive \<and>
         (0 < rr_max_active r \<longrightarrow> fst (vcounts m (rr_tenant r)) < rr_max_active r) \<and>
         first_free (activeIndex m (rr_clock w r)) (rr_tenant r) (rr_target r) (rr_places r) = place"
proof -
  define leased queued where "leased = fst (vcounts m (rr_tenant r))"
    and "queued = snd (vcounts m (rr_tenant r))"
  define place where "place =
    (if rr_full_mode r = ModeLive \<and> (rr_max_active r \<le> 0 \<or> leased < rr_max_active r)
     then first_free (activeIndex m (rr_clock w r)) (rr_tenant r) (rr_target r) (rr_places r)
     else None)"
  let ?s = "new_session (rr_clock w r) r (rr_full_mode r) place"
  have eq: "VoiceReserve w r m =
    (if rr_id r = [] \<or> rr_tenant r = [] \<or> rr_target r = [] then (m, Inl VRequired)
     else if find (\<lambda>s. vs_id s = rr_id r) m \<noteq> None then (m, Inl VConflict)
     else if rr_full_mode r = ModeLive \<and> place = None \<and> 0 < rr_max_queued r \<and>
       rr_max_queued r \<le> queued then (m, Inl VQueueFull)
     else (m @ [?s], Inr ?s))"
    by (simp add: VoiceReserve_def Let_def place_def leased_def queued_def rr_full_mode_def
        rr_clock_def case_prod_beta)
  have fresh: "rr_id r \<notin> vs_id ` set m" if "find (\<lambda>s. vs_id s = rr_id r) m = None"
    using that by (auto simp: find_None_iff)
  show thesis
  proof (cases "\<exists>e. VoiceReserve w r m = (m, Inl e)")
    case True
    then show ?thesis using refused by blast
  next
    case False
    then have no: "find (\<lambda>s. vs_id s = rr_id r) m = None"
      "\<not> (rr_full_mode r = ModeLive \<and> place = None \<and> 0 < rr_max_queued r \<and> rr_max_queued r \<le> queued)"
      "VoiceReserve w r m = (m @ [?s], Inr ?s)"
      unfolding eq by (auto split: if_splits)
    show ?thesis
      by (rule admitted [OF refl no(3) fresh [OF no(1)]])
        (use no(2) in \<open>auto simp: place_def leased_def queued_def split: if_splits\<close>)
  qed
qed

lemma VoiceClaim_cases:
  obtains (refused) "fst (VoiceClaim w r m) = m"
  | (claimed) s q s' where "vfind m (cr_tenant r) (cr_id r) = Some s" "vs_status s = VQueued"
      "first_free (activeIndex m (req_now w (cr_now r))) (cr_tenant r) (vs_target s) (cr_places r)
         = Some q"
      "s' = s\<lparr>vs_status := VConnecting, vs_identity := pl_identity q,
              vs_instance := pl_instance q, vs_expires := req_now w (cr_now r) + cr_ttl r,
              vs_updated := req_now w (cr_now r)\<rparr>"
      "VoiceClaim w r m = (vput m s', Inr s')"
      "0 < cr_max_active r \<longrightarrow> fst (vcounts m (cr_tenant r)) < cr_max_active r"
proof (cases "\<exists>s q. vfind m (cr_tenant r) (cr_id r) = Some s \<and> vs_status s = VQueued \<and>
    \<not> (0 < cr_max_active r \<and> cr_max_active r \<le> fst (vcounts m (cr_tenant r))) \<and>
    first_free (activeIndex m (req_now w (cr_now r))) (cr_tenant r) (vs_target s) (cr_places r)
      = Some q")
  case True
  then obtain s q where c: "vfind m (cr_tenant r) (cr_id r) = Some s" "vs_status s = VQueued"
    "\<not> (0 < cr_max_active r \<and> cr_max_active r \<le> fst (vcounts m (cr_tenant r)))"
    "first_free (activeIndex m (req_now w (cr_now r))) (cr_tenant r) (vs_target s) (cr_places r)
      = Some q"
    by blast
  show ?thesis
    by (rule claimed [OF c(1,2,4) refl]) (use c in \<open>auto simp: VoiceClaim_def Let_def\<close>)
next
  case False
  then have "fst (VoiceClaim w r m) = m"
    by (auto simp: VoiceClaim_def Let_def split: option.splits)
  then show ?thesis by (rule refused)
qed

lemma vput_mem: "x \<in> set (vput m s') \<Longrightarrow> x = s' \<or> x \<in> set m \<and> vs_id x \<noteq> vs_id s'"
  by (auto simp: vput_def)

lemma exclusive_add:
  assumes "exclusive now m" "\<And>s. s \<in> set m \<Longrightarrow> reserves_at now s \<Longrightarrow> \<not> clash s s'"
    and sub: "\<And>x. x \<in> set m' \<Longrightarrow> x = s' \<or> x \<in> set m"
  shows "exclusive now m'"
  unfolding exclusive_def
proof (intro ballI impI)
  fix s1 s2 assume "s1 \<in> set m'" "s2 \<in> set m'" "vs_id s1 \<noteq> vs_id s2"
    "reserves_at now s1" "reserves_at now s2"
  then show "\<not> clash s1 s2"
    using sub [of s1] sub [of s2] assms(2) [of s1] assms(2) [of s2] clash_sym [of s1 s2]
      exclusiveD [OF assms(1), of s1 s2]
    by blast
qed

lemma new_session_simps [simp]:
  "vs_id (new_session now r mode place) = rr_id r"
  "vs_tenant (new_session now r mode place) = rr_tenant r"
  "vs_target (new_session now r mode place) = rr_target r"
  "vs_mode (new_session now r mode place) = mode"
  "vs_status (new_session now r mode place) = (if place = None then VQueued else VConnecting)"
  "vs_gen (new_session now r mode place) = 0"
  "vs_hold (new_session now r mode place) = 0"
  "vs_identity (new_session now r mode (Some p)) = pl_identity p"
  "vs_instance (new_session now r mode (Some p)) = pl_instance p"
  "vs_identity (new_session now r mode None) = []"
  "vs_instance (new_session now r mode None) = []"
  by (simp_all add: new_session_def)

lemma Reserve_exclusive:
  assumes ex: "exclusive (rr_clock w r) m"
  shows "exclusive (rr_clock w r) (fst (VoiceReserve w r m))"
proof (cases rule: VoiceReserve_cases [of w r m])
  case (refused e)
  with ex show ?thesis by simp
next
  case (admitted place s)
  have "\<not> clash x s" if "x \<in> set m" "reserves_at (rr_clock w r) x" for x
  proof (cases place)
    case None
    then show ?thesis using admitted(1) by (auto simp: clash_def)
  next
    case (Some q)
    then have "placementFree (activeIndex m (rr_clock w r)) (rr_tenant r) (rr_target r) q"
      using admitted(5) by (auto dest: first_free_SomeD)
    then show ?thesis using that Some admitted(1) by (intro free_no_clash) auto
  qed
  then show ?thesis using admitted(2) by (intro exclusive_add [OF ex]) auto
qed

lemma Claim_exclusive:
  assumes ex: "exclusive (req_now w (cr_now r)) m"
  shows "exclusive (req_now w (cr_now r)) (fst (VoiceClaim w r m))"
proof (cases rule: VoiceClaim_cases [of w r m])
  case refused
  with ex show ?thesis by simp
next
  case (claimed s q s')
  then have "placementFree (activeIndex m (req_now w (cr_now r))) (cr_tenant r) (vs_target s) q"
    by (auto dest: first_free_SomeD)
  moreover have "vs_tenant s' = cr_tenant r" using claimed by (auto dest: vfind_SomeD)
  ultimately have "\<not> clash x s'" if "x \<in> set m" "reserves_at (req_now w (cr_now r)) x" for x
    using that claimed by (intro free_no_clash) auto
  then show ?thesis using claimed by (intro exclusive_add [OF ex]) (auto dest: vput_mem)
qed

subsection \<open>The machine\<close>

definition vrecords_ok :: "voice_store \<Rightarrow> bool" where
  "vrecords_ok m = (vids_ok m \<and> (\<forall>s \<in> set m. hold_ok s \<and> gen_ok s))"

definition vgrows :: "voice_store \<Rightarrow> voice_store \<Rightarrow> bool" where
  "vgrows m m' = (\<exists>m1 new. m' = m1 @ new \<and> list_all2 vlife m m1)"

lemma vgrows_all2: "list_all2 vlife m m' \<Longrightarrow> vgrows m m'"
  unfolding vgrows_def by (metis append_Nil2)

lemma vgrows_trans: "vgrows m m' \<Longrightarrow> vgrows m' m'' \<Longrightarrow> vgrows m m''"
proof -
  assume "vgrows m m'" "vgrows m' m''"
  then obtain m1 n1 m2 n2 where h: "m' = m1 @ n1" "list_all2 vlife m m1"
    "m'' = m2 @ n2" "list_all2 vlife m' m2"
    unfolding vgrows_def by blast
  then obtain m3 n3 where s: "m2 = m3 @ n3" "list_all2 vlife m1 m3"
    by (auto simp: list_all2_append1)
  have "list_all2 vlife m m3" using h(2) s(2) by (rule list_all2_trans [rotated]) (rule vlife_trans)
  then show ?thesis using h(3) s(1) unfolding vgrows_def by auto
qed

lemma all2_vlife: "list_all2 (vstep_rel now) m m' \<Longrightarrow> list_all2 vlife m m'"
  by (erule list_all2_mono) (simp add: vstep_rel_def)

lemma vgrows_same: "vgrows m m"
  by (intro vgrows_all2 list.rel_refl) simp

lemma Reserve_grows: "vgrows m (fst (VoiceReserve w r m))"
proof (cases rule: VoiceReserve_cases [of w r m])
  case (refused e)
  then show ?thesis by (simp add: vgrows_same)
next
  case (admitted place s)
  then show ?thesis
    unfolding vgrows_def by (metis fst_conv list.rel_refl vlife_refl)
qed

lemma Claim_all2:
  assumes "vids_ok m"
  shows "list_all2 vlife m (fst (VoiceClaim w r m))"
proof (cases rule: VoiceClaim_cases [of w r m])
  case refused
  then show ?thesis by (simp add: list.rel_refl)
next
  case (claimed s q s')
  then have "vlife s s'" by (auto simp: vlife_def hold_ok_def gen_ok_def)
  then show ?thesis
    using claimed assms by (auto intro!: vput_all2 dest: vfind_SomeD)
qed

lemma voice_step_grows:
  assumes "vids_ok m" "voice_op_ok op"
  shows "vgrows m (voice_step op m)"
proof (cases "admits op")
  case True
  then show ?thesis
    using Claim_all2 [OF assms(1)] Reserve_grows by (cases op) (auto intro: vgrows_all2)
next
  case False
  from quiet_step [OF assms False] show ?thesis by (intro vgrows_all2 all2_vlife)
qed

lemma Reserve_ids: "vids_ok m \<Longrightarrow> vids_ok (fst (VoiceReserve w r m))"
  by (rule VoiceReserve_cases [of w r m]) (auto simp: vids_ok_def)

lemma voice_step_ids:
  assumes "vids_ok m" "voice_op_ok op"
  shows "vids_ok (voice_step op m)"
proof (cases "admits op")
  case True
  have "vids_ok (fst (VoiceClaim w r m))" for w r
    by (rule VoiceClaim_cases [of w r m]) (use assms(1) in \<open>auto simp: vids_ok_def\<close>)
  then show ?thesis using True Reserve_ids [OF assms(1)] by (cases op) auto
next
  case False
  from vstep_ids [OF quiet_step [OF assms False]] assms(1) show ?thesis by (simp add: vids_ok_def)
qed

lemma all2_records:
  "list_all2 vlife m m' \<Longrightarrow> \<forall>s \<in> set m. hold_ok s \<and> gen_ok s \<Longrightarrow>
   \<forall>s \<in> set m'. hold_ok s \<and> gen_ok s"
  by (auto dest!: all2_mem simp: vlife_def)

lemma voice_step_records:
  assumes "vrecords_ok m" "voice_op_ok op"
  shows "vrecords_ok (voice_step op m)"
proof -
  have ids: "vids_ok m" and rec: "\<forall>s \<in> set m. hold_ok s \<and> gen_ok s"
    using assms(1) by (auto simp: vrecords_ok_def)
  have "\<forall>s \<in> set (voice_step op m). hold_ok s \<and> gen_ok s"
  proof (cases op)
    case (VReserve w r)
    show ?thesis
      by (rule VoiceReserve_cases [of w r m])
        (use rec VReserve in \<open>auto simp: hold_ok_def gen_ok_def\<close>)
  next
    case (VClaim w r)
    then show ?thesis using all2_records [OF Claim_all2 [OF ids] rec] by simp
  qed (use all2_records [OF all2_vlife rec] quiet_step [OF ids assms(2)] in force)+
  then show ?thesis using voice_step_ids [OF ids assms(2)] by (simp add: vrecords_ok_def)
qed

definition voice_inv :: "gotime \<Rightarrow> voice_store \<Rightarrow> bool" where
  "voice_inv t m = (vrecords_ok m \<and> exclusive t m)"

lemma voice_step_exclusive:
  assumes "vids_ok m" "voice_op_ok op" "exclusive (voice_clock op) m"
  shows "exclusive (voice_clock op) (voice_step op m)"
proof (cases "admits op")
  case True
  then show ?thesis
    using assms(3) Reserve_exclusive Claim_exclusive
    by (cases op) (auto simp: rr_clock_def)
next
  case False
  then show ?thesis using exclusive_quiet [OF assms(3) quiet_step [OF assms(1,2)]] by simp
qed

lemma vrecords_ids: "vrecords_ok m \<Longrightarrow> vids_ok m"
  by (simp add: vrecords_ok_def)

interpretation voice_clocked: clocked_machine voice_step voice_clock voice_op_ok voice_inv
  by unfold_locales
    (auto simp: voice_inv_def
      intro: exclusive_later voice_step_exclusive voice_step_records vrecords_ids)

text \<open>The forward machine runs the admissible operations; the others leave the store alone.\<close>

definition voice_guarded :: "voice_op \<Rightarrow> voice_store \<Rightarrow> voice_store" where
  "voice_guarded op m = (if voice_op_ok op then voice_step op m else m)"

interpretation voice_machine: forward_machine voice_guarded vrecords_ok voice_op_ok vgrows
  by unfold_locales
    (auto simp: voice_guarded_def vgrows_same
      intro: voice_step_grows vgrows_trans voice_step_records vrecords_ids)

lemma voice_guarded_run: "list_all voice_op_ok ops \<Longrightarrow> fold voice_guarded ops m = voice_run ops m"
  unfolding voice_run_def
  by (induction ops arbitrary: m) (auto simp: voice_guarded_def)

lemma voice_run_grows:
  "vrecords_ok m \<Longrightarrow> list_all voice_op_ok ops \<Longrightarrow>
   vgrows m (voice_run ops m) \<and> vrecords_ok (voice_run ops m)"
  using voice_machine.run_le voice_machine.run_inv voice_guarded_run by metis

lemma vrecords_ok_Nil [simp]: "vrecords_ok []"
  by (simp add: vrecords_ok_def vids_ok_def)

lemma vgrows_mem:
  assumes "vgrows m m'" "s \<in> set m"
  obtains s' where "s' \<in> set m'" "vlife s s'"
  using assms unfolding vgrows_def
  by (metis Un_iff in_set_conv_nth list_all2_conv_all_nth set_append)

end
