(* ===== verification/JobCore.thy ===== *)
theory JobCore
  imports PayloadPolicy
begin

text \<open>
  The rules both front-ends share (\<open>jobcore/jobcore.go\<close>): the canonical form of a client, the
  hash of a create request, the payload safety check, the reserved command types and the
  catalog check of the per-job model settings; and the role table (\<open>authz/authz.go\<close>).

  A possibly nil Go map is an option. \<open>encoding/json.Marshal\<close> is used twice: for the length
  of a payload (\<open>marshal_length\<close>) and, hashed with SHA-256, for the request hash
  (\<open>hash_json\<close>); both are arguments. Decoded JSON carries \<open>float64\<close> numbers, so the
  \<open>json.Number\<close> case of \<open>normalizeJSONValue\<close> does not arise and \<open>cloneMap\<close> copies the value.
\<close>

subsection \<open>Clients and specifications\<close>

record jc_client =
  cl_AppID :: string
  cl_AppVersion :: string
  cl_DeviceID :: string
  cl_UserRef :: string
  cl_SDKName :: string
  cl_SDKVersion :: string

record jc_spec =
  sp_Target :: string
  sp_CommandType :: string
  sp_ConversationID :: string
  sp_TemplateID :: string
  sp_Input :: "jmap option"
  sp_Options :: "jmap option"
  sp_Callbacks :: "jmap option"
  sp_Context :: "jmap option"
  sp_ModelSettings :: "jmap option"

definition ClientToMap :: "jc_client \<Rightarrow> jmap" where
  "ClientToMap c =
     [(''app_id'', JStr (trim_space (cl_AppID c))),
      (''app_version'', JStr (trim_space (cl_AppVersion c))),
      (''sdk'', JObj [(''name'', JStr (trim_space (cl_SDKName c))), (''version'', JStr (trim_space (cl_SDKVersion c)))])] @
     (if trim_space (cl_DeviceID c) \<noteq> [] then [(''device_id'', JStr (trim_space (cl_DeviceID c)))] else []) @
     (if trim_space (cl_UserRef c) \<noteq> [] then [(''user_ref'', JStr (trim_space (cl_UserRef c)))] else [])"

text \<open>A nil map marshals as \<open>null\<close>.\<close>

definition map_value :: "jmap option \<Rightarrow> json" where
  "map_value m = (case m of None \<Rightarrow> JNull | Some kv \<Rightarrow> JObj kv)"

definition create_payload :: "string \<Rightarrow> jc_client \<Rightarrow> jc_spec \<Rightarrow> json" where
  "create_payload apiVersion client spec =
     JObj [(''api_version'', JStr (trim_space apiVersion)),
           (''client'', JObj (ClientToMap client)),
           (''job'', JObj [
              (''target'', JStr (trim_space (sp_Target spec))),
              (''command_type'', JStr (trim_space (sp_CommandType spec))),
              (''conversation_id'', JStr (trim_space (sp_ConversationID spec))),
              (''template_id'', JStr (trim_space (sp_TemplateID spec))),
              (''input'', map_value (sp_Input spec)),
              (''options'', map_value (sp_Options spec)),
              (''callbacks'', map_value (sp_Callbacks spec)),
              (''context'', map_value (sp_Context spec))])]"

definition CanonicalCreateHash :: "(json \<Rightarrow> string) \<Rightarrow> string \<Rightarrow> jc_client \<Rightarrow> jc_spec \<Rightarrow> string" where
  "CanonicalCreateHash hash_json apiVersion client spec = hash_json (create_payload apiVersion client spec)"

subsection \<open>Payload safety\<close>

definition ReservedCommandPrefix :: string where "ReservedCommandPrefix = ''voice.''"

definition IsReservedCommandType :: "string \<Rightarrow> bool" where
  "IsReservedCommandType t = prefix ReservedCommandPrefix (to_lower (trim_space t))"

definition MaxDispatchPayloadBytes :: int where "MaxDispatchPayloadBytes = 240 * 1024"

datatype payload_error = PayloadReserved | PayloadTooLarge | PayloadUnsafe violation

definition ValidatePayload :: "(json \<Rightarrow> int) \<Rightarrow> jc_client \<Rightarrow> jc_spec \<Rightarrow> payload_error option" where
  "ValidatePayload marshal_length client spec =
     (if IsReservedCommandType (sp_CommandType spec) then Some PayloadReserved
      else
        let callbacks = map_option (jdel ''webhook_secret_id'') (sp_Callbacks spec);
            payload =
              JObj [(''client'', JObj (ClientToMap client)),
                    (''job'', JObj [
                       (''target'', JStr (trim_space (sp_Target spec))),
                       (''command_type'', JStr (trim_space (sp_CommandType spec))),
                       (''conversation_id'', JStr (trim_space (sp_ConversationID spec))),
                       (''template_id'', JStr (trim_space (sp_TemplateID spec))),
                       (''input'', map_value (sp_Input spec)),
                       (''options'', map_value (sp_Options spec)),
                       (''callbacks'', map_value callbacks),
                       (''context'', map_value (sp_Context spec)),
                       (''model_settings'', map_value (sp_ModelSettings spec))])]
        in if MaxDispatchPayloadBytes < marshal_length payload then Some PayloadTooLarge
           else map_option PayloadUnsafe (Validate payload))"

subsection \<open>Model settings\<close>

record catalog_setting =
  cs_Kind :: string
  cs_Values :: "string list"

type_synonym model_catalog = "string \<rightharpoonup> catalog_setting"

datatype settings_code = codeModelUnavailable | codeModeUnavailable

definition catalogChoiceCode :: "string \<Rightarrow> settings_code" where
  "catalogChoiceCode key = (if key = ''model'' then codeModelUnavailable else codeModeUnavailable)"

text \<open>One entry; \<open>None\<close> when it is permitted.\<close>

definition check_setting :: "string \<Rightarrow> model_catalog \<Rightarrow> string \<Rightarrow> json \<Rightarrow> settings_code option" where
  "check_setting target catalog key value =
     (let is_bool = (case value of JBool b \<Rightarrow> True | _ \<Rightarrow> False) in
      if key = ''_enabled'' then (if is_bool then None else Some codeModeUnavailable)
      else if prefix ''_'' key then Some codeModeUnavailable
      else (case catalog key of
              None \<Rightarrow> Some codeModeUnavailable
            | Some setting \<Rightarrow>
                if cs_Kind setting = ''toggle'' then (if is_bool then None else Some codeModeUnavailable)
                else if cs_Kind setting = ''choice'' then
                  (let str = (case value of
                                JStr s \<Rightarrow> Some s
                              | JBool legacy \<Rightarrow>
                                  if target = ''gemini_web'' \<and> key = ''thinking''
                                  then Some (if legacy then ''High'' else ''Low'') else None
                              | _ \<Rightarrow> None)
                   in case str of
                        None \<Rightarrow> Some (catalogChoiceCode key)
                      | Some s \<Rightarrow> if s \<in> set (cs_Values setting) then None else Some (catalogChoiceCode key))
                else Some codeModeUnavailable))"

text \<open>The first entry that is not permitted decides (the map order is Go's iteration order).\<close>

fun check_settings :: "string \<Rightarrow> model_catalog \<Rightarrow> jmap \<Rightarrow> settings_code option" where
  "check_settings target catalog [] = None"
| "check_settings target catalog ((key, value) # m) =
     (case check_setting target catalog key value of
        Some c \<Rightarrow> Some c
      | None \<Rightarrow> check_settings target catalog m)"

definition ValidateModelSettings :: "string \<Rightarrow> jmap option \<Rightarrow> model_catalog \<Rightarrow> settings_code option" where
  "ValidateModelSettings target settings catalog =
     (case settings of None \<Rightarrow> None | Some m \<Rightarrow> check_settings target catalog m)"

fun FirstNonEmpty :: "string list \<Rightarrow> string" where
  "FirstNonEmpty [] = []"
| "FirstNonEmpty (v # vs) = (if trim_space v \<noteq> [] then v else FirstNonEmpty vs)"

subsection \<open>Roles\<close>

definition roleActions :: "(string \<times> string list) list" where
  "roleActions =
    [(''viewer'', [''job:read'']),
     (''developer'',
       [''job:create'', ''job:read'', ''job:cancel'', ''job:retry'', ''artifact:write'', ''artifact:delete'',
        ''webhook:configure'', ''browser:read'', ''concurrency:read'']),
     (''operator'',
       [''job:create'', ''job:read'', ''job:cancel'', ''job:retry'', ''artifact:write'', ''artifact:delete'',
        ''device:enroll'', ''device:revoke'', ''webhook:configure'', ''webhook:replay'', ''audit:read'',
        ''alerts:read'', ''alerts:manage'', ''browser:read'', ''concurrency:read'']),
     (''admin'',
       [''job:create'', ''job:read'', ''job:cancel'', ''job:retry'', ''artifact:write'', ''artifact:delete'',
        ''device:enroll'', ''device:revoke'', ''secret:rotate'', ''webhook:configure'', ''webhook:replay'',
        ''audit:read'', ''rate_limit:manage'', ''role:manage'', ''data:export'', ''data:erase'',
        ''alerts:read'', ''alerts:manage'', ''browser:read'', ''concurrency:read'', ''region:manage'']),
     (''superadmin'', []),
     (''service'',
       [''job:create'', ''job:read'', ''job:cancel'', ''job:retry'', ''artifact:write'', ''artifact:delete'',
        ''webhook:replay''])]"

definition RoleAllows :: "string \<Rightarrow> string \<Rightarrow> bool" where
  "RoleAllows role action =
     (if role = ''superadmin'' then True
      else (case map_of roleActions role of None \<Rightarrow> False | Some actions \<Rightarrow> action \<in> set actions))"

definition IsValidRole :: "string \<Rightarrow> bool" where
  "IsValidRole role = (map_of roleActions role \<noteq> None)"

text \<open>\<open>sortStrings\<close>: insertion sort.\<close>

definition role_Actions :: "string \<Rightarrow> string list option" where
  "role_Actions role = map_option sort (map_of roleActions role)"

subsection \<open>Facts\<close>

text \<open>The model settings a create request carries are accepted independently of the map order.\<close>

lemma check_settings_none:
  "check_settings target catalog m = None \<longleftrightarrow>
     (\<forall>(k, v) \<in> set m. check_setting target catalog k v = None)"
  by (induction target catalog m rule: check_settings.induct) (auto split: option.splits)

text \<open>Two create requests that differ in their model settings only have the same hash.\<close>

lemma hash_ignores_settings:
  "CanonicalCreateHash hash_json v c (s\<lparr>sp_ModelSettings := ms\<rparr>) = CanonicalCreateHash hash_json v c s"
  by (simp add: CanonicalCreateHash_def create_payload_def)

text \<open>Only the platform role holds the cross-tenant fleet actions.\<close>

lemma fleet_needs_superadmin:
  "RoleAllows role ''fleet:read'' = (role = ''superadmin'')" "RoleAllows role ''fleet:manage'' = (role = ''superadmin'')"
  by (auto simp: RoleAllows_def roleActions_def split: if_splits)

end
