(* ===== verification/BrowserLane.thy ===== *)
theory BrowserLane
  imports VoiceInv JobCore
begin

text \<open>
  Browser lanes (\<open>topology/lane.go\<close>, \<open>executor/voicelane.go\<close>, \<open>admitVoiceLanes\<close> of
  \<open>httpapi/voice_handlers.go\<close>): the process-local registration counts, and the protocol by which
  jobs and voice admissions keep off each other's browser without a lock across the two stores.
\<close>

subsection \<open>Lane names\<close>

text \<open>
  \<open>host_of endpoint\<close> is the host \<open>url.Parse\<close> finds (empty when the endpoint does not parse).
  \<open>strings.ToLower\<close> acts on every character here, not only on ASCII ones; host names are ASCII.
\<close>

fun strip_right :: "char \<Rightarrow> string \<Rightarrow> string" where
  "strip_right c s = rev (dropWhile (\<lambda>x. x = c) (rev s))"

definition BrowserLaneKey :: "(string \<Rightarrow> string) \<Rightarrow> string \<Rightarrow> string" where
  "BrowserLaneKey host_of endpoint =
     (let endpoint = trim_space endpoint in
      if endpoint = [] then []
      else ''browser:'' @
        (if host_of endpoint \<noteq> [] then to_lower (host_of endpoint)
         else to_lower (strip_right CHR ''/'' endpoint)))"

subsection \<open>Registrations\<close>

datatype lane_side = LaneJob | LaneVoice

type_synonym lane_counts = "string \<Rightarrow> lane_side \<Rightarrow> nat"

text \<open>An empty lane registers nothing; a hold is the lane it is on (\<open>None\<close> for the nil hold).\<close>

definition EnterLane :: "lane_side \<Rightarrow> string \<Rightarrow> lane_counts \<Rightarrow> lane_counts \<times> string option" where
  "EnterLane kind l c =
     (if l = [] then (c, None)
      else (c(l := (c l)(kind := c l kind + 1)), Some l))"

definition LaneHolders :: "lane_side \<Rightarrow> string \<Rightarrow> lane_counts \<Rightarrow> nat" where
  "LaneHolders kind l c = (if l = [] then 0 else c l kind)"

definition ReleaseHoldOn :: "lane_side \<Rightarrow> string option \<Rightarrow> lane_counts \<Rightarrow> lane_counts" where
  "ReleaseHoldOn kind h c =
     (case h of
        None \<Rightarrow> c
      | Some l \<Rightarrow>
          if 1 < c l kind then c(l := (c l)(kind := c l kind - 1))
          else c(l := (c l)(kind := 0)))"

subsection \<open>Which jobs drive the shared browser\<close>

definition targetDrivesBrowser :: "string \<Rightarrow> bool" where
  "targetDrivesBrowser target =
     (trim_space target \<notin> {[], ''mock'', ''antigravity_sdk'', ''antigravity_cli''})"

definition browserLaneForJob :: "(string \<Rightarrow> string) \<Rightarrow> string \<Rightarrow> string \<Rightarrow> string \<Rightarrow> string" where
  "browserLaneForJob host_of endpoint command target =
     (if IsReservedCommandType command \<or> \<not> targetDrivesBrowser target then []
      else BrowserLaneKey host_of endpoint)"

subsection \<open>The protocol\<close>

text \<open>
  A job of the consumer (\<open>enterBrowserLane\<close>): register, look for a voice admission, look into the
  voice store, run, release. Where the code returns a \<open>LaneBusyError\<close> the job goes back to the
  queue, which is \<open>JIdle\<close> again.
\<close>

datatype job_phase =
  JIdle
| JRegistered string
| JAlone string      \<comment> \<open>no voice admission seen\<close>
| JRunning string

text \<open>
  A voice admission (\<open>admitVoiceLanes\<close>, then \<open>Reserve\<close> or \<open>Claim\<close>): the placements still to look
  at, those kept, and the lanes it is registered on. \<open>AChecking\<close> is between the registration for
  the first placement of the list and the look at the job count.
\<close>

datatype adm_phase =
  AIdle
| AAdmitting string "placement list" "placement list" "string list"
| AChecking string "placement list" "placement list" "string list" string
| ADone "string list"

record lane_state =
  la_counts :: lane_counts
  la_voice :: voice_store
  la_now :: gotime
  la_jobs :: "job_phase list"
  la_adms :: "adm_phase list"

fun job_lane :: "job_phase \<Rightarrow> string option" where
  "job_lane JIdle = None"
| "job_lane (JRegistered l) = Some l"
| "job_lane (JAlone l) = Some l"
| "job_lane (JRunning l) = Some l"

fun adm_lanes :: "adm_phase \<Rightarrow> string list" where
  "adm_lanes AIdle = []"
| "adm_lanes (AAdmitting t todo kept held) = held"
| "adm_lanes (AChecking t todo kept held l) = l # held"
| "adm_lanes (ADone held) = held"

text \<open>
  \<open>lanes tenant\<close> are the lanes of the tenant's instances, as the topology store reports them to
  both sides; \<open>lane_of_place\<close> is the handler's look-up, empty for an instance without endpoint.
\<close>

type_synonym topology_lanes = "string \<Rightarrow> (string \<Rightarrow> string option) option"

definition lane_of_place :: "topology_lanes \<Rightarrow> string \<Rightarrow> placement \<Rightarrow> string" where
  "lane_of_place lanes tenant p =
     (case lanes tenant of
        None \<Rightarrow> []
      | Some by_instance \<Rightarrow>
          (case by_instance (trim_space (pl_instance p)) of None \<Rightarrow> [] | Some l \<Rightarrow> l))"

definition release_all :: "string list \<Rightarrow> lane_counts \<Rightarrow> lane_counts" where
  "release_all ls c = foldr (\<lambda>l. ReleaseHoldOn LaneVoice (Some l)) ls c"

inductive lane_step :: "topology_lanes \<Rightarrow> lane_state \<Rightarrow> lane_state \<Rightarrow> bool" for lanes where
  job_register:
    "i < length (la_jobs s) \<Longrightarrow> la_jobs s ! i = JIdle \<Longrightarrow> l \<noteq> [] \<Longrightarrow>
     lane_step lanes s (s\<lparr>la_counts := fst (EnterLane LaneJob l (la_counts s)),
                       la_jobs := (la_jobs s)[i := JRegistered l]\<rparr>)"
| job_alone:
    "i < length (la_jobs s) \<Longrightarrow> la_jobs s ! i = JRegistered l \<Longrightarrow>
     LaneHolders LaneVoice l (la_counts s) = 0 \<Longrightarrow>
     lane_step lanes s (s\<lparr>la_jobs := (la_jobs s)[i := JAlone l]\<rparr>)"
| job_admission_in_flight:
    "i < length (la_jobs s) \<Longrightarrow> la_jobs s ! i = JRegistered l \<Longrightarrow>
     0 < LaneHolders LaneVoice l (la_counts s) \<Longrightarrow>
     lane_step lanes s (s\<lparr>la_counts := ReleaseHoldOn LaneJob (Some l) (la_counts s),
                       la_jobs := (la_jobs s)[i := JIdle]\<rparr>)"
| job_run:
    "i < length (la_jobs s) \<Longrightarrow> la_jobs s ! i = JAlone l \<Longrightarrow>
     VoiceHoldsLane lanes (la_now s) (la_voice s) l = Some False \<Longrightarrow>
     lane_step lanes s (s\<lparr>la_jobs := (la_jobs s)[i := JRunning l]\<rparr>)"
| job_session_active:
    "i < length (la_jobs s) \<Longrightarrow> la_jobs s ! i = JAlone l \<Longrightarrow>
     VoiceHoldsLane lanes (la_now s) (la_voice s) l \<noteq> Some False \<Longrightarrow>
     lane_step lanes s (s\<lparr>la_counts := ReleaseHoldOn LaneJob (Some l) (la_counts s),
                       la_jobs := (la_jobs s)[i := JIdle]\<rparr>)"
| job_end:
    "i < length (la_jobs s) \<Longrightarrow> la_jobs s ! i = JRunning l \<Longrightarrow>
     lane_step lanes s (s\<lparr>la_counts := ReleaseHoldOn LaneJob (Some l) (la_counts s),
                       la_jobs := (la_jobs s)[i := JIdle]\<rparr>)"
| adm_start:
    "i < length (la_adms s) \<Longrightarrow> la_adms s ! i = AIdle \<Longrightarrow>
     lane_step lanes s (s\<lparr>la_adms := (la_adms s)[i := AAdmitting tenant todo [] []]\<rparr>)"
| adm_no_lane:
    "i < length (la_adms s) \<Longrightarrow> la_adms s ! i = AAdmitting tenant (p # todo) kept held \<Longrightarrow>
     lane_of_place lanes tenant p = [] \<Longrightarrow>
     lane_step lanes s (s\<lparr>la_adms := (la_adms s)[i := AAdmitting tenant todo (kept @ [p]) held]\<rparr>)"
| adm_register:
    "i < length (la_adms s) \<Longrightarrow> la_adms s ! i = AAdmitting tenant (p # todo) kept held \<Longrightarrow>
     lane_of_place lanes tenant p = l \<Longrightarrow> l \<noteq> [] \<Longrightarrow>
     lane_step lanes s (s\<lparr>la_counts := fst (EnterLane LaneVoice l (la_counts s)),
                       la_adms := (la_adms s)[i := AChecking tenant (p # todo) kept held l]\<rparr>)"
| adm_keep:
    "i < length (la_adms s) \<Longrightarrow> la_adms s ! i = AChecking tenant (p # todo) kept held l \<Longrightarrow>
     LaneHolders LaneJob l (la_counts s) = 0 \<Longrightarrow>
     lane_step lanes s (s\<lparr>la_adms := (la_adms s)[i := AAdmitting tenant todo (kept @ [p]) (l # held)]\<rparr>)"
| adm_skip:
    "i < length (la_adms s) \<Longrightarrow> la_adms s ! i = AChecking tenant (p # todo) kept held l \<Longrightarrow>
     0 < LaneHolders LaneJob l (la_counts s) \<Longrightarrow>
     lane_step lanes s (s\<lparr>la_counts := ReleaseHoldOn LaneVoice (Some l) (la_counts s),
                       la_adms := (la_adms s)[i := AAdmitting tenant todo kept held]\<rparr>)"
| adm_reserve:
    "i < length (la_adms s) \<Longrightarrow> la_adms s ! i = AAdmitting tenant [] kept held \<Longrightarrow>
     rr_tenant r = tenant \<Longrightarrow> rr_places r = kept \<Longrightarrow>
     lane_step lanes s (s\<lparr>la_voice := fst (VoiceReserve w r (la_voice s)),
                       la_adms := (la_adms s)[i := ADone held]\<rparr>)"
| adm_claim:
    "i < length (la_adms s) \<Longrightarrow> la_adms s ! i = AAdmitting tenant [] kept held \<Longrightarrow>
     cr_tenant c = tenant \<Longrightarrow> cr_places c = kept \<Longrightarrow>
     lane_step lanes s (s\<lparr>la_voice := fst (VoiceClaim w c (la_voice s)),
                       la_adms := (la_adms s)[i := ADone held]\<rparr>)"
| adm_settle:
    "i < length (la_adms s) \<Longrightarrow> la_adms s ! i = ADone held \<Longrightarrow>
     lane_step lanes s (s\<lparr>la_counts := release_all held (la_counts s),
                       la_adms := (la_adms s)[i := AIdle]\<rparr>)"
| voice_change:
    "\<not> admits op \<Longrightarrow> voice_op_ok op \<Longrightarrow>
     lane_step lanes s (s\<lparr>la_voice := voice_step op (la_voice s)\<rparr>)"
| time_passes:
    "la_now s \<le> t \<Longrightarrow> lane_step lanes s (s\<lparr>la_now := t\<rparr>)"

definition lane_init :: "nat \<Rightarrow> nat \<Rightarrow> lane_state" where
  "lane_init jobs adms =
     \<lparr>la_counts = (\<lambda>_ _. 0), la_voice = [], la_now = 0,
      la_jobs = replicate jobs JIdle, la_adms = replicate adms AIdle\<rparr>"

inductive lane_reach :: "topology_lanes \<Rightarrow> lane_state \<Rightarrow> bool" for lanes where
  start: "lane_reach lanes (lane_init jobs adms)"
| step: "lane_reach lanes s \<Longrightarrow> lane_step lanes s s' \<Longrightarrow> lane_reach lanes s'"

end
