(* ===== verification/BrowserLaneProps.thy ===== *)
theory BrowserLaneProps
  imports BrowserLane
begin

text \<open>
  The exclusion the lane protocol is for: a running job and a live voice session never share a
  browser. The invariant follows the program counters: what each side has registered, what it
  has already looked at, and what the other side can no longer have done since.
\<close>

subsection \<open>Registrations are counted\<close>

definition weight :: "('a \<Rightarrow> nat) \<Rightarrow> 'a list \<Rightarrow> nat" where
  "weight f xs = sum_list (map f xs)"

lemma weight_update: "i < length xs \<Longrightarrow> weight f (xs[i := x]) + f (xs ! i) = weight f xs + f x"
proof (induction xs arbitrary: i)
  case (Cons y ys)
  then show ?case by (cases i) (auto simp: weight_def)
qed simp

lemma weight_ge: "i < length xs \<Longrightarrow> f (xs ! i) \<le> weight f xs"
  unfolding weight_def by (simp add: member_le_sum_list)

lemma weight_zero: "weight f xs = 0 \<Longrightarrow> x \<in> set xs \<Longrightarrow> f x = 0"
  by (auto simp: weight_def)

definition on_lane :: "string \<Rightarrow> job_phase \<Rightarrow> nat" where
  "on_lane l p = (if job_lane p = Some l then 1 else 0)"

definition adm_on_lane :: "string \<Rightarrow> adm_phase \<Rightarrow> nat" where
  "adm_on_lane l p = count_list (adm_lanes p) l"

definition counts_ok :: "lane_state \<Rightarrow> bool" where
  "counts_ok s =
     (\<forall>l. la_counts s l LaneJob = weight (on_lane l) (la_jobs s) \<and>
          la_counts s l LaneVoice = weight (adm_on_lane l) (la_adms s))"

lemma Release_counts:
  "ReleaseHoldOn kind (Some l) c l' k = (if l' = l \<and> k = kind then c l kind - 1 else c l' k)"
  by (simp add: ReleaseHoldOn_def)

lemma Enter_counts:
  "l \<noteq> [] \<Longrightarrow> fst (EnterLane kind l c) l' k = (if l' = l \<and> k = kind then c l kind + 1 else c l' k)"
  by (simp add: EnterLane_def)

lemma release_all_counts:
  "release_all ls c l k = (if k = LaneVoice then c l k - count_list ls l else c l k)"
  by (induction ls) (auto simp: release_all_def Release_counts)

lemma jobs_weight:
  assumes "i < length xs"
  shows "weight (on_lane l) (xs[i := p]) = weight (on_lane l) xs - on_lane l (xs ! i) + on_lane l p"
  using weight_update [OF assms, of "on_lane l" p] weight_ge [OF assms, of "on_lane l"] by linarith

lemma adms_weight:
  assumes "i < length xs"
  shows "weight (adm_on_lane l) (xs[i := p]) =
    weight (adm_on_lane l) xs - adm_on_lane l (xs ! i) + adm_on_lane l p"
  using weight_update [OF assms, of "adm_on_lane l" p] weight_ge [OF assms, of "adm_on_lane l"]
  by linarith

lemma counts_step:
  assumes "lane_step lanes s s'" "counts_ok s"
  shows "counts_ok s'"
  using assms(1)
proof cases
  case (job_register i l)
  then show ?thesis
    using assms(2) by (auto simp: counts_ok_def Enter_counts jobs_weight on_lane_def)
next
  case (job_alone i l)
  then show ?thesis
    using assms(2) weight_ge [of i "la_jobs s" "on_lane l"]
    by (auto simp: counts_ok_def jobs_weight on_lane_def)
next
  case (job_admission_in_flight i l)
  then show ?thesis
    using assms(2) weight_ge [of i "la_jobs s" "on_lane l"]
    by (auto simp: counts_ok_def Release_counts jobs_weight on_lane_def)
next
  case (job_run i l)
  then show ?thesis
    using assms(2) weight_ge [of i "la_jobs s" "on_lane l"]
    by (auto simp: counts_ok_def jobs_weight on_lane_def)
next
  case (job_session_active i l)
  then show ?thesis
    using assms(2) weight_ge [of i "la_jobs s" "on_lane l"]
    by (auto simp: counts_ok_def Release_counts jobs_weight on_lane_def)
next
  case (job_end i l)
  then show ?thesis
    using assms(2) weight_ge [of i "la_jobs s" "on_lane l"]
    by (auto simp: counts_ok_def Release_counts jobs_weight on_lane_def)
next
  case (adm_start i tenant todo)
  then show ?thesis using assms(2) by (auto simp: counts_ok_def adms_weight adm_on_lane_def)
next
  case (adm_no_lane i tenant p todo kept held)
  then show ?thesis
    using assms(2) weight_ge [of i "la_adms s" "adm_on_lane _"]
    by (auto simp: counts_ok_def adms_weight adm_on_lane_def)
next
  case (adm_register i tenant p todo kept held l)
  then show ?thesis
    using assms(2) weight_ge [of i "la_adms s" "adm_on_lane _"]
    by (auto simp: counts_ok_def adms_weight adm_on_lane_def Enter_counts)
next
  case (adm_keep i tenant p todo kept held l)
  then show ?thesis
    using assms(2) weight_ge [of i "la_adms s" "adm_on_lane _"]
    by (auto simp: counts_ok_def adms_weight adm_on_lane_def)
next
  case (adm_skip i tenant p todo kept held l)
  then show ?thesis
    using assms(2) weight_ge [of i "la_adms s" "adm_on_lane _"]
    by (auto simp: counts_ok_def adms_weight adm_on_lane_def Release_counts)
next
  case (adm_reserve i tenant kept held r w)
  then show ?thesis
    using assms(2) weight_ge [of i "la_adms s" "adm_on_lane _"]
    by (auto simp: counts_ok_def adms_weight adm_on_lane_def)
next
  case (adm_claim i tenant kept held c w)
  then show ?thesis
    using assms(2) weight_ge [of i "la_adms s" "adm_on_lane _"]
    by (auto simp: counts_ok_def adms_weight adm_on_lane_def)
next
  case (adm_settle i held)
  then show ?thesis
    using assms(2) by (auto simp: counts_ok_def adms_weight adm_on_lane_def release_all_counts)
next
  case (voice_change op)
  then show ?thesis using assms(2) by (simp add: counts_ok_def)
next
  case (time_passes t)
  then show ?thesis using assms(2) by (simp add: counts_ok_def)
qed

subsection \<open>Who has looked at what\<close>

text \<open>The lanes an admission has found free of jobs and may still reserve a placement on.\<close>

fun cleared :: "adm_phase \<Rightarrow> string list" where
  "cleared (AAdmitting t todo kept held) = held"
| "cleared (AChecking t todo kept held l) = held"
| "cleared _ = []"

lemma cleared_on_lane: "l \<in> set (cleared a) \<Longrightarrow> adm_on_lane l a \<noteq> 0"
proof -
  assume "l \<in> set (cleared a)"
  then have "count_list (cleared a) l \<noteq> 0" by (simp add: count_list_0_iff)
  moreover have "count_list (cleared a) l \<le> adm_on_lane l a" by (cases a) (auto simp: adm_on_lane_def)
  ultimately show ?thesis by linarith
qed

definition claims_lane :: "job_phase \<Rightarrow> string \<Rightarrow> bool" where
  "claims_lane p l = (p = JAlone l \<or> p = JRunning l)"

definition apart :: "lane_state \<Rightarrow> bool" where
  "apart s =
     (\<forall>p \<in> set (la_jobs s). \<forall>a \<in> set (la_adms s). \<forall>l. claims_lane p l \<longrightarrow> l \<notin> set (cleared a))"

fun kept_cleared :: "topology_lanes \<Rightarrow> adm_phase \<Rightarrow> bool" where
  "kept_cleared lanes (AAdmitting t todo kept held) =
     (\<forall>p \<in> set kept. lane_of_place lanes t p = [] \<or> lane_of_place lanes t p \<in> set held)"
| "kept_cleared lanes (AChecking t todo kept held l) =
     (l = lane_of_place lanes t (hd todo) \<and>
      (\<forall>p \<in> set kept. lane_of_place lanes t p = [] \<or> lane_of_place lanes t p \<in> set held))"
| "kept_cleared lanes _ = True"

definition phases_ok :: "topology_lanes \<Rightarrow> lane_state \<Rightarrow> bool" where
  "phases_ok lanes s =
     ((\<forall>a \<in> set (la_adms s). kept_cleared lanes a) \<and>
      (\<forall>p \<in> set (la_jobs s). job_lane p \<noteq> Some []) \<and>
      (\<forall>a \<in> set (la_adms s). [] \<notin> set (adm_lanes a)))"

lemma set_update: "x \<in> set (xs[i := y]) \<Longrightarrow> x = y \<or> x \<in> set xs"
  using set_update_subset_insert by fastforce

lemma phases_step:
  assumes "lane_step lanes s s'" "phases_ok lanes s"
  shows "phases_ok lanes s'"
proof -
  have old: "i < length (la_adms s) \<Longrightarrow> kept_cleared lanes (la_adms s ! i) \<and> [] \<notin> set (adm_lanes (la_adms s ! i))"
    "j < length (la_jobs s) \<Longrightarrow> job_lane (la_jobs s ! j) \<noteq> Some []" for i j
    using assms(2) by (auto simp: phases_ok_def)
  show ?thesis
    using assms(1)
  proof cases
    case (adm_keep i tenant p todo kept held l)
    then have "kept_cleared lanes (AAdmitting tenant todo (kept @ [p]) (l # held))"
      using old(1) [of i] by auto
    then show ?thesis
      using adm_keep assms(2) old(1) [of i] by (auto simp: phases_ok_def dest!: set_update)
  qed (use assms(2) in \<open>auto simp: phases_ok_def dest!: set_update dest: old\<close>)
qed

lemma apart_job:
  assumes "apart s" "la_jobs s' = (la_jobs s)[i := p]" "la_adms s' = la_adms s"
    "\<And>l a. claims_lane p l \<Longrightarrow> a \<in> set (la_adms s) \<Longrightarrow> l \<notin> set (cleared a)"
  shows "apart s'"
  unfolding apart_def
proof (intro ballI allI impI)
  fix q a l assume "q \<in> set (la_jobs s')" "a \<in> set (la_adms s')" "claims_lane q l"
  then show "l \<notin> set (cleared a)"
    using assms set_update [of q "la_jobs s" i p] unfolding apart_def by auto
qed

lemma apart_adm:
  assumes "apart s" "la_jobs s' = la_jobs s" "la_adms s' = (la_adms s)[i := a]"
    "\<And>l p. l \<in> set (cleared a) \<Longrightarrow> p \<in> set (la_jobs s) \<Longrightarrow> \<not> claims_lane p l"
  shows "apart s'"
  unfolding apart_def
proof (intro ballI allI impI)
  fix p b l assume "p \<in> set (la_jobs s')" "b \<in> set (la_adms s')" "claims_lane p l"
  then show "l \<notin> set (cleared b)"
    using assms set_update [of b "la_adms s" i a] unfolding apart_def by auto
qed

lemma apart_frame:
  "apart s \<Longrightarrow> la_jobs s' = la_jobs s \<Longrightarrow> la_adms s' = la_adms s \<Longrightarrow> apart s'"
  by (simp add: apart_def)

lemma apartD:
  "apart s \<Longrightarrow> i < length (la_jobs s) \<Longrightarrow> claims_lane (la_jobs s ! i) l \<Longrightarrow> a \<in> set (la_adms s) \<Longrightarrow>
   l \<notin> set (cleared a)"
  unfolding apart_def by (meson nth_mem)

lemma apartD2:
  "apart s \<Longrightarrow> i < length (la_adms s) \<Longrightarrow> l \<in> set (cleared (la_adms s ! i)) \<Longrightarrow> p \<in> set (la_jobs s) \<Longrightarrow>
   \<not> claims_lane p l"
  unfolding apart_def by (meson nth_mem)

lemma no_admission:
  assumes "counts_ok s" "LaneHolders LaneVoice l (la_counts s) = 0" "l \<noteq> []" "a \<in> set (la_adms s)"
  shows "l \<notin> set (cleared a)"
proof -
  have "weight (adm_on_lane l) (la_adms s) = 0"
    using assms(1-3) by (simp add: counts_ok_def LaneHolders_def)
  then have "adm_on_lane l a = 0" using assms(4) by (rule weight_zero)
  then show ?thesis using cleared_on_lane by blast
qed

lemma no_job:
  assumes "counts_ok s" "LaneHolders LaneJob l (la_counts s) = 0" "l \<noteq> []" "p \<in> set (la_jobs s)"
  shows "\<not> claims_lane p l"
proof -
  have "weight (on_lane l) (la_jobs s) = 0"
    using assms(1-3) by (simp add: counts_ok_def LaneHolders_def)
  then have "on_lane l p = 0" using assms(4) by (rule weight_zero)
  then show ?thesis by (auto simp: on_lane_def claims_lane_def split: if_splits)
qed

lemma claims_simps [simp]:
  "\<not> claims_lane JIdle l" "\<not> claims_lane (JRegistered l') l"
  "claims_lane (JAlone l') l = (l' = l)" "claims_lane (JRunning l') l = (l' = l)"
  by (auto simp: claims_lane_def)

lemma apart_step:
  assumes "lane_step lanes s s'" "apart s" "counts_ok s" "phases_ok lanes s"
  shows "apart s'"
  using assms(1)
proof cases
  case (job_alone i l)
  then have "l \<noteq> []" using assms(4) by (auto simp: phases_ok_def dest!: nth_mem)
  then show ?thesis
    using job_alone no_admission [OF assms(3)] by (intro apart_job [OF assms(2)]) auto
next
  case (job_run i l)
  then show ?thesis
    using apartD [OF assms(2), of i l] by (intro apart_job [OF assms(2)]) auto
next
  case (adm_keep i tenant p todo kept held l)
  then have "l \<noteq> []" using assms(4) by (auto simp: phases_ok_def dest!: nth_mem)
  then have "\<not> claims_lane q k" if "k \<in> set (l # held)" "q \<in> set (la_jobs s)" for q k
    using that adm_keep no_job [OF assms(3), of l q] apartD2 [OF assms(2), of i k q] by auto
  then show ?thesis using adm_keep by (intro apart_adm [OF assms(2)]) auto
next
  case (adm_no_lane i tenant p todo kept held)
  then show ?thesis using apartD2 [OF assms(2), of i] by (intro apart_adm [OF assms(2)]) auto
next
  case (adm_register i tenant p todo kept held l)
  then show ?thesis using apartD2 [OF assms(2), of i] by (intro apart_adm [OF assms(2)]) auto
next
  case (adm_skip i tenant p todo kept held l)
  then show ?thesis using apartD2 [OF assms(2), of i] by (intro apart_adm [OF assms(2)]) auto
next
  case (voice_change op)
  then show ?thesis by (intro apart_frame [OF assms(2)]) auto
next
  case (time_passes t)
  then show ?thesis by (intro apart_frame [OF assms(2)]) auto
qed (auto intro: apart_job [OF assms(2)] apart_adm [OF assms(2)])

subsection \<open>The voice store's side\<close>

definition session_on_lane :: "topology_lanes \<Rightarrow> string \<Rightarrow> vsession \<Rightarrow> bool" where
  "session_on_lane lanes l s =
     (vs_node s = [] \<and> vs_mode s \<noteq> ModeUtterance \<and> vs_instance s \<noteq> [] \<and>
      (\<exists>f. lanes (vs_tenant s) = Some f \<and> f (vs_instance s) = Some l))"

definition lane_taken :: "topology_lanes \<Rightarrow> string \<Rightarrow> gotime \<Rightarrow> voice_store \<Rightarrow> bool" where
  "lane_taken lanes l now m = (\<exists>s \<in> set m. reserves_at now s \<and> session_on_lane lanes l s)"

lemma holders_free:
  "l \<noteq> [] \<Longrightarrow> holders_hold_lane lanes l hs = Some False \<Longrightarrow> h \<in> set hs \<Longrightarrow> lh_node h = [] \<Longrightarrow>
   \<exists>f k. lanes (lh_tenant h) = Some f \<and> f (lh_instance h) = Some k \<and> k \<noteq> l"
  by (induction hs) (auto split: if_splits option.splits)

lemma probe_free:
  assumes "VoiceHoldsLane lanes now m l = Some False" "l \<noteq> []"
  shows "\<not> lane_taken lanes l now m"
proof
  assume "lane_taken lanes l now m"
  then obtain s where s: "s \<in> set m" "reserves_at now s" "session_on_lane lanes l s"
    by (auto simp: lane_taken_def)
  let ?h = "\<lparr>lh_session = vs_id s, lh_tenant = vs_tenant s, lh_target = vs_target s,
    lh_instance = vs_instance s, lh_node = vs_node s\<rparr>"
  have "?h \<in> set (ListLeaseHolders now m)"
    using s by (auto simp: ListLeaseHolders_def session_on_lane_def)
  then show False
    using holders_free [of l lanes "ListLeaseHolders now m" ?h] assms s(3)
    by (auto simp: VoiceHoldsLane_def session_on_lane_def)
qed

lemma lane_taken_later: "lane_taken lanes l t m \<Longrightarrow> t0 \<le> t \<Longrightarrow> lane_taken lanes l t0 m"
  unfolding lane_taken_def using reserves_earlier by blast

lemma lane_taken_quiet:
  assumes "lane_taken lanes l t m'" "list_all2 (vstep_rel t) m m'"
  shows "lane_taken lanes l t m"
proof -
  obtain s' where s': "s' \<in> set m'" "reserves_at t s'" "session_on_lane lanes l s'"
    using assms(1) by (auto simp: lane_taken_def)
  obtain s where s: "s \<in> set m" "vstep_rel t s s'" using all2_mem [OF assms(2) s'(1)] by blast
  have "vs_tenant s' = vs_tenant s" "vs_mode s' = vs_mode s" "vs_node s' = [] \<longrightarrow> vs_node s = []"
    "vkeeps t s s'"
    using s(2) by (simp_all add: vstep_rel_def vlife_def)
  then have "reserves_at t s \<and> session_on_lane lanes l s"
    using s'(2,3) by (auto simp: vkeeps_def session_on_lane_def)
  then show ?thesis using s(1) by (auto simp: lane_taken_def)
qed

text \<open>An admission only adds a session on the lane of a placement it was given.\<close>

lemma placed_lane:
  assumes "first_free active tenant target ps = Some q" "lanes tenant = Some f" "f (pl_instance q) = Some l"
  shows "\<exists>p \<in> set ps. lane_of_place lanes tenant p = l"
proof -
  obtain p where p: "p \<in> set ps" "pl_clean p = (q, True)"
    using first_free_SomeD [OF assms(1)] by blast
  then have "pl_instance q = trim_space (pl_instance p)" by (auto simp: pl_clean_def Let_def)
  then show ?thesis using p(1) assms(2,3) by (intro bexI [of _ p]) (simp_all add: lane_of_place_def)
qed

lemma lane_taken_reserve:
  assumes "lane_taken lanes l t (fst (VoiceReserve w r m))"
  shows "lane_taken lanes l t m \<or> (\<exists>p \<in> set (rr_places r). lane_of_place lanes (rr_tenant r) p = l)"
proof (cases rule: VoiceReserve_cases [of w r m])
  case (refused e)
  then show ?thesis using assms by simp
next
  case (admitted place s)
  then have "lane_taken lanes l t m \<or> session_on_lane lanes l s"
    using assms by (auto simp: lane_taken_def)
  moreover have "\<exists>p \<in> set (rr_places r). lane_of_place lanes (rr_tenant r) p = l"
    if on: "session_on_lane lanes l s"
  proof (cases place)
    case None
    then show ?thesis using on admitted(1) by (simp add: session_on_lane_def)
  next
    case (Some q)
    obtain f where "lanes (rr_tenant r) = Some f" "f (pl_instance q) = Some l"
      using on admitted(1) Some by (auto simp: session_on_lane_def)
    then show ?thesis using admitted(5) Some placed_lane by blast
  qed
  ultimately show ?thesis by blast
qed

lemma lane_taken_claim:
  assumes "lane_taken lanes l t (fst (VoiceClaim w c m))"
  shows "lane_taken lanes l t m \<or> (\<exists>p \<in> set (cr_places c). lane_of_place lanes (cr_tenant c) p = l)"
proof (cases rule: VoiceClaim_cases [of w c m])
  case refused
  then show ?thesis using assms by simp
next
  case (claimed s q s')
  obtain x where x: "x \<in> set (vput m s')" "reserves_at t x" "session_on_lane lanes l x"
    using assms claimed(5) by (auto simp: lane_taken_def)
  show ?thesis
  proof (cases "x = s'")
    case True
    have "vs_tenant s = cr_tenant c" using claimed(1) by (auto dest: vfind_SomeD)
    then obtain f where "lanes (cr_tenant c) = Some f" "f (pl_instance q) = Some l"
      using x(3) True claimed(4) by (auto simp: session_on_lane_def)
    then show ?thesis using claimed(3) placed_lane by blast
  next
    case False
    then show ?thesis using x vput_mem [OF x(1)] by (auto simp: lane_taken_def)
  qed
qed

subsection \<open>Mutual exclusion\<close>

definition no_overlap :: "topology_lanes \<Rightarrow> lane_state \<Rightarrow> bool" where
  "no_overlap lanes s =
     (\<forall>p \<in> set (la_jobs s). \<forall>l. p = JRunning l \<longrightarrow> \<not> lane_taken lanes l (la_now s) (la_voice s))"

definition lane_inv :: "topology_lanes \<Rightarrow> lane_state \<Rightarrow> bool" where
  "lane_inv lanes s =
     (counts_ok s \<and> phases_ok lanes s \<and> apart s \<and> no_overlap lanes s \<and> vids_ok (la_voice s))"

lemma kept_not_running:
  assumes inv: "lane_inv lanes s" and i: "i < length (la_adms s)"
    "la_adms s ! i = AAdmitting tenant [] kept held" and p: "p \<in> set kept"
    and j: "JRunning l \<in> set (la_jobs s)"
  shows "lane_of_place lanes tenant p \<noteq> l"
proof
  assume on: "lane_of_place lanes tenant p = l"
  have "job_lane (JRunning l) \<noteq> Some []" using inv j unfolding lane_inv_def phases_ok_def by blast
  then have "l \<noteq> []" by simp
  moreover have "kept_cleared lanes (la_adms s ! i)"
    using inv i(1) by (auto simp: lane_inv_def phases_ok_def)
  ultimately have "l \<in> set (cleared (la_adms s ! i))" using on p i(2) by auto
  then show False using apartD2 [of s i l "JRunning l"] inv i(1) j by (simp add: lane_inv_def)
qed

lemma overlap_frame:
  assumes "no_overlap lanes s" "\<And>l. JRunning l \<in> set (la_jobs s') \<Longrightarrow> JRunning l \<in> set (la_jobs s)"
    "la_voice s' = la_voice s" "la_now s' = la_now s"
  shows "no_overlap lanes s'"
  using assms by (auto simp: no_overlap_def)

lemma overlap_step:
  assumes step: "lane_step lanes s s'" and inv: "lane_inv lanes s"
  shows "no_overlap lanes s'"
proof -
  have no: "no_overlap lanes s" and ids: "vids_ok (la_voice s)" using inv by (simp_all add: lane_inv_def)
  show ?thesis
    using step
  proof cases
    case (job_run i l)
    then have "l \<noteq> []" using inv by (auto simp: lane_inv_def phases_ok_def dest!: nth_mem)
    then show ?thesis
      using no probe_free job_run by (auto simp: no_overlap_def dest!: set_update)
  next
    case (adm_reserve i tenant kept held r w)
    have "\<not> lane_taken lanes l (la_now s) (fst (VoiceReserve w r (la_voice s)))"
      if "JRunning l \<in> set (la_jobs s)" for l
      using lane_taken_reserve [of lanes l "la_now s" w r "la_voice s"] no that adm_reserve
        kept_not_running [OF inv, of i tenant kept held _ l] by (auto simp: no_overlap_def)
    then show ?thesis using adm_reserve by (auto simp: no_overlap_def)
  next
    case (adm_claim i tenant kept held c w)
    have "\<not> lane_taken lanes l (la_now s) (fst (VoiceClaim w c (la_voice s)))"
      if "JRunning l \<in> set (la_jobs s)" for l
      using lane_taken_claim [of lanes l "la_now s" w c "la_voice s"] no that adm_claim
        kept_not_running [OF inv, of i tenant kept held _ l] by (auto simp: no_overlap_def)
    then show ?thesis using adm_claim by (auto simp: no_overlap_def)
  next
    case (voice_change op)
    then show ?thesis
      using no lane_taken_quiet [OF _ quiet_step [OF ids voice_change(3,2)]]
      by (auto simp: no_overlap_def)
  next
    case (time_passes t)
    then show ?thesis using no lane_taken_later by (auto simp: no_overlap_def)
  qed (auto intro!: overlap_frame [OF no] dest!: set_update)
qed

lemma lane_inv_init: "lane_inv lanes (lane_init jobs adms)"
  by (auto simp: lane_inv_def lane_init_def counts_ok_def weight_def on_lane_def adm_on_lane_def
      phases_ok_def apart_def no_overlap_def vids_ok_def)

lemma vids_step:
  assumes "lane_step lanes s s'" "vids_ok (la_voice s)"
  shows "vids_ok (la_voice s')"
  using assms(1)
proof cases
  case (adm_reserve i tenant kept held r w)
  then show ?thesis using Reserve_ids [OF assms(2)] by simp
next
  case (adm_claim i tenant kept held c w)
  then show ?thesis using voice_step_ids [OF assms(2), of "VClaim w c"] by simp
next
  case (voice_change op)
  then show ?thesis using voice_step_ids [OF assms(2)] by simp
qed (use assms(2) in auto)

lemma lane_inv_step: "lane_step lanes s s' \<Longrightarrow> lane_inv lanes s \<Longrightarrow> lane_inv lanes s'"
  using counts_step phases_step apart_step overlap_step vids_step unfolding lane_inv_def by metis

lemma lane_reach_inv: "lane_reach lanes s \<Longrightarrow> lane_inv lanes s"
  by (induction rule: lane_reach.induct) (auto intro: lane_inv_init lane_inv_step)

text \<open>C22. Jobs and voice never share a browser. Under every interleaving of any number of jobs and
  voice admissions (each registers first and looks second), of the voice store's other
  operations and of time, a job that runs on a lane and a live-mode voice session that reserves
  a browser environment on the primary are never on the same lane, held terminations included.\<close>

theorem jobs_and_voice_exclude_each_other:
  assumes "lane_reach lanes s" "JRunning l \<in> set (la_jobs s)"
    "v \<in> set (la_voice s)" "reserves_at (la_now s) v" "vs_mode v \<noteq> ModeUtterance"
    "vs_node v = []" "vs_instance v \<noteq> []" "lanes (vs_tenant v) = Some f"
  shows "f (vs_instance v) \<noteq> Some l"
  using lane_reach_inv [OF assms(1)] assms(2-8)
  by (auto simp: lane_inv_def no_overlap_def lane_taken_def session_on_lane_def)

definition wit_lanes :: topology_lanes where
  "wit_lanes t = (if t = ''t'' then Some [''b'' \<mapsto> ''browser:1''] else None)"

definition wit_place :: placement where
  "wit_place = \<lparr>pl_identity = ''i'', pl_instance = ''b''\<rparr>"

definition wit_request :: reserve_req where
  "wit_request = \<lparr>rr_id = ''s'', rr_tenant = ''t'', rr_app = ''a'', rr_target = ''x'', rr_mode = [],
     rr_job = [], rr_places = [wit_place], rr_max_active = 0, rr_max_queued = 0, rr_ttl = 50,
     rr_now = 10\<rparr>"

lemma wit_session:
  "case fst (VoiceReserve 1 wit_request []) of
     [v] \<Rightarrow> vs_status v = VConnecting \<and> vs_mode v = ModeLive \<and> vs_node v = [] \<and>
       vs_instance v = ''b'' \<and> vs_tenant v = ''t''
   | _ \<Rightarrow> False"
  by code_simp

lemma wit_place_lane: "lane_of_place wit_lanes ''t'' wit_place = ''browser:1''"
  by code_simp

abbreviation wit_state :: "lane_counts \<Rightarrow> voice_store \<Rightarrow> job_phase \<Rightarrow> adm_phase \<Rightarrow> lane_state" where
  "wit_state c m p a \<equiv> \<lparr>la_counts = c, la_voice = m, la_now = 0, la_jobs = [p], la_adms = [a]\<rparr>"

abbreviation wit_counts :: "nat \<Rightarrow> lane_counts" where
  "wit_counts n \<equiv> (\<lambda>l k. if l = ''browser:2'' \<and> k = LaneJob then 1
     else if l = ''browser:1'' \<and> k = LaneVoice then n else 0)"

lemma wit_next: "lane_reach lanes s \<Longrightarrow> lane_step lanes s t \<Longrightarrow> t = s' \<Longrightarrow> lane_reach lanes s'"
  by (auto intro: lane_reach.step)

lemma wit_lane_reach:
  "lane_reach wit_lanes (wit_state (wit_counts 1) (fst (VoiceReserve 1 wit_request []))
     (JRunning ''browser:2'') (ADone [''browser:1'']))"
proof -
  let ?b = "''browser:2''" and ?v = "''browser:1''"
  have "lane_reach wit_lanes (wit_state (\<lambda>_ _. 0) [] JIdle AIdle)"
    using lane_reach.start [of wit_lanes 1 1] by (simp add: lane_init_def)
  then have "lane_reach wit_lanes (wit_state (wit_counts 0) [] (JRegistered ?b) AIdle)"
    by (rule wit_next [OF _ lane_step.job_register [of 0 _ ?b]]) (simp_all add: EnterLane_def fun_eq_iff)
  then have "lane_reach wit_lanes (wit_state (wit_counts 0) [] (JAlone ?b) AIdle)"
    by (rule wit_next [OF _ lane_step.job_alone [of 0 _ ?b]]) (simp_all add: LaneHolders_def)
  then have "lane_reach wit_lanes (wit_state (wit_counts 0) [] (JRunning ?b) AIdle)"
    by (rule wit_next [OF _ lane_step.job_run [of 0 _ ?b]])
      (simp_all add: VoiceHoldsLane_def ListLeaseHolders_def)
  then have "lane_reach wit_lanes
      (wit_state (wit_counts 0) [] (JRunning ?b) (AAdmitting ''t'' [wit_place] [] []))"
    by (rule wit_next [OF _ lane_step.adm_start [of 0 _ _ "''t''" "[wit_place]"]]) simp_all
  then have "lane_reach wit_lanes
      (wit_state (wit_counts 1) [] (JRunning ?b) (AChecking ''t'' [wit_place] [] [] ?v))"
    by (rule wit_next [OF _ lane_step.adm_register [of 0 _ "''t''" wit_place "[]" "[]" "[]" wit_lanes ?v]])
      (simp_all add: wit_place_lane EnterLane_def fun_eq_iff)
  then have "lane_reach wit_lanes
      (wit_state (wit_counts 1) [] (JRunning ?b) (AAdmitting ''t'' [] [wit_place] [?v]))"
    by (rule wit_next [OF _ lane_step.adm_keep [of 0 _ "''t''" wit_place "[]" "[]" "[]" ?v]])
      (simp_all add: LaneHolders_def)
  then show ?thesis
    by (rule wit_next [OF _ lane_step.adm_reserve [of 0 _ "''t''" "[wit_place]" "[?v]" wit_request _ 1]])
      (simp_all add: wit_request_def)
qed

lemma jobs_and_voice_exclude_each_other_witness:
  "\<exists>v :: vsession. [''b'' \<mapsto> ''browser:1''] (vs_instance v) = Some ''browser:1'' \<and>
     [''b'' \<mapsto> ''browser:1''] (vs_instance v) \<noteq> Some ''browser:2''"
proof -
  obtain v where v: "fst (VoiceReserve 1 wit_request []) = [v]" "vs_status v = VConnecting"
    "vs_mode v = ModeLive" "vs_node v = []" "vs_instance v = ''b''" "vs_tenant v = ''t''"
    using wit_session by (auto split: list.splits)
  have "[''b'' \<mapsto> ''browser:1''] (vs_instance v) \<noteq> Some ''browser:2''"
    by (rule jobs_and_voice_exclude_each_other [OF wit_lane_reach])
      (use v in \<open>simp_all add: reserves_at_def wit_lanes_def fun_upd_def\<close>)
  with v(5) show ?thesis by auto
qed

text \<open>Registrations do not leak: in every reachable state the count of a lane is the number of
  jobs and admissions that are on it, so once all of them are idle every count is back at zero
  and the lane is free for either side.\<close>

theorem lane_registrations_are_balanced:
  assumes "lane_reach lanes s" "\<forall>p \<in> set (la_jobs s). p = JIdle" "\<forall>a \<in> set (la_adms s). a = AIdle"
  shows "LaneHolders kind l (la_counts s) = 0"
proof -
  have "counts_ok s" using lane_reach_inv [OF assms(1)] by (simp add: lane_inv_def)
  moreover have "weight (on_lane l) (la_jobs s) = 0" "weight (adm_on_lane l) (la_adms s) = 0"
    using assms(2,3) by (auto simp: weight_def on_lane_def adm_on_lane_def)
  ultimately show ?thesis by (cases kind) (auto simp: counts_ok_def LaneHolders_def)
qed

lemma lane_registrations_are_balanced_witness:
  "LaneHolders LaneJob ''browser:1'' (la_counts (lane_init 1 1)) = 0"
  by (rule lane_registrations_are_balanced [OF lane_reach.start]) (simp_all add: lane_init_def)

end
