(* ===== verification/Admission.thy ===== *)
theory Admission
  imports Prelude
begin

text \<open>
  Job admission (\<open>topology/admission_sql.go\<close>, \<open>topology/concurrency.go\<close>): the shared token
  table that several gateway replicas admit against, and the registry in front of it, which
  counts in the process when no table is configured.

  Each method of \<open>SQLTokenBackend\<close> is one transaction, modelled as one step on the three
  tables; a database failure rolls back and leaves them as they were, so it is not a case of
  its own. Random token ids and the clock are parameters.
\<close>

subsection \<open>The token tables\<close>

record lane =
  ln_key :: string
  ln_cap :: int
  ln_dynamic :: bool

record token =
  tk_id :: string
  tk_job :: string
  tk_expires :: gotime
  tk_created :: gotime

record token_db =
  db_tokens :: "token list"
  db_lanes :: "(string \<times> string) list"
  db_caps :: "string \<Rightarrow> int option"

definition empty_db :: token_db where
  "empty_db = \<lparr>db_tokens = [], db_lanes = [], db_caps = (\<lambda>_. None)\<rparr>"

text \<open>\<open>liveCountSQL\<close>: the lane rows joined with the tokens that count.\<close>

definition tk_live :: "gotime \<Rightarrow> token \<Rightarrow> bool" where
  "tk_live now t = (tk_job t \<noteq> [] \<or> now < tk_expires t)"

definition liveCount :: "string \<Rightarrow> gotime \<Rightarrow> token_db \<Rightarrow> nat" where
  "liveCount key now db =
     length (filter (\<lambda>((tid, k), t). tid = tk_id t \<and> k = key \<and> tk_live now t)
       (List.product (db_lanes db) (db_tokens db)))"

definition lane_ceiling :: "token_db \<Rightarrow> lane \<Rightarrow> int" where
  "lane_ceiling db l =
     (if ln_dynamic l then
        (case db_caps db (ln_key l) of
           Some stored \<Rightarrow> if 0 < stored then stored else ln_cap l
         | None \<Rightarrow> ln_cap l)
      else ln_cap l)"

definition lane_full :: "token_db \<Rightarrow> gotime \<Rightarrow> lane \<Rightarrow> bool" where
  "lane_full db now l =
     (\<not> lane_ceiling db l \<le> 0 \<and> lane_ceiling db l \<le> int (liveCount (ln_key l) now db))"

datatype token_error = ConstraintViolated | ErrTokenLost

text \<open>
  \<open>newid\<close> is what \<open>newTokenID\<close> drew. Both tables have a primary key: a token id that exists, or
  one lane named twice, fails the insert and the transaction with it.
\<close>

definition AcquireToken ::
  "string \<Rightarrow> lane list \<Rightarrow> dur \<Rightarrow> gotime \<Rightarrow> token_db \<Rightarrow> token_db \<times> (token_error + string \<times> bool)" where
  "AcquireToken newid lanes ttl now db =
     (if lanes = [] then (db, Inr ([], True))
      else let sorted = sort_key ln_key lanes in
      if \<exists>l \<in> set sorted. lane_full db now l then (db, Inr ([], False))
      else if newid \<in> tk_id ` set (db_tokens db) \<or> \<not> distinct (map ln_key sorted)
      then (db, Inl ConstraintViolated)
      else (db\<lparr>db_tokens := db_tokens db @
                 [\<lparr>tk_id = newid, tk_job = [], tk_expires = now + ttl, tk_created = now\<rparr>],
               db_lanes := db_lanes db @ map (\<lambda>l. (newid, ln_key l)) sorted\<rparr>,
            Inr (newid, True)))"

definition AssociateToken :: "string \<Rightarrow> string \<Rightarrow> token_db \<Rightarrow> token_db" where
  "AssociateToken tid job db =
     db\<lparr>db_tokens := map (\<lambda>t. if tk_id t = tid then t\<lparr>tk_job := job\<rparr> else t) (db_tokens db)\<rparr>"

definition RenewToken ::
  "string \<Rightarrow> dur \<Rightarrow> gotime \<Rightarrow> token_db \<Rightarrow> token_db \<times> token_error option" where
  "RenewToken tid ttl now db =
     (let hit = (\<lambda>t. tk_id t = tid \<and> tk_job t = [] \<and> now < tk_expires t) in
      if \<exists>t \<in> set (db_tokens db). hit t
      then (db\<lparr>db_tokens := map (\<lambda>t. if hit t then t\<lparr>tk_expires := now + ttl\<rparr> else t) (db_tokens db)\<rparr>,
            None)
      else (db, Some ErrTokenLost))"

definition deleteTokens :: "(token \<Rightarrow> bool) \<Rightarrow> token_db \<Rightarrow> token_db" where
  "deleteTokens w db =
     db\<lparr>db_lanes := filter (\<lambda>(tid, k). tid \<notin> tk_id ` set (filter w (db_tokens db))) (db_lanes db),
        db_tokens := filter (\<lambda>t. \<not> w t) (db_tokens db)\<rparr>"

definition ReleaseToken :: "string \<Rightarrow> token_db \<Rightarrow> token_db" where
  "ReleaseToken tid = deleteTokens (\<lambda>t. tk_id t = tid)"

definition ReleaseJobToken :: "string \<Rightarrow> token_db \<Rightarrow> token_db" where
  "ReleaseJobToken job db =
     (if trim_space job = [] then db else deleteTokens (\<lambda>t. tk_job t = job) db)"

definition PutLaneCap :: "string \<Rightarrow> int \<Rightarrow> token_db \<Rightarrow> token_db" where
  "PutLaneCap key cap db = db\<lparr>db_caps := (db_caps db)(key := Some cap)\<rparr>"

definition TokenSweep :: "gotime \<Rightarrow> token_db \<Rightarrow> token_db \<times> nat" where
  "TokenSweep now db =
     (let w = (\<lambda>t. tk_job t = [] \<and> tk_expires t \<le> now);
          n = length (filter w (db_tokens db)) in
      if n = 0 then (db, 0) else (deleteTokens w db, n))"

definition LaneLive :: "string \<Rightarrow> gotime \<Rightarrow> token_db \<Rightarrow> nat" where
  "LaneLive key now db = liveCount key now db"

text \<open>The part of a lane key before its first colon; counts per such kind.\<close>

definition lane_kind_of :: "string \<Rightarrow> string" where
  "lane_kind_of key = takeWhile (\<lambda>c. c \<noteq> CHR '':'') key"

definition LaneKindCounts :: "gotime \<Rightarrow> token_db \<Rightarrow> string \<Rightarrow> nat" where
  "LaneKindCounts now db kind =
     length (filter (\<lambda>((tid, k), t). tid = tk_id t \<and> tk_live now t \<and> lane_kind_of k = kind)
       (List.product (db_lanes db) (db_tokens db)))"

subsection \<open>The registry\<close>

abbreviation defaultConcurrencyCap :: int where "defaultConcurrencyCap \<equiv> 2000"
abbreviation unassociatedTokenTTL :: dur where "unassociatedTokenTTL \<equiv> 2 * minute"

record conc_view =
  cv_target :: string
  cv_identity :: string
  cv_cap :: int
  cv_min :: int
  cv_max :: int
  cv_in_flight :: int
  cv_reason :: string
  cv_changed :: gotime

record lane_limits =
  lim_app :: int
  lim_tenant :: int
  lim_global :: int

record held_token =
  ht_tenant :: string
  ht_target :: string
  ht_identity :: string

text \<open>
  \<open>byTenant\<close> and \<open>inFlight\<close> are nested Go maps; a missing count reads as 0 there, so \<open>inFlight\<close>
  is a function. \<open>rg_backend\<close> is the shared table, \<open>None\<close> for the process-local mode.
\<close>

record registry =
  rg_views :: "((string \<times> string) \<times> conc_view) list"
  rg_in_flight :: "string \<times> string \<Rightarrow> int"
  rg_held :: "string \<Rightarrow> held_token option"
  rg_backend :: "token_db option"
  rg_limits :: lane_limits
  rg_default_cap :: int
  rg_pending :: "string \<Rightarrow> string list"

definition NewConcurrencyRegistry :: registry where
  "NewConcurrencyRegistry =
     \<lparr>rg_views = [], rg_in_flight = (\<lambda>_. 0), rg_held = (\<lambda>_. None), rg_backend = None,
      rg_limits = \<lparr>lim_app = 0, lim_tenant = 0, lim_global = 0\<rparr>, rg_default_cap = 0,
      rg_pending = (\<lambda>_. [])\<rparr>"

definition UseBackend :: "token_db \<Rightarrow> lane_limits \<Rightarrow> registry \<Rightarrow> registry" where
  "UseBackend b ls r = r\<lparr>rg_backend := Some b, rg_limits := ls, rg_pending := (\<lambda>_. [])\<rparr>"

definition SetDefaultLaneCap :: "int \<Rightarrow> registry \<Rightarrow> registry" where
  "SetDefaultLaneCap n r = (if 0 < n then r\<lparr>rg_default_cap := n\<rparr> else r)"

definition concurrencyKey :: "string \<Rightarrow> string \<Rightarrow> string" where
  "concurrencyKey target identity = target @ [CHR 0x1F] @ identity"

definition laneKeyFor :: "string \<Rightarrow> string \<Rightarrow> string \<Rightarrow> string" where
  "laneKeyFor tenant target identity = ''lane:'' @ tenant @ ''|'' @ concurrencyKey target identity"

definition put_view :: "string \<times> string \<Rightarrow> conc_view \<Rightarrow>
    ((string \<times> string) \<times> conc_view) list \<Rightarrow> ((string \<times> string) \<times> conc_view) list" where
  "put_view k v vs = (k, v) # filter (\<lambda>(k', _). k' \<noteq> k) vs"

definition Report :: "gotime \<Rightarrow> string \<Rightarrow> conc_view \<Rightarrow> registry \<Rightarrow> registry" where
  "Report wall tenant v r =
     (let tenant = trim_space tenant in
      if tenant = [] then r
      else let v = (if IsZero (cv_changed v) then v\<lparr>cv_changed := wall\<rparr> else v);
               r = r\<lparr>rg_views := put_view (tenant, concurrencyKey (cv_target v) (cv_identity v)) v
                                  (rg_views r)\<rparr> in
      case rg_backend r of
        None \<Rightarrow> r
      | Some b \<Rightarrow>
          if 0 < cv_cap v
          then r\<lparr>rg_backend := Some (PutLaneCap (laneKeyFor tenant (cv_target v) (cv_identity v))
                                  (cv_cap v) b)\<rparr>
          else r)"

definition ListConcurrency :: "string \<Rightarrow> registry \<Rightarrow> conc_view list" where
  "ListConcurrency tenant r =
     sort_key (\<lambda>v. (cv_target v, cv_identity v))
       (map snd (filter (\<lambda>((t, _), _). t = tenant) (rg_views r)))"

definition laneCap :: "registry \<Rightarrow> string \<Rightarrow> string \<Rightarrow> string \<Rightarrow> int" where
  "laneCap r tenant target identity =
     (let fallback = (if 0 < rg_default_cap r then rg_default_cap r else defaultConcurrencyCap) in
      case map_of (rg_views r) (tenant, concurrencyKey target identity) of
        Some v \<Rightarrow> if 0 < cv_cap v then cv_cap v else fallback
      | None \<Rightarrow> fallback)"

definition admission_lanes :: "registry \<Rightarrow> string \<Rightarrow> string \<Rightarrow> string \<Rightarrow> lane list" where
  "admission_lanes r tenant target identity =
     [\<lparr>ln_key = laneKeyFor tenant target identity, ln_cap = laneCap r tenant target identity,
       ln_dynamic = True\<rparr>] @
     (if 0 < lim_app (rg_limits r)
      then [\<lparr>ln_key = ''app:'' @ tenant @ ''|'' @ identity, ln_cap = lim_app (rg_limits r),
             ln_dynamic = False\<rparr>] else []) @
     (if 0 < lim_tenant (rg_limits r)
      then [\<lparr>ln_key = ''tenant:'' @ tenant, ln_cap = lim_tenant (rg_limits r),
             ln_dynamic = False\<rparr>] else []) @
     (if 0 < lim_global (rg_limits r)
      then [\<lparr>ln_key = ''global:all'', ln_cap = lim_global (rg_limits r), ln_dynamic = False\<rparr>]
      else [])"

definition pendingKey :: "string \<Rightarrow> string \<Rightarrow> string \<Rightarrow> string" where
  "pendingKey tenant target identity = tenant @ ''|'' @ concurrencyKey target identity"

definition acquireShared ::
  "string \<Rightarrow> gotime \<Rightarrow> string \<Rightarrow> string \<Rightarrow> string \<Rightarrow> token_db \<Rightarrow> registry \<Rightarrow> registry \<times> bool" where
  "acquireShared newid now tenant target identity b r =
     (case AcquireToken newid (admission_lanes r tenant target identity) unassociatedTokenTTL now b of
        (b', Inr (tid, True)) \<Rightarrow>
          let key = pendingKey tenant target identity in
          (r\<lparr>rg_backend := Some b',
             rg_pending := (rg_pending r)(key := rg_pending r key @ [tid])\<rparr>, True)
      | _ \<Rightarrow> (r, False))"

definition AcquireLane ::
  "string \<Rightarrow> gotime \<Rightarrow> string \<Rightarrow> string \<Rightarrow> string \<Rightarrow> registry \<Rightarrow> registry \<times> bool" where
  "AcquireLane newid now tenant target identity r =
     (let tenant = trim_space tenant; target = trim_space target; identity = trim_space identity in
      case rg_backend r of
        Some b \<Rightarrow> acquireShared newid now tenant target identity b r
      | None \<Rightarrow>
          let key = (tenant, concurrencyKey target identity) in
          if laneCap r tenant target identity \<le> rg_in_flight r key then (r, False)
          else (r\<lparr>rg_in_flight := (rg_in_flight r)(key := rg_in_flight r key + 1)\<rparr>, True))"

definition popPending :: "string \<Rightarrow> string \<Rightarrow> string \<Rightarrow> registry \<Rightarrow> registry \<times> string option" where
  "popPending tenant target identity r =
     (let key = pendingKey tenant target identity in
      case rg_pending r key of
        [] \<Rightarrow> (r, None)
      | tid # rest \<Rightarrow> (r\<lparr>rg_pending := (rg_pending r)(key := rest)\<rparr>, Some tid))"

definition decrement :: "string \<times> string \<Rightarrow> registry \<Rightarrow> registry" where
  "decrement key r =
     (if 0 < rg_in_flight r key
      then r\<lparr>rg_in_flight := (rg_in_flight r)(key := rg_in_flight r key - 1)\<rparr> else r)"

definition ReleaseLane :: "string \<Rightarrow> string \<Rightarrow> string \<Rightarrow> registry \<Rightarrow> registry" where
  "ReleaseLane tenant target identity r =
     (let tenant = trim_space tenant; target = trim_space target; identity = trim_space identity in
      case rg_backend r of
        Some b \<Rightarrow>
          (case popPending tenant target identity r of
             (r', Some tid) \<Rightarrow> r'\<lparr>rg_backend := Some (ReleaseToken tid b)\<rparr>
           | (r', None) \<Rightarrow> r')
      | None \<Rightarrow> decrement (tenant, concurrencyKey target identity) r)"

definition MarkAcquired ::
  "string \<Rightarrow> string \<Rightarrow> string \<Rightarrow> string \<Rightarrow> registry \<Rightarrow> registry" where
  "MarkAcquired job tenant target identity r =
     (let job = trim_space job; tenant = trim_space tenant; target = trim_space target;
          identity = trim_space identity in
      if job = [] then r
      else case rg_backend r of
        Some b \<Rightarrow>
          (case popPending tenant target identity r of
             (r', Some tid) \<Rightarrow> r'\<lparr>rg_backend := Some (AssociateToken tid job b)\<rparr>
           | (r', None) \<Rightarrow> r')
      | None \<Rightarrow>
          r\<lparr>rg_held := (rg_held r)(job \<mapsto>
              \<lparr>ht_tenant = tenant, ht_target = target, ht_identity = identity\<rparr>)\<rparr>)"

definition ReleaseForJob :: "string \<Rightarrow> registry \<Rightarrow> registry" where
  "ReleaseForJob job r =
     (let job = trim_space job in
      if job = [] then r
      else case rg_backend r of
        Some b \<Rightarrow> r\<lparr>rg_backend := Some (ReleaseJobToken job b)\<rparr>
      | None \<Rightarrow>
          (case rg_held r job of
             None \<Rightarrow> r
           | Some t \<Rightarrow>
               decrement (ht_tenant t, concurrencyKey (ht_target t) (ht_identity t))
                 (r\<lparr>rg_held := (rg_held r)(job := None)\<rparr>)))"

end
