(* ===== verification/AdmissionProps.thy ===== *)
theory AdmissionProps
  imports Admission
begin

text \<open>
  What admission guarantees: with the shared table, ceilings hold over every interleaving of
  the replicas' transactions, up to one token for each that was tied to its job only after it had
  expired; without it, the registry is a faithful counter of the tokens in hand.
\<close>

subsection \<open>Well-formed tables\<close>

definition tokens_ok :: "token_db \<Rightarrow> bool" where
  "tokens_ok db =
     (distinct (map tk_id (db_tokens db)) \<and> distinct (db_lanes db) \<and>
      fst ` set (db_lanes db) \<subseteq> tk_id ` set (db_tokens db))"

definition lane_holders :: "string \<Rightarrow> gotime \<Rightarrow> token_db \<Rightarrow> token set" where
  "lane_holders key now db =
     {t \<in> set (db_tokens db). (tk_id t, key) \<in> set (db_lanes db) \<and> tk_live now t}"

lemma finite_lane_holders [simp]: "finite (lane_holders key now db)"
  by (simp add: lane_holders_def)

lemma liveCount_card:
  assumes "tokens_ok db"
  shows "liveCount key now db = card (lane_holders key now db)"
proof -
  let ?P = "\<lambda>((tid, k), t). tid = tk_id t \<and> k = key \<and> tk_live now t"
  let ?xs = "filter ?P (List.product (db_lanes db) (db_tokens db))"
  have "distinct (db_tokens db)" using assms by (simp add: tokens_ok_def distinct_map)
  then have "distinct ?xs" using assms by (simp add: tokens_ok_def distinct_product)
  then have "length ?xs = card (set ?xs)" by (rule distinct_card [symmetric])
  also have "set ?xs = (\<lambda>t. ((tk_id t, key), t)) ` lane_holders key now db"
    by (auto simp: lane_holders_def)
  also have "card \<dots> = card (lane_holders key now db)"
    by (rule card_image) (simp add: inj_on_def)
  finally show ?thesis by (simp add: liveCount_def)
qed

lemma tk_live_earlier: "tk_live t' tk \<Longrightarrow> t \<le> t' \<Longrightarrow> tk_live t tk"
  by (auto simp: tk_live_def)

lemma liveCount_later:
  "tokens_ok db \<Longrightarrow> t \<le> t' \<Longrightarrow> liveCount key t' db \<le> liveCount key t db"
  unfolding liveCount_card
  by (intro card_mono) (auto simp: lane_holders_def dest: tk_live_earlier)

subsection \<open>Transactions in order\<close>

datatype token_op =
  TAcquire string "lane list" dur gotime
| TAssociate string string gotime
| TRenew string dur gotime
| TRelease string gotime
| TReleaseJob string gotime
| TPutCap string int gotime
| TSweep gotime

fun token_step :: "token_op \<Rightarrow> token_db \<Rightarrow> token_db" where
  "token_step (TAcquire i ls ttl now) db = fst (AcquireToken i ls ttl now db)"
| "token_step (TAssociate i job now) db = AssociateToken i job db"
| "token_step (TRenew i ttl now) db = fst (RenewToken i ttl now db)"
| "token_step (TRelease i now) db = ReleaseToken i db"
| "token_step (TReleaseJob job now) db = ReleaseJobToken job db"
| "token_step (TPutCap key cap now) db = PutLaneCap key cap db"
| "token_step (TSweep now) db = fst (TokenSweep now db)"

fun token_clock :: "token_op \<Rightarrow> gotime" where
  "token_clock (TAcquire i ls ttl now) = now"
| "token_clock (TAssociate i job now) = now"
| "token_clock (TRenew i ttl now) = now"
| "token_clock (TRelease i now) = now"
| "token_clock (TReleaseJob job now) = now"
| "token_clock (TPutCap key cap now) = now"
| "token_clock (TSweep now) = now"

text \<open>A job id that reaches a token of the lane when the token no longer counts; how often that happens.\<close>

fun late :: "string \<Rightarrow> token_op \<Rightarrow> token_db \<Rightarrow> bool" where
  "late key (TAssociate i job now) db =
     (job \<noteq> [] \<and> (i, key) \<in> set (db_lanes db) \<and> (\<exists>t \<in> set (db_tokens db). tk_id t = i \<and> \<not> tk_live now t))"
| "late key _ db = False"

fun late_associations :: "string \<Rightarrow> token_op list \<Rightarrow> token_db \<Rightarrow> nat" where
  "late_associations key [] db = 0"
| "late_associations key (op # ops) db = of_bool (late key op db) + late_associations key ops (token_step op db)"

text \<open>Every ceiling the operation can put on the lane lies in \<open>1..c\<close>.\<close>

fun capped :: "string \<Rightarrow> int \<Rightarrow> token_op \<Rightarrow> bool" where
  "capped key c (TAcquire i ls ttl now) = (\<forall>l \<in> set ls. ln_key l = key \<longrightarrow> 0 < ln_cap l \<and> ln_cap l \<le> c)"
| "capped key c (TPutCap k cap now) = (k = key \<longrightarrow> cap \<le> c)"
| "capped key c _ = True"

lemma tokens_ok_delete: "tokens_ok db \<Longrightarrow> tokens_ok (deleteTokens w db)"
  by (force simp: tokens_ok_def deleteTokens_def distinct_map_filter)

lemma holders_delete:
  "lane_holders key now (deleteTokens w db) \<subseteq> lane_holders key now db"
  by (auto simp: lane_holders_def deleteTokens_def)

lemma liveCount_delete:
  "tokens_ok db \<Longrightarrow> liveCount key now (deleteTokens w db) \<le> liveCount key now db"
  by (simp add: liveCount_card tokens_ok_delete card_mono holders_delete)

lemma map_tokens_ok:
  assumes "tokens_ok db" "\<And>t. tk_id (f t) = tk_id t"
  shows "tokens_ok (db\<lparr>db_tokens := map f (db_tokens db)\<rparr>)"
proof -
  have same: "map tk_id (map f (db_tokens db)) = map tk_id (db_tokens db)" using assms(2) by simp
  then have "tk_id ` set (map f (db_tokens db)) = tk_id ` set (db_tokens db)"
    by (metis list.set_map)
  with same assms(1) show ?thesis
    by (simp add: tokens_ok_def del: map_map set_map)
qed

lemma holders_map:
  assumes "\<And>t. tk_id (f t) = tk_id t"
    and "\<And>t. t \<in> set (db_tokens db) \<Longrightarrow> (tk_id t, key) \<in> set (db_lanes db) \<Longrightarrow> tk_live now (f t) \<Longrightarrow> tk_live now t"
  shows "lane_holders key now (db\<lparr>db_tokens := map f (db_tokens db)\<rparr>) \<subseteq> f ` lane_holders key now db"
  using assms by (auto simp: lane_holders_def image_iff)

lemma liveCount_map:
  assumes "tokens_ok db" "\<And>t. tk_id (f t) = tk_id t"
    and "\<And>t. t \<in> set (db_tokens db) \<Longrightarrow> (tk_id t, key) \<in> set (db_lanes db) \<Longrightarrow> tk_live now (f t) \<Longrightarrow> tk_live now t"
  shows "liveCount key now (db\<lparr>db_tokens := map f (db_tokens db)\<rparr>) \<le> liveCount key now db"
proof -
  have "card (lane_holders key now (db\<lparr>db_tokens := map f (db_tokens db)\<rparr>))
      \<le> card (f ` lane_holders key now db)"
    using holders_map [where f = f and db = db and now = now and key = key, OF assms(2,3)] by (simp add: card_mono)
  also have "\<dots> \<le> card (lane_holders key now db)" by (rule card_image_le) simp
  finally show ?thesis
    unfolding liveCount_card [OF assms(1)] liveCount_card [OF map_tokens_ok [OF assms(1,2)]] .
qed

text \<open>An admitted token is the only change, and every ceiling had room for it.\<close>

lemma AcquireToken_cases:
  obtains (same) "fst (AcquireToken i ls ttl now db) = db"
      "snd (AcquireToken i ls ttl now db) \<noteq> Inr (i, True) \<or> ls = []"
  | (admitted) db' where "AcquireToken i ls ttl now db = (db', Inr (i, True))" "ls \<noteq> []"
      "\<forall>l \<in> set ls. \<not> lane_full db now l" "i \<notin> tk_id ` set (db_tokens db)" "distinct (map ln_key ls)"
      "db_tokens db' = db_tokens db @
         [\<lparr>tk_id = i, tk_job = [], tk_expires = now + ttl, tk_created = now\<rparr>]"
      "db_lanes db' = db_lanes db @ map (\<lambda>l. (i, ln_key l)) (sort_key ln_key ls)"
      "db_caps db' = db_caps db"
proof -
  have dist: "distinct (map ln_key (sort_key ln_key ls)) = distinct (map ln_key ls)"
    by (simp add: distinct_map)
  show thesis
  proof (cases "ls \<noteq> [] \<and> (\<forall>l \<in> set ls. \<not> lane_full db now l) \<and>
      i \<notin> tk_id ` set (db_tokens db) \<and> distinct (map ln_key ls)")
    case True
    then show ?thesis
      by (intro admitted [of "fst (AcquireToken i ls ttl now db)"])
        (auto simp: AcquireToken_def Let_def dist)
  next
    case False
    then show ?thesis
      by (intro same) (auto simp: AcquireToken_def Let_def dist)
  qed
qed

lemma Acquire_ok:
  assumes "tokens_ok db"
  shows "tokens_ok (fst (AcquireToken i ls ttl now db))"
proof (cases rule: AcquireToken_cases [of i ls ttl now db])
  case same
  then show ?thesis using assms by simp
next
  case (admitted db')
  have "distinct (map (\<lambda>l. (i, ln_key l)) (sort_key ln_key ls))"
    using admitted(5) by (simp add: distinct_map inj_on_def)
  moreover have "(i, ln_key l) \<notin> set (db_lanes db)" for l
    using assms admitted(4) by (force simp: tokens_ok_def)
  ultimately show ?thesis
    using assms admitted by (auto simp: tokens_ok_def)
qed

lemma Acquire_holders:
  assumes "tokens_ok db" "AcquireToken i ls ttl now db = (db', Inr (i, True))" "ls \<noteq> []"
    "db_tokens db' = db_tokens db @ [t]" "tk_id t = i"
    "db_lanes db' = db_lanes db @ map (\<lambda>l. (i, ln_key l)) ls'" "set ls' = set ls"
    "i \<notin> tk_id ` set (db_tokens db)"
  shows "lane_holders key now db' \<subseteq> lane_holders key now db \<union>
    (if key \<in> ln_key ` set ls then {t} else {})"
proof
  fix x assume "x \<in> lane_holders key now db'"
  then have x: "x \<in> set (db_tokens db) \<or> x = t" "(tk_id x, key) \<in> set (db_lanes db')"
    "tk_live now x"
    using assms(4) by (auto simp: lane_holders_def)
  have old: "(i, k) \<notin> set (db_lanes db)" for k
    using assms(1,8) by (force simp: tokens_ok_def)
  show "x \<in> lane_holders key now db \<union> (if key \<in> ln_key ` set ls then {t} else {})"
  proof (cases "x = t")
    case True
    then have "(i, key) \<in> (\<lambda>l. (i, ln_key l)) ` set ls"
      using x(2) old assms(5-7) by auto
    with True show ?thesis by auto
  next
    case False
    then have "tk_id x \<noteq> i" using x(1) assms(8) by auto
    then show ?thesis using False x assms(6) by (auto simp: lane_holders_def)
  qed
qed

lemma associate_map:
  "AssociateToken i job db =
   db\<lparr>db_tokens := map (\<lambda>t. if tk_id t = i then t\<lparr>tk_job := job\<rparr> else t) (db_tokens db)\<rparr>"
  by (simp add: AssociateToken_def)

lemma Renew_cases:
  "fst (RenewToken i ttl now db) = db \<or>
   fst (RenewToken i ttl now db) = db\<lparr>db_tokens :=
     map (\<lambda>t. if tk_id t = i \<and> tk_job t = [] \<and> now < tk_expires t
              then t\<lparr>tk_expires := now + ttl\<rparr> else t) (db_tokens db)\<rparr>"
  by (simp add: RenewToken_def Let_def)

lemma Sweep_cases:
  "fst (TokenSweep now db) = db \<or>
   fst (TokenSweep now db) = deleteTokens (\<lambda>t. tk_job t = [] \<and> tk_expires t \<le> now) db"
  by (simp add: TokenSweep_def Let_def)

lemma token_step_ok:
  assumes "tokens_ok db"
  shows "tokens_ok (token_step op db)"
proof (cases op)
  case (TRenew i ttl now)
  show ?thesis
    using Renew_cases [of i ttl now db] assms TRenew by (elim disjE) (simp_all add: map_tokens_ok)
next
  case (TSweep now)
  show ?thesis
    using Sweep_cases [of now db] assms TSweep by (elim disjE) (simp_all add: tokens_ok_delete)
next
  case (TPutCap k c now)
  then show ?thesis using assms by (simp add: PutLaneCap_def tokens_ok_def)
qed (use assms in \<open>auto simp: Acquire_ok associate_map ReleaseToken_def ReleaseJobToken_def
    intro!: map_tokens_ok tokens_ok_delete\<close>)

subsection \<open>Ceilings\<close>

text \<open>\<open>k\<close> is what late associations have added so far.\<close>

definition lane_capped :: "string \<Rightarrow> int \<Rightarrow> nat \<Rightarrow> gotime \<Rightarrow> token_db \<Rightarrow> bool" where
  "lane_capped key c k now db =
     (tokens_ok db \<and> int (liveCount key now db) \<le> c + int k \<and>
      (\<forall>s. db_caps db key = Some s \<longrightarrow> s \<le> c))"

lemma lane_capped_later: "lane_capped key c k t db \<Longrightarrow> t \<le> t' \<Longrightarrow> lane_capped key c k t' db"
  using liveCount_later [of db t t' key] by (auto simp: lane_capped_def)

lemma Acquire_capped:
  assumes inv: "lane_capped key c k now db"
    and cap: "\<forall>l \<in> set ls. ln_key l = key \<longrightarrow> 0 < ln_cap l \<and> ln_cap l \<le> c"
  shows "lane_capped key c k now (fst (AcquireToken i ls ttl now db))"
proof (cases rule: AcquireToken_cases [of i ls ttl now db])
  case same
  then show ?thesis using inv by simp
next
  case (admitted db')
  let ?t = "\<lparr>tk_id = i, tk_job = [], tk_expires = now + ttl, tk_created = now\<rparr>"
  have ok: "tokens_ok db" "tokens_ok db'"
    using inv Acquire_ok [of db i ls ttl now] admitted(1) by (simp_all add: lane_capped_def)
  have sub: "lane_holders key now db' \<subseteq> lane_holders key now db \<union>
      (if key \<in> ln_key ` set ls then {?t} else {})"
    by (rule Acquire_holders [OF ok(1) admitted(1,2,6) _ admitted(7) _ admitted(4)]) simp_all
  have "int (liveCount key now db') \<le> c + int k"
  proof (cases "key \<in> ln_key ` set ls")
    case True
    then obtain l where l: "l \<in> set ls" "ln_key l = key" by auto
    then have "lane_ceiling db l \<le> c" "\<not> lane_full db now l" "0 < lane_ceiling db l"
      using cap inv admitted(3) by (auto simp: lane_ceiling_def lane_capped_def split: option.splits)
    then have "int (liveCount key now db) < c" using l by (simp add: lane_full_def)
    moreover have "card (lane_holders key now db') \<le> Suc (card (lane_holders key now db))"
      using card_mono [OF _ sub] True card_insert_le_m1 [of "Suc (card (lane_holders key now db))"]
      by (simp add: card_insert_if split: if_splits)
    ultimately show ?thesis using ok by (simp add: liveCount_card)
  next
    case False
    then have "card (lane_holders key now db') \<le> card (lane_holders key now db)"
      using card_mono [OF _ sub] by simp
    then show ?thesis using inv ok by (simp add: liveCount_card lane_capped_def)
  qed
  then show ?thesis using inv ok admitted by (simp add: lane_capped_def)
qed

text \<open>A token holds a lane once, so an association adds at most one.\<close>

lemma associate_adds_one:
  assumes "tokens_ok db"
  shows "liveCount key now (AssociateToken i job db) \<le> Suc (liveCount key now db)"
proof -
  let ?f = "\<lambda>t. if tk_id t = i then t\<lparr>tk_job := job\<rparr> else t"
  have ok: "tokens_ok (AssociateToken i job db)" unfolding associate_map by (rule map_tokens_ok [OF assms]) simp
  have sub: "lane_holders key now (AssociateToken i job db) \<subseteq>
      lane_holders key now db \<union> ?f ` {t \<in> set (db_tokens db). tk_id t = i}"
    unfolding associate_map by (auto simp: lane_holders_def)
  have "inj_on tk_id (set (db_tokens db))" using assms by (simp add: tokens_ok_def distinct_map)
  then have "card {t \<in> set (db_tokens db). tk_id t = i} \<le> 1"
    by (auto simp: card_le_Suc0_iff_eq inj_on_def)
  then have "card (?f ` {t \<in> set (db_tokens db). tk_id t = i}) \<le> 1"
    using card_image_le [of "{t \<in> set (db_tokens db). tk_id t = i}" ?f] by simp
  then have "card (lane_holders key now (AssociateToken i job db)) \<le> card (lane_holders key now db) + 1"
    using card_mono [OF _ sub] card_Un_le [of "lane_holders key now db" "?f ` {t \<in> set (db_tokens db). tk_id t = i}"]
    by simp
  then show ?thesis unfolding liveCount_card [OF assms] liveCount_card [OF ok] by simp
qed

lemma token_step_capped:
  assumes inv: "lane_capped key c k (token_clock op) db" and cap: "capped key c op"
  shows "lane_capped key c (k + of_bool (late key op db)) (token_clock op) (token_step op db)"
proof (cases op)
  case (TAcquire i ls ttl now)
  then show ?thesis using inv cap Acquire_capped by simp
next
  case (TPutCap k s now)
  then show ?thesis
    using inv cap by (auto simp: lane_capped_def PutLaneCap_def tokens_ok_def liveCount_def)
next
  case (TAssociate i job now)
  have ok: "tokens_ok db" using inv by (simp add: lane_capped_def)
  have "liveCount key now (AssociateToken i job db) \<le> liveCount key now db + of_bool (late key op db)"
  proof (cases "late key op db")
    case True
    have "liveCount key now (AssociateToken i job db) \<le> Suc (liveCount key now db)" by (rule associate_adds_one [OF ok])
    then show ?thesis using True by simp
  next
    case False
    have "liveCount key now (AssociateToken i job db) \<le> liveCount key now db"
      unfolding associate_map by (rule liveCount_map [OF ok]) (use False TAssociate in \<open>auto simp: tk_live_def split: if_splits\<close>)
    then show ?thesis by simp
  qed
  moreover have "int (liveCount key now db) \<le> c + int k" using inv TAssociate by (simp add: lane_capped_def)
  ultimately have "int (liveCount key now (AssociateToken i job db)) \<le> c + int (k + of_bool (late key op db))" by linarith
  moreover have "db_caps (AssociateToken i job db) = db_caps db" by (simp add: AssociateToken_def)
  ultimately show ?thesis
    using inv token_step_ok [OF ok, of op] TAssociate
    by (simp add: lane_capped_def del: late.simps of_bool_eq_0_iff of_nat_add)
next
  case (TRenew i ttl now)
  have ok: "tokens_ok db" using inv by (simp add: lane_capped_def)
  have "liveCount key now (fst (RenewToken i ttl now db)) \<le> liveCount key now db"
    using Renew_cases [of i ttl now db]
  proof
    assume eq: "fst (RenewToken i ttl now db) = db\<lparr>db_tokens :=
      map (\<lambda>t. if tk_id t = i \<and> tk_job t = [] \<and> now < tk_expires t
               then t\<lparr>tk_expires := now + ttl\<rparr> else t) (db_tokens db)\<rparr>"
    show ?thesis unfolding eq by (rule liveCount_map [OF ok]) (auto simp: tk_live_def split: if_splits)
  qed simp
  moreover have "db_caps (fst (RenewToken i ttl now db)) = db_caps db"
    by (simp add: RenewToken_def Let_def)
  ultimately show ?thesis
    using inv token_step_ok [OF ok, of op] TRenew by (simp add: lane_capped_def)
next
  case (TSweep now)
  have ok: "tokens_ok db" using inv by (simp add: lane_capped_def)
  have "db_caps (fst (TokenSweep now db)) = db_caps db"
    by (simp add: TokenSweep_def Let_def deleteTokens_def)
  moreover have "liveCount key now (fst (TokenSweep now db)) \<le> liveCount key now db"
    using Sweep_cases [of now db] liveCount_delete [OF ok] by (elim disjE) auto
  ultimately show ?thesis
    using inv token_step_ok [OF ok, of op] TSweep by (simp add: lane_capped_def)
next
  case (TRelease i now)
  have ok: "tokens_ok db" using inv by (simp add: lane_capped_def)
  have "int (liveCount key now (deleteTokens (\<lambda>t. tk_id t = i) db)) \<le> c + int k"
    using liveCount_delete [OF ok, of key now "\<lambda>t. tk_id t = i"] inv TRelease
    by (simp add: lane_capped_def)
  then show ?thesis
    using inv TRelease tokens_ok_delete [OF ok, of "\<lambda>t. tk_id t = i"]
    by (simp add: lane_capped_def ReleaseToken_def) (simp add: deleteTokens_def)
next
  case (TReleaseJob job now)
  have ok: "tokens_ok db" using inv by (simp add: lane_capped_def)
  have "int (liveCount key now (deleteTokens (\<lambda>t. tk_job t = job) db)) \<le> c + int k"
    using liveCount_delete [OF ok, of key now "\<lambda>t. tk_job t = job"] inv TReleaseJob
    by (simp add: lane_capped_def)
  then show ?thesis
    using inv TReleaseJob tokens_ok_delete [OF ok, of "\<lambda>t. tk_job t = job"]
    by (simp add: lane_capped_def ReleaseJobToken_def) (simp add: deleteTokens_def)
qed

text \<open>The table with the count of the late associations beside it.\<close>

definition counted_step :: "string \<Rightarrow> token_op \<Rightarrow> nat \<times> token_db \<Rightarrow> nat \<times> token_db" where
  "counted_step key op s = (fst s + of_bool (late key op (snd s)), token_step op (snd s))"

interpretation lane_machine: clocked_machine "counted_step key" token_clock "capped key c"
  "\<lambda>now s. lane_capped key c (fst s) now (snd s)" for key c
proof unfold_locales
  fix t t' and s :: "nat \<times> token_db" assume "lane_capped key c (fst s) t (snd s)" "t \<le> t'"
  then show "lane_capped key c (fst s) t' (snd s)" by (rule lane_capped_later)
next
  fix op and s :: "nat \<times> token_db" assume "lane_capped key c (fst s) (token_clock op) (snd s)" "capped key c op"
  then show "lane_capped key c (fst (counted_step key op s)) (token_clock op) (snd (counted_step key op s))"
    unfolding counted_step_def fst_conv snd_conv by (rule token_step_capped)
qed

definition tokens_run :: "token_op list \<Rightarrow> token_db \<Rightarrow> token_db" where
  "tokens_run = fold token_step"

lemma counted_fold: "fold (counted_step key) ops (k, db) = (k + late_associations key ops db, tokens_run ops db)"
  unfolding tokens_run_def by (induction ops arbitrary: k db) (auto simp: counted_step_def)

lemma lane_capped_empty: "0 \<le> c \<Longrightarrow> lane_capped key c 0 t empty_db"
  by (simp add: lane_capped_def tokens_ok_def liveCount_def empty_db_def)

lemma lane_capped_run:
  assumes "0 \<le> c" "list_all (capped key c) ops" "sorted (map token_clock ops)"
    "\<forall>op \<in> set ops. token_clock op \<le> now"
  shows "lane_capped key c (late_associations key ops empty_db) now (tokens_run ops empty_db)"
proof (cases ops)
  case Nil
  then show ?thesis using lane_capped_empty [OF assms(1)] by (simp add: tokens_run_def)
next
  case (Cons op ops')
  let ?t = "token_clock op" and ?s = "fold (counted_step key) ops (0, empty_db)"
  have "lane_capped key c (fst ?s) (last (?t # map token_clock ops)) (snd ?s)"
    by (rule lane_machine.clocked_run) (use assms Cons lane_capped_empty in auto)
  moreover have "last (?t # map token_clock ops) \<le> now" using assms(4) Cons by (auto simp: last_map)
  ultimately show ?thesis unfolding counted_fold by (auto intro: lane_capped_later)
qed

text \<open>C25. Admission ceilings are global. However many replicas admit against the table, over any
  sequence of acquisitions, associations, renewals, releases, cap changes and sweeps whose clock readings do
  not run backwards, a lane never carries more live tokens than the largest ceiling it was ever given
  and one for each time \<open>AssociateToken\<close> tied a token of the lane to its job only after the token had expired:
  with no such late association the ceiling itself holds, and each of them can cost one
  (\<open>late_association_overshoots\<close>).\<close>

theorem lane_ceiling_holds:
  assumes "0 \<le> c" "list_all (capped key c) ops" "sorted (map token_clock ops)"
    "\<forall>op \<in> set ops. token_clock op \<le> now"
  shows "int (LaneLive key now (tokens_run ops empty_db)) \<le> c + int (late_associations key ops empty_db)"
  using lane_capped_run [OF assms] by (simp add: lane_capped_def LaneLive_def)

definition wit_lane :: lane where
  "wit_lane = \<lparr>ln_key = ''global:all'', ln_cap = 1, ln_dynamic = False\<rparr>"

definition wit_late :: "token_op list" where
  "wit_late = [TAcquire ''a'' [wit_lane] 10 100, TAcquire ''b'' [wit_lane] 10 120]"

lemma wit_capped:
  "list_all (capped ''global:all'' 1) wit_late \<and> sorted (map token_clock wit_late) \<and>
   late_associations ''global:all'' wit_late empty_db = 0 \<and>
   LaneLive ''global:all'' 125 (tokens_run wit_late empty_db) = 1"
  by code_simp

lemma lane_ceiling_holds_witness:
  "LaneLive ''global:all'' 125 (tokens_run wit_late empty_db) = 1 \<and>
   int (LaneLive ''global:all'' 125 (tokens_run wit_late empty_db)) \<le> 1"
proof -
  have "\<forall>op \<in> set wit_late. token_clock op \<le> 125" by (simp add: wit_late_def)
  with lane_ceiling_holds [of 1 "''global:all''" wit_late 125] wit_capped show ?thesis by simp
qed

text \<open>The second summand is needed: \<open>AssociateToken\<close> does not ask whether the token has expired. A
  token that lapsed but was not swept yet stops counting, so its slot can be given away, and
  tying it to its job afterwards makes it count again, past the ceiling.\<close>

theorem late_association_overshoots:
  assumes "tokens_ok db" "t \<in> set (db_tokens db)" "tk_job t = []" "tk_expires t \<le> now"
    "(tk_id t, key) \<in> set (db_lanes db)" "job \<noteq> []"
  shows "LaneLive key now (AssociateToken (tk_id t) job db) = LaneLive key now db + 1"
proof -
  have inj: "inj_on tk_id (set (db_tokens db))" using assms(1) by (simp add: tokens_ok_def distinct_map)
  have uniq: "x = t" if "x \<in> set (db_tokens db)" "tk_id x = tk_id t" for x
    using inj that assms(2) by (auto dest: inj_onD)
  have "lane_holders key now (AssociateToken (tk_id t) job db) =
      insert (t\<lparr>tk_job := job\<rparr>) (lane_holders key now db)"
  proof -
    have "AssociateToken (tk_id t) job db =
        db\<lparr>db_tokens := map (\<lambda>x. if x = t then t\<lparr>tk_job := job\<rparr> else x) (db_tokens db)\<rparr>"
      using uniq by (auto simp: associate_map)
    then show ?thesis
      using assms(2-6) by (auto simp: lane_holders_def tk_live_def split: if_splits)
  qed
  moreover have "t\<lparr>tk_job := job\<rparr> \<notin> lane_holders key now db"
  proof
    assume "t\<lparr>tk_job := job\<rparr> \<in> lane_holders key now db"
    then have "t\<lparr>tk_job := job\<rparr> = t" by (intro uniq) (simp_all add: lane_holders_def)
    then have "tk_job (t\<lparr>tk_job := job\<rparr>) = tk_job t" by simp
    then show False using assms(3,6) by simp
  qed
  moreover have "tokens_ok (AssociateToken (tk_id t) job db)"
    using token_step_ok [OF assms(1), of "TAssociate (tk_id t) job now"] by simp
  ultimately show ?thesis using assms(1) by (simp add: LaneLive_def liveCount_card)
qed

lemma wit_late_db:
  "tokens_ok (tokens_run wit_late empty_db) \<and>
   \<lparr>tk_id = ''a'', tk_job = [], tk_expires = 110, tk_created = 100\<rparr>
     \<in> set (db_tokens (tokens_run wit_late empty_db)) \<and>
   (''a'', ''global:all'') \<in> set (db_lanes (tokens_run wit_late empty_db))"
  by code_simp

lemma late_association_overshoots_witness:
  "LaneLive ''global:all'' 125 (AssociateToken ''a'' ''job'' (tokens_run wit_late empty_db)) = 2"
  using late_association_overshoots [of "tokens_run wit_late empty_db"
      "\<lparr>tk_id = ''a'', tk_job = [], tk_expires = 110, tk_created = 100\<rparr>" 125 "''global:all''" "''job''"]
    wit_late_db wit_capped
  by simp

text \<open>Releasing a job's tokens is exact and can be repeated by every terminal path: afterwards no
  token of the job is left and every other token still counts on its lanes; a second release,
  from whatever replica, changes nothing.\<close>

theorem job_release_is_exact:
  assumes "tokens_ok db" "trim_space job \<noteq> []"
  shows "LaneLive key now (ReleaseJobToken job db) =
      card {t \<in> set (db_tokens db). (tk_id t, key) \<in> set (db_lanes db) \<and> tk_live now t \<and> tk_job t \<noteq> job} \<and>
    (\<forall>t \<in> set (db_tokens (ReleaseJobToken job db)). tk_job t \<noteq> job) \<and>
    ReleaseJobToken job (ReleaseJobToken job db) = ReleaseJobToken job db"
proof -
  let ?d = "deleteTokens (\<lambda>t. tk_job t = job) db"
  have uniq: "x = t" if "x \<in> set (db_tokens db)" "t \<in> set (db_tokens db)" "tk_id x = tk_id t" for x t
    using that assms(1) by (auto simp: tokens_ok_def distinct_map dest: inj_onD)
  have "lane_holders key now ?d = {t \<in> set (db_tokens db). (tk_id t, key) \<in> set (db_lanes db) \<and>
      tk_live now t \<and> tk_job t \<noteq> job}"
    using uniq by (fastforce simp: lane_holders_def deleteTokens_def)
  moreover have "tokens_ok ?d" using assms(1) by (rule tokens_ok_delete)
  moreover have "deleteTokens (\<lambda>t. tk_job t = job) ?d = ?d"
    by (auto simp: deleteTokens_def filter_empty_conv filter_id_conv)
  ultimately show ?thesis
    using assms(2) by (simp add: ReleaseJobToken_def LaneLive_def liveCount_card) (simp add: deleteTokens_def)
qed

lemma job_release_is_exact_witness:
  "LaneLive ''global:all'' 125 (ReleaseJobToken ''job'' (tokens_run wit_late empty_db)) =
   card {t \<in> set (db_tokens (tokens_run wit_late empty_db)).
     (tk_id t, ''global:all'') \<in> set (db_lanes (tokens_run wit_late empty_db)) \<and> tk_live 125 t \<and>
     tk_job t \<noteq> ''job''}"
proof -
  have "trim_space ''job'' \<noteq> []" by code_simp
  with job_release_is_exact [of "tokens_run wit_late empty_db" "''job''"] wit_late_db
  show ?thesis by blast
qed

end
