(* ===== verification/AdmissionRegistry.thy ===== *)
theory AdmissionRegistry
  imports AdmissionProps
begin

text \<open>
  The process-local registry against its contract. The contract (\<open>budget\<close>) keeps, per lane, how
  many tokens were acquired and are not yet tied to a job, and which jobs hold one; the code
  keeps one counter per lane and the lane of each job. The refinement says that the counter is
  exactly the tokens in hand, so that every answer of \<open>Acquire\<close> is the contract's.
\<close>

subsection \<open>The contract\<close>

type_synonym lane_id = "string \<times> string"

record budget =
  bd_pending :: "lane_id \<Rightarrow> nat"
  bd_jobs :: "string \<Rightarrow> lane_id option"
  bd_caps :: "lane_id \<Rightarrow> int"
  bd_default :: int

definition bd_used :: "budget \<Rightarrow> lane_id \<Rightarrow> nat" where
  "bd_used b l = bd_pending b l + card {j. bd_jobs b j = Some l}"

definition lane_of :: "string \<Rightarrow> string \<Rightarrow> string \<Rightarrow> lane_id" where
  "lane_of tenant target identity =
     (trim_space tenant, concurrencyKey (trim_space target) (trim_space identity))"

datatype reg_op =
  RAcquire string string string
| RRelease string string string
| RMark string string string string
| RJobDone string
| RReport gotime string conc_view

text \<open>How the gateway uses the registry: a token is given back or tied to a job only by whoever
  acquired it, and a job gets one token in its life.\<close>

fun legal :: "budget \<Rightarrow> reg_op \<Rightarrow> bool" where
  "legal b (RRelease t tg i) = (0 < bd_pending b (lane_of t tg i))"
| "legal b (RMark j t tg i) =
     (0 < bd_pending b (lane_of t tg i) \<and> trim_space j \<noteq> [] \<and> bd_jobs b (trim_space j) = None)"
| "legal b _ = True"

fun spec_step :: "reg_op \<Rightarrow> budget \<Rightarrow> budget \<times> bool" where
  "spec_step (RAcquire t tg i) b =
     (let l = lane_of t tg i in
      if bd_caps b l \<le> int (bd_used b l) then (b, False)
      else (b\<lparr>bd_pending := (bd_pending b)(l := bd_pending b l + 1)\<rparr>, True))"
| "spec_step (RRelease t tg i) b =
     (let l = lane_of t tg i in (b\<lparr>bd_pending := (bd_pending b)(l := bd_pending b l - 1)\<rparr>, True))"
| "spec_step (RMark j t tg i) b =
     (let l = lane_of t tg i in
      (b\<lparr>bd_pending := (bd_pending b)(l := bd_pending b l - 1),
         bd_jobs := (bd_jobs b)(trim_space j := Some l)\<rparr>, True))"
| "spec_step (RJobDone j) b =
     (if trim_space j = [] then b else b\<lparr>bd_jobs := (bd_jobs b)(trim_space j := None)\<rparr>, True)"
| "spec_step (RReport w t v) b =
     (if trim_space t = [] then b
      else b\<lparr>bd_caps := (bd_caps b)((trim_space t, concurrencyKey (cv_target v) (cv_identity v)) :=
               (if 0 < cv_cap v then cv_cap v else bd_default b))\<rparr>, True)"

subsection \<open>The code\<close>

fun reg_step :: "reg_op \<Rightarrow> registry \<Rightarrow> registry \<times> bool" where
  "reg_step (RAcquire t tg i) r = AcquireLane [] 0 t tg i r"
| "reg_step (RRelease t tg i) r = (ReleaseLane t tg i r, True)"
| "reg_step (RMark j t tg i) r = (MarkAcquired j t tg i r, True)"
| "reg_step (RJobDone j) r = (ReleaseForJob j r, True)"
| "reg_step (RReport w t v) r = (Report w t v r, True)"

definition cap_of :: "registry \<Rightarrow> lane_id \<Rightarrow> int" where
  "cap_of r l =
     (let fallback = (if 0 < rg_default_cap r then rg_default_cap r else defaultConcurrencyCap) in
      case map_of (rg_views r) l of
        Some v \<Rightarrow> if 0 < cv_cap v then cv_cap v else fallback
      | None \<Rightarrow> fallback)"

lemma laneCap_cap_of: "laneCap r tenant target identity = cap_of r (tenant, concurrencyKey target identity)"
  by (simp add: laneCap_def cap_of_def)

definition held_lane :: "held_token \<Rightarrow> lane_id" where
  "held_lane t = (ht_tenant t, concurrencyKey (ht_target t) (ht_identity t))"

definition implements :: "registry \<Rightarrow> budget \<Rightarrow> bool" where
  "implements r b =
     (rg_backend r = None \<and>
      (\<forall>l. rg_in_flight r l = int (bd_used b l)) \<and>
      (\<forall>j. bd_jobs b j = map_option held_lane (rg_held r j)) \<and>
      finite (dom (bd_jobs b)) \<and>
      (\<forall>l. cap_of r l = bd_caps b l) \<and>
      bd_default b = (if 0 < rg_default_cap r then rg_default_cap r else defaultConcurrencyCap))"

lemma card_jobs_put:
  assumes "finite (dom f)" "f j = None"
  shows "card {x. (f(j := Some l)) x = Some k} = card {x. f x = Some k} + (if k = l then 1 else 0)"
proof -
  have fin: "finite {x. f x = Some k}" using assms(1) by (rule rev_finite_subset) auto
  have "{x. (f(j := Some l)) x = Some k} = (if k = l then insert j {x. f x = Some k} else {x. f x = Some k})"
    using assms(2) by auto
  moreover have "j \<notin> {x. f x = Some k}" using assms(2) by simp
  ultimately show ?thesis using fin by (auto simp: card_insert_disjoint)
qed

lemma card_jobs_drop:
  assumes "finite (dom f)" "f j = Some l"
  shows "card {x. f x = Some k} = card {x. (f(j := None)) x = Some k} + (if k = l then 1 else 0)"
proof -
  have "f = (f(j := None))(j := Some l)" using assms(2) by auto
  then show ?thesis using card_jobs_put [of "f(j := None)" j l k] assms(1) by simp
qed

lemma used_mark:
  assumes "finite (dom (bd_jobs b))" "bd_jobs b j = None" "0 < bd_pending b l"
  shows "bd_used (b\<lparr>bd_pending := (bd_pending b)(l := bd_pending b l - 1),
    bd_jobs := (bd_jobs b)(j := Some l)\<rparr>) k = bd_used b k"
proof -
  have "bd_used (b\<lparr>bd_pending := (bd_pending b)(l := bd_pending b l - 1),
      bd_jobs := (bd_jobs b)(j := Some l)\<rparr>) k =
    ((bd_pending b)(l := bd_pending b l - 1)) k + card {x. ((bd_jobs b)(j := Some l)) x = Some k}"
    by (simp add: bd_used_def)
  also have "\<dots> = bd_used b k"
    unfolding card_jobs_put [OF assms(1,2)] bd_used_def using assms(3) by simp
  finally show ?thesis .
qed

lemma used_done:
  assumes "finite (dom (bd_jobs b))" "bd_jobs b j = Some l"
  shows "bd_used b k = bd_used (b\<lparr>bd_jobs := (bd_jobs b)(j := None)\<rparr>) k + (if k = l then 1 else 0)"
  unfolding bd_used_def using card_jobs_drop [OF assms, of k] by simp

lemma implementsI:
  assumes "rg_backend r = None" "\<And>l. rg_in_flight r l = int (bd_used b l)"
    "\<And>j. bd_jobs b j = map_option held_lane (rg_held r j)" "finite (dom (bd_jobs b))"
    "\<And>l. cap_of r l = bd_caps b l"
    "bd_default b = (if 0 < rg_default_cap r then rg_default_cap r else defaultConcurrencyCap)"
  shows "implements r b"
  unfolding implements_def using assms by (simp del: split_paired_All)

lemma implementsD:
  assumes "implements r b"
  shows "rg_backend r = None" "rg_in_flight r l = int (bd_used b l)"
    "bd_jobs b j = map_option held_lane (rg_held r j)" "finite (dom (bd_jobs b))"
    "cap_of r l = bd_caps b l"
    "bd_default b = (if 0 < rg_default_cap r then rg_default_cap r else defaultConcurrencyCap)"
  using assms unfolding implements_def by blast+

lemma cap_of_same:
  "rg_views r' = rg_views r \<Longrightarrow> rg_default_cap r' = rg_default_cap r \<Longrightarrow> cap_of r' = cap_of r"
  by (simp add: cap_of_def fun_eq_iff)

lemma refine_acquire:
  assumes R: "implements r b"
  shows "implements (fst (AcquireLane n now t tg i r)) (fst (spec_step (RAcquire t tg i) b)) \<and>
    snd (AcquireLane n now t tg i r) = snd (spec_step (RAcquire t tg i) b)"
proof -
  let ?l = "lane_of t tg i"
  have "AcquireLane n now t tg i r =
      (if bd_caps b ?l \<le> int (bd_used b ?l) then (r, False)
       else (r\<lparr>rg_in_flight := (rg_in_flight r)(?l := rg_in_flight r ?l + 1)\<rparr>, True))"
    using implementsD [OF R] by (simp add: AcquireLane_def laneCap_cap_of lane_of_def Let_def)
  moreover have "implements (r\<lparr>rg_in_flight := (rg_in_flight r)(?l := rg_in_flight r ?l + 1)\<rparr>)
      (b\<lparr>bd_pending := (bd_pending b)(?l := bd_pending b ?l + 1)\<rparr>)" (is "implements ?r _")
    by (rule implementsI)
      (use implementsD [OF R] cap_of_same [of ?r r] in \<open>simp_all add: bd_used_def\<close>)
  ultimately show ?thesis using R by (simp add: Let_def)
qed

lemma refine_release:
  assumes R: "implements r b" and ok: "0 < bd_pending b (lane_of t tg i)"
  shows "implements (ReleaseLane t tg i r) (fst (spec_step (RRelease t tg i) b))"
proof -
  let ?l = "lane_of t tg i"
  have pos: "0 < rg_in_flight r ?l" using implementsD(2) [OF R, of ?l] ok by (simp add: bd_used_def)
  then have "ReleaseLane t tg i r = r\<lparr>rg_in_flight := (rg_in_flight r)(?l := rg_in_flight r ?l - 1)\<rparr>"
    using implementsD(1) [OF R] by (simp add: ReleaseLane_def decrement_def lane_of_def Let_def)
  moreover have "implements (r\<lparr>rg_in_flight := (rg_in_flight r)(?l := rg_in_flight r ?l - 1)\<rparr>)
      (b\<lparr>bd_pending := (bd_pending b)(?l := bd_pending b ?l - 1)\<rparr>)" (is "implements ?r _")
    by (rule implementsI)
      (use implementsD [OF R] ok cap_of_same [of ?r r] in \<open>simp_all add: bd_used_def of_nat_diff\<close>)
  ultimately show ?thesis by (simp add: Let_def)
qed

lemma refine_mark:
  assumes R: "implements r b" and ok: "legal b (RMark j t tg i)"
  shows "implements (MarkAcquired j t tg i r) (fst (spec_step (RMark j t tg i) b))"
proof -
  let ?l = "lane_of t tg i" and ?j = "trim_space j"
  let ?h = "\<lparr>ht_tenant = trim_space t, ht_target = trim_space tg, ht_identity = trim_space i\<rparr>"
  have m: "MarkAcquired j t tg i r = r\<lparr>rg_held := (rg_held r)(?j \<mapsto> ?h)\<rparr>"
    using implementsD(1) [OF R] ok by (simp add: MarkAcquired_def Let_def)
  have h: "held_lane ?h = ?l" by (simp add: held_lane_def lane_of_def)
  let ?b = "b\<lparr>bd_pending := (bd_pending b)(?l := bd_pending b ?l - 1),
    bd_jobs := (bd_jobs b)(?j := Some ?l)\<rparr>"
  have "implements (MarkAcquired j t tg i r) ?b"
    unfolding m
  proof (rule implementsI)
    fix k :: lane_id
    have "bd_used ?b k = bd_used b k"
      by (rule used_mark [OF implementsD(4) [OF R]]) (use ok in auto)
    then show "rg_in_flight (r\<lparr>rg_held := (rg_held r)(?j \<mapsto> ?h)\<rparr>) k = int (bd_used ?b k)"
      using implementsD(2) [OF R, of k] by simp
    have "cap_of (r\<lparr>rg_held := (rg_held r)(?j \<mapsto> ?h)\<rparr>) = cap_of r" by (rule cap_of_same) simp_all
    then show "cap_of (r\<lparr>rg_held := (rg_held r)(?j \<mapsto> ?h)\<rparr>) k = bd_caps ?b k"
      using implementsD(5) [OF R, of k] by simp
    show "finite (dom (bd_jobs ?b))" using implementsD(4) [OF R] by simp
    show "bd_jobs ?b x = map_option held_lane (rg_held (r\<lparr>rg_held := (rg_held r)(?j \<mapsto> ?h)\<rparr>) x)" for x
      using implementsD(3) [OF R, of x] h by simp
  qed (use implementsD(1,6) [OF R] in simp_all)
  then show ?thesis by (simp add: Let_def)
qed

lemma refine_job_done:
  assumes R: "implements r b"
  shows "implements (ReleaseForJob j r) (fst (spec_step (RJobDone j) b))"
proof (cases "trim_space j = [] \<or> rg_held r (trim_space j) = None")
  case True
  then have "bd_jobs b (trim_space j) = None \<or> trim_space j = []"
    using implementsD(3) [OF R, of "trim_space j"] by auto
  moreover from this have "fst (spec_step (RJobDone j) b) = b"
    by (auto simp: fun_upd_idem)
  moreover have "ReleaseForJob j r = r"
    using True implementsD(1) [OF R] by (auto simp: ReleaseForJob_def Let_def)
  ultimately show ?thesis using R by simp
next
  case False
  let ?j = "trim_space j"
  obtain t where t: "rg_held r ?j = Some t" using False by auto
  let ?l = "held_lane t"
  let ?b = "b\<lparr>bd_jobs := (bd_jobs b)(?j := None)\<rparr>"
  let ?r = "r\<lparr>rg_held := (rg_held r)(?j := None), rg_in_flight := (rg_in_flight r)(?l := rg_in_flight r ?l - 1)\<rparr>"
  have b: "bd_jobs b ?j = Some ?l" using implementsD(3) [OF R, of ?j] t by simp
  have used: "bd_used b k = bd_used ?b k + (if k = ?l then 1 else 0)" for k
    by (rule used_done [OF implementsD(4) [OF R] b])
  have pos: "0 < rg_in_flight r ?l" using implementsD(2) [OF R, of ?l] used [of ?l] by simp
  have "ReleaseForJob j r = ?r"
    using False t pos implementsD(1) [OF R]
    by (simp add: ReleaseForJob_def decrement_def held_lane_def Let_def)
  moreover have "implements ?r ?b"
  proof (rule implementsI)
    fix k :: lane_id
    show "rg_in_flight ?r k = int (bd_used ?b k)"
    proof (cases "k = ?l")
      case True
      then have "int (bd_used b k) = int (bd_used ?b k) + 1" using used [of k] by simp
      with True show ?thesis using implementsD(2) [OF R, of k] by simp
    next
      case False
      then have "bd_used b k = bd_used ?b k" using used [of k] by simp
      with False show ?thesis using implementsD(2) [OF R, of k] by simp
    qed
    have "cap_of ?r = cap_of r" by (rule cap_of_same) simp_all
    then show "cap_of ?r k = bd_caps ?b k" using implementsD(5) [OF R, of k] by simp
    show "finite (dom (bd_jobs ?b))" using implementsD(4) [OF R] by simp
    show "bd_jobs ?b x = map_option held_lane (rg_held ?r x)" for x
      using implementsD(3) [OF R, of x] by simp
  qed (use implementsD(1,6) [OF R] in simp_all)
  ultimately show ?thesis using False by simp
qed

lemma map_of_other: "k \<noteq> l \<Longrightarrow> map_of (filter (\<lambda>(k', _). k' \<noteq> k) vs) l = map_of vs l"
  by (induction vs) auto

lemma refine_report:
  assumes R: "implements r b"
  shows "implements (Report w t v r) (fst (spec_step (RReport w t v) b))"
proof (cases "trim_space t = []")
  case True
  then show ?thesis using R by (simp add: Report_def)
next
  case False
  let ?k = "(trim_space t, concurrencyKey (cv_target v) (cv_identity v))"
  define v' where "v' = (if IsZero (cv_changed v) then v\<lparr>cv_changed := w\<rparr> else v)"
  have v': "cv_cap v' = cv_cap v" "cv_target v' = cv_target v" "cv_identity v' = cv_identity v"
    by (simp_all add: v'_def)
  have eq: "Report w t v r = r\<lparr>rg_views := put_view ?k v' (rg_views r)\<rparr>"
    using False implementsD(1) [OF R] v' unfolding Report_def v'_def [symmetric] Let_def by simp
  have "cap_of (Report w t v r) l = (if l = ?k then (if 0 < cv_cap v then cv_cap v else bd_default b)
      else bd_caps b l)" for l
  proof (cases "l = ?k")
    case True
    then show ?thesis using implementsD(6) [OF R] v'(1) by (simp add: eq cap_of_def put_view_def Let_def)
  next
    case ne: False
    then have "map_of (put_view ?k v' (rg_views r)) l = map_of (rg_views r) l"
      using map_of_other [OF ne [symmetric], of "rg_views r"] by (simp add: put_view_def)
    then show ?thesis
      using ne implementsD(5) [OF R, of l]
      by (cases "map_of (rg_views r) l") (simp_all add: eq cap_of_def Let_def split: if_splits)
  qed
  then show ?thesis
    by (intro implementsI) (use implementsD [OF R] False in \<open>simp_all add: eq bd_used_def\<close>)
qed

lemma refine_step:
  assumes "implements r b" "legal b op"
  shows "implements (fst (reg_step op r)) (fst (spec_step op b)) \<and>
    snd (reg_step op r) = snd (spec_step op b)"
proof (cases op)
  case (RAcquire t tg i)
  then show ?thesis using refine_acquire [OF assms(1)] by simp
next
  case (RRelease t tg i)
  then show ?thesis using refine_release [OF assms(1)] assms(2) by (simp add: Let_def)
next
  case (RMark j t tg i)
  then show ?thesis using refine_mark [OF assms(1)] assms(2) by (simp add: Let_def)
next
  case (RJobDone j)
  then show ?thesis using refine_job_done [OF assms(1)] by simp
next
  case (RReport w t v)
  then show ?thesis using refine_report [OF assms(1)] by simp
qed

fun reg_run :: "reg_op list \<Rightarrow> registry \<Rightarrow> registry \<times> bool list" where
  "reg_run [] r = (r, [])"
| "reg_run (op # ops) r =
     (let (r', a) = reg_step op r; (r'', as) = reg_run ops r' in (r'', a # as))"

fun spec_run :: "reg_op list \<Rightarrow> budget \<Rightarrow> budget \<times> bool list" where
  "spec_run [] b = (b, [])"
| "spec_run (op # ops) b =
     (let (b', a) = spec_step op b; (b'', as) = spec_run ops b' in (b'', a # as))"

fun legal_run :: "reg_op list \<Rightarrow> budget \<Rightarrow> bool" where
  "legal_run [] b = True"
| "legal_run (op # ops) b = (legal b op \<and> legal_run ops (fst (spec_step op b)))"

definition new_budget :: budget where
  "new_budget = \<lparr>bd_pending = (\<lambda>_. 0), bd_jobs = (\<lambda>_. None),
     bd_caps = (\<lambda>_. defaultConcurrencyCap), bd_default = defaultConcurrencyCap\<rparr>"

lemma implements_new: "implements NewConcurrencyRegistry new_budget"
  by (rule implementsI)
    (simp_all add: NewConcurrencyRegistry_def new_budget_def bd_used_def cap_of_def)

lemma run_refines:
  "implements r b \<Longrightarrow> legal_run ops b \<Longrightarrow>
   implements (fst (reg_run ops r)) (fst (spec_run ops b)) \<and> snd (reg_run ops r) = snd (spec_run ops b)"
proof (induction ops arbitrary: r b)
  case (Cons op ops)
  then show ?case
    using refine_step [of r b op] by (auto simp: case_prod_beta Let_def)
qed simp

text \<open>C26. The process-local registry refines the admission contract. Used the way the gateway uses
  it (a token is released or marked by whoever acquired it, a job is marked once), every
  \<open>Acquire\<close> answers exactly as the contract does, every job's token is returned to its own lane
  exactly once however often its terminal paths call \<open>ReleaseForJob\<close>, and after any such run
  the in-flight count of each lane is the number of tokens acquired and not yet tied plus the
  number of running jobs that hold one.\<close>

theorem registry_refines_budget:
  assumes "legal_run ops new_budget"
    "reg_run ops NewConcurrencyRegistry = (r, answers)" "spec_run ops new_budget = (b, expected)"
  shows "answers = expected \<and>
    rg_in_flight r l = int (bd_pending b l + card {j. bd_jobs b j = Some l})"
proof -
  have "implements r b \<and> answers = expected"
    using run_refines [OF implements_new assms(1)] assms(2,3) by simp
  then show ?thesis using implementsD(2) [of r b l] by (simp add: bd_used_def)
qed

definition wit_reg_ops :: "reg_op list" where
  "wit_reg_ops = [RAcquire ''t'' ''x'' ''a'', RMark ''j'' ''t'' ''x'' ''a'', RJobDone ''j'', RJobDone ''j'']"

lemma wit_trims: "trim_space ''j'' = ''j'' \<and> trim_space ''t'' = ''t'' \<and> trim_space ''x'' = ''x'' \<and>
    trim_space ''a'' = ''a''"
  by code_simp

lemma wit_reg_legal: "legal_run wit_reg_ops new_budget"
  using wit_trims by (simp add: wit_reg_ops_def new_budget_def Let_def bd_used_def)

lemma registry_refines_budget_witness:
  "snd (reg_run wit_reg_ops NewConcurrencyRegistry) = snd (spec_run wit_reg_ops new_budget) \<and>
   snd (spec_run wit_reg_ops new_budget) = [True, True, True, True]"
proof -
  have "snd (reg_run wit_reg_ops NewConcurrencyRegistry) = snd (spec_run wit_reg_ops new_budget)"
    by (rule conjunct1, rule registry_refines_budget [OF wit_reg_legal])
      (rule prod.collapse [symmetric])+
  then show ?thesis by (simp add: wit_reg_ops_def new_budget_def Let_def bd_used_def)
qed

subsection \<open>Marking twice\<close>

text \<open>In shared mode \<open>MarkAcquired\<close> is not idempotent, as its comment says it is: a second call
  for the same job takes the next pending token of the lane, one that another request acquired
  for a job of its own, and ties it to the first job; that job's release then frees both.\<close>

theorem second_mark_takes_another_token:
  assumes "rg_backend r = Some db" "tokens_ok db" "trim_space job \<noteq> []"
    "rg_pending r (pendingKey (trim_space t) (trim_space tg) (trim_space i)) = a # b # rest"
    "r' = MarkAcquired job t tg i (MarkAcquired job t tg i r)"
  shows "\<exists>db'. rg_backend r' = Some db' \<and>
    (\<forall>x \<in> set (db_tokens db'). tk_id x = a \<or> tk_id x = b \<longrightarrow> tk_job x = trim_space job) \<and>
    rg_pending r' (pendingKey (trim_space t) (trim_space tg) (trim_space i)) = rest"
  using assms by (auto simp: MarkAcquired_def Let_def popPending_def associate_map)

definition wit_shared :: registry where
  "wit_shared = (UseBackend (tokens_run wit_late empty_db)
     \<lparr>lim_app = 0, lim_tenant = 0, lim_global = 1\<rparr> NewConcurrencyRegistry)
       \<lparr>rg_pending := (\<lambda>_. [])(pendingKey ''t'' ''x'' ''a'' := [''a'', ''b''])\<rparr>"

lemma second_mark_takes_another_token_witness:
  "rg_pending (MarkAcquired ''j'' ''t'' ''x'' ''a'' (MarkAcquired ''j'' ''t'' ''x'' ''a'' wit_shared))
     (pendingKey ''t'' ''x'' ''a'') = []"
proof -
  have "rg_backend wit_shared = Some (tokens_run wit_late empty_db)"
    "rg_pending wit_shared (pendingKey ''t'' ''x'' ''a'') = [''a'', ''b'']"
    by (simp_all add: wit_shared_def UseBackend_def)
  then show ?thesis
    using second_mark_takes_another_token [of wit_shared "tokens_run wit_late empty_db" "''j''" "''t''"
        "''x''" "''a''" "''a''" "''b''" "[]", OF _ _ _ _ refl] wit_trims wit_late_db
    by auto
qed

end
