(* ===== verification/VoiceProps.thy ===== *)
theory VoiceProps
  imports VoiceInv
begin

text \<open>
  What the voice store promises: leases are exclusive, a replaced Helper Node is fenced out, a
  terminating hold protects its resources and is bounded, the sweep ends exactly what lapsed,
  and the tenants' budgets hold.
\<close>

subsection \<open>Reachable stores\<close>

definition voice_reach :: "voice_op list \<Rightarrow> voice_store \<Rightarrow> bool" where
  "voice_reach ops m = (list_all voice_op_ok ops \<and> m = voice_run ops [])"

lemma voice_reach_records: "voice_reach ops m \<Longrightarrow> vrecords_ok m"
  using voice_run_grows [of "[]" ops] by (simp add: voice_reach_def)

lemma voice_inv_Nil: "voice_inv t []"
  by (simp add: voice_inv_def exclusive_def)

lemma last_le: "sorted xs \<Longrightarrow> \<forall>x \<in> set xs. x \<le> y \<Longrightarrow> t \<le> y \<Longrightarrow> last (t # xs) \<le> y"
  by (cases xs) auto

lemma last_less: "\<forall>x \<in> set xs. x < y \<Longrightarrow> t < y \<Longrightarrow> last (t # xs) < y"
  by (cases xs rule: rev_cases) auto

lemma sorted_last: "sorted (t # xs) \<Longrightarrow> \<forall>x \<in> set (t # xs). x \<le> last (t # xs)"
  by (cases xs rule: rev_cases) (auto simp: sorted_append)

lemma voice_run_exclusive:
  assumes "list_all voice_op_ok ops" "sorted (map voice_clock ops)"
    "\<forall>op \<in> set ops. voice_clock op \<le> now"
  shows "exclusive now (voice_run ops [])"
proof (cases ops)
  case Nil
  then show ?thesis by (simp add: voice_run_def exclusive_def)
next
  case (Cons op ops')
  let ?t = "voice_clock op"
  have "voice_inv (last (?t # map voice_clock ops)) (fold voice_step ops [])"
    by (rule voice_clocked.clocked_run [OF voice_inv_Nil]) (use assms Cons in auto)
  then have "exclusive (last (?t # map voice_clock ops)) (voice_run ops [])"
    by (simp add: voice_inv_def voice_run_def)
  moreover have "last (?t # map voice_clock ops) \<le> now"
    by (rule last_le) (use assms Cons in auto)
  ultimately show ?thesis by (rule exclusive_later)
qed

lemma voice_store_find:
  assumes "vids_ok m" "s \<in> set m"
  shows "vfind m (vs_tenant s) (vs_id s) = Some s"
proof -
  have "find (\<lambda>x. vs_id x = vs_id s) m = Some s"
  proof (cases "find (\<lambda>x. vs_id x = vs_id s) m")
    case None
    with assms(2) show ?thesis by (auto simp: find_None_iff)
  next
    case (Some x)
    then have "x \<in> set m" "vs_id x = vs_id s" by (auto simp: find_Some_iff)
    with Some show ?thesis using vid_unique [OF assms(1)] assms(2) by blast
  qed
  then show ?thesis by (simp add: vfind_def)
qed

subsection \<open>Exclusive leases\<close>

text \<open>C23. No two voice sessions ever hold the same provider account or the same browser
  environment. After any sequence of store operations in time order (admissions, claims,
  transitions, terminations with and without a hold, sweeps, bindings, renewals), two different
  sessions that reserve something at \<open>now\<close> (live ones, and terminated ones inside their hold)
  have different instances, and different accounts within one tenant and target.\<close>

theorem voice_leases_exclusive:
  assumes "list_all voice_op_ok ops" "sorted (map voice_clock ops)"
    "\<forall>op \<in> set ops. voice_clock op \<le> now"
    "s1 \<in> set (voice_run ops [])" "s2 \<in> set (voice_run ops [])" "s1 \<noteq> s2"
    "reserves_at now s1" "reserves_at now s2"
  shows "vs_id s1 \<noteq> vs_id s2 \<and>
    (vs_instance s1 = vs_instance s2 \<longrightarrow> vs_instance s1 = []) \<and>
    (vs_tenant s1 = vs_tenant s2 \<and> vs_target s1 = vs_target s2 \<and> vs_identity s1 = vs_identity s2
       \<longrightarrow> vs_identity s1 = [])"
proof -
  have "vids_ok (voice_run ops [])"
    using voice_reach_records assms(1) by (simp add: voice_reach_def vrecords_ok_def)
  then have ne: "vs_id s1 \<noteq> vs_id s2" using vid_unique assms(4-6) by blast
  from exclusiveD [OF voice_run_exclusive [OF assms(1-3)] assms(4,5) ne assms(7,8)] ne
  show ?thesis by (auto simp: clash_def)
qed

definition wit_reserve :: "string \<Rightarrow> gotime \<Rightarrow> voice_op" where
  "wit_reserve i t = VReserve 1 \<lparr>rr_id = i, rr_tenant = ''t'', rr_app = ''a'', rr_target = ''x'',
     rr_mode = [], rr_job = [],
     rr_places = [\<lparr>pl_identity = ''i'', pl_instance = ''b''\<rparr>, \<lparr>pl_identity = ''j'', pl_instance = ''c''\<rparr>],
     rr_max_active = 0, rr_max_queued = 0, rr_ttl = 50, rr_now = t\<rparr>"

lemma wit_two_sessions:
  "list_all voice_op_ok [wit_reserve ''s1'' 10, wit_reserve ''s2'' 20] \<and>
   map voice_clock [wit_reserve ''s1'' 10, wit_reserve ''s2'' 20] = [10, 20] \<and>
   map (\<lambda>s. (vs_id s, vs_status s, vs_identity s, vs_instance s))
     (voice_run [wit_reserve ''s1'' 10, wit_reserve ''s2'' 20] []) =
   [(''s1'', VConnecting, ''i'', ''b''), (''s2'', VConnecting, ''j'', ''c'')]"
  by code_simp

lemma voice_leases_exclusive_witness:
  "\<exists>(s1 :: vsession) (s2 :: vsession). vs_instance s1 = ''b'' \<and> vs_instance s2 = ''c'' \<and> vs_id s1 \<noteq> vs_id s2"
proof -
  let ?ops = "[wit_reserve ''s1'' 10, wit_reserve ''s2'' 20]"
  from wit_two_sessions obtain s1 s2 where run: "voice_run ?ops [] = [s1, s2]"
    and s: "vs_instance s1 = ''b''" "vs_instance s2 = ''c''"
      "vs_status s1 = VConnecting" "vs_status s2 = VConnecting"
    by (auto simp: map_eq_Cons_conv)
  have "vs_id s1 \<noteq> vs_id s2"
    using voice_leases_exclusive [of ?ops 20 s1 s2] wit_two_sessions run s
    by (auto simp: reserves_at_def)
  with s show ?thesis by (intro exI [of _ s1] exI [of _ s2]) simp
qed

subsection \<open>Fencing\<close>

definition vrefused :: "voice_store \<Rightarrow> voice_store \<times> voice_error option \<Rightarrow> bool" where
  "vrefused m r = (r = (m, Some VBadBinding) \<or> r = (m, Some VNodeMismatch) \<or>
     r = (m, Some VStaleGeneration))"

lemma fence_refuses:
  assumes "vfind m tenant i = Some s" "vf_gen f \<noteq> vs_gen s"
  shows "vrefused m (CommitTransition tenant i f st st2 now e m) \<and>
    vrefused m (CommitMuted tenant i f b now m) \<and>
    vrefused m (RenewMediaLease tenant i f until now m) \<and>
    vrefused m (ReleaseHold tenant i f now m)"
  using assms
  by (auto simp: vrefused_def CommitTransition_def voice_transition_def CommitMuted_def
      RenewMediaLease_def ReleaseHold_def holdMiss_def checkFence_def)

lemma voice_later_find:
  assumes "vrecords_ok m" "list_all voice_op_ok ops" "vfind m tenant i = Some s"
  obtains s' where "vfind (voice_run ops m) tenant i = Some s'" "vlife s s'"
proof -
  have s: "s \<in> set m" "vs_id s = i" "vs_tenant s = tenant" using vfind_SomeD [OF assms(3)] by auto
  obtain s' where s': "s' \<in> set (voice_run ops m)" "vlife s s'"
    using vgrows_mem [OF _ s(1)] voice_run_grows [OF assms(1,2)] by blast
  have "vfind (voice_run ops m) (vs_tenant s') (vs_id s') = Some s'"
    by (rule voice_store_find [OF vrecords_ids s'(1)]) (simp add: voice_run_grows [OF assms(1,2)])
  moreover have "vs_tenant s' = tenant" "vs_id s' = i" using s s'(2) by (simp_all add: vlife_def)
  ultimately have "vfind (voice_run ops m) tenant i = Some s'" by simp
  then show thesis using that s'(2) by blast
qed

lemma vfind_vput:
  "vfind m tenant i = Some s \<Longrightarrow> vs_id s' = vs_id s \<Longrightarrow> vs_tenant s' = vs_tenant s \<Longrightarrow>
   vfind (vput m s') tenant i = Some s'"
proof (induction m)
  case (Cons x m)
  then show ?case by (auto simp: vfind_def vput_def split: if_splits option.splits)
qed (simp add: vfind_def)

text \<open>C24. Once \<open>BindNode\<close> has handed a session's media lease to a Helper Node, every fence of an
  earlier generation is dead for good: whatever operations run afterwards (further bindings,
  renewals, terminations), a transition, a mute, a lease renewal or a hold release under that
  fence is refused and leaves the store exactly as it was.\<close>

theorem replaced_node_is_fenced:
  assumes "voice_reach ops m" "BindNode tenant i node ttl now m = (m', Inr s')"
    "vf_gen f < vs_gen s'" "list_all voice_op_ok ops'" "m'' = voice_run ops' m'"
  shows "vrefused m'' (CommitTransition tenant i f st st2 t e m'') \<and>
    vrefused m'' (CommitMuted tenant i f b t m'') \<and>
    vrefused m'' (RenewMediaLease tenant i f until t m'') \<and>
    vrefused m'' (ReleaseHold tenant i f t m'')"
proof -
  from assms(2) obtain s where s: "vfind m tenant i = Some s" "m' = vput m s'"
    "vs_id s' = vs_id s" "vs_tenant s' = vs_tenant s"
    by (auto simp: BindNode_def Let_def split: option.splits if_splits)
  then have "vfind m' tenant i = Some s'" by (simp add: vfind_vput)
  moreover have "vrecords_ok m'"
    using voice_step_records [OF voice_reach_records [OF assms(1)],
        of "VBindNode tenant i node ttl now"] assms(2)
    by simp
  ultimately obtain s'' where "vfind m'' tenant i = Some s''" "vlife s' s''"
    using voice_later_find assms(4,5) by metis
  then show ?thesis using assms(3) by (intro fence_refuses) (auto simp: vlife_def)
qed

definition wit_bind :: "string \<Rightarrow> voice_op" where
  "wit_bind n = VBindNode ''t'' ''s1'' n 30 20"

lemma wit_bound:
  "list_all voice_op_ok [wit_reserve ''s1'' 10, wit_bind ''n1''] \<and>
   (case BindNode ''t'' ''s1'' ''n2'' 30 20
       (voice_run [wit_reserve ''s1'' 10, wit_bind ''n1''] []) of
      (m, Inr s) \<Rightarrow> vs_gen s = 2
    | _ \<Rightarrow> False)"
  by code_simp

lemma replaced_node_is_fenced_witness:
  "\<exists>m (s :: vsession). vs_gen s = 2 \<and> vfind m ''t'' ''s1'' = Some s \<and>
     vrefused m (RenewMediaLease ''t'' ''s1'' \<lparr>vf_node = ''n1'', vf_gen = 1\<rparr> 90 25 m)"
proof -
  let ?m = "voice_run [wit_reserve ''s1'' 10, wit_bind ''n1''] []"
  from wit_bound obtain m s where b: "BindNode ''t'' ''s1'' ''n2'' 30 20 ?m = (m, Inr s)"
    "vs_gen s = 2"
    by (auto split: prod.splits sum.splits)
  have r: "voice_reach [wit_reserve ''s1'' 10, wit_bind ''n1''] ?m"
    using wit_bound by (simp add: voice_reach_def)
  have "m = voice_run [] m" by (simp add: voice_run_def)
  with replaced_node_is_fenced [OF r b(1), of "\<lparr>vf_node = ''n1'', vf_gen = 1\<rparr>" "[]" m]
  have "vrefused m (RenewMediaLease ''t'' ''s1'' \<lparr>vf_node = ''n1'', vf_gen = 1\<rparr> 90 25 m)"
    using b(2) by simp
  moreover from b(1) have "vfind m ''t'' ''s1'' = Some s"
    by (auto simp: BindNode_def Let_def split: option.splits if_splits intro!: vfind_vput)
  ultimately show ?thesis using b(2) by blast
qed

subsection \<open>The sweep\<close>

text \<open>When a live session's lease, or the media lease of the node it is bound to, has run out;
  when a terminated session still holds refs though its hold is over.\<close>

definition lapsed :: "gotime \<Rightarrow> vsession \<Rightarrow> bool" where
  "lapsed now s =
     (holdsLease (vs_status s) \<and>
      (vs_expires s = 0 \<or> vs_expires s \<le> now \<or> vs_node s \<noteq> [] \<and> vs_media s \<le> now))"

definition hold_over :: "gotime \<Rightarrow> vsession \<Rightarrow> bool" where
  "hold_over now s = (vs_status s = VTerminated \<and> vs_hold s \<noteq> 0 \<and> vs_hold s \<le> now)"

lemma holdsLease_iff: "holdsLease st = (st \<noteq> VTerminated \<and> st \<noteq> VQueued)"
  by (cases st) auto

lemma sweep_one_swept: "snd (sweep_one now s) = lapsed now s"
  by (auto simp: sweep_one_def lapsed_def holdsLease_iff)

lemma sweep_one_same: "\<not> lapsed now s \<Longrightarrow> \<not> hold_over now s \<Longrightarrow> fst (sweep_one now s) = s"
  by (auto simp: sweep_one_def lapsed_def hold_over_def holdsLease_iff)

lemma sweep_one_lapsed:
  "lapsed now s \<Longrightarrow>
   fst (sweep_one now s) = freed (ended now
     (if vs_expires s = 0 \<or> vs_expires s \<le> now then ''lease_expired'' else ''media_lease_expired'') s)"
  by (auto simp: sweep_one_def lapsed_def holdsLease_iff)

lemma sweep_one_hold: "hold_over now s \<Longrightarrow> fst (sweep_one now s) = (freed s)\<lparr>vs_hold := 0\<rparr>"
  by (auto simp: sweep_one_def hold_over_def)

lemma sweep_one_settles:
  "\<not> lapsed now (fst (sweep_one now s)) \<and>
   (hold_ok s \<longrightarrow> \<not> hold_over now (fst (sweep_one now s)))"
  by (auto simp: sweep_one_def lapsed_def hold_over_def hold_ok_def freed_def ended_def holdsLease_iff)

text \<open>The sweep terminates exactly the live sessions whose lease or node-bound media lease has
  run out, names each of them, frees their account and environment, and frees the terminating
  holds that are over; every other session, queued ones included, is left as it was. A second
  sweep at the same time finds nothing.\<close>

theorem sweep_is_exact:
  assumes "voice_reach ops m" "VoiceSweepExpired now m = (m', swept)"
  shows "(\<forall>s \<in> set m. vs_id s \<in> set swept \<longleftrightarrow> lapsed now s) \<and>
    list_all2 (\<lambda>s s'.
      (lapsed now s \<longrightarrow> vs_status s' = VTerminated \<and> vs_ended s' = now \<and>
         vs_identity s' = [] \<and> vs_instance s' = []) \<and>
      (hold_over now s \<longrightarrow> vs_identity s' = [] \<and> vs_instance s' = [] \<and> vs_hold s' = 0) \<and>
      (\<not> lapsed now s \<longrightarrow> \<not> hold_over now s \<longrightarrow> s' = s)) m m' \<and>
    VoiceSweepExpired now m' = (m', [])"
proof (intro conjI)
  have rec: "vids_ok m" "\<forall>s \<in> set m. hold_ok s"
    using voice_reach_records [OF assms(1)] by (auto simp: vrecords_ok_def)
  have m': "m' = map (\<lambda>s. fst (sweep_one now s)) m"
    and swept: "swept = map vs_id (filter (lapsed now) m)"
    using assms(2) by (simp_all add: VoiceSweepExpired_def sweep_one_swept)
  show "\<forall>s \<in> set m. vs_id s \<in> set swept \<longleftrightarrow> lapsed now s"
    using vid_unique [OF rec(1)] unfolding swept by auto
  show "list_all2 (\<lambda>s s'.
      (lapsed now s \<longrightarrow> vs_status s' = VTerminated \<and> vs_ended s' = now \<and>
         vs_identity s' = [] \<and> vs_instance s' = []) \<and>
      (hold_over now s \<longrightarrow> vs_identity s' = [] \<and> vs_instance s' = [] \<and> vs_hold s' = 0) \<and>
      (\<not> lapsed now s \<longrightarrow> \<not> hold_over now s \<longrightarrow> s' = s)) m m'"
    unfolding m'
    by (simp add: list_all2_map2 list_all2_same sweep_one_lapsed sweep_one_hold sweep_one_same
        freed_def ended_def)
  have "fst (sweep_one now s) = s \<and> \<not> lapsed now s" if "s \<in> set m'" for s
    using that rec(2) sweep_one_settles sweep_one_same unfolding m' by fastforce
  then show "VoiceSweepExpired now m' = (m', [])"
    by (simp add: VoiceSweepExpired_def sweep_one_swept map_idI)
qed

lemma wit_swept:
  "list_all voice_op_ok [wit_reserve ''s1'' 10] \<and>
   (case voice_run [wit_reserve ''s1'' 10] [] of [s] \<Rightarrow> lapsed 70 s \<and> vs_id s = ''s1'' | _ \<Rightarrow> False)"
  by code_simp

lemma sweep_is_exact_witness:
  "''s1'' \<in> set (snd (VoiceSweepExpired 70 (voice_run [wit_reserve ''s1'' 10] [])))"
proof -
  let ?m = "voice_run [wit_reserve ''s1'' 10] []"
  have r: "voice_reach [wit_reserve ''s1'' 10] ?m"
    using wit_swept by (simp add: voice_reach_def)
  obtain s where s: "s \<in> set ?m" "lapsed 70 s" "vs_id s = ''s1''"
    using wit_swept by (auto split: list.splits)
  have "\<forall>s \<in> set ?m. vs_id s \<in> set (snd (VoiceSweepExpired 70 ?m)) \<longleftrightarrow> lapsed 70 s"
    using sweep_is_exact [OF r prod.collapse [symmetric]] by blast
  then show ?thesis using s by metis
qed

subsection \<open>The terminating hold\<close>

text \<open>The hold of a terminated session is bounded: 45 seconds after its termination it reserves
  neither its account nor its browser environment any more, whatever hold was asked for and
  whatever ran since, even if neither the helper's ack nor a sweep ever comes.\<close>

theorem hold_is_bounded:
  assumes "voice_reach ops m" "s \<in> set m" "vs_status s = VTerminated"
    "vs_ended s + TerminatingHoldMax \<le> now" "0 \<le> now"
  shows "\<not> reserves_at now s"
proof -
  have "hold_ok s" using voice_reach_records [OF assms(1)] assms(2) by (simp add: vrecords_ok_def)
  then show ?thesis using assms(3-5) by (auto simp: reserves_at_def hold_ok_def)
qed

lemma wit_held:
  "let ops = [wit_reserve ''s1'' 10, VBeginTerminate ''t'' ''s1'' 20 ''bye'' (90 * second)] in
   list_all voice_op_ok ops \<and>
   (case voice_run ops [] of
      [s] \<Rightarrow> vs_status s = VTerminated \<and> vs_ended s + TerminatingHoldMax = 20 + 45 * second \<and>
        vs_instance s = ''b'' \<and> reserves_at (44 * second) s
    | _ \<Rightarrow> False)"
  by code_simp

lemma hold_is_bounded_witness:
  "\<exists>s :: vsession. vs_instance s = ''b'' \<and> reserves_at (44 * second) s \<and>
     \<not> reserves_at (46 * second) s"
proof -
  let ?ops = "[wit_reserve ''s1'' 10, VBeginTerminate ''t'' ''s1'' 20 ''bye'' (90 * second)]"
  have r: "voice_reach ?ops (voice_run ?ops [])"
    using wit_held by (simp add: voice_reach_def Let_def)
  obtain s where s: "s \<in> set (voice_run ?ops [])" "vs_status s = VTerminated"
    "vs_ended s + TerminatingHoldMax = 20 + 45 * second" "vs_instance s = ''b''"
    "reserves_at (44 * second) s"
    using wit_held by (auto simp: Let_def split: list.splits)
  have "\<not> reserves_at (46 * second) s"
    using s by (intro hold_is_bounded [OF r]) auto
  with s show ?thesis by auto
qed

lemma vput_other:
  "vids_ok m \<Longrightarrow> s \<in> set m \<Longrightarrow> vfind m tenant i = Some x \<Longrightarrow> vs_id x' = vs_id x \<Longrightarrow>
   vs_status x \<noteq> VTerminated \<Longrightarrow> vs_status s = VTerminated \<Longrightarrow> s \<in> set (vput m x')"
  by (drule vfind_SomeD) (force simp: vput_def dest: vid_unique)

lemma vput_released:
  "vids_ok m \<Longrightarrow> s \<in> set m \<Longrightarrow> vfind m tenant i = Some x \<Longrightarrow> vs_id x' = vs_id x \<Longrightarrow>
   tenant \<noteq> vs_tenant s \<or> i \<noteq> vs_id s \<Longrightarrow> s \<in> set (vput m x')"
  by (drule vfind_SomeD) (force simp: vput_def dest: vid_unique)

lemma held_untouched:
  assumes ids: "vids_ok m" and s: "s \<in> set m" "vs_status s = VTerminated"
    and early: "voice_clock op < vs_hold s" and ok: "voice_op_ok op"
    and no: "\<forall>f t. op \<noteq> VReleaseHold (vs_tenant s) (vs_id s) f t"
  shows "s \<in> set (voice_step op m)"
proof (cases op)
  case (VReserve w r)
  show ?thesis
    by (rule VoiceReserve_cases [of w r m]) (use s VReserve in auto)
next
  case (VClaim w r)
  show ?thesis
    by (rule VoiceClaim_cases [of w r m])
      (use ids s VClaim in \<open>auto intro!: vput_other\<close>)
next
  case (VSweep now)
  then have "fst (sweep_one now s) = s" using s early by (simp add: sweep_one_def)
  then show ?thesis using VSweep s by (force simp: VoiceSweepExpired_def)
next
  case (VReleaseHold t i f now)
  then show ?thesis
    using ids s no
    by (auto simp: ReleaseHold_def freed_def intro!: vput_released split: option.splits)
next
  case (VTransition t i st st2 now e)
  then show ?thesis
    using ids s ok
    by (auto simp: VoiceTransition_def voice_transition_def Let_def holdsLease_iff
        intro!: vput_other split: option.splits)
next
  case (VCommit t i f st st2 now e)
  then show ?thesis
    using ids s ok
    by (auto simp: CommitTransition_def voice_transition_def Let_def holdsLease_iff
        intro!: vput_other split: option.splits)
qed (use ids s in \<open>auto simp: SetMuted_def CommitMuted_def Terminate_def BeginTerminate_def BindNode_def
    RenewMediaLease_def RenewLease_def Let_def ended_def freed_def holdsLease_iff
    intro!: vput_other split: option.splits\<close>)

lemma held_stays:
  "vrecords_ok m \<Longrightarrow> s \<in> set m \<Longrightarrow> vs_status s = VTerminated \<Longrightarrow> list_all voice_op_ok ops \<Longrightarrow>
   \<forall>op \<in> set ops. voice_clock op < vs_hold s \<Longrightarrow>
   \<forall>op \<in> set ops. \<forall>f t. op \<noteq> VReleaseHold (vs_tenant s) (vs_id s) f t \<Longrightarrow>
   s \<in> set (voice_run ops m)"
proof (induction ops arbitrary: m)
  case (Cons op ops)
  have "s \<in> set (voice_step op m)"
    by (rule held_untouched) (use Cons.prems in \<open>auto simp: vrecords_ok_def\<close>)
  then have "s \<in> set (voice_run ops (voice_step op m))"
    using Cons.prems by (intro Cons.IH) (auto intro: voice_step_records)
  then show ?case by (simp add: voice_run_def)
qed (simp add: voice_run_def)

text \<open>\<open>BeginTerminate\<close> on a live session ends it at once and keeps its account and browser
  environment out of every other session's hands until the hold (at most 45 s) is over: as long
  as nobody acks the teardown with \<open>ReleaseHold\<close>, whatever else runs before the deadline, the
  terminated record keeps both and no other live session has either.\<close>

theorem hold_protects_until_deadline:
  assumes "list_all voice_op_ok ops" "sorted (map voice_clock ops)"
    "\<forall>op \<in> set ops. voice_clock op \<le> now"
    "vfind (voice_run ops []) tenant i = Some s" "holdsLease (vs_status s)" "0 < hold"
    "list_all voice_op_ok ops'" "sorted (now # map voice_clock ops')"
    "\<forall>op \<in> set ops'. voice_clock op < now + min hold TerminatingHoldMax"
    "\<forall>op \<in> set ops'. \<forall>f t. op \<noteq> VReleaseHold tenant i f t"
    "m = voice_run ops' (fst (BeginTerminate tenant i now reason hold (voice_run ops [])))"
  shows "\<exists>h \<in> set m. vs_id h = i \<and> vs_status h = VTerminated \<and> vs_error h = reason \<and>
    vs_identity h = vs_identity s \<and> vs_instance h = vs_instance s \<and>
    (\<forall>x \<in> set m. vs_id x \<noteq> i \<longrightarrow> holdsLease (vs_status x) \<longrightarrow> \<not> clash x h)"
proof -
  let ?h = "(ended now reason s)\<lparr>vs_hold := now + min hold TerminatingHoldMax\<rparr>"
  let ?bt = "VBeginTerminate tenant i now reason hold"
  let ?m0 = "voice_run ops []"
  have s: "s \<in> set ?m0" "vs_id s = i" "vs_tenant s = tenant" using vfind_SomeD [OF assms(4)] by auto
  have ids: "vids_ok ?m0"
    using voice_reach_records [of ops ?m0] assms(1) by (simp add: voice_reach_def vrecords_ok_def)
  have bt: "fst (BeginTerminate tenant i now reason hold ?m0) = vput ?m0 ?h"
    using assms(4-6) by (auto simp: BeginTerminate_def Let_def holdsLease_iff)
  have m: "m = voice_run (ops @ ?bt # ops') []"
    using assms(11) by (simp add: voice_run_def)
  have "?h \<in> set m"
    unfolding assms(11) bt
  proof (rule held_stays)
    show "?h \<in> set (vput ?m0 ?h)" by (rule vput_in [OF s(1)]) (simp add: ended_def)
    show "vrecords_ok (vput ?m0 ?h)"
      using voice_step_records [of ?m0 ?bt] voice_reach_records [of ops ?m0] assms(1) bt
      by (simp add: voice_reach_def)
  qed (use assms(7,9,10) s in \<open>auto simp: ended_def\<close>)
  moreover have "\<not> clash x ?h" if x: "x \<in> set m" "vs_id x \<noteq> i" "holdsLease (vs_status x)" for x
  proof -
    define t where "t = last (now # map voice_clock ops')"
    have all: "sorted (map voice_clock (ops @ ?bt # ops'))"
      using assms(2,3,8) by (fastforce simp: sorted_append)
    have le: "\<forall>op \<in> set ops'. voice_clock op \<le> t" "now \<le> t"
      unfolding t_def using sorted_last [OF assms(8)] by auto
    have "exclusive t m"
      unfolding m by (rule voice_run_exclusive [OF _ all]) (use assms(1,3,7) le in \<open>auto intro: order_trans\<close>)
    moreover have "t < now + min hold TerminatingHoldMax"
      unfolding t_def using assms(6,9) by (intro last_less) (auto simp: TerminatingHoldMax_def)
    ultimately show ?thesis
      using exclusiveD [of t m x ?h] \<open>?h \<in> set m\<close> x s(2)
      by (auto simp: reserves_at_def ended_def holdsLease_iff)
  qed
  ultimately show ?thesis
    using s(2) by (intro bexI [of _ ?h]) (auto simp: ended_def)
qed

lemma wit_hold_runs:
  "list_all voice_op_ok [wit_reserve ''s1'' 10, wit_reserve ''s2'' 30] \<and>
   map voice_clock [wit_reserve ''s1'' 10, wit_reserve ''s2'' 30] = [10, 30] \<and>
   map_option (\<lambda>s. (vs_status s, vs_instance s))
     (vfind (voice_run [wit_reserve ''s1'' 10] []) ''t'' ''s1'') = Some (VConnecting, ''b'')"
  by code_simp

lemma hold_protects_until_deadline_witness:
  "\<exists>h \<in> set (voice_run [wit_reserve ''s2'' 30] (fst (BeginTerminate ''t'' ''s1'' 20 ''bye'' 100
      (voice_run [wit_reserve ''s1'' 10] [])))). vs_status h = VTerminated \<and> vs_instance h = ''b''"
proof -
  obtain s where s: "vfind (voice_run [wit_reserve ''s1'' 10] []) ''t'' ''s1'' = Some s"
    "vs_status s = VConnecting" "vs_instance s = ''b''"
    using wit_hold_runs by (auto simp: map_option_case split: option.splits)
  have "voice_clock (wit_reserve ''s1'' 10) = 10" "voice_clock (wit_reserve ''s2'' 30) = 30"
    "voice_op_ok (wit_reserve ''s1'' 10)" "voice_op_ok (wit_reserve ''s2'' 30)"
    "\<forall>f t. wit_reserve ''s2'' 30 \<noteq> VReleaseHold ''t'' ''s1'' f t"
    using wit_hold_runs by (simp_all add: wit_reserve_def)
  with s hold_protects_until_deadline [of "[wit_reserve ''s1'' 10]" 20 "''t''" "''s1''" s 100
      "[wit_reserve ''s2'' 30]" _ "''bye''", OF _ _ _ _ _ _ _ _ _ _ refl]
  show ?thesis by (auto simp: TerminatingHoldMax_def)
qed

subsection \<open>Budgets\<close>

lemma all2_count:
  "list_all2 R xs ys \<Longrightarrow> (\<And>x y. R x y \<Longrightarrow> P y \<Longrightarrow> P x) \<Longrightarrow>
   length (filter P ys) \<le> length (filter P xs)"
  by (induction rule: list_all2_induct) (auto intro: le_SucI)

lemma same_count:
  "list_all2 (\<lambda>x y. P y = P x) xs ys \<Longrightarrow> length (filter P ys) = length (filter P xs)"
  by (induction rule: list_all2_induct) auto

lemma vput_fresh: "vs_id s' \<notin> vs_id ` set m \<Longrightarrow> vput m s' = m"
  by (induction m) (auto simp: vput_def)

lemma vput_count: "vids_ok m \<Longrightarrow> length (filter P (vput m s')) \<le> Suc (length (filter P m))"
proof (induction m)
  case (Cons x m)
  then have IH: "length (filter P (vput m s')) \<le> Suc (length (filter P m))"
    by (simp add: vids_ok_def)
  show ?case
  proof (cases "vs_id x = vs_id s'")
    case True
    then have "vput m s' = m" using Cons.prems by (intro vput_fresh) (auto simp: vids_ok_def)
    with True show ?thesis by (auto simp: vput_def)
  next
    case False
    with IH show ?thesis by (auto simp: vput_def)
  qed
qed (simp add: vput_def)

definition leased_of :: "string \<Rightarrow> vsession \<Rightarrow> bool" where
  "leased_of tenant s = (vs_tenant s = tenant \<and> vs_mode s \<noteq> ModeUtterance \<and> holdsLease (vs_status s))"

definition queued_of :: "string \<Rightarrow> vsession \<Rightarrow> bool" where
  "queued_of tenant s = (vs_tenant s = tenant \<and> vs_mode s \<noteq> ModeUtterance \<and> vs_status s = VQueued)"

lemma vcounts_eq:
  "vcounts m tenant =
   (int (length (filter (leased_of tenant) m)), int (length (filter (queued_of tenant) m)))"
  by (auto simp: vcounts_def Let_def leased_of_def queued_of_def
      intro!: arg_cong [where f = length] filter_cong)

text \<open>Operations that admit sessions of the tenant under the budgets \<open>A\<close> (active) and \<open>Q\<close>
  (queued), in one of the two modes the API accepts.\<close>

fun within_budget :: "string \<Rightarrow> int \<Rightarrow> int \<Rightarrow> voice_op \<Rightarrow> bool" where
  "within_budget tenant A Q (VReserve w r) =
     (rr_tenant r = tenant \<longrightarrow> rr_max_active r = A \<and> rr_max_queued r = Q \<and>
        (rr_full_mode r = ModeLive \<or> rr_full_mode r = ModeUtterance))"
| "within_budget tenant A Q (VClaim w r) = (cr_tenant r = tenant \<longrightarrow> cr_max_active r = A)"
| "within_budget tenant A Q _ = True"

definition budget_ok :: "string \<Rightarrow> int \<Rightarrow> int \<Rightarrow> voice_store \<Rightarrow> bool" where
  "budget_ok tenant A Q m = (fst (vcounts m tenant) \<le> A \<and> snd (vcounts m tenant) \<le> Q)"

lemma budget_quiet:
  "budget_ok tenant A Q m \<Longrightarrow> list_all2 (vstep_rel now) m m' \<Longrightarrow> budget_ok tenant A Q m'"
  using all2_count [of "vstep_rel now" m m' "leased_of tenant"]
    all2_count [of "vstep_rel now" m m' "queued_of tenant"]
  by (simp add: budget_ok_def vcounts_eq leased_of_def queued_of_def vstep_rel_def vlife_def)

lemma budget_step:
  assumes b: "budget_ok tenant A Q m" and pos: "0 < A" "0 < Q" and ids: "vids_ok m"
    and ok: "voice_op_ok op" "within_budget tenant A Q op"
  shows "budget_ok tenant A Q (voice_step op m)"
proof (cases op)
  case (VReserve w r)
  show ?thesis
  proof (cases rule: VoiceReserve_cases [of w r m])
    case (refused e)
    with VReserve b show ?thesis by simp
  next
    case (admitted place s)
    show ?thesis
      using VReserve b ok(2) pos admitted
      by (cases place) (auto simp: budget_ok_def vcounts_eq leased_of_def queued_of_def)
  qed
next
  case (VClaim w r)
  show ?thesis
  proof (cases rule: VoiceClaim_cases [of w r m])
    case refused
    with VClaim b show ?thesis by simp
  next
    case (claimed s q s')
    have s: "s \<in> set m" "vs_tenant s = cr_tenant r" using claimed(1) by (auto dest: vfind_SomeD)
    have queued: "length (filter (queued_of tenant) (vput m s')) \<le> length (filter (queued_of tenant) m)"
      by (rule all2_count [OF vput_all2 [of m s s' "\<lambda>x y. queued_of tenant y \<longrightarrow> queued_of tenant x"]])
        (use ids s claimed(2,4) in \<open>auto simp: queued_of_def\<close>)
    have "int (length (filter (leased_of tenant) (vput m s'))) \<le> A"
    proof (cases "cr_tenant r = tenant")
      case True
      then have "int (length (filter (leased_of tenant) m)) < A"
        using claimed(6) pos VClaim ok(2) by (simp add: vcounts_eq)
      then show ?thesis using vput_count [OF ids, of "leased_of tenant" s'] by linarith
    next
      case False
      have "length (filter (leased_of tenant) (vput m s')) \<le> length (filter (leased_of tenant) m)"
        by (rule all2_count [OF vput_all2 [of m s s' "\<lambda>x y. leased_of tenant y \<longrightarrow> leased_of tenant x"]])
          (use ids s claimed(4) False in \<open>auto simp: leased_of_def\<close>)
      then show ?thesis using b by (simp add: budget_ok_def vcounts_eq)
    qed
    with queued b claimed(5) VClaim show ?thesis by (simp add: budget_ok_def vcounts_eq)
  qed
qed (use budget_quiet [OF b] quiet_step [OF ids ok(1)] in force)+

text \<open>Admission control is exact over whole histories: as long as every admission of a tenant
  carries the tenant's budgets, no interleaving of creates, claims, terminations and sweeps ever
  leaves the tenant with more lease-holding or more queued live sessions than budgeted.\<close>

theorem tenant_budgets_hold:
  assumes "0 < A" "0 < Q" "list_all voice_op_ok ops" "list_all (within_budget tenant A Q) ops"
  shows "fst (TenantCounts tenant (voice_run ops [])) \<le> A \<and>
    snd (TenantCounts tenant (voice_run ops [])) \<le> Q"
proof -
  have "budget_ok tenant A Q (voice_run ops m)" if "budget_ok tenant A Q m" "vrecords_ok m" for m
    using assms(3,4) that unfolding voice_run_def
  proof (induction ops arbitrary: m)
    case (Cons op ops)
    then show ?case using budget_step [OF _ assms(1,2)] vrecords_ids voice_step_records by simp
  qed simp
  from this [of "[]"] assms(1,2) show ?thesis
    by (simp add: budget_ok_def TenantCounts_def vcounts_eq)
qed

definition wit_budget :: voice_op where
  "wit_budget = VReserve 1 \<lparr>rr_id = ''s1'', rr_tenant = ''t'', rr_app = ''a'', rr_target = ''x'',
     rr_mode = [], rr_job = [], rr_places = [\<lparr>pl_identity = ''i'', pl_instance = ''b''\<rparr>],
     rr_max_active = 1, rr_max_queued = 1, rr_ttl = 50, rr_now = 10\<rparr>"

lemma wit_budgeted:
  "list_all voice_op_ok [wit_budget] \<and> list_all (within_budget ''t'' 1 1) [wit_budget] \<and>
   TenantCounts ''t'' (voice_run [wit_budget] []) = (1, 0)"
  by code_simp

lemma tenant_budgets_hold_witness:
  "fst (TenantCounts ''t'' (voice_run [wit_budget] [])) = 1 \<and>
   fst (TenantCounts ''t'' (voice_run [wit_budget] [])) \<le> 1"
  using tenant_budgets_hold [of 1 1 "[wit_budget]" "''t''"] wit_budgeted by simp

subsection \<open>Utterance sessions\<close>

text \<open>\<open>Claim\<close> never looks at the session's mode. A queued utterance session, of which
  \<open>ReserveRequest\<close> says that it never claims leases, is promoted like any other when a pair is
  free. It then excludes every other session from its environment, while \<open>ListLeaseHolders\<close>, and
  with it the lane probe that keeps jobs off a browser in use, does not report it and
  \<open>TenantCounts\<close> does not count it.\<close>

theorem utterance_session_claims_unseen:
  assumes "vids_ok m" "vfind m (cr_tenant r) (cr_id r) = Some s" "vs_status s = VQueued"
    "vs_mode s = ModeUtterance" "cr_max_active r \<le> 0"
    "first_free (activeIndex m (req_now w (cr_now r))) (cr_tenant r) (vs_target s) (cr_places r)
       = Some q"
  shows "\<exists>s'. VoiceClaim w r m = (vput m s', Inr s') \<and> vs_status s' = VConnecting \<and>
    vs_instance s' = pl_instance q \<and> vs_identity s' = pl_identity q \<and>
    (\<forall>h \<in> set (ListLeaseHolders t (vput m s')). lh_session h \<noteq> cr_id r) \<and>
    TenantCounts (cr_tenant r) (vput m s') = TenantCounts (cr_tenant r) m"
proof -
  define s' where "s' = s\<lparr>vs_status := VConnecting, vs_identity := pl_identity q,
    vs_instance := pl_instance q, vs_expires := req_now w (cr_now r) + cr_ttl r,
    vs_updated := req_now w (cr_now r)\<rparr>"
  have s: "s \<in> set m" "vs_id s = cr_id r" using vfind_SomeD [OF assms(2)] by auto
  have claim: "VoiceClaim w r m = (vput m s', Inr s')"
    using assms by (simp add: VoiceClaim_def Let_def s'_def)
  let ?P = "leased_of (cr_tenant r)" and ?Q = "queued_of (cr_tenant r)"
  have "list_all2 (\<lambda>x y. ?P y = ?P x) m (vput m s')" "list_all2 (\<lambda>x y. ?Q y = ?Q x) m (vput m s')"
    by (rule vput_all2 [OF assms(1) s(1)], use assms(4) in \<open>simp_all add: s'_def leased_of_def queued_of_def\<close>)+
  then have "TenantCounts (cr_tenant r) (vput m s') = TenantCounts (cr_tenant r) m"
    by (simp add: TenantCounts_def vcounts_eq same_count)
  moreover have "lh_session h \<noteq> cr_id r" if "h \<in> set (ListLeaseHolders t (vput m s'))" for h
  proof
    assume "lh_session h = cr_id r"
    with that obtain x where "x \<in> set (vput m s')" "vs_id x = cr_id r" "vs_mode x \<noteq> ModeUtterance"
      by (auto simp: ListLeaseHolders_def)
    then show False using vput_mem [of x m s'] assms(4) s(2) by (auto simp: s'_def)
  qed
  moreover have "vs_status s' = VConnecting" "vs_instance s' = pl_instance q"
    "vs_identity s' = pl_identity q"
    by (simp_all add: s'_def)
  ultimately show ?thesis using claim by blast
qed

definition wit_utterance :: voice_store where
  "wit_utterance = [\<lparr>vs_id = ''u'', vs_tenant = ''t'', vs_app = [], vs_target = ''x'',
     vs_mode = ModeUtterance, vs_job = ''j'', vs_status = VQueued, vs_muted = False,
     vs_identity = [], vs_instance = [], vs_error = [], vs_created = 1, vs_updated = 1,
     vs_expires = 60, vs_ended = 0, vs_node = [], vs_gen = 0, vs_media = 0, vs_hold = 0\<rparr>]"

definition wit_claim_req :: claim_req where
  "wit_claim_req = \<lparr>cr_tenant = ''t'', cr_id = ''u'',
     cr_places = [\<lparr>pl_identity = ''i'', pl_instance = ''b''\<rparr>], cr_max_active = 0, cr_ttl = 50,
     cr_now = 10\<rparr>"

lemma wit_free:
  "first_free (activeIndex wit_utterance (req_now 1 (cr_now wit_claim_req)))
     (cr_tenant wit_claim_req) ''x'' (cr_places wit_claim_req) =
   Some \<lparr>pl_identity = ''i'', pl_instance = ''b''\<rparr>"
  by code_simp

lemma utterance_session_claims_unseen_witness:
  "\<exists>s :: vsession. snd (VoiceClaim 1 wit_claim_req wit_utterance) = Inr s \<and> vs_instance s = ''b''"
proof -
  obtain s where s: "vfind wit_utterance ''t'' ''u'' = Some s" "vs_status s = VQueued"
    "vs_mode s = ModeUtterance" "vs_target s = ''x''"
    by (simp add: wit_utterance_def vfind_def)
  have r: "cr_tenant wit_claim_req = ''t''" "cr_id wit_claim_req = ''u''"
    "cr_max_active wit_claim_req = 0"
    by (simp_all add: wit_claim_req_def)
  have "vids_ok wit_utterance" by (simp add: wit_utterance_def vids_ok_def)
  from utterance_session_claims_unseen [of wit_utterance wit_claim_req s 1, OF this] s r wit_free
  show ?thesis by fastforce
qed

end
