(* ===== verification/Nodes.thy ===== *)
theory Nodes
  imports GoNet "HOL-Library.AList"
begin

text \<open>
  Helper nodes (\<open>nodes/types.go\<close>, \<open>nodes/memory.go\<close>, \<open>nodes/store.go\<close>): the grants the
  fleet manager hands out, the runtime state of a helper, the registry of pinned certificate
  identities, and the in-process store over the three tables.

  A Go map is an association list with distinct keys; its length is \<open>len(m)\<close>. \<open>UTC()\<close> does
  not change an instant. The error messages are not kept, only the sentinel they wrap.
\<close>

subsection \<open>Identities\<close>

definition MaxNodes :: nat where "MaxNodes = 256"
definition URISANPrefix :: string where "URISANPrefix = ''spiffe://ubag/node/''"
definition StateActive :: string where "StateActive = ''active''"
definition StateDraining :: string where "StateDraining = ''draining''"
definition StateRevoked :: string where "StateRevoked = ''revoked''"
definition ReservationKnown :: string where "ReservationKnown = ''known''"
definition ReservationUnknown :: string where "ReservationUnknown = ''unknown''"

datatype node_error =
    NodesNotFound
  | NodesInvalid
  | NodesStaleGeneration
  | NodesGenerationConflict
  | NodesNodeRevoked
  | NodesTooManyNodes

definition is_lower :: "char \<Rightarrow> bool" where "is_lower c = (CHR ''a'' \<le> c \<and> c \<le> CHR ''z'')"
definition is_upper :: "char \<Rightarrow> bool" where "is_upper c = (CHR ''A'' \<le> c \<and> c \<le> CHR ''Z'')"
definition is_alnum :: "char \<Rightarrow> bool" where "is_alnum c = (is_lower c \<or> is_upper c \<or> is_digit c)"

text \<open>\<open>nodeIDRe\<close>, \<open>regionRe\<close> and \<open>spkiRe\<close>, anchored at both ends.\<close>

definition nodeIDRe :: "string \<Rightarrow> bool" where
  "nodeIDRe s =
     (s \<noteq> [] \<and> is_alnum (hd s) \<and> list_all (\<lambda>c. is_alnum c \<or> c \<in> set ''._-'') (tl s) \<and> length (tl s) \<le> 63)"

definition regionRe :: "string \<Rightarrow> bool" where
  "regionRe s =
     (s \<noteq> [] \<and> (is_lower (hd s) \<or> is_digit (hd s)) \<and>
      list_all (\<lambda>c. is_lower c \<or> is_digit c \<or> c = CHR ''-'') (tl s) \<and> length (tl s) \<le> 31)"

definition spkiRe :: "string \<Rightarrow> bool" where
  "spkiRe s =
     (length s = 64 \<and> list_all (\<lambda>c. (CHR ''a'' \<le> c \<and> c \<le> CHR ''f'') \<or> is_digit c) s)"

definition ValidNodeID :: "string \<Rightarrow> bool" where
  "ValidNodeID nid = nodeIDRe nid"

definition NodeURISAN :: "string \<Rightarrow> string" where
  "NodeURISAN nid = URISANPrefix @ nid"

definition NodeIDFromURISAN :: "string \<Rightarrow> string \<times> bool" where
  "NodeIDFromURISAN uri =
     (if prefix URISANPrefix uri
      then let nid = drop (length URISANPrefix) uri in (nid, nodeIDRe nid)
      else (uri, False))"

subsection \<open>Grants\<close>

record allocation =
  al_NodeID :: string
  al_Region :: string
  al_Endpoint :: string
  al_URISAN :: string
  al_SPKI :: string
  al_CPUMillis :: int
  al_MemoryBytes :: int
  al_ReservationState :: string
  al_State :: string
  al_MaxBrowserWorkloads :: int
  al_VoiceCapable :: bool
  al_UDPPortMin :: int
  al_UDPPortMax :: int
  al_NATIP :: string
  al_ValidUntil :: gotime
  al_Generation :: int
  al_AcceptedAt :: gotime

record grant =
  gr_State :: string
  gr_ReservationState :: string
  gr_MaxBrowserWorkloads :: int
  gr_ValidUntil :: gotime

definition Grant :: "allocation \<Rightarrow> grant" where
  "Grant a = \<lparr>gr_State = al_State a, gr_ReservationState = al_ReservationState a,
     gr_MaxBrowserWorkloads = al_MaxBrowserWorkloads a, gr_ValidUntil = al_ValidUntil a\<rparr>"

definition validEndpoint :: "string \<Rightarrow> bool" where
  "validEndpoint s =
     (case SplitHostPort s of
        None \<Rightarrow> False
      | Some (host, port) \<Rightarrow>
          if host = [] \<or> length s > 270 then False
          else (case Atoi port of None \<Rightarrow> False | Some p \<Rightarrow> 1 \<le> p \<and> p \<le> 65535))"

definition alloc_validate :: "allocation \<Rightarrow> node_error option" where
  "alloc_validate a =
     (let hasRange = (al_UDPPortMin a \<noteq> 0 \<or> al_UDPPortMax a \<noteq> 0) in
      if \<not> nodeIDRe (al_NodeID a) then Some NodesInvalid
      else if \<not> regionRe (al_Region a) then Some NodesInvalid
      else if \<not> validEndpoint (al_Endpoint a) then Some NodesInvalid
      else if al_URISAN a \<noteq> NodeURISAN (al_NodeID a) then Some NodesInvalid
      else if al_SPKI a \<noteq> [] \<and> \<not> spkiRe (al_SPKI a) then Some NodesInvalid
      else if al_CPUMillis a < 0 \<or> 1000000 < al_CPUMillis a then Some NodesInvalid
      else if al_MemoryBytes a < 0 \<or> 17592186044416 < al_MemoryBytes a then Some NodesInvalid
      else if al_ReservationState a \<noteq> ReservationKnown \<and> al_ReservationState a \<noteq> ReservationUnknown then Some NodesInvalid
      else if al_State a \<noteq> StateActive \<and> al_State a \<noteq> StateDraining \<and> al_State a \<noteq> StateRevoked then Some NodesInvalid
      else if al_MaxBrowserWorkloads a < 0 \<or> 64 < al_MaxBrowserWorkloads a then Some NodesInvalid
      else if IsZero (al_ValidUntil a) then Some NodesInvalid
      else if al_Generation a < 0 \<or> 9007199254740991 < al_Generation a then Some NodesInvalid
      else if al_NATIP a \<noteq> [] \<and> \<not> ParseIP_ok (al_NATIP a) then Some NodesInvalid
      else if hasRange \<and> (al_UDPPortMin a < 1024 \<or> 65535 < al_UDPPortMax a \<or> al_UDPPortMax a < al_UDPPortMin a) then Some NodesInvalid
      else if al_VoiceCapable a \<and> (\<not> hasRange \<or> al_NATIP a = []) then Some NodesInvalid
      else None)"

definition sameExceptValidity :: "allocation \<Rightarrow> allocation \<Rightarrow> bool" where
  "sameExceptValidity a b =
     (a\<lparr>al_ValidUntil := 0, al_AcceptedAt := 0\<rparr> = b\<lparr>al_ValidUntil := 0, al_AcceptedAt := 0\<rparr>)"

subsection \<open>Runtime state and certificate pins\<close>

record helper_state =
  hs_NodeID :: string
  hs_LastHeartbeat :: gotime
  hs_PressureReduced :: bool
  hs_PressureCalmSince :: gotime
  hs_RampedLimit :: int
  hs_HostCores :: int
  hs_HostMemoryBytes :: int

text \<open>\<open>HelperState{NodeID: id}\<close>: the state of a node never heard from.\<close>

definition no_state :: "string \<Rightarrow> helper_state" where
  "no_state nid = \<lparr>hs_NodeID = nid, hs_LastHeartbeat = 0, hs_PressureReduced = False,
     hs_PressureCalmSince = 0, hs_RampedLimit = 0, hs_HostCores = 0, hs_HostMemoryBytes = 0\<rparr>"

definition state_validate :: "helper_state \<Rightarrow> node_error option" where
  "state_validate h =
     (if \<not> nodeIDRe (hs_NodeID h) \<or> IsZero (hs_LastHeartbeat h) \<or> hs_RampedLimit h < 0 \<or> 64 < hs_RampedLimit h \<or>
         hs_HostCores h < 0 \<or> hs_HostMemoryBytes h < 0
      then Some NodesInvalid else None)"

record registry_entry =
  re_NodeID :: string
  re_URISAN :: string
  re_SPKICurrent :: string
  re_SPKINext :: string
  re_RevokedAt :: gotime
  re_UpdatedAt :: gotime

definition Revoked :: "registry_entry \<Rightarrow> bool" where
  "Revoked e = (\<not> IsZero (re_RevokedAt e))"

definition entry_validate :: "registry_entry \<Rightarrow> node_error option" where
  "entry_validate e =
     (if \<not> nodeIDRe (re_NodeID e) \<or> re_URISAN e \<noteq> NodeURISAN (re_NodeID e) \<or>
         (re_SPKICurrent e \<noteq> [] \<and> \<not> spkiRe (re_SPKICurrent e)) \<or>
         (re_SPKINext e \<noteq> [] \<and> \<not> spkiRe (re_SPKINext e))
      then Some NodesInvalid else None)"

text \<open>\<open>RegistryEntry.Matches\<close>; \<open>subtle.ConstantTimeCompare\<close> is equality.\<close>

definition Matches :: "registry_entry \<Rightarrow> string \<Rightarrow> string \<Rightarrow> bool" where
  "Matches e uriSAN spkiHex =
     (if Revoked e \<or> spkiHex = [] \<or> uriSAN \<noteq> re_URISAN e then False
      else (re_SPKICurrent e \<noteq> [] \<and> spkiHex = re_SPKICurrent e) \<or>
           (re_SPKINext e \<noteq> [] \<and> spkiHex = re_SPKINext e))"

subsection \<open>The store\<close>

record node_store =
  ns_allocations :: "(string \<times> allocation) list"
  ns_states :: "(string \<times> helper_state) list"
  ns_registry :: "(string \<times> registry_entry) list"

definition new_node_store :: node_store where
  "new_node_store = \<lparr>ns_allocations = [], ns_states = [], ns_registry = []\<rparr>"

definition revoke_entry :: "string \<Rightarrow> gotime \<Rightarrow> node_store \<Rightarrow> node_store" where
  "revoke_entry nid now s =
     (case map_of (ns_registry s) nid of
        None \<Rightarrow> s
      | Some e \<Rightarrow>
          if \<not> Revoked e
          then s\<lparr>ns_registry := AList.update nid (e\<lparr>re_RevokedAt := now, re_UpdatedAt := now\<rparr>) (ns_registry s)\<rparr>
          else s)"

definition ApplyAllocation :: "allocation \<Rightarrow> gotime \<Rightarrow> node_store \<Rightarrow> node_error option \<times> node_store" where
  "ApplyAllocation a now s =
     (case alloc_validate a of
        Some e \<Rightarrow> (Some e, s)
      | None \<Rightarrow>
          let a' = a\<lparr>al_AcceptedAt := now\<rparr>;
              accept =
                (let s' = s\<lparr>ns_allocations := AList.update (al_NodeID a') a' (ns_allocations s)\<rparr>
                 in (None, if al_State a' = StateRevoked then revoke_entry (al_NodeID a') now s' else s'))
          in (case map_of (ns_allocations s) (al_NodeID a') of
                None \<Rightarrow>
                  if MaxNodes \<le> length (ns_allocations s) then (Some NodesTooManyNodes, s) else accept
              | Some old \<Rightarrow>
                  if al_Generation a' < al_Generation old then (Some NodesStaleGeneration, s)
                  else if al_Generation a' = al_Generation old \<and> \<not> sameExceptValidity a' old
                  then (Some NodesGenerationConflict, s)
                  else accept))"

definition GetAllocation :: "string \<Rightarrow> node_store \<Rightarrow> node_error + allocation" where
  "GetAllocation nid s =
     (case map_of (ns_allocations s) nid of None \<Rightarrow> Inl NodesNotFound | Some a \<Rightarrow> Inr a)"

definition ListAllocations :: "node_store \<Rightarrow> allocation list" where
  "ListAllocations s = sort_key al_NodeID (map snd (ns_allocations s))"

definition PutState :: "helper_state \<Rightarrow> node_store \<Rightarrow> node_error option \<times> node_store" where
  "PutState h s =
     (case state_validate h of
        Some e \<Rightarrow> (Some e, s)
      | None \<Rightarrow>
          (case map_of (ns_allocations s) (hs_NodeID h) of
             None \<Rightarrow> (Some NodesNotFound, s)
           | Some _ \<Rightarrow>
               let put = (None, s\<lparr>ns_states := AList.update (hs_NodeID h) h (ns_states s)\<rparr>) in
               (case map_of (ns_states s) (hs_NodeID h) of
                  None \<Rightarrow> put
                | Some old \<Rightarrow> if hs_LastHeartbeat h < hs_LastHeartbeat old then (None, s) else put)))"

definition GetState :: "string \<Rightarrow> node_store \<Rightarrow> node_error + helper_state" where
  "GetState nid s =
     (case map_of (ns_states s) nid of None \<Rightarrow> Inl NodesNotFound | Some h \<Rightarrow> Inr h)"

definition PutRegistry :: "registry_entry \<Rightarrow> gotime \<Rightarrow> node_store \<Rightarrow> node_error option \<times> node_store" where
  "PutRegistry e now s =
     (case entry_validate e of
        Some err \<Rightarrow> (Some err, s)
      | None \<Rightarrow>
          let e' = e\<lparr>re_RevokedAt := 0, re_UpdatedAt := now\<rparr>;
              old = map_of (ns_registry s) (re_NodeID e');
              allocRevoked = (case map_of (ns_allocations s) (re_NodeID e') of
                                None \<Rightarrow> False | Some a \<Rightarrow> al_State a = StateRevoked)
          in if (case old of None \<Rightarrow> False | Some o' \<Rightarrow> Revoked o') \<or> allocRevoked then (Some NodesNodeRevoked, s)
             else if old = None \<and> MaxNodes \<le> length (ns_registry s) then (Some NodesTooManyNodes, s)
             else (None, s\<lparr>ns_registry := AList.update (re_NodeID e') e' (ns_registry s)\<rparr>))"

definition GetRegistry :: "string \<Rightarrow> node_store \<Rightarrow> node_error + registry_entry" where
  "GetRegistry nid s =
     (case map_of (ns_registry s) nid of None \<Rightarrow> Inl NodesNotFound | Some e \<Rightarrow> Inr e)"

definition PromoteSPKI :: "string \<Rightarrow> gotime \<Rightarrow> node_store \<Rightarrow> node_error option \<times> node_store" where
  "PromoteSPKI nid now s =
     (case map_of (ns_registry s) nid of
        None \<Rightarrow> (Some NodesNotFound, s)
      | Some e \<Rightarrow>
          if Revoked e then (Some NodesNodeRevoked, s)
          else if re_SPKINext e = [] then (Some NodesInvalid, s)
          else (None, s\<lparr>ns_registry := AList.update nid
                 (e\<lparr>re_SPKICurrent := re_SPKINext e, re_SPKINext := [], re_UpdatedAt := now\<rparr>) (ns_registry s)\<rparr>))"

definition RevokeNode :: "string \<Rightarrow> gotime \<Rightarrow> node_store \<Rightarrow> node_error option \<times> node_store" where
  "RevokeNode nid now s =
     (case map_of (ns_registry s) nid of
        None \<Rightarrow> (Some NodesNotFound, s)
      | Some _ \<Rightarrow> (None, revoke_entry nid now s))"

end
