(* ===== verification/NodePolicy.thy ===== *)
theory NodePolicy
  imports Nodes
begin

text \<open>
  The side-effect-free placement policy of the helper nodes: the ceiling table
  (\<open>nodes/ceiling.go\<close>), the pressure hysteresis (\<open>nodes/pressure.go\<close>), the 1-to-N ramp
  (\<open>nodes/ramp.go\<close>), eligibility (\<open>nodes/eligibility.go\<close>), draining (\<open>nodes/drain.go\<close>), the
  capacity sample (\<open>nodes/telemetry.go\<close>) and the whole verdict (\<open>Admission\<close> and
  \<open>clampToCeiling\<close> of \<open>nodes/placer.go\<close>).

  The percentages of a sample are finite \<open>float64\<close> values, hence rationals: their only source,
  \<open>SampleFromCapacity\<close>, divides by a positive total. How \<open>float64\<close> rounds \<open>a / b * 100\<close> is the
  argument \<open>pct\<close>. Integers are Go's 64-bit \<open>int\<close>s: the validation puts no upper bound on the cores
  of a host, so products wrap around here as they do there.
\<close>

subsection \<open>Ceilings\<close>

definition NewHelperWorkloads :: int where "NewHelperWorkloads = 1"

record ceiling_rec =
  ce_CPUMillis :: int
  ce_MemoryBytes :: int

definition CeilingFor :: "int \<Rightarrow> int \<Rightarrow> ceiling_rec" where
  "CeilingFor hostCores hostMemoryBytes =
     (if hostCores \<le> 0 \<or> hostMemoryBytes \<le> 0 then \<lparr>ce_CPUMillis = 0, ce_MemoryBytes = 0\<rparr>
      else \<lparr>ce_CPUMillis = wrap64 (hostCores * 750), ce_MemoryBytes = hostMemoryBytes div 8 * 5\<rparr>)"

definition EffectiveCap :: "int \<Rightarrow> int \<Rightarrow> ceiling_rec \<Rightarrow> int \<times> int" where
  "EffectiveCap cpu mem c = (min (max cpu 0) (ce_CPUMillis c), min (max mem 0) (ce_MemoryBytes c))"

subsection \<open>Pressure\<close>

record pressure_sample =
  ps_CPUPercent :: rat
  ps_MemAvailPercent :: rat

record pressure =
  pr_Reduced :: bool
  pr_calmSince :: gotime

definition pressureCPUHigh :: rat where "pressureCPUHigh = 80"
definition pressureMemLow :: rat where "pressureMemLow = 20"
definition recoverCPULow :: rat where "recoverCPULow = 60"
definition recoverMemHigh :: rat where "recoverMemHigh = 25"
definition recoverHold :: dur where "recoverHold = 2 * minute"

definition normal :: pressure where "normal = \<lparr>pr_Reduced = False, pr_calmSince = 0\<rparr>"
definition reduced :: pressure where "reduced = \<lparr>pr_Reduced = True, pr_calmSince = 0\<rparr>"

definition pressure_Step :: "pressure \<Rightarrow> pressure_sample \<Rightarrow> gotime \<Rightarrow> pressure" where
  "pressure_Step p x now =
     (if pressureCPUHigh < ps_CPUPercent x \<or> ps_MemAvailPercent x < pressureMemLow then reduced
      else if \<not> pr_Reduced p then normal
      else if recoverCPULow \<le> ps_CPUPercent x \<or> ps_MemAvailPercent x \<le> recoverMemHigh then reduced
      else let since = (if IsZero (pr_calmSince p) then now else pr_calmSince p) in
        if recoverHold \<le> now - since then normal
        else p\<lparr>pr_calmSince := since\<rparr>)"

definition AdmissionLimit :: "pressure \<Rightarrow> int \<Rightarrow> int" where
  "AdmissionLimit p limit = (if \<not> pr_Reduced p \<or> limit \<le> 1 then limit else max 1 (limit div 2))"

text \<open>\<open>HelperState.Pressure\<close> and \<open>HelperState.WithPressure\<close>.\<close>

definition state_pressure :: "helper_state \<Rightarrow> pressure" where
  "state_pressure h = \<lparr>pr_Reduced = hs_PressureReduced h, pr_calmSince = hs_PressureCalmSince h\<rparr>"

definition WithPressure :: "helper_state \<Rightarrow> pressure \<Rightarrow> helper_state" where
  "WithPressure h p = h\<lparr>hs_PressureReduced := pr_Reduced p, hs_PressureCalmSince := pr_calmSince p\<rparr>"

definition SampleFromCapacity :: "(int \<Rightarrow> int \<Rightarrow> rat) \<Rightarrow> int \<Rightarrow> int \<Rightarrow> int \<Rightarrow> int \<Rightarrow> pressure_sample" where
  "SampleFromCapacity pct cpuTotal cpuUsed memTotal memUsed =
     (if cpuTotal \<le> 0 \<or> cpuUsed < 0 \<or> memTotal \<le> 0 \<or> memUsed < 0
      then \<lparr>ps_CPUPercent = 100, ps_MemAvailPercent = 0\<rparr>
      else \<lparr>ps_CPUPercent = pct cpuUsed cpuTotal,
            ps_MemAvailPercent = pct (max 0 (memTotal - memUsed)) memTotal\<rparr>)"

definition WorstSample :: "pressure_sample \<Rightarrow> pressure_sample \<Rightarrow> pressure_sample" where
  "WorstSample a b =
     \<lparr>ps_CPUPercent = max (ps_CPUPercent a) (ps_CPUPercent b),
      ps_MemAvailPercent = min (ps_MemAvailPercent a) (ps_MemAvailPercent b)\<rparr>"

subsection \<open>Ramp\<close>

definition RampSamples :: int where "RampSamples = 8"

record ramp =
  ra_Limit :: int
  ra_Good :: int

definition ramp_Step :: "ramp \<Rightarrow> pressure_sample \<Rightarrow> pressure \<Rightarrow> int \<Rightarrow> int \<Rightarrow> ramp" where
  "ramp_Step r x p active maxN =
     (let limit = (if ra_Limit r \<le> 0 then NewHelperWorkloads else ra_Limit r) in
      if maxN < 1 then \<lparr>ra_Limit = limit, ra_Good = 0\<rparr>
      else let limit = min limit maxN;
               healthy = (\<not> pr_Reduced p \<and> ps_CPUPercent x < recoverCPULow \<and> recoverMemHigh < ps_MemAvailPercent x) in
        if \<not> healthy \<or> active < limit then \<lparr>ra_Limit = limit, ra_Good = 0\<rparr>
        else if RampSamples \<le> ra_Good r + 1
          then \<lparr>ra_Limit = (if limit < maxN then limit + 1 else limit), ra_Good = 0\<rparr>
          else \<lparr>ra_Limit = limit, ra_Good = ra_Good r + 1\<rparr>)"

subsection \<open>Eligibility\<close>

definition HeartbeatInterval :: dur where "HeartbeatInterval = 15 * second"
definition MissedHeartbeatsLimit :: int where "MissedHeartbeatsLimit = 3"

datatype reason =
    NoReason
  | ReasonRevoked
  | ReasonDraining
  | ReasonReservationUnk
  | ReasonGrantExpired
  | ReasonHeartbeatMissed
  | ReasonNoCapacity

record decision =
  de_Eligible :: bool
  de_Reason :: reason
  de_Limit :: int

definition no_decision :: "reason \<Rightarrow> decision" where
  "no_decision r = \<lparr>de_Eligible = False, de_Reason = r, de_Limit = 0\<rparr>"

definition Evaluate :: "grant \<Rightarrow> gotime \<Rightarrow> gotime \<Rightarrow> pressure \<Rightarrow> int \<Rightarrow> decision" where
  "Evaluate g lastHeartbeat now p ramped =
     (if gr_State g = ''revoked'' then no_decision ReasonRevoked
      else if gr_State g \<noteq> ''active'' then no_decision ReasonDraining
      else if gr_ReservationState g \<noteq> ''known'' then no_decision ReasonReservationUnk
      else if IsZero (gr_ValidUntil g) \<or> \<not> now < gr_ValidUntil g then no_decision ReasonGrantExpired
      else if IsZero lastHeartbeat \<or> MissedHeartbeatsLimit * HeartbeatInterval \<le> now - lastHeartbeat
        then no_decision ReasonHeartbeatMissed
      else let ramped = (if ramped \<le> 0 then NewHelperWorkloads else ramped);
               limit = AdmissionLimit p (min (gr_MaxBrowserWorkloads g) ramped) in
        if limit \<le> 0 then no_decision ReasonNoCapacity
        else \<lparr>de_Eligible = True, de_Reason = NoReason, de_Limit = limit\<rparr>)"

text \<open>Go's division truncates toward zero; the divisors here are positive.\<close>

definition go_quot :: "int \<Rightarrow> int \<Rightarrow> int" where
  "go_quot a b = (if a < 0 then - (- a div b) else a div b)"

definition clampToCeiling :: "int \<Rightarrow> allocation \<Rightarrow> helper_state \<Rightarrow> int" where
  "clampToCeiling limit a st =
     (case EffectiveCap (al_CPUMillis a) (al_MemoryBytes a) (CeilingFor (hs_HostCores st) (hs_HostMemoryBytes st)) of
        (cpu, mem) \<Rightarrow>
          if cpu \<le> 0 \<or> mem \<le> 0 \<or> limit \<le> 0 then 0
          else let out = (if cpu < al_CPUMillis a then min limit (max 1 (go_quot (wrap64 (limit * cpu)) (al_CPUMillis a))) else limit)
               in if mem < al_MemoryBytes a then min out (max 1 (go_quot (wrap64 (limit * mem)) (al_MemoryBytes a))) else out)"

definition Admission :: "allocation \<Rightarrow> helper_state \<Rightarrow> gotime \<Rightarrow> decision" where
  "Admission a st now =
     (let d = Evaluate (Grant a) (hs_LastHeartbeat st) now (state_pressure st) (hs_RampedLimit st) in
      if \<not> de_Eligible d then d
      else let limit = clampToCeiling (de_Limit d) a st in
        if limit \<le> 0 then no_decision ReasonNoCapacity
        else d\<lparr>de_Limit := limit\<rparr>)"

subsection \<open>Draining\<close>

definition DefaultDrainGrace :: dur where "DefaultDrainGrace = 5 * minute"
definition MaxDrainGrace :: dur where "MaxDrainGrace = hour"

record usage =
  us_Attempts :: int
  us_Voice :: int

definition ShrinkCap :: "int \<Rightarrow> usage \<Rightarrow> int \<times> int" where
  "ShrinkCap target u = (max (max target 0) (us_Attempts u), max (max target 0 - us_Attempts u) 0)"

record drain_plan =
  dp_CallDrain :: bool
  dp_GraceSeconds :: int
  dp_CancelNonVoice :: bool
  dp_VoiceHeld :: int
  dp_Done :: bool

definition zero_plan :: drain_plan where
  "zero_plan = \<lparr>dp_CallDrain = False, dp_GraceSeconds = 0, dp_CancelNonVoice = False, dp_VoiceHeld = 0, dp_Done = False\<rparr>"

definition PlanDrain :: "string \<Rightarrow> usage \<Rightarrow> gotime \<Rightarrow> gotime \<Rightarrow> dur \<Rightarrow> drain_plan" where
  "PlanDrain st u drainStart now grace =
     (if st \<noteq> StateDraining \<and> st \<noteq> StateRevoked then zero_plan
      else
        let g = min (if grace \<le> 0 then DefaultDrainGrace else grace) MaxDrainGrace;
            voice = min (max (us_Voice u) 0) (max (us_Attempts u) 0);
            over = (us_Attempts u \<le> 0)
        in \<lparr>dp_CallDrain = True, dp_GraceSeconds = g div second,
            dp_CancelNonVoice = (\<not> over \<and> voice < us_Attempts u \<and> \<not> IsZero drainStart \<and> g \<le> now - drainStart),
            dp_VoiceHeld = voice, dp_Done = over\<rparr>)"

end
