(* ===== verification/Fleet.thy ===== *)
theory Fleet
  imports NodePolicy
begin

text \<open>
  Where grants and heartbeats come from: the poller of the fleet manager
  (\<open>nodes/allocation_source.go\<close>) and the prober of the helpers (\<open>nodes/prober.go\<close>), over the
  node store.

  An HTTP exchange is its outcome (\<open>http_response\<close>): the transport, the body read and
  \<open>encoding/json\<close>'s strict decoding of it are inputs. \<open>net/url.Parse\<close> is an argument. The log
  lines, the metrics hook and the contexts are not modelled.
\<close>

subsection \<open>The polled list\<close>

record wire_alloc =
  wa_SchemaVersion :: int
  wa_NodeID :: string
  wa_Region :: string
  wa_Endpoint :: string
  wa_URISAN :: string
  wa_SPKISHA256 :: string
  wa_CPUMillis :: int
  wa_MemoryBytes :: int
  wa_ReservationState :: string
  wa_State :: string
  wa_MaxBrowserWorkloads :: int
  wa_VoiceCapable :: bool
  wa_UDPPortRange :: "(int \<times> int) option"
  wa_NATIP :: string
  wa_ValidUntil :: gotime
  wa_Generation :: int

record wire_list =
  wl_SchemaVersion :: int
  wl_GeneratedAt :: gotime
  wl_Allocations :: "wire_alloc list option" \<comment> \<open>\<open>None\<close>: a nil slice\<close>

definition of_wire :: "wire_alloc \<Rightarrow> allocation" where
  "of_wire w = \<lparr>al_NodeID = wa_NodeID w, al_Region = wa_Region w, al_Endpoint = wa_Endpoint w,
     al_URISAN = wa_URISAN w, al_SPKI = wa_SPKISHA256 w, al_CPUMillis = wa_CPUMillis w,
     al_MemoryBytes = wa_MemoryBytes w, al_ReservationState = wa_ReservationState w,
     al_State = wa_State w, al_MaxBrowserWorkloads = wa_MaxBrowserWorkloads w,
     al_VoiceCapable = wa_VoiceCapable w,
     al_UDPPortMin = (case wa_UDPPortRange w of None \<Rightarrow> 0 | Some (lo, hi) \<Rightarrow> lo),
     al_UDPPortMax = (case wa_UDPPortRange w of None \<Rightarrow> 0 | Some (lo, hi) \<Rightarrow> hi),
     al_NATIP = wa_NATIP w, al_ValidUntil = wa_ValidUntil w, al_Generation = wa_Generation w,
     al_AcceptedAt = 0\<rparr>"

text \<open>The loop of \<open>parseAllocationList\<close>, all or nothing.\<close>

fun parse_loop :: "wire_alloc list \<Rightarrow> string list \<Rightarrow> allocation list option" where
  "parse_loop [] seen = Some []"
| "parse_loop (w # ws) seen =
     (let a = of_wire w in
      if wa_SchemaVersion w \<noteq> 1 \<or> alloc_validate a \<noteq> None \<or> al_NodeID a \<in> set seen then None
      else map_option ((#) a) (parse_loop ws (al_NodeID a # seen)))"

definition parseAllocationList :: "wire_list option \<Rightarrow> allocation list option" where
  "parseAllocationList decoded =
     (case decoded of
        None \<Rightarrow> None
      | Some l \<Rightarrow>
          (case wl_Allocations l of
             None \<Rightarrow> None
           | Some ws \<Rightarrow>
               if wl_SchemaVersion l \<noteq> 1 \<or> IsZero (wl_GeneratedAt l) then None
               else if MaxNodes < length ws then None
               else parse_loop ws []))"

datatype fetch_error = FetchUnreachable | FetchReadFailed | FetchBadResponse

datatype snapshot = NotModified string | Listed string "allocation list"

record http_response =
  hr_Status :: int
  hr_ETag :: string
  hr_BodyRead :: bool
  hr_BodyLen :: int
  hr_Decoded :: "wire_list option" \<comment> \<open>\<open>None\<close>: bad JSON, an unknown field or trailing data\<close>

definition maxResponseBytes :: int where "maxResponseBytes = 1048576"

definition Fetch :: "string \<Rightarrow> http_response option \<Rightarrow> fetch_error + snapshot" where
  "Fetch etag resp =
     (case resp of
        None \<Rightarrow> Inl FetchUnreachable
      | Some r \<Rightarrow>
          if hr_Status r = 304 \<and> etag \<noteq> [] then Inr (NotModified etag)
          else if hr_Status r \<noteq> 200 then Inl FetchBadResponse
          else if \<not> hr_BodyRead r then Inl FetchReadFailed
          else if maxResponseBytes < hr_BodyLen r then Inl FetchBadResponse
          else (case parseAllocationList (hr_Decoded r) of
                  None \<Rightarrow> Inl FetchBadResponse
                | Some l \<Rightarrow> Inr (Listed (hr_ETag r) l)))"

record parsed_url =
  pu_Scheme :: string
  pu_Host :: string
  pu_HasUser :: bool

text \<open>
  \<open>NewHTTPSource\<close>: the address and the token it keeps. Ranging over the token's runes refuses
  exactly the bytes outside printable ASCII.
\<close>

definition maxTokenBytes :: nat where "maxTokenBytes = 4096"

definition NewHTTPSource :: "(string \<Rightarrow> parsed_url option) \<Rightarrow> string \<Rightarrow> string \<Rightarrow> node_error + string" where
  "NewHTTPSource urlParse rawURL token =
     (case urlParse rawURL of
        None \<Rightarrow> Inl NodesInvalid
      | Some u \<Rightarrow>
          if (pu_Scheme u \<noteq> ''http'' \<and> pu_Scheme u \<noteq> ''https'') \<or> pu_Host u = [] \<or> pu_HasUser u then Inl NodesInvalid
          else let tok = trim_space token in
            if list_ex (\<lambda>c. c \<le> CHR 0x20 \<or> CHR 0x7F \<le> c) tok then Inl NodesInvalid
            else if maxTokenBytes < length tok then Inl NodesInvalid
            else Inr tok)"

subsection \<open>Configuration\<close>

definition DefaultPollInterval :: dur where "DefaultPollInterval = 30 * second"
definition DefaultStaleGrace :: dur where "DefaultStaleGrace = 10 * minute"
definition minPollInterval :: dur where "minPollInterval = 5 * second"
definition maxPollInterval :: dur where "maxPollInterval = hour"
definition maxStaleGrace :: dur where "maxStaleGrace = 24 * hour"

record poller_config =
  pc_Interval :: dur
  pc_StaleGrace :: dur

text \<open>
  The local \<open>secs\<close>: \<open>None\<close> is the error. \<open>time.Duration(n) * time.Second\<close> is a 64-bit product.
\<close>

definition env_seconds :: "string \<Rightarrow> dur \<Rightarrow> dur \<Rightarrow> dur \<Rightarrow> dur option" where
  "env_seconds v lo hi dflt =
     (if v = [] then Some dflt
      else (case Atoi v of
              None \<Rightarrow> None
            | Some n \<Rightarrow> let d = wrap64 (n * second) in if d < lo \<or> hi < d then None else Some d))"

definition PollerConfigFromEnv ::
  "(string \<Rightarrow> string option) \<Rightarrow> unit + (string \<times> string \<times> poller_config) option" where
  "PollerConfigFromEnv lookup =
     (let get = (\<lambda>k. trim_space (case lookup k of None \<Rightarrow> [] | Some v \<Rightarrow> v)) in
      if get ''UBAG_FLEET_MANAGER_URL'' = [] then Inr None
      else
        (case env_seconds (get ''UBAG_FLEET_POLL_SECONDS'') minPollInterval maxPollInterval DefaultPollInterval of
           None \<Rightarrow> Inl ()
         | Some iv \<Rightarrow>
             (case env_seconds (get ''UBAG_FLEET_GRANT_STALE_GRACE_SECONDS'') 0 maxStaleGrace DefaultStaleGrace of
                None \<Rightarrow> Inl ()
              | Some gr \<Rightarrow>
                  Inr (Some (get ''UBAG_FLEET_MANAGER_URL'', get ''UBAG_FLEET_MANAGER_TOKEN'',
                             \<lparr>pc_Interval = iv, pc_StaleGrace = gr\<rparr>)))))"

subsection \<open>The poller\<close>

record poller =
  po_StaleGrace :: dur
  po_etag :: string
  po_lastSuccess :: gotime
  po_absent :: "string list"

definition NewPoller :: "poller_config \<Rightarrow> poller" where
  "NewPoller c = \<lparr>po_StaleGrace = pc_StaleGrace c, po_etag = [], po_lastSuccess = 0, po_absent = []\<rparr>"

definition succeed :: "gotime \<Rightarrow> string \<Rightarrow> string list option \<Rightarrow> poller \<Rightarrow> poller" where
  "succeed now etag absent p =
     (let p' = p\<lparr>po_lastSuccess := now, po_etag := etag\<rparr> in
      case absent of None \<Rightarrow> p' | Some ab \<Rightarrow> p'\<lparr>po_absent := ab\<rparr>)"

text \<open>Applying a list: what the store fences off is skipped, anything else ends the poll.\<close>

fun apply_list :: "allocation list \<Rightarrow> gotime \<Rightarrow> node_store \<Rightarrow> node_error option \<times> node_store" where
  "apply_list [] now s = (None, s)"
| "apply_list (a # as) now s =
     (case ApplyAllocation a now s of
        (e, s') \<Rightarrow>
          if e = None \<or> e = Some NodesStaleGeneration \<or> e = Some NodesGenerationConflict \<or> e = Some NodesTooManyNodes
          then apply_list as now s' else (e, s'))"

datatype poll_error = PollFetch fetch_error | PollStore node_error

definition Poll ::
  "http_response option \<Rightarrow> gotime \<Rightarrow> poller \<Rightarrow> node_store \<Rightarrow> poll_error option \<times> poller \<times> node_store" where
  "Poll resp now p s =
     (case Fetch (po_etag p) resp of
        Inl e \<Rightarrow> (Some (PollFetch e), p, s)
      | Inr (NotModified _) \<Rightarrow> (None, succeed now (po_etag p) None p, s)
      | Inr (Listed etag as) \<Rightarrow>
          (case apply_list as now s of
             (Some e, s') \<Rightarrow> (Some (PollStore e), p, s')
           | (None, s') \<Rightarrow>
               let listed = map al_NodeID as;
                   absent = filter (\<lambda>k. k \<notin> set listed) (map al_NodeID (ListAllocations s'))
               in (None, succeed now etag (Some absent) p, s')))"

definition stale :: "poller \<Rightarrow> allocation \<Rightarrow> gotime \<Rightarrow> bool" where
  "stale p a now =
     (let ref = (if \<not> IsZero (po_lastSuccess p) then po_lastSuccess p else al_AcceptedAt a)
      in po_StaleGrace p < now - ref)"

definition Current :: "poller \<Rightarrow> node_store \<Rightarrow> gotime \<Rightarrow> allocation list" where
  "Current p s now =
     map (\<lambda>a. if al_State a = StateActive \<and> (al_NodeID a \<in> set (po_absent p) \<or> stale p a now)
              then a\<lparr>al_State := StateDraining\<rparr> else a) (ListAllocations s)"

subsection \<open>The prober\<close>

record report =
  rp_CPUTotal :: int
  rp_CPUUsed :: int
  rp_MemTotal :: int
  rp_MemUsed :: int
  rp_BrowsersMax :: int
  rp_BrowsersActive :: int
  rp_WorkloadVersion :: string
  rp_RegistryDigest :: string

record prober =
  pb_WorkloadVersion :: string
  pb_RegistryDigest :: string
  pb_good :: "string \<Rightarrow> int" \<comment> \<open>a Go map: a missing key reads 0\<close>

datatype probe_result = ProbeOK | ProbeError | ProbeIncompatible

definition probe ::
  "(int \<Rightarrow> int \<Rightarrow> rat) \<Rightarrow> report option \<Rightarrow> gotime \<Rightarrow> allocation \<Rightarrow> prober \<Rightarrow> node_store
   \<Rightarrow> probe_result \<times> prober \<times> node_store" where
  "probe pct rep now a p s =
     (case rep of
        None \<Rightarrow> (ProbeError, p, s)
      | Some r \<Rightarrow>
          if (pb_WorkloadVersion p \<noteq> [] \<and> rp_WorkloadVersion r \<noteq> pb_WorkloadVersion p) \<or>
             (pb_RegistryDigest p \<noteq> [] \<and> rp_RegistryDigest r \<noteq> pb_RegistryDigest p)
          then (ProbeIncompatible, p, s)
          else
            let st = (case GetState (al_NodeID a) s of Inl _ \<Rightarrow> no_state (al_NodeID a) | Inr h \<Rightarrow> h);
                sample = SampleFromCapacity pct (rp_CPUTotal r) (rp_CPUUsed r) (rp_MemTotal r) (rp_MemUsed r);
                pr = pressure_Step (state_pressure st) sample now;
                sized = (if 0 < rp_CPUTotal r \<and> 0 < rp_MemTotal r
                         then st\<lparr>hs_HostCores := (rp_CPUTotal r + 999) div 1000, hs_HostMemoryBytes := rp_MemTotal r\<rparr>
                         else st\<lparr>hs_HostCores := 0, hs_HostMemoryBytes := 0\<rparr>);
                maxN = clampToCeiling (min (al_MaxBrowserWorkloads a) (max (rp_BrowsersMax r) 0)) a sized;
                rmp = ramp_Step \<lparr>ra_Limit = hs_RampedLimit st, ra_Good = pb_good p (al_NodeID a)\<rparr>
                        sample pr (max (rp_BrowsersActive r) 0) maxN;
                p' = p\<lparr>pb_good := (pb_good p)(al_NodeID a := ra_Good rmp)\<rparr>;
                st' = (WithPressure sized pr)\<lparr>hs_RampedLimit := ra_Limit rmp, hs_LastHeartbeat := now\<rparr>
            in (case PutState st' s of
                  (Some e, s') \<Rightarrow> (ProbeError, p', s')
                | (None, s') \<Rightarrow> (ProbeOK, p', s')))"

text \<open>
  One round. The probes run concurrently in the code; each reads and writes only its own
  node's row and ramp run, so one after another is one of the outcomes and all outcomes agree.
\<close>

fun tick_loop ::
  "(int \<Rightarrow> int \<Rightarrow> rat) \<Rightarrow> (allocation \<Rightarrow> report option) \<Rightarrow> gotime \<Rightarrow> allocation list \<Rightarrow> prober \<Rightarrow> node_store
   \<Rightarrow> prober \<times> node_store" where
  "tick_loop pct rep now [] p s = (p, s)"
| "tick_loop pct rep now (a # as) p s =
     (if al_State a = StateRevoked then tick_loop pct rep now as p s
      else (case probe pct (rep a) now a p s of (_, p', s') \<Rightarrow> tick_loop pct rep now as p' s'))"

definition Tick ::
  "(int \<Rightarrow> int \<Rightarrow> rat) \<Rightarrow> (allocation \<Rightarrow> report option) \<Rightarrow> gotime \<Rightarrow> prober \<Rightarrow> node_store \<Rightarrow> prober \<times> node_store" where
  "Tick pct rep now p s = tick_loop pct rep now (ListAllocations s) p s"

end
