(* ===== verification/Placer.thy ===== *)
theory Placer
  imports Fleet
begin

text \<open>
  The capacity half of helper placement (\<open>nodes/placer.go\<close>) and the operator's fleet view
  (\<open>nodes/fleetview.go\<close>). A \<open>Placer\<close> keeps the slots and the identity lanes this process has
  handed out. \<open>Reserve\<close> reads the view first and takes the lock afterwards; the two halves
  are separate operations here (\<open>Nodes\<close> and \<open>reserve_locked\<close>), so other operations may run in
  between, and \<open>Reserve\<close> is their composition. The \<open>Release\<close> closure of a reservation and
  its \<open>sync.Once\<close> are a handle.
\<close>

subsection \<open>The view\<close>

record node =
  nd_ID :: string
  nd_Region :: string
  nd_Endpoint :: string
  nd_Limit :: int
  nd_VoiceCapable :: bool

datatype placer_error =
    PlacerNode node_error
  | ErrNodeNotEligible
  | ErrLaneBusy
  | ErrNoCapacity

record handle =
  ha_Node :: string
  ha_Lane :: string
  ha_Released :: bool

record placer =
  pl_ViewTTL :: dur
  pl_used :: "string \<rightharpoonup> int"
  pl_lanes :: "string \<rightharpoonup> string"
  pl_view :: "node list option"
  pl_viewT :: gotime
  pl_handles :: "handle list"

definition NewPlacer :: "dur \<Rightarrow> placer" where
  "NewPlacer ttl = \<lparr>pl_ViewTTL = (if ttl = 0 then second else ttl), pl_used = Map.empty,
     pl_lanes = Map.empty, pl_view = None, pl_viewT = 0, pl_handles = []\<rparr>"

text \<open>
  The loop of \<open>Nodes\<close>: a node without a state was never heard from, any other error of the
  state source ends it.
\<close>

fun view_loop ::
  "(string \<Rightarrow> node_error + helper_state) \<Rightarrow> gotime \<Rightarrow> allocation list \<Rightarrow> node_error + node list" where
  "view_loop state now [] = Inr []"
| "view_loop state now (a # as) =
     (let go = (\<lambda>st. (case view_loop state now as of
            Inl e \<Rightarrow> Inl e
          | Inr view \<Rightarrow>
              let d = Admission a st now in
              Inr (if de_Eligible d
                   then \<lparr>nd_ID = al_NodeID a, nd_Region = al_Region a, nd_Endpoint = al_Endpoint a,
                         nd_Limit = de_Limit d, nd_VoiceCapable = al_VoiceCapable a\<rparr> # view
                   else view)))
      in (case state (al_NodeID a) of
            Inl NodesNotFound \<Rightarrow> go (no_state (al_NodeID a))
          | Inl e \<Rightarrow> Inl e
          | Inr st \<Rightarrow> go st))"

definition Nodes ::
  "(gotime \<Rightarrow> node_error + allocation list) \<Rightarrow> (string \<Rightarrow> node_error + helper_state) \<Rightarrow> gotime
   \<Rightarrow> placer \<Rightarrow> (node_error + node list) \<times> placer" where
  "Nodes allocs state now p =
     (let fresh =
        (case allocs now of
           Inl e \<Rightarrow> (Inl e, p)
         | Inr as \<Rightarrow>
             (case view_loop state now as of
                Inl e \<Rightarrow> (Inl e, p)
              | Inr v \<Rightarrow> let view = sort_key nd_ID v in
                  (Inr view, p\<lparr>pl_view := Some view, pl_viewT := now\<rparr>)))
      in (case pl_view p of
            None \<Rightarrow> fresh
          | Some v \<Rightarrow>
              if 0 < pl_ViewTTL p \<and> 0 \<le> now - pl_viewT p \<and> now - pl_viewT p < pl_ViewTTL p
              then (Inr v, p) else fresh))"

definition Capacity ::
  "(gotime \<Rightarrow> node_error + allocation list) \<Rightarrow> (string \<Rightarrow> node_error + helper_state) \<Rightarrow> gotime
   \<Rightarrow> placer \<Rightarrow> int \<times> placer" where
  "Capacity allocs state now p =
     (case Nodes allocs state now p of
        (Inl e, p') \<Rightarrow> (0, p')
      | (Inr ns, p') \<Rightarrow> (sum_list (map nd_Limit ns), p'))"

subsection \<open>Slots and lanes\<close>

definition used_of :: "placer \<Rightarrow> string \<Rightarrow> int" where
  "used_of p n = (case pl_used p n of None \<Rightarrow> 0 | Some k \<Rightarrow> k)"

definition Used :: "placer \<Rightarrow> string \<Rightarrow> int" where
  "Used p n = used_of p n"

text \<open>The locked half of \<open>Reserve\<close>; the result is the index of the reservation's handle.\<close>

definition reserve_locked :: "node \<Rightarrow> string \<Rightarrow> placer \<Rightarrow> (placer_error + nat) \<times> placer" where
  "reserve_locked n lane p =
     (if pl_lanes p lane \<noteq> None then (Inl ErrLaneBusy, p)
      else if nd_Limit n \<le> used_of p (nd_ID n) then (Inl ErrNoCapacity, p)
      else (Inr (length (pl_handles p)),
            p\<lparr>pl_used := (pl_used p)(nd_ID n \<mapsto> used_of p (nd_ID n) + 1),
              pl_lanes := (pl_lanes p)(lane \<mapsto> nd_ID n),
              pl_handles := pl_handles p @ [\<lparr>ha_Node = nd_ID n, ha_Lane = lane, ha_Released = False\<rparr>]\<rparr>))"

definition Reserve ::
  "(gotime \<Rightarrow> node_error + allocation list) \<Rightarrow> (string \<Rightarrow> node_error + helper_state) \<Rightarrow> gotime
   \<Rightarrow> string \<Rightarrow> string \<Rightarrow> placer \<Rightarrow> (placer_error + nat) \<times> placer" where
  "Reserve allocs state now nodeID lane p =
     (if lane = [] then (Inl (PlacerNode NodesInvalid), p)
      else (case Nodes allocs state now p of
              (Inl e, p') \<Rightarrow> (Inl (PlacerNode e), p')
            | (Inr ns, p') \<Rightarrow>
                (case find (\<lambda>n. nd_ID n = nodeID) ns of
                   None \<Rightarrow> (Inl ErrNodeNotEligible, p')
                 | Some n \<Rightarrow> reserve_locked n lane p')))"

definition Release :: "nat \<Rightarrow> placer \<Rightarrow> placer" where
  "Release h p =
     (if length (pl_handles p) \<le> h then p
      else let r = pl_handles p ! h in
        if ha_Released r then p
        else let k = used_of p (ha_Node r) - 1 in
          p\<lparr>pl_used := (if k \<le> 0 then (pl_used p)(ha_Node r := None) else (pl_used p)(ha_Node r \<mapsto> k)),
            pl_lanes := (pl_lanes p)(ha_Lane r := None),
            pl_handles := (pl_handles p)[h := r\<lparr>ha_Released := True\<rparr>]\<rparr>)"

subsection \<open>The operator's view\<close>

datatype fleet_state =
    FleetEligible | FleetIneligible | FleetDraining | FleetLost | FleetUnknownReservation

record fleet_node =
  fn_NodeID :: string
  fn_Label :: string
  fn_Region :: string
  fn_State :: fleet_state
  fn_IneligibleReason :: "reason option"
  fn_HeartbeatAt :: "gotime option"
  fn_Generation :: int
  fn_GrantState :: string
  fn_ReservationState :: string
  fn_ValidUntil :: gotime
  fn_MaxBrowserWorkloads :: int
  fn_CPUMillis :: int
  fn_MemoryBytes :: int
  fn_VoiceCapable :: bool
  fn_WorkloadsInUse :: int
  fn_AdmissionLimit :: int
  fn_AdmissionReduced :: bool
  fn_RecoverAt :: "gotime option"

definition fleet_node_view :: "(string \<Rightarrow> int) \<Rightarrow> allocation \<Rightarrow> helper_state \<Rightarrow> gotime \<Rightarrow> fleet_node" where
  "fleet_node_view usedBy a st now =
     (let d = Admission a st now;
          n = \<lparr>fn_NodeID = al_NodeID a, fn_Label = al_NodeID a, fn_Region = al_Region a,
               fn_State = FleetEligible, fn_IneligibleReason = None,
               fn_HeartbeatAt = (if \<not> IsZero (hs_LastHeartbeat st) then Some (hs_LastHeartbeat st) else None),
               fn_Generation = al_Generation a, fn_GrantState = al_State a,
               fn_ReservationState = al_ReservationState a, fn_ValidUntil = al_ValidUntil a,
               fn_MaxBrowserWorkloads = al_MaxBrowserWorkloads a, fn_CPUMillis = al_CPUMillis a,
               fn_MemoryBytes = al_MemoryBytes a, fn_VoiceCapable = al_VoiceCapable a,
               fn_WorkloadsInUse = usedBy (al_NodeID a), fn_AdmissionLimit = de_Limit d,
               fn_AdmissionReduced = hs_PressureReduced st,
               fn_RecoverAt = (if hs_PressureReduced st \<and> \<not> IsZero (hs_PressureCalmSince st)
                               then Some (hs_PressureCalmSince st + recoverHold) else None)\<rparr>
      in if de_Eligible d then n
         else (case de_Reason d of
                 ReasonDraining \<Rightarrow> n\<lparr>fn_State := FleetDraining\<rparr>
               | ReasonReservationUnk \<Rightarrow> n\<lparr>fn_State := FleetUnknownReservation\<rparr>
               | ReasonHeartbeatMissed \<Rightarrow> n\<lparr>fn_State := FleetLost\<rparr>
               | r \<Rightarrow> n\<lparr>fn_State := FleetIneligible, fn_IneligibleReason := Some r\<rparr>))"

fun fleet_loop ::
  "(string \<Rightarrow> int) \<Rightarrow> (string \<Rightarrow> node_error + helper_state) \<Rightarrow> gotime \<Rightarrow> allocation list \<Rightarrow> node_error + fleet_node list" where
  "fleet_loop usedBy state now [] = Inr []"
| "fleet_loop usedBy state now (a # as) =
     (let go = (\<lambda>st. (case fleet_loop usedBy state now as of
            Inl e \<Rightarrow> Inl e | Inr ns \<Rightarrow> Inr (fleet_node_view usedBy a st now # ns)))
      in (case state (al_NodeID a) of
            Inl NodesNotFound \<Rightarrow> go (no_state (al_NodeID a))
          | Inl e \<Rightarrow> Inl e
          | Inr st \<Rightarrow> go st))"

definition FleetNodes ::
  "(gotime \<Rightarrow> node_error + allocation list) \<Rightarrow> (string \<Rightarrow> node_error + helper_state) \<Rightarrow> (string \<Rightarrow> int)
   \<Rightarrow> gotime \<Rightarrow> node_error + fleet_node list" where
  "FleetNodes allocs state usedBy now =
     (case allocs now of
        Inl e \<Rightarrow> Inl e
      | Inr as \<Rightarrow> fleet_loop usedBy state now (take MaxNodes (sort_key al_NodeID as)))"

record fleet_summary =
  fs_NodesTotal :: nat
  fs_NodesByState :: "fleet_state \<Rightarrow> nat"
  fs_WorkloadLimitTotal :: int
  fs_WorkloadsInUseTotal :: int
  fs_NodesPressureReduced :: nat
  fs_HeldByReason :: "string \<rightharpoonup> int"

definition FleetSummary :: "(string \<rightharpoonup> int) \<Rightarrow> fleet_node list \<Rightarrow> fleet_summary" where
  "FleetSummary held ns =
     \<lparr>fs_NodesTotal = length ns,
      fs_NodesByState = (\<lambda>s. length (filter (\<lambda>n. fn_State n = s) ns)),
      fs_WorkloadLimitTotal = sum_list (map fn_AdmissionLimit ns),
      fs_WorkloadsInUseTotal = sum_list (map fn_WorkloadsInUse ns),
      fs_NodesPressureReduced = length (filter fn_AdmissionReduced ns),
      fs_HeldByReason = (\<lambda>k. case held k of None \<Rightarrow> None | Some c \<Rightarrow> if 0 < c then Some c else None)\<rparr>"

definition HelperHosts :: "allocation list \<Rightarrow> string list" where
  "HelperHosts as =
     remdups (concat (map (\<lambda>a. case SplitHostPort (al_Endpoint a) of
                                None \<Rightarrow> [] | Some (h, _) \<Rightarrow> [to_lower h]) as))"

end
