(* ===== verification/NodesProps.thy ===== *)
theory NodesProps
  imports Nodes
begin

text \<open>
  What the node store promises (\<open>nodes/store.go\<close>): every accepted record is valid, the
  tables are bounded, generations and heartbeats never go back, and revocation is final. The
  store is a guarded machine: the callers pass a clock reading that is not the zero time.
\<close>

subsection \<open>The store as a machine\<close>

datatype node_op =
    OpApply allocation gotime
  | OpPutState helper_state
  | OpPutRegistry registry_entry gotime
  | OpPromote string gotime
  | OpRevoke string gotime

fun node_step :: "node_op \<Rightarrow> node_store \<Rightarrow> node_store" where
  "node_step (OpApply a now) s = snd (ApplyAllocation a now s)"
| "node_step (OpPutState h) s = snd (PutState h s)"
| "node_step (OpPutRegistry e now) s = snd (PutRegistry e now s)"
| "node_step (OpPromote nid now) s = snd (PromoteSPKI nid now s)"
| "node_step (OpRevoke nid now) s = snd (RevokeNode nid now s)"

fun node_op_ok :: "node_op \<Rightarrow> bool" where
  "node_op_ok (OpApply a now) = (now \<noteq> 0)"
| "node_op_ok (OpRevoke nid now) = (now \<noteq> 0)"
| "node_op_ok _ = True"

definition alloc_row :: "string \<Rightarrow> allocation \<Rightarrow> bool" where
  "alloc_row k a = (al_NodeID a = k \<and> alloc_validate a = None)"

definition state_row :: "string \<Rightarrow> helper_state \<Rightarrow> bool" where
  "state_row k h = (hs_NodeID h = k \<and> state_validate h = None)"

definition entry_row :: "string \<Rightarrow> registry_entry \<Rightarrow> bool" where
  "entry_row k e = (re_NodeID e = k \<and> entry_validate e = None)"

text \<open>A revoked grant leaves no live pin.\<close>

definition revoked_together :: "node_store \<Rightarrow> bool" where
  "revoked_together s =
     (\<forall>k a e. map_of (ns_allocations s) k = Some a \<longrightarrow> al_State a = StateRevoked \<longrightarrow>
        map_of (ns_registry s) k = Some e \<longrightarrow> Revoked e)"

definition tables_ok :: "node_store \<Rightarrow> bool" where
  "tables_ok s =
     (distinct (map fst (ns_allocations s)) \<and> length (ns_allocations s) \<le> MaxNodes \<and>
      distinct (map fst (ns_states s)) \<and> fst ` set (ns_states s) \<subseteq> fst ` set (ns_allocations s) \<and>
      distinct (map fst (ns_registry s)) \<and> length (ns_registry s) \<le> MaxNodes \<and>
      (\<forall>k a. map_of (ns_allocations s) k = Some a \<longrightarrow> alloc_row k a) \<and>
      (\<forall>k h. map_of (ns_states s) k = Some h \<longrightarrow> state_row k h) \<and>
      (\<forall>k e. map_of (ns_registry s) k = Some e \<longrightarrow> entry_row k e))"

definition node_inv :: "node_store \<Rightarrow> bool" where
  "node_inv s = (tables_ok s \<and> revoked_together s)"

definition grant_le :: "allocation \<Rightarrow> allocation \<Rightarrow> bool" where
  "grant_le a b = (al_Generation a < al_Generation b \<or>
     (al_Generation a = al_Generation b \<and> sameExceptValidity a b))"

definition node_le :: "node_store \<Rightarrow> node_store \<Rightarrow> bool" where
  "node_le s t =
     ((\<forall>k a. map_of (ns_allocations s) k = Some a \<longrightarrow>
         (\<exists>b. map_of (ns_allocations t) k = Some b \<and> grant_le a b)) \<and>
      (\<forall>k h. map_of (ns_states s) k = Some h \<longrightarrow>
         (\<exists>h'. map_of (ns_states t) k = Some h' \<and> hs_LastHeartbeat h \<le> hs_LastHeartbeat h')) \<and>
      (\<forall>k e. map_of (ns_registry s) k = Some e \<longrightarrow> Revoked e \<longrightarrow> map_of (ns_registry t) k = Some e))"

subsection \<open>Facts on the tables\<close>

lemma length_update:
  "distinct (map fst m) \<Longrightarrow>
   length (AList.update k v m) = (if k \<in> fst ` set m then length m else Suc (length m))"
  by (induction m) auto

lemma length_update_le:
  assumes "distinct (map fst m)" and "length m \<le> n" and "map_of m k = None \<Longrightarrow> length m < n"
  shows "length (AList.update k v m) \<le> n"
  using assms by (auto simp: length_update map_of_eq_None_iff)

lemma sameExceptValidity_refl [simp]: "sameExceptValidity a a"
  by (simp add: sameExceptValidity_def)

lemma grant_le_refl [simp]: "grant_le a a"
  by (simp add: grant_le_def)

lemma grant_le_trans: "grant_le a b \<Longrightarrow> grant_le b c \<Longrightarrow> grant_le a c"
  by (auto simp: grant_le_def sameExceptValidity_def)

lemma node_le_refl: "node_le s s"
  by (simp add: node_le_def)

lemma node_le_trans: "node_le s t \<Longrightarrow> node_le t u \<Longrightarrow> node_le s u"
  unfolding node_le_def by (meson grant_le_trans order.trans)

lemma node_le_registry:
  assumes "\<And>k e. map_of (ns_registry s) k = Some e \<Longrightarrow> Revoked e \<Longrightarrow> map_of r k = Some e"
  shows "node_le s (s\<lparr>ns_registry := r\<rparr>)"
  using assms by (auto simp: node_le_def)

lemma alloc_validate_accepted [simp]:
  "alloc_validate (a\<lparr>al_AcceptedAt := t\<rparr>) = alloc_validate a"
  by (simp add: alloc_validate_def Let_def cong: if_cong)

lemma entry_validate_stamped [simp]:
  "entry_validate (e\<lparr>re_RevokedAt := t, re_UpdatedAt := u\<rparr>) = entry_validate e"
  by (simp add: entry_validate_def)

lemma tables_rows:
  assumes "tables_ok s"
  shows "map_of (ns_allocations s) k = Some a \<Longrightarrow> alloc_row k a"
    and "map_of (ns_states s) k = Some h \<Longrightarrow> state_row k h"
    and "map_of (ns_registry s) k = Some e \<Longrightarrow> entry_row k e"
    and "distinct (map fst (ns_allocations s))" and "distinct (map fst (ns_states s))"
    and "distinct (map fst (ns_registry s))"
  using assms unfolding tables_ok_def by blast+

subsection \<open>Changing one table\<close>

lemma registry_update_ok:
  assumes ok: "tables_ok s" and row: "entry_row k e"
    and room: "map_of (ns_registry s) k = None \<Longrightarrow> length (ns_registry s) < MaxNodes"
  shows "tables_ok (s\<lparr>ns_registry := AList.update k e (ns_registry s)\<rparr>)"
proof -
  have "length (AList.update k e (ns_registry s)) \<le> MaxNodes"
    using ok room by (intro length_update_le) (auto simp: tables_ok_def)
  then show ?thesis
    using ok row unfolding tables_ok_def
    by (simp add: AList.update_conv' AList.distinct_update)
qed

lemma allocation_update_ok:
  assumes ok: "tables_ok s" and row: "alloc_row k a"
    and room: "map_of (ns_allocations s) k = None \<Longrightarrow> length (ns_allocations s) < MaxNodes"
  shows "tables_ok (s\<lparr>ns_allocations := AList.update k a (ns_allocations s)\<rparr>)"
proof -
  have "length (AList.update k a (ns_allocations s)) \<le> MaxNodes"
    using ok room by (intro length_update_le) (auto simp: tables_ok_def)
  moreover have "fst ` set (ns_allocations s) \<subseteq> fst ` set (AList.update k a (ns_allocations s))"
    by (simp add: AList.dom_update) blast
  ultimately show ?thesis
    using ok row unfolding tables_ok_def
    by (simp add: AList.update_conv' AList.distinct_update) (meson order_trans)
qed

lemma state_update_ok:
  assumes ok: "tables_ok s" and row: "state_row k h"
    and alloc: "map_of (ns_allocations s) k = Some a"
  shows "tables_ok (s\<lparr>ns_states := AList.update k h (ns_states s)\<rparr>)"
proof -
  have "k \<in> fst ` set (ns_allocations s)"
    using alloc by (metis domI dom_map_of_conv_image_fst)
  then have "fst ` set (AList.update k h (ns_states s)) \<subseteq> fst ` set (ns_allocations s)"
    using ok by (auto simp: AList.dom_update tables_ok_def)
  then show ?thesis
    using ok row unfolding tables_ok_def
    by (simp add: AList.update_conv' AList.distinct_update)
qed

lemma revoke_entry_get:
  "map_of (ns_registry (revoke_entry nid now s)) k =
     (case map_of (ns_registry s) k of
        None \<Rightarrow> None
      | Some e \<Rightarrow> if k = nid \<and> \<not> Revoked e then Some (e\<lparr>re_RevokedAt := now, re_UpdatedAt := now\<rparr>) else Some e)"
  by (auto simp: revoke_entry_def AList.update_conv' split: option.splits)

lemma revoke_entry_other [simp]:
  "ns_allocations (revoke_entry nid now s) = ns_allocations s"
  "ns_states (revoke_entry nid now s) = ns_states s"
  by (auto simp: revoke_entry_def split: option.splits)

lemma revoke_entry_ok: "tables_ok s \<Longrightarrow> tables_ok (revoke_entry nid now s)"
proof (cases "map_of (ns_registry s) nid")
  case None
  then show "tables_ok s \<Longrightarrow> ?thesis" by (simp add: revoke_entry_def)
next
  case (Some e)
  assume ok: "tables_ok s"
  with Some have "entry_row nid e" using tables_rows(3) by blast
  then have "entry_row nid (e\<lparr>re_RevokedAt := now, re_UpdatedAt := now\<rparr>)" by (simp add: entry_row_def)
  with Some ok show ?thesis by (auto simp: revoke_entry_def intro!: registry_update_ok)
qed

lemma revoke_entry_le: "node_le s (revoke_entry nid now s)"
  unfolding node_le_def by (auto simp: revoke_entry_get)

subsection \<open>Each operation\<close>

lemma accept_inv:
  assumes inv: "node_inv s" and row: "alloc_row k a" and now: "now \<noteq> 0"
    and room: "map_of (ns_allocations s) k = None \<Longrightarrow> length (ns_allocations s) < MaxNodes"
    and s': "s' = s\<lparr>ns_allocations := AList.update k a (ns_allocations s)\<rparr>"
  shows "node_inv (if al_State a = StateRevoked then revoke_entry k now s' else s')"
proof -
  have ok: "tables_ok s'"
    using inv unfolding s' node_inv_def by (intro allocation_update_ok row room) auto
  have tog: "revoked_together s" using inv by (simp add: node_inv_def)
  show ?thesis
  proof (cases "al_State a = StateRevoked")
    case True
    have "revoked_together (revoke_entry k now s')"
      using tog now unfolding revoked_together_def s'
      by (auto simp: revoke_entry_get AList.update_conv' Revoked_def split: if_splits option.splits)
    with True ok show ?thesis by (simp add: node_inv_def revoke_entry_ok)
  next
    case False
    then have "revoked_together s'"
      using tog unfolding revoked_together_def s'
      by (auto simp: AList.update_conv' split: if_splits)
    with False ok show ?thesis by (simp add: node_inv_def)
  qed
qed

lemma accept_le:
  assumes old: "\<And>old. map_of (ns_allocations s) k = Some old \<Longrightarrow> grant_le old a"
  shows "node_le s (s\<lparr>ns_allocations := AList.update k a (ns_allocations s)\<rparr>)"
  using old unfolding node_le_def by (auto simp: AList.update_conv')

lemma sameExceptValidity_sym: "sameExceptValidity a b \<Longrightarrow> sameExceptValidity b a"
  by (simp add: sameExceptValidity_def)

lemma ApplyAllocation_cases:
  "(\<exists>e. ApplyAllocation a now s = (Some e, s)) \<or>
   (alloc_validate a = None \<and>
    (map_of (ns_allocations s) (al_NodeID a) = None \<longrightarrow> length (ns_allocations s) < MaxNodes) \<and>
    (\<forall>old. map_of (ns_allocations s) (al_NodeID a) = Some old \<longrightarrow> grant_le old (a\<lparr>al_AcceptedAt := now\<rparr>)) \<and>
    ApplyAllocation a now s =
      (let a' = a\<lparr>al_AcceptedAt := now\<rparr>;
           s' = s\<lparr>ns_allocations := AList.update (al_NodeID a) a' (ns_allocations s)\<rparr>
       in (None, if al_State a' = StateRevoked then revoke_entry (al_NodeID a) now s' else s')))"
  unfolding ApplyAllocation_def
  by (auto simp: Let_def grant_le_def dest: sameExceptValidity_sym split: option.splits)

lemma ApplyAllocation_inv:
  assumes "node_inv s" and "now \<noteq> 0"
  shows "node_inv (snd (ApplyAllocation a now s)) \<and> node_le s (snd (ApplyAllocation a now s))"
proof -
  let ?a = "a\<lparr>al_AcceptedAt := now\<rparr>"
  let ?s = "s\<lparr>ns_allocations := AList.update (al_NodeID a) ?a (ns_allocations s)\<rparr>"
  consider e where "ApplyAllocation a now s = (Some e, s)"
    | "alloc_row (al_NodeID a) ?a"
      "map_of (ns_allocations s) (al_NodeID a) = None \<Longrightarrow> length (ns_allocations s) < MaxNodes"
      "\<And>old. map_of (ns_allocations s) (al_NodeID a) = Some old \<Longrightarrow> grant_le old ?a"
      "snd (ApplyAllocation a now s) =
         (if al_State ?a = StateRevoked then revoke_entry (al_NodeID a) now ?s else ?s)"
    using ApplyAllocation_cases [of a now s] by (auto simp: alloc_row_def Let_def)
  then show ?thesis
  proof cases
    case 1
    then show ?thesis using assms by (simp add: node_le_refl)
  next
    case 2
    have "node_le s ?s" by (rule accept_le) (rule 2(3))
    then have "node_le s (if al_State ?a = StateRevoked then revoke_entry (al_NodeID a) now ?s else ?s)"
      using revoke_entry_le node_le_trans by auto
    moreover have "node_inv (if al_State ?a = StateRevoked then revoke_entry (al_NodeID a) now ?s else ?s)"
      by (rule accept_inv [OF assms(1) 2(1) assms(2) 2(2) refl])
    ultimately show ?thesis unfolding 2(4) by blast
  qed
qed

lemma PutState_inv:
  assumes inv: "node_inv s"
  shows "node_inv (snd (PutState h s)) \<and> node_le s (snd (PutState h s))"
proof (cases "snd (PutState h s) = s")
  case True
  then show ?thesis using inv by (simp add: node_le_refl)
next
  case False
  let ?s = "s\<lparr>ns_states := AList.update (hs_NodeID h) h (ns_states s)\<rparr>"
  from False obtain a where valid: "state_validate h = None" and
    a: "map_of (ns_allocations s) (hs_NodeID h) = Some a" and
    old: "\<And>o'. map_of (ns_states s) (hs_NodeID h) = Some o' \<Longrightarrow> hs_LastHeartbeat o' \<le> hs_LastHeartbeat h" and
    res: "snd (PutState h s) = ?s"
    by (auto simp: PutState_def Let_def split: option.splits if_splits)
  have "tables_ok ?s"
    using inv valid a unfolding node_inv_def
    by (intro state_update_ok) (auto simp: state_row_def)
  moreover have "revoked_together ?s" using inv by (simp add: node_inv_def revoked_together_def)
  moreover have "node_le s ?s" using old by (auto simp: node_le_def AList.update_conv')
  ultimately show ?thesis by (simp add: node_inv_def res)
qed

text \<open>Writing an entry that is not yet revoked: pins may change, a revocation may not.\<close>

lemma put_entry_inv:
  assumes inv: "node_inv s" and row: "entry_row k e"
    and room: "map_of (ns_registry s) k = None \<Longrightarrow> length (ns_registry s) < MaxNodes"
    and live: "\<And>o'. map_of (ns_registry s) k = Some o' \<Longrightarrow> \<not> Revoked o'"
    and grant: "\<And>a. map_of (ns_allocations s) k = Some a \<Longrightarrow> al_State a \<noteq> StateRevoked"
  shows "node_inv (s\<lparr>ns_registry := AList.update k e (ns_registry s)\<rparr>) \<and>
         node_le s (s\<lparr>ns_registry := AList.update k e (ns_registry s)\<rparr>)"
proof -
  let ?s = "s\<lparr>ns_registry := AList.update k e (ns_registry s)\<rparr>"
  have "tables_ok ?s" using inv unfolding node_inv_def by (intro registry_update_ok row room) auto
  moreover have "revoked_together ?s"
    using inv grant unfolding node_inv_def revoked_together_def
    by (auto simp: AList.update_conv' split: if_splits)
  moreover have "node_le s ?s" using live by (auto simp: node_le_def AList.update_conv')
  ultimately show ?thesis by (simp add: node_inv_def)
qed

lemma PutRegistry_inv:
  assumes inv: "node_inv s"
  shows "node_inv (snd (PutRegistry e now s)) \<and> node_le s (snd (PutRegistry e now s))"
proof (cases "snd (PutRegistry e now s) = s")
  case True
  then show ?thesis using inv by (simp add: node_le_refl)
next
  case False
  let ?e = "e\<lparr>re_RevokedAt := 0, re_UpdatedAt := now\<rparr>"
  from False have valid: "entry_validate e = None"
    and live: "\<And>o'. map_of (ns_registry s) (re_NodeID e) = Some o' \<Longrightarrow> \<not> Revoked o'"
    and grant: "\<And>a. map_of (ns_allocations s) (re_NodeID e) = Some a \<Longrightarrow> al_State a \<noteq> StateRevoked"
    and room: "map_of (ns_registry s) (re_NodeID e) = None \<Longrightarrow> length (ns_registry s) < MaxNodes"
    and res: "snd (PutRegistry e now s) = s\<lparr>ns_registry := AList.update (re_NodeID e) ?e (ns_registry s)\<rparr>"
    by (auto simp: PutRegistry_def Let_def split: option.splits if_splits)
  have "entry_row (re_NodeID e) ?e" using valid by (simp add: entry_row_def)
  from put_entry_inv [OF inv this room live grant] show ?thesis unfolding res by blast
qed

lemma PromoteSPKI_inv:
  assumes inv: "node_inv s"
  shows "node_inv (snd (PromoteSPKI nid now s)) \<and> node_le s (snd (PromoteSPKI nid now s))"
proof (cases "snd (PromoteSPKI nid now s) = s")
  case True
  then show ?thesis using inv by (simp add: node_le_refl)
next
  case False
  then obtain e where e: "map_of (ns_registry s) nid = Some e" "\<not> Revoked e" "re_SPKINext e \<noteq> []"
    and res: "snd (PromoteSPKI nid now s) = s\<lparr>ns_registry := AList.update nid
         (e\<lparr>re_SPKICurrent := re_SPKINext e, re_SPKINext := [], re_UpdatedAt := now\<rparr>) (ns_registry s)\<rparr>"
    by (auto simp: PromoteSPKI_def split: option.splits if_splits)
  have "entry_row nid e" using inv e(1) tables_rows(3) unfolding node_inv_def by blast
  then have row: "entry_row nid (e\<lparr>re_SPKICurrent := re_SPKINext e, re_SPKINext := [], re_UpdatedAt := now\<rparr>)"
    by (auto simp: entry_row_def entry_validate_def split: if_splits)
  have "al_State a \<noteq> StateRevoked" if "map_of (ns_allocations s) nid = Some a" for a
    using inv that e unfolding node_inv_def revoked_together_def by blast
  from put_entry_inv [OF inv row _ _ this] e show ?thesis unfolding res by simp
qed

lemma RevokeNode_inv:
  assumes inv: "node_inv s" and now: "now \<noteq> 0"
  shows "node_inv (snd (RevokeNode nid now s)) \<and> node_le s (snd (RevokeNode nid now s))"
proof -
  have "revoked_together (revoke_entry nid now s)"
    using inv now unfolding node_inv_def revoked_together_def
    by (auto simp: revoke_entry_get Revoked_def split: if_splits option.splits)
  then have "node_inv (revoke_entry nid now s)"
    using inv by (simp add: node_inv_def revoke_entry_ok)
  then show ?thesis using inv node_le_refl revoke_entry_le
    by (auto simp: RevokeNode_def split: option.splits)
qed

lemma node_step_ok:
  assumes "node_inv s" and "node_op_ok op"
  shows "node_inv (node_step op s) \<and> node_le s (node_step op s)"
  using assms
  by (cases op)
    (simp_all add: ApplyAllocation_inv PutState_inv PutRegistry_inv PromoteSPKI_inv RevokeNode_inv)

interpretation node_machine: guarded_machine node_step node_op_ok node_inv node_le
  by unfold_locales (use node_le_refl node_le_trans node_step_ok in blast)+

lemma node_inv_new: "node_inv new_node_store"
  by (simp add: node_inv_def tables_ok_def revoked_together_def new_node_store_def)

subsection \<open>Properties\<close>

lemma Matches_revoked: "Revoked e \<Longrightarrow> \<not> Matches e uri spki"
  by (simp add: Matches_def)

definition wit_grant :: allocation where
  "wit_grant = \<lparr>al_NodeID = ''n1'', al_Region = ''eu'', al_Endpoint = ''10.0.0.7:9443'',
     al_URISAN = ''spiffe://ubag/node/n1'', al_SPKI = [], al_CPUMillis = 1500, al_MemoryBytes = 2500000,
     al_ReservationState = ''known'', al_State = ''active'', al_MaxBrowserWorkloads = 4,
     al_VoiceCapable = False, al_UDPPortMin = 0, al_UDPPortMax = 0, al_NATIP = [],
     al_ValidUntil = 900, al_Generation = 3, al_AcceptedAt = 0\<rparr>"

definition wit_entry :: registry_entry where
  "wit_entry = \<lparr>re_NodeID = ''n1'', re_URISAN = ''spiffe://ubag/node/n1'',
     re_SPKICurrent = [], re_SPKINext = [], re_RevokedAt = 0, re_UpdatedAt = 0\<rparr>"

text \<open>C33. Revocation is final and grants never go back. In a store built by any sequence of
  operations (at clock readings that are not the zero time), let the node be revoked in the
  registry, by an operator or by a grant in state revoked. Then, after any further operations,
  its entry is exactly the same (no later pin, promotion, revocation or grant touches it) and
  no certificate matches it. A node whose accepted grant is revoked has no live entry at all.
  The accepted generation of a grant never decreases, and at an equal generation only its
  validity differs.\<close>

theorem revocation_is_final:
  assumes "s = fold node_step ops new_node_store" and "list_all node_op_ok ops"
    and "t = fold node_step rest s" and "list_all node_op_ok rest"
  shows "(GetRegistry nid s = Inr e \<and> Revoked e \<longrightarrow>
            GetRegistry nid t = Inr e \<and> \<not> Matches e uri spki) \<and>
         (GetAllocation nid t = Inr b \<and> al_State b = StateRevoked \<and> GetRegistry nid t = Inr e' \<longrightarrow>
            Revoked e' \<and> \<not> Matches e' uri spki) \<and>
         (GetAllocation nid s = Inr a \<and> GetAllocation nid t = Inr b \<longrightarrow>
            al_Generation a \<le> al_Generation b \<and>
            (al_Generation a = al_Generation b \<longrightarrow> sameExceptValidity a b))"
proof -
  have s: "node_inv s"
    using node_machine.guarded_run [OF node_inv_new assms(2)] assms(1) by simp
  have t: "node_inv t" "node_le s t"
    using node_machine.guarded_run [OF s assms(4)] assms(3) by auto
  have get: "GetRegistry nid s = Inr e \<Longrightarrow> map_of (ns_registry s) nid = Some e" for s e
    by (simp add: GetRegistry_def split: option.splits)
  have al: "GetAllocation nid s = Inr a \<Longrightarrow> map_of (ns_allocations s) nid = Some a" for s a
    by (simp add: GetAllocation_def split: option.splits)
  have "GetRegistry nid t = Inr e" if "GetRegistry nid s = Inr e" "Revoked e"
    using get [OF that(1)] that(2) t(2) by (simp add: node_le_def GetRegistry_def)
  moreover have "Revoked e'"
    if "GetAllocation nid t = Inr b" "al_State b = StateRevoked" "GetRegistry nid t = Inr e'"
    using get [OF that(3)] al [OF that(1)] that(2) t(1)
    unfolding node_inv_def revoked_together_def by blast
  moreover have "grant_le a b" if "GetAllocation nid s = Inr a" "GetAllocation nid t = Inr b"
    using al [OF that(1)] al [OF that(2)] t(2) unfolding node_le_def by fastforce
  ultimately show ?thesis by (auto simp: Matches_revoked grant_le_def)
qed

lemma revocation_is_final_witness:
  "(let s = fold node_step [OpPutRegistry wit_entry 5, OpRevoke ''n1'' 6] new_node_store;
        t = fold node_step [OpPutRegistry wit_entry 9] s;
        e = wit_entry\<lparr>re_RevokedAt := 6, re_UpdatedAt := 6\<rparr>
    in GetRegistry ''n1'' s = Inr e \<and> Revoked e \<and> GetRegistry ''n1'' t = Inr e)"
proof -
  let ?s = "fold node_step [OpPutRegistry wit_entry 5, OpRevoke ''n1'' 6] new_node_store"
  let ?e = "wit_entry\<lparr>re_RevokedAt := 6, re_UpdatedAt := 6\<rparr>"
  have "GetRegistry ''n1'' ?s = Inr ?e" "Revoked ?e" by code_simp+
  then show ?thesis
    using revocation_is_final [where ops = "[OpPutRegistry wit_entry 5, OpRevoke ''n1'' 6]" and s = ?s
        and rest = "[OpPutRegistry wit_entry 9]" and t = "fold node_step [OpPutRegistry wit_entry 9] ?s"
        and nid = "''n1''" and e = ?e, OF refl _ refl]
    by simp
qed

text \<open>Node identities round trip: the URI SAN of a well-formed node id is read back as
  that id, and every URI SAN that is accepted is the one of the id read from it. Certificates
  and node ids therefore name each other one to one.\<close>

theorem node_identity_roundtrip:
  "(NodeIDFromURISAN (NodeURISAN nid) = (nid, ValidNodeID nid)) \<and>
   (NodeIDFromURISAN uri = (nid, True)) = (uri = NodeURISAN nid \<and> ValidNodeID nid)"
  by (auto simp: NodeIDFromURISAN_def NodeURISAN_def ValidNodeID_def Let_def prefix_def)

end
