(* ===== verification/NodePolicyProps.thy ===== *)
theory NodePolicyProps
  imports NodePolicy
begin

text \<open>
  What the placement policy guarantees: the admitted limit is bounded by the grant, by what the
  helper has earned and by the ceiling table; pressure is left only after two minutes of
  continuous calm; the ramp climbs one workload per run of good samples; draining lets work
  finish first.
\<close>

subsection \<open>Admission\<close>

lemma AdmissionLimit_le: "AdmissionLimit p limit \<le> limit"
  by (auto simp: AdmissionLimit_def)

lemma AdmissionLimit_half: "pr_Reduced p \<Longrightarrow> AdmissionLimit p limit \<le> max 1 (limit div 2)"
  by (auto simp: AdmissionLimit_def)

lemma Evaluate_eligible:
  "de_Eligible (Evaluate g hb now p ramped) \<longleftrightarrow>
     gr_State g = ''active'' \<and> gr_ReservationState g = ''known'' \<and> gr_ValidUntil g \<noteq> 0 \<and>
     now < gr_ValidUntil g \<and> hb \<noteq> 0 \<and> now - hb < 45 * second \<and>
     0 < AdmissionLimit p (min (gr_MaxBrowserWorkloads g) (if ramped \<le> 0 then 1 else ramped))"
  by (auto simp: Evaluate_def no_decision_def Let_def MissedHeartbeatsLimit_def HeartbeatInterval_def
      NewHelperWorkloads_def)

lemma Evaluate_limit:
  "de_Eligible (Evaluate g hb now p ramped) \<Longrightarrow>
     de_Limit (Evaluate g hb now p ramped) =
       AdmissionLimit p (min (gr_MaxBrowserWorkloads g) (if ramped \<le> 0 then 1 else ramped))"
  by (auto simp: Evaluate_def no_decision_def Let_def NewHelperWorkloads_def split: if_splits)

lemma wrap64_le: "0 \<le> x \<Longrightarrow> wrap64 x \<le> x"
proof -
  assume x: "0 \<le> x"
  then have "(x + 2 ^ 63) mod 2 ^ 64 \<le> x + 2 ^ 63" by (intro zmod_le_nonneg_dividend) simp
  then show ?thesis by (simp add: wrap64_def)
qed

lemma go_quot_mult: "0 < b \<Longrightarrow> 0 < go_quot a b \<Longrightarrow> go_quot a b * b \<le> a"
proof -
  assume b: "0 < b" and q: "0 < go_quot a b"
  have "0 \<le> a"
  proof (rule ccontr)
    assume "\<not> 0 \<le> a"
    then have "go_quot a b = - (- a div b)" "0 \<le> - a div b" using b by (simp_all add: go_quot_def pos_imp_zdiv_nonneg_iff)
    with q show False by linarith
  qed
  then have "go_quot a b = a div b" by (simp add: go_quot_def)
  moreover have "a div b * b \<le> a" using pos_mod_sign [OF b, of a] div_mult_mod_eq [of a b] by linarith
  ultimately show ?thesis by simp
qed

text \<open>
  One side of the ceiling: \<open>n\<close> workloads out of \<open>limit\<close> keep their share of the grant \<open>g\<close>
  within \<open>ceil\<close>, unless a single workload is left. A product that wraps only lowers the limit.
\<close>

lemma share_bound:
  fixes n limit g ceil cap :: int
  assumes "0 < n" and "n \<le> limit" and "0 < g" and "0 < cap" and cap: "cap = min (max g 0) ceil"
    and cut: "cap < g \<Longrightarrow> n \<le> max 1 (go_quot (wrap64 (limit * cap)) g)"
  shows "n = 1 \<or> n * g \<le> limit * ceil"
proof (cases "cap < g \<and> n \<noteq> 1")
  case True
  then have c: "cap = ceil" using cap assms(3) by auto
  have n: "n \<le> go_quot (wrap64 (limit * cap)) g" using cut True assms(1) by auto
  then have "n * g \<le> go_quot (wrap64 (limit * cap)) g * g" using assms(3) by (intro mult_right_mono) auto
  also have "\<dots> \<le> wrap64 (limit * cap)" using n assms(1,3) by (intro go_quot_mult) auto
  also have "\<dots> \<le> limit * cap" using assms(1,2,4) by (intro wrap64_le) simp
  finally show ?thesis using c by simp
next
  case False
  then have "n = 1 \<or> g \<le> ceil" using cap by auto
  then show ?thesis using assms(1-3) by (auto intro: mult_mono)
qed

lemma clamp_bounds:
  assumes "clampToCeiling limit a st = n" and "0 < n"
  shows "n \<le> limit" "0 < hs_HostCores st" "0 < hs_HostMemoryBytes st" "0 < al_CPUMillis a" "0 < al_MemoryBytes a"
    and "n = 1 \<or> n * al_CPUMillis a \<le> limit * (hs_HostCores st * 750)"
    and "n = 1 \<or> n * al_MemoryBytes a \<le> limit * (hs_HostMemoryBytes st div 8 * 5)"
proof -
  let ?c = "CeilingFor (hs_HostCores st) (hs_HostMemoryBytes st)"
  obtain cpu mem where cm: "EffectiveCap (al_CPUMillis a) (al_MemoryBytes a) ?c = (cpu, mem)" by fastforce
  then show host: "0 < hs_HostCores st" "0 < hs_HostMemoryBytes st" and
    grant: "0 < al_CPUMillis a" "0 < al_MemoryBytes a"
    using assms by (auto simp: clampToCeiling_def EffectiveCap_def CeilingFor_def split: if_splits)
  show lim: "n \<le> limit"
    using assms by (auto simp: clampToCeiling_def Let_def split: prod.splits if_splits)
  have pos: "0 < cpu" "0 < mem"
    using assms cm by (auto simp: clampToCeiling_def Let_def split: prod.splits if_splits)
  have cpu: "cpu = min (max (al_CPUMillis a) 0) (wrap64 (hs_HostCores st * 750))"
    and mem: "mem = min (max (al_MemoryBytes a) 0) (hs_HostMemoryBytes st div 8 * 5)"
    using cm host by (auto simp: EffectiveCap_def CeilingFor_def)
  have "cpu < al_CPUMillis a \<Longrightarrow> n \<le> max 1 (go_quot (wrap64 (limit * cpu)) (al_CPUMillis a))"
    using assms cm by (auto simp: clampToCeiling_def Let_def split: if_splits)
  from share_bound [OF assms(2) lim grant(1) pos(1) cpu this]
  have "n = 1 \<or> n * al_CPUMillis a \<le> limit * wrap64 (hs_HostCores st * 750)" .
  moreover have "limit * wrap64 (hs_HostCores st * 750) \<le> limit * (hs_HostCores st * 750)"
    using lim assms(2) host(1) by (intro mult_left_mono wrap64_le) auto
  ultimately show "n = 1 \<or> n * al_CPUMillis a \<le> limit * (hs_HostCores st * 750)" by linarith
  have "mem < al_MemoryBytes a \<Longrightarrow> n \<le> max 1 (go_quot (wrap64 (limit * mem)) (al_MemoryBytes a))"
    using assms cm by (auto simp: clampToCeiling_def Let_def split: if_splits)
  from share_bound [OF assms(2) lim grant(2) pos(2) mem this]
  show "n = 1 \<or> n * al_MemoryBytes a \<le> limit * (hs_HostMemoryBytes st div 8 * 5)" .
qed

lemma Admission_eligible:
  assumes "de_Eligible (Admission a st now)"
  shows "de_Eligible (Evaluate (Grant a) (hs_LastHeartbeat st) now (state_pressure st) (hs_RampedLimit st))"
    and "de_Limit (Admission a st now) =
           clampToCeiling (AdmissionLimit (state_pressure st)
             (min (al_MaxBrowserWorkloads a) (if hs_RampedLimit st \<le> 0 then 1 else hs_RampedLimit st))) a st"
    and "0 < de_Limit (Admission a st now)"
proof -
  let ?d = "Evaluate (Grant a) (hs_LastHeartbeat st) now (state_pressure st) (hs_RampedLimit st)"
  show e: "de_Eligible ?d" and "0 < de_Limit (Admission a st now)"
    using assms by (auto simp: Admission_def Let_def no_decision_def split: if_splits)
  show "de_Limit (Admission a st now) =
           clampToCeiling (AdmissionLimit (state_pressure st)
             (min (al_MaxBrowserWorkloads a) (if hs_RampedLimit st \<le> 0 then 1 else hs_RampedLimit st))) a st"
    using assms Evaluate_limit [OF e]
    by (auto simp: Admission_def Let_def no_decision_def Grant_def split: if_splits)
qed

lemma Admission_refused: "\<not> de_Eligible (Admission a st now) \<Longrightarrow> de_Limit (Admission a st now) = 0"
  by (auto simp: Admission_def Evaluate_def Let_def no_decision_def split: if_splits)

definition wit_state :: helper_state where
  "wit_state = \<lparr>hs_NodeID = ''n1'', hs_LastHeartbeat = 100, hs_PressureReduced = True,
     hs_PressureCalmSince = 0, hs_RampedLimit = 4, hs_HostCores = 4, hs_HostMemoryBytes = 8000000\<rparr>"

definition wit_alloc :: allocation where
  "wit_alloc = \<lparr>al_NodeID = ''n1'', al_Region = ''eu'', al_Endpoint = ''h:1'',
     al_URISAN = ''spiffe://ubag/node/n1'', al_SPKI = [], al_CPUMillis = 1500, al_MemoryBytes = 2500000,
     al_ReservationState = ''known'', al_State = ''active'', al_MaxBrowserWorkloads = 4,
     al_VoiceCapable = False, al_UDPPortMin = 0, al_UDPPortMax = 0, al_NATIP = [],
     al_ValidUntil = 900, al_Generation = 3, al_AcceptedAt = 0\<rparr>"

text \<open>C34. Admission fails closed and is bounded. A helper is admitted only under an active
  grant with known reservations that has not expired, with a heartbeat younger than 45 seconds
  and a known host size; the limit is then at least one, at most the grant's, at most what the
  helper has earned (one for a new helper), at most half of that (but one) under pressure, and,
  unless it is one, its share of the granted CPU and memory stays within the ceiling table
  (750 millis a core, five eighths of the memory). A helper that is not admitted has limit 0.\<close>

theorem admission_is_bounded:
  assumes "Admission a st now = d" and "earned = max 1 (hs_RampedLimit st)"
  shows "(de_Eligible d \<longrightarrow>
            al_State a = StateActive \<and> al_ReservationState a = ReservationKnown \<and>
            al_ValidUntil a \<noteq> 0 \<and> now < al_ValidUntil a \<and>
            hs_LastHeartbeat st \<noteq> 0 \<and> now - hs_LastHeartbeat st < 45 * second \<and>
            0 < hs_HostCores st \<and> 0 < hs_HostMemoryBytes st \<and>
            1 \<le> de_Limit d \<and> de_Limit d \<le> al_MaxBrowserWorkloads a \<and> de_Limit d \<le> earned \<and>
            (hs_PressureReduced st \<longrightarrow> de_Limit d \<le> max 1 (min (al_MaxBrowserWorkloads a) earned div 2)) \<and>
            (de_Limit d = 1 \<or>
              de_Limit d * al_CPUMillis a \<le> earned * (hs_HostCores st * 750) \<and>
              de_Limit d * al_MemoryBytes a \<le> earned * (hs_HostMemoryBytes st div 8 * 5))) \<and>
         (\<not> de_Eligible d \<longrightarrow> de_Limit d = 0)"
proof (intro conjI impI)
  assume "\<not> de_Eligible d"
  then show "de_Limit d = 0" using Admission_refused assms(1) by blast
next
  let ?l = "AdmissionLimit (state_pressure st) (min (al_MaxBrowserWorkloads a) earned)"
  assume e: "de_Eligible d"
  have earned: "earned = (if hs_RampedLimit st \<le> 0 then 1 else hs_RampedLimit st)" using assms(2) by auto
  note A = Admission_eligible [of a st now, unfolded assms(1), OF e, folded earned]
  have ev: "al_State a = ''active'' \<and> al_ReservationState a = ''known'' \<and> al_ValidUntil a \<noteq> 0 \<and>
     now < al_ValidUntil a \<and> hs_LastHeartbeat st \<noteq> 0 \<and> now - hs_LastHeartbeat st < 45 * second"
    using A(1) by (simp add: Evaluate_eligible Grant_def)
  then show "al_State a = StateActive" "al_ReservationState a = ReservationKnown" "al_ValidUntil a \<noteq> 0"
    "now < al_ValidUntil a" "hs_LastHeartbeat st \<noteq> 0" "now - hs_LastHeartbeat st < 45 * second"
    by (simp_all add: StateActive_def ReservationKnown_def)
  note C = clamp_bounds [OF A(2) [symmetric] A(3)]
  show "0 < hs_HostCores st" "0 < hs_HostMemoryBytes st" "1 \<le> de_Limit d" using C A(3) by auto
  have le: "?l \<le> min (al_MaxBrowserWorkloads a) earned" by (rule AdmissionLimit_le)
  then show "de_Limit d \<le> al_MaxBrowserWorkloads a" "de_Limit d \<le> earned" using C(1) by auto
  show "de_Limit d \<le> max 1 (min (al_MaxBrowserWorkloads a) earned div 2)" if "hs_PressureReduced st"
    using C(1) that AdmissionLimit_half [of "state_pressure st" "min (al_MaxBrowserWorkloads a) earned"]
    by (simp add: state_pressure_def)
  have "?l * c \<le> earned * c" if "0 \<le> c" for c :: int
    using le that by (intro mult_right_mono) auto
  then have "?l * (hs_HostCores st * 750) \<le> earned * (hs_HostCores st * 750)"
    "?l * (hs_HostMemoryBytes st div 8 * 5) \<le> earned * (hs_HostMemoryBytes st div 8 * 5)"
    using C(2,3) by auto
  then show "de_Limit d = 1 \<or> de_Limit d * al_CPUMillis a \<le> earned * (hs_HostCores st * 750) \<and>
      de_Limit d * al_MemoryBytes a \<le> earned * (hs_HostMemoryBytes st div 8 * 5)"
    using C(6,7) by linarith
qed

lemma admission_is_bounded_witness:
  "de_Eligible (Admission wit_alloc wit_state 200) \<and> de_Limit (Admission wit_alloc wit_state 200) = 2 \<and>
   de_Limit (Admission wit_alloc wit_state 200) \<le> max 1 (min 4 (4 :: int) div 2)"
proof -
  have "de_Eligible (Admission wit_alloc wit_state 200)" "de_Limit (Admission wit_alloc wit_state 200) = 2"
    by code_simp+
  then show ?thesis
    using admission_is_bounded [OF refl refl, of wit_alloc wit_state 200]
    by (simp add: wit_alloc_def wit_state_def)
qed

subsection \<open>Pressure and ramp over a run of samples\<close>

type_synonym timed_sample = "pressure_sample \<times> gotime"

definition calm :: "pressure_sample \<Rightarrow> bool" where
  "calm x = (ps_CPUPercent x < recoverCPULow \<and> recoverMemHigh < ps_MemAvailPercent x)"

definition pressure_run :: "timed_sample list \<Rightarrow> pressure \<Rightarrow> pressure" where
  "pressure_run xs p = fold (\<lambda>(x, t) p. pressure_Step p x t) xs p"

lemma pressure_run_snoc [simp]:
  "pressure_run (xs @ [(x, t)]) p = pressure_Step (pressure_run xs p) x t"
  by (simp add: pressure_run_def)

text \<open>An open recovery window began at a calm sample, and every sample since then was calm.\<close>

definition calm_since :: "timed_sample list \<Rightarrow> gotime \<Rightarrow> bool" where
  "calm_since xs c = (\<exists>ys zs. xs = ys @ zs \<and> zs \<noteq> [] \<and> list_all (\<lambda>z. calm (fst z)) zs \<and> snd (hd zs) = c)"

lemma calm_since_single: "calm x \<Longrightarrow> calm_since (xs @ [(x, t)]) t"
  unfolding calm_since_def by (intro exI [of _ xs] exI [of _ "[(x, t)]"]) simp

lemma calm_since_snoc: "calm_since xs c \<Longrightarrow> calm x \<Longrightarrow> calm_since (xs @ [(x, t)]) c"
proof -
  assume "calm_since xs c" and x: "calm x"
  then obtain ys zs where "xs = ys @ zs" "zs \<noteq> []" "list_all (\<lambda>z. calm (fst z)) zs" "snd (hd zs) = c"
    unfolding calm_since_def by blast
  with x have "xs @ [(x, t)] = ys @ (zs @ [(x, t)])" "zs @ [(x, t)] \<noteq> []"
    "list_all (\<lambda>z. calm (fst z)) (zs @ [(x, t)])" "snd (hd (zs @ [(x, t)])) = c" by auto
  then show ?thesis unfolding calm_since_def by blast
qed

lemma pressure_window:
  "pr_calmSince (pressure_run xs normal) = 0 \<or> calm_since xs (pr_calmSince (pressure_run xs normal))"
proof (induction xs rule: rev_induct)
  case Nil
  show ?case by (simp add: pressure_run_def normal_def)
next
  case (snoc xt xs)
  obtain x t where [simp]: "xt = (x, t)" by (cases xt)
  let ?p = "pressure_run xs normal"
  show ?case
  proof (cases "pr_calmSince (pressure_Step ?p x t) = 0")
    case False
    then have "calm x" and "pr_calmSince (pressure_Step ?p x t) = (if pr_calmSince ?p = 0 then t else pr_calmSince ?p)"
      by (auto simp: pressure_Step_def reduced_def normal_def calm_def Let_def split: if_splits)
    with snoc show ?thesis by (auto intro: calm_since_single calm_since_snoc)
  qed simp
qed

text \<open>Pressure has hysteresis: along any run of samples, a helper leaves the reduced state
  only at a calm sample (CPU below 60 percent, more than 25 percent of memory available) that
  closes a window of calm samples, without one exception, at least two minutes long. It enters
  it at once: after a sample above 80 percent CPU or below 20 percent memory it is reduced.\<close>

theorem pressure_needs_calm:
  "(pr_Reduced (pressure_run xs normal) \<and> \<not> pr_Reduced (pressure_run (xs @ [(x, now)]) normal) \<longrightarrow>
      calm x \<and> (\<exists>since. calm_since (xs @ [(x, now)]) since \<and> 2 * minute \<le> now - since)) \<and>
   (80 < ps_CPUPercent x \<or> ps_MemAvailPercent x < 20 \<longrightarrow>
      pr_Reduced (pressure_run (xs @ [(x, now)]) normal))"
proof (intro conjI impI)
  let ?p = "pressure_run xs normal"
  let ?since = "if pr_calmSince ?p = 0 then now else pr_calmSince ?p"
  assume "pr_Reduced ?p \<and> \<not> pr_Reduced (pressure_run (xs @ [(x, now)]) normal)"
  then have c: "calm x" and h: "recoverHold \<le> now - ?since"
    by (auto simp: pressure_Step_def reduced_def normal_def calm_def Let_def split: if_splits)
  then show "calm x" by simp
  have "calm_since (xs @ [(x, now)]) ?since"
    using pressure_window [of xs] c by (auto intro: calm_since_single calm_since_snoc)
  with h show "\<exists>since. calm_since (xs @ [(x, now)]) since \<and> 2 * minute \<le> now - since"
    by (intro exI [of _ ?since]) (simp add: recoverHold_def)
next
  assume "80 < ps_CPUPercent x \<or> ps_MemAvailPercent x < 20"
  then show "pr_Reduced (pressure_run (xs @ [(x, now)]) normal)"
    by (simp add: pressure_Step_def pressureCPUHigh_def pressureMemLow_def reduced_def)
qed

lemma pressure_needs_calm_witness:
  "(let hot = \<lparr>ps_CPUPercent = 90, ps_MemAvailPercent = 50\<rparr>;
        cool = \<lparr>ps_CPUPercent = 10, ps_MemAvailPercent = 50\<rparr>;
        xs = [(hot, 5), (cool, 10)]
    in pr_Reduced (pressure_run xs normal) \<and>
       \<not> pr_Reduced (pressure_run (xs @ [(cool, 10 + 120 * second)]) normal) \<and> calm cool)"
proof -
  let ?hot = "\<lparr>ps_CPUPercent = 90, ps_MemAvailPercent = 50\<rparr> :: pressure_sample"
  let ?cool = "\<lparr>ps_CPUPercent = 10, ps_MemAvailPercent = 50\<rparr> :: pressure_sample"
  let ?xs = "[(?hot, 5), (?cool, 10)] :: timed_sample list"
  have a: "pr_Reduced (pressure_run ?xs normal)"
    "\<not> pr_Reduced (pressure_run (?xs @ [(?cool, 10 + 120 * second)]) normal)"
    by (simp_all add: pressure_run_def pressure_Step_def normal_def reduced_def pressureCPUHigh_def
        pressureMemLow_def recoverCPULow_def recoverMemHigh_def recoverHold_def)
  show ?thesis
    unfolding Let_def using a pressure_needs_calm [of ?xs ?cool "10 + 120 * second"] by simp
qed

text \<open>
  The ramp: one more workload needs eight samples in a row, so a run of \<open>n\<close> samples raises the
  earned limit by at most \<open>n div 8\<close>, and a bound above one is never exceeded.
\<close>

definition ramp_run :: "(pressure_sample \<times> pressure \<times> int \<times> int) list \<Rightarrow> ramp \<Rightarrow> ramp" where
  "ramp_run xs r = fold (\<lambda>(x, p, active, maxN) r. ramp_Step r x p active maxN) xs r"

lemma ramp_step_bounds:
  assumes "1 \<le> ra_Limit r" "0 \<le> ra_Good r" "ra_Good r < 8"
  shows "1 \<le> ra_Limit (ramp_Step r x p active maxN)"
    "0 \<le> ra_Good (ramp_Step r x p active maxN)" "ra_Good (ramp_Step r x p active maxN) < 8"
    "8 * ra_Limit (ramp_Step r x p active maxN) + ra_Good (ramp_Step r x p active maxN) \<le>
     8 * ra_Limit r + ra_Good r + 1"
    "1 \<le> maxN \<Longrightarrow> ra_Limit (ramp_Step r x p active maxN) \<le> maxN"
  using assms by (auto simp: ramp_Step_def Let_def RampSamples_def NewHelperWorkloads_def)

lemma ramp_is_earned:
  assumes "1 \<le> ra_Limit r" "0 \<le> ra_Good r" "ra_Good r < 8"
  shows "1 \<le> ra_Limit (ramp_run xs r) \<and> 0 \<le> ra_Good (ramp_run xs r) \<and> ra_Good (ramp_run xs r) < 8 \<and>
    8 * ra_Limit (ramp_run xs r) + ra_Good (ramp_run xs r) \<le> 8 * ra_Limit r + ra_Good r + int (length xs)"
proof (induction xs rule: rev_induct)
  case Nil
  then show ?case using assms by (simp add: ramp_run_def)
next
  case (snoc y xs)
  obtain x p active maxN where [simp]: "y = (x, p, active, maxN)" by (cases y)
  have "ramp_run (xs @ [y]) r = ramp_Step (ramp_run xs r) x p active maxN" by (simp add: ramp_run_def)
  then show ?case using snoc ramp_step_bounds [where r = "ramp_run xs r" and x = x and p = p and active = active and maxN = maxN] by auto
qed

subsection \<open>Draining\<close>

text \<open>
  Work in flight finishes first: a cancel is advised exactly when the node drains, the grace
  (five minutes when none is set, an hour at most) has passed since a known start, and
  something other than voice calls is still running; voice calls are only held.
\<close>

lemma drain_finishes_first:
  "dp_CancelNonVoice (PlanDrain st u start now grace) \<longleftrightarrow>
     (st = StateDraining \<or> st = StateRevoked) \<and> start \<noteq> 0 \<and>
     min (if grace \<le> 0 then 5 * minute else grace) hour \<le> now - start \<and>
     max (us_Voice u) 0 < us_Attempts u"
  by (auto simp: PlanDrain_def zero_plan_def Let_def DefaultDrainGrace_def MaxDrainGrace_def)

lemma shrink_evicts_nothing:
  "ShrinkCap target u = (capacity, free) \<Longrightarrow>
     us_Attempts u \<le> capacity \<and> (0 < free \<longleftrightarrow> us_Attempts u < max target 0) \<and> 0 \<le> free"
  by (auto simp: ShrinkCap_def)

end
