(* ===== verification/PlacerProps.thy ===== *)
theory PlacerProps
  imports Placer NodesProps NodePolicyProps
begin

text \<open>
  What the placer guarantees. Its maps are a function of the reservations that are still live
  (\<open>live\<close>): a lane carries at most one, and a node as many as its counter says. A slot is only
  handed out on a node that the store, the poller and the heartbeats all vouch for.
\<close>

subsection \<open>The maps follow the live reservations\<close>

definition live :: "placer \<Rightarrow> handle list" where
  "live p = filter (\<lambda>h. \<not> ha_Released h) (pl_handles p)"

definition on_node :: "string \<Rightarrow> placer \<Rightarrow> nat" where
  "on_node n p = length (filter (\<lambda>h. ha_Node h = n) (live p))"

definition placer_inv :: "placer \<Rightarrow> bool" where
  "placer_inv p =
     (distinct (map ha_Lane (live p)) \<and>
      pl_lanes p = map_of (map (\<lambda>h. (ha_Lane h, ha_Node h)) (live p)) \<and>
      pl_used p = (\<lambda>n. if on_node n p = 0 then None else Some (int (on_node n p))))"

lemma used_live: "placer_inv p \<Longrightarrow> used_of p n = int (on_node n p)"
  by (simp add: placer_inv_def used_of_def)

lemma lane_live: "placer_inv p \<Longrightarrow> (pl_lanes p l = None) = (l \<notin> ha_Lane ` set (live p))"
  by (auto simp: placer_inv_def map_of_eq_None_iff image_iff)

lemma live_view [simp]:
  "live (p\<lparr>pl_view := v, pl_viewT := t\<rparr>) = live p"
  "on_node n (p\<lparr>pl_view := v, pl_viewT := t\<rparr>) = on_node n p"
  by (simp_all add: on_node_def live_def)

lemma placer_inv_view: "placer_inv p \<Longrightarrow> placer_inv (p\<lparr>pl_view := v, pl_viewT := t\<rparr>)"
  by (simp add: placer_inv_def cong: if_cong)

lemma Nodes_placer: "snd (Nodes allocs state now p) = p \<or>
    (\<exists>v t. snd (Nodes allocs state now p) = p\<lparr>pl_view := v, pl_viewT := t\<rparr>)"
  by (auto simp: Nodes_def Let_def split: sum.splits option.splits)

lemma Nodes_inv: "placer_inv p \<Longrightarrow> placer_inv (snd (Nodes allocs state now p))"
  using Nodes_placer [of allocs state now p] placer_inv_view by auto

lemma map_of_snoc: "k \<notin> fst ` set xs \<Longrightarrow> map_of (xs @ [(k, v)]) = (map_of xs)(k \<mapsto> v)"
  by (simp add: map_add_comm dom_map_of_conv_image_fst)

lemma map_of_remove:
  "distinct (map fst (A @ (k, v) # B)) \<Longrightarrow> map_of (A @ B) = (map_of (A @ (k, v) # B))(k := None)"
proof (induction A)
  case Nil
  then have "map_of B k = None" by (simp add: map_of_eq_None_iff)
  then show ?case by (auto simp: fun_eq_iff)
next
  case (Cons a A)
  then show ?case by (cases a) (auto simp del: map_of_append)
qed

lemma reserve_granted:
  "fst (reserve_locked n lane p) = Inr i \<Longrightarrow>
     pl_lanes p lane = None \<and> used_of p (nd_ID n) < nd_Limit n \<and> i = length (pl_handles p) \<and>
     live (snd (reserve_locked n lane p)) = live p @ [\<lparr>ha_Node = nd_ID n, ha_Lane = lane, ha_Released = False\<rparr>]"
  by (auto simp: reserve_locked_def live_def split: if_splits)

lemma reserve_inv:
  assumes inv: "placer_inv p"
  shows "placer_inv (snd (reserve_locked n lane p))"
proof (cases "fst (reserve_locked n lane p)")
  case (Inl e)
  then show ?thesis using inv by (auto simp: reserve_locked_def split: if_splits)
next
  case (Inr i)
  let ?p = "snd (reserve_locked n lane p)"
  note g = reserve_granted [OF Inr]
  have free: "lane \<notin> ha_Lane ` set (live p)" using lane_live [OF inv] g by blast
  have cnt: "on_node k ?p = on_node k p + (if k = nd_ID n then 1 else 0)" for k
    using g by (simp add: on_node_def)
  have "pl_lanes ?p = (pl_lanes p)(lane \<mapsto> nd_ID n)"
    and "pl_used ?p = (pl_used p)(nd_ID n \<mapsto> used_of p (nd_ID n) + 1)"
    using Inr by (auto simp: reserve_locked_def split: if_splits)
  then show ?thesis
    using inv g free used_live [OF inv] cnt
    by (auto simp: placer_inv_def fun_eq_iff map_of_snoc image_image simp del: map_of_append)
qed

lemma live_release:
  assumes "h < length (pl_handles p)" and "\<not> ha_Released (pl_handles p ! h)"
  obtains A B where "live p = A @ pl_handles p ! h # B" and "live (Release h p) = A @ B"
proof -
  let ?r = "pl_handles p ! h"
  have "pl_handles p = take h (pl_handles p) @ ?r # drop (Suc h) (pl_handles p)"
    by (rule id_take_nth_drop [OF assms(1)])
  then have "live p = filter (\<lambda>h. \<not> ha_Released h) (take h (pl_handles p)) @ ?r #
      filter (\<lambda>h. \<not> ha_Released h) (drop (Suc h) (pl_handles p))"
    using assms(2) unfolding live_def
    by (metis (mono_tags, lifting) filter.simps(2) filter_append)
  moreover have "live (Release h p) = filter (\<lambda>h. \<not> ha_Released h) (take h (pl_handles p)) @
      filter (\<lambda>h. \<not> ha_Released h) (drop (Suc h) (pl_handles p))"
    using assms by (simp add: live_def Release_def Let_def upd_conv_take_nth_drop)
  ultimately show ?thesis using that by blast
qed

lemma Release_inv:
  assumes inv: "placer_inv p"
  shows "placer_inv (Release h p)"
proof (cases "h < length (pl_handles p) \<and> \<not> ha_Released (pl_handles p ! h)")
  case False
  then have "Release h p = p" by (auto simp: Release_def Let_def)
  then show ?thesis using inv by simp
next
  case True
  let ?r = "pl_handles p ! h"
  from True obtain A B where l: "live p = A @ ?r # B" and l': "live (Release h p) = A @ B"
    using live_release by blast
  have cnt: "on_node k p = on_node k (Release h p) + (if k = ha_Node ?r then 1 else 0)" for k
    by (simp add: on_node_def l l')
  have "pl_lanes (Release h p) = (pl_lanes p)(ha_Lane ?r := None)"
    using True by (simp add: Release_def Let_def)
  moreover have "pl_used (Release h p) =
      (let k = used_of p (ha_Node ?r) - 1 in
       if k \<le> 0 then (pl_used p)(ha_Node ?r := None) else (pl_used p)(ha_Node ?r \<mapsto> k))"
    using True by (simp add: Release_def Let_def)
  moreover have "map_of (map (\<lambda>h. (ha_Lane h, ha_Node h)) (A @ B)) =
      (map_of (map (\<lambda>h. (ha_Lane h, ha_Node h)) (A @ ?r # B)))(ha_Lane ?r := None)"
    using inv l map_of_remove [of "map (\<lambda>h. (ha_Lane h, ha_Node h)) A" "ha_Lane ?r" "ha_Node ?r"
        "map (\<lambda>h. (ha_Lane h, ha_Node h)) B"]
    by (simp add: placer_inv_def comp_def del: map_of_append)
  ultimately show ?thesis
    using inv cnt used_live [OF inv] l l'
    by (auto simp: placer_inv_def fun_eq_iff Let_def simp del: map_of_append)
qed

subsection \<open>Every interleaving\<close>

datatype placer_op =
    OpNodes "gotime \<Rightarrow> node_error + allocation list" "string \<Rightarrow> node_error + helper_state" gotime
  | OpReserve node string
  | OpRelease nat

fun placer_step :: "placer_op \<Rightarrow> placer \<Rightarrow> placer" where
  "placer_step (OpNodes allocs state now) p = snd (Nodes allocs state now p)"
| "placer_step (OpReserve n lane) p = snd (reserve_locked n lane p)"
| "placer_step (OpRelease h) p = Release h p"

interpretation placer_machine: machine placer_step placer_inv
proof (unfold_locales, goal_cases)
  case (1 p op)
  then show ?case by (cases op) (simp_all add: Nodes_inv reserve_inv Release_inv)
qed

lemma placer_inv_new: "placer_inv (NewPlacer ttl)"
  by (simp add: placer_inv_def NewPlacer_def live_def on_node_def fun_eq_iff)

lemma Release_idem: "Release h (Release h p) = Release h p"
  by (auto simp: Release_def Let_def)

lemma reserve_grants_iff:
  assumes "placer_inv p"
  shows "(\<exists>i. fst (reserve_locked n lane p) = Inr i) \<longleftrightarrow>
     lane \<notin> ha_Lane ` set (live p) \<and> int (on_node (nd_ID n) p) < nd_Limit n"
  using lane_live [OF assms, of lane] used_live [OF assms]
  by (auto simp: reserve_locked_def)

definition wit_node :: node where
  "wit_node = \<lparr>nd_ID = ''n1'', nd_Region = ''eu'', nd_Endpoint = ''h:1'', nd_Limit = 2, nd_VoiceCapable = False\<rparr>"

text \<open>Slots and identity lanes are exact under every interleaving of view refreshes,
  reservations and releases by any number of callers: no identity lane ever carries two live
  reservations, the slots counted on a node are the reservations live on it, a reservation is
  granted exactly when its lane is free and the node runs fewer than its limit (so it never
  passes the limit it was admitted under), and releasing twice is releasing once.\<close>

theorem placer_slots_are_exact:
  assumes "p = fold placer_step ops (NewPlacer ttl)"
  shows "distinct (map ha_Lane (live p)) \<and>
    Used p k = int (length (filter (\<lambda>h. ha_Node h = k) (live p))) \<and>
    ((\<exists>i. fst (reserve_locked n lane p) = Inr i) =
       (lane \<notin> ha_Lane ` set (live p) \<and> Used p (nd_ID n) < nd_Limit n)) \<and>
    (\<forall>i. fst (reserve_locked n lane p) = Inr i \<longrightarrow>
       Used (snd (reserve_locked n lane p)) (nd_ID n) \<le> nd_Limit n) \<and>
    Release h (Release h p) = Release h p"
proof -
  have inv: "placer_inv p" using placer_machine.run_inv [OF placer_inv_new] assms by simp
  have "Used (snd (reserve_locked n lane p)) (nd_ID n) \<le> nd_Limit n"
    if "fst (reserve_locked n lane p) = Inr i" for i
    using that by (auto simp: reserve_locked_def Used_def used_of_def split: if_splits option.splits)
  then show ?thesis
    using inv used_live [OF inv] reserve_grants_iff [OF inv, of n lane]
    by (auto simp: Used_def on_node_def placer_inv_def Release_idem)
qed

lemma placer_slots_are_exact_witness:
  "(let p = fold placer_step [OpReserve wit_node ''a'', OpReserve wit_node ''a'', OpReserve wit_node ''b''] (NewPlacer 0)
    in Used p ''n1'' = 2 \<and> map ha_Lane (live p) = [''a'', ''b''] \<and>
       fst (reserve_locked wit_node ''c'' p) = Inl ErrNoCapacity)"
proof -
  let ?ops = "[OpReserve wit_node ''a'', OpReserve wit_node ''a'', OpReserve wit_node ''b'']"
  let ?p = "fold placer_step ?ops (NewPlacer 0)"
  have "map ha_Lane (live ?p) = [''a'', ''b'']" "fst (reserve_locked wit_node ''c'' ?p) = Inl ErrNoCapacity"
    "length (filter (\<lambda>h. ha_Node h = ''n1'') (live ?p)) = 2"
    by code_simp+
  then show ?thesis
    unfolding Let_def using placer_slots_are_exact [OF refl, where ops = ?ops and ttl = 0 and k = "''n1''"] by simp
qed

subsection \<open>What a placement rests on\<close>

lemma view_loop_node:
  "view_loop state now as = Inr ns \<Longrightarrow> n \<in> set ns \<Longrightarrow>
   \<exists>a st. a \<in> set as \<and> (state (al_NodeID a) = Inr st \<or>
             (state (al_NodeID a) = Inl NodesNotFound \<and> st = no_state (al_NodeID a))) \<and>
      nd_ID n = al_NodeID a \<and> nd_Limit n = de_Limit (Admission a st now) \<and> de_Eligible (Admission a st now)"
proof (induction as arbitrary: ns)
  case Nil
  then show ?case by simp
next
  case (Cons a as)
  then show ?case
    by (fastforce simp: Let_def split: sum.splits node_error.splits if_splits)
qed

lemma Current_from_store:
  assumes "node_inv s" and "a \<in> set (Current po s now)" and "al_State a = StateActive"
  shows "map_of (ns_allocations s) (al_NodeID a) = Some a \<and> al_NodeID a \<notin> set (po_absent po) \<and> \<not> stale po a now"
proof -
  from assms(2,3) have a: "a \<in> snd ` set (ns_allocations s)"
    "al_NodeID a \<notin> set (po_absent po)" "\<not> stale po a now"
    by (auto simp: Current_def ListAllocations_def StateActive_def StateDraining_def split: if_splits)
  then obtain k where k: "(k, a) \<in> set (ns_allocations s)" by auto
  moreover have "distinct (map fst (ns_allocations s))"
    using assms(1) by (simp add: node_inv_def tables_ok_def)
  ultimately have "map_of (ns_allocations s) k = Some a" by simp
  moreover from this have "al_NodeID a = k"
    using assms(1) by (auto simp: node_inv_def tables_ok_def alloc_row_def)
  ultimately show ?thesis using a by simp
qed

text \<open>The view is read anew when there is none or the last one is too old.\<close>

definition view_expired :: "placer \<Rightarrow> gotime \<Rightarrow> bool" where
  "view_expired p now = (pl_view p = None \<or> pl_ViewTTL p \<le> now - pl_viewT p \<or> now < pl_viewT p)"

lemma Nodes_fresh:
  assumes "Nodes (\<lambda>t. Inr (al t)) state now p = (Inr ns, q)" and "view_expired p now"
  shows "\<exists>v. view_loop state now (al now) = Inr v \<and> set ns = set v"
  using assms
  by (auto simp: Nodes_def Let_def view_expired_def split: sum.splits option.splits if_splits)

lemma Reserve_grant:
  assumes "Reserve al state now nodeID lane p = (Inr i, p')"
  obtains ns q n where "Nodes al state now p = (Inr ns, q)" "n \<in> set ns" "nd_ID n = nodeID"
    "reserve_locked n lane q = (Inr i, p')"
  using assms
  by (auto simp: Reserve_def find_Some_iff split: if_splits sum.splits prod.splits option.splits)
    (metis nth_mem)

lemma Admission_grant:
  assumes "de_Eligible (Admission a st now)"
  shows "al_State a = StateActive" "al_ReservationState a = ReservationKnown" "now < al_ValidUntil a"
    "hs_LastHeartbeat st \<noteq> 0" "now - hs_LastHeartbeat st < 45 * second"
    "de_Limit (Admission a st now) \<le> al_MaxBrowserWorkloads a"
proof -
  note A = Admission_eligible [OF assms]
  from A(1) show "al_State a = StateActive" "al_ReservationState a = ReservationKnown" "now < al_ValidUntil a"
    "hs_LastHeartbeat st \<noteq> 0" "now - hs_LastHeartbeat st < 45 * second"
    by (auto simp: Evaluate_eligible Grant_def StateActive_def ReservationKnown_def)
  show "de_Limit (Admission a st now) \<le> al_MaxBrowserWorkloads a"
    using clamp_bounds(1) [OF A(2) [symmetric] A(3)] AdmissionLimit_le order_trans by fastforce
qed

text \<open>C32. A placement rests on a live grant. Let the primary run the placer over the node
  store and the poller, with the view read anew. If it reserves a slot on a node, then the
  store holds for that node an accepted, active, unexpired grant with known reservations,
  the manager's last list named the node and is not older than the grace (before the first
  poll of this process, the grant was accepted within the grace), the last heartbeat is less
  than 45 seconds old, and the node now carries at most the workloads the grant allows. So a
  silent manager, a removed node, an expired or draining grant and a silent helper each stop
  new placements by themselves.\<close>

theorem placement_needs_live_grant:
  assumes "s = fold node_step ops new_node_store" and "list_all node_op_ok ops"
    and "Reserve (\<lambda>t. Inr (Current po s t)) (\<lambda>k. GetState k s) now nodeID lane p = (Inr i, p')"
    and "view_expired p now"
  shows "\<exists>a h. GetAllocation nodeID s = Inr a \<and> GetState nodeID s = Inr h \<and>
    al_State a = StateActive \<and> al_ReservationState a = ReservationKnown \<and> now < al_ValidUntil a \<and>
    nodeID \<notin> set (po_absent po) \<and>
    now - (if po_lastSuccess po \<noteq> 0 then po_lastSuccess po else al_AcceptedAt a) \<le> po_StaleGrace po \<and>
    now - hs_LastHeartbeat h < 45 * second \<and> Used p' nodeID \<le> al_MaxBrowserWorkloads a"
proof -
  have inv: "node_inv s" using node_machine.guarded_run [OF node_inv_new assms(2)] assms(1) by simp
  obtain ns q n where nodes: "Nodes (\<lambda>t. Inr (Current po s t)) (\<lambda>k. GetState k s) now p = (Inr ns, q)"
    and n: "n \<in> set ns" "nd_ID n = nodeID" and res: "reserve_locked n lane q = (Inr i, p')"
    using Reserve_grant [OF assms(3)] by blast
  obtain v where v: "view_loop (\<lambda>k. GetState k s) now (Current po s now) = Inr v" "n \<in> set v"
    using Nodes_fresh [OF nodes assms(4)] n(1) by blast
  obtain a st where a: "a \<in> set (Current po s now)" "al_NodeID a = nodeID"
      "nd_Limit n = de_Limit (Admission a st now)" "de_Eligible (Admission a st now)"
    and st: "GetState nodeID s = Inr st \<or> (GetState nodeID s = Inl NodesNotFound \<and> st = no_state nodeID)"
    using view_loop_node [OF v] n(2) by auto
  note G = Admission_grant [OF a(4)]
  have "GetState nodeID s = Inr st" using st G(4) by (auto simp: no_state_def)
  moreover have "GetAllocation nodeID s = Inr a" "nodeID \<notin> set (po_absent po)" "\<not> stale po a now"
    using Current_from_store [OF inv a(1) G(1)] a(2) by (simp_all add: GetAllocation_def)
  moreover have "Used p' nodeID \<le> nd_Limit n"
    using res n(2) by (auto simp: reserve_locked_def Used_def used_of_def split: if_splits option.splits)
  ultimately show ?thesis using G a(3) by (auto simp: stale_def Let_def not_less)
qed

definition wit_helper :: helper_state where
  "wit_helper = wit_state\<lparr>hs_LastHeartbeat := 150\<rparr>"

definition wit_poller :: poller where
  "wit_poller = \<lparr>po_StaleGrace = 600, po_etag = [], po_lastSuccess = 0, po_absent = []\<rparr>"

definition wit_fleet :: node_store where
  "wit_fleet = fold node_step [OpApply wit_alloc 100, OpPutState wit_helper] new_node_store"

lemma wit_fleet_eq:
  "wit_fleet = \<lparr>ns_allocations = [(''n1'', wit_alloc\<lparr>al_AcceptedAt := 100\<rparr>)],
     ns_states = [(''n1'', wit_helper)], ns_registry = []\<rparr>"
  unfolding wit_fleet_def by code_simp

lemma placement_needs_live_grant_witness:
  "fst (Reserve (\<lambda>t. Inr (Current wit_poller wit_fleet t)) (\<lambda>k. GetState k wit_fleet) 200 ''n1'' ''lane'' (NewPlacer 0))
     = Inr 0 \<and>
   (\<exists>a. GetAllocation ''n1'' wit_fleet = Inr a \<and> al_State a = StateActive \<and> 200 < al_ValidUntil a)"
proof -
  let ?r = "Reserve (\<lambda>t. Inr (Current wit_poller wit_fleet t)) (\<lambda>k. GetState k wit_fleet) 200 ''n1'' ''lane'' (NewPlacer 0)"
  have r: "fst ?r = Inr 0" unfolding wit_fleet_eq by code_simp
  then have "?r = (Inr 0, snd ?r)" by (simp add: prod_eq_iff)
  from placement_needs_live_grant [OF wit_fleet_def _ this] r show ?thesis
    by (auto simp: view_expired_def NewPlacer_def)
qed

end
