(* ===== verification/Reconcile.thy ===== *)
theory Reconcile
  imports Nodes AttemptLedger
begin

text \<open>
  What happens to a leased job whose attempt ledger is not empty (\<open>nodes/reconciler.go\<close>): the
  policy \<open>PlanReconcile\<close> and the \<open>Reconcile\<close> call that asks the ledger, the registry and,
  only when the answer depends on it, the helper. The registry and the inspector are
  arguments (\<open>None\<close> for a nil one); the two clock readings are arguments too.
\<close>

datatype reconcile_action = NoReconcileAction | ReconcileRun | ReconcileWait | ReconcileResume | ReconcileFailClosed

datatype reconcile_reason =
    NoReconcileReason
  | ReconcileNoAttempt
  | ReconcileAttemptEnded
  | ReconcileAttemptLapsed
  | ReconcileLeaseHeld
  | ReconcileHelperUnreachable
  | ReconcileHelperRunning
  | ReconcileHelperHolds
  | ReconcileHelperFinished
  | ReconcileHelperSubmitted
  | ReconcileNoRecord
  | ReconcileStale
  | ReconcileNodeRevoked
  | ReconcileFenced
  | ReconcileNotStopping

definition ReconcileOutcomes :: "(reconcile_action \<times> reconcile_reason) list" where
  "ReconcileOutcomes =
    [(ReconcileRun, ReconcileNoAttempt), (ReconcileRun, ReconcileAttemptEnded), (ReconcileRun, ReconcileAttemptLapsed),
     (ReconcileWait, ReconcileLeaseHeld), (ReconcileWait, ReconcileHelperUnreachable), (ReconcileWait, ReconcileHelperRunning),
     (ReconcileResume, ReconcileHelperHolds), (ReconcileResume, ReconcileHelperFinished), (ReconcileResume, ReconcileHelperSubmitted),
     (ReconcileFailClosed, ReconcileHelperUnreachable), (ReconcileFailClosed, ReconcileNoRecord),
     (ReconcileFailClosed, ReconcileStale), (ReconcileFailClosed, ReconcileNodeRevoked),
     (ReconcileFailClosed, ReconcileFenced), (ReconcileFailClosed, ReconcileNotStopping)]"

definition DefaultReconcileWindow :: dur where "DefaultReconcileWindow = 10 * minute"
definition MaxReconcileWindow :: dur where "MaxReconcileWindow = 24 * hour"
definition DefaultReconcileMargin :: dur where "DefaultReconcileMargin = 15 * second"
definition DefaultReconcilePoll :: dur where "DefaultReconcilePoll = 10 * second"

record reconcile_config =
  rc_Window :: dur
  rc_Margin :: dur
  rc_Poll :: dur

definition normalized :: "reconcile_config \<Rightarrow> reconcile_config" where
  "normalized c = \<lparr>
     rc_Window = min (if rc_Window c \<le> 0 then DefaultReconcileWindow else rc_Window c) MaxReconcileWindow,
     rc_Margin = (if rc_Margin c \<le> 0 then DefaultReconcileMargin else rc_Margin c),
     rc_Poll = (if rc_Poll c \<le> 0 then DefaultReconcilePoll else rc_Poll c)\<rparr>"

datatype helper_attempt_state = HelperAttemptUnknown | HelperAttemptRunning | HelperAttemptFinished

record helper_view =
  hv_State :: helper_attempt_state
  hv_Generation :: u64
  hv_Fingerprint :: string
  hv_Submitted :: bool
  hv_LastSequence :: u64
  hv_HasOutcome :: bool

definition Consistent :: "helper_view \<Rightarrow> attempt \<Rightarrow> bool" where
  "Consistent v att =
     (if hv_Generation v \<noteq> att_Generation att \<or> hv_Fingerprint v = [] \<or>
         hv_Fingerprint v \<noteq> att_InputFingerprint att then False
      else hv_State v \<noteq> HelperAttemptFinished \<or> (hv_HasOutcome v \<and> 0 < hv_LastSequence v))"

datatype inspect_error = InspectNodeRevoked | InspectFailed

record reconcile_input =
  ri_Now :: gotime
  ri_Attempts :: "attempt list"
  ri_Inspected :: bool
  ri_View :: "helper_view option"
  ri_InspectErr :: "inspect_error option"

record reconcile_plan =
  pn_Action :: reconcile_action
  pn_Reason :: reconcile_reason
  pn_RetryAfter :: dur
  pn_NeedInspect :: bool
  pn_Attempt :: "attempt option"
  pn_NextGeneration :: u64
  pn_Deadline :: gotime

definition clampRetry :: "dur \<Rightarrow> dur \<Rightarrow> dur" where
  "clampRetry d poll = min (max d second) poll"

definition PlanReconcile :: "reconcile_input \<Rightarrow> reconcile_config \<Rightarrow> reconcile_plan" where
  "PlanReconcile inp c =
     (let cfg = normalized c in
      if ri_Attempts inp = [] then
        \<lparr>pn_Action = ReconcileRun, pn_Reason = ReconcileNoAttempt, pn_RetryAfter = 0, pn_NeedInspect = False,
         pn_Attempt = None, pn_NextGeneration = 1, pn_Deadline = 0\<rparr>
      else
        let att = last (ri_Attempts inp);
            lapsedAt = att_LeaseExpiresAt att;
            p = (\<lambda>a r retry. \<lparr>pn_Action = a, pn_Reason = r, pn_RetryAfter = retry, pn_NeedInspect = False,
                   pn_Attempt = Some att, pn_NextGeneration = att_Generation att + 1,
                   pn_Deadline = lapsedAt + rc_Window cfg\<rparr>);
            settled = lapsedAt + rc_Margin cfg;
            now = ri_Now inp;
            revoked = (ri_InspectErr inp = Some InspectNodeRevoked)
        in
        if att_State att \<noteq> AttemptActive then
          (if Submitted att then p ReconcileFailClosed ReconcileFenced 0
           else p ReconcileRun ReconcileAttemptEnded 0)
        else if now < settled \<and> \<not> Submitted att then
          p ReconcileWait ReconcileLeaseHeld (clampRetry (settled - now + second) (rc_Poll cfg))
        else if \<not> ri_Inspected inp then
          (p NoReconcileAction NoReconcileReason 0)\<lparr>pn_NeedInspect := True\<rparr>
        else if revoked \<and> Submitted att then p ReconcileFailClosed ReconcileNodeRevoked 0
        else
          (case (ri_InspectErr inp, ri_View inp) of
             (None, Some v) \<Rightarrow>
               if hv_State v = HelperAttemptUnknown then
                 (if Submitted att then p ReconcileFailClosed ReconcileNoRecord 0
                  else p ReconcileRun ReconcileAttemptLapsed 0)
               else if \<not> Consistent v att then
                 (if Submitted att then p ReconcileFailClosed ReconcileStale 0
                  else p ReconcileRun ReconcileAttemptLapsed 0)
               else if Submitted att \<and> hv_State v = HelperAttemptFinished then
                 p ReconcileResume ReconcileHelperFinished 0
               else if Submitted att then p ReconcileResume ReconcileHelperHolds 0
               else if hv_Submitted v then p ReconcileResume ReconcileHelperSubmitted 0
               else if hv_State v = HelperAttemptRunning then
                 (if rc_Window cfg \<le> now - lapsedAt then p ReconcileFailClosed ReconcileNotStopping 0
                  else p ReconcileWait ReconcileHelperRunning (rc_Poll cfg))
               else p ReconcileRun ReconcileAttemptLapsed 0
           | _ \<Rightarrow>
               if Submitted att then
                 (if rc_Window cfg \<le> now - lapsedAt then p ReconcileFailClosed ReconcileHelperUnreachable 0
                  else p ReconcileWait ReconcileHelperUnreachable (rc_Poll cfg))
               else p ReconcileRun ReconcileAttemptLapsed 0))"

text \<open>\<open>Reconciler.revoked\<close>: a store error or a missing entry says nothing.\<close>

definition node_revoked :: "(string \<Rightarrow> node_error + registry_entry) option \<Rightarrow> string \<Rightarrow> bool" where
  "node_revoked registry nodeID =
     (case registry of
        None \<Rightarrow> False
      | Some get \<Rightarrow>
          if nodeID = [] then False
          else (case get nodeID of Inl _ \<Rightarrow> False | Inr e \<Rightarrow> Revoked e))"

text \<open>The second half of \<open>Reconcile\<close>: what asking the helper adds to the input.\<close>

definition ask_helper ::
  "(string \<Rightarrow> node_error + registry_entry) option
   \<Rightarrow> (string \<Rightarrow> string \<Rightarrow> string \<Rightarrow> inspect_error + helper_view) option
   \<Rightarrow> gotime \<Rightarrow> string \<Rightarrow> attempt \<Rightarrow> reconcile_input \<Rightarrow> reconcile_input" where
  "ask_helper registry inspector now jobID att inp =
     (let asked = inp\<lparr>ri_Inspected := True, ri_Now := now\<rparr> in
      if node_revoked registry (att_NodeID att) then asked\<lparr>ri_InspectErr := Some InspectNodeRevoked\<rparr>
      else (case inspector of
              None \<Rightarrow> asked\<lparr>ri_InspectErr := Some InspectFailed\<rparr>
            | Some ask \<Rightarrow>
                (case ask (att_NodeID att) jobID (att_AttemptID att) of
                   Inl e \<Rightarrow> asked\<lparr>ri_InspectErr := Some e\<rparr>
                 | Inr v \<Rightarrow> asked\<lparr>ri_View := Some v\<rparr>)))"

definition ReconcileJob ::
  "(string \<Rightarrow> node_error + registry_entry) option
   \<Rightarrow> (string \<Rightarrow> string \<Rightarrow> string \<Rightarrow> inspect_error + helper_view) option
   \<Rightarrow> reconcile_config \<Rightarrow> gotime \<Rightarrow> gotime \<Rightarrow> (string \<Rightarrow> unit + attempt list) option \<Rightarrow> string
   \<Rightarrow> unit + reconcile_plan" where
  "ReconcileJob registry inspector c now1 now2 ledger jobID =
     (case ledger of
        None \<Rightarrow> Inl ()
      | Some list \<Rightarrow>
          (case list jobID of
             Inl _ \<Rightarrow> Inl ()
           | Inr attempts \<Rightarrow>
               let inp = \<lparr>ri_Now = now1, ri_Attempts = attempts, ri_Inspected = False,
                          ri_View = None, ri_InspectErr = None\<rparr>;
                   plan = PlanReconcile inp c
               in if \<not> pn_NeedInspect plan then Inr plan
                  else Inr (PlanReconcile (ask_helper registry inspector now2 jobID (last attempts) inp) c)))"

end
