(* ===== verification/ReconcileProps.thy ===== *)
theory ReconcileProps
  imports Reconcile
begin

text \<open>
  What the reconciler guarantees, together with the rules of the attempt ledger: a submitted
  attempt is never run again, a run it orders is granted by the ledger at the generation it
  announced, an outcome it resumes can still be committed, and it does not wait for ever.
\<close>

subsection \<open>The policy on a non-empty ledger\<close>

lemma plan_empty:
  "ri_Attempts inp = [] \<Longrightarrow> pn_Action (PlanReconcile inp c) = ReconcileRun \<and>
     pn_Reason (PlanReconcile inp c) = ReconcileNoAttempt \<and> \<not> pn_NeedInspect (PlanReconcile inp c)"
  by (simp add: PlanReconcile_def Let_def)

text \<open>A run or a resume is about an attempt the ledger still allows.\<close>

definition plan_ok :: "reconcile_config \<Rightarrow> reconcile_input \<Rightarrow> reconcile_plan \<Rightarrow> bool" where
  "plan_ok c inp p =
     (let att = last (ri_Attempts inp) in
      pn_NextGeneration p = att_Generation att + 1 \<and>
      (pn_NeedInspect p \<longrightarrow> \<not> ri_Inspected inp \<and> att_State att = AttemptActive) \<and>
      (\<not> pn_NeedInspect p \<longrightarrow> (pn_Action p, pn_Reason p) \<in> set ReconcileOutcomes) \<and>
      (pn_Action p = ReconcileRun \<longrightarrow>
         \<not> Submitted att \<and> (att_State att = AttemptActive \<longrightarrow> att_LeaseExpiresAt att \<le> ri_Now inp)) \<and>
      (pn_Action p = ReconcileResume \<longrightarrow>
         att_State att = AttemptActive \<and> (Submitted att \<or> (\<exists>v. ri_View inp = Some v \<and> hv_Submitted v)) \<and>
         (\<exists>v. ri_View inp = Some v \<and> Consistent v att)) \<and>
      (pn_Action p = ReconcileFailClosed \<longrightarrow>
         Submitted att \<or> rc_Window (normalized c) \<le> ri_Now inp - att_LeaseExpiresAt att) \<and>
      (pn_Action p = ReconcileWait \<longrightarrow>
         0 < pn_RetryAfter p \<and> pn_RetryAfter p \<le> rc_Poll (normalized c) \<and>
         ri_Now inp < att_LeaseExpiresAt att + max (rc_Window (normalized c)) (rc_Margin (normalized c))))"

lemma normalized_pos: "0 < rc_Margin (normalized c)" "0 < rc_Poll (normalized c)" "0 < rc_Window (normalized c)"
  by (auto simp: normalized_def DefaultReconcileMargin_def DefaultReconcilePoll_def
      DefaultReconcileWindow_def MaxReconcileWindow_def)

lemma clampRetry_bounds: "0 < poll \<Longrightarrow> 0 < clampRetry d poll \<and> clampRetry d poll \<le> poll"
  by (auto simp: clampRetry_def)

lemma PlanReconcile_ok:
  assumes "ri_Attempts inp \<noteq> []"
  shows "plan_ok c inp (PlanReconcile inp c)"
  using assms normalized_pos [of c] clampRetry_bounds [OF normalized_pos(2)]
  unfolding PlanReconcile_def plan_ok_def Let_def ReconcileOutcomes_def
  by (auto split: option.splits)

subsection \<open>The whole call\<close>

lemma ask_helper_input:
  "ri_Attempts (ask_helper registry inspector now jobID att inp) = ri_Attempts inp"
  "ri_Now (ask_helper registry inspector now jobID att inp) = now"
  "ri_Inspected (ask_helper registry inspector now jobID att inp)"
  "ri_View inp = None \<Longrightarrow> ri_View (ask_helper registry inspector now jobID att inp) = Some v \<Longrightarrow>
     \<exists>ask. inspector = Some ask \<and> ask (att_NodeID att) jobID (att_AttemptID att) = Inr v"
  by (auto simp: ask_helper_def Let_def split: option.splits sum.splits if_splits)

text \<open>The decision \<open>ReconcileJob\<close> returns is one \<open>PlanReconcile\<close> makes on the job's ledger.\<close>

lemma ReconcileJob_plan:
  assumes "ReconcileJob registry inspector c now1 now2 (Some ledger) jobID = Inr plan"
    and "ledger jobID = Inr h"
  obtains inp where "plan = PlanReconcile inp c" "ri_Attempts inp = h" "\<not> pn_NeedInspect plan"
    "ri_Now inp = now1 \<or> ri_Now inp = now2"
    "\<And>v. ri_View inp = Some v \<Longrightarrow>
       \<exists>ask. inspector = Some ask \<and> ask (att_NodeID (last h)) jobID (att_AttemptID (last h)) = Inr v"
proof -
  let ?first = "\<lparr>ri_Now = now1, ri_Attempts = h, ri_Inspected = False, ri_View = None, ri_InspectErr = None\<rparr>"
  show thesis
  proof (cases "pn_NeedInspect (PlanReconcile ?first c)")
    case False
    with assms have "plan = PlanReconcile ?first c" by (simp add: ReconcileJob_def Let_def)
    with False show thesis by (intro that [of ?first]) auto
  next
    case True
    let ?inp = "ask_helper registry inspector now2 jobID (last h) ?first"
    from True assms have p: "plan = PlanReconcile ?inp c" by (simp add: ReconcileJob_def Let_def)
    note q = ask_helper_input [where registry = registry and inspector = inspector and now = now2
        and jobID = jobID and att = "last h" and inp = ?first]
    have "\<not> pn_NeedInspect plan"
      using plan_empty [of ?inp c] PlanReconcile_ok [of ?inp c] q(1-3)
      by (cases "h = []") (auto simp: p plan_ok_def Let_def)
    then show thesis using q(1,2) by (intro that [OF p]) (auto intro: q(4))
  qed
qed

text \<open>A run the policy orders is one the ledger grants.\<close>

lemma run_is_granted:
  assumes "h \<noteq> []" and "\<not> Submitted (last h)"
    and lapsed: "att_State (last h) = AttemptActive \<Longrightarrow> att_LeaseExpiresAt (last h) \<le> now"
    and req: "bar_AttemptID req \<notin> att_AttemptID ` set h" "bar_ExpectedGeneration req = att_Generation (last h)"
      "bar_InputFingerprint req = att_InputFingerprint (last h)"
  shows "\<exists>p. planBegin req ttl h now = Inr p \<and> \<not> plan_replay p \<and>
           att_Generation (plan_attempt p) = att_Generation (last h) + 1"
proof -
  have "find (\<lambda>a. att_AttemptID a = bar_AttemptID req) h = None"
    using req(1) by (auto simp: find_None_iff image_iff)
  then show ?thesis using assms by (auto simp: planBegin_def Let_def Submitted_def)
qed

definition wit_attempt :: attempt where
  "wit_attempt = \<lparr>att_JobID = ''j'', att_AttemptID = ''att_1'', att_Generation = 1, att_NodeID = ''n1'',
     att_State = AttemptActive, att_LeaseExpiresAt = 100, att_InputFingerprint = ''f'',
     att_WorkloadVersion = [], att_SubmittedAt = None, att_CreatedAt = 1, att_UpdatedAt = 1, att_EndedAt = None\<rparr>"

definition wit_request :: begin_request where
  "wit_request = \<lparr>bar_JobID = ''j'', bar_AttemptID = ''att_2'', bar_NodeID = ''n2'',
     bar_ExpectedGeneration = 1, bar_TTL = 0, bar_InputFingerprint = ''f'', bar_WorkloadVersion = [],
     bar_AllowAfterSubmitted = False\<rparr>"

definition wit_config :: reconcile_config where
  "wit_config = \<lparr>rc_Window = 0, rc_Margin = 0, rc_Poll = 0\<rparr>"

text \<open>C30. Reconciliation never runs a submitted attempt again, whatever the helper, the registry
  or the clock say. A decision always is one of the listed outcomes. If it is to run and the
  job has attempts, the newest one never crossed the submission boundary and its lease is over,
  and the ledger grants the next attempt (any fresh id, the same input, from the second clock
  reading on) at exactly the generation the plan announced. If it is to resume, the newest
  attempt still holds the open fence, so the outcome can be committed, and the helper answered
  for that very generation and input, with the prompt known to have left. The job is failed
  closed only when its prompt left or the reconcile window has passed.\<close>

theorem reconcile_never_reruns:
  assumes "ReconcileJob registry inspector c now1 now2 (Some ledger) jobID = Inr plan"
    and "ledger jobID = Inr h" and "h \<noteq> []" and "now1 \<le> now2"
  shows "(pn_Action plan, pn_Reason plan) \<in> set ReconcileOutcomes \<and> \<not> pn_NeedInspect plan \<and>
    (pn_Action plan = ReconcileRun \<longrightarrow>
       \<not> Submitted (last h) \<and>
       (now2 \<le> now \<and> bar_AttemptID req \<notin> att_AttemptID ` set h \<and>
        bar_ExpectedGeneration req = att_Generation (last h) \<and>
        bar_InputFingerprint req = att_InputFingerprint (last h) \<longrightarrow>
        (\<exists>p. planBegin req ttl h now = Inr p \<and> \<not> plan_replay p \<and>
             att_Generation (plan_attempt p) = pn_NextGeneration plan))) \<and>
    (pn_Action plan = ReconcileResume \<longrightarrow>
       fenceAttempt (Ref (last h)) (Some (last h)) False = None \<and>
       (\<exists>ask v. inspector = Some ask \<and> ask (att_NodeID (last h)) jobID (att_AttemptID (last h)) = Inr v \<and>
          Consistent v (last h) \<and> (Submitted (last h) \<or> hv_Submitted v))) \<and>
    (pn_Action plan = ReconcileFailClosed \<longrightarrow>
       Submitted (last h) \<or> att_LeaseExpiresAt (last h) + rc_Window (normalized c) \<le> now2)"
proof -
  obtain inp where p: "plan = PlanReconcile inp c" and h: "ri_Attempts inp = h" and
    need: "\<not> pn_NeedInspect plan" and now: "ri_Now inp = now1 \<or> ri_Now inp = now2" and
    view: "\<And>v. ri_View inp = Some v \<Longrightarrow>
      \<exists>ask. inspector = Some ask \<and> ask (att_NodeID (last h)) jobID (att_AttemptID (last h)) = Inr v"
    by (rule ReconcileJob_plan [OF assms(1,2)]) blast
  have ok: "plan_ok c inp plan" using PlanReconcile_ok [of inp c] assms(3) h p by simp
  have le: "ri_Now inp \<le> now2" using now assms(4) by auto
  have next_gen: "pn_NextGeneration plan = att_Generation (last h) + 1"
    using ok h by (simp add: plan_ok_def Let_def)
  show ?thesis
  proof (intro conjI impI)
    show "(pn_Action plan, pn_Reason plan) \<in> set ReconcileOutcomes" and "\<not> pn_NeedInspect plan"
      using ok need by (auto simp: plan_ok_def Let_def)
  next
    assume run: "pn_Action plan = ReconcileRun"
    then show unsub: "\<not> Submitted (last h)" using ok h by (simp add: plan_ok_def Let_def)
    assume r: "now2 \<le> now \<and> bar_AttemptID req \<notin> att_AttemptID ` set h \<and>
        bar_ExpectedGeneration req = att_Generation (last h) \<and>
        bar_InputFingerprint req = att_InputFingerprint (last h)"
    have "att_State (last h) = AttemptActive \<Longrightarrow> att_LeaseExpiresAt (last h) \<le> now"
      using run ok h le r by (auto simp: plan_ok_def Let_def)
    from run_is_granted [OF assms(3) unsub this] r
    show "\<exists>p. planBegin req ttl h now = Inr p \<and> \<not> plan_replay p \<and>
             att_Generation (plan_attempt p) = pn_NextGeneration plan" by (simp add: next_gen)
  next
    assume "pn_Action plan = ReconcileResume"
    then have res: "att_State (last h) = AttemptActive"
      "Submitted (last h) \<or> (\<exists>v. ri_View inp = Some v \<and> hv_Submitted v)"
      "\<exists>v. ri_View inp = Some v \<and> Consistent v (last h)"
      using ok h by (simp_all add: plan_ok_def Let_def)
    then show "fenceAttempt (Ref (last h)) (Some (last h)) False = None"
      by (simp add: fenceAttempt_def Ref_def)
    show "\<exists>ask v. inspector = Some ask \<and> ask (att_NodeID (last h)) jobID (att_AttemptID (last h)) = Inr v \<and>
          Consistent v (last h) \<and> (Submitted (last h) \<or> hv_Submitted v)"
      using res(2,3) view by fastforce
  next
    assume "pn_Action plan = ReconcileFailClosed"
    then show "Submitted (last h) \<or> att_LeaseExpiresAt (last h) + rc_Window (normalized c) \<le> now2"
      using ok h le by (auto simp: plan_ok_def Let_def)
  qed
qed

lemma reconcile_never_reruns_witness:
  "(let plan = ReconcileJob None (Some (\<lambda>n j a. Inl InspectFailed)) wit_config (100 + 20 * second) (100 + 21 * second)
                 (Some (\<lambda>j. Inr [wit_attempt])) ''j''
    in (\<exists>p. plan = Inr p \<and> pn_Action p = ReconcileRun \<and>
         (\<exists>b. planBegin wit_request 5 [wit_attempt] (100 + 22 * second) = Inr b \<and>
              att_Generation (plan_attempt b) = pn_NextGeneration p)))"
proof -
  let ?r = "ReconcileJob None (Some (\<lambda>n j a. Inl InspectFailed)) wit_config (100 + 20 * second) (100 + 21 * second)
     (Some (\<lambda>j. Inr [wit_attempt])) ''j''"
  have "(case ?r of Inl _ \<Rightarrow> False | Inr p \<Rightarrow> pn_Action p = ReconcileRun)" by code_simp
  then obtain p where p: "?r = Inr p" "pn_Action p = ReconcileRun" by (cases ?r) auto
  show ?thesis
    unfolding Let_def
    using reconcile_never_reruns [OF p(1) refl, where now = "100 + 22 * second" and req = wit_request and ttl = 5] p
    by (auto simp: wit_attempt_def wit_request_def)
qed

text \<open>C31. Reconciliation settles: every wait it asks for is positive and at most the poll
  interval, and once both the reconcile window and the margin have passed since the newest
  attempt's lease lapsed, the decision is not to wait, whether or not the helper answers. A job
  therefore does not stay undecided for longer than that.\<close>

theorem reconcile_settles:
  assumes "ReconcileJob registry inspector c now1 now2 (Some ledger) jobID = Inr plan"
    and "ledger jobID = Inr h" and "h \<noteq> []" and "now1 \<le> now2"
  shows "(pn_Action plan = ReconcileWait \<longrightarrow>
      0 < pn_RetryAfter plan \<and> pn_RetryAfter plan \<le> rc_Poll (normalized c)) \<and>
    (att_LeaseExpiresAt (last h) + max (rc_Window (normalized c)) (rc_Margin (normalized c)) \<le> now1 \<longrightarrow>
      pn_Action plan \<noteq> ReconcileWait)"
proof -
  obtain inp where p: "plan = PlanReconcile inp c" and h: "ri_Attempts inp = h" and
    now: "ri_Now inp = now1 \<or> ri_Now inp = now2"
    by (rule ReconcileJob_plan [OF assms(1,2)]) blast
  have ok: "plan_ok c inp plan" using PlanReconcile_ok [of inp c] assms(3) h p by simp
  have "now1 \<le> ri_Now inp" using now assms(4) by auto
  with ok h show ?thesis by (auto simp: plan_ok_def Let_def)
qed

lemma reconcile_settles_witness:
  "(let r = ReconcileJob None None wit_config (100 + 15 * minute) (100 + 15 * minute)
              (Some (\<lambda>j. Inr [wit_attempt\<lparr>att_SubmittedAt := Some 9\<rparr>])) ''j''
    in (\<exists>p. r = Inr p \<and> pn_Action p \<noteq> ReconcileWait \<and> pn_Action p = ReconcileFailClosed))"
proof -
  let ?a = "wit_attempt\<lparr>att_SubmittedAt := Some 9\<rparr>"
  let ?r = "ReconcileJob None None wit_config (100 + 15 * minute) (100 + 15 * minute) (Some (\<lambda>j. Inr [?a])) ''j''"
  have "(case ?r of Inl _ \<Rightarrow> False | Inr p \<Rightarrow> pn_Action p = ReconcileFailClosed)" by code_simp
  then obtain p where p: "?r = Inr p" "pn_Action p = ReconcileFailClosed" by (cases ?r) auto
  have "pn_Action p \<noteq> ReconcileWait"
    using reconcile_settles [OF p(1) refl]
    by (simp add: wit_attempt_def wit_config_def normalized_def DefaultReconcileWindow_def
        DefaultReconcileMargin_def MaxReconcileWindow_def)
  with p show ?thesis by auto
qed

end
