(* ===== verification/Breaker.thy ===== *)
theory Breaker
  imports GoNet
begin

text \<open>
  Retries and circuit breakers: the backoff policy (\<open>retrypolicy/retrypolicy.go\<close>), the breaker
  (\<open>resilience/breaker.go\<close>), the bounded registry of breakers (\<open>resilience/registry.go\<close>) and
  the dispatcher middleware (\<open>resilience/dispatcher_mw.go\<close>).

  \<open>float64\<close> arithmetic of the backoff is exact rational arithmetic; the draw of
  \<open>rand.Float64()\<close> is the argument \<open>u\<close> (\<open>0 \<le> u < 1\<close>). \<open>time.Duration(jittered) *
  time.Millisecond\<close> is a 64-bit product. Clock readings are arguments. The registry hands out
  pointers, so breakers live in a heap and the map holds addresses.
\<close>

subsection \<open>Retry policy\<close>

record retry_policy =
  rt_MaxRetries :: int
  rt_BackoffBaseMS :: int
  rt_BackoffMaxMS :: int

definition DefaultMaxRetries :: int where "DefaultMaxRetries = 3"
definition DefaultBackoffBase :: int where "DefaultBackoffBase = 1000"
definition DefaultBackoffMax :: int where "DefaultBackoffMax = 60000"
definition jitterFraction :: rat where "jitterFraction = 30 / 100"

datatype category = CategoryTransient | CategoryPermanent

definition DefaultPolicy :: retry_policy where
  "DefaultPolicy = \<lparr>rt_MaxRetries = DefaultMaxRetries, rt_BackoffBaseMS = DefaultBackoffBase,
     rt_BackoffMaxMS = DefaultBackoffMax\<rparr>"

definition policy_Clamp :: "retry_policy \<Rightarrow> retry_policy" where
  "policy_Clamp p =
     (let r = (if rt_MaxRetries p < 1 then DefaultMaxRetries else rt_MaxRetries p);
          r = (if 10 < r then 10 else r);
          b = (if rt_BackoffBaseMS p \<le> 0 then DefaultBackoffBase else rt_BackoffBaseMS p);
          m = (if rt_BackoffMaxMS p \<le> 0 then DefaultBackoffMax else rt_BackoffMaxMS p);
          m = (if m < b then b else m)
      in \<lparr>rt_MaxRetries = r, rt_BackoffBaseMS = b, rt_BackoffMaxMS = m\<rparr>)"

definition NextDelay :: "rat \<Rightarrow> retry_policy \<Rightarrow> nat \<Rightarrow> dur" where
  "NextDelay u p retries =
     (let p = policy_Clamp p;
          base = min (2 ^ retries * rat_of_int (rt_BackoffBaseMS p)) (rat_of_int (rt_BackoffMaxMS p));
          lo = base * (1 - jitterFraction);
          hi = base * (1 + jitterFraction);
          jittered = lo + u * (hi - lo);
          jittered = (if jittered < 0 then 0 else jittered)
      in wrap64 (\<lfloor>jittered\<rfloor> * millisecond))"

definition ShouldRetry :: "retry_policy \<Rightarrow> category \<Rightarrow> int \<Rightarrow> bool" where
  "ShouldRetry p cat retriesSoFar =
     (if cat = CategoryPermanent then False else retriesSoFar < rt_MaxRetries (policy_Clamp p))"

text \<open>\<open>raw[k].(float64)\<close> with a guard; \<open>int(v)\<close> truncates a positive float.\<close>

definition float_field :: "jmap \<Rightarrow> string \<Rightarrow> (rat \<Rightarrow> bool) \<Rightarrow> int \<Rightarrow> int" where
  "float_field m k ok dflt =
     (case map_of m k of Some (JNum v) \<Rightarrow> if ok v then \<lfloor>v\<rfloor> else dflt | _ \<Rightarrow> dflt)"

definition ParseFromMap :: "jmap option \<Rightarrow> retry_policy" where
  "ParseFromMap raw =
     (case raw of
        None \<Rightarrow> DefaultPolicy
      | Some m \<Rightarrow>
          (case map_of m ''retry_policy'' of
             Some (JObj rp) \<Rightarrow>
               policy_Clamp \<lparr>rt_MaxRetries = float_field rp ''max_retries'' (\<lambda>v. 1 \<le> v) DefaultMaxRetries,
                 rt_BackoffBaseMS = float_field rp ''backoff_base_ms'' (\<lambda>v. 0 < v) DefaultBackoffBase,
                 rt_BackoffMaxMS = float_field rp ''backoff_max_ms'' (\<lambda>v. 0 < v) DefaultBackoffMax\<rparr>
           | _ \<Rightarrow> DefaultPolicy))"

definition transientPrefixes :: "string list" where
  "transientPrefixes =
    [''UBAG-QUEUE-'', ''UBAG-WORKER-TIMEOUT'', ''UBAG-WORKER-RETRYABLE'', ''UBAG-BROWSER-LAUNCH'',
     ''UBAG-BROWSER-CRASH'', ''UBAG-ADAPTER-NETWORK'', ''UBAG-ADAPTER-TIMEOUT'', ''UBAG-RATE-'',
     ''UBAG-CACHE-MISS'', ''UBAG-INTERNAL-'']"

definition ClassifyError :: "string \<Rightarrow> category" where
  "ClassifyError code =
     (if list_ex (\<lambda>p. prefix p code) transientPrefixes then CategoryTransient else CategoryPermanent)"

subsection \<open>The breaker\<close>

datatype breaker_state = StateClosed | StateOpen | StateHalfOpen

record breaker_config =
  bc_FailureThreshold :: int
  bc_SuccessBudget :: int
  bc_CooldownBase :: dur
  bc_CooldownMax :: dur
  bc_HalfOpenMaxInflight :: int
  bc_HalfOpenProbeTimeout :: dur

definition DefaultConfig :: breaker_config where
  "DefaultConfig = \<lparr>bc_FailureThreshold = 5, bc_SuccessBudget = 2, bc_CooldownBase = 5 * second,
     bc_CooldownMax = 60 * second, bc_HalfOpenMaxInflight = 1, bc_HalfOpenProbeTimeout = 30 * second\<rparr>"

record breaker =
  br_cfg :: breaker_config
  br_state :: breaker_state
  br_failures :: int
  br_successes :: int
  br_inflight :: int
  br_openCount :: nat
  br_openedAt :: gotime
  br_cooldown :: dur
  br_halfOpenAt :: gotime

definition breaker_New :: "breaker_config \<Rightarrow> breaker" where
  "breaker_New c =
     (let pos = (\<lambda>f. if f c \<le> 0 then f DefaultConfig else f c)
      in \<lparr>br_cfg = \<lparr>bc_FailureThreshold = pos bc_FailureThreshold, bc_SuccessBudget = pos bc_SuccessBudget,
            bc_CooldownBase = pos bc_CooldownBase, bc_CooldownMax = pos bc_CooldownMax,
            bc_HalfOpenMaxInflight = pos bc_HalfOpenMaxInflight,
            bc_HalfOpenProbeTimeout = pos bc_HalfOpenProbeTimeout\<rparr>,
          br_state = StateClosed, br_failures = 0, br_successes = 0, br_inflight = 0, br_openCount = 0,
          br_openedAt = 0, br_cooldown = 0, br_halfOpenAt = 0\<rparr>)"

definition cooldown_policy :: "breaker \<Rightarrow> retry_policy" where
  "cooldown_policy b =
     \<lparr>rt_MaxRetries = 10, rt_BackoffBaseMS = bc_CooldownBase (br_cfg b) div millisecond,
      rt_BackoffMaxMS = bc_CooldownMax (br_cfg b) div millisecond\<rparr>"

definition breaker_cooldown :: "rat \<Rightarrow> breaker \<Rightarrow> nat \<Rightarrow> dur" where
  "breaker_cooldown u b openCount = NextDelay u (cooldown_policy b) openCount"

definition Allow :: "gotime \<Rightarrow> gotime \<Rightarrow> breaker \<Rightarrow> bool \<times> breaker" where
  "Allow now now' b =
     (case br_state b of
        StateClosed \<Rightarrow> (True, b)
      | StateOpen \<Rightarrow>
          if now < br_openedAt b + br_cooldown b then (False, b)
          else (True, b\<lparr>br_state := StateHalfOpen, br_inflight := 1, br_successes := 0, br_halfOpenAt := now\<rparr>)
      | StateHalfOpen \<Rightarrow>
          let b1 = (if 0 < bc_HalfOpenProbeTimeout (br_cfg b) \<and> \<not> IsZero (br_halfOpenAt b) \<and>
                       bc_HalfOpenProbeTimeout (br_cfg b) \<le> now - br_halfOpenAt b
                    then b\<lparr>br_inflight := 0, br_successes := 0, br_halfOpenAt := now'\<rparr> else b)
          in if bc_HalfOpenMaxInflight (br_cfg b1) \<le> br_inflight b1 then (False, b1)
             else (True, b1\<lparr>br_inflight := br_inflight b1 + 1\<rparr>))"

definition RecordSuccess :: "breaker \<Rightarrow> breaker" where
  "RecordSuccess b =
     (case br_state b of
        StateClosed \<Rightarrow> b\<lparr>br_failures := 0\<rparr>
      | StateHalfOpen \<Rightarrow>
          if br_inflight b \<le> 0 then b
          else
            let b1 = b\<lparr>br_inflight := br_inflight b - 1, br_successes := br_successes b + 1\<rparr>
            in if bc_SuccessBudget (br_cfg b1) \<le> br_successes b1
               then b1\<lparr>br_state := StateClosed, br_failures := 0, br_successes := 0, br_inflight := 0, br_openCount := 0\<rparr>
               else b1
      | StateOpen \<Rightarrow> b)"

definition doOpen :: "rat \<Rightarrow> gotime \<Rightarrow> breaker \<Rightarrow> breaker" where
  "doOpen u now b =
     (let b1 = b\<lparr>br_openCount := Suc (br_openCount b), br_state := StateOpen, br_openedAt := now\<rparr>
      in b1\<lparr>br_cooldown := breaker_cooldown u b1 (br_openCount b1)\<rparr>)"

definition RecordFailure :: "rat \<Rightarrow> gotime \<Rightarrow> breaker \<Rightarrow> breaker" where
  "RecordFailure u now b =
     (case br_state b of
        StateClosed \<Rightarrow>
          let b1 = b\<lparr>br_failures := br_failures b + 1\<rparr>
          in if bc_FailureThreshold (br_cfg b1) \<le> br_failures b1 then doOpen u now b1 else b1
      | StateHalfOpen \<Rightarrow> doOpen u now (b\<lparr>br_inflight := 0, br_successes := 0\<rparr>)
      | StateOpen \<Rightarrow> b)"

definition CooldownRemaining :: "gotime \<Rightarrow> breaker \<Rightarrow> dur" where
  "CooldownRemaining now b =
     (if br_state b \<noteq> StateOpen then 0
      else let remaining = br_openedAt b + br_cooldown b - now in if remaining < 0 then 0 else remaining)"

subsection \<open>The registry and the middleware\<close>

definition defaultMaxBreakers :: nat where "defaultMaxBreakers = 10000"

record breaker_registry =
  rg_cfg :: breaker_config
  rg_heap :: "breaker list"
  rg_entries :: "(string \<times> nat) list"
  rg_order :: "string list"
  rg_maxEntries :: nat

definition NewRegistry :: "breaker_config \<Rightarrow> breaker_registry" where
  "NewRegistry c = \<lparr>rg_cfg = c, rg_heap = [], rg_entries = [], rg_order = [], rg_maxEntries = defaultMaxBreakers\<rparr>"

definition registryKey :: "string \<Rightarrow> string \<Rightarrow> string" where
  "registryKey kind target = kind @ CHR 0x00 # target"

text \<open>Dropping the oldest key of the order that still has an entry.\<close>

fun evict :: "string list \<Rightarrow> (string \<times> nat) list \<Rightarrow> string list \<times> (string \<times> nat) list" where
  "evict [] es = ([], es)"
| "evict (k # ks) es =
     (if map_of es k \<noteq> None then (ks, filter (\<lambda>e. fst e \<noteq> k) es) else evict ks es)"

definition registry_Get :: "string \<Rightarrow> string \<Rightarrow> breaker_registry \<Rightarrow> nat \<times> breaker_registry" where
  "registry_Get kind target r =
     (let k = registryKey kind target in
      case map_of (rg_entries r) k of
        Some a \<Rightarrow> (a, r)
      | None \<Rightarrow>
          let (ord, es) = (if 0 < rg_maxEntries r \<and> rg_maxEntries r \<le> length (rg_entries r)
                           then evict (rg_order r) (rg_entries r) else (rg_order r, rg_entries r));
              a = length (rg_heap r)
          in (a, r\<lparr>rg_heap := rg_heap r @ [breaker_New (rg_cfg r)],
                   rg_entries := es @ [(k, a)], rg_order := ord @ [k]\<rparr>))"

definition registry_Snapshot :: "breaker_registry \<Rightarrow> (string \<times> breaker_state) list" where
  "registry_Snapshot r = map (\<lambda>(k, a). (k, br_state (rg_heap r ! a))) (rg_entries r)"

datatype enqueue_error = BreakerOpenError string dur | DispatchError

text \<open>
  \<open>breakerDispatcher.EnqueueJob\<close>: \<open>failed\<close> says whether the next dispatcher returned an error;
  \<open>n1\<close> to \<open>n4\<close> are the clock readings in the order the code takes them.
\<close>

definition EnqueueJob ::
  "bool \<Rightarrow> rat \<Rightarrow> gotime \<Rightarrow> gotime \<Rightarrow> gotime \<Rightarrow> gotime \<Rightarrow> string \<Rightarrow> string \<Rightarrow> breaker_registry
   \<Rightarrow> enqueue_error option \<times> breaker_registry" where
  "EnqueueJob failed u n1 n2 n3 n4 tenant target r =
     (let name = tenant @ CHR ''/'' # target;
          (a, r1) = registry_Get ''upstream'' name r;
          (ok, b) = Allow n1 n2 (rg_heap r1 ! a);
          r2 = r1\<lparr>rg_heap := (rg_heap r1)[a := b]\<rparr>
      in if \<not> ok then (Some (BreakerOpenError name (CooldownRemaining n3 b)), r2)
         else if failed then (Some DispatchError, r2\<lparr>rg_heap := (rg_heap r2)[a := RecordFailure u n4 b]\<rparr>)
         else (None, r2\<lparr>rg_heap := (rg_heap r2)[a := RecordSuccess b]\<rparr>))"

end
