(* ===== verification/BreakerProps.thy ===== *)
theory BreakerProps
  imports Breaker
begin

text \<open>
  The backoff is bounded, a breaker never wedges shut, and the registry stays bounded. A breaker
  is a clocked machine: its invariant is read at a time and its operations carry theirs.
\<close>

subsection \<open>Backoff\<close>

lemma policy_Clamp_bounds:
  "1 \<le> rt_MaxRetries (policy_Clamp p)" "rt_MaxRetries (policy_Clamp p) \<le> 10"
  "0 < rt_BackoffBaseMS (policy_Clamp p)" "rt_BackoffBaseMS (policy_Clamp p) \<le> rt_BackoffMaxMS (policy_Clamp p)"
  by (auto simp: policy_Clamp_def Let_def DefaultMaxRetries_def DefaultBackoffBase_def DefaultBackoffMax_def)

lemma policy_Clamp_idem: "policy_Clamp (policy_Clamp p) = policy_Clamp p"
  by (auto simp: policy_Clamp_def Let_def DefaultMaxRetries_def DefaultBackoffBase_def DefaultBackoffMax_def)

text \<open>The largest delay in nanoseconds: 130 percent of the clamped maximum.\<close>

definition delay_cap :: "retry_policy \<Rightarrow> dur" where
  "delay_cap p = (13 * rt_BackoffMaxMS (policy_Clamp p) div 10) * millisecond"

lemma NextDelay_bounds:
  assumes u: "0 \<le> u" "u < 1" and fits: "delay_cap p < 2 ^ 63"
  shows "0 \<le> NextDelay u p n" "NextDelay u p n \<le> delay_cap p"
proof -
  let ?B = "rt_BackoffBaseMS (policy_Clamp p)" and ?M = "rt_BackoffMaxMS (policy_Clamp p)"
  define base where "base = min (2 ^ n * rat_of_int ?B) (rat_of_int ?M)"
  have pos: "0 < ?B" "0 < ?M" using policy_Clamp_bounds(3,4) [of p] by linarith+
  then have base: "0 \<le> base" "base \<le> rat_of_int ?M" unfolding base_def by auto
  define j where "j = base * (1 - jitterFraction) + u * (base * (1 + jitterFraction) - base * (1 - jitterFraction))"
  have j: "j = base * (7 / 10 + u * (6 / 10))"
    unfolding j_def jitterFraction_def by (simp add: algebra_simps)
  have x: "0 \<le> 7 / 10 + u * (6 / 10)" "7 / 10 + u * (6 / 10) \<le> 13 / 10" using u by auto
  have jb: "0 \<le> j" "j \<le> rat_of_int ?M * (13 / 10)"
    unfolding j by (rule mult_nonneg_nonneg [OF base(1) x(1)])
      (rule mult_mono [OF base(2) x(2) _ x(1)], use pos in simp)
  have "\<lfloor>j\<rfloor> \<le> \<lfloor>rat_of_int ?M * (13 / 10)\<rfloor>" using jb(2) by (rule floor_mono)
  also have "\<dots> = 13 * ?M div 10"
    using floor_divide_of_int_eq [of "13 * ?M" 10, where 'a = rat] by (simp add: algebra_simps)
  finally have hi: "\<lfloor>j\<rfloor> * millisecond \<le> delay_cap p" unfolding delay_cap_def by (intro mult_right_mono) auto
  have lo: "0 \<le> \<lfloor>j\<rfloor> * millisecond" using jb(1) by auto
  have "NextDelay u p n = wrap64 (\<lfloor>if j < 0 then 0 else j\<rfloor> * millisecond)"
    unfolding NextDelay_def Let_def base_def [symmetric] j_def [symmetric] by (rule refl)
  also have "\<dots> = \<lfloor>j\<rfloor> * millisecond"
  proof -
    have "- (2 ^ 63) \<le> \<lfloor>j\<rfloor> * millisecond" by (rule order_trans [OF _ lo]) simp
    moreover have "\<lfloor>j\<rfloor> * millisecond < 2 ^ 63" by (rule le_less_trans [OF hi fits])
    ultimately have "wrap64 (\<lfloor>j\<rfloor> * millisecond) = \<lfloor>j\<rfloor> * millisecond" by (rule wrap64_id)
    then show ?thesis using jb(1) by (simp only: not_less [symmetric] if_False)
  qed
  finally have "NextDelay u p n = \<lfloor>j\<rfloor> * millisecond" .
  then show "0 \<le> NextDelay u p n" "NextDelay u p n \<le> delay_cap p" using lo hi by auto
qed

text \<open>Without that bound the product wraps: a large backoff yields a negative delay.\<close>

lemma NextDelay_wraps:
  "NextDelay (1 / 2) \<lparr>rt_MaxRetries = 3, rt_BackoffBaseMS = 10 ^ 13, rt_BackoffMaxMS = 10 ^ 13\<rparr> 0 < 0"
  by (simp add: NextDelay_def policy_Clamp_def Let_def jitterFraction_def wrap64_def)

subsection \<open>The breaker\<close>

definition cooldown_cap :: "breaker_config \<Rightarrow> dur" where
  "cooldown_cap c = delay_cap \<lparr>rt_MaxRetries = 10, rt_BackoffBaseMS = bc_CooldownBase c div millisecond,
     rt_BackoffMaxMS = bc_CooldownMax c div millisecond\<rparr>"

definition config_ok :: "breaker_config \<Rightarrow> bool" where
  "config_ok c = (0 < bc_FailureThreshold c \<and> 0 < bc_SuccessBudget c \<and> 0 < bc_HalfOpenMaxInflight c \<and>
     0 < bc_HalfOpenProbeTimeout c \<and> cooldown_cap c < 2 ^ 63)"

definition breaker_inv :: "breaker_config \<Rightarrow> gotime \<Rightarrow> breaker \<Rightarrow> bool" where
  "breaker_inv c t b =
     (br_cfg b = c \<and>
      (case br_state b of
         StateClosed \<Rightarrow> 0 \<le> br_failures b \<and> br_failures b < bc_FailureThreshold c
       | StateOpen \<Rightarrow> br_openedAt b \<le> t \<and> 0 \<le> br_cooldown b \<and> br_cooldown b \<le> cooldown_cap c
       | StateHalfOpen \<Rightarrow>
           br_halfOpenAt b \<noteq> 0 \<and> br_halfOpenAt b \<le> t \<and> 0 \<le> br_inflight b \<and>
           br_inflight b \<le> bc_HalfOpenMaxInflight c \<and> 0 \<le> br_successes b \<and> br_successes b < bc_SuccessBudget c))"

datatype breaker_op = BAllow gotime gotime | BSuccess gotime | BFailure rat gotime

fun breaker_step :: "breaker_op \<Rightarrow> breaker \<Rightarrow> breaker" where
  "breaker_step (BAllow now now') b = snd (Allow now now' b)"
| "breaker_step (BSuccess t) b = RecordSuccess b"
| "breaker_step (BFailure u t) b = RecordFailure u t b"

fun breaker_clock :: "breaker_op \<Rightarrow> gotime" where
  "breaker_clock (BAllow now now') = now'"
| "breaker_clock (BSuccess t) = t"
| "breaker_clock (BFailure u t) = t"

fun breaker_op_ok :: "breaker_op \<Rightarrow> bool" where
  "breaker_op_ok (BAllow now now') = (0 < now \<and> now \<le> now')"
| "breaker_op_ok (BSuccess t) = True"
| "breaker_op_ok (BFailure u t) = (0 \<le> u \<and> u < 1)"

lemma breaker_later: "breaker_inv c t b \<Longrightarrow> t \<le> t' \<Longrightarrow> breaker_inv c t' b"
  by (auto simp: breaker_inv_def split: breaker_state.splits)

lemma doOpen_inv:
  assumes "config_ok c" "br_cfg b = c" "0 \<le> u" "u < 1"
  shows "breaker_inv c t (doOpen u t b)"
proof -
  have "0 \<le> br_cooldown (doOpen u t b) \<and> br_cooldown (doOpen u t b) \<le> cooldown_cap c"
    using NextDelay_bounds [OF assms(3,4)] assms(1,2)
    by (simp add: doOpen_def Let_def breaker_cooldown_def cooldown_policy_def cooldown_cap_def config_ok_def)
  then show ?thesis using assms(2) by (simp add: breaker_inv_def doOpen_def Let_def)
qed

lemma breaker_step_inv:
  assumes "config_ok c" and "breaker_inv c (breaker_clock op) b" and "breaker_op_ok op"
  shows "breaker_inv c (breaker_clock op) (breaker_step op b)"
proof (cases op)
  case (BAllow now now')
  then show ?thesis using assms
    by (auto simp: Allow_def breaker_inv_def config_ok_def Let_def split: breaker_state.splits)
next
  case (BSuccess t)
  then show ?thesis using assms
    by (auto simp: RecordSuccess_def breaker_inv_def config_ok_def Let_def split: breaker_state.splits)
next
  case (BFailure u t)
  with assms have cfg: "br_cfg b = c" and u: "0 \<le> u" "u < 1" and inv: "breaker_inv c t b"
    by (auto simp: breaker_inv_def)
  have o: "br_cfg b' = c \<Longrightarrow> breaker_inv c t (doOpen u t b')" for b'
    using doOpen_inv [OF assms(1) _ u] by blast
  show ?thesis
  proof (cases "br_state b")
    case StateClosed
    then have "0 \<le> br_failures b" using inv by (simp add: breaker_inv_def)
    moreover have "breaker_inv c t (b\<lparr>br_failures := br_failures b + 1\<rparr>)"
      if "br_failures b + 1 < bc_FailureThreshold c"
      using that StateClosed cfg inv by (simp add: breaker_inv_def)
    ultimately show ?thesis using BFailure StateClosed cfg o
      by (simp add: RecordFailure_def Let_def not_le)
  next
    case StateOpen
    then show ?thesis using BFailure inv by (simp add: RecordFailure_def)
  next
    case StateHalfOpen
    then show ?thesis using BFailure cfg o by (simp add: RecordFailure_def)
  qed
qed

interpretation breaker_machine:
  clocked_machine breaker_step breaker_clock breaker_op_ok "\<lambda>t b. config_ok c \<and> breaker_inv c t b" for c
  by unfold_locales (auto intro: breaker_later breaker_step_inv)

lemma breaker_New_inv:
  "config_ok (br_cfg (breaker_New c)) \<Longrightarrow> breaker_inv (br_cfg (breaker_New c)) t (breaker_New c)"
  by (auto simp: breaker_inv_def breaker_New_def Let_def config_ok_def)

text \<open>A probe in flight that succeeds, followed by further calls that are allowed and succeed.\<close>

definition successes :: "gotime list \<Rightarrow> breaker \<Rightarrow> breaker" where
  "successes ts b = fold (\<lambda>t b. RecordSuccess (snd (Allow t t b))) ts (RecordSuccess b)"

lemma successes_closed: "br_state b = StateClosed \<Longrightarrow> br_state (successes ts b) = StateClosed"
proof -
  have "br_state b = StateClosed \<Longrightarrow> br_state (fold (\<lambda>t b. RecordSuccess (snd (Allow t t b))) ts b) = StateClosed" for b
    by (induction ts arbitrary: b) (simp_all add: Allow_def RecordSuccess_def)
  then show "br_state b = StateClosed \<Longrightarrow> ?thesis" by (simp add: successes_def RecordSuccess_def)
qed

text \<open>Within one half-open window, as many successes as the budget close the breaker.\<close>

lemma successes_close:
  assumes "br_state b = StateHalfOpen" "br_cfg b = k" "0 < br_inflight b" "br_inflight b \<le> bc_HalfOpenMaxInflight k"
    and "list_all (\<lambda>t. t - br_halfOpenAt b < bc_HalfOpenProbeTimeout k) ts"
    and "bc_SuccessBudget k \<le> br_successes b + 1 + int (length ts)"
  shows "br_state (successes ts b) = StateClosed"
  using assms
proof (induction ts arbitrary: b)
  case Nil
  then show ?case by (simp add: successes_def RecordSuccess_def)
next
  case (Cons t ts)
  let ?b = "RecordSuccess b"
  have step: "successes (t # ts) b = successes ts (snd (Allow t t ?b))" by (simp add: successes_def)
  show ?case
  proof (cases "bc_SuccessBudget k \<le> br_successes b + 1")
    case True
    then have "br_state (snd (Allow t t ?b)) = StateClosed"
      using Cons.prems(1-3) by (simp add: RecordSuccess_def Allow_def)
    then show ?thesis unfolding step by (rule successes_closed)
  next
    case False
    have r: "?b = b\<lparr>br_inflight := br_inflight b - 1, br_successes := br_successes b + 1\<rparr>"
      using Cons.prems(1-3) False by (simp add: RecordSuccess_def)
    have "snd (Allow t t ?b) = b\<lparr>br_successes := br_successes b + 1\<rparr>"
      using Cons.prems(1-5) unfolding r by (simp add: Allow_def)
    then show ?thesis unfolding step using Cons.prems by (intro Cons.IH) simp_all
  qed
qed

text \<open>C35. A breaker recovers. Take any sequence of \<open>Allow\<close>, \<open>RecordSuccess\<close> and \<open>RecordFailure\<close>
  calls, at clock readings that do not go back and in any number and order (results may be lost
  and reported twice). A closed breaker allows the next call and has fewer than \<open>FailureThreshold\<close>
  failures in a row behind it. An open one allows it exactly when the cooldown it was opened with has passed,
  that is when \<open>CooldownRemaining\<close> is 0, and that cooldown is at most 130 percent of the configured
  maximum. A half-open one allows it exactly when a probe slot is free or the probe timeout has passed
  since the window opened, and never has more than \<open>HalfOpenMaxInflight\<close> probes out. So after the longest cooldown
  and the probe timeout the next call is allowed whatever state the breaker was left in. And
  when that call and the following ones succeed, \<open>SuccessBudget\<close> of them within the half-open window, the
  breaker is closed.\<close>

theorem breaker_recovers:
  assumes "b = fold breaker_step ops (breaker_New c)" and "k = br_cfg (breaker_New c)"
    and "cooldown_cap k < 2 ^ 63"
    and "list_all breaker_op_ok ops" and "sorted (0 # map breaker_clock ops)"
    and "t = last (0 # map breaker_clock ops)"
    and "t \<le> now" and "after = snd (Allow now now' b)"
  shows "(case br_state b of
       StateClosed \<Rightarrow> fst (Allow now now' b) \<and> br_failures b < bc_FailureThreshold k
     | StateOpen \<Rightarrow> (fst (Allow now now' b) \<longleftrightarrow> CooldownRemaining now b = 0) \<and> br_openedAt b \<le> t \<and> br_cooldown b \<le> cooldown_cap k
     | StateHalfOpen \<Rightarrow>
         (fst (Allow now now' b) \<longleftrightarrow> br_inflight b < bc_HalfOpenMaxInflight k \<or> bc_HalfOpenProbeTimeout k \<le> now - br_halfOpenAt b) \<and>
         br_halfOpenAt b \<le> t \<and> br_inflight b \<le> bc_HalfOpenMaxInflight k) \<and>
    (t + max (cooldown_cap k) (bc_HalfOpenProbeTimeout k) \<le> now \<longrightarrow> fst (Allow now now' b)) \<and>
    (fst (Allow now now' b) \<longrightarrow> bc_SuccessBudget k \<le> 1 + int (length ts) \<longrightarrow>
     list_all (\<lambda>u. u - br_halfOpenAt after < bc_HalfOpenProbeTimeout k) ts \<longrightarrow> br_state (successes ts after) = StateClosed)"
proof -
  have k: "config_ok k"
    using assms(2,3) by (auto simp: config_ok_def breaker_New_def Let_def DefaultConfig_def)
  then have "breaker_inv k 0 (breaker_New c)" using breaker_New_inv assms(2) by blast
  then have inv: "breaker_inv k t b"
    using breaker_machine.clocked_run [of k 0 "breaker_New c" ops] k assms(1,4-6) by simp
  have close: "br_state (successes ts after) = StateClosed"
    if "fst (Allow now now' b)" "bc_SuccessBudget k \<le> 1 + int (length ts)" "list_all (\<lambda>u. u - br_halfOpenAt after < bc_HalfOpenProbeTimeout k) ts"
  proof (cases "br_state after = StateClosed")
    case True
    then show ?thesis by (rule successes_closed)
  next
    case False
    then have "br_state after = StateHalfOpen \<and> br_cfg after = k \<and> 0 < br_inflight after \<and> br_inflight after \<le> bc_HalfOpenMaxInflight k \<and>
        0 \<le> br_successes after"
      using that(1) inv k unfolding assms(8)
      by (auto simp: breaker_inv_def Allow_def Let_def config_ok_def split: breaker_state.splits if_splits)
    then show ?thesis using that(2,3) by (intro successes_close) auto
  qed
  show ?thesis using inv assms(7) k close
    by (auto simp: breaker_inv_def Allow_def CooldownRemaining_def Let_def config_ok_def split: breaker_state.splits)
qed

lemma breaker_recovers_witness:
  "(let b = fold breaker_step [BFailure 0 1, BFailure 0 2, BFailure 0 3, BFailure 0 4, BFailure 0 5] (breaker_New DefaultConfig);
        after = snd (Allow (5 + 78 * second) 0 b)
    in br_state b = StateOpen \<and> fst (Allow (5 + 78 * second) 0 b) \<and> br_state (successes [6 + 78 * second] after) = StateClosed)"
proof -
  let ?ops = "[BFailure 0 1, BFailure 0 2, BFailure 0 3, BFailure 0 4, BFailure 0 5]"
  let ?b = "fold breaker_step ?ops (breaker_New DefaultConfig)" and ?now = "5 + 78 * second"
  have o: "br_state ?b = StateOpen"
    by (simp add: RecordFailure_def doOpen_def breaker_New_def DefaultConfig_def Let_def)
  have k: "br_cfg (breaker_New DefaultConfig) = DefaultConfig"
    by (simp add: breaker_New_def DefaultConfig_def Let_def)
  have c: "cooldown_cap DefaultConfig = 78 * second"
    by (simp add: cooldown_cap_def delay_cap_def policy_Clamp_def Let_def DefaultConfig_def)
  note r = breaker_recovers [where ops = ?ops and c = DefaultConfig and now = ?now and now' = 0 and ts = "[6 + 78 * second]", OF refl refl _ _ _ _ _ refl]
  have a: "fst (Allow ?now 0 ?b)" using r by (simp add: k c) (simp add: DefaultConfig_def)
  then have "br_halfOpenAt (snd (Allow ?now 0 ?b)) = ?now" using o by (auto simp: Allow_def split: if_splits)
  then have "br_state (successes [6 + 78 * second] (snd (Allow ?now 0 ?b))) = StateClosed"
    using r a by (simp add: k c) (simp add: DefaultConfig_def)
  with o a show ?thesis by (simp add: Let_def)
qed

subsection \<open>The registry\<close>

text \<open>
  One breaker per key, never more than the bound, and every address it hands out is its own:
  a breaker that is evicted is not shared with the one that takes its place.
\<close>

definition registry_inv :: "breaker_registry \<Rightarrow> bool" where
  "registry_inv r =
     (distinct (map fst (rg_entries r)) \<and> distinct (map snd (rg_entries r)) \<and>
      fst ` set (rg_entries r) \<subseteq> set (rg_order r) \<and>
      snd ` set (rg_entries r) \<subseteq> {..<length (rg_heap r)} \<and>
      0 < rg_maxEntries r \<and> length (rg_entries r) \<le> rg_maxEntries r)"

lemma length_filter_key:
  "distinct (map fst es) \<Longrightarrow> k \<in> fst ` set es \<Longrightarrow> Suc (length (filter (\<lambda>e. fst e \<noteq> k) es)) = length es"
proof (induction es)
  case (Cons e es)
  show ?case
  proof (cases "fst e = k")
    case True
    have "fst e \<notin> fst ` set es" using Cons.prems(1) by simp
    then have "filter (\<lambda>e. fst e \<noteq> k) es = es" using True by (intro filter_True) (metis imageI)
    with True show ?thesis by simp
  next
    case False
    then show ?thesis using Cons by auto
  qed
qed simp

lemma evict_spec:
  assumes "distinct (map fst es)" "fst ` set es \<subseteq> set ks" "es \<noteq> []" "evict ks es = (ks', es')"
  shows "Suc (length es') = length es \<and> distinct (map fst es') \<and> set es' \<subseteq> set es \<and>
     fst ` set es' \<subseteq> set ks' \<and> (distinct (map snd es) \<longrightarrow> distinct (map snd es'))"
  using assms
proof (induction ks es rule: evict.induct)
  case (2 k ks es)
  show ?case
  proof (cases "map_of es k")
    case None
    then have "k \<notin> fst ` set es" by (simp add: map_of_eq_None_iff)
    with 2 None show ?thesis by auto
  next
    case (Some a)
    then have k: "k \<in> fst ` set es" by (metis domI dom_map_of_conv_image_fst)
    from Some 2 have r: "ks' = ks" "es' = filter (\<lambda>e. fst e \<noteq> k) es" by auto
    have "Suc (length es') = length es" unfolding r by (rule length_filter_key [OF 2(2) k])
    moreover have "fst ` set es' \<subseteq> set ks" using 2(3) unfolding r by fastforce
    ultimately show ?thesis using 2(2) unfolding r by (auto simp: distinct_map_filter)
  qed
qed auto

lemma registry_Get_inv:
  assumes inv: "registry_inv r" and get: "registry_Get kind target r = (a, r')"
  shows "registry_inv r' \<and> a < length (rg_heap r') \<and> map_of (rg_entries r') (registryKey kind target) = Some a"
proof (cases "map_of (rg_entries r) (registryKey kind target)")
  case (Some x)
  then have "x \<in> snd ` set (rg_entries r)" by (metis imageI map_of_SomeD snd_conv)
  with Some assms show ?thesis by (auto simp: registry_Get_def registry_inv_def)
next
  case None
  let ?k = "registryKey kind target"
  obtain ks es where e: "(if 0 < rg_maxEntries r \<and> rg_maxEntries r \<le> length (rg_entries r)
      then evict (rg_order r) (rg_entries r) else (rg_order r, rg_entries r)) = (ks, es)" by fastforce
  have r': "a = length (rg_heap r)" "r' = r\<lparr>rg_heap := rg_heap r @ [breaker_New (rg_cfg r)],
      rg_entries := es @ [(?k, a)], rg_order := ks @ [?k]\<rparr>"
    using get None e by (auto simp: registry_Get_def Let_def split: prod.splits)
  have es: "length es < rg_maxEntries r \<and> distinct (map fst es) \<and> set es \<subseteq> set (rg_entries r) \<and>
      fst ` set es \<subseteq> set ks \<and> distinct (map snd es)"
  proof (cases "rg_maxEntries r \<le> length (rg_entries r)")
    case True
    then have "evict (rg_order r) (rg_entries r) = (ks, es)" "rg_entries r \<noteq> []"
      using e inv by (auto simp: registry_inv_def)
    then show ?thesis using evict_spec [of "rg_entries r" "rg_order r" ks es] inv by (auto simp: registry_inv_def)
  next
    case False
    then show ?thesis using e inv by (auto simp: registry_inv_def)
  qed
  moreover have "?k \<notin> fst ` set es" using None es by (auto simp: map_of_eq_None_iff)
  moreover have "snd ` set es \<subseteq> {..<length (rg_heap r)}" using es inv unfolding registry_inv_def by (meson image_mono order_trans)
  ultimately show ?thesis using inv unfolding r'
    by (auto simp: registry_inv_def map_add_Some_iff map_of_eq_None_iff [THEN iffD2] less_Suc_eq)
qed

end
