(* ===== verification/Idempotency.thy ===== *)
theory Idempotency
  imports Prelude "HOL-Library.AList"
begin

text \<open>
  Idempotency keys (\<open>idempotency/service.go\<close>, \<open>idempotency/memory.go\<close>): a reservation of a
  key, its completion, its release and the sweep of expired records, over the in-process
  store. The clock reading of each call is an argument. A Go map is an association list.
\<close>

datatype decision_kind = DecisionReserved | DecisionReplay | DecisionConflict

datatype record_status = RecordInFlight | RecordCompleted

definition defaultInFlightLock :: dur where "defaultInFlightLock = 5 * minute"
definition idem_defaultTTL :: dur where "idem_defaultTTL = 24 * hour"

record idem_scope =
  sc_TenantID :: string
  sc_AppID :: string
  sc_Operation :: string
  sc_Key :: string

text \<open>\<open>strings.Join(parts, "\x00")\<close>.\<close>

definition CacheKey :: "idem_scope \<Rightarrow> string" where
  "CacheKey s = sc_TenantID s @ CHR 0x00 # sc_AppID s @ CHR 0x00 # sc_Operation s @ CHR 0x00 # sc_Key s"

record idem_record =
  ir_Scope :: idem_scope
  ir_RequestHash :: string
  ir_ResourceID :: string
  ir_HTTPStatus :: int
  ir_Status :: record_status
  ir_LockedUntil :: gotime
  ir_CreatedAt :: gotime
  ir_UpdatedAt :: gotime
  ir_ExpiresAt :: gotime

record idem_decision =
  id_Kind :: decision_kind
  id_Record :: idem_record

record idem_store =
  is_ttl :: dur
  is_records :: "(string \<times> idem_record) list"

definition new_idem_store :: "dur \<Rightarrow> idem_store" where
  "new_idem_store ttl = \<lparr>is_ttl = (if ttl \<le> 0 then idem_defaultTTL else ttl), is_records = []\<rparr>"

text \<open>The record that still governs the key: not expired, and not a stale in-flight lock.\<close>

definition governs :: "gotime \<Rightarrow> idem_record \<Rightarrow> bool" where
  "governs now r =
     (now < ir_ExpiresAt r \<and>
      (let lockLive = (IsZero (ir_LockedUntil r) \<or> now < ir_LockedUntil r)
       in ir_Status r \<noteq> RecordInFlight \<or> lockLive))"

definition idem_Reserve :: "gotime \<Rightarrow> idem_scope \<Rightarrow> string \<Rightarrow> idem_store \<Rightarrow> idem_decision \<times> idem_store" where
  "idem_Reserve now scope requestHash m =
     (let key = CacheKey scope;
          fresh = \<lparr>ir_Scope = scope, ir_RequestHash = requestHash, ir_ResourceID = [], ir_HTTPStatus = 0,
                   ir_Status = RecordInFlight, ir_LockedUntil = now + defaultInFlightLock,
                   ir_CreatedAt = now, ir_UpdatedAt = now, ir_ExpiresAt = now + is_ttl m\<rparr>;
          reserve = (\<lparr>id_Kind = DecisionReserved, id_Record = fresh\<rparr>,
                     m\<lparr>is_records := AList.update key fresh (is_records m)\<rparr>)
      in (case map_of (is_records m) key of
            None \<Rightarrow> reserve
          | Some r \<Rightarrow>
              if governs now r then
                (if ir_RequestHash r \<noteq> requestHash
                 then (\<lparr>id_Kind = DecisionConflict, id_Record = r\<rparr>, m)
                 else (\<lparr>id_Kind = DecisionReplay, id_Record = r\<rparr>, m))
              else reserve))"

definition idem_Complete :: "gotime \<Rightarrow> idem_scope \<Rightarrow> string \<Rightarrow> string \<Rightarrow> int \<Rightarrow> idem_store \<Rightarrow> idem_store" where
  "idem_Complete now scope requestHash resourceID httpStatus m =
     (let key = CacheKey scope in
      case map_of (is_records m) key of
        None \<Rightarrow> m
      | Some r \<Rightarrow>
          if ir_RequestHash r \<noteq> requestHash then m
          else m\<lparr>is_records := AList.update key
                 (r\<lparr>ir_ResourceID := resourceID, ir_HTTPStatus := httpStatus, ir_Status := RecordCompleted,
                    ir_LockedUntil := 0, ir_UpdatedAt := now\<rparr>) (is_records m)\<rparr>)"

definition idem_Release :: "idem_scope \<Rightarrow> string \<Rightarrow> idem_store \<Rightarrow> idem_store" where
  "idem_Release scope requestHash m =
     (let key = CacheKey scope in
      case map_of (is_records m) key of
        None \<Rightarrow> m
      | Some r \<Rightarrow>
          if ir_RequestHash r \<noteq> requestHash then m
          else m\<lparr>is_records := AList.delete key (is_records m)\<rparr>)"

definition idem_Sweep :: "gotime \<Rightarrow> idem_store \<Rightarrow> int \<times> idem_store" where
  "idem_Sweep now m =
     (let keep = filter (\<lambda>(k, r). now < ir_ExpiresAt r) (is_records m)
      in (int (length (is_records m)) - int (length keep), m\<lparr>is_records := keep\<rparr>))"

end
