(* ===== verification/IdempotencyProps.thy ===== *)
theory IdempotencyProps
  imports Idempotency
begin

text \<open>
  What an idempotency key guarantees: while a reservation holds, nobody else gets the key, and
  a completed one is replayed with its result. Shown for every sequence of calls of any number
  of callers, at clock readings within the time the reservation holds.
\<close>

declare map_of_eq_Some_iff [simp del]

subsection \<open>Runs of calls\<close>

datatype idem_op =
    OpIdemReserve gotime idem_scope string
  | OpIdemComplete gotime idem_scope string string int
  | OpIdemRelease idem_scope string
  | OpIdemSweep gotime

fun idem_step :: "idem_op \<Rightarrow> idem_store \<Rightarrow> idem_store" where
  "idem_step (OpIdemReserve t sc h) m = snd (idem_Reserve t sc h m)"
| "idem_step (OpIdemComplete t sc h rid st) m = idem_Complete t sc h rid st m"
| "idem_step (OpIdemRelease sc h) m = idem_Release sc h m"
| "idem_step (OpIdemSweep t) m = snd (idem_Sweep t m)"

text \<open>Calls read the clock before \<open>limit\<close>, and the owner (key and hash) does not release.\<close>

fun quiet :: "string \<Rightarrow> string \<Rightarrow> gotime \<Rightarrow> idem_op \<Rightarrow> bool" where
  "quiet key h limit (OpIdemReserve t sc h') = (t < limit)"
| "quiet key h limit (OpIdemComplete t sc h' rid st) = True"
| "quiet key h limit (OpIdemRelease sc h') = (CacheKey sc = key \<longrightarrow> h' \<noteq> h)"
| "quiet key h limit (OpIdemSweep t) = (t < limit)"

text \<open>Moreover the owner does not complete a second time.\<close>

fun settled :: "string \<Rightarrow> string \<Rightarrow> gotime \<Rightarrow> idem_op \<Rightarrow> bool" where
  "settled key h limit (OpIdemComplete t sc h' rid st) = (CacheKey sc = key \<longrightarrow> h' \<noteq> h)"
| "settled key h limit op = quiet key h limit op"

definition held :: "string \<Rightarrow> string \<Rightarrow> gotime \<Rightarrow> gotime \<Rightarrow> idem_store \<Rightarrow> bool" where
  "held key h limit expiry m =
     (distinct (map fst (is_records m)) \<and>
      (\<exists>r. map_of (is_records m) key = Some r \<and> ir_RequestHash r = h \<and> expiry \<le> ir_ExpiresAt r \<and>
           (ir_Status r = RecordCompleted \<or> ir_LockedUntil r = 0 \<or> limit \<le> ir_LockedUntil r)))"

definition completed :: "string \<Rightarrow> idem_record \<Rightarrow> gotime \<Rightarrow> idem_store \<Rightarrow> bool" where
  "completed key r limit m =
     (distinct (map fst (is_records m)) \<and> map_of (is_records m) key = Some r \<and>
      ir_Status r = RecordCompleted \<and> limit \<le> ir_ExpiresAt r)"

lemma map_of_filter_key:
  "distinct (map fst m) \<Longrightarrow> map_of (filter P m) k =
     (case map_of m k of None \<Rightarrow> None | Some v \<Rightarrow> if P (k, v) then Some v else None)"
  by (induction m) (auto simp: map_of_eq_None_iff image_iff split: option.splits)

lemma distinct_fst_filter: "distinct (map fst m) \<Longrightarrow> distinct (map fst (filter P m))"
  by (simp add: distinct_map_filter)

lemma idem_step_held:
  assumes "held key h limit expiry m" and "limit \<le> expiry" and "quiet key h limit op"
  shows "held key h limit expiry (idem_step op m)"
proof (cases op)
  case (OpIdemReserve t sc h')
  then show ?thesis using assms
    by (auto simp: held_def idem_Reserve_def governs_def Let_def AList.update_conv' AList.distinct_update
        split: option.splits)
next
  case (OpIdemComplete t sc h' rid st)
  then show ?thesis using assms
    by (auto simp: held_def idem_Complete_def Let_def AList.update_conv' AList.distinct_update
        split: option.splits)
next
  case (OpIdemRelease sc h')
  then show ?thesis using assms
    by (auto simp: held_def idem_Release_def Let_def AList.delete_conv' AList.distinct_delete
        split: option.splits)
next
  case (OpIdemSweep t)
  then show ?thesis using assms
    by (auto simp: held_def idem_Sweep_def Let_def map_of_filter_key distinct_fst_filter)
qed

lemma idem_step_completed:
  assumes "completed key r limit m" and "settled key (ir_RequestHash r) limit op"
  shows "completed key r limit (idem_step op m)"
proof (cases op)
  case (OpIdemReserve t sc h')
  then show ?thesis using assms
    by (auto simp: completed_def idem_Reserve_def governs_def Let_def AList.update_conv' AList.distinct_update
        split: option.splits)
next
  case (OpIdemComplete t sc h' rid st)
  then show ?thesis using assms
    by (auto simp: completed_def idem_Complete_def Let_def AList.update_conv' AList.distinct_update
        split: option.splits)
next
  case (OpIdemRelease sc h')
  then show ?thesis using assms
    by (auto simp: completed_def idem_Release_def Let_def AList.delete_conv' AList.distinct_delete
        split: option.splits)
next
  case (OpIdemSweep t)
  then show ?thesis using assms
    by (auto simp: completed_def idem_Sweep_def Let_def map_of_filter_key distinct_fst_filter
       )
qed

interpretation held_machine: guarded_machine idem_step "quiet key h limit"
    "\<lambda>m. limit \<le> expiry \<and> held key h limit expiry m" "\<lambda>s t. True"
  for key h limit expiry
  by unfold_locales (auto intro: idem_step_held)

interpretation completed_machine:
  guarded_machine idem_step "settled key (ir_RequestHash r) limit" "completed key r limit" "\<lambda>s t. True"
  for key r limit
  by unfold_locales (auto intro: idem_step_completed)

subsection \<open>Properties\<close>

lemma join_split:
  "x @ c # u = y @ c # v \<Longrightarrow> c \<notin> set x \<Longrightarrow> c \<notin> set y \<Longrightarrow> x = y \<and> u = v"
proof (induction x arbitrary: y)
  case Nil
  then show ?case by (cases y) auto
next
  case (Cons a x)
  then show ?case by (cases y) auto
qed

text \<open>The key of a scope names that scope alone, as long as its parts hold no NUL byte.\<close>

lemma CacheKey_inj:
  assumes "CacheKey a = CacheKey b"
    and "\<And>s. s \<in> {sc_TenantID a, sc_AppID a, sc_Operation a, sc_TenantID b, sc_AppID b, sc_Operation b} \<Longrightarrow>
           CHR 0x00 \<notin> set s"
  shows "a = b"
proof -
  from assms(1) have eq: "sc_TenantID a @ CHR 0x00 # (sc_AppID a @ CHR 0x00 # (sc_Operation a @ CHR 0x00 # sc_Key a)) =
      sc_TenantID b @ CHR 0x00 # (sc_AppID b @ CHR 0x00 # (sc_Operation b @ CHR 0x00 # sc_Key b))"
    by (simp add: CacheKey_def)
  have 1: "sc_TenantID a = sc_TenantID b \<and> sc_AppID a @ CHR 0x00 # (sc_Operation a @ CHR 0x00 # sc_Key a) =
      sc_AppID b @ CHR 0x00 # (sc_Operation b @ CHR 0x00 # sc_Key b)"
    by (rule join_split [OF eq]) (rule assms(2), simp)+
  have 2: "sc_AppID a = sc_AppID b \<and> sc_Operation a @ CHR 0x00 # sc_Key a = sc_Operation b @ CHR 0x00 # sc_Key b"
    by (rule join_split [OF conjunct2 [OF 1]]) (rule assms(2), simp)+
  have 3: "sc_Operation a = sc_Operation b \<and> sc_Key a = sc_Key b"
    by (rule join_split [OF conjunct2 [OF 2]]) (rule assms(2), simp)+
  show ?thesis using 1 2 3 by (cases a; cases b) auto
qed

lemma reserve_starts:
  assumes "distinct (map fst (is_records m))"
    and "idem_Reserve t0 sc h m = (d, m0)" "id_Kind d = DecisionReserved" "t0 \<noteq> 0 - defaultInFlightLock"
  shows "held (CacheKey sc) h (t0 + min defaultInFlightLock (is_ttl m)) (t0 + is_ttl m) m0"
  using assms
  by (auto simp: held_def idem_Reserve_def Let_def AList.update_conv' AList.distinct_update
      split: option.splits if_splits)

lemma held_decision:
  assumes "held (CacheKey sc) h limit expiry m" and "limit \<le> expiry" and "t < limit"
  shows "id_Kind (fst (idem_Reserve t sc h' m)) = (if h' = h then DecisionReplay else DecisionConflict)"
    and "snd (idem_Reserve t sc h' m) = m"
  using assms
  by (auto simp: held_def idem_Reserve_def governs_def Let_def split: option.splits if_splits)

lemma completed_decision:
  assumes "completed (CacheKey sc) r limit m" and "t < limit"
  shows "idem_Reserve t sc h' m =
    (\<lparr>id_Kind = (if h' = ir_RequestHash r then DecisionReplay else DecisionConflict), id_Record = r\<rparr>, m)"
  using assms
  by (auto simp: completed_def idem_Reserve_def governs_def Let_def)

text \<open>The store built by any sequence of calls keeps one record per key.\<close>

definition idem_reach :: "dur \<Rightarrow> idem_op list \<Rightarrow> idem_store" where
  "idem_reach ttl ops = fold idem_step ops (new_idem_store ttl)"

lemma idem_step_distinct:
  "distinct (map fst (is_records m)) \<Longrightarrow> distinct (map fst (is_records (idem_step op m)))"
  by (cases op) (auto simp: idem_Reserve_def idem_Complete_def idem_Release_def idem_Sweep_def Let_def
      AList.distinct_update AList.distinct_delete distinct_fst_filter split: option.splits)

interpretation idem_machine: machine idem_step "\<lambda>m. distinct (map fst (is_records m))"
  by unfold_locales (rule idem_step_distinct)

lemma idem_reach_distinct: "distinct (map fst (is_records (idem_reach ttl ops)))"
  unfolding idem_reach_def by (rule idem_machine.run_inv) (simp add: new_idem_store_def)

lemma reserve_then_complete:
  assumes "held (CacheKey sc) h limit expiry m"
  shows "\<exists>r. completed (CacheKey sc) r expiry (idem_Complete t sc h rid st m) \<and>
             ir_RequestHash r = h \<and> ir_ResourceID r = rid"
  using assms
  by (auto simp: held_def completed_def idem_Complete_def Let_def AList.update_conv' AList.distinct_update)

definition wit_scope :: idem_scope where
  "wit_scope = \<lparr>sc_TenantID = ''t'', sc_AppID = ''a'', sc_Operation = ''o'', sc_Key = ''k''\<rparr>"

text \<open>C27. A reservation excludes everybody else. In a store built by any sequence of calls, let a
  key be reserved at \<open>t0\<close>. Whatever calls other requests make after that, as long as the owner
  does not release it and the clock is before the lock deadline (five minutes) and the record's
  expiry, no other request is granted the key: the same payload is told to replay, a different
  one that it conflicts. Once the owner has completed, every later request with that payload
  before the record's expiry is answered with the completed record, so with the owner's
  resource.\<close>

theorem reservation_excludes:
  assumes "m = idem_reach ttl before" and "idem_Reserve t0 sc h m = (d, m0)" and "id_Kind d = DecisionReserved"
    and "0 \<le> t0" and "limit = t0 + min defaultInFlightLock (is_ttl m)"
    and "list_all (quiet (CacheKey sc) h limit) ops" and "m1 = fold idem_step ops m0"
  shows "(t < limit \<longrightarrow>
      id_Kind (fst (idem_Reserve t sc h' m1)) = (if h' = h then DecisionReplay else DecisionConflict)) \<and>
    (m2 = fold idem_step rest (idem_Complete tc sc h rid st m1) \<and>
     list_all (settled (CacheKey sc) h (t0 + is_ttl m)) rest \<and> t < t0 + is_ttl m \<longrightarrow>
       (\<exists>r. idem_Reserve t sc h m2 = (\<lparr>id_Kind = DecisionReplay, id_Record = r\<rparr>, m2) \<and> ir_ResourceID r = rid))"
proof (intro conjI impI)
  have le: "limit \<le> t0 + is_ttl m" using assms(5) by simp
  have "held (CacheKey sc) h limit (t0 + is_ttl m) m0"
    using reserve_starts [OF _ assms(2,3)] idem_reach_distinct assms(1,4,5)
    by (auto simp: defaultInFlightLock_def)
  then have held: "held (CacheKey sc) h limit (t0 + is_ttl m) m1"
    using held_machine.guarded_run le assms(6,7) by blast
  show "id_Kind (fst (idem_Reserve t sc h' m1)) = (if h' = h then DecisionReplay else DecisionConflict)"
    if "t < limit" using held_decision held le that by blast
  assume later: "m2 = fold idem_step rest (idem_Complete tc sc h rid st m1) \<and>
     list_all (settled (CacheKey sc) h (t0 + is_ttl m)) rest \<and> t < t0 + is_ttl m"
  obtain r where r: "completed (CacheKey sc) r (t0 + is_ttl m) (idem_Complete tc sc h rid st m1)"
    "ir_RequestHash r = h" "ir_ResourceID r = rid" using reserve_then_complete [OF held] by blast
  then have "completed (CacheKey sc) r (t0 + is_ttl m) m2"
    using completed_machine.guarded_run later by blast
  then show "\<exists>r. idem_Reserve t sc h m2 = (\<lparr>id_Kind = DecisionReplay, id_Record = r\<rparr>, m2) \<and> ir_ResourceID r = rid"
    using completed_decision later r by auto
qed

lemma reservation_excludes_witness:
  "(let m = idem_reach 0 []; r = idem_Reserve 5 wit_scope ''h'' m;
        m1 = idem_step (OpIdemReserve 6 wit_scope ''g'') (snd r);
        m2 = idem_Complete 7 wit_scope ''h'' ''job_1'' 202 m1
    in id_Kind (fst r) = DecisionReserved \<and>
       id_Kind (fst (idem_Reserve 8 wit_scope ''h'' m1)) = DecisionReplay \<and>
       (\<exists>rec. idem_Reserve hour wit_scope ''h'' m2 = (\<lparr>id_Kind = DecisionReplay, id_Record = rec\<rparr>, m2) \<and>
          ir_ResourceID rec = ''job_1''))"
proof -
  let ?m = "idem_reach 0 []"
  let ?r = "idem_Reserve 5 wit_scope ''h'' ?m"
  have ttl: "is_ttl ?m = 24 * hour" by code_simp
  have k: "id_Kind (fst ?r) = DecisionReserved" by code_simp
  show ?thesis
    unfolding Let_def
    using k reservation_excludes [where before = "[]" and ttl = 0 and rest = "[]" and tc = 7 and rid = "''job_1''" and
        st = 202 and ops = "[OpIdemReserve 6 wit_scope ''g'']" and sc = wit_scope and h = "''h''" and h' = "''h''" and
        d = "fst ?r" and ?m0.0 = "snd ?r", OF refl _ k _ refl _ refl]
    by (auto simp: ttl defaultInFlightLock_def)
qed

end
