(* ===== verification/JobService.thy ===== *)
theory JobService
  imports JobMachine Idempotency JobCore
begin

text \<open>
  The gRPC job service (\<open>grpcapi/server.go\<close>): each handler whole, over the in-memory job store
  and the idempotency store. It is the composition of the role table, the payload policy, the
  idempotency keys and the job store, in the order the code calls them.

  What is not under \<open>src/\<close> or not modelled is an \<open>svc_env\<close> argument: \<open>encoding/json\<close>
  (parsing, the hash of a value, the length of its output), the CEL enforcer, whether the
  executor accepts a job or a cancellation, and random trace ids. The idempotency store reads
  the clock once per call (\<open>t1\<close>, then \<open>t2\<close>). The in-memory stores never return an error, so
  the \<open>Internal\<close> branches for them do not appear. A response keeps its JSON values unrendered.
\<close>

subsection \<open>Requests, responses, configuration\<close>

datatype grpc_code =
    InvalidArgument
  | Unauthenticated
  | PermissionDenied
  | AlreadyExists
  | Internal
  | NotFound
  | Unavailable
  | Canceled
  | DeadlineExceeded

record svc_config =
  sv_apiVersion :: string
  sv_appSecret :: string
  sv_tenantID :: string
  sv_appID :: string
  sv_actorRole :: string
  sv_mfa :: bool

record svc_env =
  se_parse :: "string \<Rightarrow> json option"
  se_hash :: "json \<Rightarrow> string"
  se_marshal_length :: "json \<Rightarrow> int"
  se_abac :: "(string \<Rightarrow> string \<Rightarrow> string \<Rightarrow> string \<Rightarrow> bool) option" \<comment> \<open>tenant, app, role, action\<close>
  se_enqueue :: "job \<Rightarrow> bool" \<comment> \<open>\<open>EnqueueJob\<close> returns no error\<close>
  se_cancel :: "job \<Rightarrow> string \<Rightarrow> bool"
  se_traceID :: string
  se_redactURL :: "string \<Rightarrow> string"

record svc_world =
  sw_jobs :: memory_store
  sw_idem :: idem_store

record job_spec_msg =
  jm_Target :: string
  jm_CommandType :: string
  jm_ConversationID :: string
  jm_TemplateID :: string
  jm_InputJson :: string
  jm_OptionsJson :: string
  jm_CallbacksJson :: string
  jm_ContextJson :: string

record create_job_request =
  cj_ApiVersion :: string
  cj_IdempotencyKey :: string
  cj_Client :: "jc_client option"
  cj_Job :: "job_spec_msg option"

record job_mutation_request =
  jr_ApiVersion :: string
  jr_JobId :: string
  jr_IdempotencyKey :: string
  jr_Reason :: string
  jr_MetadataJson :: string

record job_response =
  rs_ApiVersion :: string
  rs_JobId :: string
  rs_IdempotentReplay :: bool
  rs_Status :: string
  rs_Target :: string
  rs_Result :: json
  rs_Metadata :: jmap
  rs_EventsUrl :: string

definition is_digit10 :: "char \<Rightarrow> bool" where
  "is_digit10 c = (CHR ''0'' \<le> c \<and> c \<le> CHR ''9'')"

definition apiVersionPattern :: "string \<Rightarrow> bool" where
  "apiVersionPattern s =
     (length s = 10 \<and> s ! 4 = CHR ''-'' \<and> s ! 7 = CHR ''-'' \<and>
      list_all is_digit10 (take 4 s) \<and> list_all is_digit10 (take 2 (drop 5 s)) \<and> list_all is_digit10 (drop 8 s))"

definition idempotencyKeyPattern :: "string \<Rightarrow> bool" where
  "idempotencyKeyPattern s =
     (16 \<le> length s \<and> length s \<le> 128 \<and> list_all (\<lambda>c. is_alnum c \<or> c \<in> set ''._:-'') s)"

definition svc_targetPattern :: "string \<Rightarrow> bool" where
  "svc_targetPattern s =
     (s \<noteq> [] \<and> is_lower_digit (hd s) \<and> length (tl s) \<le> 127 \<and>
      list_all (\<lambda>c. is_lower_digit c \<or> c \<in> set ''._-'') (tl s))"

subsection \<open>Authorization\<close>

text \<open>\<open>strings.Fields\<close>; \<open>w\<close> collects the field being read.\<close>

function fields_from :: "string \<Rightarrow> string \<Rightarrow> string list" where
  "fields_from w s =
     (case s of
        [] \<Rightarrow> if w = [] then [] else [w]
      | c # r \<Rightarrow>
          (case find (\<lambda>x. x \<noteq> [] \<and> prefix x s) space_seqs of
             None \<Rightarrow> fields_from (w @ [c]) r
           | Some x \<Rightarrow> (if w = [] then [] else [w]) @ fields_from [] (drop (length x) s)))"
  by pat_completeness auto
termination
proof (relation "measure (\<lambda>(w, s). length s)", goal_cases)
  case (3 w s c r x)
  then have "x \<noteq> []" by (auto simp: find_Some_iff)
  with 3(1) show ?case by (simp add: Suc_le_eq)
qed auto

declare fields_from.simps [simp del]

definition validBearerToken :: "string \<Rightarrow> string \<Rightarrow> bool" where
  "validBearerToken header expectedSecret =
     (let parts = fields_from [] header in
      if length parts \<noteq> 2 \<or> \<not> EqualFold (parts ! 0) ''Bearer'' then False
      else parts ! 1 = expectedSecret)"

text \<open>The \<open>authorization\<close> values of the incoming metadata; \<open>None\<close> without metadata.\<close>

definition svc_authenticate :: "svc_config \<Rightarrow> string list option \<Rightarrow> bool" where
  "svc_authenticate c headers =
     (case headers of None \<Rightarrow> False | Some hs \<Rightarrow> list_ex (\<lambda>h. validBearerToken h (sv_appSecret c)) hs)"

definition mfa_actions :: "string list" where
  "mfa_actions = [''secret:rotate'', ''data:erase'', ''auth:pat:issue'', ''role:manage'', ''region:manage'',
     ''data:export'', ''rate_limit:manage'']"

definition svc_authorize :: "svc_env \<Rightarrow> svc_config \<Rightarrow> string list option \<Rightarrow> string \<Rightarrow> grpc_code option" where
  "svc_authorize env c headers action =
     (if \<not> svc_authenticate c headers then Some Unauthenticated
      else if \<not> RoleAllows (sv_actorRole c) action then Some PermissionDenied
      else if sv_mfa c \<and> action \<in> set mfa_actions then Some PermissionDenied
      else (case se_abac env of
              None \<Rightarrow> None
            | Some allow \<Rightarrow>
                if allow (sv_tenantID c) (sv_appID c) (sv_actorRole c) action then None else Some PermissionDenied))"

subsection \<open>Helpers of the handlers\<close>

definition isSupportedAPIVersion :: "svc_config \<Rightarrow> string \<Rightarrow> bool" where
  "isSupportedAPIVersion c v = (apiVersionPattern v \<and> v = sv_apiVersion c)"

definition resolveAPIVersion :: "svc_config \<Rightarrow> string \<Rightarrow> grpc_code + string" where
  "resolveAPIVersion c requested =
     (let v = trim_space requested in
      if v = [] then Inr (sv_apiVersion c)
      else if \<not> isSupportedAPIVersion c v then Inl InvalidArgument
      else Inr v)"

text \<open>\<open>Inr None\<close> is the nil map (an empty string, or JSON \<open>null\<close>).\<close>

definition decodeJSONObject :: "svc_env \<Rightarrow> string \<Rightarrow> grpc_code + jmap option" where
  "decodeJSONObject env raw =
     (let r = trim_space raw in
      if r = [] then Inr None
      else (case se_parse env r of
              Some (JObj m) \<Rightarrow> Inr (Some m)
            | Some JNull \<Rightarrow> Inr None
            | _ \<Rightarrow> Inl InvalidArgument))"

definition RedactCallbacks :: "(string \<Rightarrow> string) \<Rightarrow> jmap \<Rightarrow> jmap" where
  "RedactCallbacks redactURL m =
     map (\<lambda>(k, v). (k, if k = ''webhook_url'' then (case v of JStr t \<Rightarrow> JStr (redactURL t) | _ \<Rightarrow> v) else v)) m"

definition opt_field :: "string \<Rightarrow> jmap option \<Rightarrow> jmap" where
  "opt_field k m = (case m of None \<Rightarrow> [] | Some kv \<Rightarrow> [(k, JObj kv)])"

definition str_field :: "string \<Rightarrow> string \<Rightarrow> jmap" where
  "str_field k v = (if v \<noteq> [] then [(k, JStr v)] else [])"

definition jobToResponse :: "svc_env \<Rightarrow> job \<Rightarrow> bool \<Rightarrow> job_response" where
  "jobToResponse env j replay =
     \<lparr>rs_ApiVersion = job_APIVersion j, rs_JobId = job_ID j, rs_IdempotentReplay = replay,
      rs_Status = status_string (job_Status j), rs_Target = job_Target j, rs_Result = job_Result j,
      rs_Metadata =
        [(''command_type'', JStr (job_CommandType j)), (''app_id'', JStr (job_AppID j)),
         (''tenant_id'', JStr (job_TenantID j))] @
        str_field ''conversation_id'' (job_ConversationID j) @ str_field ''template_id'' (job_TemplateID j) @
        opt_field ''client'' (job_Client j) @ opt_field ''input'' (job_Input j) @
        opt_field ''options'' (job_Options j) @
        opt_field ''callbacks'' (map_option (RedactCallbacks (se_redactURL env)) (job_Callbacks j)) @
        opt_field ''context'' (job_Context j) @ str_field ''retry_of'' (job_RetryOf j),
      rs_EventsUrl = ''/v1/jobs/'' @ job_ID j @ ''/events''\<rparr>"

definition svc_loadJob :: "svc_config \<Rightarrow> string \<Rightarrow> memory_store \<Rightarrow> grpc_code + job" where
  "svc_loadJob c ident m =
     (let i = trim_space ident in
      if i = [] then Inl InvalidArgument
      else (case GetScoped i (sv_tenantID c) (sv_appID c) m of None \<Rightarrow> Inl NotFound | Some j \<Rightarrow> Inr j))"

definition replayJob :: "svc_env \<Rightarrow> idem_record \<Rightarrow> memory_store \<Rightarrow> grpc_code + job_response" where
  "replayJob env r m =
     (if ir_ResourceID r = [] then Inl AlreadyExists
      else (case ms_jobs m (ir_ResourceID r) of
              None \<Rightarrow> Inl Internal
            | Some j \<Rightarrow> Inr (jobToResponse env j True)))"

definition svc_scope :: "svc_config \<Rightarrow> string \<Rightarrow> string \<Rightarrow> idem_scope" where
  "svc_scope c operation key =
     \<lparr>sc_TenantID = sv_tenantID c, sc_AppID = sv_appID c, sc_Operation = operation, sc_Key = key\<rparr>"

definition canonicalMutationHash :: "svc_env \<Rightarrow> string \<Rightarrow> string \<Rightarrow> job_mutation_request \<Rightarrow> string" where
  "canonicalMutationHash env operation resourceID req =
     (let raw = trim_space (jr_MetadataJson req);
          metadata = (if raw = [] then JNull
                      else (case se_parse env raw of Some (JObj m) \<Rightarrow> JObj m | _ \<Rightarrow> JNull))
      in se_hash env (JObj [(''operation'', JStr operation), (''resource_id'', JStr resourceID),
           (''api_version'', JStr (trim_space (jr_ApiVersion req))),
           (''job_id'', JStr (trim_space (jr_JobId req))),
           (''reason'', JStr (trim_space (jr_Reason req))), (''metadata'', metadata)]))"

definition reserveMutation ::
  "svc_env \<Rightarrow> svc_config \<Rightarrow> gotime \<Rightarrow> string \<Rightarrow> string \<Rightarrow> job_mutation_request \<Rightarrow> idem_store
   \<Rightarrow> (grpc_code + idem_scope \<times> idem_record \<times> bool) \<times> idem_store" where
  "reserveMutation env c t operation resourceID req m =
     (let jobID = trim_space (jr_JobId req); version = trim_space (jr_ApiVersion req);
          key = trim_space (jr_IdempotencyKey req); scope = svc_scope c operation key
      in if jobID \<noteq> [] \<and> jobID \<noteq> resourceID then (Inl InvalidArgument, m)
         else if version \<noteq> [] \<and> \<not> isSupportedAPIVersion c version then (Inl InvalidArgument, m)
         else if key = [] then (Inl InvalidArgument, m)
         else if \<not> idempotencyKeyPattern key then (Inl InvalidArgument, m)
         else
           (case idem_Reserve t scope (canonicalMutationHash env operation resourceID req) m of
              (d, m') \<Rightarrow>
                (case id_Kind d of
                   DecisionConflict \<Rightarrow> (Inl AlreadyExists, m')
                 | DecisionReplay \<Rightarrow> (Inr (scope, id_Record d, True), m')
                 | DecisionReserved \<Rightarrow> (Inr (scope, id_Record d, False), m'))))"

subsection \<open>Create\<close>

text \<open>
  Everything \<open>CreateJob\<close> checks before it touches a store: the version, the key, the client,
  the specification and the decoded maps.
\<close>

definition create_checks ::
  "svc_env \<Rightarrow> svc_config \<Rightarrow> create_job_request \<Rightarrow> grpc_code + (string \<times> string \<times> jc_client \<times> jc_spec)" where
  "create_checks env c req =
     (case resolveAPIVersion c (cj_ApiVersion req) of
        Inl e \<Rightarrow> Inl e
      | Inr version \<Rightarrow>
          let key = trim_space (cj_IdempotencyKey req) in
          if key = [] then Inl InvalidArgument
          else if \<not> idempotencyKeyPattern key then Inl InvalidArgument
          else
            (case (cj_Client req, cj_Job req) of
               (Some client, Some spec) \<Rightarrow>
                 if \<not> svc_targetPattern (trim_space (jm_Target spec)) then Inl InvalidArgument
                 else if \<not> svc_targetPattern (trim_space (jm_CommandType spec)) then Inl InvalidArgument
                 else if trim_space (cl_AppID client) = [] then Inl InvalidArgument
                 else if trim_space (cl_AppVersion client) = [] then Inl InvalidArgument
                 else if trim_space (cl_SDKName client) = [] \<or> trim_space (cl_SDKVersion client) = [] then Inl InvalidArgument
                 else
                   (case decodeJSONObject env (jm_InputJson spec) of
                      Inl e \<Rightarrow> Inl e
                    | Inr None \<Rightarrow> Inl InvalidArgument
                    | Inr (Some inp) \<Rightarrow>
                        (case decodeJSONObject env (jm_OptionsJson spec) of
                           Inl e \<Rightarrow> Inl e
                         | Inr options \<Rightarrow>
                             (case decodeJSONObject env (jm_CallbacksJson spec) of
                                Inl e \<Rightarrow> Inl e
                              | Inr callbacks \<Rightarrow>
                                  (case decodeJSONObject env (jm_ContextJson spec) of
                                     Inl e \<Rightarrow> Inl e
                                   | Inr ctx \<Rightarrow>
                                       let sp = \<lparr>sp_Target = jm_Target spec, sp_CommandType = jm_CommandType spec,
                                                 sp_ConversationID = jm_ConversationID spec,
                                                 sp_TemplateID = jm_TemplateID spec, sp_Input = Some inp,
                                                 sp_Options = map_option (jdel ''provider_config'') options,
                                                 sp_Callbacks = callbacks, sp_Context = ctx, sp_ModelSettings = None\<rparr>
                                       in if ValidatePayload (se_marshal_length env) client sp \<noteq> None
                                          then Inl InvalidArgument
                                          else if ValidateModelSettings (trim_space (jm_Target spec)) None Map.empty \<noteq> None
                                          then Inl InvalidArgument
                                          else Inr (version, key, client, sp)))))
             | _ \<Rightarrow> Inl InvalidArgument))"

definition create_record :: "svc_env \<Rightarrow> svc_config \<Rightarrow> string \<Rightarrow> string \<Rightarrow> jc_client \<Rightarrow> jc_spec \<Rightarrow> create_request" where
  "create_record env c version key client sp =
     \<lparr>cr_APIVersion = version, cr_TenantID = sv_tenantID c, cr_AppID = sv_appID c, cr_IdempotencyKey = key,
      cr_Target = trim_space (sp_Target sp), cr_CommandType = trim_space (sp_CommandType sp),
      cr_Client = Some (ClientToMap client), cr_ConversationID = trim_space (sp_ConversationID sp),
      cr_TemplateID = trim_space (sp_TemplateID sp), cr_Input = sp_Input sp, cr_Options = sp_Options sp,
      cr_Callbacks = sp_Callbacks sp, cr_Context = sp_Context sp, cr_TraceID = se_traceID env,
      cr_RetryOf = [], cr_NotBefore = None, cr_AwaitingAttachments = False\<rparr>"

text \<open>Create, enqueue and complete: the tail \<open>CreateJob\<close> and \<open>RetryJob\<close> share.\<close>

definition create_and_enqueue ::
  "svc_env \<Rightarrow> gotime \<Rightarrow> idem_scope \<Rightarrow> string \<Rightarrow> create_request \<Rightarrow> svc_world \<Rightarrow> (grpc_code + job_response) \<times> svc_world" where
  "create_and_enqueue env t scope requestHash r w =
     (case Create r (sw_jobs w) of
        (m, j) \<Rightarrow>
          if \<not> se_enqueue env j then
            (Inl Unavailable,
             w\<lparr>sw_jobs := fst (UpdateStatus (job_ID j) StatusFailedRetryable m),
               sw_idem := idem_Release scope requestHash (sw_idem w)\<rparr>)
          else
            (Inr (jobToResponse env j False),
             w\<lparr>sw_jobs := m, sw_idem := idem_Complete t scope requestHash (job_ID j) 202 (sw_idem w)\<rparr>))"

definition CreateJob ::
  "svc_env \<Rightarrow> svc_config \<Rightarrow> string list option \<Rightarrow> gotime \<Rightarrow> gotime \<Rightarrow> create_job_request \<Rightarrow> svc_world
   \<Rightarrow> (grpc_code + job_response) \<times> svc_world" where
  "CreateJob env c headers t1 t2 req w =
     (case svc_authorize env c headers ''job:create'' of
        Some e \<Rightarrow> (Inl e, w)
      | None \<Rightarrow>
          (case create_checks env c req of
             Inl e \<Rightarrow> (Inl e, w)
           | Inr (version, key, client, sp) \<Rightarrow>
               let hash = CanonicalCreateHash (se_hash env) version client sp;
                   scope = svc_scope c ''create_job'' key
               in (case idem_Reserve t1 scope hash (sw_idem w) of
                     (d, m) \<Rightarrow>
                       let w1 = w\<lparr>sw_idem := m\<rparr> in
                       (case id_Kind d of
                          DecisionConflict \<Rightarrow> (Inl AlreadyExists, w1)
                        | DecisionReplay \<Rightarrow> (replayJob env (id_Record d) (sw_jobs w1), w1)
                        | DecisionReserved \<Rightarrow>
                            create_and_enqueue env t2 scope hash (create_record env c version key client sp) w1))))"

subsection \<open>The other handlers\<close>

definition GetJob ::
  "svc_env \<Rightarrow> svc_config \<Rightarrow> string list option \<Rightarrow> string \<Rightarrow> svc_world \<Rightarrow> grpc_code + job_response" where
  "GetJob env c headers jobID w =
     (case svc_authorize env c headers ''job:read'' of
        Some e \<Rightarrow> Inl e
      | None \<Rightarrow> (case svc_loadJob c jobID (sw_jobs w) of Inl e \<Rightarrow> Inl e | Inr j \<Rightarrow> Inr (jobToResponse env j False)))"

definition CancelJob ::
  "svc_env \<Rightarrow> svc_config \<Rightarrow> string list option \<Rightarrow> gotime \<Rightarrow> gotime \<Rightarrow> job_mutation_request \<Rightarrow> svc_world
   \<Rightarrow> (grpc_code + job_response) \<times> svc_world" where
  "CancelJob env c headers t1 t2 req w =
     (case svc_authorize env c headers ''job:cancel'' of
        Some e \<Rightarrow> (Inl e, w)
      | None \<Rightarrow>
          (case svc_loadJob c (jr_JobId req) (sw_jobs w) of
             Inl e \<Rightarrow> (Inl e, w)
           | Inr existing \<Rightarrow>
               (case reserveMutation env c t1 ''cancel_job'' (job_ID existing) req (sw_idem w) of
                  (Inl e, m) \<Rightarrow> (Inl e, w\<lparr>sw_idem := m\<rparr>)
                | (Inr (scope, r, replay), m) \<Rightarrow>
                    let w1 = w\<lparr>sw_idem := m\<rparr> in
                    if replay then (replayJob env r (sw_jobs w1), w1)
                    else
                      let reason = (if trim_space (jr_Reason req) = [] then ''caller_cancelled'' else trim_space (jr_Reason req));
                          released = w1\<lparr>sw_idem := idem_Release scope (ir_RequestHash r) (sw_idem w1)\<rparr>
                      in if \<not> se_cancel env existing reason then (Inl Unavailable, released)
                         else (case UpdateStatus (job_ID existing) StatusCanceled (sw_jobs w1) of
                                 (m', Inl e) \<Rightarrow> (Inl Internal, released)
                               | (m', Inr (None, f)) \<Rightarrow> (Inl NotFound, released)
                               | (m', Inr (Some j, f)) \<Rightarrow>
                                   (Inr (jobToResponse env j False),
                                    w1\<lparr>sw_jobs := m', sw_idem := idem_Complete t2 scope (ir_RequestHash r) (job_ID j) 202 (sw_idem w1)\<rparr>)))))"

definition retry_record :: "svc_env \<Rightarrow> string \<Rightarrow> job \<Rightarrow> create_request" where
  "retry_record env key original =
     \<lparr>cr_APIVersion = job_APIVersion original, cr_TenantID = job_TenantID original, cr_AppID = job_AppID original,
      cr_IdempotencyKey = key, cr_Target = job_Target original, cr_CommandType = job_CommandType original,
      cr_Client = job_Client original, cr_ConversationID = job_ConversationID original,
      cr_TemplateID = job_TemplateID original, cr_Input = job_Input original, cr_Options = job_Options original,
      cr_Callbacks = job_Callbacks original, cr_Context = job_Context original, cr_TraceID = se_traceID env,
      cr_RetryOf = job_ID original, cr_NotBefore = None, cr_AwaitingAttachments = False\<rparr>"

definition RetryJob ::
  "svc_env \<Rightarrow> svc_config \<Rightarrow> string list option \<Rightarrow> gotime \<Rightarrow> gotime \<Rightarrow> job_mutation_request \<Rightarrow> svc_world
   \<Rightarrow> (grpc_code + job_response) \<times> svc_world" where
  "RetryJob env c headers t1 t2 req w =
     (case svc_authorize env c headers ''job:retry'' of
        Some e \<Rightarrow> (Inl e, w)
      | None \<Rightarrow>
          (case svc_loadJob c (jr_JobId req) (sw_jobs w) of
             Inl e \<Rightarrow> (Inl e, w)
           | Inr original \<Rightarrow>
               (case reserveMutation env c t1 ''retry_job'' (job_ID original) req (sw_idem w) of
                  (Inl e, m) \<Rightarrow> (Inl e, w\<lparr>sw_idem := m\<rparr>)
                | (Inr (scope, r, replay), m) \<Rightarrow>
                    let w1 = w\<lparr>sw_idem := m\<rparr> in
                    if replay then (replayJob env r (sw_jobs w1), w1)
                    else create_and_enqueue env t2 scope (ir_RequestHash r) (retry_record env (sc_Key scope) original) w1)))"

text \<open>Ordering a page again on the way out (\<open>sortJobs\<close>, a stable sort).\<close>

definition sortJobs :: "job list \<Rightarrow> string \<Rightarrow> job list" where
  "sortJobs js sortParam =
     (if sortParam = [] \<or> sortParam = ''-created_at''
      then rev (sort_key (\<lambda>j. (job_CreatedAt j, job_ID j)) (rev js))
      else sort_key (\<lambda>j. (job_CreatedAt j, job_ID j)) js)"

record list_jobs_request =
  lj_Status :: string
  lj_Target :: string
  lj_Sort :: string
  lj_Limit :: int
  lj_Cursor :: string

text \<open>The result is the page and the next cursor.\<close>

definition svc_ListJobs ::
  "svc_env \<Rightarrow> svc_config \<Rightarrow> string list option \<Rightarrow> list_jobs_request \<Rightarrow> svc_world
   \<Rightarrow> grpc_code + (job_response list \<times> string)" where
  "svc_ListJobs env c headers req w =
     (case svc_authorize env c headers ''job:read'' of
        Some e \<Rightarrow> Inl e
      | None \<Rightarrow>
          let st = trim_space (lj_Status req); target = trim_space (lj_Target req); srt = trim_space (lj_Sort req);
              limit = (if lj_Limit req \<le> 0 then 100 else lj_Limit req)
          in if st \<noteq> [] \<and> \<not> KnownStatus (Status st) then Inl InvalidArgument
             else if target \<noteq> [] \<and> \<not> svc_targetPattern target then Inl InvalidArgument
             else if srt \<noteq> [] \<and> srt \<noteq> ''created_at'' \<and> srt \<noteq> ''-created_at'' then Inl InvalidArgument
             else if 100 < limit then Inl InvalidArgument
             else
               let js = sortJobs (ListJobs \<lparr>lf_TenantID = sv_tenantID c, lf_AppID = sv_appID c, lf_Status = st,
                          lf_Target = target, lf_Descending = (srt \<noteq> ''created_at''),
                          lf_AfterID = trim_space (lj_Cursor req), lf_Limit = limit + 1\<rparr> (sw_jobs w)) srt;
                   more = (limit < int (length js))
               in Inr (map (\<lambda>j. jobToResponse env j False) (if more then take (nat limit) js else js),
                       if more then job_ID (js ! (nat limit - 1)) else []))"

definition svc_ListJobEvents ::
  "svc_env \<Rightarrow> svc_config \<Rightarrow> string list option \<Rightarrow> string \<Rightarrow> int \<Rightarrow> int \<Rightarrow> svc_world
   \<Rightarrow> grpc_code + (event list \<times> string)" where
  "svc_ListJobEvents env c headers jobID after lim0 w =
     (case svc_authorize env c headers ''job:read'' of
        Some e \<Rightarrow> Inl e
      | None \<Rightarrow>
          (case svc_loadJob c jobID (sw_jobs w) of
             Inl e \<Rightarrow> Inl e
           | Inr j \<Rightarrow>
               if after < 0 then Inl InvalidArgument
               else
                 let limit = (if lim0 \<le> 0 then 100 else lim0) in
                 if 100 < limit then Inl InvalidArgument
                 else (case listEventsLocked (job_ID j) after (limit + 1) (sw_jobs w) of
                         None \<Rightarrow> Inl NotFound
                       | Some es \<Rightarrow>
                           Inr (if limit < int (length es)
                                then (take (nat limit) es, digits (evt_Sequence (es ! (nat limit - 1))))
                                else (es, [])))))"

definition isTerminalEvent :: "event \<Rightarrow> bool" where
  "isTerminalEvent e =
     ((case map_of (evt_Data e) ''status'' of Some (JStr raw) \<Rightarrow> TerminalStatus (Status raw) | _ \<Rightarrow> False) \<or>
      EventEndsJob (evt_Type e) (evt_Data e))"

text \<open>
  \<open>StreamJobEvents\<close> after its checks: what happens in each round of its loop is an input.
  \<open>Woken m f\<close>: \<open>WaitEvents\<close> returns and reads the store \<open>m\<close>; \<open>f\<close> is \<open>Some (k, e)\<close> when the
  \<open>Send\<close> of event \<open>k\<close> of the page fails with \<open>e\<close>. \<open>Idle g\<close>: the wait timed out and the job is
  read from \<open>g\<close> (\<open>None\<close>: \<open>Get\<close> fails). \<open>ContextDone d\<close>: the stream's context has ended, by its
  deadline if \<open>d\<close>, else cancelled. \<open>WaitFailed\<close>: \<open>WaitEvents\<close> fails otherwise.
  The result is what was sent and how the stream ended (\<open>None\<close>: it is still open after these rounds).
\<close>

definition streamPollLimit :: int where "streamPollLimit = 100"

datatype wake =
    Woken memory_store "(nat \<times> grpc_code) option"
  | Idle "memory_store option"
  | ContextDone bool
  | WaitFailed

text \<open>\<open>status.FromContextError\<close> of the gRPC library, as documented.\<close>

definition FromContextError :: "bool \<Rightarrow> grpc_code" where
  "FromContextError deadline = (if deadline then DeadlineExceeded else Canceled)"

text \<open>The sends of one page: what went out and the error that stopped it.\<close>

definition send_page :: "(nat \<times> grpc_code) option \<Rightarrow> event list \<Rightarrow> event list \<times> grpc_code option" where
  "send_page f es = (case f of Some (k, e) \<Rightarrow> if k < length es then (take k es, Some e) else (es, None) | None \<Rightarrow> (es, None))"

fun stream_loop :: "string \<Rightarrow> int \<Rightarrow> wake list \<Rightarrow> event list \<times> (grpc_code option) option" where
  "stream_loop jobID after [] = ([], None)"
| "stream_loop jobID after (ContextDone d # ws) = ([], Some (Some (FromContextError d)))"
| "stream_loop jobID after (WaitFailed # ws) = ([], Some (Some Internal))"
| "stream_loop jobID after (Idle g # ws) =
     (case Option.bind g (\<lambda>m. ms_jobs m jobID) of
        Some j \<Rightarrow> if TerminalStatus (job_Status j) then ([], Some None) else stream_loop jobID after ws
      | None \<Rightarrow> stream_loop jobID after ws)"
| "stream_loop jobID after (Woken m f # ws) =
     (case listEventsLocked jobID after streamPollLimit m of
        None \<Rightarrow> ([], Some (Some NotFound))
      | Some [] \<Rightarrow> stream_loop jobID after ws
      | Some es \<Rightarrow>
          (case send_page f es of
             (out, Some e) \<Rightarrow> (out, Some (Some e))
           | (out, None) \<Rightarrow>
               if list_ex isTerminalEvent es then (out, Some None)
               else (case stream_loop jobID (int (evt_Sequence (last es))) ws of
                       (sent, outcome) \<Rightarrow> (out @ sent, outcome))))"

definition StreamJobEvents ::
  "svc_env \<Rightarrow> svc_config \<Rightarrow> string list option \<Rightarrow> string \<Rightarrow> int \<Rightarrow> svc_world \<Rightarrow> wake list
   \<Rightarrow> event list \<times> (grpc_code option) option" where
  "StreamJobEvents env c headers jobID after w wakes =
     (case svc_authorize env c headers ''job:read'' of
        Some e \<Rightarrow> ([], Some (Some e))
      | None \<Rightarrow>
          (case svc_loadJob c jobID (sw_jobs w) of
             Inl e \<Rightarrow> ([], Some (Some e))
           | Inr j \<Rightarrow>
               if after < 0 then ([], Some (Some InvalidArgument))
               else stream_loop (job_ID j) after wakes))"

end
