(* ===== verification/JobServiceProps.thy ===== *)
theory JobServiceProps
  imports JobService IdempotencyProps
begin

text \<open>
  The job service as a machine: requests of any tenants, the writes of workers and the sweep of
  the idempotency store, in any order. Each handler is one step; the store operations it makes
  are steps of the machines of the stores, so their invariants carry over.
\<close>

datatype svc_op =
    SvcCreate svc_env svc_config "string list option" gotime gotime create_job_request
  | SvcCancel svc_env svc_config "string list option" gotime gotime job_mutation_request
  | SvcRetry svc_env svc_config "string list option" gotime gotime job_mutation_request
  | SvcStore env jobs_op
  | SvcSweep gotime

fun svc_step :: "svc_op \<Rightarrow> svc_world \<Rightarrow> svc_world" where
  "svc_step (SvcCreate env c hs t1 t2 req) w = snd (CreateJob env c hs t1 t2 req w)"
| "svc_step (SvcCancel env c hs t1 t2 req) w = snd (CancelJob env c hs t1 t2 req w)"
| "svc_step (SvcRetry env c hs t1 t2 req) w = snd (RetryJob env c hs t1 t2 req w)"
| "svc_step (SvcStore e op) w = w\<lparr>sw_jobs := jobs_step e op (sw_jobs w)\<rparr>"
| "svc_step (SvcSweep t) w = w\<lparr>sw_idem := snd (idem_Sweep t (sw_idem w))\<rparr>"

text \<open>The reservation of the request, or the sweep, reads the clock before \<open>limit\<close>.\<close>

fun svc_before :: "gotime \<Rightarrow> svc_op \<Rightarrow> bool" where
  "svc_before limit (SvcCreate env c hs t1 t2 req) = (t1 < limit)"
| "svc_before limit (SvcCancel env c hs t1 t2 req) = (t1 < limit)"
| "svc_before limit (SvcRetry env c hs t1 t2 req) = (t1 < limit)"
| "svc_before limit (SvcStore e op) = True"
| "svc_before limit (SvcSweep t) = (t < limit)"

definition svc_inv :: "svc_world \<Rightarrow> bool" where
  "svc_inv w = (jobs_inv (sw_jobs w) \<and> distinct (map fst (is_records (sw_idem w))))"

subsection \<open>What a handler does to the stores\<close>

lemma CreateJob_effect:
  obtains (nothing) "snd (CreateJob env c hs t1 t2 req w) = w"
  | (reserve) sc h d m where "idem_Reserve t1 sc h (sw_idem w) = (d, m)"
      "snd (CreateJob env c hs t1 t2 req w) = w\<lparr>sw_idem := m\<rparr>"
  | (create) sc h d m cr where "idem_Reserve t1 sc h (sw_idem w) = (d, m)" "id_Kind d = DecisionReserved"
      "snd (CreateJob env c hs t1 t2 req w) = snd (create_and_enqueue env t2 sc h cr (w\<lparr>sw_idem := m\<rparr>))"
proof (cases "svc_authorize env c hs ''job:create''")
  case (Some e)
  show ?thesis by (rule nothing) (simp add: CreateJob_def Some)
next
  case None
  show ?thesis
  proof (cases "create_checks env c req")
    case (Inl e)
    show ?thesis by (rule nothing) (simp add: CreateJob_def None Inl)
  next
    case (Inr p)
    obtain version key client sp where p: "p = (version, key, client, sp)" by (metis prod_cases4)
    obtain d m where res: "idem_Reserve t1 (svc_scope c ''create_job'' key)
        (CanonicalCreateHash (se_hash env) version client sp) (sw_idem w) = (d, m)" by fastforce
    show ?thesis
    proof (cases "id_Kind d")
      case DecisionReserved
      show ?thesis by (rule create [OF res DecisionReserved]) (simp add: CreateJob_def None Inr p res DecisionReserved Let_def)
    qed (rule reserve [OF res], simp add: CreateJob_def None Inr p res Let_def)+
  qed
qed

lemma RetryJob_effect:
  obtains (nothing) "snd (RetryJob env c hs t1 t2 req w) = w"
  | (reserve) rid res m where "reserveMutation env c t1 ''retry_job'' rid req (sw_idem w) = (res, m)"
      "snd (RetryJob env c hs t1 t2 req w) = w\<lparr>sw_idem := m\<rparr>"
  | (create) rid sc r m cr where "reserveMutation env c t1 ''retry_job'' rid req (sw_idem w) = (Inr (sc, r, False), m)"
      "snd (RetryJob env c hs t1 t2 req w) = snd (create_and_enqueue env t2 sc (ir_RequestHash r) cr (w\<lparr>sw_idem := m\<rparr>))"
proof (cases "svc_authorize env c hs ''job:retry'' = None \<and> (\<exists>j. svc_loadJob c (jr_JobId req) (sw_jobs w) = Inr j)")
  case False
  show ?thesis by (rule nothing) (use False in \<open>auto simp: RetryJob_def split: option.splits sum.splits\<close>)
next
  case True
  then obtain j where auth: "svc_authorize env c hs ''job:retry'' = None" and j: "svc_loadJob c (jr_JobId req) (sw_jobs w) = Inr j"
    by blast
  obtain res m where res: "reserveMutation env c t1 ''retry_job'' (job_ID j) req (sw_idem w) = (res, m)" by fastforce
  show ?thesis
  proof (cases "\<exists>sc r. res = Inr (sc, r, False)")
    case True
    then obtain sc r where r: "res = Inr (sc, r, False)" by blast
    show ?thesis by (rule create [OF res [unfolded r]]) (simp add: RetryJob_def auth j res r Let_def)
  next
    case False
    show ?thesis
      by (rule reserve [OF res]) (use False in \<open>auto simp: RetryJob_def auth j res Let_def split: sum.splits\<close>)
  qed
qed

lemma CancelJob_effect:
  obtains (nothing) "snd (CancelJob env c hs t1 t2 req w) = w"
  | (reserve) rid res m where "reserveMutation env c t1 ''cancel_job'' rid req (sw_idem w) = (res, m)"
      "snd (CancelJob env c hs t1 t2 req w) = w\<lparr>sw_idem := m\<rparr>"
  | (release) rid sc r m where "reserveMutation env c t1 ''cancel_job'' rid req (sw_idem w) = (Inr (sc, r, False), m)"
      "snd (CancelJob env c hs t1 t2 req w) = w\<lparr>sw_idem := idem_Release sc (ir_RequestHash r) m\<rparr>"
  | (finished) ex sc r m m' res rid where "svc_loadJob c (jr_JobId req) (sw_jobs w) = Inr ex"
      "reserveMutation env c t1 ''cancel_job'' (job_ID ex) req (sw_idem w) = (Inr (sc, r, False), m)"
      "UpdateStatus (job_ID ex) StatusCanceled (sw_jobs w) = (m', res)"
      "snd (CancelJob env c hs t1 t2 req w) =
         w\<lparr>sw_jobs := m', sw_idem := idem_Complete t2 sc (ir_RequestHash r) rid 202 m\<rparr>"
proof (cases "svc_authorize env c hs ''job:cancel'' = None \<and> (\<exists>j. svc_loadJob c (jr_JobId req) (sw_jobs w) = Inr j)")
  case False
  show ?thesis by (rule nothing) (use False in \<open>auto simp: CancelJob_def split: option.splits sum.splits\<close>)
next
  case True
  then obtain j where auth: "svc_authorize env c hs ''job:cancel'' = None" and j: "svc_loadJob c (jr_JobId req) (sw_jobs w) = Inr j"
    by blast
  obtain res m where res: "reserveMutation env c t1 ''cancel_job'' (job_ID j) req (sw_idem w) = (res, m)" by fastforce
  show ?thesis
  proof (cases "\<exists>sc r. res = Inr (sc, r, False)")
    case True
    then obtain sc r where r: "res = Inr (sc, r, False)" by blast
    obtain m' up where up: "UpdateStatus (job_ID j) StatusCanceled (sw_jobs w) = (m', up)" by fastforce
    have "snd (CancelJob env c hs t1 t2 req w) = w\<lparr>sw_idem := idem_Release sc (ir_RequestHash r) m\<rparr> \<or>
        (\<exists>rid. snd (CancelJob env c hs t1 t2 req w) =
          w\<lparr>sw_jobs := m', sw_idem := idem_Complete t2 sc (ir_RequestHash r) rid 202 m\<rparr>)"
      by (auto simp: CancelJob_def auth j res r up Let_def split: sum.splits option.splits)
    then show ?thesis using release [OF res [unfolded r]] finished [OF j res [unfolded r] up] by blast
  next
    case False
    show ?thesis
      by (rule reserve [OF res]) (use False in \<open>auto simp: CancelJob_def auth j res Let_def split: sum.splits\<close>)
  qed
qed

subsection \<open>Steps of the job store\<close>

lemma create_and_enqueue_jobs:
  "\<exists>ops. sw_jobs (snd (create_and_enqueue env t sc h r w)) = jobs_run e ops (sw_jobs w)"
proof (cases "se_enqueue env (snd (Create r (sw_jobs w)))")
  case True
  then have "sw_jobs (snd (create_and_enqueue env t sc h r w)) = jobs_run e [OpCreate r] (sw_jobs w)"
    by (simp add: create_and_enqueue_def jobs_run_def split_beta)
  then show ?thesis by blast
next
  case False
  let ?i = "job_ID (snd (Create r (sw_jobs w)))"
  from False have "sw_jobs (snd (create_and_enqueue env t sc h r w)) =
      jobs_run e [OpCreate r, OpUpdate ?i StatusFailedRetryable] (sw_jobs w)"
    by (simp add: create_and_enqueue_def jobs_run_def split_beta)
  then show ?thesis by blast
qed

lemma no_jobs_ops: "\<exists>ops. m = jobs_run e ops m"
  by (rule exI [of _ "[]"]) (simp add: jobs_run_def)

lemma CreateJob_jobs: "\<exists>ops. sw_jobs (snd (CreateJob env c hs t1 t2 req w)) = jobs_run e ops (sw_jobs w)"
  by (cases rule: CreateJob_effect [of env c hs t1 t2 req w])
    (use create_and_enqueue_jobs [where w = "w\<lparr>sw_idem := m\<rparr>" and e = e for m] in \<open>auto simp: no_jobs_ops\<close>)

lemma RetryJob_jobs: "\<exists>ops. sw_jobs (snd (RetryJob env c hs t1 t2 req w)) = jobs_run e ops (sw_jobs w)"
  by (cases rule: RetryJob_effect [of env c hs t1 t2 req w])
    (use create_and_enqueue_jobs [where w = "w\<lparr>sw_idem := m\<rparr>" and e = e for m] in \<open>auto simp: no_jobs_ops\<close>)

lemma UpdateStatus_as_op:
  "UpdateStatus i st m = (m', res) \<Longrightarrow> \<exists>ops. m' = jobs_run e ops m"
  by (rule exI [of _ "[OpUpdate i st]"]) (simp add: jobs_run_def)

lemma CancelJob_jobs: "\<exists>ops. sw_jobs (snd (CancelJob env c hs t1 t2 req w)) = jobs_run e ops (sw_jobs w)"
  by (cases rule: CancelJob_effect [of env c hs t1 t2 req w]) (auto simp: no_jobs_ops dest: UpdateStatus_as_op [where e = e])

lemma svc_step_jobs: "\<exists>e ops. sw_jobs (svc_step op w) = jobs_run e ops (sw_jobs w)"
proof (cases op)
  case (SvcStore e jop)
  then have "sw_jobs (svc_step op w) = jobs_run e [jop] (sw_jobs w)" by (simp add: jobs_run_def)
  then show ?thesis by blast
qed (use CreateJob_jobs RetryJob_jobs CancelJob_jobs no_jobs_ops in simp_all)

subsection \<open>Steps of the idempotency store\<close>

lemma reserve_protects:
  assumes "completed K r limit m" and "idem_Reserve t sc h m = (d, m')" and "t < limit"
  shows "completed K r limit m'" and "id_Kind d = DecisionReserved \<Longrightarrow> CacheKey sc \<noteq> K"
proof -
  have "completed K r limit (idem_step (OpIdemReserve t sc h) m)"
    using assms(1, 3) by (intro idem_step_completed) simp_all
  then show "completed K r limit m'" using assms(2) by simp
  show "CacheKey sc \<noteq> K" if "id_Kind d = DecisionReserved"
    using assms completed_decision [of sc r limit m t h] that by (auto split: if_splits)
qed

lemma other_key_kept:
  assumes "completed K r limit m" and "CacheKey sc \<noteq> K"
  shows "completed K r limit (idem_Complete t sc h rid st m)" and "completed K r limit (idem_Release sc h m)"
  using idem_step_completed [OF assms(1), of "OpIdemComplete t sc h rid st"]
    idem_step_completed [OF assms(1), of "OpIdemRelease sc h"] assms(2) by simp_all

lemma create_and_enqueue_completed:
  assumes "completed K r limit (sw_idem w)" and "CacheKey sc \<noteq> K"
  shows "completed K r limit (sw_idem (snd (create_and_enqueue env t sc h cr w)))"
  using assms by (simp add: create_and_enqueue_def other_key_kept split: prod.splits)

lemma reserveMutation_protects:
  assumes "completed K r limit m" and "reserveMutation env c t opn rid req m = (res, m')" and "t < limit"
  shows "completed K r limit m'" and "res = Inr (sc, rc, False) \<Longrightarrow> CacheKey sc \<noteq> K"
  using assms reserve_protects [OF assms(1)]
  by (auto simp: reserveMutation_def Let_def split: if_splits prod.splits decision_kind.splits)

lemma svc_step_completed:
  assumes "completed K r limit (sw_idem w)" and "svc_before limit op"
  shows "completed K r limit (sw_idem (svc_step op w))"
proof (cases op)
  case (SvcCreate env c hs t1 t2 req)
  with assms show ?thesis
    by (cases rule: CreateJob_effect [of env c hs t1 t2 req w]) (auto simp: create_and_enqueue_completed reserve_protects)
next
  case (SvcCancel env c hs t1 t2 req)
  with assms show ?thesis
    by (cases rule: CancelJob_effect [of env c hs t1 t2 req w]) (auto simp: reserveMutation_protects other_key_kept)
next
  case (SvcRetry env c hs t1 t2 req)
  with assms show ?thesis
    by (cases rule: RetryJob_effect [of env c hs t1 t2 req w]) (auto simp: reserveMutation_protects create_and_enqueue_completed)
next
  case (SvcSweep t)
  then show ?thesis using assms idem_step_completed [OF assms(1), of "OpIdemSweep t"] by simp
qed (use assms in simp)

interpretation svc_completed: guarded_machine svc_step "svc_before limit" "\<lambda>w. completed K r limit (sw_idem w)"
    "\<lambda>w w'. jobs_inv (sw_jobs w) \<longrightarrow> jobs_inv (sw_jobs w') \<and> log_le (sw_jobs w) (sw_jobs w')"
  for K r limit
proof unfold_locales
  fix op w
  obtain e ops where eq: "sw_jobs (svc_step op w) = jobs_run e ops (sw_jobs w)" using svc_step_jobs by blast
  show "jobs_inv (sw_jobs w) \<longrightarrow> jobs_inv (sw_jobs (svc_step op w)) \<and> log_le (sw_jobs w) (sw_jobs (svc_step op w))"
    by (simp add: eq jobs_run_inv jobs_run_log_le)
qed (auto intro: svc_step_completed log_le_refl log_le_trans)

text \<open>One record per key, whatever the requests.\<close>

lemma idem_op_distinct:
  assumes "distinct (map fst (is_records m))"
  shows "idem_Reserve t sc h m = (d, m') \<Longrightarrow> distinct (map fst (is_records m'))"
    and "distinct (map fst (is_records (idem_Complete t sc h rid st m)))"
    and "distinct (map fst (is_records (idem_Release sc h m)))"
    and "distinct (map fst (is_records (snd (idem_Sweep t m))))"
  using idem_step_distinct [OF assms, of "OpIdemReserve t sc h"] idem_step_distinct [OF assms, of "OpIdemComplete t sc h rid st"]
    idem_step_distinct [OF assms, of "OpIdemRelease sc h"] idem_step_distinct [OF assms, of "OpIdemSweep t"] by simp_all

lemma reserveMutation_distinct:
  assumes "distinct (map fst (is_records m))" and "reserveMutation env c t opn rid req m = (res, m')"
  shows "distinct (map fst (is_records m'))"
  using assms by (auto simp: reserveMutation_def Let_def idem_op_distinct split: if_splits prod.splits decision_kind.splits)

lemma create_and_enqueue_distinct:
  assumes "distinct (map fst (is_records (sw_idem w)))"
  shows "distinct (map fst (is_records (sw_idem (snd (create_and_enqueue env t sc h cr w)))))"
  using assms by (simp add: create_and_enqueue_def idem_op_distinct split: prod.splits)

lemma svc_step_distinct:
  assumes "distinct (map fst (is_records (sw_idem w)))"
  shows "distinct (map fst (is_records (sw_idem (svc_step op w))))"
proof (cases op)
  case (SvcCreate env c hs t1 t2 req)
  then show ?thesis
    by (cases rule: CreateJob_effect [of env c hs t1 t2 req w]) (auto simp: assms create_and_enqueue_distinct idem_op_distinct(1) [OF assms])
next
  case (SvcCancel env c hs t1 t2 req)
  then show ?thesis
    by (cases rule: CancelJob_effect [of env c hs t1 t2 req w]) (auto simp: assms idem_op_distinct(2,3) reserveMutation_distinct [OF assms])
next
  case (SvcRetry env c hs t1 t2 req)
  then show ?thesis
    by (cases rule: RetryJob_effect [of env c hs t1 t2 req w]) (auto simp: assms create_and_enqueue_distinct reserveMutation_distinct [OF assms])
qed (use assms in \<open>simp_all add: idem_op_distinct(4)\<close>)

lemma svc_step_inv: "svc_inv w \<Longrightarrow> svc_inv (svc_step op w)"
  using svc_step_jobs [of op w] by (auto simp: svc_inv_def svc_step_distinct jobs_run_inv)

interpretation svc_machine: machine svc_step svc_inv
  by unfold_locales (rule svc_step_inv)

subsection \<open>A create request and its replays\<close>

text \<open>The idempotency key and the request hash of a request that passes the checks.\<close>

definition request_hash :: "svc_env \<Rightarrow> svc_config \<Rightarrow> create_job_request \<Rightarrow> (string \<times> string) option" where
  "request_hash env c req =
     (case create_checks env c req of
        Inl e \<Rightarrow> None
      | Inr (version, key, client, sp) \<Rightarrow> Some (key, CanonicalCreateHash (se_hash env) version client sp))"

lemma job_ident_not_empty [simp]: "job_ident k \<noteq> []"
  by (simp add: job_ident_def)

lemma Create_stored:
  "Create r m = (m', j) \<Longrightarrow> ms_jobs m' (job_ID j) = Some j \<and> job_ID j \<noteq> []"
  by (auto simp: Create_def Let_def appendEventLocked_def tick_def)

lemma idem_Reserve_ttl: "idem_Reserve t sc h m = (d, m') \<Longrightarrow> is_ttl m' = is_ttl m"
  by (auto simp: idem_Reserve_def Let_def split: option.splits if_splits)

lemma created_is_recorded:
  assumes inv: "svc_inv w" and t1: "0 \<le> t1"
    and run: "CreateJob env c hs t1 t2 req w = (Inr resp, w1)" and new: "\<not> rs_IdempotentReplay resp"
  shows "\<exists>key hash r. svc_authorize env c hs ''job:create'' = None \<and> request_hash env c req = Some (key, hash) \<and>
    completed (CacheKey (svc_scope c ''create_job'' key)) r (t1 + is_ttl (sw_idem w)) (sw_idem w1) \<and>
    ir_RequestHash r = hash \<and> ir_ResourceID r = rs_JobId resp \<and> rs_JobId resp \<noteq> [] \<and>
    rs_JobId resp \<in> dom (ms_jobs (sw_jobs w1))"
proof -
  from run have auth: "svc_authorize env c hs ''job:create'' = None"
    by (simp add: CreateJob_def split: option.splits)
  from run obtain version key client sp where chk: "create_checks env c req = Inr (version, key, client, sp)"
    by (auto simp: CreateJob_def auth split: sum.splits)
  let ?h = "CanonicalCreateHash (se_hash env) version client sp" and ?sc = "svc_scope c ''create_job'' key"
  obtain d m where res: "idem_Reserve t1 ?sc ?h (sw_idem w) = (d, m)" by fastforce
  have kind: "id_Kind d = DecisionReserved"
    using run new by (auto simp: CreateJob_def auth chk res Let_def replayJob_def jobToResponse_def
        split: decision_kind.splits if_splits option.splits)
  have heldm: "held (CacheKey ?sc) ?h (t1 + min defaultInFlightLock (is_ttl (sw_idem w))) (t1 + is_ttl (sw_idem w)) m"
    using inv t1 by (intro reserve_starts [OF _ res kind])
      (simp_all add: svc_inv_def defaultInFlightLock_def)
  obtain ms j where cr: "Create (create_record env c version key client sp) (sw_jobs w) = (ms, j)" by fastforce
  have w1: "rs_JobId resp = job_ID j \<and> sw_jobs w1 = ms \<and> sw_idem w1 = idem_Complete t2 ?sc ?h (job_ID j) 202 m"
    using run by (auto simp: CreateJob_def auth chk res kind Let_def create_and_enqueue_def cr jobToResponse_def
        split: if_splits)
  from reserve_then_complete [OF heldm, of t2 "job_ID j" 202] w1 Create_stored [OF cr] auth chk
  show ?thesis by (auto simp: request_hash_def)
qed

text \<open>A request whose key is completed is replayed or refused.\<close>

lemma completed_request:
  assumes auth: "svc_authorize env c hs ''job:create'' = None" and rh: "request_hash env c req = Some (key, hash)"
    and comp: "completed (CacheKey (svc_scope c ''create_job'' key)) r limit (sw_idem w)" and t: "t1 < limit"
  shows "CreateJob env c hs t1 t2 req w =
    (if hash = ir_RequestHash r then (replayJob env r (sw_jobs w), w) else (Inl AlreadyExists, w))"
proof -
  obtain version client sp where chk: "create_checks env c req = Inr (version, key, client, sp)"
    and h: "hash = CanonicalCreateHash (se_hash env) version client sp"
    using rh by (auto simp: request_hash_def split: sum.splits)
  show ?thesis using completed_decision [OF comp t] by (simp add: CreateJob_def auth chk h Let_def)
qed

subsection \<open>Properties\<close>

text \<open>C8. A create request that made a job is idempotent for the time to live of its key: after any
  sequence of requests of any tenants, writes of workers and sweeps, sending it again answers
  with the same job and changes nothing, and another payload under the same key is refused.\<close>

theorem create_is_idempotent:
  assumes "svc_inv w" and "0 \<le> t1" and "CreateJob env c hs t1 t2 req w = (Inr resp, w1)"
    and "\<not> rs_IdempotentReplay resp" and "limit = t1 + is_ttl (sw_idem w)"
    and "list_all (svc_before limit) ops" and "w2 = fold svc_step ops w1" and "t3 < limit"
  shows "(\<exists>again. CreateJob env c hs t3 t4 req w2 = (Inr again, w2) \<and>
            rs_JobId again = rs_JobId resp \<and> rs_IdempotentReplay again) \<and>
    (request_hash env c req = Some (key, hash) \<and> request_hash env c other = Some (key, hash') \<and> hash' \<noteq> hash \<longrightarrow>
       CreateJob env c hs t3 t4 other w2 = (Inl AlreadyExists, w2))"
proof -
  obtain k h r where auth: "svc_authorize env c hs ''job:create'' = None" and rh: "request_hash env c req = Some (k, h)"
    and comp: "completed (CacheKey (svc_scope c ''create_job'' k)) r limit (sw_idem w1)"
    and r: "ir_RequestHash r = h" "ir_ResourceID r = rs_JobId resp" "rs_JobId resp \<noteq> []"
    and d: "rs_JobId resp \<in> dom (ms_jobs (sw_jobs w1))"
    using created_is_recorded [OF assms(1-4)] assms(5) by metis
  have inv1: "jobs_inv (sw_jobs w1)"
    using CreateJob_jobs [of env c hs t1 t2 req w] assms(1, 3) by (metis jobs_run_inv snd_conv svc_inv_def)
  from svc_completed.guarded_run [OF comp assms(6)] inv1
  have comp2: "completed (CacheKey (svc_scope c ''create_job'' k)) r limit (sw_idem w2)"
    and le: "log_le (sw_jobs w1) (sw_jobs w2)" and inv2: "jobs_inv (sw_jobs w2)"
    by (simp_all add: assms(7))
  from d le obtain j where j: "ms_jobs (sw_jobs w2) (rs_JobId resp) = Some j"
    by (force simp: log_le_def)
  then have "job_ID j = rs_JobId resp" using inv2 jobs_okD by (auto simp: jobs_inv_def)
  with j completed_request [OF auth rh comp2 assms(8)] r
  have "\<exists>again. CreateJob env c hs t3 t4 req w2 = (Inr again, w2) \<and>
      rs_JobId again = rs_JobId resp \<and> rs_IdempotentReplay again"
    by (simp add: replayJob_def jobToResponse_def)
  moreover have "CreateJob env c hs t3 t4 other w2 = (Inl AlreadyExists, w2)"
    if "request_hash env c req = Some (key, hash)" "request_hash env c other = Some (key, hash')" "hash' \<noteq> hash"
    using completed_request [OF auth that(2), of r limit w2 t3] that rh comp2 assms(8) r by simp
  ultimately show ?thesis by blast
qed

text \<open>A request on one payload, its replay and another payload under the same key.\<close>

definition wit_senv :: svc_env where
  "wit_senv = \<lparr>se_parse = (\<lambda>_. Some (JObj [])),
     se_hash = (\<lambda>j. case j of JObj [_, _, (_, JObj ((_, JStr target) # _))] \<Rightarrow> target | _ \<Rightarrow> []),
     se_marshal_length = (\<lambda>_. 100), se_abac = None, se_enqueue = (\<lambda>_. True), se_cancel = (\<lambda>_ _. True),
     se_traceID = ''tr'', se_redactURL = (\<lambda>u. u)\<rparr>"

definition wit_conf :: svc_config where
  "wit_conf = \<lparr>sv_apiVersion = ''2025-01-01'', sv_appSecret = ''s3cret'', sv_tenantID = ''t'', sv_appID = ''a'',
     sv_actorRole = ''developer'', sv_mfa = False\<rparr>"

definition wit_create :: "string \<Rightarrow> create_job_request" where
  "wit_create target =
     \<lparr>cj_ApiVersion = [], cj_IdempotencyKey = ''key-0123456789ab'',
      cj_Client = Some \<lparr>cl_AppID = ''a'', cl_AppVersion = ''1'', cl_DeviceID = [], cl_UserRef = [], cl_SDKName = ''s'', cl_SDKVersion = ''1''\<rparr>,
      cj_Job = Some \<lparr>jm_Target = target, jm_CommandType = ''chat'', jm_ConversationID = [], jm_TemplateID = [],
                 jm_InputJson = ''{}'', jm_OptionsJson = [], jm_CallbacksJson = [], jm_ContextJson = []\<rparr>\<rparr>"

definition wit_headers :: "string list option" where
  "wit_headers = Some [''Bearer s3cret'']"

definition wit_world :: svc_world where
  "wit_world = \<lparr>sw_jobs = NewMemoryStore (\<lambda>_. 1), sw_idem = new_idem_store 0\<rparr>"

definition wit_first :: "(grpc_code + job_response) \<times> svc_world" where
  "wit_first = CreateJob wit_senv wit_conf wit_headers 5 6 (wit_create ''a_web'') wit_world"

lemma wit_world_inv: "svc_inv wit_world"
  by (simp add: svc_inv_def wit_world_def jobs_inv_new new_idem_store_def)

definition wit_client :: jc_client where
  "wit_client = \<lparr>cl_AppID = ''a'', cl_AppVersion = ''1'', cl_DeviceID = [], cl_UserRef = [], cl_SDKName = ''s'', cl_SDKVersion = ''1''\<rparr>"

definition wit_spec :: "string \<Rightarrow> jc_spec" where
  "wit_spec target = \<lparr>sp_Target = target, sp_CommandType = ''chat'', sp_ConversationID = [], sp_TemplateID = [],
     sp_Input = Some [], sp_Options = None, sp_Callbacks = None, sp_Context = None, sp_ModelSettings = None\<rparr>"

lemma wit_authorized: "svc_authorize wit_senv wit_conf wit_headers ''job:create'' = None"
  by code_simp

lemma wit_checks:
  "create_checks wit_senv wit_conf (wit_create ''a_web'') = Inr (''2025-01-01'', ''key-0123456789ab'', wit_client, wit_spec ''a_web'')"
  "create_checks wit_senv wit_conf (wit_create ''b_web'') = Inr (''2025-01-01'', ''key-0123456789ab'', wit_client, wit_spec ''b_web'')"
  by code_simp+

lemma wit_hashes:
  "request_hash wit_senv wit_conf (wit_create ''a_web'') = Some (''key-0123456789ab'', se_hash wit_senv (create_payload ''2025-01-01'' wit_client (wit_spec ''a_web'')))"
  "request_hash wit_senv wit_conf (wit_create ''b_web'') = Some (''key-0123456789ab'', se_hash wit_senv (create_payload ''2025-01-01'' wit_client (wit_spec ''b_web'')))"
  "se_hash wit_senv (create_payload ''2025-01-01'' wit_client (wit_spec ''a_web'')) \<noteq>
   se_hash wit_senv (create_payload ''2025-01-01'' wit_client (wit_spec ''b_web''))"
  by (simp_all add: request_hash_def wit_checks CanonicalCreateHash_def) code_simp

lemma wit_fields: "se_enqueue wit_senv = (\<lambda>_. True)" "sv_tenantID wit_conf = ''t''"
  by (simp_all add: wit_senv_def wit_conf_def)

lemma wit_first_result:
  "map_sum id (\<lambda>r. (rs_JobId r, rs_IdempotentReplay r)) (fst wit_first) = Inr (job_ident 1, False)"
  "map_option (\<lambda>j. (job_TenantID j, job_Status j)) (ms_jobs (sw_jobs (snd wit_first)) (job_ident 1)) =
     Some (''t'', StatusQueued)"
  by (simp_all add: wit_first_def CreateJob_def wit_authorized wit_checks Let_def wit_world_def new_idem_store_def
      idem_Reserve_def create_and_enqueue_def Create_def NewMemoryStore_def appendEventLocked_def tick_def
      jobToResponse_def create_status_def create_record_def wit_fields)

lemma create_is_idempotent_witness:
  "(let w2 = svc_step (SvcSweep hour) (snd wit_first)
    in (\<exists>again. CreateJob wit_senv wit_conf wit_headers hour hour (wit_create ''a_web'') w2 = (Inr again, w2) \<and>
          rs_JobId again = job_ident 1 \<and> rs_IdempotentReplay again) \<and>
       CreateJob wit_senv wit_conf wit_headers hour hour (wit_create ''b_web'') w2 = (Inl AlreadyExists, w2))"
proof -
  obtain resp where "fst wit_first = Inr resp" and resp: "rs_JobId resp = job_ident 1" "\<not> rs_IdempotentReplay resp"
    using wit_first_result by (cases "fst wit_first") simp_all
  then obtain w1 where first: "wit_first = (Inr resp, w1)" by (metis prod.collapse)
  have ttl: "is_ttl (sw_idem wit_world) = idem_defaultTTL" by (simp add: wit_world_def new_idem_store_def)
  let ?w2 = "svc_step (SvcSweep hour) w1" and
    ?h = "\<lambda>t. se_hash wit_senv (create_payload ''2025-01-01'' wit_client (wit_spec t))"
  have snd: "snd wit_first = w1" by (simp only: first snd_conv)
  have "(\<exists>again. CreateJob wit_senv wit_conf wit_headers hour hour (wit_create ''a_web'') ?w2 = (Inr again, ?w2) \<and>
      rs_JobId again = rs_JobId resp \<and> rs_IdempotentReplay again) \<and>
    (request_hash wit_senv wit_conf (wit_create ''a_web'') = Some (''key-0123456789ab'', ?h ''a_web'') \<and>
     request_hash wit_senv wit_conf (wit_create ''b_web'') = Some (''key-0123456789ab'', ?h ''b_web'') \<and>
     ?h ''b_web'' \<noteq> ?h ''a_web'' \<longrightarrow>
       CreateJob wit_senv wit_conf wit_headers hour hour (wit_create ''b_web'') ?w2 = (Inl AlreadyExists, ?w2))"
    by (rule create_is_idempotent [OF wit_world_inv _ first [unfolded wit_first_def] resp(2) refl, where ops = "[SvcSweep hour]"])
      (simp_all add: ttl idem_defaultTTL_def)
  then show ?thesis unfolding Let_def snd resp(1) using wit_hashes by simp
qed

subsection \<open>Tenants\<close>

text \<open>The environment, configuration, credentials and action of a request.\<close>

fun svc_request :: "svc_op \<Rightarrow> (svc_env \<times> svc_config \<times> string list option \<times> string) option" where
  "svc_request (SvcCreate env c hs t1 t2 req) = Some (env, c, hs, ''job:create'')"
| "svc_request (SvcCancel env c hs t1 t2 req) = Some (env, c, hs, ''job:cancel'')"
| "svc_request (SvcRetry env c hs t1 t2 req) = Some (env, c, hs, ''job:retry'')"
| "svc_request (SvcStore e op) = None"
| "svc_request (SvcSweep t) = None"

definition keeps_job :: "string \<Rightarrow> memory_store \<Rightarrow> memory_store \<Rightarrow> bool" where
  "keeps_job i m m' = (ms_jobs m' i = ms_jobs m i \<and> ms_events m' i = ms_events m i)"

lemma keeps_refl [simp]: "keeps_job i m m"
  by (simp add: keeps_job_def)

lemma Create_keeps:
  assumes "store_ok m" and "ms_jobs m i \<noteq> None" and "Create r m = (m', j)"
  shows "keeps_job i m m'" and "job_ID j \<noteq> i"
  using assms fresh_job_id [OF assms(1)]
  by (auto simp: keeps_job_def Create_def Let_def appendEventLocked_def tick_def)

lemma UpdateStatus_keeps:
  assumes "store_ok m" and "UpdateStatus k st m = (m', res)" and "k \<noteq> i"
  shows "keeps_job i m m'"
  using assms jobs_okD [OF assms(1), of k]
  by (auto simp: keeps_job_def UpdateStatus_def set_status_def Let_def appendEventLocked_def tick_def
      split: if_splits option.splits)

lemma create_and_enqueue_keeps:
  assumes "store_ok (sw_jobs w)" and "ms_jobs (sw_jobs w) i \<noteq> None"
  shows "keeps_job i (sw_jobs w) (sw_jobs (snd (create_and_enqueue env t sc h r w)))"
proof -
  obtain m j where cr: "Create r (sw_jobs w) = (m, j)" by fastforce
  obtain m' res where up: "UpdateStatus (job_ID j) StatusFailedRetryable m = (m', res)" by fastforce
  note k = Create_keeps [OF assms cr]
  have "store_ok m" using Create_store_ok [OF assms(1), of r] cr by simp
  from k(1) UpdateStatus_keeps [OF this up k(2)] show ?thesis
    by (simp add: create_and_enqueue_def cr up keeps_job_def)
qed

lemma svc_loadJob_scope:
  "svc_loadJob c i m = Inr j \<Longrightarrow> store_ok m \<Longrightarrow>
     ms_jobs m (job_ID j) = Some j \<and> job_TenantID j = sv_tenantID c \<and> job_AppID j = sv_appID c"
  by (auto simp: svc_loadJob_def GetScoped_def Let_def jobs_okD split: if_splits option.splits)

lemma request_keeps:
  assumes ok: "store_ok (sw_jobs w)" and j: "ms_jobs (sw_jobs w) i = Some j"
    and other: "(job_TenantID j, job_AppID j) \<noteq> (sv_tenantID c, sv_appID c)"
    and op: "svc_request op = Some (env, c, hs, action)"
  shows "keeps_job i (sw_jobs w) (sw_jobs (svc_step op w))"
proof (cases op)
  case (SvcCreate e c' h t1 t2 req)
  then show ?thesis using create_and_enqueue_keeps [where w = "w\<lparr>sw_idem := m\<rparr>" and i = i for m] ok j
    by (cases rule: CreateJob_effect [of e c' h t1 t2 req w]) auto
next
  case (SvcCancel e c' h t1 t2 req)
  with op have "c' = c" by simp
  have "keeps_job i (sw_jobs w) m'"
    if "svc_loadJob c (jr_JobId req) (sw_jobs w) = Inr ex" "UpdateStatus (job_ID ex) StatusCanceled (sw_jobs w) = (m', res)"
    for ex m' res
  proof -
    have "job_ID ex \<noteq> i" using svc_loadJob_scope [OF that(1) ok] j other by auto
    then show ?thesis by (rule UpdateStatus_keeps [OF ok that(2)])
  qed
  with SvcCancel \<open>c' = c\<close> show ?thesis
    by (cases rule: CancelJob_effect [of e c h t1 t2 req w]) auto
next
  case (SvcRetry e c' h t1 t2 req)
  then show ?thesis using create_and_enqueue_keeps [where w = "w\<lparr>sw_idem := m\<rparr>" and i = i for m] ok j
    by (cases rule: RetryJob_effect [of e c' h t1 t2 req w]) auto
qed (use op in simp_all)

text \<open>C9. Tenants are isolated: a request that is not authorized changes nothing, no request changes
  a job of another tenant or app or the job's event log, and the job \<open>GetJob\<close> returns belongs to
  the caller's tenant and app.\<close>

theorem requests_stay_in_tenant:
  assumes "svc_inv w" and "svc_request op = Some (env, c, hs, action)"
  shows "(svc_authorize env c hs action \<noteq> None \<longrightarrow> svc_step op w = w) \<and>
    (ms_jobs (sw_jobs w) i = Some j \<and> (job_TenantID j, job_AppID j) \<noteq> (sv_tenantID c, sv_appID c) \<longrightarrow>
       ms_jobs (sw_jobs (svc_step op w)) i = Some j \<and>
       ms_events (sw_jobs (svc_step op w)) i = ms_events (sw_jobs w) i) \<and>
    (GetJob env c hs i w = Inr resp \<longrightarrow>
       (\<exists>j. ms_jobs (sw_jobs w) (rs_JobId resp) = Some j \<and> job_TenantID j = sv_tenantID c \<and> job_AppID j = sv_appID c))"
proof (intro conjI impI)
  have ok: "store_ok (sw_jobs w)" using assms(1) by (simp add: svc_inv_def jobs_inv_def)
  show "svc_step op w = w" if "svc_authorize env c hs action \<noteq> None"
    using that assms(2) by (cases op) (auto simp: CreateJob_def CancelJob_def RetryJob_def)
  show "ms_jobs (sw_jobs (svc_step op w)) i = Some j" "ms_events (sw_jobs (svc_step op w)) i = ms_events (sw_jobs w) i"
    if "ms_jobs (sw_jobs w) i = Some j \<and> (job_TenantID j, job_AppID j) \<noteq> (sv_tenantID c, sv_appID c)"
    using that request_keeps [OF ok _ _ assms(2)] by (auto simp: keeps_job_def)
  show "\<exists>j. ms_jobs (sw_jobs w) (rs_JobId resp) = Some j \<and> job_TenantID j = sv_tenantID c \<and> job_AppID j = sv_appID c"
    if "GetJob env c hs i w = Inr resp"
    using that svc_loadJob_scope [OF _ ok]
    by (auto simp: GetJob_def jobToResponse_def split: option.splits sum.splits)
qed

text \<open>A neighbour's attempt to cancel the first tenant's job.\<close>

definition wit_neighbour :: svc_config where
  "wit_neighbour = wit_conf\<lparr>sv_tenantID := ''u''\<rparr>"

definition wit_cancel :: svc_op where
  "wit_cancel = SvcCancel wit_senv wit_neighbour wit_headers 8 9
     \<lparr>jr_ApiVersion = [], jr_JobId = job_ident 1, jr_IdempotencyKey = ''key-0123456789ab'', jr_Reason = [], jr_MetadataJson = []\<rparr>"

lemma requests_stay_in_tenant_witness:
  "\<exists>j. ms_jobs (sw_jobs (snd wit_first)) (job_ident 1) = Some j \<and>
       ms_jobs (sw_jobs (svc_step wit_cancel (snd wit_first))) (job_ident 1) = Some j"
proof -
  obtain j where j: "ms_jobs (sw_jobs (snd wit_first)) (job_ident 1) = Some j" "job_TenantID j = ''t''"
    using wit_first_result(2) by (cases "ms_jobs (sw_jobs (snd wit_first)) (job_ident 1)") simp_all
  have "svc_inv (snd wit_first)"
    using svc_step_inv [OF wit_world_inv, of "SvcCreate wit_senv wit_conf wit_headers 5 6 (wit_create ''a_web'')"]
    by (simp add: wit_first_def)
  from requests_stay_in_tenant [OF this, of wit_cancel wit_senv wit_neighbour wit_headers "''job:cancel''" "job_ident 1" j] j
  show ?thesis by (simp add: wit_cancel_def wit_neighbour_def wit_conf_def)
qed

end
