(* ===== verification/JobStreamProps.thy ===== *)
theory JobStreamProps
  imports JobService
begin

text \<open>
  The event stream of a job (\<open>StreamJobEvents\<close>): what it sends is the job's log from the cursor
  on, in order, without gap or duplicate, however the wake-ups and the writes interleave, and how far
  into the log it has come.
\<close>

fun wake_store :: "wake \<Rightarrow> memory_store option" where
  "wake_store (Woken m f) = Some m"
| "wake_store (Idle g) = g"
| "wake_store (ContextDone d) = None"
| "wake_store WaitFailed = None"

definition wake_stores :: "wake list \<Rightarrow> memory_store list" where
  "wake_stores ws = List.map_filter wake_store ws"

text \<open>The stores the wake-ups read are states of one store, in the order it went through them.\<close>

definition stores_of_a_run :: "memory_store list \<Rightarrow> bool" where
  "stores_of_a_run ms = (sorted_wrt log_le ms \<and> list_all jobs_inv ms)"

lemma wake_stores_simps [simp]:
  "wake_stores [] = []" "wake_stores (Woken m f # ws) = m # wake_stores ws"
  "wake_stores (Idle (Some m) # ws) = m # wake_stores ws" "wake_stores (Idle None # ws) = wake_stores ws"
  "wake_stores (ContextDone d # ws) = wake_stores ws" "wake_stores (WaitFailed # ws) = wake_stores ws"
  by (simp_all add: wake_stores_def List.map_filter_def)

lemma wake_stores_Cons: "wake_stores (x # ws) = wake_stores ws \<or> (\<exists>m. wake_stores (x # ws) = m # wake_stores ws)"
proof (cases x)
  case (Idle g)
  then show ?thesis by (cases g) simp_all
qed simp_all

lemma run_tail: "stores_of_a_run (m # ms) \<Longrightarrow> stores_of_a_run ms"
  by (simp add: stores_of_a_run_def)

subsection \<open>A log from a cursor on\<close>

lemma filter_from:
  "(\<And>k. k < length xs \<Longrightarrow> P (xs ! k) \<longleftrightarrow> n \<le> k) \<Longrightarrow> filter P xs = drop n xs"
proof (induction xs arbitrary: n)
  case Nil
  then show ?case by simp
next
  case (Cons x xs)
  have hd: "P x \<longleftrightarrow> n = 0" using Cons.prems [of 0] by simp
  have "filter P xs = drop (n - 1) xs"
    by (rule Cons.IH) (use Cons.prems in \<open>fastforce simp: nth_Cons'\<close>)
  with hd show ?case by (cases n) auto
qed

lemma log_sequence:
  assumes "logs_ok m" and "k < length (ms_events m i)"
  shows "evt_Sequence (ms_events m i ! k) = Suc k"
proof -
  have eq: "map evt_Sequence (ms_events m i) = [1 ..< Suc (ms_eventSeq m i)]"
    using assms(1) by (simp add: logs_ok_def del: upt_Suc)
  from arg_cong [OF eq, of length] have "length (ms_events m i) = ms_eventSeq m i" by simp
  with assms(2) arg_cong [OF eq, of "\<lambda>xs. xs ! k"] show ?thesis by (simp del: upt_Suc)
qed

lemma log_after:
  assumes "logs_ok m" and "0 \<le> a"
  shows "filter (\<lambda>e. \<not> int (evt_Sequence e) \<le> a) (ms_events m i) = drop (nat a) (ms_events m i)"
  by (rule filter_from) (use assms log_sequence [OF assms(1)] in \<open>auto simp: nat_le_iff\<close>)

lemma listed_page:
  assumes "logs_ok m" and "0 \<le> a" and "listEventsLocked i a streamPollLimit m = Some es"
  shows "es = take 100 (drop (nat a) (ms_events m i))"
  using assms log_after [OF assms(1,2), of i]
  by (auto simp: listEventsLocked_def streamPollLimit_def Let_def split: option.splits)

lemma page_last:
  assumes "logs_ok m" and "0 \<le> a" and "es = take 100 (drop (nat a) (ms_events m i))" and "es \<noteq> []"
  shows "int (evt_Sequence (last es)) = a + int (length es)"
proof -
  have "last es = ms_events m i ! (nat a + (length es - 1))"
    using assms(3,4) by (simp add: last_conv_nth)
  moreover have "nat a + (length es - 1) < length (ms_events m i)"
    using assms(3,4) by (cases es) auto
  ultimately show ?thesis using log_sequence [OF assms(1)] assms(2,4) by (cases es) auto
qed

lemma page_of_later_log:
  assumes "prefix xs ys" and "es = take k (drop n xs)"
  shows "es = take (length es) (drop n ys)"
proof -
  from assms(1) obtain zs where "ys = xs @ zs" by (auto simp: prefix_def)
  then have "prefix (drop n xs) (drop n ys)" by simp
  then have "prefix es (drop n ys)" using assms(2) take_is_prefix prefix_order.trans by blast
  then show ?thesis by (auto simp: prefix_def)
qed

lemma listed_known: "listEventsLocked i after l m = Some es \<Longrightarrow> ms_jobs m i \<noteq> None"
  by (auto simp: listEventsLocked_def split: option.splits)

subsection \<open>What a stream sends\<close>

text \<open>
  The reference: how much of the log a client that started after event \<open>n\<close> has. Each wake-up brings what
  the log holds by then, at most 100 events at a time.
\<close>

fun caught_up :: "string \<Rightarrow> nat \<Rightarrow> wake list \<Rightarrow> nat" where
  "caught_up i n [] = n"
| "caught_up i n (Woken m f # ws) = caught_up i (max n (min (n + 100) (length (ms_events m i)))) ws"
| "caught_up i n (x # ws) = caught_up i n ws"

lemma caught_up_append: "caught_up i n (xs @ ys) = caught_up i (caught_up i n xs) ys"
  by (induction i n xs rule: caught_up.induct) simp_all

text \<open>A page: its events, the cursor after it, and what remains of the log.\<close>

lemma page_effect:
  assumes "logs_ok m" and "0 \<le> a" and "listEventsLocked i a streamPollLimit m = Some es"
  shows "max (nat a) (min (nat a + 100) (length (ms_events m i))) = nat a + length es"
    and "es \<noteq> [] \<Longrightarrow> nat (int (evt_Sequence (last es))) = nat a + length es"
    and "prefix (ms_events m i) l \<Longrightarrow> es = take (length es) (drop (nat a) l)"
proof -
  note page = listed_page [OF assms]
  then show "max (nat a) (min (nat a + 100) (length (ms_events m i))) = nat a + length es" by auto
  show "es \<noteq> [] \<Longrightarrow> nat (int (evt_Sequence (last es))) = nat a + length es"
    using page_last [OF assms(1,2) page] assms(2) by (simp add: nat_add_distrib)
  show "prefix (ms_events m i) l \<Longrightarrow> es = take (length es) (drop (nat a) l)"
    by (rule page_of_later_log [OF _ page])
qed

lemma page_then_rest:
  assumes "es = take (length es) (drop n l)" and "sent = take (length sent) (drop (n + length es) l)"
  shows "es @ sent = take (length (es @ sent)) (drop n l)"
  using assms by (simp add: take_add add.commute)

text \<open>How a round can go.\<close>

lemma round_cases:
  assumes "stream_loop i after (Woken m f # ws) = (sent, outcome)"
  obtains (gone) "listEventsLocked i after streamPollLimit m = None" "sent = []" "outcome = Some (Some NotFound)"
  | (quiet) "listEventsLocked i after streamPollLimit m = Some []" "stream_loop i after ws = (sent, outcome)"
  | (broken) es k e where "listEventsLocked i after streamPollLimit m = Some es" "es \<noteq> []" "sent = take k es" "outcome = Some (Some e)"
  | (ended) es where "listEventsLocked i after streamPollLimit m = Some es" "es \<noteq> []" "list_ex isTerminalEvent es" "sent = es" "outcome = Some None"
  | (more) es sent' where "listEventsLocked i after streamPollLimit m = Some es" "es \<noteq> []" "sent = es @ sent'"
      "stream_loop i (int (evt_Sequence (last es))) ws = (sent', outcome)"
proof (cases "listEventsLocked i after streamPollLimit m")
  case None
  then show thesis using assms gone by simp
next
  case (Some es)
  show thesis
  proof (cases es)
    case Nil
    then show thesis using assms Some quiet by simp
  next
    case (Cons x xs)
    obtain out g where o: "send_page f es = (out, g)" by fastforce
    obtain sent' out' where tl: "stream_loop i (int (evt_Sequence (last es))) ws = (sent', out')" by fastforce
    show thesis
    proof (cases g)
      case None
      then have "out = es" using o by (auto simp: send_page_def split: option.splits prod.splits if_splits)
      then show thesis using assms Some Cons o None tl ended [of es] more [of es sent'] by (auto split: if_splits)
    next
      case (Some e)
      then obtain k where "out = take k es" using o by (auto simp: send_page_def split: option.splits prod.splits if_splits)
      then show thesis using assms \<open>listEventsLocked i after streamPollLimit m = Some es\<close> Cons o Some broken [of es k e] by auto
    qed
  qed
qed

lemma stream_sends_log:
  assumes "stores_of_a_run (wake_stores ws @ [m])" and "0 \<le> after"
    and "stream_loop i after ws = (sent, outcome)"
  shows "sent = take (length sent) (drop (nat after) (ms_events m i))"
  using assms
proof (induction ws arbitrary: after sent outcome)
  case (Cons x ws)
  have rest: "stores_of_a_run (wake_stores ws @ [m])"
    using Cons.prems(1) wake_stores_Cons [of x ws] by (auto simp: stores_of_a_run_def)
  show ?case
  proof (cases x)
    case (Woken m0 f)
    have ok: "logs_ok m0" and grows: "prefix (ms_events m0 i) (ms_events m i)"
      using Cons.prems(1) Woken by (auto simp: stores_of_a_run_def jobs_inv_def store_ok_def log_le_def)
    from Cons.prems(3) [unfolded Woken] show ?thesis
    proof (cases rule: round_cases)
      case quiet
      then show ?thesis using Cons.IH [OF rest Cons.prems(2)] by blast
    next
      case (broken es k e)
      have "es = take (length es) (drop (nat after) (ms_events m i))" by (rule page_effect(3) [OF ok Cons.prems(2) broken(1) grows])
      then have "prefix sent (drop (nat after) (ms_events m i))"
        unfolding broken(3) by (metis take_is_prefix prefix_order.trans)
      then show ?thesis by (auto simp: prefix_def)
    next
      case (ended es)
      then show ?thesis using page_effect(3) [OF ok Cons.prems(2) ended(1) grows] by simp
    next
      case (more es sent')
      have "sent' = take (length sent') (drop (nat after + length es) (ms_events m i))"
        using Cons.IH [OF rest _ more(4)] page_effect(2) [OF ok Cons.prems(2) more(1,2)] by simp
      then show ?thesis unfolding more(3) by (rule page_then_rest [OF page_effect(3) [OF ok Cons.prems(2) more(1) grows]])
    qed simp
  next
    case (Idle g)
    with Cons.prems(3) Cons.IH [OF rest Cons.prems(2)] show ?thesis by (auto split: option.splits if_splits)
  qed (use Cons.prems(3) in simp_all)
qed simp

definition seen_terminal :: "string \<Rightarrow> memory_store \<Rightarrow> bool" where
  "seen_terminal i m = (case ms_jobs m i of Some j \<Rightarrow> TerminalStatus (job_Status j) | None \<Rightarrow> False)"

text \<open>
  The round that closes a stream without an error: it brought an event that ends the job, or it was an idle
  check that saw the job in a terminal status.
\<close>

definition closing_round :: "string \<Rightarrow> event list \<Rightarrow> wake \<Rightarrow> bool" where
  "closing_round i sent x =
     (case x of
        Woken m f \<Rightarrow> list_ex isTerminalEvent sent
      | Idle (Some m) \<Rightarrow> seen_terminal i m
      | _ \<Rightarrow> False)"

definition closes_at :: "string \<Rightarrow> nat \<Rightarrow> wake list \<Rightarrow> event list \<Rightarrow> bool" where
  "closes_at i n ws sent =
     (\<exists>k < length ws. closing_round i sent (ws ! k) \<and> n + length sent = caught_up i n (take (Suc k) ws))"

lemma closes_at_here: "closing_round i sent x \<Longrightarrow> n + length sent = caught_up i n [x] \<Longrightarrow> closes_at i n (x # ws) sent"
  unfolding closes_at_def by (intro exI [of _ 0]) simp

lemma closes_at_later:
  assumes "closes_at i n' ws sent'" and "n' = caught_up i n [x]" and "n' + length sent' = n + length sent"
    and "list_ex isTerminalEvent sent' \<Longrightarrow> list_ex isTerminalEvent sent"
  shows "closes_at i n (x # ws) sent"
proof -
  from assms(1) obtain k where k: "k < length ws" "closing_round i sent' (ws ! k)" "n' + length sent' = caught_up i n' (take (Suc k) ws)"
    by (auto simp: closes_at_def)
  have "caught_up i n (take (Suc (Suc k)) (x # ws)) = caught_up i n' (take (Suc k) ws)"
    using caught_up_append [of i n "[x]" "take (Suc k) ws"] by (simp only: assms(2) take_Suc_Cons append_Cons append_Nil)
  moreover have "closing_round i sent (ws ! k)" using k(2) assms(4) by (auto simp: closing_round_def split: wake.splits option.splits)
  ultimately show ?thesis unfolding closes_at_def using k assms(3) by (intro exI [of _ "Suc k"]) auto
qed

lemma stream_catches_up:
  assumes "list_all jobs_inv (wake_stores ws)" and "0 \<le> after"
    and "stream_loop i after ws = (sent, outcome)"
  shows "(outcome = None \<longrightarrow> nat after + length sent = caught_up i (nat after) ws) \<and>
    (outcome = Some None \<longrightarrow> closes_at i (nat after) ws sent)"
  using assms
proof (induction ws arbitrary: after sent outcome)
  case (Cons x ws)
  have rest: "list_all jobs_inv (wake_stores ws)"
    using Cons.prems(1) wake_stores_Cons [of x ws] by auto
  show ?case
  proof (cases x)
    case (Woken m f)
    have ok: "logs_ok m" using Cons.prems(1) Woken by (simp add: jobs_inv_def store_ok_def)
    note at = page_effect [OF ok Cons.prems(2)]
    from Cons.prems(3) [unfolded Woken] show ?thesis
    proof (cases rule: round_cases)
      case quiet
      have one: "caught_up i (nat after) [x] = nat after" using at(1) [OF quiet(1)] by (simp add: Woken)
      then show ?thesis
        using Cons.IH [OF rest Cons.prems(2) quiet(2)] caught_up_append [of i "nat after" "[x]" ws]
        by (auto intro: closes_at_later [OF _ one [symmetric]])
    next
      case (ended es)
      have "caught_up i (nat after) [x] = nat after + length es" using at(1) [OF ended(1)] by (simp add: Woken)
      then show ?thesis using ended by (auto intro!: closes_at_here simp: closing_round_def Woken)
    next
      case (more es sent')
      have one: "caught_up i (nat after) [x] = nat after + length es" using at(1) [OF more(1)] by (simp add: Woken)
      note ih = Cons.IH [OF rest _ more(4), unfolded at(2) [OF more(1,2)]]
      show ?thesis
        using ih caught_up_append [of i "nat after" "[x]" ws] one more(3)
        by (auto intro: closes_at_later [OF _ one [symmetric]])
    qed simp_all
  next
    case (Idle g)
    have one: "caught_up i (nat after) [x] = nat after" by (simp add: Idle)
    show ?thesis
    proof (cases "\<exists>m. g = Some m \<and> seen_terminal i m")
      case True
      then have "sent = [] \<and> outcome = Some None" and "closing_round i [] x"
        using Cons.prems(3) Idle by (auto simp: seen_terminal_def closing_round_def split: option.splits)
      then show ?thesis using one by (auto intro: closes_at_here)
    next
      case False
      then have "stream_loop i after ws = (sent, outcome)"
        using Cons.prems(3) Idle by (cases g) (auto simp: seen_terminal_def split: option.splits if_splits)
      from Cons.IH [OF rest Cons.prems(2) this] show ?thesis
        using caught_up_append [of i "nat after" "[x]" ws] one by (auto intro: closes_at_later [OF _ one [symmetric]])
    qed
  qed (use Cons.prems(3) in auto)
qed simp

lemma log_numbers:
  assumes "logs_ok m" and "sent = take (length sent) (drop a (ms_events m i))"
  shows "map evt_Sequence sent = [Suc a ..< Suc (a + length sent)]"
proof (rule nth_equalityI)
  fix k assume k: "k < length (map evt_Sequence sent)"
  from assms(2) have len: "length sent \<le> length (ms_events m i) - a"
    by (metis length_drop length_take min.cobounded2 min.commute)
  from arg_cong [OF assms(2), of "\<lambda>xs. xs ! k"] k len have "sent ! k = ms_events m i ! (a + k)"
    by simp
  with k log_sequence [OF assms(1), of "a + k" i] len
  show "map evt_Sequence sent ! k = [Suc a ..< Suc (a + length sent)] ! k" by (simp del: upt_Suc)
qed (simp del: upt_Suc)

text \<open>C10. Whatever the store goes through while a client listens, the stream sends the requested job's log
  from the cursor on. A caller who may not read, or whose request names no job of his tenant and
  application or a negative cursor, gets an error and no event. Any other stream sends consecutive sequence
  numbers of the log of that very job, nothing twice, nothing left out in between. While it is open it has sent
  everything the log held at its wake-ups, 100 events at a time; it closes without an error only
  in a round that brought an event that ends the job, or at an idle check that saw the job in a
  terminal status, and had sent everything up to that round. (Ending the context, a failing store
  or a failing send closes it with an error.)\<close>

theorem stream_delivers_in_order:
  assumes "stores_of_a_run (wake_stores ws @ [m])"
    and "StreamJobEvents env c hs jobID after w ws = (sent, outcome)"
  shows "case (svc_authorize env c hs ''job:read'', svc_loadJob c jobID (sw_jobs w)) of
      (Some e, _) \<Rightarrow> sent = [] \<and> outcome = Some (Some e)
    | (None, Inl e) \<Rightarrow> sent = [] \<and> outcome = Some (Some e)
    | (None, Inr j) \<Rightarrow>
        ms_jobs (sw_jobs w) (trim_space jobID) = Some j \<and> job_TenantID j = sv_tenantID c \<and> job_AppID j = sv_appID c \<and>
        (if after < 0 then sent = [] \<and> outcome = Some (Some InvalidArgument)
         else sent = take (length sent) (drop (nat after) (ms_events m (job_ID j))) \<and>
           map evt_Sequence sent = [Suc (nat after) ..< Suc (nat after + length sent)] \<and>
           (outcome = None \<longrightarrow> nat after + length sent = caught_up (job_ID j) (nat after) ws) \<and>
           (outcome = Some None \<longrightarrow> closes_at (job_ID j) (nat after) ws sent))"
proof (cases "svc_authorize env c hs ''job:read''")
  case None
  show ?thesis
  proof (cases "svc_loadJob c jobID (sw_jobs w)")
    case (Inr j)
    have own: "ms_jobs (sw_jobs w) (trim_space jobID) = Some j \<and> job_TenantID j = sv_tenantID c \<and> job_AppID j = sv_appID c"
      using Inr by (auto simp: svc_loadJob_def GetScoped_def Let_def split: option.splits if_splits)
    show ?thesis
    proof (cases "after < 0")
      case False
      have loop: "stream_loop (job_ID j) after ws = (sent, outcome)" and after: "0 \<le> after"
        using assms(2) None Inr False by (simp_all add: StreamJobEvents_def)
      have ok: "logs_ok m" "list_all jobs_inv (wake_stores ws)"
        using assms(1) by (simp_all add: stores_of_a_run_def jobs_inv_def store_ok_def)
      have log: "sent = take (length sent) (drop (nat after) (ms_events m (job_ID j)))"
        by (rule stream_sends_log [OF assms(1) after loop])
      show ?thesis
        using own False None Inr log log_numbers [OF ok(1) log] stream_catches_up [OF ok(2) after loop] by simp
    qed (use assms(2) None Inr own in \<open>simp add: StreamJobEvents_def\<close>)
  qed (use assms(2) None in \<open>simp add: StreamJobEvents_def\<close>)
qed (use assms(2) in \<open>simp add: StreamJobEvents_def\<close>)

definition wit_stream_store :: memory_store where
  "wit_stream_store = jobs_run \<lparr>marshal_len = (\<lambda>_. 0), format_time = (\<lambda>_. []), parse_url = (\<lambda>_. None), ip_loopback = (\<lambda>_. None)\<rparr>
     [OpCreate \<lparr>cr_APIVersion = ''v1'', cr_TenantID = ''t'', cr_AppID = ''a'', cr_IdempotencyKey = [],
        cr_Target = ''web'', cr_CommandType = ''chat'', cr_Client = None, cr_ConversationID = [], cr_TemplateID = [],
        cr_Input = None, cr_Options = None, cr_Callbacks = None, cr_Context = None, cr_TraceID = [],
        cr_RetryOf = [], cr_NotBefore = None, cr_AwaitingAttachments = False\<rparr>,
      OpUpdate ''job_000000000001'' StatusCanceled] (NewMemoryStore (\<lambda>_. 1))"

definition wit_stream_env :: svc_env where
  "wit_stream_env = \<lparr>se_parse = (\<lambda>_. None), se_hash = (\<lambda>_. []), se_marshal_length = (\<lambda>_. 0), se_abac = None,
     se_enqueue = (\<lambda>_. True), se_cancel = (\<lambda>_ _. True), se_traceID = [], se_redactURL = (\<lambda>u. u)\<rparr>"

definition wit_stream_conf :: svc_config where
  "wit_stream_conf = \<lparr>sv_apiVersion = ''v1'', sv_appSecret = ''s'', sv_tenantID = ''t'', sv_appID = ''a'',
     sv_actorRole = ''viewer'', sv_mfa = False\<rparr>"

definition wit_listen :: "int \<Rightarrow> wake list \<Rightarrow> event list \<times> (grpc_code option) option" where
  "wit_listen after ws = StreamJobEvents wit_stream_env wit_stream_conf (Some [''Bearer s'']) ''job_000000000001'' after
     \<lparr>sw_jobs = wit_stream_store, sw_idem = new_idem_store 0\<rparr> ws"

lemma wit_stream_run: "stores_of_a_run [wit_stream_store, wit_stream_store]"
  by (simp add: stores_of_a_run_def wit_stream_store_def jobs_run_inv jobs_inv_new log_le_refl)

lemma wit_listen_outcome: "snd (wit_listen 0 [Woken wit_stream_store None]) = Some None"
  by code_simp

lemma wit_listen_loads:
  "svc_authorize wit_stream_env wit_stream_conf (Some [''Bearer s'']) ''job:read'' = None"
  "(case svc_loadJob wit_stream_conf ''job_000000000001'' wit_stream_store of
      Inr j \<Rightarrow> job_ID j = ''job_000000000001'' | Inl e \<Rightarrow> False)"
  by code_simp+

lemma stream_delivers_in_order_witness:
  "(let listened = wit_listen 0 [Woken wit_stream_store None] in
    map evt_Sequence (fst listened) = [1 ..< 3] \<and> snd listened = Some None \<and>
    closes_at ''job_000000000001'' 0 [Woken wit_stream_store None] (fst listened))"
proof -
  obtain sent where run: "wit_listen 0 [Woken wit_stream_store None] = (sent, Some None)"
    using wit_listen_outcome by (metis prod.collapse)
  have two: "length (fst (wit_listen 0 [Woken wit_stream_store None])) = 2" by code_simp
  obtain j where j: "svc_loadJob wit_stream_conf ''job_000000000001'' wit_stream_store = Inr j" "job_ID j = ''job_000000000001''"
    using wit_listen_loads(2) by (auto split: sum.splits)
  from stream_delivers_in_order [OF _ run [unfolded wit_listen_def], of wit_stream_store] wit_stream_run
  have "map evt_Sequence sent = [1 ..< Suc (length sent)] \<and> closes_at ''job_000000000001'' 0 [Woken wit_stream_store None] sent"
    by (simp add: wit_listen_loads(1) j)
  with two run show ?thesis by (simp add: numeral_2_eq_2 numeral_3_eq_3)
qed

text \<open>
  The idle check is not atomic with the wait: when the job ends between the time-out of the wait
  and the status read, the stream closes without an error and without the last events.
\<close>

lemma idle_close_loses_the_end:
  "wit_listen 1 [Idle (Some wit_stream_store)] = ([], Some None) \<and>
   list_ex isTerminalEvent (drop 1 (ms_events wit_stream_store ''job_000000000001''))"
  by code_simp

end
