(* ===== verification/RateLimit.thy ===== *)
theory RateLimit
  imports GoNet "HOL-Library.AList"
begin

text \<open>
  The rate limiter (\<open>ratelimit/store.go\<close>, \<open>ratelimit/memory.go\<close>, \<open>ratelimit/resolver.go\<close>): fixed
  windows aligned to the clock, the in-process counters and the table of policies. The limiter
  and the store read the clock separately, so a call has two clock readings. Go's \<open>int\<close> sums
  wrap around. The SQL stores are not modelled.
\<close>

subsection \<open>Policies\<close>

record rate_policy =
  rp_Limit :: int
  rp_Window :: dur
  rp_Burst :: int

definition policy_Capacity :: "rate_policy \<Rightarrow> int" where
  "policy_Capacity p = (let capacity = wrap64 (rp_Limit p + rp_Burst p) in if capacity < 0 then 0 else capacity)"

definition policy_Valid :: "rate_policy \<Rightarrow> bool" where
  "policy_Valid p = (0 < rp_Limit p \<and> 0 < rp_Window p)"

record rate_decision =
  rd_Allowed :: bool
  rd_Limit :: int
  rd_Remaining :: int
  rd_ResetAt :: gotime
  rd_RetryAfter :: dur

definition WindowStart :: "gotime \<Rightarrow> dur \<Rightarrow> gotime" where
  "WindowStart now window = (if window \<le> 0 then now else now - now mod window)"

definition rate_decide :: "rate_policy \<Rightarrow> int \<Rightarrow> gotime \<Rightarrow> gotime \<Rightarrow> rate_decision" where
  "rate_decide p count windowStart now =
     (let capacity = policy_Capacity p;
          resetAt = windowStart + rp_Window p;
          remaining = (if capacity - count < 0 then 0 else capacity - count);
          allowed = (count \<le> capacity)
      in if allowed
         then \<lparr>rd_Allowed = True, rd_Limit = capacity, rd_Remaining = remaining, rd_ResetAt = resetAt, rd_RetryAfter = 0\<rparr>
         else \<lparr>rd_Allowed = False, rd_Limit = capacity, rd_Remaining = 0, rd_ResetAt = resetAt,
               rd_RetryAfter = (if resetAt - now < 0 then 0 else resetAt - now)\<rparr>)"

subsection \<open>The in-process counters\<close>

type_synonym counter_key = "string \<times> gotime"

record rate_store =
  rl_counters :: "counter_key \<rightharpoonup> int"
  rl_expiry :: "counter_key \<rightharpoonup> gotime"

definition new_rate_store :: rate_store where
  "new_rate_store = \<lparr>rl_counters = Map.empty, rl_expiry = Map.empty\<rparr>"

definition rate_elapsed :: "gotime \<Rightarrow> rate_store \<Rightarrow> counter_key \<Rightarrow> bool" where
  "rate_elapsed now m ck = (case rl_expiry m ck of None \<Rightarrow> False | Some e \<Rightarrow> \<not> now < e)"

definition pruneLocked :: "gotime \<Rightarrow> rate_store \<Rightarrow> rate_store" where
  "pruneLocked now m =
     m\<lparr>rl_counters := (\<lambda>ck. if rate_elapsed now m ck then None else rl_counters m ck),
       rl_expiry := (\<lambda>ck. if rate_elapsed now m ck then None else rl_expiry m ck)\<rparr>"

definition rate_Peek :: "string \<Rightarrow> gotime \<Rightarrow> rate_store \<Rightarrow> int" where
  "rate_Peek key windowStart m = (case rl_counters m (key, windowStart) of None \<Rightarrow> 0 | Some n \<Rightarrow> n)"

definition rate_Increment :: "gotime \<Rightarrow> string \<Rightarrow> gotime \<Rightarrow> dur \<Rightarrow> int \<Rightarrow> rate_store \<Rightarrow> int \<times> rate_store" where
  "rate_Increment now key windowStart window cost m =
     (let cost = (if cost \<le> 0 then 1 else cost);
          m1 = pruneLocked now m;
          n = wrap64 (rate_Peek key windowStart m1 + cost);
          m2 = m1\<lparr>rl_counters := (rl_counters m1)((key, windowStart) \<mapsto> n)\<rparr>;
          m3 = (if 0 < window then m2\<lparr>rl_expiry := (rl_expiry m2)((key, windowStart) \<mapsto> windowStart + window)\<rparr> else m2)
      in (n, m3))"

text \<open>\<open>now\<close> is the limiter's clock reading, \<open>now'\<close> the store's. \<open>None\<close>: the key is missing.\<close>

definition AllowPolicy ::
  "gotime \<Rightarrow> gotime \<Rightarrow> string \<Rightarrow> rate_policy \<Rightarrow> int \<Rightarrow> rate_store \<Rightarrow> rate_decision option \<times> rate_store" where
  "AllowPolicy now now' key p cost m =
     (let key = trim_space key; cost = (if cost \<le> 0 then 1 else cost) in
      if key = [] then (None, m)
      else if \<not> policy_Valid p
      then (Some \<lparr>rd_Allowed = True, rd_Limit = 0, rd_Remaining = 0, rd_ResetAt = now, rd_RetryAfter = 0\<rparr>, m)
      else
        let windowStart = WindowStart now (rp_Window p) in
        (case rate_Increment now' key windowStart (rp_Window p) cost m of
           (count, m') \<Rightarrow> (Some (rate_decide p count windowStart now), m')))"

subsection \<open>The table of policies\<close>

record policy_resolver =
  pr_default :: rate_policy
  pr_overrides :: "(string \<times> rate_policy) list"

definition normalizeAction :: "string \<Rightarrow> string" where
  "normalizeAction action = to_lower (trim_space action)"

fun copy_overrides :: "(string \<times> rate_policy) list \<Rightarrow> (string \<times> rate_policy) list \<Rightarrow> (string \<times> rate_policy) list" where
  "copy_overrides acc [] = acc"
| "copy_overrides acc ((a, p) # os) = copy_overrides (AList.update (normalizeAction a) p acc) os"

definition NewPolicyResolver :: "rate_policy \<Rightarrow> (string \<times> rate_policy) list \<Rightarrow> policy_resolver" where
  "NewPolicyResolver d overrides = \<lparr>pr_default = d, pr_overrides = copy_overrides [] overrides\<rparr>"

definition per_minute :: "int \<Rightarrow> int \<Rightarrow> rate_policy" where
  "per_minute limit burst = \<lparr>rp_Limit = limit, rp_Window = minute, rp_Burst = burst\<rparr>"

definition DefaultPolicyResolver :: policy_resolver where
  "DefaultPolicyResolver =
     NewPolicyResolver (per_minute 600 0)
       [(''job:create'', per_minute 120 30), (''job:read'', per_minute 600 0), (''job:list'', per_minute 300 0),
        (''job:cancel'', per_minute 120 0), (''job:retry'', per_minute 120 30), (''admin:manage'', per_minute 120 30)]"

text \<open>A nil resolver is \<open>None\<close>.\<close>

definition policy_Resolve :: "policy_resolver option \<Rightarrow> string \<Rightarrow> rate_policy" where
  "policy_Resolve r action =
     (case r of
        None \<Rightarrow> \<lparr>rp_Limit = 0, rp_Window = 0, rp_Burst = 0\<rparr>
      | Some r \<Rightarrow> (case map_of (pr_overrides r) (normalizeAction action) of Some p \<Rightarrow> p | None \<Rightarrow> pr_default r))"

definition resolver_Policies :: "policy_resolver \<Rightarrow> (string \<times> rate_policy) list" where
  "resolver_Policies r = fold (\<lambda>(a, p) acc. AList.update a p acc) (pr_overrides r) [(''*'', pr_default r)]"

definition resolver_Actions :: "policy_resolver \<Rightarrow> string list" where
  "resolver_Actions r = sort (map fst (pr_overrides r))"

end
