(* ===== verification/RateLimitProps.thy ===== *)
theory RateLimitProps
  imports RateLimit
begin

text \<open>
  What the limiter guarantees, stated over any counter store that keeps the law of
  \<open>Increment\<close> (the locale \<open>window_counter\<close>): a call counts on top of what its window was charged
  before, except that a call whose store reads a clock past the window's end starts the count
  anew. The in-process store is an instance.
\<close>

subsection \<open>The interface of a counter store\<close>

locale window_counter =
  fixes increment :: "'c \<Rightarrow> string \<Rightarrow> gotime \<Rightarrow> dur \<Rightarrow> int \<Rightarrow> 's \<Rightarrow> int \<times> 's"
    and peek :: "counter_key \<Rightarrow> 's \<Rightarrow> int"
    and timely :: "counter_key \<Rightarrow> dur \<Rightarrow> 'c \<Rightarrow> bool" \<comment> \<open>the call leaves the window's counter alone\<close>
    and tracked :: "counter_key \<Rightarrow> dur \<Rightarrow> 's \<Rightarrow> bool" \<comment> \<open>invariant of a window's counter\<close>
  assumes counted: "tracked ck w s \<Longrightarrow> 0 < w \<Longrightarrow> 0 < n \<Longrightarrow> b = (if timely ck w c then peek ck s else 0) \<Longrightarrow> 0 \<le> b \<Longrightarrow>
      b + n < 2 ^ 63 \<Longrightarrow> increment c (fst ck) (snd ck) w n s = (k, s') \<Longrightarrow>
      k = b + n \<and> peek ck s' = b + n \<and> tracked ck w s'"
    and others: "tracked ck w s \<Longrightarrow> (key, ws) \<noteq> ck \<Longrightarrow> increment c key ws w' n s = (k, s') \<Longrightarrow>
      peek ck s' = (if timely ck w c then peek ck s else 0) \<and> tracked ck w s'"

text \<open>The in-process store: a counter lives to the end of its window.\<close>

definition mem_tracked :: "counter_key \<Rightarrow> dur \<Rightarrow> rate_store \<Rightarrow> bool" where
  "mem_tracked ck w m = (rl_expiry m ck = map_option (\<lambda>n. snd ck + w) (rl_counters m ck))"

definition mem_timely :: "counter_key \<Rightarrow> dur \<Rightarrow> gotime \<Rightarrow> bool" where
  "mem_timely ck w now = (now < snd ck + w)"

definition mem_peek :: "counter_key \<Rightarrow> rate_store \<Rightarrow> int" where
  "mem_peek ck m = rate_Peek (fst ck) (snd ck) m"

lemma pruned_counter:
  assumes "mem_tracked ck w m"
  shows "rl_counters (pruneLocked now m) ck = (if mem_timely ck w now then rl_counters m ck else None)"
    and "rl_expiry (pruneLocked now m) ck = (if mem_timely ck w now then rl_expiry m ck else None)"
  using assms by (auto simp: mem_tracked_def mem_timely_def pruneLocked_def rate_elapsed_def split: option.splits)

interpretation mem_counter: window_counter rate_Increment mem_peek mem_timely mem_tracked
proof unfold_locales
  fix ck w s c n b k s'
  assume tr: "mem_tracked ck w s" and n: "0 < (w :: dur)" "0 < (n :: int)" "0 \<le> b" "b + n < 2 ^ 63"
    and b: "b = (if mem_timely ck w c then mem_peek ck s else 0)"
    and run: "rate_Increment c (fst ck) (snd ck) w n s = (k, s')"
  note kept = pruned_counter [OF tr]
  have "wrap64 (b + n) = b + n" using n by (intro wrap64_id) linarith+
  moreover have "rate_Peek (fst ck) (snd ck) (pruneLocked c s) = b"
    using kept by (simp add: b mem_peek_def rate_Peek_def)
  ultimately show "k = b + n \<and> mem_peek ck s' = b + n \<and> mem_tracked ck w s'"
    using run n(1,2) by (auto simp: rate_Increment_def mem_peek_def rate_Peek_def mem_tracked_def Let_def)
next
  fix ck w s c key ws w' n k s'
  assume tr: "mem_tracked ck w s" and ne: "(key, ws) \<noteq> ck" and run: "rate_Increment c key ws w' n s = (k, s')"
  note kept = pruned_counter [OF tr]
  show "mem_peek ck s' = (if mem_timely ck w c then mem_peek ck s else 0) \<and> mem_tracked ck w s'"
    using run ne kept tr by (cases ck) (auto simp: rate_Increment_def mem_peek_def rate_Peek_def mem_tracked_def Let_def
        split: if_splits)
qed

subsection \<open>Runs of calls\<close>

record rate_call =
  rc_key :: string
  rc_policy :: rate_policy
  rc_cost :: int
  rc_now :: gotime
  rc_store_now :: gotime

definition call_Allow :: "rate_call \<Rightarrow> rate_store \<Rightarrow> rate_decision option \<times> rate_store" where
  "call_Allow c m = AllowPolicy (rc_now c) (rc_store_now c) (rc_key c) (rc_policy c) (rc_cost c) m"

definition call_cost :: "rate_call \<Rightarrow> int" where
  "call_cost c = (if rc_cost c \<le> 0 then 1 else rc_cost c)"

text \<open>The calls charged to a key in the window that starts at \<open>ws\<close>.\<close>

definition hits :: "string \<Rightarrow> rate_policy \<Rightarrow> gotime \<Rightarrow> rate_call \<Rightarrow> bool" where
  "hits k p ws c = (trim_space (rc_key c) = k \<and> rc_policy c = p \<and> WindowStart (rc_now c) (rp_Window p) = ws)"

fun charged :: "string \<Rightarrow> rate_policy \<Rightarrow> gotime \<Rightarrow> rate_call list \<Rightarrow> int" where
  "charged k p ws [] = 0"
| "charged k p ws (c # cs) = (if hits k p ws c then call_cost c else 0) + charged k p ws cs"

fun let_through :: "string \<Rightarrow> rate_policy \<Rightarrow> gotime \<Rightarrow> rate_call list \<Rightarrow> rate_store \<Rightarrow> int" where
  "let_through k p ws [] m = 0"
| "let_through k p ws (c # cs) m =
     (case call_Allow c m of
        (d, m') \<Rightarrow> (if hits k p ws c \<and> (case d of Some x \<Rightarrow> rd_Allowed x | None \<Rightarrow> False) then call_cost c else 0) +
          let_through k p ws cs m')"

definition rate_run :: "rate_call list \<Rightarrow> rate_store \<Rightarrow> rate_store" where
  "rate_run cs m = fold (\<lambda>c m. snd (call_Allow c m)) cs m"

text \<open>All calls for the key use its policy.\<close>

definition one_policy :: "string \<Rightarrow> rate_policy \<Rightarrow> rate_call \<Rightarrow> bool" where
  "one_policy k p c = (trim_space (rc_key c) = k \<longrightarrow> rc_policy c = p)"

text \<open>
  A late call, of whatever key: it reaches the store when the store's clock has left the window. Such a call
  drops the counter of the window.
\<close>

definition late_call :: "rate_policy \<Rightarrow> gotime \<Rightarrow> rate_call \<Rightarrow> bool" where
  "late_call p ws c = (ws + rp_Window p \<le> rc_store_now c \<and> trim_space (rc_key c) \<noteq> [] \<and> policy_Valid (rc_policy c))"

fun late_calls :: "rate_policy \<Rightarrow> gotime \<Rightarrow> rate_call list \<Rightarrow> int" where
  "late_calls p ws [] = 0"
| "late_calls p ws (c # cs) = (if late_call p ws c then 1 else 0) + late_calls p ws cs"

text \<open>The costs charged to the key in the window since the last late call, \<open>n\<close> of them before \<open>cs\<close>.\<close>

fun charged_since_late :: "string \<Rightarrow> rate_policy \<Rightarrow> gotime \<Rightarrow> int \<Rightarrow> rate_call list \<Rightarrow> int" where
  "charged_since_late k p ws n [] = n"
| "charged_since_late k p ws n (c # cs) =
     charged_since_late k p ws ((if late_call p ws c then 0 else n) + (if hits k p ws c then call_cost c else 0)) cs"

lemma call_cost_pos: "0 < call_cost c"
  by (simp add: call_cost_def)

lemma charged_nonneg: "0 \<le> charged k p ws cs"
  using call_cost_pos by (induction cs) (auto simp: less_imp_le add_nonneg_nonneg)

lemma late_calls_nonneg: "0 \<le> late_calls p ws cs"
  by (induction cs) auto

lemma charged_append: "charged k p ws (cs @ ds) = charged k p ws cs + charged k p ws ds"
  by (induction cs) auto

lemma since_late_append:
  "charged_since_late k p ws n (cs @ ds) = charged_since_late k p ws (charged_since_late k p ws n cs) ds"
  by (induction cs arbitrary: n) auto

lemma since_late_bounds: "0 \<le> n \<Longrightarrow> 0 \<le> charged_since_late k p ws n cs \<and> charged_since_late k p ws n cs \<le> n + charged k p ws cs"
proof (induction cs arbitrary: n)
  case (Cons c cs)
  let ?n = "(if late_call p ws c then 0 else n) + (if hits k p ws c then call_cost c else 0)"
  have "0 \<le> ?n" "?n \<le> n + (if hits k p ws c then call_cost c else 0)" using Cons.prems call_cost_pos [of c] by auto
  with Cons.IH [of ?n] show ?case by auto
qed simp

text \<open>With no late call these are all its costs.\<close>

lemma never_late:
  "late_calls p ws cs = 0 \<Longrightarrow> charged_since_late k p ws n cs = n + charged k p ws cs"
proof (induction cs arbitrary: n)
  case (Cons c cs)
  then have "\<not> late_call p ws c" "late_calls p ws cs = 0"
    using late_calls_nonneg [of p ws cs] by (auto split: if_splits)
  then show ?case using Cons.IH by simp
qed simp

lemma late_call_timely:
  assumes "late_call p ws c \<or> trim_space (rc_key c) \<noteq> [] \<and> policy_Valid (rc_policy c)"
  shows "mem_timely (k, ws) (rp_Window p) (rc_store_now c) \<longleftrightarrow> \<not> late_call p ws c"
  using assms by (auto simp: late_call_def mem_timely_def)

lemma hit_decision:
  assumes "policy_Valid p" "k \<noteq> []" "hits k p ws c" "mem_tracked (k, ws) (rp_Window p) m"
    and b: "b = (if late_call p ws c then 0 else mem_peek (k, ws) m)" and "0 \<le> b" "b + call_cost c < 2 ^ 63"
  obtains d m' where "call_Allow c m = (Some d, m')" "mem_peek (k, ws) m' = b + call_cost c"
    "mem_tracked (k, ws) (rp_Window p) m'" "d = rate_decide p (b + call_cost c) ws (rc_now c)"
proof -
  obtain n m' where inc: "rate_Increment (rc_store_now c) k ws (rp_Window p) (call_cost c) m = (n, m')" by fastforce
  have "mem_timely (k, ws) (rp_Window p) (rc_store_now c) \<longleftrightarrow> \<not> late_call p ws c"
    by (rule late_call_timely) (use assms(1-3) in \<open>simp add: hits_def\<close>)
  then have "n = b + call_cost c \<and> mem_peek (k, ws) m' = b + call_cost c \<and> mem_tracked (k, ws) (rp_Window p) m'"
    using mem_counter.counted [OF assms(4) _ call_cost_pos _ assms(6,7), of "rc_store_now c" n m'] inc assms(1) b
    by (simp add: policy_Valid_def)
  moreover have "call_Allow c m = (Some (rate_decide p n ws (rc_now c)), m')"
    using assms(1-3) inc by (simp add: call_Allow_def AllowPolicy_def hits_def call_cost_def Let_def)
  ultimately show ?thesis using that by blast
qed

lemma miss_decision:
  assumes "\<not> hits k p ws c" "one_policy k p c" "mem_tracked (k, ws) (rp_Window p) m" "call_Allow c m = (d, m')"
  shows "mem_peek (k, ws) m' = (if late_call p ws c then 0 else mem_peek (k, ws) m) \<and> mem_tracked (k, ws) (rp_Window p) m'"
proof (cases "trim_space (rc_key c) = [] \<or> \<not> policy_Valid (rc_policy c)")
  case True
  then have "m' = m" using assms(4) by (auto simp: call_Allow_def AllowPolicy_def Let_def split: if_splits)
  then show ?thesis using assms(3) True by (auto simp: late_call_def)
next
  case False
  let ?w = "rp_Window (rc_policy c)"
  have ne: "(trim_space (rc_key c), WindowStart (rc_now c) ?w) \<noteq> (k, ws)"
    using assms(1,2) by (auto simp: hits_def one_policy_def)
  obtain n where
    "rate_Increment (rc_store_now c) (trim_space (rc_key c)) (WindowStart (rc_now c) ?w) ?w (call_cost c) m = (n, m')"
    using assms(4) False by (auto simp: call_Allow_def AllowPolicy_def Let_def call_cost_def split: prod.splits)
  from mem_counter.others [OF assms(3) ne this] show ?thesis
    using late_call_timely [of p ws c k] False by simp
qed

lemma rate_run_counts:
  assumes "policy_Valid p" "k \<noteq> []" "list_all (one_policy k p) cs" "mem_tracked (k, ws) (rp_Window p) m"
    and "0 \<le> mem_peek (k, ws) m" "mem_peek (k, ws) m + charged k p ws cs < 2 ^ 63"
  shows "mem_peek (k, ws) (rate_run cs m) = charged_since_late k p ws (mem_peek (k, ws) m) cs \<and>
    mem_tracked (k, ws) (rp_Window p) (rate_run cs m) \<and>
    let_through k p ws cs m \<le> max 0 (policy_Capacity p - mem_peek (k, ws) m) + policy_Capacity p * late_calls p ws cs"
  using assms
proof (induction cs arbitrary: m)
  case Nil
  then show ?case by (simp add: rate_run_def)
next
  case (Cons c cs)
  have cap: "0 \<le> policy_Capacity p" by (simp add: policy_Capacity_def Let_def)
  note nn = charged_nonneg [of k p ws cs] call_cost_pos [of c]
  define b where "b = (if late_call p ws c then 0 else mem_peek (k, ws) m)"
  have b: "0 \<le> b" "b \<le> mem_peek (k, ws) m" using Cons.prems(5) by (simp_all add: b_def)
  show ?case
  proof (cases "hits k p ws c")
    case True
    then have lt: "b + call_cost c < 2 ^ 63" using Cons.prems(6) nn b by simp
    from Cons.prems True obtain d m' where run: "call_Allow c m = (Some d, m')"
      and pk: "mem_peek (k, ws) m' = b + call_cost c" and tr: "mem_tracked (k, ws) (rp_Window p) m'"
      and d: "d = rate_decide p (b + call_cost c) ws (rc_now c)"
      by (elim hit_decision [OF _ _ True _ b_def b(1) lt]) auto
    have al: "rd_Allowed d = (b + call_cost c \<le> policy_Capacity p)"
      by (simp add: d rate_decide_def Let_def)
    have "mem_peek (k, ws) m' + charged k p ws cs < 2 ^ 63" using Cons.prems(6) True pk b by simp
    note ih = Cons.IH [OF Cons.prems(1,2) _ tr _ this]
    have "let_through k p ws cs m' \<le> max 0 (policy_Capacity p - (b + call_cost c)) + policy_Capacity p * late_calls p ws cs"
      using ih Cons.prems(3) pk b nn by simp
    moreover have "(if rd_Allowed d then call_cost c else 0) + max 0 (policy_Capacity p - (b + call_cost c)) \<le> max 0 (policy_Capacity p - b)"
      using nn b al by auto
    moreover have "max 0 (policy_Capacity p - b) + policy_Capacity p * late_calls p ws cs
        \<le> max 0 (policy_Capacity p - mem_peek (k, ws) m) + policy_Capacity p * late_calls p ws (c # cs)"
      using cap by (auto simp: b_def distrib_left)
    ultimately have "let_through k p ws (c # cs) m
        \<le> max 0 (policy_Capacity p - mem_peek (k, ws) m) + policy_Capacity p * late_calls p ws (c # cs)"
      using True run by simp
    then show ?thesis using ih Cons.prems(3) pk b nn True run by (simp add: rate_run_def b_def)
  next
    case False
    obtain d m' where run: "call_Allow c m = (d, m')" by fastforce
    with miss_decision [OF False _ Cons.prems(4) run] Cons.prems(3)
    have pk: "mem_peek (k, ws) m' = b" and tr: "mem_tracked (k, ws) (rp_Window p) m'" by (simp_all add: b_def)
    have "mem_peek (k, ws) m' + charged k p ws cs < 2 ^ 63" using Cons.prems(6) False pk b by simp
    note ih = Cons.IH [OF Cons.prems(1,2) _ tr _ this]
    have "let_through k p ws cs m' \<le> max 0 (policy_Capacity p - b) + policy_Capacity p * late_calls p ws cs"
      using ih Cons.prems(3) pk b by simp
    also have "\<dots> \<le> max 0 (policy_Capacity p - mem_peek (k, ws) m) + policy_Capacity p * late_calls p ws (c # cs)"
      using cap by (auto simp: b_def distrib_left)
    finally show ?thesis using ih Cons.prems(3) pk b False run by (simp add: rate_run_def b_def)
  qed
qed

lemma mem_fresh: "mem_tracked ck w new_rate_store" "mem_peek ck new_rate_store = 0"
  by (simp_all add: mem_tracked_def mem_peek_def rate_Peek_def new_rate_store_def)

subsection \<open>Properties\<close>

text \<open>C38. The rate limit is exact. Take any calls, of any keys and policies, where the calls of one key use
  one policy and their costs stay below \<open>2^63\<close>. In one window the key is never let through for more than the
  capacity of its policy, and that much again for each late call, a call of whatever key that takes the
  store's clock reading only after the window has ended (\<open>late_call_restarts_the_count\<close> shows that the store
  then counts anew). A call is refused exactly when the costs charged since the last late call, its own
  included, exceed the capacity, and the remaining quota it reports is the capacity less those
  costs; with no late call these are all costs of the key in the window.\<close>

theorem rate_limit_is_exact:
  assumes "policy_Valid p" and "k \<noteq> []" and "list_all (one_policy k p) cs" and "charged k p ws cs < 2 ^ 63"
  shows "let_through k p ws cs new_rate_store \<le> policy_Capacity p * (1 + late_calls p ws cs) \<and>
    (late_calls p ws cs = 0 \<longrightarrow> charged_since_late k p ws 0 cs = charged k p ws cs) \<and>
    (cs = before @ [c] \<and> hits k p ws c \<longrightarrow>
       (\<exists>d. fst (call_Allow c (rate_run before new_rate_store)) = Some d \<and>
            (rd_Allowed d \<longleftrightarrow> charged_since_late k p ws 0 cs \<le> policy_Capacity p) \<and>
            rd_Remaining d = max 0 (policy_Capacity p - charged_since_late k p ws 0 cs)))"
proof (intro conjI impI)
  have cap: "0 \<le> policy_Capacity p" by (simp add: policy_Capacity_def Let_def)
  show "let_through k p ws cs new_rate_store \<le> policy_Capacity p * (1 + late_calls p ws cs)"
    using rate_run_counts [OF assms(1-3) mem_fresh(1)] assms(4) cap by (simp add: mem_fresh(2) distrib_left)
  show "charged_since_late k p ws 0 cs = charged k p ws cs" if "late_calls p ws cs = 0" using never_late [OF that] by simp
  assume last: "cs = before @ [c] \<and> hits k p ws c"
  let ?m = "rate_run before new_rate_store" and ?n = "charged_since_late k p ws 0 before"
  let ?b = "if late_call p ws c then 0 else ?n"
  have here: "hits k p ws c" using last by simp
  have cost: "charged k p ws cs = charged k p ws before + call_cost c" using last by (simp add: charged_append)
  have since: "charged_since_late k p ws 0 cs = ?b + call_cost c" using last by (simp add: since_late_append)
  have before: "mem_peek (k, ws) ?m = ?n" "mem_tracked (k, ws) (rp_Window p) ?m"
    using rate_run_counts [OF assms(1,2) _ mem_fresh(1), of before ws] last assms(3,4) cost call_cost_pos [of c]
    by (simp_all add: mem_fresh(2))
  have eq: "?b = (if late_call p ws c then 0 else mem_peek (k, ws) ?m)" by (simp add: before(1))
  have nn: "0 \<le> ?b" "?b + call_cost c < 2 ^ 63"
    using since_late_bounds [of 0 k p ws before] assms(4) cost charged_nonneg [of k p ws before] by auto
  obtain d m' where "call_Allow c ?m = (Some d, m')" "d = rate_decide p (?b + call_cost c) ws (rc_now c)"
    by (rule hit_decision [OF assms(1,2) here before(2) eq nn])
  then show "\<exists>d. fst (call_Allow c ?m) = Some d \<and> (rd_Allowed d \<longleftrightarrow> charged_since_late k p ws 0 cs \<le> policy_Capacity p) \<and>
      rd_Remaining d = max 0 (policy_Capacity p - charged_since_late k p ws 0 cs)"
    unfolding since by (auto simp: rate_decide_def Let_def max_def)
qed

definition wit_call :: "int \<Rightarrow> gotime \<Rightarrow> gotime \<Rightarrow> rate_call" where
  "wit_call cost now now' =
     \<lparr>rc_key = ''t:a'', rc_policy = \<lparr>rp_Limit = 2, rp_Window = 100, rp_Burst = 1\<rparr>, rc_cost = cost, rc_now = now, rc_store_now = now'\<rparr>"

lemma rate_limit_is_exact_witness:
  "let_through ''t:a'' \<lparr>rp_Limit = 2, rp_Window = 100, rp_Burst = 1\<rparr> 100 [wit_call 2 110 111, wit_call 2 120 121, wit_call 3 130 200]
     new_rate_store \<le> 3 * 2 \<and>
   map_option rd_Allowed (fst (call_Allow (wit_call 2 120 121) (rate_run [wit_call 2 110 111] new_rate_store))) = Some False"
proof -
  let ?p = "\<lparr>rp_Limit = 2, rp_Window = 100, rp_Burst = 1\<rparr>"
  have t: "trim_space ''t:a'' = ''t:a''" by code_simp
  have p: "policy_Valid ?p" "policy_Capacity ?p = 3" by (simp_all add: policy_Valid_def policy_Capacity_def wrap64_def)
  have w: "hits ''t:a'' ?p 100 (wit_call 2 120 121)" by (simp add: hits_def wit_call_def t WindowStart_def)
  have "charged ''t:a'' ?p 100 [wit_call 2 110 111, wit_call 2 120 121, wit_call 3 130 200] = 7"
    "charged ''t:a'' ?p 100 [wit_call 2 110 111, wit_call 2 120 121] = 4"
    "charged_since_late ''t:a'' ?p 100 0 [wit_call 2 110 111, wit_call 2 120 121] = 4"
    "late_calls ?p 100 [wit_call 2 110 111, wit_call 2 120 121, wit_call 3 130 200] = 1"
    by (simp_all add: hits_def wit_call_def t WindowStart_def call_cost_def late_call_def p(1))
  note n = this
  have one: "one_policy ''t:a'' ?p (wit_call k a b)" for k a b by (simp add: one_policy_def wit_call_def)
  have "let_through ''t:a'' ?p 100 [wit_call 2 110 111, wit_call 2 120 121, wit_call 3 130 200] new_rate_store \<le> 3 * (1 + 1)"
    using rate_limit_is_exact [OF p(1), of "''t:a''" "[wit_call 2 110 111, wit_call 2 120 121, wit_call 3 130 200]" 100]
    unfolding n p(2) by (simp only: list.pred_inject one) simp
  moreover have "\<exists>d. fst (call_Allow (wit_call 2 120 121) (rate_run [wit_call 2 110 111] new_rate_store)) = Some d \<and>
      (rd_Allowed d \<longleftrightarrow> (4::int) \<le> 3)"
    using rate_limit_is_exact [OF p(1), of "''t:a''" "[wit_call 2 110 111, wit_call 2 120 121]" 100 "[wit_call 2 110 111]" "wit_call 2 120 121"] w
    unfolding n p(2) by (simp only: list.pred_inject one append_Cons append_Nil) auto
  ultimately show ?thesis by auto
qed

text \<open>
  The two clock readings are not atomic: a call that the store sees after the window has ended
  finds its counter pruned and is let through, although the capacity is used up.
\<close>

lemma late_call_restarts_the_count:
  "let_through ''t:a'' \<lparr>rp_Limit = 2, rp_Window = 100, rp_Burst = 1\<rparr> 100 [wit_call 3 110 111, wit_call 3 199 200] new_rate_store = 6"
  by code_simp

end
