(* ===== verification/Region.thy ===== *)
theory Region
  imports Prelude
begin

text \<open>
  Regions (\<open>region/region.go\<close>, \<open>region/pin.go\<close>, \<open>region/router.go\<close>, \<open>region/killswitch.go\<close>): the
  state of a region, the pins of tenants, routing of jobs to a home region and the kill switch
  of the current one. A resolver is a function that may fail (\<open>None\<close>); \<open>os.Getenv\<close> is an argument.
\<close>

type_synonym region = string
type_synonym region_state = string

definition RegionActive :: region_state where "RegionActive = ''active''"
definition RegionDraining :: region_state where "RegionDraining = ''draining''"
definition RegionDisabled :: region_state where "RegionDisabled = ''disabled''"

type_synonym region_store = "region \<rightharpoonup> region_state"

definition region_Get :: "region \<Rightarrow> region_store \<Rightarrow> region_state" where
  "region_Get r m = (case m r of None \<Rightarrow> RegionActive | Some s \<Rightarrow> s)"

definition validTransitions :: "region_state \<Rightarrow> region_state list option" where
  "validTransitions s =
     (if s = RegionActive then Some [RegionDraining, RegionDisabled]
      else if s = RegionDraining then Some [RegionActive, RegionDisabled]
      else if s = RegionDisabled then Some [RegionActive]
      else None)"

datatype region_error = RegionUnknownState | RegionInvalidTransition

definition region_SetState :: "region \<Rightarrow> region_state \<Rightarrow> region_store \<Rightarrow> region_error option \<times> region_store" where
  "region_SetState r s m =
     (if s \<noteq> RegionActive \<and> s \<noteq> RegionDraining \<and> s \<noteq> RegionDisabled then (Some RegionUnknownState, m)
      else
        let current = region_Get r m in
        if current = s then (None, m)
        else if (case validTransitions current of None \<Rightarrow> True | Some allowed \<Rightarrow> s \<notin> set allowed)
        then (Some RegionInvalidTransition, m)
        else (None, m(r \<mapsto> s)))"

definition region_IsHealthy :: "region \<Rightarrow> region_store \<Rightarrow> bool" where
  "region_IsHealthy r m = (region_Get r m = RegionActive)"

definition KnownRegions :: "(region \<times> region_state) list \<Rightarrow> region list" where
  "KnownRegions all = sort (map fst all)"

subsection \<open>Pins\<close>

definition memory_HomeRegion :: "(string \<rightharpoonup> region) \<Rightarrow> string \<Rightarrow> region option" where
  "memory_HomeRegion pins tenantID =
     (if tenantID = [] then Some [] else Some (case pins tenantID of None \<Rightarrow> [] | Some r \<Rightarrow> r))"

definition region_Pin :: "(string \<Rightarrow> region option) \<Rightarrow> region \<Rightarrow> string \<Rightarrow> region" where
  "region_Pin resolver current tenantID =
     (if tenantID = [] then current
      else (case resolver tenantID of
              None \<Rightarrow> current
            | Some home \<Rightarrow> if home = [] then current else home))"

subsection \<open>Routing\<close>

text \<open>\<open>Inr []\<close>: no override; \<open>Inl ()\<close>: \<open>ErrRegionMismatch\<close>.\<close>

definition region_Route :: "(string \<Rightarrow> region option) \<Rightarrow> region \<Rightarrow> string \<Rightarrow> region_store \<Rightarrow> unit + region" where
  "region_Route resolver current tenantID m =
     (case resolver tenantID of
        None \<Rightarrow> Inr []
      | Some home \<Rightarrow>
          if home = [] then Inr []
          else if home = current then Inr []
          else if region_IsHealthy home m then Inr home
          else Inl ())"

subsection \<open>The kill switch\<close>

record region_audit =
  ra_Tenant :: string
  ra_App :: string
  ra_Actor :: string
  ra_Resource :: string
  ra_Outcome :: string
  ra_At :: gotime

definition kill_CurrentState :: "region \<Rightarrow> region_store \<Rightarrow> region_state" where
  "kill_CurrentState current m = (if current = [] then RegionActive else region_Get current m)"

definition IsAcceptingJobs :: "region \<Rightarrow> region_store \<Rightarrow> bool" where
  "IsAcceptingJobs current m = (kill_CurrentState current m = RegionActive)"

definition region_IsReady :: "region \<Rightarrow> region_store \<Rightarrow> bool" where
  "region_IsReady current m = (kill_CurrentState current m \<noteq> RegionDisabled)"

text \<open>The audit record is handed to the audit store, whose outcome is ignored.\<close>

definition kill_SetState ::
  "gotime \<Rightarrow> region \<Rightarrow> region_state \<Rightarrow> string \<Rightarrow> string \<Rightarrow> string \<Rightarrow> region_store
   \<Rightarrow> region_error option \<times> region_audit option \<times> region_store" where
  "kill_SetState now r s actor tenantID appID m =
     (case region_SetState r s m of
        (Some e, m') \<Rightarrow> (Some e, None, m')
      | (None, m') \<Rightarrow>
          (None, Some \<lparr>ra_Tenant = tenantID, ra_App = appID, ra_Actor = actor, ra_Resource = ''region:'' @ r,
                  ra_Outcome = ''state:'' @ s, ra_At = now\<rparr>, m'))"

subsection \<open>What routing guarantees\<close>

lemma region_state_distinct [simp]:
  "RegionActive \<noteq> RegionDraining" "RegionActive \<noteq> RegionDisabled" "RegionDraining \<noteq> RegionDisabled"
  "RegionDraining \<noteq> RegionActive" "RegionDisabled \<noteq> RegionActive" "RegionDisabled \<noteq> RegionDraining"
  by (simp_all add: RegionActive_def RegionDraining_def RegionDisabled_def)

definition region_ok :: "region_store \<Rightarrow> bool" where
  "region_ok m = (\<forall>r s. m r = Some s \<longrightarrow> s \<in> {RegionActive, RegionDraining, RegionDisabled})"

fun region_step :: "region \<times> region_state \<Rightarrow> region_store \<Rightarrow> region_store" where
  "region_step (r, s) m = snd (region_SetState r s m)"

lemma region_step_ok: "region_ok m \<Longrightarrow> region_ok (region_step op m)"
  by (cases op) (auto simp: region_ok_def region_SetState_def Let_def split: if_splits)

interpretation region_machine: machine region_step region_ok
  by unfold_locales (rule region_step_ok)

text \<open>Whatever state changes were asked for, a region is active, draining or disabled; the change
  just made concerned its region alone, and a disabled region is never put into draining.\<close>

theorem region_states_are_guarded:
  "(let m = fold region_step ops Map.empty; m' = region_step (r, s) m in
    region_ok m' \<and> (x \<noteq> r \<longrightarrow> m' x = m x) \<and>
    (region_Get x m = RegionDisabled \<longrightarrow> region_Get x m' \<in> {RegionDisabled, RegionActive}) \<and>
    (fst (region_SetState r s m) = None \<longrightarrow> region_Get r m' = s))"
proof -
  define m where "m = fold region_step ops Map.empty"
  have "region_ok m" unfolding m_def by (rule region_machine.run_inv) (simp add: region_ok_def)
  then have "region_ok (region_step (r, s) m)" by (rule region_step_ok)
  moreover have "x \<noteq> r \<longrightarrow> region_step (r, s) m x = m x" by (simp add: region_SetState_def Let_def)
  moreover have "region_Get x m = RegionDisabled \<longrightarrow> region_Get x (region_step (r, s) m) \<in> {RegionDisabled, RegionActive}"
    by (cases "x = r") (auto simp: region_SetState_def region_Get_def validTransitions_def Let_def)
  moreover have "fst (region_SetState r s m) = None \<longrightarrow> region_Get r (region_step (r, s) m) = s"
    by (auto simp: region_SetState_def region_Get_def Let_def)
  ultimately show ?thesis by (simp add: m_def Let_def)
qed

text \<open>A job leaves the current region only for a pinned, healthy home.\<close>

lemma route_override:
  "region_Route resolver current tenantID m = Inr r \<Longrightarrow> r \<noteq> [] \<Longrightarrow>
     resolver tenantID = Some r \<and> r \<noteq> current \<and> region_Get r m = RegionActive"
  by (auto simp: region_Route_def region_IsHealthy_def split: option.splits if_splits)

lemma route_mismatch:
  "region_Route resolver current tenantID m = Inl () \<longleftrightarrow>
     (\<exists>home. resolver tenantID = Some home \<and> home \<noteq> [] \<and> home \<noteq> current \<and> region_Get home m \<noteq> RegionActive)"
  by (auto simp: region_Route_def region_IsHealthy_def split: option.splits if_splits)

end
