(* ===== verification/AttemptCap.thy ===== *)
theory AttemptCap
  imports JobMachine GoNet
begin

text \<open>
  Attempt capability tokens (\<open>attemptcap/attemptcap.go\<close>): a signed token lets a helper node read
  or write the assets of one job while its attempt is the live one. Modelled whole: the claim
  shape, the parsing of a token down to its base64 parts, issue, renewal, verification and the
  authorization against the attempt ledger.

  RSA (signing and verifying the digest of the first two parts) and \<open>encoding/json\<close> of the claims
  are the parameters \<open>cap_env\<close>; a nil key is not passed. \<open>Unix\<close> counts whole seconds.
\<close>

subsection \<open>Base 64 (raw, URL alphabet)\<close>

definition b64_alphabet :: string where
  "b64_alphabet = ''ABCDEFGHIJKLMNOPQRSTUVWXYZabcdefghijklmnopqrstuvwxyz0123456789-_''"

definition b64_char :: "nat \<Rightarrow> char" where
  "b64_char n = b64_alphabet ! n"

fun b64e :: "string \<Rightarrow> string" where
  "b64e [] = []"
| "b64e [a] = [b64_char (of_char a div 4), b64_char (of_char a mod 4 * 16)]"
| "b64e [a, b] =
     [b64_char (of_char a div 4), b64_char (of_char a mod 4 * 16 + of_char b div 16), b64_char (of_char b mod 16 * 4)]"
| "b64e (a # b # c # r) =
     b64_char (of_char a div 4) # b64_char (of_char a mod 4 * 16 + of_char b div 16) #
     b64_char (of_char b mod 16 * 4 + of_char c div 64) # b64_char (of_char c mod 64) # b64e r"

text \<open>Decoding skips line ends and ignores the unused bits of the last character.\<close>

fun b64_bytes :: "nat list \<Rightarrow> string option" where
  "b64_bytes [] = Some []"
| "b64_bytes [p] = None"
| "b64_bytes [p, q] = Some [char_of (p * 4 + q div 16)]"
| "b64_bytes [p, q, r] = Some [char_of (p * 4 + q div 16), char_of (q mod 16 * 16 + r div 4)]"
| "b64_bytes (p # q # r # s # t) =
     map_option (\<lambda>u. char_of (p * 4 + q div 16) # char_of (q mod 16 * 16 + r div 4) # char_of (r mod 4 * 64 + s) # u) (b64_bytes t)"

fun char_index :: "char \<Rightarrow> string \<Rightarrow> nat option" where
  "char_index c [] = None"
| "char_index c (x # xs) = (if x = c then Some 0 else map_option Suc (char_index c xs))"

definition b64d :: "string \<Rightarrow> string option" where
  "b64d s =
     (let cs = filter (\<lambda>c. c \<noteq> CHR 0x0A \<and> c \<noteq> CHR 0x0D) s in
      case those (map (\<lambda>c. char_index c b64_alphabet) cs) of
        None \<Rightarrow> None
      | Some ns \<Rightarrow> b64_bytes ns)"

subsection \<open>Tokens\<close>

definition cap_Audience :: string where "cap_Audience = ''ubag-helper''"
definition OpRead :: string where "OpRead = ''read''"
definition OpWrite :: string where "OpWrite = ''write''"
definition cap_MaxTTL :: dur where "cap_MaxTTL = MaxAttemptLeaseTTL"
definition maxTokenLen :: nat where "maxTokenLen = 8192"
definition maxKeys :: nat where "maxKeys = 64"
definition maxKeyLen :: nat where "maxKeyLen = 512"
definition maxFieldLen :: nat where "maxFieldLen = 256"

definition headerJSON :: string where
  "headerJSON = (let q = [CHR 0x22] in ''{'' @ q @ ''alg'' @ q @ '':'' @ q @ ''RS256'' @ q @ '','' @ q @ ''typ'' @ q @ '':'' @ q @ ''ubag-attempt'' @ q @ ''}'')"

datatype cap_error =
    CapInvalid
  | CapExpired
  | CapWrongNode
  | CapWrongGeneration
  | CapWrongBinding
  | CapLeaseExceeded
  | CapNotAllowed
  | CapFenced

record cap_claims =
  cc_Aud :: string
  cc_Node :: string
  cc_Attempt :: string
  cc_Generation :: u64
  cc_Job :: string
  cc_Tenant :: string
  cc_Keys :: "string list"
  cc_Ops :: "string list"
  cc_IssuedAt :: int
  cc_Expires :: int

record cap_env =
  ce_decode :: "string \<Rightarrow> cap_claims option"
  ce_encode :: "cap_claims \<Rightarrow> string"
  ce_sign :: "string \<Rightarrow> string"
  ce_verify :: "string \<Rightarrow> string \<Rightarrow> bool"

definition unix :: "gotime \<Rightarrow> int" where
  "unix t = t div second - 62135596800"

definition validShape :: "cap_claims \<Rightarrow> bool" where
  "validShape c =
     (\<not> (cc_Aud c \<noteq> cap_Audience \<or> cc_Generation c = 0 \<or> cc_IssuedAt c \<le> 0 \<or> cc_Expires c \<le> 0) \<and>
      list_all (\<lambda>f. \<not> (f = [] \<or> maxFieldLen < length f \<or> f \<noteq> trim_space f)) [cc_Node c, cc_Attempt c, cc_Job c, cc_Tenant c] \<and>
      ValidAttemptID (cc_Attempt c) \<and>
      \<not> (cc_Keys c = [] \<or> maxKeys < length (cc_Keys c) \<or> cc_Ops c = [] \<or> 2 < length (cc_Ops c)) \<and>
      list_all (\<lambda>k. \<not> (k = [] \<or> maxKeyLen < length k)) (cc_Keys c) \<and>
      list_all (\<lambda>opn. \<not> (opn \<noteq> OpRead \<and> opn \<noteq> OpWrite)) (cc_Ops c))"

definition leaseBoundedExpiry :: "attempt \<Rightarrow> dur \<Rightarrow> gotime \<Rightarrow> cap_error + int" where
  "leaseBoundedExpiry a ttl now =
     (if att_State a \<noteq> AttemptActive then Inl CapFenced
      else if ttl \<le> 0 \<or> cap_MaxTTL < ttl then Inl CapInvalid
      else
        let until = (if att_LeaseExpiresAt a < now + ttl then att_LeaseExpiresAt a else now + ttl) in
        if \<not> now < until then Inl CapLeaseExceeded
        else Inr (unix until))"

definition cap_sign :: "cap_env \<Rightarrow> cap_claims \<Rightarrow> string" where
  "cap_sign env c =
     (let input = b64e headerJSON @ ''.'' @ b64e (ce_encode env c)
      in input @ ''.'' @ b64e (ce_sign env input))"

definition cap_parse :: "cap_env \<Rightarrow> string \<Rightarrow> gotime \<Rightarrow> cap_error + cap_claims" where
  "cap_parse env token now =
     (if maxTokenLen < length token \<or> IsZero now then Inl CapInvalid
      else
        (case split_on (CHR ''.'') token of
           [p0, p1, p2] \<Rightarrow>
             (case b64d p0 of
                None \<Rightarrow> Inl CapInvalid
              | Some header \<Rightarrow>
                  if header \<noteq> headerJSON then Inl CapInvalid
                  else
                    (case b64d p2 of
                       None \<Rightarrow> Inl CapInvalid
                     | Some sig \<Rightarrow>
                         if \<not> ce_verify env (p0 @ ''.'' @ p1) sig then Inl CapInvalid
                         else
                           (case b64d p1 of
                              None \<Rightarrow> Inl CapInvalid
                            | Some payload \<Rightarrow>
                                (case ce_decode env payload of
                                   None \<Rightarrow> Inl CapInvalid
                                 | Some c \<Rightarrow>
                                     if \<not> validShape c then Inl CapInvalid
                                     else if cc_Expires c < unix now then Inl CapExpired
                                     else Inr c))))
         | _ \<Rightarrow> Inl CapInvalid))"

subsection \<open>Issue and renewal\<close>

definition cap_Issue :: "cap_env \<Rightarrow> attempt \<Rightarrow> string \<Rightarrow> string list \<Rightarrow> string list \<Rightarrow> dur \<Rightarrow> gotime \<Rightarrow> cap_error + string" where
  "cap_Issue env a tenant keys ops ttl now =
     (case leaseBoundedExpiry a ttl now of
        Inl e \<Rightarrow> Inl e
      | Inr until \<Rightarrow>
          let c = \<lparr>cc_Aud = cap_Audience, cc_Node = att_NodeID a, cc_Attempt = att_AttemptID a,
                   cc_Generation = att_Generation a, cc_Job = att_JobID a, cc_Tenant = tenant, cc_Keys = keys,
                   cc_Ops = ops, cc_IssuedAt = unix now, cc_Expires = until\<rparr>
          in if \<not> validShape c then Inl CapInvalid else Inr (cap_sign env c))"

definition cap_Renew :: "cap_env \<Rightarrow> string \<Rightarrow> attempt \<Rightarrow> dur \<Rightarrow> gotime \<Rightarrow> cap_error + string" where
  "cap_Renew env token a ttl now =
     (case cap_parse env token now of
        Inl e \<Rightarrow> Inl e
      | Inr c \<Rightarrow>
          if cc_Node c \<noteq> att_NodeID a \<or> cc_Attempt c \<noteq> att_AttemptID a \<or> cc_Job c \<noteq> att_JobID a then Inl CapWrongBinding
          else if cc_Generation c \<noteq> att_Generation a then Inl CapWrongGeneration
          else (case leaseBoundedExpiry a ttl now of
                  Inl e \<Rightarrow> Inl e
                | Inr until \<Rightarrow> Inr (cap_sign env (c\<lparr>cc_Expires := until\<rparr>))))"

subsection \<open>Verification\<close>

record cap_expect =
  ex_Now :: gotime
  ex_Node :: string
  ex_Attempt :: string
  ex_Generation :: u64
  ex_Job :: string
  ex_Tenant :: string
  ex_LeaseExpiresAt :: gotime
  ex_Key :: string
  ex_Op :: string

definition cap_Verify :: "cap_env \<Rightarrow> string \<Rightarrow> cap_expect \<Rightarrow> cap_error + cap_claims" where
  "cap_Verify env token e =
     (if IsZero (ex_Now e) \<or> ex_Node e = [] \<or> ex_Attempt e = [] \<or> ex_Generation e = 0 \<or> ex_Job e = [] \<or>
         ex_Tenant e = [] \<or> IsZero (ex_LeaseExpiresAt e) then Inl CapInvalid
      else
        (case cap_parse env token (ex_Now e) of
           Inl err \<Rightarrow> Inl err
         | Inr c \<Rightarrow>
             if cc_Node c \<noteq> ex_Node e then Inl CapWrongNode
             else if cc_Generation c \<noteq> ex_Generation e then Inl CapWrongGeneration
             else if cc_Attempt c \<noteq> ex_Attempt e \<or> cc_Job c \<noteq> ex_Job e \<or> cc_Tenant c \<noteq> ex_Tenant e then Inl CapWrongBinding
             else if unix (ex_LeaseExpiresAt e) < cc_Expires c then Inl CapLeaseExceeded
             else if (ex_Key e \<noteq> [] \<and> ex_Key e \<notin> set (cc_Keys c)) \<or> (ex_Op e \<noteq> [] \<and> ex_Op e \<notin> set (cc_Ops c)) then Inl CapNotAllowed
             else Inr c))"

record cap_request =
  cq_Node :: string
  cq_Tenant :: string
  cq_Key :: string
  cq_Op :: string
  cq_Now :: gotime

definition cap_Authorize :: "cap_env \<Rightarrow> string \<Rightarrow> cap_request \<Rightarrow> memory_store \<Rightarrow> cap_error + cap_claims" where
  "cap_Authorize env token r m =
     (case cap_parse env token (cq_Now r) of
        Inl e \<Rightarrow> Inl e
      | Inr c \<Rightarrow>
          (case find (\<lambda>a. att_AttemptID a = cc_Attempt c) (ListAttempts (cc_Job c) m) of
             None \<Rightarrow> Inl CapFenced
           | Some a \<Rightarrow>
               if att_State a \<noteq> AttemptActive then Inl CapFenced
               else cap_Verify env token
                      \<lparr>ex_Now = cq_Now r, ex_Node = cq_Node r, ex_Attempt = att_AttemptID a, ex_Generation = att_Generation a,
                       ex_Job = att_JobID a, ex_Tenant = cq_Tenant r, ex_LeaseExpiresAt = att_LeaseExpiresAt a,
                       ex_Key = cq_Key r, ex_Op = cq_Op r\<rparr>))"

end
