(* ===== verification/AttemptCapProps.thy ===== *)
theory AttemptCapProps
  imports AttemptCap JobProps
begin

text \<open>
  What a capability token is worth: the encoding round trips, an authorized request belongs to
  the live attempt of the ledger, and a token dies with its attempt.
\<close>

subsection \<open>The encoding\<close>

lemma of_char_less [simp]: "(of_char c :: nat) < 256"
proof -
  have "(of_char c :: nat) < 2 ^ 8" by simp
  then show ?thesis by simp
qed

lemma alphabet_index: "n < 64 \<Longrightarrow> char_index (b64_char n) b64_alphabet = Some n"
proof -
  have "list_all (\<lambda>n. char_index (b64_char n) b64_alphabet = Some n) [0..<64]" by code_simp
  then show "n < 64 \<Longrightarrow> char_index (b64_char n) b64_alphabet = Some n" by (simp add: list_all_iff)
qed

lemma alphabet_plain: "n < 64 \<Longrightarrow> b64_char n \<noteq> CHR 0x0A \<and> b64_char n \<noteq> CHR 0x0D \<and> b64_char n \<noteq> CHR ''.''"
proof -
  have "list_all (\<lambda>n. b64_char n \<noteq> CHR 0x0A \<and> b64_char n \<noteq> CHR 0x0D \<and> b64_char n \<noteq> CHR ''.'') [0..<64]" by code_simp
  then show "n < 64 \<Longrightarrow> b64_char n \<noteq> CHR 0x0A \<and> b64_char n \<noteq> CHR 0x0D \<and> b64_char n \<noteq> CHR ''.''" by (simp add: list_all_iff)
qed

text \<open>The sextets of a byte string; \<open>b64e\<close> writes each with its character.\<close>

fun sextets :: "string \<Rightarrow> nat list" where
  "sextets [] = []"
| "sextets [a] = [of_char a div 4, of_char a mod 4 * 16]"
| "sextets [a, b] = [of_char a div 4, of_char a mod 4 * 16 + of_char b div 16, of_char b mod 16 * 4]"
| "sextets (a # b # c # r) =
     of_char a div 4 # (of_char a mod 4 * 16 + of_char b div 16) # (of_char b mod 16 * 4 + of_char c div 64) #
     of_char c mod 64 # sextets r"

lemma b64e_sextets: "b64e s = map b64_char (sextets s)"
  by (induction s rule: sextets.induct) simp_all

lemma byte_parts [simp]:
  "of_char c div 4 < (64 :: nat)" "of_char c div 16 < (16 :: nat)" "of_char c div 64 < (4 :: nat)"
  "of_char c div 16 div 16 = (0 :: nat)" "of_char c div 64 div 4 = (0 :: nat)"
  "of_char c div 16 mod 16 = (of_char c div 16 :: nat)" "of_char c div 64 mod 4 = (of_char c div 64 :: nat)"
  using of_char_less [of c] by (simp_all add: div_mult2_eq [symmetric] less_mult_imp_div_less)

lemma mixed_parts [simp]:
  "of_char a mod 4 * 16 < (64 :: nat)" "of_char a mod 16 * 4 < (64 :: nat)"
  "of_char a mod 4 * 16 + of_char b div 16 < (64 :: nat)" "of_char a mod 16 * 4 + of_char b div 64 < (64 :: nat)"
proof -
  have m: "(of_char a mod 4 :: nat) \<le> 3" "(of_char a mod 16 :: nat) \<le> 15"
    using mod_less_divisor [of 4 "of_char a :: nat"] mod_less_divisor [of 16 "of_char a :: nat"] by linarith+
  have d: "(of_char b div 16 :: nat) \<le> 15" "(of_char b div 64 :: nat) \<le> 3"
    using byte_parts(2,3) [of b] by linarith+
  show "of_char a mod 4 * 16 < (64 :: nat)" "of_char a mod 16 * 4 < (64 :: nat)"
    "of_char a mod 4 * 16 + of_char b div 16 < (64 :: nat)" "of_char a mod 16 * 4 + of_char b div 64 < (64 :: nat)"
    using m d by linarith+
qed

lemma sextets_bound: "list_all (\<lambda>n. n < 64) (sextets s)"
  by (induction s rule: sextets.induct) simp_all

lemma b64_bytes_sextets: "b64_bytes (sextets s) = Some s"
  by (induction s rule: sextets.induct) simp_all

lemma those_map_Some: "list_all (\<lambda>x. f x = Some (g x)) xs \<Longrightarrow> those (map f xs) = Some (map g xs)"
  by (induction xs) simp_all

lemma b64_roundtrip: "b64d (b64e s) = Some s"
proof -
  have plain: "filter (\<lambda>c. c \<noteq> CHR 0x0A \<and> c \<noteq> CHR 0x0D) (b64e s) = b64e s"
    using sextets_bound [of s] alphabet_plain by (auto simp: b64e_sextets filter_id_conv list_all_iff)
  have "those (map (\<lambda>c. char_index c b64_alphabet) (b64e s)) = those (map (\<lambda>n. char_index (b64_char n) b64_alphabet) (sextets s))"
    by (simp add: b64e_sextets comp_def)
  also have "\<dots> = Some (map (\<lambda>n. n) (sextets s))"
    using sextets_bound [of s] alphabet_index by (intro those_map_Some) (auto simp: list_all_iff)
  finally show ?thesis by (simp only: b64d_def Let_def plain) (simp add: b64_bytes_sextets)
qed

lemma b64e_no_dot: "CHR ''.'' \<notin> set (b64e s)"
  using sextets_bound [of s] alphabet_plain by (fastforce simp: b64e_sextets list_all_iff)

lemma split_on_none: "c \<notin> set s \<Longrightarrow> split_on c s = [s]"
  by (induction s) auto

lemma split_on_part: "c \<notin> set p \<Longrightarrow> split_on c (p @ c # s) = p # split_on c s"
  by (induction p) auto

text \<open>What a signed token parses to.\<close>

lemma parse_signed:
  assumes "ce_verify env (b64e headerJSON @ ''.'' @ b64e (ce_encode env c)) (ce_sign env (b64e headerJSON @ ''.'' @ b64e (ce_encode env c)))"
    and "ce_decode env (ce_encode env c) = Some c" and "validShape c" and "length (cap_sign env c) \<le> maxTokenLen" and "now \<noteq> 0"
  shows "cap_parse env (cap_sign env c) now = (if cc_Expires c < unix now then Inl CapExpired else Inr c)"
proof -
  let ?in = "b64e headerJSON @ ''.'' @ b64e (ce_encode env c)"
  have "split_on (CHR ''.'') (cap_sign env c) = [b64e headerJSON, b64e (ce_encode env c), b64e (ce_sign env ?in)]"
    by (simp add: cap_sign_def Let_def split_on_part split_on_none b64e_no_dot)
  with assms show ?thesis by (simp add: cap_parse_def b64_roundtrip)
qed

subsection \<open>Authorization\<close>

lemma Verify_accepts:
  assumes "cap_Verify env token e = Inr c"
  shows "cap_parse env token (ex_Now e) = Inr c" "cc_Node c = ex_Node e" "cc_Generation c = ex_Generation e"
    "cc_Attempt c = ex_Attempt e" "cc_Job c = ex_Job e" "cc_Tenant c = ex_Tenant e"
    "cc_Expires c \<le> unix (ex_LeaseExpiresAt e)" "ex_Key e \<noteq> [] \<Longrightarrow> ex_Key e \<in> set (cc_Keys c)" "ex_Op e \<noteq> [] \<Longrightarrow> ex_Op e \<in> set (cc_Ops c)"
  using assms by (auto simp: cap_Verify_def split: if_splits sum.splits)

lemma parse_accepts:
  assumes "cap_parse env token now = Inr c"
  shows "validShape c" "unix now \<le> cc_Expires c"
  using assms by (auto simp: cap_parse_def split: if_splits sum.splits list.splits option.splits)

lemma Authorize_accepts:
  assumes "cap_Authorize env token r m = Inr c"
  obtains a where "a \<in> set (ms_attempts m (cc_Job c))" "att_State a = AttemptActive" "att_AttemptID a = cc_Attempt c"
    "att_Generation a = cc_Generation c" "cc_Node c = cq_Node r" "cc_Tenant c = cq_Tenant r"
    "unix (cq_Now r) \<le> cc_Expires c" "cc_Expires c \<le> unix (att_LeaseExpiresAt a)"
    "cq_Key r \<noteq> [] \<Longrightarrow> cq_Key r \<in> set (cc_Keys c)" "cq_Op r \<noteq> [] \<Longrightarrow> cq_Op r \<in> set (cc_Ops c)"
proof -
  from assms obtain c0 where p: "cap_parse env token (cq_Now r) = Inr c0"
    by (auto simp: cap_Authorize_def split: sum.splits)
  with assms obtain a where a: "find (\<lambda>a. att_AttemptID a = cc_Attempt c0) (ms_attempts m (cc_Job c0)) = Some a"
    and act: "att_State a = AttemptActive"
    and v: "cap_Verify env token \<lparr>ex_Now = cq_Now r, ex_Node = cq_Node r, ex_Attempt = att_AttemptID a,
        ex_Generation = att_Generation a, ex_Job = att_JobID a, ex_Tenant = cq_Tenant r,
        ex_LeaseExpiresAt = att_LeaseExpiresAt a, ex_Key = cq_Key r, ex_Op = cq_Op r\<rparr> = Inr c"
    by (auto simp: cap_Authorize_def ListAttempts_def split: option.splits if_splits)
  note V = Verify_accepts [OF v, simplified]
  have "c0 = c" using V(1) p by simp
  moreover have "a \<in> set (ms_attempts m (cc_Job c0))" "att_AttemptID a = cc_Attempt c0"
    using a by (auto simp: find_Some_iff)
  ultimately show ?thesis using that act V parse_accepts(2) [OF p] by simp
qed

text \<open>An attempt that has ended stays ended.\<close>

lemma ended_stays:
  assumes inv: "jobs_inv s" and a: "a \<in> set (ms_attempts s j)" "att_State a \<noteq> AttemptActive"
    and b: "b \<in> set (ms_attempts (jobs_run e ops s) j)" "att_AttemptID b = att_AttemptID a"
  shows "att_State b \<noteq> AttemptActive"
proof -
  let ?t = "jobs_run e ops s"
  from a(1) obtain i where i: "i < length (ms_attempts s j)" "ms_attempts s j ! i = a" by (auto simp: in_set_conv_nth)
  have "history_le (ms_attempts s j) (ms_attempts ?t j)"
    using jobs_run_ledger_le [OF inv, of e ops] by (simp add: ledger_le_def)
  with i have len: "i < length (ms_attempts ?t j)" and le: "att_le a (ms_attempts ?t j ! i)"
    by (auto simp: history_le_def)
  have "distinct (map att_AttemptID (ms_attempts ?t j))"
    using jobs_run_inv [OF inv, of e ops] by (simp add: jobs_inv_def ledgers_ok_def history_ok_def history_base_def)
  moreover have "att_AttemptID (ms_attempts ?t j ! i) = att_AttemptID b" using le b(2) by (simp add: att_le_def)
  ultimately have "ms_attempts ?t j ! i = b"
    using nth_mem [OF len] b(1) unfolding distinct_map by (meson inj_onD)
  with le a(2) show ?thesis by (auto simp: att_le_def)
qed

subsection \<open>Properties\<close>

text \<open>Only the live attempt of the ledger gets access: an authorized request comes from the node
  and tenant the token names, under the generation the ledger holds, for a key and an operation
  the token grants, before the token's expiry, which is no later than the lease; and a token
  whose attempt has ended is refused for ever, whatever the store goes through.\<close>

theorem capability_dies_with_attempt:
  assumes "jobs_inv s" and "a \<in> set (ms_attempts s j)" and "cap_Authorize env token r (jobs_run e ops s) = Inr c"
  shows "(\<exists>b \<in> set (ms_attempts (jobs_run e ops s) (cc_Job c)). att_State b = AttemptActive \<and>
            att_AttemptID b = cc_Attempt c \<and> att_Generation b = cc_Generation c \<and>
            unix (cq_Now r) \<le> cc_Expires c \<and> cc_Expires c \<le> unix (att_LeaseExpiresAt b)) \<and>
    cc_Node c = cq_Node r \<and> cc_Tenant c = cq_Tenant r \<and>
    (cq_Key r \<noteq> [] \<longrightarrow> cq_Key r \<in> set (cc_Keys c)) \<and> (cq_Op r \<noteq> [] \<longrightarrow> cq_Op r \<in> set (cc_Ops c)) \<and>
    (att_State a \<noteq> AttemptActive \<longrightarrow> (cc_Job c, cc_Attempt c) \<noteq> (j, att_AttemptID a))"
proof -
  from assms(3) show ?thesis
  proof (rule Authorize_accepts)
    fix b assume b: "b \<in> set (ms_attempts (jobs_run e ops s) (cc_Job c))" "att_State b = AttemptActive"
      "att_AttemptID b = cc_Attempt c" "att_Generation b = cc_Generation c" "cc_Node c = cq_Node r" "cc_Tenant c = cq_Tenant r"
      "unix (cq_Now r) \<le> cc_Expires c" "cc_Expires c \<le> unix (att_LeaseExpiresAt b)"
      "cq_Key r \<noteq> [] \<Longrightarrow> cq_Key r \<in> set (cc_Keys c)" "cq_Op r \<noteq> [] \<Longrightarrow> cq_Op r \<in> set (cc_Ops c)"
    have "(cc_Job c, cc_Attempt c) \<noteq> (j, att_AttemptID a)" if "att_State a \<noteq> AttemptActive"
      using ended_stays [OF assms(1,2) that, of b e ops] b(1-3) by auto
    with b show ?thesis by blast
  qed
qed

text \<open>C40. A token issued for the live attempt opens what it grants: until its expiry, the node that
  holds the attempt is authorized with it, with exactly the claims it was issued with, if the token has at most 8192
  characters. A longer token, which \<open>Issue\<close> does not refuse (\<open>Issue_mints_oversized_tokens\<close>), is
  invalid from the start. (A signature verifies, and the claims survive the JSON encoding.)\<close>

theorem capability_roundtrip:
  assumes issue: "cap_Issue env a tenant keys ops ttl now = Inr token"
    and c: "c = \<lparr>cc_Aud = cap_Audience, cc_Node = att_NodeID a, cc_Attempt = att_AttemptID a, cc_Generation = att_Generation a,
         cc_Job = att_JobID a, cc_Tenant = tenant, cc_Keys = keys, cc_Ops = ops, cc_IssuedAt = unix now,
         cc_Expires = unix (min (now + ttl) (att_LeaseExpiresAt a))\<rparr>"
    and rsa: "\<And>input. ce_verify env input (ce_sign env input)" and js: "ce_decode env (ce_encode env c) = Some c"
    and live: "find (\<lambda>x. att_AttemptID x = att_AttemptID a) (ms_attempts m (att_JobID a)) = Some a"
    and later: "0 < t" "unix t \<le> cc_Expires c" "att_LeaseExpiresAt a \<noteq> 0"
    and granted: "key \<in> set keys" "opn \<in> set ops"
  shows "cap_Authorize env token \<lparr>cq_Node = att_NodeID a, cq_Tenant = tenant, cq_Key = key, cq_Op = opn, cq_Now = t\<rparr> m =
    (if length token \<le> 8192 then Inr c else Inl CapInvalid)"
proof (cases "length token \<le> 8192")
  case False
  then show ?thesis by (simp add: cap_Authorize_def cap_parse_def maxTokenLen_def)
next
  case len: True
  from issue have act: "att_State a = AttemptActive" and shape: "validShape c" and tok: "token = cap_sign env c"
    by (auto simp: c cap_Issue_def leaseBoundedExpiry_def Let_def min_def split: sum.splits if_splits)
  have parse: "cap_parse env token t = Inr c"
    using parse_signed [OF rsa js shape] len later(1,2) by (simp add: tok maxTokenLen_def)
  have "cc_Expires c \<le> unix (att_LeaseExpiresAt a)" by (simp add: c unix_def zdiv_mono1)
  then have "cap_Verify env token
      \<lparr>ex_Now = t, ex_Node = att_NodeID a, ex_Attempt = att_AttemptID a, ex_Generation = att_Generation a, ex_Job = att_JobID a,
       ex_Tenant = tenant, ex_LeaseExpiresAt = att_LeaseExpiresAt a, ex_Key = key, ex_Op = opn\<rparr> = Inr c"
    using shape later granted parse by (auto simp: cap_Verify_def validShape_def c)
  with parse live act len show ?thesis by (simp add: c cap_Authorize_def ListAttempts_def)
qed

subsection \<open>A token at work\<close>

text \<open>The clock stands half a second past a whole one, so the lease ends half a second past one.\<close>

definition wit_cap_now :: gotime where
  "wit_cap_now = 63000000000 * second + 500 * millisecond"

definition wit_cap_store :: memory_store where
  "wit_cap_store = jobs_reach wit_env (\<lambda>_. wit_cap_now) [OpCreate wit_request, OpBegin (wit_begin ''att_1'' 0)]"

definition wit_att :: attempt where
  "wit_att = hd (ms_attempts wit_cap_store wit_id)"

definition wit_claims :: "string list \<Rightarrow> cap_claims" where
  "wit_claims ops = \<lparr>cc_Aud = cap_Audience, cc_Node = ''n'', cc_Attempt = ''att_1'', cc_Generation = 1, cc_Job = wit_id,
     cc_Tenant = ''t'', cc_Keys = [''k''], cc_Ops = ops, cc_IssuedAt = unix wit_cap_now,
     cc_Expires = unix (min (wit_cap_now + 10 * minute) (att_LeaseExpiresAt wit_att))\<rparr>"

definition wit_cap :: cap_env where
  "wit_cap = \<lparr>ce_decode = (\<lambda>s. if s = ''r'' then Some (wit_claims [OpRead]) else Some (wit_claims [OpWrite])),
     ce_encode = (\<lambda>c. if cc_Ops c = [OpRead] then ''r'' else ''w''), ce_sign = rev, ce_verify = (\<lambda>input sig. sig = rev input)\<rparr>"

definition wit_use :: "gotime \<Rightarrow> cap_request" where
  "wit_use t = \<lparr>cq_Node = ''n'', cq_Tenant = ''t'', cq_Key = ''k'', cq_Op = OpRead, cq_Now = t\<rparr>"

lemma wit_attempts: "map att_AttemptID (ms_attempts wit_cap_store wit_id) = [''att_1'']"
  by code_simp

lemma wit_att_fields:
  "(att_JobID wit_att, att_AttemptID wit_att, att_NodeID wit_att, att_State wit_att, att_LeaseExpiresAt wit_att) =
     (wit_id, ''att_1'', ''n'', AttemptActive, wit_cap_now + 2 * minute)"
  "uint (att_Generation wit_att) = 1"
  by code_simp+

lemma wit_live: "find (\<lambda>x. att_AttemptID x = att_AttemptID wit_att) (ms_attempts wit_cap_store (att_JobID wit_att)) = Some wit_att"
  using wit_attempts wit_att_fields(1) by (auto simp: wit_att_def map_eq_Cons_conv)

lemma wit_issue: "(case cap_Issue wit_cap wit_att ''t'' [''k''] [OpRead] (10 * minute) wit_cap_now of
    Inr token \<Rightarrow> length token \<le> maxTokenLen | Inl e \<Rightarrow> False)"
  by code_simp

text \<open>
  Tokens are documented never to be valid past the lease they were minted for; expiries are whole
  seconds, so the token is accepted until the end of the second the lease ends in, as long as no
  sweep has ended the attempt.
\<close>

lemma token_outlives_its_lease:
  "(case cap_Issue wit_cap wit_att ''t'' [''k''] [OpRead] (10 * minute) wit_cap_now of
      Inr token \<Rightarrow>
        (case cap_Authorize wit_cap token (wit_use (wit_cap_now + 2 * minute + 400 * millisecond)) wit_cap_store of
           Inr c \<Rightarrow> cc_Job c = wit_id | Inl e \<Rightarrow> False)
    | Inl e \<Rightarrow> False) \<and> att_LeaseExpiresAt wit_att < wit_cap_now + 2 * minute + 400 * millisecond"
  by code_simp

lemma wit_generation: "att_Generation wit_att = 1"
  using wit_att_fields(2) by (simp add: word_uint_eq_iff)

lemma wit_token:
  obtains token where "cap_Issue wit_cap wit_att ''t'' [''k''] [OpRead] (10 * minute) wit_cap_now = Inr token"
    "length token \<le> maxTokenLen"
  using wit_issue by (auto split: sum.splits)

lemma capability_roundtrip_witness:
  "\<exists>token. cap_Issue wit_cap wit_att ''t'' [''k''] [OpRead] (10 * minute) wit_cap_now = Inr token \<and>
     cap_Authorize wit_cap token (wit_use (wit_cap_now + minute)) wit_cap_store = Inr (wit_claims [OpRead])"
proof -
  obtain token where tok: "cap_Issue wit_cap wit_att ''t'' [''k''] [OpRead] (10 * minute) wit_cap_now = Inr token"
    "length token \<le> maxTokenLen" by (rule wit_token)
  have "cap_Authorize wit_cap token \<lparr>cq_Node = att_NodeID wit_att, cq_Tenant = ''t'', cq_Key = ''k'', cq_Op = OpRead,
      cq_Now = wit_cap_now + minute\<rparr> wit_cap_store = Inr (wit_claims [OpRead])"
    using wit_att_fields(1)
    by (intro trans [OF capability_roundtrip [OF tok(1) _ _ _ wit_live]] trans [OF if_P [OF tok(2) [unfolded maxTokenLen_def]]])
      (simp_all add: wit_claims_def wit_generation wit_cap_def wit_cap_now_def unix_def)
  then show ?thesis using tok(1) wit_att_fields(1) by (simp add: wit_use_def)
qed

text \<open>
  \<open>Issue\<close> accepts 64 keys of 512 bytes each, but \<open>parse\<close> no token of more than 8192 characters: with more bytes of
  keys than that, whatever the keys, the token that is issued can never be used.
\<close>

lemma b64e_length: "length s \<le> length (b64e s)"
  by (induction s rule: b64e.induct) simp_all

lemma oversized_token_is_refused:
  assumes "cap_Issue env a tenant keys ops ttl now = Inr token"
    and "\<And>c. sum_list (map length (cc_Keys c)) \<le> length (ce_encode env c)" and "8192 < sum_list (map length keys)"
  shows "cap_parse env token t = Inl CapInvalid"
proof -
  obtain c where c: "token = cap_sign env c" "cc_Keys c = keys"
    using assms(1) by (auto simp: cap_Issue_def Let_def split: sum.splits if_splits)
  have "8192 < length (b64e (ce_encode env c))"
    using assms(3) assms(2) [of c] b64e_length [of "ce_encode env c"] unfolding c(2) by linarith
  then have "8192 < length token" by (simp add: c(1) cap_sign_def Let_def)
  then show ?thesis by (simp add: cap_parse_def maxTokenLen_def)
qed

lemma Issue_any_keys:
  assumes "cap_Issue env a tenant keys ops ttl now = Inr token"
    and "keys' \<noteq> []" "length keys' \<le> 64" "list_all (\<lambda>k. k \<noteq> [] \<and> length k \<le> 512) keys'"
  shows "\<exists>token'. cap_Issue env a tenant keys' ops ttl now = Inr token'"
  using assms by (auto simp: cap_Issue_def Let_def validShape_def maxKeys_def maxKeyLen_def list_all_iff not_less split: sum.splits if_splits)

lemma Issue_mints_oversized_tokens:
  assumes "cap_Issue env a tenant keys ops ttl now = Inr token"
    and "\<And>c. sum_list (map length (cc_Keys c)) \<le> length (ce_encode env c)"
  shows "\<exists>token'. cap_Issue env a tenant (replicate 64 (replicate 512 (CHR ''k''))) ops ttl now = Inr token' \<and>
    (\<forall>t. cap_parse env token' t = Inl CapInvalid)"
proof -
  have n: "sum_list (map length (replicate n s)) = n * length s" for n and s :: string by (induction n) simp_all
  obtain token' where t: "cap_Issue env a tenant (replicate 64 (replicate 512 (CHR ''k''))) ops ttl now = Inr token'"
    using Issue_any_keys [OF assms(1), of "replicate 64 (replicate 512 (CHR ''k''))"]
    by (auto simp: list_all_iff simp del: replicate.simps)
  have "cap_parse env token' u = Inl CapInvalid" for u
    by (rule oversized_token_is_refused [OF t assms(2)]) (simp only: n length_replicate)
  with t show ?thesis by blast
qed

text \<open>A token of the first attempt after another attempt took over.\<close>

lemma wit_auth: "\<exists>token c. cap_Authorize wit_cap token (wit_use (wit_cap_now + 2 * minute + 400 * millisecond)) wit_cap_store = Inr c \<and> cc_Job c = wit_id"
  using token_outlives_its_lease by (auto split: sum.splits)

lemma capability_dies_with_attempt_witness:
  "\<exists>token c. cap_Authorize wit_cap token (wit_use (wit_cap_now + 2 * minute + 400 * millisecond)) wit_cap_store = Inr c \<and>
     cc_Node c = ''n'' \<and> cc_Tenant c = ''t''"
proof -
  obtain token c where c: "cap_Authorize wit_cap token (wit_use (wit_cap_now + 2 * minute + 400 * millisecond)) wit_cap_store = Inr c"
    using wit_auth by blast
  have inv: "jobs_inv wit_cap_store" unfolding wit_cap_store_def by (rule jobs_reach_inv)
  have mem: "wit_att \<in> set (ms_attempts wit_cap_store wit_id)"
    using wit_attempts by (cases "ms_attempts wit_cap_store wit_id") (simp_all add: wit_att_def)
  have "cap_Authorize wit_cap token (wit_use (wit_cap_now + 2 * minute + 400 * millisecond)) (jobs_run wit_env [] wit_cap_store) = Inr c"
    using c by (simp add: jobs_run_def)
  from capability_dies_with_attempt [OF inv mem this] c show ?thesis by (auto simp: wit_use_def)
qed

end
