(* ===== verification/Credentials.thy ===== *)
theory Credentials
  imports JobCore "HOL-Library.AList"
begin

text \<open>
  Credentials: SSO sessions (\<open>session/session.go\<close>), personal access tokens (\<open>pat/pat.go\<close>),
  just-in-time elevation (\<open>jitadmin/\<close>) and the second factor (\<open>mfa/\<close>). Random bytes, the clock
  and the hashes (SHA-256 of a session token, Argon2 of a recovery code, the HMAC of a TOTP
  counter) are arguments. The SQL stores are not modelled.
\<close>

definition truncate_second :: "gotime \<Rightarrow> gotime" where
  "truncate_second t = t - t mod second"

subsection \<open>Sessions\<close>

record session =
  ss_ID :: string
  ss_TenantID :: string
  ss_AppID :: string
  ss_Role :: string
  ss_Subject :: string
  ss_Email :: string
  ss_IssuedAt :: gotime
  ss_ExpiresAt :: gotime
  ss_Revoked :: bool

type_synonym session_store = "string \<rightharpoonup> session"

definition newSessionID :: "string \<Rightarrow> string" where
  "newSessionID hash = ''sess_'' @ take 24 hash"

definition session_normalize :: "gotime \<Rightarrow> session \<Rightarrow> session" where
  "session_normalize now s =
     s\<lparr>ss_IssuedAt := truncate_second (if IsZero (ss_IssuedAt s) then now else ss_IssuedAt s),
       ss_ExpiresAt := truncate_second (ss_ExpiresAt s),
       ss_Role := (if ss_Role s = [] then ''viewer'' else ss_Role s)\<rparr>"

definition session_isLive :: "session \<Rightarrow> gotime \<Rightarrow> bool" where
  "session_isLive s now =
     (if ss_Revoked s then False
      else if \<not> IsZero (ss_ExpiresAt s) \<and> \<not> now < ss_ExpiresAt s then False
      else True)"

definition session_Create :: "(string \<Rightarrow> string) \<Rightarrow> gotime \<Rightarrow> string \<Rightarrow> session \<Rightarrow> session_store \<Rightarrow> session \<times> session_store" where
  "session_Create hash now token s m =
     (let s = (session_normalize now s)\<lparr>ss_ID := newSessionID (hash token), ss_Revoked := False\<rparr>
      in (s, m(hash token \<mapsto> s)))"

definition session_Resolve :: "(string \<Rightarrow> string) \<Rightarrow> string \<Rightarrow> gotime \<Rightarrow> session_store \<Rightarrow> session option" where
  "session_Resolve hash token now m =
     (if token = [] then None
      else (case m (hash token) of
              None \<Rightarrow> None
            | Some s \<Rightarrow> if \<not> session_isLive s now then None else Some s))"

definition session_Revoke :: "(string \<Rightarrow> string) \<Rightarrow> string \<Rightarrow> session_store \<Rightarrow> bool \<times> session_store" where
  "session_Revoke hash token m =
     (if token = [] then (False, m)
      else (case m (hash token) of
              None \<Rightarrow> (False, m)
            | Some s \<Rightarrow> if ss_Revoked s then (False, m) else (True, m(hash token \<mapsto> s\<lparr>ss_Revoked := True\<rparr>))))"

subsection \<open>Personal access tokens\<close>

definition tokenPrefix :: string where "tokenPrefix = ''ubag_pat_''"

definition b58Alphabet :: string where
  "b58Alphabet = ''123456789ABCDEFGHJKLMNPQRSTUVWXYZabcdefghijkmnopqrstuvwxyz''"

text \<open>One input byte: the digits (least significant first) times 256 plus the byte.\<close>

fun b58_carry :: "nat list \<Rightarrow> nat \<Rightarrow> nat list \<times> nat" where
  "b58_carry [] carry = ([], carry)"
| "b58_carry (d # ds) carry =
     (let c = carry + d * 256 in
      case b58_carry ds (c div 58) of (ds', carry') \<Rightarrow> (c mod 58 # ds', carry'))"

function b58_extend :: "nat \<Rightarrow> nat list" where
  "b58_extend carry = (if carry = 0 then [] else carry mod 58 # b58_extend (carry div 58))"
  by pat_completeness auto
termination by (relation "measure id") auto

declare b58_extend.simps [simp del]

definition b58_byte :: "nat list \<Rightarrow> nat \<Rightarrow> nat list" where
  "b58_byte ds0 b = (case b58_carry ds0 b of (ds, carry) \<Rightarrow> ds @ b58_extend carry)"

definition b58_digits :: "string \<Rightarrow> nat list" where
  "b58_digits input = foldl b58_byte [0] (map of_char input)"

definition b58Encode :: "string \<Rightarrow> string" where
  "b58Encode input =
     (let leadingZeros = length (takeWhile (\<lambda>c. c = CHR 0x00) input)
      in replicate leadingZeros (b58Alphabet ! 0) @ map (\<lambda>d. b58Alphabet ! d) (rev (b58_digits input)))"

record pat_token =
  pt_ID :: string
  pt_TenantID :: string
  pt_AppID :: string
  pt_Role :: string
  pt_IssuedAt :: gotime
  pt_ExpiresAt :: gotime

definition pat_IsExpired :: "pat_token \<Rightarrow> gotime \<Rightarrow> bool" where
  "pat_IsExpired t now = (\<not> IsZero (pt_ExpiresAt t) \<and> pt_ExpiresAt t < now)"

definition pat_Issue :: "string \<Rightarrow> gotime \<Rightarrow> string \<Rightarrow> string \<Rightarrow> string \<Rightarrow> dur \<Rightarrow> pat_token option" where
  "pat_Issue raw now tenantID appID role ttl =
     (if trim_space tenantID = [] then None
      else if trim_space appID = [] then None
      else Some \<lparr>pt_ID = tokenPrefix @ b58Encode raw, pt_TenantID = tenantID, pt_AppID = appID, pt_Role = role,
                 pt_IssuedAt = now, pt_ExpiresAt = (if 0 < ttl then now + ttl else 0)\<rparr>)"

definition pat_IsValidFormat :: "string \<Rightarrow> bool" where
  "pat_IsValidFormat s = (prefix tokenPrefix s \<and> length tokenPrefix < length s)"

type_synonym pat_store = "string \<rightharpoonup> pat_token"

definition pat_Save :: "pat_token \<Rightarrow> pat_store \<Rightarrow> bool \<times> pat_store" where
  "pat_Save t m = (if pt_ID t = [] then (False, m) else (True, m(pt_ID t \<mapsto> t)))"

definition pat_Resolve :: "string \<Rightarrow> gotime \<Rightarrow> pat_store \<Rightarrow> pat_token option" where
  "pat_Resolve raw now m =
     (case m raw of None \<Rightarrow> None | Some t \<Rightarrow> if pat_IsExpired t now then None else Some t)"

definition pat_Revoke :: "string \<Rightarrow> pat_store \<Rightarrow> pat_store" where
  "pat_Revoke ident m = m(ident := None)"

subsection \<open>Just-in-time elevation\<close>

record jit_grant =
  jg_ID :: string
  jg_Actor :: string
  jg_TenantID :: string
  jg_AppID :: string
  jg_Role :: string
  jg_Reason :: string
  jg_TTL :: dur
  jg_ExpiresAt :: gotime
  jg_Approved :: bool
  jg_ApprovedBy :: string
  jg_ApprovedAt :: "gotime option"
  jg_CreatedAt :: gotime
  jg_Revoked :: bool

type_synonym jit_store = "(string \<times> jit_grant) list"

datatype jit_error = GrantNotFound | GrantExpired | GrantRevoked

definition jit_IsActive :: "jit_grant \<Rightarrow> gotime \<Rightarrow> bool" where
  "jit_IsActive g now = (jg_Approved g \<and> \<not> jg_Revoked g \<and> now < jg_ExpiresAt g)"

definition rolePriority :: "string \<Rightarrow> nat option" where
  "rolePriority = map_of [(''viewer'', 0), (''service'', 1), (''developer'', 2), (''operator'', 3), (''admin'', 4), (''superadmin'', 5)]"

definition priority_or_zero :: "string \<Rightarrow> nat" where
  "priority_or_zero role = (case rolePriority role of None \<Rightarrow> 0 | Some p \<Rightarrow> p)"

definition ApproverMayGrant :: "string \<Rightarrow> string \<Rightarrow> bool" where
  "ApproverMayGrant approverRole grantRole = (priority_or_zero grantRole \<le> priority_or_zero approverRole)"

definition jit_Create :: "gotime \<Rightarrow> string \<Rightarrow> jit_grant \<Rightarrow> jit_store \<Rightarrow> jit_grant \<times> jit_store" where
  "jit_Create now ident g m =
     (let created = (if IsZero (jg_CreatedAt g) then now else jg_CreatedAt g);
          g = g\<lparr>jg_ID := ident, jg_CreatedAt := created,
               jg_ExpiresAt := (if IsZero (jg_ExpiresAt g) then created + jg_TTL g else jg_ExpiresAt g)\<rparr>
      in (g, AList.update ident g m))"

definition jit_Approve :: "string \<Rightarrow> string \<Rightarrow> gotime \<Rightarrow> jit_store \<Rightarrow> (jit_error + jit_grant) \<times> jit_store" where
  "jit_Approve ident approver now m =
     (case map_of m ident of
        None \<Rightarrow> (Inl GrantNotFound, m)
      | Some g \<Rightarrow>
          if jg_Revoked g then (Inl GrantRevoked, m)
          else if \<not> now < jg_ExpiresAt g then (Inl GrantExpired, m)
          else let g = g\<lparr>jg_Approved := True, jg_ApprovedBy := approver, jg_ApprovedAt := Some now\<rparr>
               in (Inr g, AList.update ident g m))"

definition jit_ActiveGrants :: "string \<Rightarrow> string \<Rightarrow> gotime \<Rightarrow> jit_store \<Rightarrow> jit_grant list" where
  "jit_ActiveGrants actor tenantID now m =
     filter (\<lambda>g. jg_Actor g = actor \<and> jg_TenantID g = tenantID \<and> jit_IsActive g now) (map snd m)"

definition jit_Revoke :: "string \<Rightarrow> jit_store \<Rightarrow> jit_error option \<times> jit_store" where
  "jit_Revoke ident m =
     (case map_of m ident of
        None \<Rightarrow> (Some GrantNotFound, m)
      | Some g \<Rightarrow> (None, AList.update ident (g\<lparr>jg_Revoked := True\<rparr>) m))"

fun best_role :: "jit_grant list \<Rightarrow> string \<times> nat \<Rightarrow> string \<times> nat" where
  "best_role [] best = best"
| "best_role (g # gs) best =
     (case rolePriority (jg_Role g) of
        Some p \<Rightarrow> if snd best < p then best_role gs (jg_Role g, p) else best_role gs best
      | None \<Rightarrow> best_role gs best)"

definition ElevatedRole :: "string \<Rightarrow> string \<Rightarrow> string \<Rightarrow> gotime \<Rightarrow> jit_store \<Rightarrow> string" where
  "ElevatedRole actor tenantID currentRole now m =
     fst (best_role (jit_ActiveGrants actor tenantID now m) (currentRole, priority_or_zero currentRole))"

subsection \<open>The second factor\<close>

record mfa_enrollment =
  me_Secret :: string
  me_RecoveryHashes :: "string list"
  me_UsedCounters :: "u64 set"
  me_CreatedAt :: gotime

type_synonym mfa_store = "string \<rightharpoonup> mfa_enrollment"

definition enrollmentKey :: "string \<Rightarrow> string \<Rightarrow> string" where
  "enrollmentKey tenantID userID = tenantID @ CHR 0x00 # userID"

definition mfa_Enroll :: "string \<Rightarrow> string \<Rightarrow> mfa_enrollment \<Rightarrow> mfa_store \<Rightarrow> mfa_store" where
  "mfa_Enroll tenantID userID e m = m(enrollmentKey tenantID userID \<mapsto> e\<lparr>me_UsedCounters := {}\<rparr>)"

text \<open>\<open>None\<close>: not enrolled (an error).\<close>

definition MarkCounterUsed :: "string \<Rightarrow> string \<Rightarrow> u64 \<Rightarrow> mfa_store \<Rightarrow> bool option \<times> mfa_store" where
  "MarkCounterUsed tenantID userID counter m =
     (case m (enrollmentKey tenantID userID) of
        None \<Rightarrow> (None, m)
      | Some e \<Rightarrow>
          if counter \<in> me_UsedCounters e then (Some False, m)
          else (Some True, m(enrollmentKey tenantID userID \<mapsto> e\<lparr>me_UsedCounters := insert counter (me_UsedCounters e)\<rparr>)))"

fun remove_match :: "(string \<Rightarrow> bool) \<Rightarrow> string list \<Rightarrow> string list option" where
  "remove_match ok [] = None"
| "remove_match ok (h # hs) = (if ok h then Some hs else map_option ((#) h) (remove_match ok hs))"

definition ConsumeRecovery :: "(string \<Rightarrow> string \<Rightarrow> bool) \<Rightarrow> string \<Rightarrow> string \<Rightarrow> string \<Rightarrow> mfa_store \<Rightarrow> bool \<times> mfa_store" where
  "ConsumeRecovery verify tenantID userID code m =
     (case m (enrollmentKey tenantID userID) of
        None \<Rightarrow> (False, m)
      | Some e \<Rightarrow>
          (case remove_match (\<lambda>h. verify h code) (me_RecoveryHashes e) of
             None \<Rightarrow> (False, m)
           | Some hs \<Rightarrow> (True, m(enrollmentKey tenantID userID \<mapsto> e\<lparr>me_RecoveryHashes := hs\<rparr>))))"

text \<open>The TOTP step of a time (\<open>unix_s\<close>: whole seconds since the epoch, not negative).\<close>

definition totp_counter :: "int \<Rightarrow> u64" where
  "totp_counter unix_s = word_of_int (unix_s div 30)"

datatype mfa_outcome = MfaError | MfaResult bool

text \<open>The window of three steps; \<open>hotp\<close> returns \<open>None\<close> when the secret does not decode.\<close>

fun totp_window :: "(u64 \<Rightarrow> string option) \<Rightarrow> string \<Rightarrow> u64 list \<Rightarrow> (u64 option) option" where
  "totp_window hotp code [] = Some None"
| "totp_window hotp code (c # cs) =
     (case hotp c of
        None \<Rightarrow> None
      | Some candidate \<Rightarrow> if candidate = code then Some (Some c) else totp_window hotp code cs)"

text \<open>
  \<open>VerifyCode\<close> reads the enrolment and changes it in two critical sections: \<open>seen\<close> is the store as \<open>Get\<close> read it,
  \<open>m\<close> the store when the counter is marked or the recovery code consumed. Anything may have happened between.
\<close>

definition VerifyCode ::
  "(string \<Rightarrow> u64 \<Rightarrow> string option) \<Rightarrow> (string \<Rightarrow> string \<Rightarrow> bool) \<Rightarrow> string \<Rightarrow> string \<Rightarrow> string \<Rightarrow> int \<Rightarrow> mfa_store \<Rightarrow> mfa_store
   \<Rightarrow> mfa_outcome \<times> mfa_store" where
  "VerifyCode hotp verify tenantID userID code unix_s seen m =
     (case seen (enrollmentKey tenantID userID) of
        None \<Rightarrow> (MfaResult False, m)
      | Some e \<Rightarrow>
          if length code = 6 then
            (let counter = totp_counter unix_s in
             case totp_window (hotp (me_Secret e)) code [counter - 1, counter, counter + 1] of
               None \<Rightarrow> (MfaError, m)
             | Some None \<Rightarrow> (MfaResult False, m)
             | Some (Some c) \<Rightarrow>
                 (case MarkCounterUsed tenantID userID c m of
                    (None, m') \<Rightarrow> (MfaError, m')
                  | (Some marked, m') \<Rightarrow> (MfaResult marked, m')))
          else (case ConsumeRecovery verify tenantID userID code m of (ok, m') \<Rightarrow> (MfaResult ok, m')))"

end
