(* ===== verification/CredentialsProps.thy ===== *)
theory CredentialsProps
  imports Credentials "HOL-Library.Multiset"
begin

text \<open>
  What the credential stores promise: the identifiers of access tokens lose no entropy, a
  revoked session stays dead, an elevated role is backed by a live grant, and a second factor
  is accepted once.
\<close>

subsection \<open>Base 58\<close>

fun base_value :: "nat \<Rightarrow> nat list \<Rightarrow> nat" where
  "base_value b [] = 0"
| "base_value b (d # ds) = d + b * base_value b ds"

lemma base_value_append: "base_value b (xs @ ys) = base_value b xs + b ^ length xs * base_value b ys"
  by (induction xs) (auto simp: algebra_simps)

lemma base_value_inj:
  assumes "list_all (\<lambda>d. d < b) xs" "list_all (\<lambda>d. d < b) ys" "length xs = length ys"
    "base_value b xs = base_value b ys"
  shows "xs = ys"
  using assms(3,1,2,4)
proof (induction xs ys rule: list_induct2)
  case (Cons x xs y ys)
  then have b: "x < b" "y < b" by auto
  have "x = (x + b * base_value b xs) mod b" using b by simp
  also have "\<dots> = y" using Cons.prems b by simp
  finally show ?case using Cons b by auto
qed simp

lemma b58_carry_conj:
  "b58_carry ds carry = (ds', carry') \<Longrightarrow>
   length ds' = length ds \<and> list_all (\<lambda>d. d < 58) ds'
   \<and> base_value 58 ds' + 58 ^ length ds * carry' = 256 * base_value 58 ds + carry
   \<and> (ds \<noteq> [] \<longrightarrow> last ds \<noteq> 0 \<longrightarrow> carry' \<noteq> 0)"
proof (induction ds arbitrary: carry ds' carry')
  case (Cons d ds)
  define c where "c = carry + d * 256"
  obtain es k where r: "b58_carry ds (c div 58) = (es, k)" by fastforce
  then have e: "ds' = c mod 58 # es" "carry' = k" using Cons.prems by (auto simp: Let_def c_def)
  note IH = Cons.IH [OF r]
  have "58 * (base_value 58 es + 58 ^ length ds * k) + c mod 58
        = 58 * (256 * base_value 58 ds) + (58 * (c div 58) + c mod 58)"
    using IH by (simp only: distrib_left add.assoc)
  then have "base_value 58 ds' + 58 ^ length (d # ds) * carry' = 256 * base_value 58 (d # ds) + carry"
    by (simp add: e algebra_simps c_def)
  moreover have "ds = [] \<longrightarrow> d \<noteq> 0 \<longrightarrow> carry' \<noteq> 0"
    using r by (auto simp: e c_def)
  ultimately show ?case using IH by (simp add: e)
qed simp

lemma b58_carry_facts:
  assumes "b58_carry ds carry = (ds', carry')"
  shows "length ds' = length ds" "list_all (\<lambda>d. d < 58) ds'"
    "base_value 58 ds' + 58 ^ length ds * carry' = 256 * base_value 58 ds + carry"
    "ds \<noteq> [] \<Longrightarrow> last ds \<noteq> 0 \<Longrightarrow> carry' \<noteq> 0"
  using b58_carry_conj [OF assms] by auto

lemma b58_extend_facts:
  "list_all (\<lambda>d. d < 58) (b58_extend k) \<and> base_value 58 (b58_extend k) = k
   \<and> (k \<noteq> 0 \<longrightarrow> b58_extend k \<noteq> [] \<and> last (b58_extend k) \<noteq> 0)"
proof (induction k rule: b58_extend.induct)
  case (1 k)
  then show ?case
    by (cases "k = 0"; cases "k div 58 = 0") (auto simp: b58_extend.simps [of k] b58_extend.simps [of 0])
qed

text \<open>The digit list of a number: in range, of the number's value, and without a leading zero.\<close>

definition digits_of_value :: "nat \<Rightarrow> nat list \<Rightarrow> bool" where
  "digits_of_value v ds = (list_all (\<lambda>d. d < 58) ds \<and> base_value 58 ds = v \<and> ds \<noteq> [] \<and> (ds = [0] \<or> last ds \<noteq> 0))"

lemma b58_byte_value:
  assumes "digits_of_value v ds" "b < 256"
  shows "digits_of_value (256 * v + b) (b58_byte ds b)"
proof -
  obtain es k where r: "b58_carry ds b = (es, k)" by fastforce
  note c = b58_carry_facts [OF r] and x = b58_extend_facts [of k]
  have "es @ b58_extend k = [0] \<or> last (es @ b58_extend k) \<noteq> 0"
  proof (cases "k = 0")
    case True
    then have "ds = [0]" using assms c(4) by (auto simp: digits_of_value_def)
    then show ?thesis using True r by (auto simp: b58_extend.simps [of 0] Let_def)
  qed (use x in auto)
  then show ?thesis using assms c(1,2,3) x
    by (auto simp: digits_of_value_def b58_byte_def r base_value_append)
qed

definition byte_value :: "string \<Rightarrow> nat" where
  "byte_value s = base_value 256 (rev (map of_char s))"

lemma b58_digits_value: "digits_of_value (byte_value s) (b58_digits s)"
proof (induction s rule: rev_induct)
  case Nil
  show ?case by (simp add: byte_value_def b58_digits_def digits_of_value_def)
next
  case (snoc c s)
  from b58_byte_value [OF this nat_of_char_less_256 [of c]] show ?case
    by (simp add: byte_value_def b58_digits_def add.commute)
qed

lemma canonical_unique:
  assumes "list_all (\<lambda>d. d < b) xs" "list_all (\<lambda>d. d < b) ys"
    "xs = [] \<or> last xs \<noteq> 0" "ys = [] \<or> last ys \<noteq> 0"
    "base_value b xs = base_value b ys"
  shows "xs = ys"
  using assms
proof (induction xs arbitrary: ys)
  case Nil
  then show ?case by (induction ys) (auto split: if_splits)
next
  case (Cons x xs)
  show ?case
  proof (cases ys)
    case Nil
    then have z: "base_value b (x # xs) = 0" using Cons.prems(5) by simp
    have "base_value b zs = 0 \<Longrightarrow> zs \<noteq> [] \<Longrightarrow> list_all (\<lambda>d. d < b) zs \<Longrightarrow> last zs = 0" for zs
      by (induction zs) auto
    from this [OF z] show ?thesis using Cons.prems(1,3) by simp
  next
    case (Cons y ys')
    have lt: "x < b" "y < b" using Cons.prems(1,2) Cons by auto
    have "x = base_value b (x # xs) mod b" using lt by simp
    also have "\<dots> = y" using Cons.prems(5) Cons lt by simp
    finally have "x = y" .
    moreover have "base_value b xs = base_value b ys'" using \<open>x = y\<close> Cons.prems(5) Cons lt by auto
    ultimately show ?thesis
      using Cons.IH [of ys'] Cons.prems Cons by (auto split: if_splits)
  qed
qed

lemma digits_of_value_unique: "digits_of_value v ds \<Longrightarrow> digits_of_value v es \<Longrightarrow> ds = es"
  using canonical_unique [of 58 ds es] canonical_unique [of 58 ds "[]"] canonical_unique [of 58 es "[]"]
  by (auto simp: digits_of_value_def)

lemma b58_alphabet_distinct: "distinct b58Alphabet" "length b58Alphabet = 58"
  by (simp_all add: b58Alphabet_def)

lemma b58_letters_inj:
  assumes "list_all (\<lambda>d. d < 58) xs" "list_all (\<lambda>d. d < 58) ys"
    "map (\<lambda>d. b58Alphabet ! d) xs = map (\<lambda>d. b58Alphabet ! d) ys"
  shows "xs = ys"
proof (rule map_inj_on)
  show "inj_on ((!) b58Alphabet) (set xs \<union> set ys)"
    using assms(1,2) b58_alphabet_distinct by (auto simp: inj_on_def list_all_iff nth_eq_iff_index_eq)
qed (rule assms(3))

lemma base_value_zeros: "base_value b (xs @ replicate n 0) = base_value b xs"
proof -
  have "base_value b (replicate n 0) = 0" by (induction n) auto
  then show ?thesis by (simp add: base_value_append)
qed

lemma byte_value_inj:
  assumes "hd s \<noteq> CHR 0x00 \<or> s = []" "hd t \<noteq> CHR 0x00 \<or> t = []" "byte_value s = byte_value t"
  shows "s = t"
proof -
  have z: "of_char c = (0::nat) \<longleftrightarrow> c = CHR 0x00" for c :: char
    using of_char_eq_iff [where 'a = nat, of c "CHR 0x00"] by simp
  have "rev (map of_char s) = (rev (map of_char t) :: nat list)"
    by (rule canonical_unique [where b = 256])
       (use assms in \<open>cases s; cases t; simp add: byte_value_def list_all_iff z\<close>)+
  then have "map of_char s = (map of_char t :: nat list)" by simp
  then show ?thesis by (rule map_injective) (simp add: inj_of_char)
qed

lemma byte_value_leading: "byte_value (replicate n (CHR 0x00) @ s) = byte_value s"
  by (simp add: byte_value_def base_value_zeros)

lemma base_value_bound: "list_all (\<lambda>d. d < b) ds \<Longrightarrow> 0 < b \<Longrightarrow> base_value b ds < b ^ length ds"
proof (induction ds)
  case (Cons d ds)
  then have "base_value b ds + 1 \<le> b ^ length ds" and d: "d < b" by auto
  from mult_le_mono2 [OF this(1), of b] d show ?case by simp
qed simp

lemma base_value_lower: "ds \<noteq> [] \<Longrightarrow> last ds \<noteq> 0 \<Longrightarrow> (b::nat) ^ (length ds - 1) \<le> base_value b ds"
  by (induction ds rule: rev_induct) (auto simp: base_value_append intro: trans_le_add2)

text \<open>The digits fit the \<open>2 * len(input) + 1\<close> bytes the code allocates for them.\<close>

lemma b58_digits_fit: "length (b58_digits s) \<le> 2 * length s + 1"
proof (cases "b58_digits s = [0]")
  case False
  note d = b58_digits_value [of s, unfolded digits_of_value_def]
  have "58 ^ (length (b58_digits s) - 1) \<le> byte_value s"
    using base_value_lower [of "b58_digits s" 58] d False by auto
  also have "\<dots> < 256 ^ length s"
    using base_value_bound [of 256 "rev (map of_char s)"] by (simp add: byte_value_def list_all_iff)
  also have "\<dots> \<le> (58 ^ 2) ^ length s" by (rule power_mono) simp_all
  also have "\<dots> = (58::nat) ^ (2 * length s)" by (simp only: power_mult)
  finally have "length (b58_digits s) - 1 < 2 * length s" by simp
  then show ?thesis by simp
qed simp

text \<open>The base 58 encoding of a token's random bytes is injective: two tokens of different bytes
  have different identifiers, whatever their lengths and leading zeros. Its digit loops never
  leave the array the code allocates for the digits.
\<close>

theorem token_identifiers_are_distinct:
  "inj b58Encode \<and> (\<forall>s. length (b58_digits s) \<le> 2 * length s + 1)"
proof (intro conjI injI allI b58_digits_fit)
  fix s t assume e: "b58Encode s = b58Encode t"
  define zeros where "zeros u = length (takeWhile (\<lambda>c. c = CHR 0x00) u)" for u :: string
  define rest where "rest u = dropWhile (\<lambda>c. c = CHR 0x00) u" for u :: string
  have split: "u = replicate (zeros u) (CHR 0x00) @ rest u" for u
  proof -
    have "replicate (zeros u) (CHR 0x00) = takeWhile (\<lambda>c. c = CHR 0x00) u"
      unfolding zeros_def by (rule replicate_length_same) (auto dest: set_takeWhileD)
    then show ?thesis by (simp add: rest_def)
  qed
  have strip: "byte_value u = byte_value (rest u)" for u
    by (subst split) (rule byte_value_leading)
  define shown where "shown u = replicate (zeros u) 0 @ rev (b58_digits u)" for u
  have range: "list_all (\<lambda>d. d < 58) (shown u)" for u
    using b58_digits_value [of u] by (auto simp: shown_def digits_of_value_def list_all_iff)
  have "map (\<lambda>d. b58Alphabet ! d) (shown s) = map (\<lambda>d. b58Alphabet ! d) (shown t)"
    using e by (simp add: b58Encode_def shown_def zeros_def)
  then have same: "shown s = shown t" by (rule b58_letters_inj [OF range range])
  have v: "base_value 58 (rev (shown u)) = byte_value u" for u
    using b58_digits_value [of u] by (simp add: shown_def base_value_zeros digits_of_value_def)
  have "byte_value s = byte_value t" using v [of s] v [of t] same by simp
  moreover from this have "b58_digits s = b58_digits t"
    using b58_digits_value [of s] b58_digits_value [of t] by (auto intro: digits_of_value_unique)
  with same have "zeros s = zeros t" by (auto simp: shown_def dest: arg_cong [where f = length])
  moreover have "rest s = rest t"
  proof (rule byte_value_inj)
    show "byte_value (rest s) = byte_value (rest t)"
      using \<open>byte_value s = byte_value t\<close> strip [of s] strip [of t] by simp
  qed (use hd_dropWhile [where P = "\<lambda>c. c = CHR 0x00"] in \<open>auto simp: rest_def\<close>)
  ultimately show "s = t" using split [of s] split [of t] by argo
qed

subsection \<open>Sessions\<close>

datatype session_op = SCreate gotime string session | SRevoke string

fun session_step :: "(string \<Rightarrow> string) \<Rightarrow> session_op \<Rightarrow> session_store \<Rightarrow> session_store" where
  "session_step hash (SCreate now token s) m = snd (session_Create hash now token s m)"
| "session_step hash (SRevoke token) m = snd (session_Revoke hash token m)"

fun session_op_ok :: "string \<Rightarrow> (string \<Rightarrow> string) \<Rightarrow> session_op \<Rightarrow> bool" where
  "session_op_ok h hash (SCreate now token s) = (hash token \<noteq> h)"
| "session_op_ok h hash (SRevoke token) = True"

definition session_dead :: "string \<Rightarrow> session_store \<Rightarrow> bool" where
  "session_dead h m = (case m h of None \<Rightarrow> True | Some s \<Rightarrow> ss_Revoked s)"

interpretation session_machine: guarded_machine "session_step hash" "session_op_ok h hash" "session_dead h" "\<lambda>_ _. True"
  for hash h
proof unfold_locales
  fix m op assume "session_dead h m" "session_op_ok h hash op"
  then show "session_dead h (session_step hash op m)"
    by (cases op) (auto simp: session_dead_def session_Create_def session_Revoke_def Let_def split: option.splits)
qed auto

lemma session_Revoke_dead: "fst (session_Revoke hash token m) \<Longrightarrow> session_dead (hash token) (snd (session_Revoke hash token m))"
  by (auto simp: session_Revoke_def session_dead_def split: option.splits if_splits)

lemma session_dead_Resolve: "session_dead (hash token) m \<Longrightarrow> session_Resolve hash token now m = None"
  by (auto simp: session_Resolve_def session_dead_def session_isLive_def split: option.splits)

text \<open>Once a session's token was revoked it never resolves again, at any time and whatever other
  sessions are issued and revoked, as long as no new token has the same hash.
\<close>

theorem revoked_session_stays_dead:
  assumes "session_Revoke hash token m = (True, m')" "list_all (session_op_ok (hash token) hash) ops"
  shows "session_Resolve hash token now (fold (session_step hash) ops m') = None"
proof (rule session_dead_Resolve)
  have "session_dead (hash token) m'" using session_Revoke_dead [of hash token m] assms(1) by simp
  then show "session_dead (hash token) (fold (session_step hash) ops m')"
    using session_machine.guarded_run assms(2) by blast
qed

definition sample_session :: session where
  "sample_session = \<lparr>ss_ID = [], ss_TenantID = ''t1'', ss_AppID = ''a1'', ss_Role = [], ss_Subject = ''u'', ss_Email = [],
     ss_IssuedAt = 0, ss_ExpiresAt = 0, ss_Revoked = False\<rparr>"

definition sample_sessions :: session_store where
  "sample_sessions = snd (session_Create id 5 ''tok'' sample_session Map.empty)"

lemma revoked_session_stays_dead_witness:
  "session_Resolve id ''tok'' 7 sample_sessions \<noteq> None
   \<and> session_Resolve id ''tok'' 7
       (fold (session_step id) [SCreate 6 ''other'' sample_session] (snd (session_Revoke id ''tok'' sample_sessions))) = None"
proof (intro conjI)
  have r: "session_Revoke id ''tok'' sample_sessions = (True, snd (session_Revoke id ''tok'' sample_sessions))"
    by (simp add: session_Revoke_def sample_sessions_def session_Create_def Let_def)
  show "session_Resolve id ''tok'' 7
       (fold (session_step id) [SCreate 6 ''other'' sample_session] (snd (session_Revoke id ''tok'' sample_sessions))) = None"
    by (rule revoked_session_stays_dead [OF r]) simp
qed (simp add: session_Resolve_def sample_sessions_def session_Create_def Let_def session_isLive_def session_normalize_def
  sample_session_def truncate_second_def)

subsection \<open>Elevation\<close>

lemma best_role_spec:
  "best_role gs (r, p) = (r', p') \<Longrightarrow>
   p \<le> p' \<and> (r' = r \<and> p' = p \<or> (\<exists>g \<in> set gs. jg_Role g = r' \<and> rolePriority r' = Some p' \<and> p < p'))
   \<and> (\<forall>g \<in> set gs. \<forall>q. rolePriority (jg_Role g) = Some q \<longrightarrow> q \<le> p')"
proof (induction gs arbitrary: r p)
  case (Cons g gs)
  show ?case
  proof (cases "rolePriority (jg_Role g)")
    case None
    then show ?thesis using Cons.IH [of r p] Cons.prems by auto
  next
    case (Some q)
    show ?thesis
    proof (cases "p < q")
      case True
      then have "best_role gs (jg_Role g, q) = (r', p')" using Some Cons.prems by simp
      from Cons.IH [OF this] show ?thesis using True Some by auto
    next
      case False
      then have "best_role gs (r, p) = (r', p')" using Some Cons.prems by simp
      from Cons.IH [OF this] show ?thesis using False Some by auto
    qed
  qed
qed simp

text \<open>The role an actor acts with: never below the current one; if it differs it is the role of a
  grant that is approved, unexpired and unrevoked for this actor and tenant; and no such grant
  has a higher one.
\<close>

theorem elevation_is_backed:
  "(let r = ElevatedRole actor tenant current now m in
      priority_or_zero current \<le> priority_or_zero r
      \<and> (r = current \<or> (\<exists>g \<in> set (jit_ActiveGrants actor tenant now m). jg_Role g = r))
      \<and> list_all (\<lambda>g. priority_or_zero (jg_Role g) \<le> priority_or_zero r) (jit_ActiveGrants actor tenant now m))"
proof -
  obtain r p where b: "best_role (jit_ActiveGrants actor tenant now m) (current, priority_or_zero current) = (r, p)"
    by fastforce
  note s = best_role_spec [OF b]
  have "priority_or_zero r = p" using s by (auto simp: priority_or_zero_def split: option.splits)
  moreover have "ElevatedRole actor tenant current now m = r" by (simp add: ElevatedRole_def b)
  ultimately show ?thesis using s
    by (auto simp: Let_def list_all_iff priority_or_zero_def split: option.splits)
qed

subsection \<open>The second factor\<close>

text \<open>A check carries the store its first read saw, which may be any earlier one.\<close>

datatype mfa_op = MVerify string string string int mfa_store | MEnroll string string mfa_enrollment

fun mfa_step :: "(string \<Rightarrow> u64 \<Rightarrow> string option) \<Rightarrow> (string \<Rightarrow> string \<Rightarrow> bool) \<Rightarrow> mfa_op \<Rightarrow> mfa_store \<Rightarrow> mfa_store" where
  "mfa_step hotp verify (MVerify t u code now seen) m = snd (VerifyCode hotp verify t u code now seen m)"
| "mfa_step hotp verify (MEnroll t u e) m = mfa_Enroll t u e m"

fun mfa_op_ok :: "string \<Rightarrow> mfa_op \<Rightarrow> bool" where
  "mfa_op_ok k (MVerify t u code now seen) = True"
| "mfa_op_ok k (MEnroll t u e) = (enrollmentKey t u \<noteq> k)"

text \<open>One enrolment moves forward: its secret stays, counters are only added, recovery hashes only removed.\<close>

definition mfa_forward :: "string \<Rightarrow> mfa_store \<Rightarrow> mfa_store \<Rightarrow> bool" where
  "mfa_forward k m m' = rel_option (\<lambda>e e'. me_Secret e' = me_Secret e \<and> me_UsedCounters e \<subseteq> me_UsedCounters e'
     \<and> mset (me_RecoveryHashes e') \<subseteq># mset (me_RecoveryHashes e)) (m k) (m' k)"

lemma remove_match_mset: "remove_match ok hs = Some hs' \<Longrightarrow> \<exists>h. ok h \<and> mset hs = add_mset h (mset hs')"
proof (induction hs arbitrary: hs')
  case (Cons h hs)
  show ?case
  proof (cases "ok h")
    case False
    with Cons.prems obtain t where "remove_match ok hs = Some t" "hs' = h # t" by auto
    with Cons.IH [of t] show ?thesis by auto
  qed (use Cons.prems in auto)
qed simp

lemma mfa_forward_refl: "mfa_forward k m m"
  by (auto simp: mfa_forward_def intro!: option.rel_refl)

lemma mfa_forward_trans: "mfa_forward k m n \<Longrightarrow> mfa_forward k n l \<Longrightarrow> mfa_forward k m l"
  by (cases "m k"; cases "n k"; cases "l k") (auto simp: mfa_forward_def)

lemma MarkCounterUsed_forward: "mfa_forward k m (snd (MarkCounterUsed t u c m))"
  by (cases "m k") (auto simp: MarkCounterUsed_def mfa_forward_def intro!: option.rel_refl split: option.splits)

lemma ConsumeRecovery_forward: "mfa_forward k m (snd (ConsumeRecovery verify t u code m))"
proof (cases "fst (ConsumeRecovery verify t u code m)")
  case True
  then obtain e hs where e: "m (enrollmentKey t u) = Some e" "remove_match (\<lambda>h. verify h code) (me_RecoveryHashes e) = Some hs"
    by (auto simp: ConsumeRecovery_def split: option.splits)
  from remove_match_mset [OF e(2)] have "mset hs \<subseteq># mset (me_RecoveryHashes e)" by auto
  then show ?thesis using e by (auto simp: ConsumeRecovery_def mfa_forward_def intro!: option.rel_refl)
qed (auto simp: ConsumeRecovery_def mfa_forward_refl split: option.splits)

lemma VerifyCode_forward: "mfa_forward k m (snd (VerifyCode hotp verify t u code now seen m))"
proof -
  have "snd (VerifyCode hotp verify t u code now seen m)
    \<in> {m, snd (ConsumeRecovery verify t u code m)} \<union> {snd (MarkCounterUsed t u c m) | c. True}"
    by (auto simp: VerifyCode_def Let_def split: option.splits prod.splits) (metis snd_conv)+
  then show ?thesis by (auto simp: mfa_forward_refl MarkCounterUsed_forward ConsumeRecovery_forward)
qed

interpretation mfa_machine: guarded_machine "mfa_step hotp verify" "mfa_op_ok k" "\<lambda>_. True" "mfa_forward k"
  for hotp verify k
proof unfold_locales
  fix m op assume "mfa_op_ok k op"
  then show "mfa_forward k m (mfa_step hotp verify op m)"
  proof (cases op)
    case MEnroll
    then show ?thesis using \<open>mfa_op_ok k op\<close> by (auto simp: mfa_Enroll_def mfa_forward_def intro!: option.rel_refl)
  qed (simp add: VerifyCode_forward)
qed (auto intro: mfa_forward_refl mfa_forward_trans)

lemma totp_window_match: "totp_window f code cs = Some (Some c) \<Longrightarrow> c \<in> set cs \<and> f c = Some code"
  by (induction cs) (auto split: option.splits if_splits)

lemma VerifyCode_totp:
  assumes "VerifyCode hotp verify t u code now seen m = (MfaResult True, m')" "length code = 6"
  obtains e0 e c where "seen (enrollmentKey t u) = Some e0" "m (enrollmentKey t u) = Some e"
    "c \<in> {totp_counter now - 1, totp_counter now, totp_counter now + 1}"
    "hotp (me_Secret e0) c = Some code" "c \<notin> me_UsedCounters e"
    "m' (enrollmentKey t u) = Some (e\<lparr>me_UsedCounters := insert c (me_UsedCounters e)\<rparr>)"
proof -
  let ?cs = "[totp_counter now - 1, totp_counter now, totp_counter now + 1]"
  obtain e0 where e0: "seen (enrollmentKey t u) = Some e0"
    using assms by (auto simp: VerifyCode_def split: option.splits)
  obtain c where c: "totp_window (hotp (me_Secret e0)) code ?cs = Some (Some c)"
    using assms e0 by (auto simp: VerifyCode_def Let_def split: option.splits)
  with assms e0 have k: "MarkCounterUsed t u c m = (Some True, m')"
    by (auto simp: VerifyCode_def Let_def split: option.splits prod.splits)
  then obtain e where e: "m (enrollmentKey t u) = Some e" by (auto simp: MarkCounterUsed_def split: option.splits)
  show thesis
    by (rule that [OF e0 e]) (use totp_window_match [OF c] k e in \<open>auto simp: MarkCounterUsed_def split: if_splits\<close>)
qed

lemma remove_match_exact:
  "remove_match ok hs = Some hs' \<Longrightarrow> \<exists>xs h ys. hs = xs @ h # ys \<and> hs' = xs @ ys \<and> ok h \<and> list_all (\<lambda>x. \<not> ok x) xs"
proof (induction hs arbitrary: hs')
  case (Cons h hs)
  show ?case
  proof (cases "ok h")
    case True
    then show ?thesis using Cons.prems by (intro exI [of _ "[]"] exI [of _ h] exI [of _ hs]) simp
  next
    case False
    with Cons.prems obtain t where t: "remove_match ok hs = Some t" "hs' = h # t" by auto
    from Cons.IH [OF t(1)] obtain xs g ys where "hs = xs @ g # ys \<and> t = xs @ ys \<and> ok g \<and> list_all (\<lambda>x. \<not> ok x) xs" by blast
    then show ?thesis using False t(2) by (intro exI [of _ "h # xs"] exI [of _ g] exI [of _ ys]) simp
  qed
qed simp

lemma remove_match_none: "(\<And>h. h \<in> set hs \<Longrightarrow> \<not> ok h) \<Longrightarrow> remove_match ok hs = None"
  by (induction hs) auto

lemma VerifyCode_recovery:
  assumes "VerifyCode hotp verify t u code now seen m = (MfaResult True, m')" "length code \<noteq> 6"
  obtains e0 e xs h ys where "seen (enrollmentKey t u) = Some e0" "m (enrollmentKey t u) = Some e"
    "me_RecoveryHashes e = xs @ h # ys" "verify h code" "list_all (\<lambda>x. \<not> verify x code) xs"
    "m' (enrollmentKey t u) = Some (e\<lparr>me_RecoveryHashes := xs @ ys\<rparr>)"
proof -
  obtain e0 e hs where e: "seen (enrollmentKey t u) = Some e0" "m (enrollmentKey t u) = Some e"
      "remove_match (\<lambda>h. verify h code) (me_RecoveryHashes e) = Some hs"
      "m' (enrollmentKey t u) = Some (e\<lparr>me_RecoveryHashes := hs\<rparr>)"
    using assms by (auto simp: VerifyCode_def ConsumeRecovery_def split: option.splits prod.splits)
  from remove_match_exact [OF e(3)] show thesis using that e by blast
qed

lemma VerifyCode_used:
  assumes "m (enrollmentKey t u) = Some e" "c \<in> me_UsedCounters e" "length code = 6" "seen (enrollmentKey t u) = Some e1"
    "totp_window (hotp (me_Secret e1)) code [totp_counter now - 1, totp_counter now, totp_counter now + 1] = Some (Some c)"
  shows "VerifyCode hotp verify t u code now seen m = (MfaResult False, m)"
  using assms by (simp add: VerifyCode_def Let_def MarkCounterUsed_def)

lemma VerifyCode_no_hash:
  assumes "m (enrollmentKey t u) = Some e" "\<And>h. h \<in> set (me_RecoveryHashes e) \<Longrightarrow> \<not> verify h code" "length code \<noteq> 6"
  shows "VerifyCode hotp verify t u code now seen m = (MfaResult False, m)"
  using assms remove_match_none [of "me_RecoveryHashes e" "\<lambda>h. verify h code"]
  by (auto simp: VerifyCode_def ConsumeRecovery_def split: option.split)

lemma mfa_forwardE:
  assumes "mfa_forward k m m'" "m k = Some e"
  obtains e' where "m' k = Some e'" "me_Secret e' = me_Secret e" "me_UsedCounters e \<subseteq> me_UsedCounters e'"
    "mset (me_RecoveryHashes e') \<subseteq># mset (me_RecoveryHashes e)"
  using assms by (auto simp: mfa_forward_def option_rel_Some1)

text \<open>C39. A second factor is accepted once. After a six-digit code was accepted for a user, as long as
  the user does not enrol again, whatever other codes of whatever users are checked in between or at the same
  time (\<open>seen\<close> and \<open>read\<close>, the stores the checks read first, may be old), the same code is refused
  whenever it would be taken for the same time step. After a recovery code was accepted, the hash it
  matched, the first that does, is gone and no other; and if no other hash of the user matches the code,
  it is refused for good.
\<close>

theorem second_factor_is_single_use:
  assumes "VerifyCode hotp verify t u code now seen m = (MfaResult True, m')"
    and "list_all (mfa_op_ok (enrollmentKey t u)) ops" and "n = fold (mfa_step hotp verify) ops m'"
  shows "\<exists>e0 e e'. seen (enrollmentKey t u) = Some e0 \<and> m (enrollmentKey t u) = Some e \<and> n (enrollmentKey t u) = Some e' \<and>
    (if length code = 6
     then \<exists>c. hotp (me_Secret e0) c = Some code \<and> c \<in> {totp_counter now - 1, totp_counter now, totp_counter now + 1} \<and>
       c \<notin> me_UsedCounters e \<and> c \<in> me_UsedCounters e' \<and>
       (\<forall>later read e1. read (enrollmentKey t u) = Some e1 \<longrightarrow> me_Secret e1 = me_Secret e0 \<longrightarrow>
          totp_window (hotp (me_Secret e0)) code [totp_counter later - 1, totp_counter later, totp_counter later + 1] = Some (Some c) \<longrightarrow>
          VerifyCode hotp verify t u code later read n = (MfaResult False, n))
     else \<exists>xs h ys. me_RecoveryHashes e = xs @ h # ys \<and> verify h code \<and> list_all (\<lambda>x. \<not> verify x code) xs \<and>
       map_option me_RecoveryHashes (m' (enrollmentKey t u)) = Some (xs @ ys) \<and>
       mset (me_RecoveryHashes e') \<subseteq># mset (xs @ ys) \<and>
       (list_all (\<lambda>x. \<not> verify x code) ys \<longrightarrow>
          (\<forall>later read. VerifyCode hotp verify t u code later read n = (MfaResult False, n))))"
proof -
  have fw: "mfa_forward (enrollmentKey t u) m' n" unfolding assms(3) using mfa_machine.guarded_run assms(2) by blast
  show ?thesis
  proof (cases "length code = 6")
    case True
    obtain e0 e c where e: "seen (enrollmentKey t u) = Some e0" "m (enrollmentKey t u) = Some e"
        "c \<in> {totp_counter now - 1, totp_counter now, totp_counter now + 1}"
        "hotp (me_Secret e0) c = Some code" "c \<notin> me_UsedCounters e"
        "m' (enrollmentKey t u) = Some (e\<lparr>me_UsedCounters := insert c (me_UsedCounters e)\<rparr>)"
      by (rule VerifyCode_totp [OF assms(1) True])
    obtain e' where l: "n (enrollmentKey t u) = Some e'" "c \<in> me_UsedCounters e'" using mfa_forwardE [OF fw e(6)] by auto
    have "VerifyCode hotp verify t u code later read n = (MfaResult False, n)"
      if "read (enrollmentKey t u) = Some e1" "me_Secret e1 = me_Secret e0"
        "totp_window (hotp (me_Secret e0)) code [totp_counter later - 1, totp_counter later, totp_counter later + 1] = Some (Some c)"
      for later read e1
      using VerifyCode_used [where m = n and seen = read, OF l True that(1)] that(2,3) by simp
    then show ?thesis using e(1-5) l True by auto
  next
    case False
    obtain e0 e xs h ys where e: "seen (enrollmentKey t u) = Some e0" "m (enrollmentKey t u) = Some e"
        "me_RecoveryHashes e = xs @ h # ys" "verify h code" "list_all (\<lambda>x. \<not> verify x code) xs"
        "m' (enrollmentKey t u) = Some (e\<lparr>me_RecoveryHashes := xs @ ys\<rparr>)"
      by (rule VerifyCode_recovery [OF assms(1) False])
    obtain e' where l: "n (enrollmentKey t u) = Some e'" "mset (me_RecoveryHashes e') \<subseteq># mset (xs @ ys)"
      using mfa_forwardE [OF fw e(6)] by auto
    have "set (me_RecoveryHashes e') \<subseteq> set (xs @ ys)" using set_mset_mono [OF l(2)] by simp
    then have "VerifyCode hotp verify t u code later read n = (MfaResult False, n)"
      if "list_all (\<lambda>x. \<not> verify x code) ys" for later read
      using that e(5) by (intro VerifyCode_no_hash [where m = n and e = e', OF l(1) _ False]) (auto simp: list_all_iff)
    then have "\<exists>xs h ys. me_RecoveryHashes e = xs @ h # ys \<and> verify h code \<and> list_all (\<lambda>x. \<not> verify x code) xs \<and>
       map_option me_RecoveryHashes (m' (enrollmentKey t u)) = Some (xs @ ys) \<and>
       mset (me_RecoveryHashes e') \<subseteq># mset (xs @ ys) \<and>
       (list_all (\<lambda>x. \<not> verify x code) ys \<longrightarrow>
          (\<forall>later read. VerifyCode hotp verify t u code later read n = (MfaResult False, n)))"
      using e(3-6) l(2) by (intro exI [of _ xs], intro exI [of _ h], intro exI [of _ ys]) simp
    then show ?thesis using e(1,2) l(1) False by simp
  qed
qed

definition sample_hotp :: "string \<Rightarrow> u64 \<Rightarrow> string option" where
  "sample_hotp secret c = Some (if c = 1 then ''111111'' else ''000000'')"

definition sample_mfa :: mfa_store where
  "sample_mfa = mfa_Enroll ''t'' ''u'' \<lparr>me_Secret = ''s'', me_RecoveryHashes = [''h''], me_UsedCounters = {}, me_CreatedAt = 0\<rparr> Map.empty"

definition sample_checked :: mfa_store where
  "sample_checked = snd (VerifyCode sample_hotp (=) ''t'' ''u'' ''111111'' 40 sample_mfa sample_mfa)"

lemma sample_mfa_accepts:
  "VerifyCode sample_hotp (=) ''t'' ''u'' ''111111'' 40 sample_mfa sample_mfa = (MfaResult True, sample_checked)"
  by (simp add: sample_checked_def VerifyCode_def sample_mfa_def mfa_Enroll_def sample_hotp_def totp_counter_def MarkCounterUsed_def Let_def)

lemma sample_hotp_step: "sample_hotp secret c = Some ''111111'' \<longleftrightarrow> c = 1"
  by (simp add: sample_hotp_def)

text \<open>Also a check that read the store before the first one was done is refused.\<close>

lemma second_factor_is_single_use_witness:
  "fst (VerifyCode sample_hotp (=) ''t'' ''u'' ''111111'' 40 sample_mfa sample_mfa) = MfaResult True
   \<and> fst (VerifyCode sample_hotp (=) ''t'' ''u'' ''111111'' 61 sample_mfa
       (fold (mfa_step sample_hotp (=)) [MVerify ''t'' ''v'' ''h'' 50 sample_checked] sample_checked)) = MfaResult False"
proof (intro conjI)
  show "fst (VerifyCode sample_hotp (=) ''t'' ''u'' ''111111'' 40 sample_mfa sample_mfa) = MfaResult True"
    by (subst sample_mfa_accepts) simp
  have w: "totp_window (sample_hotp s) ''111111'' [totp_counter 61 - 1, totp_counter 61, totp_counter 61 + 1] = Some (Some 1)" for s
    by (simp add: sample_hotp_def totp_counter_def)
  from second_factor_is_single_use [OF sample_mfa_accepts _ refl, of "[MVerify ''t'' ''v'' ''h'' 50 sample_checked]"] w
  show "fst (VerifyCode sample_hotp (=) ''t'' ''u'' ''111111'' 61 sample_mfa
       (fold (mfa_step sample_hotp (=)) [MVerify ''t'' ''v'' ''h'' 50 sample_checked] sample_checked)) = MfaResult False"
    by (auto simp: sample_hotp_step)
qed

end
