(* ===== verification/Dispatch.thy ===== *)
theory Dispatch
  imports JobCore JobStore GoNet "HOL-Library.AList"
begin

text \<open>
  What the gateway sends to a worker and accepts back: the dispatch envelope of a job
  (\<open>executor/executor.go\<close>), the check of a leased envelope against the stored job, the
  normalization of worker events and the small policies of the consumer
  (\<open>executor/workerconsumer.go\<close>, \<open>executor/submission.go\<close>, \<open>executor/queueholds.go\<close>).

  Parameters: \<open>resolve\<close>, the conversation manager's lookup of a bound chat thread (\<open>None\<close> when
  conversations are off), \<open>marshal\<close>, \<open>encoding/json\<close>, and \<open>digest\<close>, the hex SHA-256.
\<close>

subsection \<open>Envelopes\<close>

record dispatch_job =
  dj_Target :: string
  dj_CommandType :: string
  dj_ConversationID :: string
  dj_TemplateID :: string
  dj_Input :: "jmap option"
  dj_Options :: "jmap option"
  dj_Callbacks :: "jmap option"
  dj_Context :: "jmap option"

record dispatch_conversation =
  dc_Key :: string
  dc_ThreadRef :: string
  dc_OnMissing :: string

record envelope =
  ev_APIVersion :: string
  ev_JobID :: string
  ev_TenantID :: string
  ev_AppID :: string
  ev_IdempotencyKey :: string
  ev_TraceID :: string
  ev_RetryOf :: string
  ev_NotBefore :: "gotime option"
  ev_Job :: dispatch_job
  ev_Conversation :: "dispatch_conversation option"
  ev_Client :: "jmap option"
  ev_Attempt :: "string option"
  ev_CreatedAt :: gotime

definition map_get :: "jmap option \<Rightarrow> string \<Rightarrow> json option" where
  "map_get m k = (case m of None \<Rightarrow> None | Some kvs \<Rightarrow> map_of kvs k)"

definition string_option :: "jmap option \<Rightarrow> string \<Rightarrow> string \<Rightarrow> string" where
  "string_option m k d =
     (case map_get m k of
        Some (JStr v) \<Rightarrow> if trim_space v \<noteq> [] then trim_space v else d
      | _ \<Rightarrow> d)"

definition parseJobOptions :: "jmap option \<Rightarrow> string" where
  "parseJobOptions raw = string_option raw ''priority'' ''normal''"

definition conversationOnMissing :: "jmap option \<Rightarrow> string" where
  "conversationOnMissing options = string_option options ''conversation_missing'' ''fail''"

type_synonym conversation_key = "string \<times> string \<times> string \<times> string"

definition conversationBlockForJob :: "(conversation_key \<Rightarrow> string option) option \<Rightarrow> job \<Rightarrow> dispatch_conversation option" where
  "conversationBlockForJob resolve job =
     (let conversationID = trim_space (job_ConversationID job) in
      case resolve of
        None \<Rightarrow> None
      | Some look \<Rightarrow>
          if conversationID = [] then None
          else Some \<lparr>dc_Key = conversationID,
                     dc_ThreadRef = (case look (job_TenantID job, job_AppID job, job_Target job, conversationID) of
                                       Some thread \<Rightarrow> thread | None \<Rightarrow> []),
                     dc_OnMissing = conversationOnMissing (job_Options job)\<rparr>)"

definition EnvelopeFromJobWithConversation :: "(conversation_key \<Rightarrow> string option) option \<Rightarrow> job \<Rightarrow> envelope" where
  "EnvelopeFromJobWithConversation resolve job =
     \<lparr>ev_APIVersion = job_APIVersion job, ev_JobID = job_ID job, ev_TenantID = job_TenantID job,
      ev_AppID = job_AppID job, ev_IdempotencyKey = job_IdempotencyKey job, ev_TraceID = job_TraceID job,
      ev_RetryOf = job_RetryOf job, ev_NotBefore = job_NotBefore job,
      ev_Job = \<lparr>dj_Target = job_Target job, dj_CommandType = job_CommandType job,
                dj_ConversationID = job_ConversationID job, dj_TemplateID = job_TemplateID job,
                dj_Input = job_Input job, dj_Options = job_Options job, dj_Callbacks = job_Callbacks job,
                dj_Context = job_Context job\<rparr>,
      ev_Conversation = conversationBlockForJob resolve job, ev_Client = job_Client job, ev_Attempt = None,
      ev_CreatedAt = job_CreatedAt job\<rparr>"

definition EnvelopeFromJob :: "job \<Rightarrow> envelope" where
  "EnvelopeFromJob job = EnvelopeFromJobWithConversation None job"

definition ProviderConfigFromModelSettings :: "jmap \<Rightarrow> jmap option" where
  "ProviderConfigFromModelSettings settings =
     (if settings = [] then None
      else Some (filter (\<lambda>(k, v). if k = ''_enabled'' then (case v of JBool _ \<Rightarrow> True | _ \<Rightarrow> False) else \<not> prefix ''_'' k) settings))"

subsection \<open>The leased envelope must be the stored job\<close>

definition nilOrEmptyJSONObject :: "jmap option \<Rightarrow> bool" where
  "nilOrEmptyJSONObject v = (case v of None \<Rightarrow> True | Some m \<Rightarrow> m = [])"

definition jsonSemanticallyEqual :: "(jmap option \<Rightarrow> string option) \<Rightarrow> jmap option \<Rightarrow> jmap option \<Rightarrow> bool" where
  "jsonSemanticallyEqual marshal actual expected =
     (if actual = expected then True
      else if nilOrEmptyJSONObject actual \<and> nilOrEmptyJSONObject expected then True
      else (case (marshal actual, marshal expected) of (Some a, Some b) \<Rightarrow> a = b | _ \<Rightarrow> False))"

definition validateLeaseEnvelope :: "(jmap option \<Rightarrow> string option) \<Rightarrow> job \<Rightarrow> envelope \<Rightarrow> bool" where
  "validateLeaseEnvelope marshal job e =
     (let expected = EnvelopeFromJob job; ej = ev_Job e; xj = ev_Job expected in
      ev_APIVersion e = ev_APIVersion expected \<and> ev_JobID e = ev_JobID expected \<and>
      ev_TenantID e = ev_TenantID expected \<and> ev_AppID e = ev_AppID expected \<and>
      ev_IdempotencyKey e = ev_IdempotencyKey expected \<and> ev_TraceID e = ev_TraceID expected \<and>
      ev_RetryOf e = ev_RetryOf expected \<and> dj_Target ej = dj_Target xj \<and> dj_CommandType ej = dj_CommandType xj \<and>
      dj_ConversationID ej = dj_ConversationID xj \<and> dj_TemplateID ej = dj_TemplateID xj \<and>
      list_all (\<lambda>(actual, wanted). jsonSemanticallyEqual marshal actual wanted)
        [(ev_Client e, ev_Client expected), (dj_Input ej, dj_Input xj), (dj_Options ej, dj_Options xj),
         (dj_Callbacks ej, dj_Callbacks xj), (dj_Context ej, dj_Context xj)])"

subsection \<open>Worker events\<close>

definition terminalWorkerEventType :: "string \<Rightarrow> bool" where
  "terminalWorkerEventType t =
     (t \<in> {''completed'', ''completed_with_warnings'', ''failed'', ''failed_retryable'', ''failed_terminal'',
           ''dead_letter'', ''cancelled'', ''canceled'', ''timed_out'', ''timeout'', ''blocked''})"

definition telemetryEventType :: "string \<Rightarrow> bool" where
  "telemetryEventType t =
     (t \<in> {''concurrency.cap_changed'', ''browser.topology_reported'', ''conversation.thread_bound'',
           ''conversation.thread_rebound'', ''conversation.thread_broken'', ''session.new_chat'',
           ''session.configured'', ''file.attached''})"

definition promptSubmittedEventType :: string where
  "promptSubmittedEventType = ''prompt_submitted''"

definition staleAttemptEvent :: "envelope \<Rightarrow> worker_event \<Rightarrow> bool" where
  "staleAttemptEvent e ev =
     (case ev_Attempt e of
        None \<Rightarrow> False
      | Some attempt \<Rightarrow>
          if attempt = [] then False
          else (case map_get (we_Data ev) ''attempt_id'' of
                  Some (JStr ident) \<Rightarrow> ident \<noteq> [] \<and> ident \<noteq> attempt
                | _ \<Rightarrow> False))"

definition dropStaleAttemptEvents :: "envelope \<Rightarrow> worker_event list \<Rightarrow> worker_event list" where
  "dropStaleAttemptEvents e evs = filter (\<lambda>ev. \<not> staleAttemptEvent e ev) evs"

text \<open>\<open>None\<close>: the event is refused.\<close>

definition normalizeWorkerEvent :: "envelope \<Rightarrow> worker_event \<Rightarrow> worker_event option" where
  "normalizeWorkerEvent e ev =
     (if trim_space (we_EventID ev) = [] \<and> we_Sequence ev \<le> 0 then None
      else
        let jobID = (if we_JobID ev = [] then ev_JobID e else we_JobID ev) in
        if jobID \<noteq> ev_JobID e then None
        else
          let version = (if we_APIVersion ev = [] then ev_APIVersion e else we_APIVersion ev) in
          if version \<noteq> ev_APIVersion e then None
          else
            let trace = (if we_TraceID ev = [] then ev_TraceID e else we_TraceID ev) in
            if trace \<noteq> ev_TraceID e then None
            else Some (ev\<lparr>we_JobID := jobID, we_APIVersion := version, we_TraceID := trace,
                         we_Data := Some (case we_Data ev of None \<Rightarrow> [] | Some d \<Rightarrow> d)\<rparr>))"

definition workerMetricOutcome :: "status \<Rightarrow> string" where
  "workerMetricOutcome st =
     (if st = StatusCompleted \<or> st = StatusCompletedWithWarnings then ''success''
      else if st = StatusCanceled then ''cancelled'' else ''failure'')"

definition attemptIDForLease :: "(string \<Rightarrow> string) \<Rightarrow> string \<Rightarrow> string" where
  "attemptIDForLease digest leaseID = ''att_'' @ take 32 (digest leaseID)"

definition failureEventID :: "string \<Rightarrow> string \<Rightarrow> envelope \<Rightarrow> string" where
  "failureEventID jobID leaseID e =
     ''gateway_worker_failure:'' @ jobID @ '':'' @ leaseID @
     (case ev_Attempt e of None \<Rightarrow> [] | Some a \<Rightarrow> if a = [] then [] else '':'' @ a)"

subsection \<open>Polling and delays\<close>

definition localWorkers :: "int \<Rightarrow> int" where
  "localWorkers poolSize = (if poolSize \<le> 0 then 1 else min poolSize 32)"

definition maxFleetWorkers :: int where "maxFleetWorkers = 512"

text \<open>\<open>None\<close>: no helper capacity.\<close>

definition workerCount :: "int \<Rightarrow> int option \<Rightarrow> int" where
  "workerCount poolSize helperCapacity =
     (case helperCapacity of
        None \<Rightarrow> localWorkers poolSize
      | Some h \<Rightarrow> min (wrap64 (localWorkers poolSize + max h 0)) maxFleetWorkers)"

definition idlePollWait :: "dur \<Rightarrow> dur \<Rightarrow> int \<Rightarrow> dur" where
  "idlePollWait base mx streak =
     (if mx \<le> base \<or> streak \<le> 0 then base
      else let wait = wrap64 (base * 2 ^ nat (min streak 16)) in if wait \<le> 0 \<or> mx < wait then mx else wait)"

definition maxOverloadRetryDelay :: dur where "maxOverloadRetryDelay = 30 * second"
definition defaultOverloadRetryDelay :: dur where "defaultOverloadRetryDelay = 2 * second"

text \<open>The delay of a refusal that asks for \<open>retryAfter\<close>.\<close>

definition holdPlan :: "dur \<Rightarrow> dur" where
  "holdPlan retryAfter = (if 0 < retryAfter then min retryAfter maxOverloadRetryDelay else defaultOverloadRetryDelay)"

definition runSerial_backoff :: "dur \<Rightarrow> nat \<Rightarrow> dur" where
  "runSerial_backoff pollInterval consecutiveErrors =
     (let backoff = wrap64 (pollInterval * 2 ^ min consecutiveErrors 5) in if 30 * second < backoff then 30 * second else backoff)"

subsection \<open>The board of held jobs\<close>

definition CoarseQueueReason :: "string \<Rightarrow> string" where
  "CoarseQueueReason fine =
     (if fine \<in> {''local_slots_busy'', ''queue_full'', ''wait_expired'', ''overloaded''} then ''waiting_for_worker''
      else if fine \<in> {''identity_busy'', ''voice_session_active'', ''voice_admission_in_flight''} then ''waiting_for_identity''
      else if fine = ''no_capacity'' then ''waiting_for_capacity''
      else if fine \<in> {''no_eligible_node'', ''affinity_unavailable''} then ''waiting_for_node''
      else if fine = ''retry_backoff'' then ''retry_backoff''
      else ''temporarily_unavailable'')"

definition maxHolds :: nat where "maxHolds = 1024"
definition holdTTL :: dur where "holdTTL = 2 * minute"
definition maxHoldReasons :: nat where "maxHoldReasons = 64"

record hold_info =
  hi_TenantID :: string
  hi_AppID :: string
  hi_Fine :: string
  hi_Since :: gotime
  hi_Assigned :: bool
  hi_seen :: gotime

type_synonym hold_board = "(string \<times> hold_info) list"

definition is_lower :: "char \<Rightarrow> bool" where
  "is_lower c = (CHR ''a'' \<le> c \<and> c \<le> CHR ''z'')"

definition holdReasonRe :: "string \<Rightarrow> bool" where
  "holdReasonRe s =
     (case s of [] \<Rightarrow> False
      | c # r \<Rightarrow> is_lower c \<and> length r \<le> 63 \<and>
          list_all (\<lambda>d. is_lower d \<or> CHR ''0'' \<le> d \<and> d \<le> CHR ''9'' \<or> d = CHR ''_'') r)"

definition hold_prune :: "gotime \<Rightarrow> hold_board \<Rightarrow> hold_board" where
  "hold_prune now b = filter (\<lambda>(_, h). \<not> holdTTL \<le> now - hi_seen h) b"

definition hold_note :: "gotime \<Rightarrow> string \<Rightarrow> string \<Rightarrow> string \<Rightarrow> string \<Rightarrow> bool \<Rightarrow> hold_board \<Rightarrow> hold_board" where
  "hold_note now jobID tenantID appID fine0 assigned b =
     (if jobID = [] then b
      else
        let fine = (if holdReasonRe fine0 then fine0 else ''other_hold'');
            cur = map_of b jobID;
            full = (cur = None \<and> maxHolds \<le> length b);
            b = (if full then hold_prune now b else b)
        in if full \<and> maxHolds \<le> length b then b
           else
             let since = (case cur of
                            Some h \<Rightarrow> if hi_Fine h = fine \<and> now - hi_seen h < holdTTL then hi_Since h else now
                          | None \<Rightarrow> now)
             in AList.update jobID \<lparr>hi_TenantID = tenantID, hi_AppID = appID, hi_Fine = fine, hi_Since = since,
                                   hi_Assigned = assigned, hi_seen = now\<rparr> b)"

definition hold_Clear :: "string \<Rightarrow> hold_board \<Rightarrow> hold_board" where
  "hold_Clear jobID b = AList.delete jobID b"

definition hold_Lookup :: "gotime \<Rightarrow> string \<Rightarrow> hold_board \<Rightarrow> hold_info option" where
  "hold_Lookup now jobID b =
     (case map_of b jobID of None \<Rightarrow> None | Some h \<Rightarrow> if holdTTL \<le> now - hi_seen h then None else Some h)"

definition count_reason :: "hold_info \<Rightarrow> (string \<times> nat) list \<Rightarrow> (string \<times> nat) list" where
  "count_reason h out =
     (let key = (if map_of out (hi_Fine h) = None \<and> maxHoldReasons \<le> length out then ''other_hold'' else hi_Fine h)
      in AList.update key (Suc (case map_of out key of None \<Rightarrow> 0 | Some n \<Rightarrow> n)) out)"

definition hold_counts :: "gotime \<Rightarrow> string \<Rightarrow> string \<Rightarrow> bool \<Rightarrow> hold_board \<Rightarrow> (string \<times> nat) list" where
  "hold_counts now tenantID appID withAssigned b =
     fold (\<lambda>(_, h) out.
        if holdTTL \<le> now - hi_seen h \<or> (tenantID \<noteq> [] \<and> hi_TenantID h \<noteq> tenantID) \<or> (appID \<noteq> [] \<and> hi_AppID h \<noteq> appID) \<or>
           (hi_Assigned h \<and> \<not> withAssigned) then out
        else count_reason h out) b []"

end
