(* ===== verification/Spool.thy ===== *)
theory Spool
  imports Dispatch
begin

text \<open>
  The file spool (\<open>executor/filespool.go\<close>), the queue between the gateway and its workers:
  one JSON file per envelope, whose directory is its state. The model keeps the five
  directories as lists of named files (modification time, bytes), the index of terminal job
  ids, the cache of scheduled times and the wake token.

  The directories exist and file operations fail only for want of the file, or, in the
  retention sweep, as the argument \<open>stuck\<close> says. Each operation runs as one step; what other
  goroutines do between the listing of \<open>pending/\<close> and the claim of a file is the argument
  \<open>other\<close> (the code's \<open>beforeLease\<close> hook). Files in \<open>pending/\<close> are written whole
  (the code writes a temporary file and renames it). Job identifiers have no character that
  \<open>filepath.Glob\<close> reads as a pattern. \<open>encoding/json\<close> is the argument \<open>codec\<close>.
\<close>

datatype spool_dir = DirPending | DirLeased | DirDone | DirFailed | DirCancelled

record spool_file =
  sf_Modified :: gotime
  sf_Raw :: string

record spool =
  sp_dirs :: "spool_dir \<Rightarrow> (string \<times> spool_file) list"
  sp_terminalIDs :: "string set option"
  sp_honorNotBefore :: bool
  sp_leaseTTL :: dur
  sp_notBefore :: "(string \<times> gotime) list"
  sp_retentionTTL :: dur
  sp_retentionMax :: int
  sp_wake :: bool

record codec =
  co_encode :: "envelope \<Rightarrow> string"
  co_decode :: "string \<Rightarrow> envelope option"
  co_not_before :: "string \<Rightarrow> gotime option"
  co_marker :: "job \<Rightarrow> string \<Rightarrow> gotime \<Rightarrow> string"

definition maxSpoolEnvelopeBytes :: nat where "maxSpoolEnvelopeBytes = 256 * 1024"

definition NewFileSpoolDispatcher :: spool where
  "NewFileSpoolDispatcher =
     \<lparr>sp_dirs = (\<lambda>_. []), sp_terminalIDs = None, sp_honorNotBefore = False, sp_leaseTTL = 0, sp_notBefore = [],
      sp_retentionTTL = 0, sp_retentionMax = 0, sp_wake = False\<rparr>"

definition SetRetention :: "dur \<Rightarrow> int \<Rightarrow> spool \<Rightarrow> spool" where
  "SetRetention ttl mx s = s\<lparr>sp_retentionTTL := ttl, sp_retentionMax := mx\<rparr>"

definition SetHonorNotBefore :: "bool \<Rightarrow> spool \<Rightarrow> spool" where
  "SetHonorNotBefore on s = s\<lparr>sp_honorNotBefore := on\<rparr>"

definition SetLeaseTTL :: "dur \<Rightarrow> spool \<Rightarrow> spool" where
  "SetLeaseTTL ttl s = s\<lparr>sp_leaseTTL := ttl\<rparr>"

definition notifyEnqueue :: "spool \<Rightarrow> spool" where
  "notifyEnqueue s = s\<lparr>sp_wake := True\<rparr>"

subsection \<open>Files\<close>

definition spool_names :: "spool_dir \<Rightarrow> spool \<Rightarrow> string list" where
  "spool_names d s = map fst (sp_dirs s d)"

definition fs_find :: "spool_dir \<Rightarrow> string \<Rightarrow> spool \<Rightarrow> spool_file option" where
  "fs_find d n s = map_of (sp_dirs s d) n"

definition fs_put :: "spool_dir \<Rightarrow> string \<Rightarrow> spool_file \<Rightarrow> spool \<Rightarrow> spool" where
  "fs_put d n f s = s\<lparr>sp_dirs := (sp_dirs s)(d := AList.update n f (sp_dirs s d))\<rparr>"

definition fs_del :: "spool_dir \<Rightarrow> string \<Rightarrow> spool \<Rightarrow> spool" where
  "fs_del d n s = s\<lparr>sp_dirs := (sp_dirs s)(d := AList.delete n (sp_dirs s d))\<rparr>"

text \<open>\<open>os.Rename\<close>; \<open>None\<close> means the source does not exist.\<close>

definition fs_rename :: "spool_dir \<Rightarrow> string \<Rightarrow> spool_dir \<Rightarrow> string \<Rightarrow> spool \<Rightarrow> spool option" where
  "fs_rename d n d' n' s =
     (case fs_find d n s of None \<Rightarrow> None | Some f \<Rightarrow> Some (fs_put d' n' f (fs_del d n s)))"

definition renameNoOverwrite :: "spool_dir \<Rightarrow> string \<Rightarrow> spool_dir \<Rightarrow> string \<Rightarrow> spool \<Rightarrow> spool option" where
  "renameNoOverwrite d n d' n' s =
     (if fs_find d' n' s \<noteq> None then Some (fs_del d n s) else fs_rename d n d' n' s)"

definition writeFileExclusive :: "spool_dir \<Rightarrow> string \<Rightarrow> spool_file \<Rightarrow> spool \<Rightarrow> spool" where
  "writeFileExclusive d n f s = (if fs_find d n s \<noteq> None then s else fs_put d n f s)"

definition json_ext :: string where "json_ext = ''.json''"

definition envelope_name :: "string \<Rightarrow> string" where
  "envelope_name jobID = jobID @ json_ext"

definition lease_name :: "string \<Rightarrow> string \<Rightarrow> string" where
  "lease_name jobID leaseID = jobID @ ''.'' @ leaseID @ json_ext"

text \<open>A name the pattern \<open>jobID + ".*.json"\<close> matches.\<close>

definition glob_lease :: "string \<Rightarrow> string \<Rightarrow> bool" where
  "glob_lease jobID name =
     (prefix (jobID @ ''.'') name \<and> suffix json_ext (drop (Suc (length jobID)) name))"

definition findJobPath :: "string \<Rightarrow> spool_dir \<Rightarrow> spool \<Rightarrow> bool" where
  "findJobPath jobID d s =
     (fs_find d (envelope_name jobID) s \<noteq> None \<or> list_ex (glob_lease jobID) (spool_names d s))"

subsection \<open>The index of terminal jobs\<close>

definition cut_suffix :: "string \<Rightarrow> string \<Rightarrow> string option" where
  "cut_suffix name ext = (if suffix ext name then Some (take (length name - length ext) name) else None)"

fun dot_prefixes :: "string \<Rightarrow> string \<Rightarrow> string set" where
  "dot_prefixes seen [] = {}"
| "dot_prefixes seen (c # cs) =
     (if c = CHR ''.'' then insert seen (dot_prefixes (seen @ [c]) cs) else dot_prefixes (seen @ [c]) cs)"

definition addTerminalName :: "string \<Rightarrow> string set \<Rightarrow> string set" where
  "addTerminalName name ids =
     (case cut_suffix name json_ext of
        None \<Rightarrow> ids
      | Some base \<Rightarrow> insert base (dot_prefixes [] base) \<union> ids)"

definition noteTerminal :: "string \<Rightarrow> spool \<Rightarrow> spool" where
  "noteTerminal name s = s\<lparr>sp_terminalIDs := map_option (addTerminalName name) (sp_terminalIDs s)\<rparr>"

definition invalidateTerminal :: "spool \<Rightarrow> spool" where
  "invalidateTerminal s = s\<lparr>sp_terminalIDs := None\<rparr>"

definition terminal_dirs :: "spool_dir list" where
  "terminal_dirs = [DirDone, DirFailed, DirCancelled]"

definition load_terminal :: "spool \<Rightarrow> string set" where
  "load_terminal s = fold addTerminalName (concat (map (\<lambda>d. spool_names d s) terminal_dirs)) {}"

definition jobExistsInTerminalState :: "string \<Rightarrow> spool \<Rightarrow> bool \<times> spool" where
  "jobExistsInTerminalState jobID s =
     (let ids = (case sp_terminalIDs s of Some ids \<Rightarrow> ids | None \<Rightarrow> load_terminal s)
      in (jobID \<in> ids, s\<lparr>sp_terminalIDs := Some ids\<rparr>))"

definition jobExistsInAnyState :: "string \<Rightarrow> spool \<Rightarrow> bool \<times> spool" where
  "jobExistsInAnyState jobID s =
     (if findJobPath jobID DirPending s then (True, s)
      else if findJobPath jobID DirLeased s then (True, s)
      else jobExistsInTerminalState jobID s)"

definition HasJob :: "string \<Rightarrow> spool \<Rightarrow> bool \<times> spool" where
  "HasJob jobID s = jobExistsInAnyState jobID s"

subsection \<open>Moves\<close>

text \<open>The path of a lease is the name of its file in \<open>leased/\<close>; the empty path is an error.\<close>

definition moveLeasePath :: "string \<Rightarrow> spool_dir \<Rightarrow> spool \<Rightarrow> bool \<times> spool" where
  "moveLeasePath path d s =
     (if path = [] then (False, s)
      else (case renameNoOverwrite DirLeased path d path s of
              None \<Rightarrow> (True, s)
            | Some s' \<Rightarrow> (True, noteTerminal path s')))"

definition movePendingToCancelled :: "string \<Rightarrow> spool \<Rightarrow> bool \<times> spool" where
  "movePendingToCancelled jobID s =
     (let name = envelope_name jobID in
      case renameNoOverwrite DirPending name DirCancelled name s of
        None \<Rightarrow> (False, s)
      | Some s' \<Rightarrow> (True, noteTerminal name s'))"

definition lease_matches :: "string \<Rightarrow> spool \<Rightarrow> string list" where
  "lease_matches jobID s = filter (glob_lease jobID) (sort (spool_names DirLeased s))"

definition moveLeasedToCancelled :: "string \<Rightarrow> spool \<Rightarrow> bool \<times> spool" where
  "moveLeasedToCancelled jobID s =
     (let matches = lease_matches jobID s
      in (matches \<noteq> [], fold (\<lambda>name s. snd (moveLeasePath name DirCancelled s)) matches s))"

definition writeCancellationMarker :: "codec \<Rightarrow> gotime \<Rightarrow> job \<Rightarrow> string \<Rightarrow> spool \<Rightarrow> spool" where
  "writeCancellationMarker co now job reason s =
     (case jobExistsInTerminalState (job_ID job) s of
        (True, s1) \<Rightarrow> s1
      | (False, s1) \<Rightarrow>
          let payload = co_marker co job (trim_space reason) now
          in noteTerminal (envelope_name (job_ID job))
               (writeFileExclusive DirCancelled (envelope_name (job_ID job)) \<lparr>sf_Modified = now, sf_Raw = payload\<rparr> s1))"

subsection \<open>Enqueue and cancel\<close>

definition spool_EnqueueJob :: "codec \<Rightarrow> gotime \<Rightarrow> job \<Rightarrow> spool \<Rightarrow> spool" where
  "spool_EnqueueJob co now job s =
     (if TerminalStatus (job_Status job) then s
      else (case jobExistsInAnyState (job_ID job) s of
              (True, s1) \<Rightarrow> s1
            | (False, s1) \<Rightarrow>
                if fs_find DirPending (envelope_name (job_ID job)) s1 \<noteq> None then s1
                else
                  let payload = co_encode co (EnvelopeFromJob job) @ [CHR 0x0A]
                  in notifyEnqueue (fs_put DirPending (envelope_name (job_ID job)) \<lparr>sf_Modified = now, sf_Raw = payload\<rparr> s1)))"

definition spool_CancelJob :: "codec \<Rightarrow> gotime \<Rightarrow> job \<Rightarrow> string \<Rightarrow> spool \<Rightarrow> spool" where
  "spool_CancelJob co now job reason s =
     (case movePendingToCancelled (job_ID job) s of
        (moved, s1) \<Rightarrow>
          (case moveLeasedToCancelled (job_ID job) s1 of
             (leasedMoved, s2) \<Rightarrow> if moved \<or> leasedMoved then s2 else writeCancellationMarker co now job reason s2))"

subsection \<open>Leasing\<close>

definition notBeforeDeferred :: "codec \<Rightarrow> gotime \<Rightarrow> string \<Rightarrow> spool \<Rightarrow> bool \<times> spool" where
  "notBeforeDeferred co now name s =
     (case map_of (sp_notBefore s) name of
        Some due \<Rightarrow> if now < due then (True, s) else (False, s\<lparr>sp_notBefore := AList.delete name (sp_notBefore s)\<rparr>)
      | None \<Rightarrow>
          (case fs_find DirPending name s of
             None \<Rightarrow> (False, s)
           | Some f \<Rightarrow>
               if maxSpoolEnvelopeBytes < length (sf_Raw f) then (False, s)
               else (case co_not_before co (sf_Raw f) of
                       None \<Rightarrow> (False, s)
                     | Some due \<Rightarrow> if \<not> now < due then (False, s)
                                  else (True, s\<lparr>sp_notBefore := AList.update name due (sp_notBefore s)\<rparr>))))"

definition pruneNotBefore :: "string list \<Rightarrow> spool \<Rightarrow> spool" where
  "pruneNotBefore pending s = s\<lparr>sp_notBefore := filter (\<lambda>(name, _). name \<in> set pending) (sp_notBefore s)\<rparr>"

text \<open>The listed names with the least one swapped to the front, the others then sorted.\<close>

fun first_min :: "string list \<Rightarrow> nat \<Rightarrow> nat \<Rightarrow> string list \<Rightarrow> nat" where
  "first_min names first i [] = first"
| "first_min names first i (n # ns) = first_min names (if n < names ! first then i else first) (Suc i) ns"

definition lease_order :: "string list \<Rightarrow> string list" where
  "lease_order names =
     (case names of
        [] \<Rightarrow> []
      | n0 # _ \<Rightarrow>
          let first = first_min names 0 0 names;
              swapped = names[0 := names ! first, first := n0]
          in hd swapped # sort (tl swapped))"

record spool_lease =
  sl_JobID :: string
  sl_LeaseID :: string
  sl_Path :: string
  sl_Envelope :: envelope
  sl_LeasedAt :: gotime

datatype lease_error = EnvelopeTooLarge | EnvelopeMalformed | EnvelopeOtherJob

datatype lease_outcome = LeaseLost | LeaseRefused lease_error | LeaseGranted spool_lease

definition unix_nano :: "gotime \<Rightarrow> int" where
  "unix_nano t = t - 62135596800 * second"

definition tryLease :: "codec \<Rightarrow> gotime \<Rightarrow> string \<Rightarrow> spool \<Rightarrow> lease_outcome \<times> spool" where
  "tryLease co now name s =
     (let jobID = (case cut_suffix name json_ext of Some base \<Rightarrow> base | None \<Rightarrow> name);
          leaseID = show_int (unix_nano now);
          destination = lease_name jobID leaseID in
      case fs_rename DirPending name DirLeased destination s of
        None \<Rightarrow> (LeaseLost, s)
      | Some s1 \<Rightarrow>
          (case fs_find DirLeased destination s1 of
             None \<Rightarrow> (LeaseLost, s1)
           | Some f \<Rightarrow>
               if maxSpoolEnvelopeBytes < length (sf_Raw f)
               then (LeaseRefused EnvelopeTooLarge, snd (moveLeasePath destination DirFailed s1))
               else (case co_decode co (sf_Raw f) of
                       None \<Rightarrow> (LeaseRefused EnvelopeMalformed, snd (moveLeasePath destination DirFailed s1))
                     | Some e0 \<Rightarrow>
                         let e = (if ev_JobID e0 = [] then e0\<lparr>ev_JobID := jobID\<rparr> else e0) in
                         if ev_JobID e \<noteq> jobID
                         then (LeaseRefused EnvelopeOtherJob, snd (moveLeasePath destination DirFailed s1))
                         else (LeaseGranted \<lparr>sl_JobID = ev_JobID e, sl_LeaseID = leaseID, sl_Path = destination,
                                            sl_Envelope = e, sl_LeasedAt = now\<rparr>, s1))))"

text \<open>\<open>now\<close> is read before the loop, \<open>claim\<close> at each claim.\<close>

fun try_leases :: "(string \<Rightarrow> spool \<Rightarrow> spool) \<Rightarrow> codec \<Rightarrow> gotime \<Rightarrow> (string \<Rightarrow> gotime) \<Rightarrow> string list \<Rightarrow> spool \<Rightarrow> lease_outcome \<times> spool" where
  "try_leases other co now claim [] s = (LeaseLost, s)"
| "try_leases other co now claim (name # names) s =
     (case (if sp_honorNotBefore s then notBeforeDeferred co now name s else (False, s)) of
        (True, s1) \<Rightarrow> try_leases other co now claim names s1
      | (False, s1) \<Rightarrow>
          (case tryLease co (claim name) name (other name s1) of
             (LeaseLost, s2) \<Rightarrow> try_leases other co now claim names s2
           | (r, s2) \<Rightarrow> (r, s2)))"

text \<open>\<open>LeaseLost\<close> is the answer of an empty queue.\<close>

definition spool_LeaseNext :: "(string \<Rightarrow> spool \<Rightarrow> spool) \<Rightarrow> codec \<Rightarrow> gotime \<Rightarrow> (string \<Rightarrow> gotime) \<Rightarrow> spool \<Rightarrow> lease_outcome \<times> spool" where
  "spool_LeaseNext other co now claim s =
     (let names = filter (suffix json_ext) (sort (spool_names DirPending s)) in
      if names = [] then (LeaseLost, s)
      else
        let s1 = (if sp_honorNotBefore s then pruneNotBefore names s else s)
        in try_leases other co now claim (lease_order names) s1)"

subsection \<open>Settling a lease\<close>

definition CompleteLease :: "spool_lease \<Rightarrow> spool \<Rightarrow> spool" where
  "CompleteLease l s = snd (moveLeasePath (sl_Path l) DirDone s)"

definition FailLease :: "spool_lease \<Rightarrow> spool \<Rightarrow> spool" where
  "FailLease l s = snd (moveLeasePath (sl_Path l) DirFailed s)"

definition CancelLease :: "spool_lease \<Rightarrow> spool \<Rightarrow> spool" where
  "CancelLease l s = snd (moveLeasePath (sl_Path l) DirCancelled s)"

definition RetryLease :: "spool_lease \<Rightarrow> spool \<Rightarrow> spool" where
  "RetryLease l s =
     (if sl_Path l = [] then s
      else (case renameNoOverwrite DirLeased (sl_Path l) DirPending (envelope_name (sl_JobID l)) s of
              None \<Rightarrow> s
            | Some s' \<Rightarrow> notifyEnqueue s'))"

text \<open>\<open>False\<close>: \<open>ErrLeaseLost\<close>.\<close>

definition RenewSpoolLease :: "gotime \<Rightarrow> spool_lease \<Rightarrow> spool \<Rightarrow> bool \<times> spool" where
  "RenewSpoolLease now l s =
     (if sp_leaseTTL s \<le> 0 then (True, s)
      else (case fs_find DirLeased (sl_Path l) s of
              None \<Rightarrow> (False, s)
            | Some f \<Rightarrow> (True, fs_put DirLeased (sl_Path l) (f\<lparr>sf_Modified := now\<rparr>) s)))"

subsection \<open>Recovery\<close>

text \<open>\<open>strconv.ParseInt(s, 10, 64)\<close>\<close>

definition parse_int64 :: "string \<Rightarrow> int option" where
  "parse_int64 s =
     (let (neg, ds) = (case s of [] \<Rightarrow> (False, []) | c # r \<Rightarrow> if c = CHR ''-'' then (True, r) else if c = CHR ''+'' then (False, r) else (False, s))
      in if ds = [] \<or> \<not> list_all is_digit ds then None
         else let n = (if neg then - int (undigits 0 ds) else int (undigits 0 ds))
              in if - (2 ^ 63) \<le> n \<and> n < 2 ^ 63 then Some n else None)"

definition split_last_dot :: "string \<Rightarrow> (string \<times> string) option" where
  "split_last_dot base =
     (case last_index_of (CHR ''.'') base of
        None \<Rightarrow> None
      | Some i \<Rightarrow> if i = 0 then None else Some (take i base, drop (Suc i) base))"

definition leaseLiveness :: "string \<Rightarrow> gotime \<Rightarrow> gotime" where
  "leaseLiveness name mod_time =
     (let base = (case cut_suffix name json_ext of Some b \<Rightarrow> b | None \<Rightarrow> name) in
      case split_last_dot base of
        None \<Rightarrow> mod_time
      | Some (_, stamp) \<Rightarrow>
          (case parse_int64 stamp of
             None \<Rightarrow> mod_time
           | Some n \<Rightarrow> let stamped = n + 62135596800 * second in if mod_time < stamped then stamped else mod_time))"

definition leased_job :: "string \<Rightarrow> string" where
  "leased_job name =
     (let base = (case cut_suffix name json_ext of Some b \<Rightarrow> b | None \<Rightarrow> name)
      in (case split_last_dot base of None \<Rightarrow> base | Some (jobID, _) \<Rightarrow> jobID))"

fun recover_each :: "(string \<Rightarrow> gotime \<Rightarrow> bool) option \<Rightarrow> string list \<Rightarrow> nat \<times> spool \<Rightarrow> nat \<times> spool" where
  "recover_each expired [] acc = acc"
| "recover_each expired (name # names) (n, s) =
     (if \<not> suffix json_ext name then recover_each expired names (n, s)
      else if (case expired of
                 None \<Rightarrow> False
               | Some test \<Rightarrow> (case fs_find DirLeased name s of None \<Rightarrow> True | Some f \<Rightarrow> \<not> test name (sf_Modified f)))
      then recover_each expired names (n, s)
      else
        let target = envelope_name (leased_job name) in
        if fs_find DirPending target s \<noteq> None
        then recover_each expired names (n, snd (moveLeasePath name DirCancelled s))
        else (case fs_rename DirLeased name DirPending target s of
                None \<Rightarrow> recover_each expired names (n, s)
              | Some s' \<Rightarrow> recover_each expired names (Suc n, s')))"

definition recoverLeases :: "(string \<Rightarrow> gotime \<Rightarrow> bool) option \<Rightarrow> spool \<Rightarrow> nat \<times> spool" where
  "recoverLeases expired s =
     (case recover_each expired (sort (spool_names DirLeased s)) (0, s) of
        (n, s') \<Rightarrow> (n, if 0 < n then notifyEnqueue s' else s'))"

definition RecoverOrphanLeases :: "spool \<Rightarrow> nat \<times> spool" where
  "RecoverOrphanLeases s = recoverLeases None s"

definition ReclaimExpiredLeases :: "gotime \<Rightarrow> spool \<Rightarrow> nat \<times> spool" where
  "ReclaimExpiredLeases now s =
     (if sp_leaseTTL s \<le> 0 then (0, s)
      else recoverLeases (Some (\<lambda>name mod_time. sp_leaseTTL s < now - leaseLiveness name mod_time)) s)"

subsection \<open>Retention\<close>

definition dir_name :: "spool_dir \<Rightarrow> string" where
  "dir_name d = (case d of DirPending \<Rightarrow> ''pending'' | DirLeased \<Rightarrow> ''leased'' | DirDone \<Rightarrow> ''done''
                         | DirFailed \<Rightarrow> ''failed'' | DirCancelled \<Rightarrow> ''cancelled'')"

type_synonym spool_entry = "spool_dir \<times> string \<times> gotime"

definition entry_path :: "spool_entry \<Rightarrow> string" where
  "entry_path e = dir_name (fst e) @ ''/'' @ fst (snd e)"

definition entry_modified :: "spool_entry \<Rightarrow> gotime" where
  "entry_modified e = snd (snd e)"

definition terminal_entries :: "spool \<Rightarrow> spool_entry list" where
  "terminal_entries s =
     concat (map (\<lambda>d. map (\<lambda>(name, f). (d, name, sf_Modified f))
                        (filter (\<lambda>(name, _). suffix json_ext name) (sp_dirs s d))) terminal_dirs)"

fun sweep_each :: "(spool_entry \<Rightarrow> bool) \<Rightarrow> dur \<Rightarrow> int \<Rightarrow> gotime \<Rightarrow> nat \<Rightarrow> nat \<Rightarrow> spool_entry list \<Rightarrow> nat \<times> spool \<Rightarrow> nat \<times> spool" where
  "sweep_each stuck ttl mx now count index [] acc = acc"
| "sweep_each stuck ttl mx now count index (e # es) (removed, s) =
     (let overTTL = (0 < ttl \<and> ttl < now - entry_modified e);
          overMax = (0 < mx \<and> mx < int (count - index))
      in if \<not> overTTL \<and> \<not> overMax then (removed, s)
         else if stuck e then sweep_each stuck ttl mx now count (Suc index) es (removed, s)
         else sweep_each stuck ttl mx now count (Suc index) es (Suc removed, fs_del (fst e) (fst (snd e)) s))"

definition SweepRetention :: "(spool_entry \<Rightarrow> bool) \<Rightarrow> gotime \<Rightarrow> spool \<Rightarrow> nat \<times> spool" where
  "SweepRetention stuck now s =
     (if \<not> (0 < sp_retentionTTL s \<or> 0 < sp_retentionMax s) then (0, s)
      else
        let entries = sort_key (\<lambda>e. (entry_modified e, entry_path e)) (terminal_entries s) in
        (case sweep_each stuck (sp_retentionTTL s) (sp_retentionMax s) now (length entries) 0 entries (0, s) of
           (removed, s') \<Rightarrow> (removed, if 0 < removed then invalidateTerminal s' else s')))"

subsection \<open>Statistics\<close>

definition countJSONFiles :: "spool_dir \<Rightarrow> spool \<Rightarrow> nat \<times> gotime" where
  "countJSONFiles d s =
     fold (\<lambda>(name, f) (count, oldest).
        if suffix json_ext name
        then (Suc count, if IsZero oldest \<or> sf_Modified f < oldest then sf_Modified f else oldest)
        else (count, oldest)) (sp_dirs s d) (0, 0)"

definition spool_LiveDepth :: "spool \<Rightarrow> nat" where
  "spool_LiveDepth s = fst (countJSONFiles DirPending s) + fst (countJSONFiles DirLeased s)"

definition spool_TotalDepth :: "spool \<Rightarrow> nat" where
  "spool_TotalDepth s =
     (\<Sum>d\<leftarrow>[DirPending, DirLeased, DirDone, DirFailed, DirCancelled]. fst (countJSONFiles d s))"

end
