(* ===== verification/Consumer.thy ===== *)
theory Consumer
  imports Spool JobStoreEvents Admission
begin

text \<open>
  The worker consumer (\<open>executor/workerconsumer.go\<close>, the local path of \<open>RunOnce\<close>): lease an
  envelope, check it against the stored job, wait out every reason to hold the job back, assign
  it, run it, write its events back, settle the lease.

  The state is the job store, the file spool, the board of held jobs, the concurrency registry
  and two logs: the jobs handed to the runner and those handed to the terminal notifier. One
  \<open>RunOnce\<close> reads the argument \<open>once\<close>: what its environment answers. A store call that
  \<open>flt\<close> marks fails and changes nothing (the in-memory store refuses only bad events; the SQL
  stores can fail anywhere). \<open>before\<close> and \<open>during\<close> are what other goroutines do to the state
  before the job is assigned and while the worker runs. The runner is an argument.

  Not modelled: metrics, logs, alerts, plugin hooks and the projections of telemetry events
  (they write to other stores), heartbeats of the execution lease, the helper plane
  (\<open>Remote\<close> and \<open>Reconcile\<close> are nil) and held leases waiting off the worker (\<open>AsyncHolds\<close> is 0).
\<close>

subsection \<open>State and answers\<close>

record consumer =
  cn_Jobs :: memory_store
  cn_Spool :: spool
  cn_Holds :: hold_board
  cn_Concurrency :: registry
  cn_Ran :: "string list"
  cn_Notified :: "string list"

datatype fault_point =
    FGet | FAssign | FApply nat | FFailure | FFinal | FNotifyGet | FNotify | FCanceledGet

text \<open>
  An error of the runner or of the ingestion: the marks \<open>errors.Is\<close> finds in its chain, its
  text and what \<open>workerFailureClass\<close> learns from the chain.
\<close>

record run_error =
  re_text :: string
  re_ambiguous :: bool      \<comment> \<open>\<open>ErrAmbiguous\<close>\<close>
  re_notSubmitted :: bool   \<comment> \<open>\<open>ErrNotSubmitted\<close>\<close>
  re_canceled :: bool       \<comment> \<open>\<open>context.Canceled\<close>\<close>
  re_deadline :: bool       \<comment> \<open>\<open>context.DeadlineExceeded\<close>\<close>
  re_exit :: bool           \<comment> \<open>\<open>*exec.ExitError\<close>\<close>
  re_syntax :: bool         \<comment> \<open>\<open>*json.SyntaxError\<close> or \<open>*streamIngestError\<close>\<close>
  re_missingJob :: bool     \<comment> \<open>a \<open>streamIngestError\<close> for a job that is gone\<close>

definition plain_error :: "string \<Rightarrow> run_error" where
  "plain_error text = \<lparr>re_text = text, re_ambiguous = False, re_notSubmitted = False, re_canceled = False,
     re_deadline = False, re_exit = False, re_syntax = False, re_missingJob = False\<rparr>"

datatype run_result =
    RunEvents "worker_event list" bool   \<comment> \<open>the events; whether a stream already showed the submission\<close>
  | RunOverloaded string dur
  | RunFailed run_error

datatype ingest_error = BadEvent worker_event | BadTerminals nat | StoreRefused job_error | StoreUnavailable

datatype exec_answer = ExecOff | ExecFailed | ExecHeldElsewhere | ExecGranted

record run_once =
  ro_env :: env
  ro_codec :: codec
  ro_marshal :: "jmap option \<Rightarrow> string option"
  ro_digest :: "string \<Rightarrow> string"
  ro_text :: "ingest_error \<Rightarrow> string" \<comment> \<open>the rendered error\<close>
  ro_resolve :: "(conversation_key \<Rightarrow> string option) option"
  ro_strict :: bool                  \<comment> \<open>\<open>UBAG_WORKER_STRICT_SUBMIT\<close>\<close>
  ro_attemptIDs :: bool              \<comment> \<open>\<open>UBAG_WORKER_ATTEMPT_EVENT_IDS\<close> or a stream\<close>
  ro_now :: gotime
  ro_claim :: "string \<Rightarrow> gotime"
  ro_race :: "string \<Rightarrow> spool \<Rightarrow> spool"
  ro_fault :: "fault_point \<Rightarrow> bool"
  ro_exec :: exec_answer
  ro_slotFree :: bool
  ro_lane :: "(string \<times> dur) option" \<comment> \<open>why the browser lane is busy, and the delay\<close>
  ro_before :: "consumer \<Rightarrow> consumer"
  ro_during :: "consumer \<Rightarrow> consumer"
  ro_run :: "envelope \<Rightarrow> run_result"
  ro_shutdown :: bool                \<comment> \<open>\<open>ctx.Err() \<noteq> nil\<close> when the run returns\<close>
  ro_elapsed :: int                  \<comment> \<open>milliseconds\<close>

text \<open>
  The result of \<open>RunOnce\<close>: nothing to do, a processed lease, a held one (with its delay), or a
  processed lease and an error.
\<close>

datatype once_result = OnceIdle | OnceRefused lease_error | OnceDone | OnceHeld dur | OnceError string

definition on_spool :: "(spool \<Rightarrow> spool) \<Rightarrow> consumer \<Rightarrow> consumer" where
  "on_spool f c = c\<lparr>cn_Spool := f (cn_Spool c)\<rparr>"

subsection \<open>Errors and failures\<close>

definition sanitizeWorkerError :: "run_error \<Rightarrow> string" where
  "sanitizeWorkerError err =
     (if sublist ''timed out'' (to_lower (re_text err)) then ''worker execution timed out'' else ''worker execution failed'')"

definition classifySubmission :: "bool \<Rightarrow> run_error \<Rightarrow> bool \<Rightarrow> run_error" where
  "classifySubmission strict err submitted =
     (if \<not> strict \<or> re_notSubmitted err \<or> re_ambiguous err then err
      else if submitted
      then err\<lparr>re_text := ''worker failed after prompt submission: '' @ re_text err, re_ambiguous := True\<rparr>
      else err\<lparr>re_text := ''worker failed before prompt submission: '' @ re_text err, re_notSubmitted := True\<rparr>)"

definition ambiguousIfSubmitted :: "bool \<Rightarrow> run_error \<Rightarrow> bool \<Rightarrow> worker_event list \<Rightarrow> run_error" where
  "ambiguousIfSubmitted strict err streamed evs =
     (if strict \<and> (streamed \<or> list_ex (\<lambda>ev. we_Type ev = promptSubmittedEventType) evs)
      then classifySubmission strict err True else err)"

definition protocol_prefixes :: "string list" where
  "protocol_prefixes =
     [''worker daemon ended without'', ''worker daemon terminal marker'', ''worker daemon stdout exceeded'',
      ''worker emitted no events'', ''decode worker'', ''invalid worker event'']"

definition workerFailureClass :: "run_error \<Rightarrow> string \<times> string" where
  "workerFailureClass err =
     (if re_ambiguous err then (''post_submit_ambiguous'', ''provider_interaction'')
      else if re_deadline err then (''worker_deadline'', ''worker_execution'')
      else if re_exit err then (''worker_process_exit'', ''worker_execution'')
      else if re_syntax err then (''worker_protocol'', ''event_ingestion'')
      else if list_ex (\<lambda>p. prefix p (re_text err)) protocol_prefixes then (''worker_protocol'', ''event_ingestion'')
      else if prefix ''worker process timed out'' (re_text err) then (''worker_deadline'', ''worker_execution'')
      else if prefix ''start worker'' (re_text err) then (''worker_process_start'', ''worker_start'')
      else if prefix ''worker daemon job failed'' (re_text err) then (''worker_reported_failure'', ''worker_execution'')
      else (''worker_execution'', ''worker_execution''))"

definition failure_data :: "run_once \<Rightarrow> spool_lease \<Rightarrow> envelope \<Rightarrow> run_error \<Rightarrow> bool \<Rightarrow> jmap" where
  "failure_data ro l e err timed =
     (let (class, stage) = workerFailureClass err;
          ident = failureEventID (sl_JobID l) (sl_LeaseID l) e;
          message = (if class = ''worker_deadline'' then ''worker execution deadline exceeded''
                     else if re_ambiguous err then ''worker failed after prompt submission; reconcile required''
                     else sanitizeWorkerError err);
          attempt = (case ev_Attempt e of Some a \<Rightarrow> if a \<noteq> [] then a else attemptIDForLease (ro_digest ro) (sl_LeaseID l)
                     | None \<Rightarrow> attemptIDForLease (ro_digest ro) (sl_LeaseID l))
      in (if re_ambiguous err
          then [(''status'', JStr (status_string StatusFailedTerminal)), (''retryable'', JBool False),
                (''reason'', JStr ''post_submit_failure''), (''submitted'', JBool True),
                (''reconcile_required'', JBool True), (''stream_end_reason'', JStr ''error'')]
          else [(''status'', JStr (status_string StatusFailedRetryable)), (''retryable'', JBool True)]) @
         [(''error_class'', JStr class), (''message'', JStr message), (''execution_stage'', JStr stage),
          (''diagnostic_ref'', JStr (''diag_'' @ take 24 (ro_digest ro ident))), (''attempt_id'', JStr attempt)] @
         (if timed then [(''elapsed_ms'', JNum (of_int (ro_elapsed ro)))] else []))"

definition failure_event :: "run_once \<Rightarrow> spool_lease \<Rightarrow> envelope \<Rightarrow> run_error \<Rightarrow> bool \<Rightarrow> worker_event" where
  "failure_event ro l e err timed =
     \<lparr>we_EventID = failureEventID (sl_JobID l) (sl_LeaseID l) e, we_JobID = sl_JobID l,
      we_APIVersion = ev_APIVersion e, we_Type = (if re_ambiguous err then ''failed_terminal'' else ''failed''),
      we_Sequence = 0, we_Data = Some (failure_data ro l e err timed), we_TraceID = ev_TraceID e, we_CreatedAt = ro_now ro\<rparr>"

text \<open>\<open>False\<close>: an error.\<close>

definition applyFailure :: "run_once \<Rightarrow> spool_lease \<Rightarrow> envelope \<Rightarrow> run_error \<Rightarrow> bool \<Rightarrow> consumer \<Rightarrow> bool \<times> consumer" where
  "applyFailure ro l e err timed c =
     (if ro_fault ro FFailure then (False, c)
      else (case ApplyWorkerEvent (ro_env ro) (failure_event ro l e err timed) (cn_Jobs c) of
              (m, Inl _) \<Rightarrow> (False, c\<lparr>cn_Jobs := m\<rparr>)
            | (m, Inr None) \<Rightarrow> (False, c\<lparr>cn_Jobs := m\<rparr>)
            | (m, Inr (Some _)) \<Rightarrow> (True, c\<lparr>cn_Jobs := m\<rparr>)))"

subsection \<open>Closing a terminal job\<close>

definition notifyTerminalJob :: "run_once \<Rightarrow> spool_lease \<Rightarrow> job \<Rightarrow> consumer \<Rightarrow> bool \<times> consumer" where
  "notifyTerminalJob ro l job c =
     (if \<not> TerminalStatus (job_Status job) then (True, c)
      else if ro_fault ro FNotify then (False, on_spool (RetryLease l) c)
      else (True, c\<lparr>cn_Notified := cn_Notified c @ [job_ID job]\<rparr>))"

definition release_token :: "job \<Rightarrow> consumer \<Rightarrow> consumer" where
  "release_token job c = c\<lparr>cn_Concurrency := ReleaseForJob (job_ID job) (cn_Concurrency c)\<rparr>"

definition notifyCurrentTerminalJob :: "run_once \<Rightarrow> spool_lease \<Rightarrow> consumer \<Rightarrow> bool \<times> consumer" where
  "notifyCurrentTerminalJob ro l c =
     (if ro_fault ro FNotifyGet then (False, on_spool (RetryLease l) c)
      else (case ms_jobs (cn_Jobs c) (sl_JobID l) of
              None \<Rightarrow> (False, on_spool (FailLease l) c)
            | Some job \<Rightarrow>
                notifyTerminalJob ro l job (if TerminalStatus (job_Status job) then release_token job c else c)))"

definition finishTerminalLeasedJob :: "run_once \<Rightarrow> spool_lease \<Rightarrow> job \<Rightarrow> consumer \<Rightarrow> once_result \<times> consumer" where
  "finishTerminalLeasedJob ro l job c =
     (case notifyTerminalJob ro l job c of
        (False, c1) \<Rightarrow> (OnceError ''notify'', c1)
      | (True, c1) \<Rightarrow>
          (OnceDone, on_spool (if job_Status job = StatusCanceled then CancelLease l else CompleteLease l) c1))"

definition finishTerminalIngestedJob ::
  "run_once \<Rightarrow> spool_lease \<Rightarrow> job \<Rightarrow> (spool_lease \<Rightarrow> spool \<Rightarrow> spool) \<Rightarrow> consumer \<Rightarrow> once_result \<times> consumer" where
  "finishTerminalIngestedJob ro l job finish c =
     (case notifyTerminalJob ro l job (release_token job c) of
        (False, c1) \<Rightarrow> (OnceError ''notify'', c1)
      | (True, c1) \<Rightarrow> (OnceDone, on_spool (finish l) c1))"

text \<open>
  The common end of the ingestion's failures: record the failure, notify, fail the lease; a
  failure that cannot be recorded sends the lease back to the queue.
\<close>

definition ingest_failure :: "run_once \<Rightarrow> spool_lease \<Rightarrow> envelope \<Rightarrow> run_error \<Rightarrow> consumer \<Rightarrow> once_result \<times> consumer" where
  "ingest_failure ro l e err c =
     (case applyFailure ro l e err False c of
        (False, c1) \<Rightarrow> (OnceError ''failure not recorded'', on_spool (RetryLease l) c1)
      | (True, c1) \<Rightarrow>
          (case notifyCurrentTerminalJob ro l c1 of
             (False, c2) \<Rightarrow> (OnceError ''notify'', c2)
           | (True, c2) \<Rightarrow> (OnceDone, on_spool (FailLease l) c2)))"

subsection \<open>Ingestion\<close>

fun normalize_all :: "envelope \<Rightarrow> worker_event list \<Rightarrow> worker_event + worker_event list" where
  "normalize_all e [] = Inr []"
| "normalize_all e (ev # evs) =
     (case normalizeWorkerEvent e ev of
        None \<Rightarrow> Inl ev
      | Some n \<Rightarrow> (case normalize_all e evs of Inl bad \<Rightarrow> Inl bad | Inr ns \<Rightarrow> Inr (n # ns)))"

datatype apply_outcome_kind = AppliedAll | ApplyFailed ingest_error | ApplyMissing string

text \<open>Telemetry goes to other stores; the rest to the job store, in order.\<close>

fun apply_events :: "run_once \<Rightarrow> nat \<Rightarrow> worker_event list \<Rightarrow> memory_store \<Rightarrow> memory_store \<times> apply_outcome_kind" where
  "apply_events ro i [] m = (m, AppliedAll)"
| "apply_events ro i (ev # evs) m =
     (if telemetryEventType (we_Type ev) then apply_events ro (Suc i) evs m
      else if ro_fault ro (FApply i) then (m, ApplyFailed StoreUnavailable)
      else (case ApplyWorkerEvent (ro_env ro) ev m of
              (m1, Inl e) \<Rightarrow> (m1, ApplyFailed (StoreRefused e))
            | (m1, Inr None) \<Rightarrow> (m1, ApplyMissing (we_JobID ev))
            | (m1, Inr (Some _)) \<Rightarrow> apply_events ro (Suc i) evs m1))"

definition finish_ingested :: "run_once \<Rightarrow> spool_lease \<Rightarrow> envelope \<Rightarrow> bool \<Rightarrow> worker_event list \<Rightarrow> consumer \<Rightarrow> once_result \<times> consumer" where
  "finish_ingested ro l e streamed evs c =
     (if ro_fault ro FFinal then (OnceError ''store'', on_spool (RetryLease l) c)
      else (case ms_jobs (cn_Jobs c) (sl_JobID l) of
              None \<Rightarrow> (OnceError ''job disappeared during worker ingestion'', on_spool (FailLease l) c)
            | Some job \<Rightarrow>
                if job_Status job = StatusCanceled then finishTerminalIngestedJob ro l job CancelLease c
                else if job_Status job = StatusCompleted \<or> job_Status job = StatusCompletedWithWarnings
                then finishTerminalIngestedJob ro l job CompleteLease c
                else if TerminalStatus (job_Status job) then finishTerminalIngestedJob ro l job FailLease c
                else ingest_failure ro l e
                       (ambiguousIfSubmitted (ro_strict ro) (plain_error ''worker did not reach a terminal status'') streamed evs) c))"

definition ingest :: "run_once \<Rightarrow> spool_lease \<Rightarrow> envelope \<Rightarrow> worker_event list \<Rightarrow> bool \<Rightarrow> consumer \<Rightarrow> once_result \<times> consumer" where
  "ingest ro l e evs0 streamed c =
     (if evs0 = [] then ingest_failure ro l e (plain_error ''worker emitted no events'') c
      else
        let evs = dropStaleAttemptEvents e evs0;
            failed = (\<lambda>err. ingest_failure ro l e (ambiguousIfSubmitted (ro_strict ro) (plain_error (ro_text ro err)) streamed evs))
        in (case normalize_all e evs of
              Inl ev \<Rightarrow> failed (BadEvent ev) c
            | Inr ns \<Rightarrow>
                let terminals = length (filter (\<lambda>n. terminalWorkerEventType (we_Type n)) ns) in
                if terminals \<noteq> 1 then failed (BadTerminals terminals) c
                else (case apply_events ro 0 ns (cn_Jobs c) of
                        (m, AppliedAll) \<Rightarrow> finish_ingested ro l e streamed evs (c\<lparr>cn_Jobs := m\<rparr>)
                      | (m, ApplyMissing _) \<Rightarrow>
                          (OnceError ''worker event referenced missing job'', on_spool (FailLease l) (c\<lparr>cn_Jobs := m\<rparr>))
                      | (m, ApplyFailed err) \<Rightarrow> failed err (c\<lparr>cn_Jobs := m\<rparr>))))"

subsection \<open>A failed run\<close>

text \<open>A failure after the submission never returns the lease to the queue.\<close>

definition record_run_failure :: "run_once \<Rightarrow> spool_lease \<Rightarrow> envelope \<Rightarrow> run_error \<Rightarrow> consumer \<Rightarrow> once_result \<times> consumer" where
  "record_run_failure ro l e err c =
     (case applyFailure ro l e err True c of
        (False, c1) \<Rightarrow>
          (OnceError ''failure not recorded'', on_spool (if re_ambiguous err then FailLease l else RetryLease l) c1)
      | (True, c1) \<Rightarrow>
          (case notifyCurrentTerminalJob ro l c1 of
             (False, c2) \<Rightarrow> (OnceError ''notify'', c2)
           | (True, c2) \<Rightarrow> (OnceDone, on_spool (FailLease l) c2)))"

definition run_failed :: "run_once \<Rightarrow> spool_lease \<Rightarrow> envelope \<Rightarrow> run_error \<Rightarrow> consumer \<Rightarrow> once_result \<times> consumer" where
  "run_failed ro l e err c =
     (if re_missingJob err then (OnceError ''worker event referenced missing job'', on_spool (FailLease l) c)
      else if ro_shutdown ro \<and> \<not> re_ambiguous err then (OnceError (re_text err), on_spool (RetryLease l) c)
      else if \<not> re_canceled err then record_run_failure ro l e err c
           else (case (if ro_fault ro FCanceledGet then None else ms_jobs (cn_Jobs c) (sl_JobID l)) of
                   Some job \<Rightarrow>
                     if job_Status job = StatusCanceled then (OnceDone, on_spool (CancelLease l) c)
                     else if TerminalStatus (job_Status job) then finishTerminalLeasedJob ro l job c
                     else if \<not> re_ambiguous err then (OnceError (re_text err), on_spool (RetryLease l) c)
                     else record_run_failure ro l e err c
                 | None \<Rightarrow> if \<not> re_ambiguous err then (OnceError (re_text err), on_spool (RetryLease l) c) else record_run_failure ro l e err c))"

subsection \<open>One lease\<close>

text \<open>The fine reason is noted on the board and the lease goes back to the queue after the delay.\<close>

definition hold_back :: "run_once \<Rightarrow> spool_lease \<Rightarrow> job \<Rightarrow> string \<Rightarrow> dur \<Rightarrow> bool \<Rightarrow> consumer \<Rightarrow> once_result \<times> consumer" where
  "hold_back ro l job reason retryAfter assigned c =
     (OnceHeld (holdPlan retryAfter),
      on_spool (RetryLease l)
        (c\<lparr>cn_Holds := hold_note (ro_now ro) (job_ID job) (job_TenantID job) (job_AppID job) reason assigned (cn_Holds c)\<rparr>))"

definition run_assigned :: "run_once \<Rightarrow> spool_lease \<Rightarrow> job \<Rightarrow> envelope \<Rightarrow> consumer \<Rightarrow> once_result \<times> consumer" where
  "run_assigned ro l job e c =
     (let c1 = ro_during ro (c\<lparr>cn_Ran := cn_Ran c @ [ev_JobID e]\<rparr>) in
      case ro_run ro e of
        RunOverloaded reason retryAfter \<Rightarrow>
          if ro_shutdown ro then (OnceError reason, on_spool (RetryLease l) c1)
          else hold_back ro l job reason retryAfter True c1
      | RunFailed err \<Rightarrow> run_failed ro l e err c1
      | RunEvents evs streamed \<Rightarrow> ingest ro l e evs streamed c1)"

definition assign_and_run :: "run_once \<Rightarrow> spool_lease \<Rightarrow> job \<Rightarrow> envelope \<Rightarrow> consumer \<Rightarrow> once_result \<times> consumer" where
  "assign_and_run ro l job e c0 =
     (let c = c0\<lparr>cn_Holds := hold_Clear (job_ID job) (cn_Holds c0)\<rparr> in
      if ro_fault ro FAssign then (OnceError ''store'', on_spool (RetryLease l) c)
      else (case UpdateStatus (job_ID job) StatusAssigned (cn_Jobs c) of
              (m, Inl _) \<Rightarrow> (OnceError ''store'', on_spool (RetryLease l) (c\<lparr>cn_Jobs := m\<rparr>))
            | (m, Inr (None, _)) \<Rightarrow> (OnceError ''leased job disappeared'', on_spool (FailLease l) (c\<lparr>cn_Jobs := m\<rparr>))
            | (m, Inr (Some assigned, _)) \<Rightarrow>
                if TerminalStatus (job_Status assigned)
                then finishTerminalLeasedJob ro l assigned (c\<lparr>cn_Jobs := m\<rparr>)
                else run_assigned ro l job e (c\<lparr>cn_Jobs := m\<rparr>)))"

definition leased_envelope :: "run_once \<Rightarrow> spool_lease \<Rightarrow> job \<Rightarrow> envelope" where
  "leased_envelope ro l job =
     (let e = EnvelopeFromJobWithConversation (ro_resolve ro) job
      in if ro_attemptIDs ro then e\<lparr>ev_Attempt := Some (attemptIDForLease (ro_digest ro) (sl_LeaseID l))\<rparr> else e)"

definition consume_lease :: "run_once \<Rightarrow> spool_lease \<Rightarrow> consumer \<Rightarrow> once_result \<times> consumer" where
  "consume_lease ro l c =
     (if ro_fault ro FGet then (OnceError ''store'', on_spool (RetryLease l) c)
      else (case ms_jobs (cn_Jobs c) (sl_JobID l) of
              None \<Rightarrow> (OnceError ''leased job does not exist in job store'', on_spool (FailLease l) c)
            | Some job \<Rightarrow>
                if \<not> validateLeaseEnvelope (ro_marshal ro) job (sl_Envelope l)
                then (OnceError ''lease envelope does not match persisted job'', on_spool (FailLease l) c)
                else
                  let e = leased_envelope ro l job in
                  if TerminalStatus (job_Status job)
                  then finishTerminalLeasedJob ro l job (c\<lparr>cn_Holds := hold_Clear (job_ID job) (cn_Holds c)\<rparr>)
                  else (case ro_exec ro of
                          ExecFailed \<Rightarrow> (OnceError ''acquire execution lease'', on_spool (RetryLease l) c)
                        | ExecHeldElsewhere \<Rightarrow> (OnceDone, on_spool (RetryLease l) c)
                        | _ \<Rightarrow>
                            let c1 = ro_before ro c in
                            if \<not> ro_slotFree ro
                            then hold_back ro l job ''local_slots_busy'' defaultOverloadRetryDelay False c1
                            else (case ro_lane ro of
                                    Some (reason, delay) \<Rightarrow> hold_back ro l job reason delay False c1
                                  | None \<Rightarrow> assign_and_run ro l job e c1))))"

definition RunOnce :: "run_once \<Rightarrow> consumer \<Rightarrow> once_result \<times> consumer" where
  "RunOnce ro c =
     (case spool_LeaseNext (ro_race ro) (ro_codec ro) (ro_now ro) (ro_claim ro) (cn_Spool c) of
        (LeaseLost, s) \<Rightarrow> (OnceIdle, c\<lparr>cn_Spool := s\<rparr>)
      | (LeaseRefused err, s) \<Rightarrow> (OnceRefused err, c\<lparr>cn_Spool := s\<rparr>)
      | (LeaseGranted l, s) \<Rightarrow> consume_lease ro l (c\<lparr>cn_Spool := s\<rparr>))"

subsection \<open>The lease loop\<close>

definition defaultWorkerPollInterval :: dur where "defaultWorkerPollInterval = 500 * millisecond"

text \<open>
  \<open>runSerial\<close> over the answers the environment gives to its rounds: the waits between them
  (an enqueue may cut the wait of an idle round short) and the final state.
\<close>

fun serial_rounds :: "dur \<Rightarrow> dur \<Rightarrow> nat \<Rightarrow> int \<Rightarrow> run_once list \<Rightarrow> consumer \<Rightarrow> dur list \<times> consumer" where
  "serial_rounds poll idleMax errors streak [] c = ([], c)"
| "serial_rounds poll idleMax errors streak (ro # ros) c =
     (case RunOnce ro c of
        (OnceDone, c1) \<Rightarrow> serial_rounds poll idleMax 0 0 ros c1
      | (OnceHeld _, c1) \<Rightarrow> serial_rounds poll idleMax 0 0 ros c1
      | (OnceIdle, c1) \<Rightarrow>
          (case serial_rounds poll idleMax 0 (streak + 1) ros c1 of
             (waits, c2) \<Rightarrow> (idlePollWait poll idleMax streak # waits, c2))
      | (_, c1) \<Rightarrow>
          (case serial_rounds poll idleMax (Suc errors) streak ros c1 of
             (waits, c2) \<Rightarrow> (runSerial_backoff poll (Suc errors) # waits, c2)))"

definition runSerial :: "dur \<Rightarrow> dur \<Rightarrow> run_once list \<Rightarrow> consumer \<Rightarrow> dur list \<times> consumer" where
  "runSerial pollInterval idlePollMax ros c =
     serial_rounds (if pollInterval \<le> 0 then defaultWorkerPollInterval else pollInterval) idlePollMax 0 0 ros c"

end
