(* ===== verification/SpoolInv.thy ===== *)
theory SpoolInv
  imports Spool
begin

text \<open>
  The abstract view of the file spool: every job is absent, queued, assigned to one lease or
  ended. The invariant says that the files determine such a view (no job has two live files, a
  live job has no terminal file, the index of terminal jobs is exact), and each operation is
  shown to be a small function on the view.
\<close>

subsection \<open>Names\<close>

definition job_name :: "string \<Rightarrow> bool" where
  "job_name j = (j \<noteq> [] \<and> CHR ''.'' \<notin> set j)"

definition file_job :: "string \<Rightarrow> string" where
  "file_job name = takeWhile (\<lambda>c. c \<noteq> CHR ''.'') name"

definition pending_ok :: "string \<Rightarrow> bool" where
  "pending_ok n = (\<exists>j. job_name j \<and> n = envelope_name j)"

definition leased_ok :: "string \<Rightarrow> bool" where
  "leased_ok n = (\<exists>j x. job_name j \<and> CHR ''.'' \<notin> set x \<and> n = lease_name j x)"

lemma takeWhile_dot: "CHR ''.'' \<notin> set j \<Longrightarrow> takeWhile (\<lambda>c. c \<noteq> CHR ''.'') (j @ CHR ''.'' # r) = j"
  by (induction j) auto

lemma file_job_envelope [simp]: "job_name j \<Longrightarrow> file_job (envelope_name j) = j"
  by (simp add: file_job_def envelope_name_def json_ext_def job_name_def takeWhile_dot)

lemma file_job_lease [simp]: "job_name j \<Longrightarrow> file_job (lease_name j x) = j"
  by (simp add: file_job_def lease_name_def job_name_def takeWhile_dot)

lemma file_job_prefix: "job_name j \<Longrightarrow> prefix (j @ ''.'') n \<Longrightarrow> file_job n = j"
  by (auto simp: prefix_def file_job_def job_name_def takeWhile_dot)

lemma pending_okD: "pending_ok n \<Longrightarrow> job_name (file_job n) \<and> n = envelope_name (file_job n)"
  by (auto simp: pending_ok_def)

lemma leased_okD: "leased_ok n \<Longrightarrow> job_name (file_job n) \<and> (\<exists>x. CHR ''.'' \<notin> set x \<and> n = lease_name (file_job n) x)"
  by (auto simp: leased_ok_def)

lemma ok_job_name: "pending_ok n \<or> leased_ok n \<Longrightarrow> job_name (file_job n)"
  using pending_okD leased_okD by blast

lemma glob_envelope [simp]:
  assumes "job_name j" "job_name k"
  shows "\<not> glob_lease j (envelope_name k)"
proof
  assume g: "glob_lease j (envelope_name k)"
  then have "j = k" using file_job_prefix [OF assms(1), of "envelope_name k"] assms(2) by (simp add: glob_lease_def)
  with g have "suffix json_ext (tl json_ext)" by (simp add: glob_lease_def envelope_name_def json_ext_def)
  then show False by (simp add: json_ext_def suffix_def Cons_eq_append_conv)
qed

lemma glob_lease_name [simp]:
  assumes "job_name j" "job_name k"
  shows "glob_lease j (lease_name k x) \<longleftrightarrow> j = k"
proof
  assume "glob_lease j (lease_name k x)"
  then show "j = k" using file_job_prefix [OF assms(1), of "lease_name k x"] assms(2) by (simp add: glob_lease_def)
qed (simp add: glob_lease_def lease_name_def suffix_def)

lemma envelope_not_leased: "leased_ok n \<Longrightarrow> job_name j \<Longrightarrow> n \<noteq> envelope_name j"
  by (auto simp: leased_ok_def lease_name_def envelope_name_def json_ext_def job_name_def append_eq_append_conv2
      Cons_eq_append_conv)

lemma cut_suffix_append [simp]: "cut_suffix (n @ e) e = Some n"
  by (simp add: cut_suffix_def suffix_def)

lemma cut_suffix_names [simp]:
  "cut_suffix (envelope_name j) json_ext = Some j" "cut_suffix (lease_name j x) json_ext = Some (j @ ''.'' @ x)"
  using cut_suffix_append [of j json_ext] cut_suffix_append [of "j @ ''.'' @ x" json_ext]
  by (simp_all add: envelope_name_def lease_name_def)

lemma index_of_append: "c \<notin> set xs \<Longrightarrow> index_of c (xs @ c # ys) = Some (length xs)"
  by (induction xs) auto

lemma split_last_dot_lease [simp]:
  "job_name j \<Longrightarrow> CHR ''.'' \<notin> set x \<Longrightarrow> split_last_dot (j @ ''.'' @ x) = Some (j, x)"
  using index_of_append [of "CHR ''.''" "rev x" "rev j"]
  by (simp add: split_last_dot_def last_index_of_def job_name_def)

lemma leased_job_lease [simp]: "job_name j \<Longrightarrow> CHR ''.'' \<notin> set x \<Longrightarrow> leased_job (lease_name j x) = j"
  by (simp add: leased_job_def del: append.simps)

lemma leased_job_ok: "leased_ok n \<Longrightarrow> leased_job n = file_job n"
  by (auto simp: leased_ok_def)

lemma leased_ext: "leased_ok n \<Longrightarrow> suffix json_ext n"
  by (auto simp: leased_ok_def lease_name_def suffix_def)

lemma dot_prefixes_append: "CHR ''.'' \<notin> set xs \<Longrightarrow> dot_prefixes seen (xs @ ys) = dot_prefixes (seen @ xs) ys"
  by (induction xs arbitrary: seen) auto

lemma dot_prefixes_none: "CHR ''.'' \<notin> set xs \<Longrightarrow> dot_prefixes seen xs = {}"
  using dot_prefixes_append [of xs seen "[]"] by simp

lemma addTerminalName_job:
  assumes "pending_ok n \<or> leased_ok n" "job_name k"
  shows "k \<in> addTerminalName n ids \<longleftrightarrow> k = file_job n \<or> k \<in> ids"
proof (cases "pending_ok n")
  case True
  then show ?thesis
    by (auto simp: pending_ok_def addTerminalName_def job_name_def dot_prefixes_none)
next
  case False
  with assms(1) obtain j x where n: "job_name j" "CHR ''.'' \<notin> set x" "n = lease_name j x" by (auto simp: leased_ok_def)
  have "dot_prefixes [] (j @ ''.'' @ x) = {j}"
    using n by (simp add: dot_prefixes_append dot_prefixes_none job_name_def)
  moreover have "k \<noteq> j @ ''.'' @ x" using assms(2) by (auto simp: job_name_def)
  ultimately show ?thesis using n by (auto simp: addTerminalName_def simp del: append.simps)
qed

lemma digit_not_dot: "k < 10 \<Longrightarrow> CHR ''.'' \<noteq> (char_of (48 + k :: nat) :: char)"
proof
  assume "k < 10" "CHR ''.'' = (char_of (48 + k) :: char)"
  then have "of_char (CHR ''.'') = 48 + k" using of_char_digit [of k] by simp
  then show False by simp
qed

lemma digits_no_dot: "CHR ''.'' \<notin> set (digits n)"
proof (induction n rule: digits.induct)
  case (1 n)
  then show ?case using digit_not_dot [of n] digit_not_dot [of "n mod 10"]
    by (subst digits.simps) (simp del: char_of_eq_iff)
qed

lemma show_int_no_dot: "CHR ''.'' \<notin> set (show_int i)"
  using digits_no_dot by (simp add: show_int_def)

subsection \<open>The view and the invariant\<close>

datatype job_place = JAbsent | JQueued | JAssigned string | JEnded

definition jobs_in :: "spool_dir \<Rightarrow> spool \<Rightarrow> string set" where
  "jobs_in d s = file_job ` set (spool_names d s)"

definition ended_jobs :: "spool \<Rightarrow> string set" where
  "ended_jobs s = jobs_in DirDone s \<union> jobs_in DirFailed s \<union> jobs_in DirCancelled s"

definition spool_view :: "spool \<Rightarrow> string \<Rightarrow> job_place" where
  "spool_view s j =
     (if j \<in> jobs_in DirPending s then JQueued
      else (case find (\<lambda>n. file_job n = j) (spool_names DirLeased s) of
              Some n \<Rightarrow> JAssigned n
            | None \<Rightarrow> if j \<in> ended_jobs s then JEnded else JAbsent))"

fun name_fits :: "spool_dir \<Rightarrow> string \<Rightarrow> bool" where
  "name_fits DirPending n = pending_ok n"
| "name_fits DirLeased n = leased_ok n"
| "name_fits _ n = (pending_ok n \<or> leased_ok n)"

definition spool_ok :: "spool \<Rightarrow> bool" where
  "spool_ok s =
     ((\<forall>d. distinct (spool_names d s)) \<and> (\<forall>d. \<forall>n \<in> set (spool_names d s). name_fits d n) \<and>
      inj_on file_job (set (spool_names DirLeased s)) \<and>
      jobs_in DirPending s \<inter> jobs_in DirLeased s = {} \<and>
      (jobs_in DirPending s \<union> jobs_in DirLeased s) \<inter> ended_jobs s = {} \<and>
      (\<forall>ids. sp_terminalIDs s = Some ids \<longrightarrow> (\<forall>j. job_name j \<longrightarrow> (j \<in> ids \<longleftrightarrow> j \<in> ended_jobs s))))"

lemma spool_ok_new: "spool_ok NewFileSpoolDispatcher"
  by (simp add: spool_ok_def NewFileSpoolDispatcher_def spool_names_def jobs_in_def ended_jobs_def)

lemma spool_okD:
  assumes "spool_ok s"
  shows "distinct (spool_names d s)" "n \<in> set (spool_names d s) \<Longrightarrow> name_fits d n"
    "inj_on file_job (set (spool_names DirLeased s))"
    "j \<in> jobs_in DirPending s \<Longrightarrow> j \<notin> jobs_in DirLeased s"
    "j \<in> jobs_in DirPending s \<Longrightarrow> j \<notin> ended_jobs s" "j \<in> jobs_in DirLeased s \<Longrightarrow> j \<notin> ended_jobs s"
    "sp_terminalIDs s = Some ids \<Longrightarrow> job_name j \<Longrightarrow> j \<in> ids \<longleftrightarrow> j \<in> ended_jobs s"
  using assms unfolding spool_ok_def by auto

lemma fits_job_name: "name_fits d n \<Longrightarrow> job_name (file_job n)"
  by (cases d) (auto intro: ok_job_name)

lemma fits_ok: "name_fits d n \<Longrightarrow> pending_ok n \<or> leased_ok n"
  by (cases d) auto

lemma find_leased:
  assumes "spool_ok s"
  shows "find (\<lambda>n. file_job n = j) (spool_names DirLeased s) = Some n
         \<longleftrightarrow> n \<in> set (spool_names DirLeased s) \<and> file_job n = j" (is "?f = Some n \<longleftrightarrow> ?r")
proof
  assume ?r
  then have "\<exists>m. ?f = Some m" by (cases ?f) (auto simp: find_None_iff)
  then obtain m where "?f = Some m" ..
  moreover from this have "m \<in> set (spool_names DirLeased s)" "file_job m = j" by (auto simp: find_Some_iff)
  ultimately show "?f = Some n" using \<open>?r\<close> spool_okD(3) [OF assms] by (auto simp: inj_on_def)
qed (auto simp: find_Some_iff)

lemma pending_job:
  assumes "spool_ok s"
  shows "j \<in> jobs_in DirPending s \<longleftrightarrow> job_name j \<and> envelope_name j \<in> set (spool_names DirPending s)"
  using spool_okD(2) [OF assms, of _ DirPending] by (force simp: jobs_in_def dest: pending_okD)

lemma view_queued:
  "spool_ok s \<Longrightarrow> spool_view s j = JQueued \<longleftrightarrow> j \<in> jobs_in DirPending s"
  by (simp add: spool_view_def split: option.split)

lemma view_assigned:
  "spool_ok s \<Longrightarrow> spool_view s j = JAssigned n \<longleftrightarrow> n \<in> set (spool_names DirLeased s) \<and> file_job n = j"
  using find_leased [of s j n] spool_okD(4) [of s j]
  by (auto simp: spool_view_def jobs_in_def split: option.splits)

lemma view_ended: "spool_ok s \<Longrightarrow> spool_view s j = JEnded \<longleftrightarrow> j \<in> ended_jobs s"
  using find_leased [of s j] spool_okD(5,6) [of s j]
  by (auto simp: spool_view_def jobs_in_def split: option.splits)

lemma view_absent:
  "spool_ok s \<Longrightarrow> spool_view s j = JAbsent \<longleftrightarrow> j \<notin> jobs_in DirPending s \<and> j \<notin> jobs_in DirLeased s \<and> j \<notin> ended_jobs s"
  by (auto simp: spool_view_def jobs_in_def find_None_iff find_Some_iff split: option.splits)

text \<open>Two states that hold the same names have the same view.\<close>

lemma view_cong:
  assumes "spool_ok s" "spool_ok t"
    "\<And>j. j \<in> jobs_in DirPending t \<longleftrightarrow> spool_view s j = JQueued \<and> j \<noteq> k \<or> j = k \<and> p = JQueued"
    "\<And>n. n \<in> set (spool_names DirLeased t) \<longleftrightarrow>
       n \<in> set (spool_names DirLeased s) \<and> file_job n \<noteq> k \<or> p = JAssigned n"
    "\<And>n. p = JAssigned n \<Longrightarrow> file_job n = k"
    "\<And>j. j \<in> ended_jobs t \<longleftrightarrow> j \<in> ended_jobs s \<and> j \<noteq> k \<or> j = k \<and> p = JEnded"
  shows "spool_view t = (spool_view s)(k := p)"
proof
  fix j
  show "spool_view t j = ((spool_view s)(k := p)) j"
  proof (cases "spool_view t j")
    case JAbsent
    then have t: "j \<notin> jobs_in DirPending t" "j \<notin> jobs_in DirLeased t" "j \<notin> ended_jobs t"
      using view_absent [OF assms(2)] by blast+
    show ?thesis
    proof (cases "j = k")
      case True
      have "p \<noteq> JQueued" using t(1) assms(3) [of j] True by blast
      moreover have "p \<noteq> JEnded" using t(3) assms(6) [of j] True by blast
      moreover have "p \<noteq> JAssigned n" for n
      proof
        assume "p = JAssigned n"
        then have "n \<in> set (spool_names DirLeased t)" "file_job n = j" using assms(4,5) True by blast+
        then show False using t(2) by (auto simp: jobs_in_def)
      qed
      ultimately have "p = JAbsent" by (cases p) blast+
      then show ?thesis using True JAbsent by simp
    next
      case False
      have "spool_view s j = JAbsent"
      proof (rule view_absent [OF assms(1), THEN iffD2], intro conjI notI)
        assume "j \<in> jobs_in DirPending s"
        then show False using t(1) assms(3) [of j] False view_queued [OF assms(1)] by blast
      next
        assume "j \<in> jobs_in DirLeased s"
        then obtain n where "n \<in> set (spool_names DirLeased s)" "file_job n = j" by (auto simp: jobs_in_def)
        then have "n \<in> set (spool_names DirLeased t)" using assms(4) False by blast
        then show False using t(2) \<open>file_job n = j\<close> by (auto simp: jobs_in_def)
      next
        assume "j \<in> ended_jobs s"
        then show False using t(3) assms(6) [of j] False by blast
      qed
      then show ?thesis using False JAbsent by simp
    qed
  next
    case JQueued
    then show ?thesis using assms(3) [of j] view_queued [OF assms(2), of j] by (cases "j = k") simp_all
  next
    case (JAssigned n)
    then have n: "n \<in> set (spool_names DirLeased t)" "file_job n = j" using view_assigned [OF assms(2), of j n] by auto
    then show ?thesis using assms(4,5) [of n] JAssigned view_assigned [OF assms(1), of j n]
      by (cases "p = JAssigned n") auto
  next
    case JEnded
    then show ?thesis using assms(6) [of j] view_ended [OF assms(2), of j] view_ended [OF assms(1), of j]
      by (cases "j = k") simp_all
  qed
qed

subsection \<open>What the file operations do to names\<close>

lemma names_put [simp]:
  "set (spool_names e (fs_put d n f s)) = (if e = d then insert n (set (spool_names d s)) else set (spool_names e s))"
  by (simp add: spool_names_def fs_put_def dom_update)

lemma names_del [simp]:
  "set (spool_names e (fs_del d n s)) = (if e = d then set (spool_names d s) - {n} else set (spool_names e s))"
  using arg_cong [OF delete_keys [of n "sp_dirs s d"], of set] by (auto simp: spool_names_def fs_del_def)

lemma distinct_put: "distinct (spool_names e s) \<Longrightarrow> distinct (spool_names e (fs_put d n f s))"
  by (cases "e = d") (simp_all add: spool_names_def fs_put_def distinct_update)

lemma distinct_del: "distinct (spool_names e s) \<Longrightarrow> distinct (spool_names e (fs_del d n s))"
  by (cases "e = d") (simp_all add: spool_names_def fs_del_def distinct_delete)

lemma frame_put [simp]:
  "sp_terminalIDs (fs_put d n f s) = sp_terminalIDs s" "sp_terminalIDs (fs_del d n s) = sp_terminalIDs s"
  by (simp_all add: fs_put_def fs_del_def)

lemma names_note [simp]: "spool_names d (noteTerminal n s) = spool_names d s"
  by (simp add: noteTerminal_def spool_names_def)

lemma names_wake [simp]: "spool_names d (notifyEnqueue s) = spool_names d s" "sp_terminalIDs (notifyEnqueue s) = sp_terminalIDs s"
  by (simp_all add: notifyEnqueue_def spool_names_def)

lemma fs_find_iff: "fs_find d n s = None \<longleftrightarrow> n \<notin> set (spool_names d s)"
  by (simp add: fs_find_def spool_names_def map_of_eq_None_iff)

lemma fs_find_put [simp]: "fs_find d n (fs_put d n f s) = Some f"
  by (simp add: fs_find_def fs_put_def update_conv')

lemma fs_del_absent: "n \<notin> set (spool_names d s) \<Longrightarrow> fs_del d n s = s"
  by (simp add: fs_del_def spool_names_def delete_notin_dom)

lemma spool_ok_cong:
  assumes "spool_ok s" "\<And>d. spool_names d t = spool_names d s" "sp_terminalIDs t = sp_terminalIDs s"
  shows "spool_ok t" "spool_view t = spool_view s"
  using assms by (simp_all add: spool_ok_def spool_view_def jobs_in_def ended_jobs_def fun_eq_iff)

lemma wake_keeps [simp]: "spool_ok (notifyEnqueue s) = spool_ok s" "spool_view (notifyEnqueue s) = spool_view s"
  by (simp_all add: spool_ok_def spool_view_def jobs_in_def ended_jobs_def fun_eq_iff)

text \<open>A name that takes the place of another name of the same job, or of none.\<close>

definition after_move :: "spool_dir \<Rightarrow> string \<Rightarrow> spool_dir \<Rightarrow> string \<Rightarrow> spool \<Rightarrow> spool \<Rightarrow> bool" where
  "after_move d n d' n' s t =
     ((\<forall>e. distinct (spool_names e t)) \<and>
      (\<forall>e. set (spool_names e t) =
         (if e = d' then insert n' (set (spool_names d' s) - (if e = d then {n} else {}))
          else set (spool_names e s) - (if e = d then {n} else {}))))"

fun dir_place :: "spool_dir \<Rightarrow> string \<Rightarrow> job_place" where
  "dir_place DirPending n = JQueued"
| "dir_place DirLeased n = JAssigned n"
| "dir_place _ n = JEnded"

definition index_after :: "spool_dir \<Rightarrow> string \<Rightarrow> spool \<Rightarrow> spool \<Rightarrow> bool" where
  "index_after d' n' s t =
     (sp_terminalIDs t = (if d' \<in> set terminal_dirs then map_option (addTerminalName n') (sp_terminalIDs s) else sp_terminalIDs s))"

lemma move_ok:
  assumes ok: "spool_ok s" and m: "after_move d n d' n' s t" and i: "index_after d' n' s t"
    and fits: "name_fits d' n'" and d: "d = DirPending \<or> d = DirLeased" "d' \<noteq> d"
    and n: "n \<in> set (spool_names d s) \<and> file_job n = file_job n' \<or>
            n \<notin> set (spool_names d s) \<and> spool_view s (file_job n') = JAbsent"
  shows "spool_ok t" "spool_view t = (spool_view s)(file_job n' := dir_place d' n')"
proof -
  let ?j = "file_job n'"
  have j: "job_name ?j" using fits by (rule fits_job_name)
  have names: "set (spool_names e t) =
      (if e = d' then insert n' (set (spool_names d' s)) else set (spool_names e s) - (if e = d then {n} else {}))" for e
    using m d by (auto simp: after_move_def)
  define R where "R e = set (spool_names e s) - (if e = d then {n} else {})" for e
  have Rt: "set (spool_names e t) = R e \<union> (if e = d' then {n'} else {})" for e
    using names [of e] d by (auto simp: R_def)
  have absent: "?j \<notin> jobs_in e s" if "n \<notin> set (spool_names d s)" for e
    using n that view_absent [OF ok, of ?j] by (cases e) (auto simp: ended_jobs_def)
  have clean: "file_job x \<noteq> ?j" if "x \<in> R e" for x e
  proof (cases "n \<in> set (spool_names d s)")
    case False
    have "file_job x \<in> jobs_in e s" using that by (simp add: R_def jobs_in_def split: if_splits)
    then show ?thesis using absent [OF False, of e] by metis
  next
    case True
    then have f: "file_job n = ?j" using n by blast
    have "x = n" if "x \<in> set (spool_names d s)" "file_job x = file_job n"
    proof (cases "d = DirLeased")
      case True
      then show ?thesis using that \<open>n \<in> set (spool_names d s)\<close> spool_okD(3) [OF ok] by (auto simp: inj_on_def)
    next
      case False
      then have "d = DirPending" using d by simp
      then have "pending_ok x" "pending_ok n" using spool_okD(2) [OF ok, of _ d] that True by auto
      then show ?thesis using that pending_okD by metis
    qed
    moreover have "?j \<in> jobs_in d s" unfolding f [symmetric] using True by (simp add: jobs_in_def)
    then have "?j \<notin> jobs_in e s" if "e \<noteq> d"
      using that d spool_okD(4-6) [OF ok, of ?j] by (cases e) (auto simp: ended_jobs_def)
    moreover have "file_job x \<in> jobs_in e s" using \<open>x \<in> R e\<close> by (simp add: R_def jobs_in_def split: if_splits)
    ultimately show ?thesis using \<open>x \<in> R e\<close> f by (cases "e = d") (simp add: R_def, metis, metis)
  qed
  have Rj: "file_job ` R e = jobs_in e s - {?j}" for e
  proof -
    have "y \<in> R e" if "y \<in> set (spool_names e s)" "file_job y \<noteq> ?j" for y
      using that n by (auto simp: R_def)
    then show ?thesis using clean by (fastforce simp: jobs_in_def R_def)
  qed
  have J: "jobs_in e t = jobs_in e s - {?j} \<union> (if e = d' then {?j} else {})" for e
    using Rt [of e] Rj [of e] by (auto simp: jobs_in_def image_Un)
  have gone: "?j \<notin> ended_jobs s"
  proof (cases "n \<in> set (spool_names d s)")
    case True
    then have "file_job n = ?j" using n by blast
    then have "?j \<in> jobs_in d s" using True by (metis imageI jobs_in_def)
    then show ?thesis using d spool_okD(5,6) [OF ok] by blast
  qed (use absent in \<open>auto simp: ended_jobs_def\<close>)
  have E: "ended_jobs t = ended_jobs s \<union> (if d' \<in> set terminal_dirs then {?j} else {})"
    using J gone by (cases d') (auto simp: ended_jobs_def terminal_dirs_def)
  have inj: "inj_on file_job (set (spool_names DirLeased t))"
  proof -
    have "inj_on file_job (R DirLeased)" using spool_okD(3) [OF ok] by (auto simp: R_def intro: inj_on_diff inj_on_subset)
    moreover have "?j \<notin> file_job ` R DirLeased" by (simp add: Rj)
    ultimately have "inj_on file_job (insert n' (R DirLeased))" unfolding inj_on_insert by blast
    then show ?thesis using \<open>inj_on file_job (R DirLeased)\<close> Rt [of DirLeased] by (cases "d' = DirLeased") auto
  qed
  show t: "spool_ok t"
    unfolding spool_ok_def
  proof (intro conjI allI ballI impI)
    show "distinct (spool_names e t)" for e using m by (simp add: after_move_def)
    show "name_fits e x" if "x \<in> set (spool_names e t)" for e x
      using that Rt [of e] fits spool_okD(2) [OF ok, of x e] by (auto simp: R_def split: if_splits)
    show "inj_on file_job (set (spool_names DirLeased t))" by (rule inj)
    show "jobs_in DirPending t \<inter> jobs_in DirLeased t = {}"
      using J [of DirPending] J [of DirLeased] spool_okD(4) [OF ok] by (auto split: if_splits)
    show "(jobs_in DirPending t \<union> jobs_in DirLeased t) \<inter> ended_jobs t = {}"
      using J [of DirPending] J [of DirLeased] E gone spool_okD(5,6) [OF ok]
      by (cases d') (auto simp: terminal_dirs_def)
    fix ids k assume "sp_terminalIDs t = Some ids" "job_name k"
    then show "k \<in> ids \<longleftrightarrow> k \<in> ended_jobs t"
    proof (cases "d' \<in> set terminal_dirs")
      case True
      with i \<open>sp_terminalIDs t = Some ids\<close> obtain ids' where "sp_terminalIDs s = Some ids'" "ids = addTerminalName n' ids'"
        by (cases "sp_terminalIDs s") (auto simp: index_after_def)
      then show ?thesis
        using True E spool_okD(7) [OF ok] addTerminalName_job [OF fits_ok [OF fits] \<open>job_name k\<close>] \<open>job_name k\<close> by auto
    next
      case False
      then show ?thesis using i E spool_okD(7) [OF ok] \<open>sp_terminalIDs t = Some ids\<close> \<open>job_name k\<close>
        by (simp add: index_after_def)
    qed
  qed
  show "spool_view t = (spool_view s)(?j := dir_place d' n')"
  proof (rule view_cong [OF ok t])
    show "x \<in> jobs_in DirPending t \<longleftrightarrow> spool_view s x = JQueued \<and> x \<noteq> ?j \<or> x = ?j \<and> dir_place d' n' = JQueued" for x
      using J [of DirPending] view_queued [OF ok, of x] by (cases d') auto
    show "x \<in> set (spool_names DirLeased t) \<longleftrightarrow>
        x \<in> set (spool_names DirLeased s) \<and> file_job x \<noteq> ?j \<or> dir_place d' n' = JAssigned x" for x
      using Rt [of DirLeased] clean [of x DirLeased] n by (cases d') (auto simp: R_def split: if_splits)
    show "dir_place d' n' = JAssigned x \<Longrightarrow> file_job x = ?j" for x by (cases d') auto
    show "x \<in> ended_jobs t \<longleftrightarrow> x \<in> ended_jobs s \<and> x \<noteq> ?j \<or> x = ?j \<and> dir_place d' n' = JEnded" for x
      using E gone by (cases d') (auto simp: terminal_dirs_def)
  qed
qed

subsection \<open>The operations on the view\<close>

lemma fold_addTerminalName:
  assumes "job_name k" "\<forall>n \<in> set ns. pending_ok n \<or> leased_ok n"
  shows "k \<in> fold addTerminalName ns ids \<longleftrightarrow> k \<in> file_job ` set ns \<or> k \<in> ids"
  using assms(2)
proof (induction ns arbitrary: ids)
  case (Cons n ns)
  then show ?case using addTerminalName_job [of n k ids] assms(1) by auto
qed simp

lemma load_terminal_exact:
  assumes "spool_ok s" "job_name k"
  shows "k \<in> load_terminal s \<longleftrightarrow> k \<in> ended_jobs s"
proof -
  have "\<forall>n \<in> set (concat (map (\<lambda>d. spool_names d s) terminal_dirs)). pending_ok n \<or> leased_ok n"
    using spool_okD(2) [OF assms(1)] by (auto simp: terminal_dirs_def dest: fits_ok)
  from fold_addTerminalName [OF assms(2) this, of "{}"] show ?thesis
    by (auto simp: load_terminal_def ended_jobs_def jobs_in_def terminal_dirs_def)
qed

lemma jobExistsInTerminalState_effect:
  assumes "spool_ok s" "job_name k" "jobExistsInTerminalState k s = (b, t)"
  shows "b \<longleftrightarrow> k \<in> ended_jobs s" "spool_ok t" "spool_view t = spool_view s" "\<And>d. spool_names d t = spool_names d s"
proof -
  have n: "spool_names d t = spool_names d s" for d
    using assms(3) by (auto simp: jobExistsInTerminalState_def Let_def spool_names_def)
  then have v: "spool_view t = spool_view s" "ended_jobs t = ended_jobs s" "\<And>d. jobs_in d t = jobs_in d s"
    by (simp_all add: spool_view_def ended_jobs_def jobs_in_def fun_eq_iff)
  have i: "sp_terminalIDs t = Some ids \<Longrightarrow> job_name j \<Longrightarrow> j \<in> ids \<longleftrightarrow> j \<in> ended_jobs s" for ids j
    using assms spool_okD(7) [OF assms(1)] load_terminal_exact [OF assms(1)]
    by (auto simp: jobExistsInTerminalState_def Let_def split: option.splits)
  show "b \<longleftrightarrow> k \<in> ended_jobs s"
    using assms spool_okD(7) [OF assms(1)] load_terminal_exact [OF assms(1)]
    by (auto simp: jobExistsInTerminalState_def Let_def split: option.splits)
  show "spool_ok t" using assms(1) i v n by (simp add: spool_ok_def)
  show "spool_view t = spool_view s" by (rule v)
  show "spool_names d t = spool_names d s" for d by (rule n)
qed

lemma findJobPath_live:
  assumes "spool_ok s" "job_name j"
  shows "findJobPath j DirPending s \<longleftrightarrow> j \<in> jobs_in DirPending s"
    "findJobPath j DirLeased s \<longleftrightarrow> j \<in> jobs_in DirLeased s"
proof -
  have "\<not> glob_lease j n" if "n \<in> set (spool_names DirPending s)" for n
    using spool_okD(2) [OF assms(1) that] pending_okD [of n] glob_envelope [OF assms(2), of "file_job n"] by auto
  then show "findJobPath j DirPending s \<longleftrightarrow> j \<in> jobs_in DirPending s"
    using pending_job [OF assms(1), of j] assms(2) by (auto simp: findJobPath_def fs_find_iff list_ex_iff)
  have "glob_lease j n \<longleftrightarrow> file_job n = j" "n \<noteq> envelope_name j" if "n \<in> set (spool_names DirLeased s)" for n
    using spool_okD(2) [OF assms(1) that] assms(2) envelope_not_leased by (auto simp: leased_ok_def)
  then show "findJobPath j DirLeased s \<longleftrightarrow> j \<in> jobs_in DirLeased s"
    by (auto simp: findJobPath_def fs_find_iff list_ex_iff jobs_in_def)
qed

lemma jobExistsInAnyState_effect:
  assumes "spool_ok s" "job_name k" "jobExistsInAnyState k s = (b, t)"
  shows "b \<longleftrightarrow> spool_view s k \<noteq> JAbsent" "spool_ok t" "spool_view t = spool_view s" "\<And>d. spool_names d t = spool_names d s"
proof -
  consider "k \<in> jobs_in DirPending s \<or> k \<in> jobs_in DirLeased s" "b" "t = s"
    | "k \<notin> jobs_in DirPending s" "k \<notin> jobs_in DirLeased s" "jobExistsInTerminalState k s = (b, t)"
    using assms(3) by (auto simp: jobExistsInAnyState_def findJobPath_live [OF assms(1,2)] split: if_splits)
  then have "(b \<longleftrightarrow> spool_view s k \<noteq> JAbsent) \<and> spool_ok t \<and> spool_view t = spool_view s \<and> (\<forall>d. spool_names d t = spool_names d s)"
  proof cases
    case 1
    then show ?thesis using assms(1) view_absent [OF assms(1), of k] by auto
  next
    case 2
    note e = jobExistsInTerminalState_effect [OF assms(1,2) 2(3)]
    then show ?thesis using 2 view_absent [OF assms(1), of k] by auto
  qed
  then show "b \<longleftrightarrow> spool_view s k \<noteq> JAbsent" "spool_ok t" "spool_view t = spool_view s" "\<And>d. spool_names d t = spool_names d s"
    by blast+
qed

lemma after_move_put:
  assumes "spool_ok s"
  shows "after_move d n d' n' s (fs_put d' n' f (fs_del d n s))"
  using spool_okD(1) [OF assms] by (auto simp: after_move_def intro!: distinct_put distinct_del)

lemma after_move_cong:
  assumes "\<And>e. spool_names e t = spool_names e u"
  shows "after_move d n d' n' s t = after_move d n d' n' s u"
  by (simp add: after_move_def assms)

text \<open>A live file that moves into a terminal directory.\<close>

lemma end_live:
  assumes ok: "spool_ok s" and d: "d = DirPending \<or> d = DirLeased" and d': "d' \<in> set terminal_dirs"
    and n: "n \<in> set (spool_names d s)"
  shows "\<exists>t. renameNoOverwrite d n d' n s = Some t \<and> spool_ok (noteTerminal n t)
     \<and> spool_view (noteTerminal n t) = (spool_view s)(file_job n := JEnded)"
proof -
  obtain f where f: "fs_find d n s = Some f" using n fs_find_iff [of d n s] by (cases "fs_find d n s") auto
  have "n \<notin> set (spool_names d' s)"
  proof
    assume "n \<in> set (spool_names d' s)"
    then have "file_job n \<in> ended_jobs s" using d' by (auto simp: ended_jobs_def jobs_in_def terminal_dirs_def)
    moreover have "file_job n \<in> jobs_in d s" using n by (simp add: jobs_in_def)
    ultimately show False using d spool_okD(5,6) [OF ok] by blast
  qed
  then have r: "renameNoOverwrite d n d' n s = Some (fs_put d' n f (fs_del d n s))"
    using f by (simp add: renameNoOverwrite_def fs_rename_def fs_find_iff)
  let ?t = "noteTerminal n (fs_put d' n f (fs_del d n s))"
  have m: "after_move d n d' n s ?t"
    using after_move_put [OF ok, of d n d' n f] after_move_cong [of ?t "fs_put d' n f (fs_del d n s)" d n d' n s] by simp
  have fits: "name_fits d' n" using spool_okD(2) [OF ok n] d d' by (auto simp: terminal_dirs_def)
  have i: "index_after d' n s ?t" using d' by (simp add: index_after_def noteTerminal_def)
  have ne: "d' \<noteq> d" "dir_place d' n = JEnded" using d d' by (auto simp: terminal_dirs_def)
  from move_ok [OF ok m i fits d ne(1)] n r ne(2) show ?thesis by auto
qed

lemma noteTerminal_known:
  assumes "spool_ok s" "pending_ok n \<or> leased_ok n" "file_job n \<in> ended_jobs s"
  shows "spool_ok (noteTerminal n s)" "spool_view (noteTerminal n s) = spool_view s"
proof -
  show v: "spool_view (noteTerminal n s) = spool_view s" by (simp add: spool_view_def ended_jobs_def jobs_in_def fun_eq_iff)
  have e: "ended_jobs (noteTerminal n s) = ended_jobs s" "\<And>d. jobs_in d (noteTerminal n s) = jobs_in d s"
    by (simp_all add: ended_jobs_def jobs_in_def)
  have "sp_terminalIDs (noteTerminal n s) = Some ids \<Longrightarrow> job_name j \<Longrightarrow> j \<in> ids \<longleftrightarrow> j \<in> ended_jobs s" for ids j
    using spool_okD(7) [OF assms(1)] addTerminalName_job [OF assms(2)] assms(3)
    by (cases "sp_terminalIDs s") (auto simp: noteTerminal_def)
  then show "spool_ok (noteTerminal n s)" using assms(1) e by (simp add: spool_ok_def)
qed

lemma moveLeasePath_effect:
  assumes ok: "spool_ok s" and p: "leased_ok p" and d: "d \<in> set terminal_dirs"
  shows "spool_ok (snd (moveLeasePath p d s))"
    "spool_view (snd (moveLeasePath p d s)) =
       (if spool_view s (file_job p) = JAssigned p then (spool_view s)(file_job p := JEnded) else spool_view s)"
proof -
  have ne: "p \<noteq> []" using p by (auto simp: leased_ok_def lease_name_def)
  have "spool_ok (snd (moveLeasePath p d s)) \<and> spool_view (snd (moveLeasePath p d s)) =
       (if spool_view s (file_job p) = JAssigned p then (spool_view s)(file_job p := JEnded) else spool_view s)"
  proof (cases "p \<in> set (spool_names DirLeased s)")
    case True
    then have "spool_view s (file_job p) = JAssigned p" using view_assigned [OF ok] by blast
    with end_live [OF ok _ d True] ne show ?thesis by (auto simp: moveLeasePath_def)
  next
    case False
    then have v: "spool_view s (file_job p) \<noteq> JAssigned p" using view_assigned [OF ok] by blast
    show ?thesis
    proof (cases "p \<in> set (spool_names d s)")
      case True
      then have r: "renameNoOverwrite DirLeased p d p s = Some s"
        using fs_del_absent [OF False] by (simp add: renameNoOverwrite_def fs_find_iff)
      have "file_job p \<in> ended_jobs s" using True d by (auto simp: ended_jobs_def jobs_in_def terminal_dirs_def)
      with noteTerminal_known [OF ok] p r v ne show ?thesis by (simp add: moveLeasePath_def)
    next
      case absent: False
      with False have "renameNoOverwrite DirLeased p d p s = None"
        by (simp add: renameNoOverwrite_def fs_rename_def fs_find_iff split: option.split)
      with v ne ok show ?thesis by (simp add: moveLeasePath_def)
    qed
  qed
  then show "spool_ok (snd (moveLeasePath p d s))"
    "spool_view (snd (moveLeasePath p d s)) =
       (if spool_view s (file_job p) = JAssigned p then (spool_view s)(file_job p := JEnded) else spool_view s)" by blast+
qed

text \<open>A file that moves into a live directory.\<close>

lemma move_live:
  assumes "spool_ok s" "d = DirPending \<and> d' = DirLeased \<or> d = DirLeased \<and> d' = DirPending" "name_fits d' n'"
    "n \<in> set (spool_names d s) \<and> file_job n = file_job n' \<or>
     n \<notin> set (spool_names d s) \<and> spool_view s (file_job n') = JAbsent"
  shows "spool_ok (fs_put d' n' f (fs_del d n s))"
    "spool_view (fs_put d' n' f (fs_del d n s)) = (spool_view s)(file_job n' := dir_place d' n')"
proof -
  let ?t = "fs_put d' n' f (fs_del d n s)"
  have i: "index_after d' n' s ?t" using assms(2) by (auto simp: index_after_def terminal_dirs_def)
  have d: "d = DirPending \<or> d = DirLeased" "d' \<noteq> d" using assms(2) by auto
  from move_ok [OF assms(1) after_move_put [OF assms(1)] i assms(3) d assms(4)]
  show "spool_ok ?t" "spool_view ?t = (spool_view s)(file_job n' := dir_place d' n')" by blast+
qed

definition lease_ok :: "spool_lease \<Rightarrow> bool" where
  "lease_ok l = (leased_ok (sl_Path l) \<and> sl_JobID l = file_job (sl_Path l))"

lemma settle_effect:
  assumes "spool_ok s" "lease_ok l" "d \<in> set terminal_dirs"
  shows "spool_ok (snd (moveLeasePath (sl_Path l) d s))"
    "spool_view (snd (moveLeasePath (sl_Path l) d s)) =
       (if spool_view s (sl_JobID l) = JAssigned (sl_Path l) then (spool_view s)(sl_JobID l := JEnded) else spool_view s)"
  using moveLeasePath_effect [OF assms(1) _ assms(3), of "sl_Path l"] assms(2) by (simp_all add: lease_ok_def)

lemma requeue_move:
  assumes ok: "spool_ok s" and p: "p \<in> set (spool_names DirLeased s)" and f: "fs_find DirLeased p s = Some f"
  shows "envelope_name (file_job p) \<notin> set (spool_names DirPending s)"
    "spool_ok (fs_put DirPending (envelope_name (file_job p)) f (fs_del DirLeased p s))"
    "spool_view (fs_put DirPending (envelope_name (file_job p)) f (fs_del DirLeased p s)) = (spool_view s)(file_job p := JQueued)"
proof -
  have l: "leased_ok p" using spool_okD(2) [OF ok p] by simp
  then have j: "job_name (file_job p)" using leased_okD by blast
  have "file_job p \<in> jobs_in DirLeased s" using p by (simp add: jobs_in_def)
  then show "envelope_name (file_job p) \<notin> set (spool_names DirPending s)"
    using pending_job [OF ok, of "file_job p"] spool_okD(4) [OF ok] j by blast
  let ?t = "fs_put DirPending (envelope_name (file_job p)) f (fs_del DirLeased p s)"
  have fits: "name_fits DirPending (envelope_name (file_job p))" using j by (auto simp: pending_ok_def)
  have "spool_ok ?t \<and> spool_view ?t = (spool_view s)(file_job (envelope_name (file_job p)) := JQueued)"
    using move_live [OF ok _ fits, of DirLeased p f] p j by simp
  then show "spool_ok ?t" "spool_view ?t = (spool_view s)(file_job p := JQueued)" using j by simp_all
qed

lemma RetryLease_effect:
  assumes ok: "spool_ok s" and l: "lease_ok l"
  shows "spool_ok (RetryLease l s)"
    "spool_view (RetryLease l s) =
       (if spool_view s (sl_JobID l) = JAssigned (sl_Path l) then (spool_view s)(sl_JobID l := JQueued) else spool_view s)"
proof -
  let ?p = "sl_Path l" and ?j = "sl_JobID l"
  have j: "?j = file_job ?p" "?p \<noteq> []" "leased_ok ?p" using l by (auto simp: lease_ok_def leased_ok_def lease_name_def)
  have "spool_ok (RetryLease l s) \<and> spool_view (RetryLease l s) =
       (if spool_view s ?j = JAssigned ?p then (spool_view s)(?j := JQueued) else spool_view s)"
  proof (cases "?p \<in> set (spool_names DirLeased s)")
    case True
    then obtain f where f: "fs_find DirLeased ?p s = Some f" using fs_find_iff [of DirLeased ?p s] by (cases "fs_find DirLeased ?p s") auto
    have "spool_view s ?j = JAssigned ?p" using True j(1) view_assigned [OF ok, of ?j ?p] by simp
    moreover have "RetryLease l s = notifyEnqueue (fs_put DirPending (envelope_name (file_job ?p)) f (fs_del DirLeased ?p s))"
    proof -
      have "fs_find DirPending (envelope_name (file_job ?p)) s = None"
        by (rule fs_find_iff [THEN iffD2]) (rule requeue_move(1) [OF ok True f])
      then show ?thesis using j(2) f unfolding RetryLease_def renameNoOverwrite_def fs_rename_def j(1) by simp
    qed
    ultimately show ?thesis using requeue_move(2,3) [OF ok True f] j by simp
  next
    case False
    then have "spool_view s ?j \<noteq> JAssigned ?p" using view_assigned [OF ok, of ?j ?p] by simp
    moreover have "RetryLease l s = s \<or> RetryLease l s = notifyEnqueue s"
      using False j(2) fs_del_absent [OF False] fs_find_iff [of DirLeased ?p s]
      by (auto simp: RetryLease_def renameNoOverwrite_def fs_rename_def split: option.splits)
    ultimately show ?thesis using ok by auto
  qed
  then show "spool_ok (RetryLease l s)" "spool_view (RetryLease l s) =
       (if spool_view s ?j = JAssigned ?p then (spool_view s)(?j := JQueued) else spool_view s)" by blast+
qed

lemma RenewSpoolLease_effect:
  assumes "spool_ok s"
  shows "spool_ok (snd (RenewSpoolLease now l s))" "spool_view (snd (RenewSpoolLease now l s)) = spool_view s"
proof -
  have same: "spool_names d (fs_put e n f s) = spool_names d s" if "fs_find e n s = Some g" for d e n f g
  proof -
    have "n \<in> set (map fst (sp_dirs s e))" using that fs_find_iff [of e n s] by (simp add: spool_names_def)
    then show ?thesis by (simp add: fs_put_def spool_names_def update_keys)
  qed
  have "spool_names d (snd (RenewSpoolLease now l s)) = spool_names d s" for d
  proof (cases "fs_find DirLeased (sl_Path l) s")
    case (Some f)
    from same [OF this, of d "f\<lparr>sf_Modified := now\<rparr>"] Some show ?thesis by (simp add: RenewSpoolLease_def)
  qed (simp add: RenewSpoolLease_def)
  moreover have "sp_terminalIDs (snd (RenewSpoolLease now l s)) = sp_terminalIDs s"
    by (auto simp: RenewSpoolLease_def split: option.split)
  ultimately show "spool_ok (snd (RenewSpoolLease now l s))" "spool_view (snd (RenewSpoolLease now l s)) = spool_view s"
    using spool_ok_cong [OF assms, of "snd (RenewSpoolLease now l s)"] by simp_all
qed

lemma tryLease_effect:
  assumes ok: "spool_ok s" and t: "tryLease co now name s = (r, t)"
  obtains (lost) "name \<notin> set (spool_names DirPending s)" "r = LeaseLost" "t = s"
  | (refused) j e where "job_name j" "name = envelope_name j" "spool_view s j = JQueued" "r = LeaseRefused e" "spool_ok t"
      "spool_view t = (spool_view s)(j := JEnded)"
  | (granted) j l where "job_name j" "name = envelope_name j" "spool_view s j = JQueued" "r = LeaseGranted l" "spool_ok t"
      "sl_JobID l = j" "lease_ok l" "sl_Path l = lease_name j (show_int (unix_nano now))"
      "spool_view t = (spool_view s)(j := JAssigned (sl_Path l))"
proof (cases "name \<in> set (spool_names DirPending s)")
  case False
  then have "fs_find DirPending name s = None" by (simp add: fs_find_iff)
  then have "tryLease co now name s = (LeaseLost, s)" by (simp add: tryLease_def fs_rename_def Let_def)
  with t have "r = LeaseLost" "t = s" by simp_all
  then show thesis by (rule lost [OF False])
next
  case True
  then have po: "pending_ok name" using spool_okD(2) [OF ok True] by simp
  define j where "j = file_job name"
  have j: "job_name j" "name = envelope_name j" using pending_okD [OF po] by (auto simp: j_def)
  have q: "spool_view s j = JQueued" using pending_job [OF ok, of j] view_queued [OF ok, of j] True j by blast
  obtain f where f: "fs_find DirPending name s = Some f" using True fs_find_iff [of DirPending name s] by (cases "fs_find DirPending name s") auto
  define p where "p = lease_name j (show_int (unix_nano now))"
  define s1 where "s1 = fs_put DirLeased p f (fs_del DirPending name s)"
  have p: "leased_ok p" "file_job p = j" using j show_int_no_dot by (auto simp: p_def leased_ok_def)
  have "spool_ok s1 \<and> spool_view s1 = (spool_view s)(file_job p := JAssigned p)"
    unfolding s1_def using move_live [OF ok, of DirPending DirLeased p name f] p True j by simp
  then have m: "spool_ok s1" "spool_view s1 = (spool_view s)(j := JAssigned p)" using p by simp_all
  have fail: "spool_ok (snd (moveLeasePath p DirFailed s1))"
      "spool_view (snd (moveLeasePath p DirFailed s1)) = (spool_view s)(j := JEnded)"
    using moveLeasePath_effect [OF m(1) p(1), of DirFailed] p m(2) by (auto simp: terminal_dirs_def)
  have run: "tryLease co now name s =
      (if maxSpoolEnvelopeBytes < length (sf_Raw f) then (LeaseRefused EnvelopeTooLarge, snd (moveLeasePath p DirFailed s1))
       else (case co_decode co (sf_Raw f) of
               None \<Rightarrow> (LeaseRefused EnvelopeMalformed, snd (moveLeasePath p DirFailed s1))
             | Some e0 \<Rightarrow>
                 let e = (if ev_JobID e0 = [] then e0\<lparr>ev_JobID := j\<rparr> else e0) in
                 if ev_JobID e \<noteq> j then (LeaseRefused EnvelopeOtherJob, snd (moveLeasePath p DirFailed s1))
                 else (LeaseGranted \<lparr>sl_JobID = ev_JobID e, sl_LeaseID = show_int (unix_nano now), sl_Path = p,
                                    sl_Envelope = e, sl_LeasedAt = now\<rparr>, s1)))"
    using f unfolding p_def s1_def j(2) by (simp add: tryLease_def fs_rename_def Let_def)
  consider (bad) e where "r = LeaseRefused e" "t = snd (moveLeasePath p DirFailed s1)"
    | (good) l where "r = LeaseGranted l" "t = s1" "sl_JobID l = j" "sl_Path l = p"
    using t unfolding run by (auto simp: Let_def split: if_splits option.splits)
  then show thesis
  proof cases
    case bad
    then show ?thesis using refused [OF j q] fail by simp
  next
    case (good l)
    then show ?thesis using granted [OF j q good(1)] m p by (simp add: lease_ok_def p_def)
  qed
qed

end
