(* ===== verification/SpoolProps.thy ===== *)
theory SpoolProps
  imports SpoolInv JobProps "HOL-Library.Multiset"
begin

text \<open>
  What the spool promises, on the abstract view: every operation is the step its name says, so
  an envelope is never lost or doubled; a cancelled job stays cancelled; leases are granted
  oldest first and kept while they are renewed; retention removes exactly the oldest files.
\<close>

subsection \<open>Enqueue, cancel, recovery and retention on the view\<close>

lemma EnqueueJob_effect:
  assumes ok: "spool_ok s" and j: "job_name (job_ID job)"
  shows "spool_ok (spool_EnqueueJob co now job s)"
    "spool_view (spool_EnqueueJob co now job s) =
       (if TerminalStatus (job_Status job) \<or> spool_view s (job_ID job) \<noteq> JAbsent then spool_view s
        else (spool_view s)(job_ID job := JQueued))"
proof -
  let ?j = "job_ID job" and ?n = "envelope_name (job_ID job)"
  obtain b t where e: "jobExistsInAnyState ?j s = (b, t)" by fastforce
  note x = jobExistsInAnyState_effect [OF ok j e]
  have "spool_ok (spool_EnqueueJob co now job s) \<and> spool_view (spool_EnqueueJob co now job s) =
       (if TerminalStatus (job_Status job) \<or> spool_view s ?j \<noteq> JAbsent then spool_view s
        else (spool_view s)(?j := JQueued))"
  proof (cases "TerminalStatus (job_Status job) \<or> b")
    case True
    then show ?thesis using e x ok by (auto simp: spool_EnqueueJob_def)
  next
    case False
    define f where "f = \<lparr>sf_Modified = now, sf_Raw = co_encode co (EnvelopeFromJob job) @ [CHR 0x0A]\<rparr>"
    have a: "spool_view t ?j = JAbsent" using x(1,3) False by simp
    have p: "fs_find DirPending ?n t = None"
      using a view_absent [OF x(2)] pending_job [OF x(2), of ?j] j by (simp add: fs_find_iff)
    have nl: "?n \<notin> set (spool_names DirLeased t)"
      using spool_okD(2) [OF x(2), of ?n DirLeased] envelope_not_leased j by auto
    have m: "spool_ok (fs_put DirPending ?n f (fs_del DirLeased ?n t)) \<and>
        spool_view (fs_put DirPending ?n f (fs_del DirLeased ?n t)) = (spool_view t)(file_job ?n := dir_place DirPending ?n)"
      using move_live [OF x(2), of DirLeased DirPending ?n ?n f] a nl j by (auto simp: pending_ok_def)
    have "spool_EnqueueJob co now job s = notifyEnqueue (fs_put DirPending ?n f t)"
      using False e p by (simp add: spool_EnqueueJob_def f_def Let_def)
    then show ?thesis using m x(1,3) False j by (simp add: fs_del_absent [OF nl])
  qed
  then show "spool_ok (spool_EnqueueJob co now job s)" "spool_view (spool_EnqueueJob co now job s) =
       (if TerminalStatus (job_Status job) \<or> spool_view s ?j \<noteq> JAbsent then spool_view s
        else (spool_view s)(?j := JQueued))" by blast+
qed

lemma movePendingToCancelled_effect:
  assumes ok: "spool_ok s" and j: "job_name j" and m: "movePendingToCancelled j s = (b, t)"
  shows "spool_ok t \<and> spool_view t = (if spool_view s j = JQueued then (spool_view s)(j := JEnded) else spool_view s)
    \<and> (b \<longrightarrow> spool_view t j = JEnded) \<and> (spool_view s j = JQueued \<longrightarrow> b)"
proof (cases "envelope_name j \<in> set (spool_names DirPending s)")
  case True
  then have "spool_view s j = JQueued" using view_queued [OF ok] pending_job [OF ok] j by blast
  then show ?thesis using end_live [OF ok _ _ True, of DirCancelled] j m
    by (auto simp: movePendingToCancelled_def terminal_dirs_def)
next
  case False
  then have v: "spool_view s j \<noteq> JQueued" using view_queued [OF ok] pending_job [OF ok] by blast
  show ?thesis
  proof (cases "fs_find DirCancelled (envelope_name j) s")
    case None
    moreover have "fs_find DirPending (envelope_name j) s = None" using False by (simp add: fs_find_iff)
    ultimately show ?thesis using m v ok by (auto simp: movePendingToCancelled_def renameNoOverwrite_def fs_rename_def)
  next
    case (Some f)
    then have "envelope_name j \<in> set (spool_names DirCancelled s)" using fs_find_iff [of DirCancelled "envelope_name j" s] by auto
    then have e: "file_job (envelope_name j) \<in> ended_jobs s" unfolding ended_jobs_def jobs_in_def by blast
    have p: "pending_ok (envelope_name j)" using j by (auto simp: pending_ok_def)
    have r: "b" "t = noteTerminal (envelope_name j) s"
      using m Some fs_del_absent [OF False] by (auto simp: movePendingToCancelled_def renameNoOverwrite_def)
    show ?thesis using noteTerminal_known [OF ok _ e] p r v e view_ended [OF ok, of j] j by simp
  qed
qed

lemma fold_moveLeasePath:
  assumes "spool_ok s" "\<forall>n \<in> set ns. leased_ok n \<and> file_job n = j"
  shows "spool_ok (fold (\<lambda>name s. snd (moveLeasePath name DirCancelled s)) ns s)
    \<and> spool_view (fold (\<lambda>name s. snd (moveLeasePath name DirCancelled s)) ns s) =
       (if \<exists>p \<in> set ns. spool_view s j = JAssigned p then (spool_view s)(j := JEnded) else spool_view s)"
  using assms
proof (induction ns arbitrary: s)
  case (Cons n ns)
  let ?t = "snd (moveLeasePath n DirCancelled s)"
  have n: "leased_ok n" "file_job n = j" "DirCancelled \<in> set terminal_dirs" using Cons.prems by (simp_all add: terminal_dirs_def)
  note m = moveLeasePath_effect [OF Cons.prems(1) n(1,3)]
  from Cons.IH [OF m(1)] Cons.prems n m(2) show ?case
    by (cases "spool_view s j = JAssigned n") auto
qed simp

lemma moveLeasedToCancelled_effect:
  assumes ok: "spool_ok s" and j: "job_name j" and m: "moveLeasedToCancelled j s = (b, t)"
  shows "spool_ok t \<and> spool_view t = (if b then (spool_view s)(j := JEnded) else spool_view s)
    \<and> (b \<longleftrightarrow> (\<exists>p. spool_view s j = JAssigned p))"
proof -
  let ?ms = "lease_matches j s"
  have g: "glob_lease j n \<longleftrightarrow> file_job n = j" "leased_ok n" if "n \<in> set (spool_names DirLeased s)" for n
    using spool_okD(2) [OF ok that] j by (auto simp: leased_ok_def)
  have ms: "\<forall>n \<in> set ?ms. leased_ok n \<and> file_job n = j" using g by (auto simp: lease_matches_def)
  have a: "p \<in> set ?ms \<longleftrightarrow> spool_view s j = JAssigned p" for p
    using view_assigned [OF ok, of j p] g by (auto simp: lease_matches_def)
  have b: "b \<longleftrightarrow> (\<exists>p \<in> set ?ms. spool_view s j = JAssigned p)"
    using m a by (cases ?ms) (auto simp: moveLeasedToCancelled_def Let_def)
  have t: "t = fold (\<lambda>name s. snd (moveLeasePath name DirCancelled s)) ?ms s"
    using m by (simp add: moveLeasedToCancelled_def Let_def)
  show ?thesis using fold_moveLeasePath [OF ok ms] a unfolding t [symmetric] b by auto
qed

lemma writeCancellationMarker_effect:
  assumes ok: "spool_ok s" and j: "job_name (job_ID job)"
    and v: "spool_view s (job_ID job) = JAbsent \<or> spool_view s (job_ID job) = JEnded"
  shows "spool_ok (writeCancellationMarker co now job reason s)
    \<and> spool_view (writeCancellationMarker co now job reason s) = (spool_view s)(job_ID job := JEnded)"
proof -
  let ?j = "job_ID job" and ?n = "envelope_name (job_ID job)"
  obtain b t where e: "jobExistsInTerminalState ?j s = (b, t)" by fastforce
  note x = jobExistsInTerminalState_effect [OF ok j e]
  show ?thesis
  proof (cases b)
    case True
    then have "spool_view s ?j = JEnded" using x(1) view_ended [OF ok] by blast
    then show ?thesis using True e x by (auto simp: writeCancellationMarker_def fun_eq_iff)
  next
    case False
    define f where "f = \<lparr>sf_Modified = now, sf_Raw = co_marker co job (trim_space reason) now\<rparr>"
    have a: "spool_view t ?j = JAbsent" using False x(1,3) v view_ended [OF ok] by auto
    have "?j \<notin> ended_jobs t" using a view_absent [OF x(2)] by blast
    then have c: "?n \<notin> set (spool_names DirCancelled t)" using j by (force simp: ended_jobs_def jobs_in_def)
    have p: "?n \<notin> set (spool_names DirPending t)"
      using a view_absent [OF x(2)] pending_job [OF x(2), of ?j] j by blast
    let ?u = "noteTerminal ?n (fs_put DirCancelled ?n f (fs_del DirPending ?n t))"
    have am: "after_move DirPending ?n DirCancelled ?n t ?u"
      using after_move_put [OF x(2), of DirPending ?n DirCancelled ?n f]
        after_move_cong [of ?u "fs_put DirCancelled ?n f (fs_del DirPending ?n t)" DirPending ?n DirCancelled ?n t] by simp
    have i: "index_after DirCancelled ?n t ?u" by (simp add: index_after_def noteTerminal_def terminal_dirs_def)
    have "spool_ok ?u \<and> spool_view ?u = (spool_view t)(?j := JEnded)"
      using move_ok [OF x(2) am i] a p j by (auto simp: pending_ok_def)
    moreover have "writeCancellationMarker co now job reason s = ?u"
      using False e c by (simp add: writeCancellationMarker_def writeFileExclusive_def fs_find_iff f_def Let_def fs_del_absent [OF p])
    ultimately show ?thesis using x(3) by simp
  qed
qed

lemma spool_CancelJob_effect:
  assumes ok: "spool_ok s" and j: "job_name (job_ID job)"
  shows "spool_ok (spool_CancelJob co now job reason s)"
    "spool_view (spool_CancelJob co now job reason s) = (spool_view s)(job_ID job := JEnded)"
proof -
  let ?j = "job_ID job"
  obtain b1 s1 b2 s2 where m: "movePendingToCancelled ?j s = (b1, s1)" "moveLeasedToCancelled ?j s1 = (b2, s2)" by fastforce
  note e1 = movePendingToCancelled_effect [OF ok j m(1)]
  then have ok1: "spool_ok s1" by blast
  note e2 = moveLeasedToCancelled_effect [OF ok1 j m(2)]
  have "spool_ok (spool_CancelJob co now job reason s) \<and>
    spool_view (spool_CancelJob co now job reason s) = (spool_view s)(?j := JEnded)"
  proof (cases "b1 \<or> b2")
    case True
    then have "spool_CancelJob co now job reason s = s2" using m by (simp add: spool_CancelJob_def)
    moreover have "spool_view s2 = (spool_view s)(?j := JEnded)"
    proof -
      have "spool_view s2 ?j = JEnded" using True e1 e2 by auto
      moreover have "spool_view s2 k = spool_view s k" if "k \<noteq> ?j" for k using e1 e2 that by (auto split: if_splits)
      ultimately show ?thesis by (auto simp: fun_eq_iff)
    qed
    ultimately show ?thesis using e2 by simp
  next
    case False
    then have c: "spool_CancelJob co now job reason s = writeCancellationMarker co now job reason s2" using m by (simp add: spool_CancelJob_def)
    have v: "spool_view s2 = spool_view s" "spool_view s ?j \<noteq> JQueued" "\<And>p. spool_view s ?j \<noteq> JAssigned p"
      using False e1 e2 by auto
    have "spool_view s2 ?j = JAbsent \<or> spool_view s2 ?j = JEnded" using v by (cases "spool_view s ?j") auto
    from writeCancellationMarker_effect [OF _ j this] c e2 v(1) show ?thesis by auto
  qed
  then show "spool_ok (spool_CancelJob co now job reason s)"
    "spool_view (spool_CancelJob co now job reason s) = (spool_view s)(?j := JEnded)" by blast+
qed

definition requeued :: "(string \<Rightarrow> job_place) \<Rightarrow> (string \<Rightarrow> job_place) \<Rightarrow> bool" where
  "requeued a b = (\<forall>j. b j = a j \<or> (\<exists>p. a j = JAssigned p \<and> b j = JQueued))"

lemma requeued_refl: "requeued a a" by (simp add: requeued_def)

lemma requeued_trans: "requeued a b \<Longrightarrow> requeued b c \<Longrightarrow> requeued a c"
  unfolding requeued_def by (metis job_place.distinct(9))

lemma fs_find_other [simp]:
  "d \<noteq> e \<or> n \<noteq> m \<Longrightarrow> fs_find d n (fs_put e m f s) = fs_find d n s"
  "d \<noteq> e \<or> n \<noteq> m \<Longrightarrow> fs_find d n (fs_del e m s) = fs_find d n s"
  by (auto simp: fs_find_def fs_put_def fs_del_def update_conv' delete_conv')

lemma fs_find_note [simp]: "fs_find d n (noteTerminal m s) = fs_find d n s"
  by (simp add: fs_find_def noteTerminal_def)

lemma fs_find_rename: "fs_rename e m e' m' s = Some t \<Longrightarrow> d \<noteq> e \<or> n \<noteq> m \<Longrightarrow> d \<noteq> e' \<or> n \<noteq> m' \<Longrightarrow> fs_find d n t = fs_find d n s"
  by (auto simp: fs_rename_def split: option.splits)

text \<open>One file of \<open>leased/\<close> that is recovered goes back to \<open>pending/\<close>: nothing stands in its way.\<close>

lemma recover_one:
  assumes ok: "spool_ok s" and l: "leased_ok name"
  shows "fs_find DirLeased name s = None \<Longrightarrow> fs_find DirPending (envelope_name (leased_job name)) s = None \<Longrightarrow>
      fs_rename DirLeased name DirPending (envelope_name (leased_job name)) s = None"
    "fs_find DirLeased name s = Some f \<Longrightarrow> fs_find DirPending (envelope_name (leased_job name)) s = None \<and>
      (\<exists>t. fs_rename DirLeased name DirPending (envelope_name (leased_job name)) s = Some t \<and> spool_ok t \<and>
        spool_view t = (spool_view s)(file_job name := JQueued) \<and> spool_view s (file_job name) = JAssigned name)"
proof -
  show "fs_find DirLeased name s = None \<Longrightarrow> fs_rename DirLeased name DirPending (envelope_name (leased_job name)) s = None"
    by (simp add: fs_rename_def)
  assume f: "fs_find DirLeased name s = Some f"
  then have n: "name \<in> set (spool_names DirLeased s)" using fs_find_iff [of DirLeased name s] by auto
  have "spool_view s (file_job name) = JAssigned name" using view_assigned [OF ok, of "file_job name" name] n by simp
  with requeue_move [OF ok n f] f show "fs_find DirPending (envelope_name (leased_job name)) s = None \<and>
      (\<exists>t. fs_rename DirLeased name DirPending (envelope_name (leased_job name)) s = Some t \<and> spool_ok t \<and>
        spool_view t = (spool_view s)(file_job name := JQueued) \<and> spool_view s (file_job name) = JAssigned name)"
    by (simp add: leased_job_ok [OF l] fs_rename_def fs_find_iff)
qed

definition recover_test :: "(string \<Rightarrow> gotime \<Rightarrow> bool) option \<Rightarrow> string \<Rightarrow> spool_file \<Rightarrow> bool" where
  "recover_test expired name f = (case expired of None \<Rightarrow> True | Some test \<Rightarrow> test name (sf_Modified f))"

lemma recover_each_effect:
  assumes "spool_ok s" "\<forall>n \<in> set names. leased_ok n" "recover_each expired names (k, s) = (k', t)"
  shows "spool_ok t \<and> requeued (spool_view s) (spool_view t)
    \<and> (\<forall>p f. fs_find DirLeased p s = Some f \<longrightarrow> (p \<notin> set names \<or> \<not> recover_test expired p f) \<longrightarrow> fs_find DirLeased p t = Some f)
    \<and> (\<forall>p f. fs_find DirLeased p s = Some f \<longrightarrow> p \<in> set names \<longrightarrow> recover_test expired p f \<longrightarrow> fs_find DirLeased p t = None)
    \<and> (\<forall>p. fs_find DirLeased p s = None \<longrightarrow> fs_find DirLeased p t = None)"
  using assms
proof (induction names arbitrary: k s)
  case Nil
  then show ?case by (auto simp: requeued_refl)
next
  case (Cons n ns)
  let ?skip = "case expired of None \<Rightarrow> False
     | Some test \<Rightarrow> (case fs_find DirLeased n s of None \<Rightarrow> True | Some f \<Rightarrow> \<not> test n (sf_Modified f))"
  have l: "leased_ok n" "suffix json_ext n" and ns: "\<forall>m \<in> set ns. leased_ok m" using Cons.prems(2) leased_ext by auto
  have skips: ?case if r: "recover_each expired ns (k, s) = (k', t)"
    and no: "\<And>f. fs_find DirLeased n s = Some f \<Longrightarrow> \<not> recover_test expired n f"
    using Cons.IH [OF Cons.prems(1) ns r] no by auto
  show ?case
  proof (cases "fs_find DirLeased n s")
    case None
    have "fs_find DirPending (envelope_name (leased_job n)) s \<noteq> None \<longrightarrow> snd (moveLeasePath n DirCancelled s) = s \<or>
        snd (moveLeasePath n DirCancelled s) = noteTerminal n s"
      using None fs_find_iff [of DirLeased n s] fs_del_absent [of n DirLeased s]
      by (auto simp: moveLeasePath_def renameNoOverwrite_def fs_rename_def split: option.splits)
    let ?u = "if \<not> ?skip \<and> fs_find DirPending (envelope_name (leased_job n)) s \<noteq> None then snd (moveLeasePath n DirCancelled s) else s"
    have u: "spool_ok ?u" "spool_view ?u = spool_view s" "\<And>d m. fs_find d m ?u = fs_find d m s"
    proof -
      have v: "spool_view s (file_job n) \<noteq> JAssigned n"
        using None view_assigned [OF Cons.prems(1)] fs_find_iff [of DirLeased n s] by auto
      have d: "DirCancelled \<in> set terminal_dirs" by (simp add: terminal_dirs_def)
      note m = moveLeasePath_effect [OF Cons.prems(1) l(1) d]
      show "spool_ok ?u" using m(1) Cons.prems(1) by simp
      show "spool_view ?u = spool_view s" using m(2) v by simp
      show "fs_find d m ?u = fs_find d m s" for d m
        using \<open>fs_find DirPending (envelope_name (leased_job n)) s \<noteq> None \<longrightarrow> _\<close> by auto
    qed
    have r: "recover_each expired ns (k, ?u) = (k', t)"
      using Cons.prems(3) l(2) recover_one(1) [OF Cons.prems(1) l(1) None] by (auto simp: Let_def split: if_splits)
    from Cons.IH [OF u(1) ns r] show ?thesis unfolding u(2,3) using None by auto
  next
    case (Some f)
    show ?thesis
    proof (cases "recover_test expired n f")
      case False
      then have "?skip" using Some by (auto simp: recover_test_def split: option.splits)
      then have "recover_each expired ns (k, s) = (k', t)" using Cons.prems(3) l(2) by simp
      then show ?thesis by (rule skips) (use False Some in auto)
    next
      case True
      then have ns': "\<not> ?skip" using Some by (auto simp: recover_test_def split: option.splits)
      obtain u where u: "fs_find DirPending (envelope_name (leased_job n)) s = None"
          "fs_rename DirLeased n DirPending (envelope_name (leased_job n)) s = Some u" "spool_ok u"
          "spool_view u = (spool_view s)(file_job n := JQueued)" "spool_view s (file_job n) = JAssigned n"
        using recover_one(2) [OF Cons.prems(1) l(1) Some] by blast
      have r: "recover_each expired ns (Suc k, u) = (k', t)" using Cons.prems(3) l(2) ns' u(1,2) by (simp add: Let_def)
      have q: "requeued (spool_view s) (spool_view u)" using u(4,5) by (simp add: requeued_def)
      have keep: "fs_find DirLeased p u = fs_find DirLeased p s" if "p \<noteq> n" for p
        using fs_find_rename [OF u(2)] that by simp
      have gone: "fs_find DirLeased n u = None"
        using u(2) Some by (auto simp: fs_rename_def fs_find_iff)
      note IH = Cons.IH [OF u(3) ns r]
      have "\<forall>p g. fs_find DirLeased p s = Some g \<longrightarrow> (p \<notin> set (n # ns) \<or> \<not> recover_test expired p g) \<longrightarrow> fs_find DirLeased p t = Some g"
        using IH keep True Some by (metis list.set_intros(1,2) option.inject)
      moreover have "\<forall>p g. fs_find DirLeased p s = Some g \<longrightarrow> p \<in> set (n # ns) \<longrightarrow> recover_test expired p g \<longrightarrow> fs_find DirLeased p t = None"
        using IH keep gone by (metis set_ConsD)
      moreover have "\<forall>p. fs_find DirLeased p s = None \<longrightarrow> fs_find DirLeased p t = None"
        using IH keep gone by metis
      ultimately show ?thesis using IH requeued_trans [OF q] by blast
    qed
  qed
qed

lemma recoverLeases_effect:
  assumes "spool_ok s"
  shows "spool_ok (snd (recoverLeases expired s))"
    "requeued (spool_view s) (spool_view (snd (recoverLeases expired s)))"
    "fs_find DirLeased p s = Some f \<Longrightarrow>
       fs_find DirLeased p (snd (recoverLeases expired s)) = (if recover_test expired p f then None else Some f)"
proof -
  obtain k t where r: "recover_each expired (sort (spool_names DirLeased s)) (0, s) = (k, t)" by fastforce
  have l: "\<forall>n \<in> set (sort (spool_names DirLeased s)). leased_ok n" using spool_okD(2) [OF assms, of _ DirLeased] by simp
  have w: "snd (recoverLeases expired s) = t \<or> snd (recoverLeases expired s) = notifyEnqueue t"
    using r by (simp add: recoverLeases_def)
  have fw: "fs_find d m (notifyEnqueue t) = fs_find d m t" for d m by (simp add: fs_find_def notifyEnqueue_def)
  note e = recover_each_effect [OF assms l r]
  show "spool_ok (snd (recoverLeases expired s))" "requeued (spool_view s) (spool_view (snd (recoverLeases expired s)))"
    using e w by auto
  assume f: "fs_find DirLeased p s = Some f"
  then have "p \<in> set (spool_names DirLeased s)" using fs_find_iff [of DirLeased p s] by auto
  then show "fs_find DirLeased p (snd (recoverLeases expired s)) = (if recover_test expired p f then None else Some f)"
    using e w f by (auto simp: fw)
qed

subsection \<open>Retention\<close>

definition over_bound :: "dur \<Rightarrow> int \<Rightarrow> gotime \<Rightarrow> nat \<Rightarrow> nat \<Rightarrow> spool_entry \<Rightarrow> bool" where
  "over_bound ttl mx now n i e = (0 < ttl \<and> ttl < now - entry_modified e \<or> 0 < mx \<and> mx < int (n - i))"

definition del_entry :: "spool_entry \<Rightarrow> spool \<Rightarrow> spool" where
  "del_entry e s = fs_del (fst e) (fst (snd e)) s"

lemma sweep_each_Cons:
  "sweep_each stuck ttl mx now n i (e # es) (r, s) =
     (if \<not> over_bound ttl mx now n i e then (r, s)
      else if stuck e then sweep_each stuck ttl mx now n (Suc i) es (r, s)
      else sweep_each stuck ttl mx now n (Suc i) es (Suc r, del_entry e s))"
  by (simp add: over_bound_def del_entry_def Let_def)

declare sweep_each.simps(2) [simp del]

lemma sweep_each_deletes:
  assumes "sweep_each stuck ttl mx now n i es (r, s) = (r', t)"
  shows "\<exists>ds. set ds \<subseteq> set es \<and> t = fold del_entry ds s \<and> r' = r + length ds"
  using assms
proof (induction es arbitrary: i r s)
  case Nil
  then show ?case by (intro exI [of _ "[]"]) simp
next
  case (Cons e es)
  consider "(r', t) = (r, s)" | "sweep_each stuck ttl mx now n (Suc i) es (r, s) = (r', t)"
    | "sweep_each stuck ttl mx now n (Suc i) es (Suc r, del_entry e s) = (r', t)"
    using Cons.prems by (cases "over_bound ttl mx now n i e"; cases "stuck e") (simp_all add: sweep_each_Cons)
  then show ?case
  proof cases
    case 1
    then show ?thesis by (intro exI [of _ "[]"]) simp
  next
    case 2
    from Cons.IH [OF this] obtain ds where "set ds \<subseteq> set es" "t = fold del_entry ds s" "r' = r + length ds" by blast
    then show ?thesis by (intro exI [of _ ds]) auto
  next
    case 3
    from Cons.IH [OF this] obtain ds where "set ds \<subseteq> set es" "t = fold del_entry ds (del_entry e s)" "r' = Suc r + length ds" by blast
    then show ?thesis by (intro exI [of _ "e # ds"]) auto
  qed
qed

lemma sweep_each_prefix:
  "\<exists>k \<le> length es. sweep_each (\<lambda>_. False) ttl mx now n i es (r, s) = (r + k, fold del_entry (take k es) s)
    \<and> (\<forall>j < k. over_bound ttl mx now n (i + j) (es ! j))
    \<and> (k < length es \<longrightarrow> \<not> over_bound ttl mx now n (i + k) (es ! k))"
proof (induction es arbitrary: i r s)
  case (Cons e es)
  show ?case
  proof (cases "over_bound ttl mx now n i e")
    case True
    obtain k where k: "k \<le> length es"
        "sweep_each (\<lambda>_. False) ttl mx now n (Suc i) es (Suc r, del_entry e s) = (Suc r + k, fold del_entry (take k es) (del_entry e s))"
        "\<forall>j < k. over_bound ttl mx now n (Suc i + j) (es ! j)"
        "k < length es \<longrightarrow> \<not> over_bound ttl mx now n (Suc i + k) (es ! k)"
      using Cons.IH [of "Suc i" "Suc r" "del_entry e s"] by blast
    have "sweep_each (\<lambda>_. False) ttl mx now n i (e # es) (r, s) = (r + Suc k, fold del_entry (take (Suc k) (e # es)) s)"
      using True k(2) by (simp add: sweep_each_Cons)
    moreover have "\<forall>j < Suc k. over_bound ttl mx now n (i + j) ((e # es) ! j)"
      using True k(3) by (auto simp: less_Suc_eq_0_disj)
    ultimately show ?thesis using k(1,4) by (intro exI [of _ "Suc k"]) simp
  next
    case False
    then show ?thesis by (intro exI [of _ 0]) (simp add: sweep_each_Cons)
  qed
qed simp

lemma fold_del_names:
  "set (spool_names d (fold del_entry ds s)) = set (spool_names d s) - {n. \<exists>m. (d, n, m) \<in> set ds}"
proof (induction ds arbitrary: s)
  case (Cons e ds)
  then show ?case by (cases e) (auto simp: del_entry_def)
qed simp

lemma fold_del_frame:
  "sp_terminalIDs (fold del_entry ds s) = sp_terminalIDs s"
  "(\<forall>d. distinct (spool_names d s)) \<Longrightarrow> distinct (spool_names e (fold del_entry ds s))"
  "d \<notin> fst ` set ds \<Longrightarrow> sp_dirs (fold del_entry ds s) d = sp_dirs s d"
proof -
  show "sp_terminalIDs (fold del_entry ds s) = sp_terminalIDs s"
    by (induction ds arbitrary: s) (auto simp: del_entry_def)
  show "(\<forall>d. distinct (spool_names d s)) \<Longrightarrow> distinct (spool_names e (fold del_entry ds s))"
    by (induction ds arbitrary: s) (auto simp: del_entry_def distinct_del)
  show "d \<notin> fst ` set ds \<Longrightarrow> sp_dirs (fold del_entry ds s) d = sp_dirs s d"
    by (induction ds arbitrary: s) (auto simp: del_entry_def fs_del_def)
qed

lemma terminal_entries_dirs: "e \<in> set (terminal_entries s) \<Longrightarrow> fst e \<in> set terminal_dirs"
  by (auto simp: terminal_entries_def)

lemma invalidate_names [simp]: "spool_names d (invalidateTerminal s) = spool_names d s" "sp_dirs (invalidateTerminal s) = sp_dirs s"
  by (simp_all add: invalidateTerminal_def spool_names_def)

text \<open>Only ended jobs can disappear.\<close>

definition forgotten :: "(string \<Rightarrow> job_place) \<Rightarrow> (string \<Rightarrow> job_place) \<Rightarrow> bool" where
  "forgotten a b = (\<forall>j. b j = a j \<or> a j = JEnded \<and> b j = JAbsent)"

lemma SweepRetention_effect:
  assumes ok: "spool_ok s"
  shows "spool_ok (snd (SweepRetention stuck now s))" "forgotten (spool_view s) (spool_view (snd (SweepRetention stuck now s)))"
    "d \<notin> set terminal_dirs \<Longrightarrow> sp_dirs (snd (SweepRetention stuck now s)) d = sp_dirs s d"
proof -
  let ?es = "sort_key (\<lambda>e. (entry_modified e, entry_path e)) (terminal_entries s)"
  obtain r t where r: "sweep_each stuck (sp_retentionTTL s) (sp_retentionMax s) now (length ?es) 0 ?es (0, s) = (r, t)" by fastforce
  obtain ds where ds: "set ds \<subseteq> set ?es" "t = fold del_entry ds s" "r = length ds" using sweep_each_deletes [OF r] by auto
  define u where "u = snd (SweepRetention stuck now s)"
  have u: "u = s \<or> ds \<noteq> [] \<and> u = invalidateTerminal t"
    using r ds(2,3) by (auto simp: u_def SweepRetention_def Let_def)
  have td: "fst e \<in> set terminal_dirs" if "e \<in> set ds" for e using ds(1) that terminal_entries_dirs [of e s] by auto
  have live: "sp_dirs u d = sp_dirs s d" if "d \<notin> set terminal_dirs" for d
  proof -
    have "d \<notin> fst ` set ds" using td that by blast
    then show ?thesis using u ds(2) fold_del_frame(3) [of d ds s] by auto
  qed
  then show "d \<notin> set terminal_dirs \<Longrightarrow> sp_dirs (snd (SweepRetention stuck now s)) d = sp_dirs s d" by (simp add: u_def)
  have same: "spool_names DirPending u = spool_names DirPending s" "spool_names DirLeased u = spool_names DirLeased s"
    using live by (simp_all add: spool_names_def terminal_dirs_def)
  have sub: "set (spool_names d u) \<subseteq> set (spool_names d s)" for d
    using u fold_del_names [of d ds s] ds(2) by auto
  have dist: "distinct (spool_names d u)" for d
    using u fold_del_frame(2) [of s d ds] spool_okD(1) [OF ok] ds(2) by auto
  have jobs: "jobs_in DirPending u = jobs_in DirPending s" "jobs_in DirLeased u = jobs_in DirLeased s"
    using same by (simp_all add: jobs_in_def)
  have ended: "ended_jobs u \<subseteq> ended_jobs s" unfolding ended_jobs_def jobs_in_def using sub by (intro Un_mono image_mono)
  have idx: "sp_terminalIDs u = Some ids \<Longrightarrow> u = s" for ids
    using u by (auto simp: invalidateTerminal_def)
  show okt: "spool_ok (snd (SweepRetention stuck now s))"
    unfolding u_def [symmetric] spool_ok_def
  proof (intro conjI allI ballI impI)
    show "distinct (spool_names d u)" for d by (rule dist)
    show "name_fits d n" if "n \<in> set (spool_names d u)" for d n using that sub [of d] spool_okD(2) [OF ok] by blast
    show "inj_on file_job (set (spool_names DirLeased u))" using spool_okD(3) [OF ok] same by simp
    show "jobs_in DirPending u \<inter> jobs_in DirLeased u = {}" using spool_okD(4) [OF ok] jobs by auto
    show "(jobs_in DirPending u \<union> jobs_in DirLeased u) \<inter> ended_jobs u = {}"
      using spool_okD(5,6) [OF ok] jobs ended by auto
    show "j \<in> ids \<longleftrightarrow> j \<in> ended_jobs u" if "sp_terminalIDs u = Some ids" "job_name j" for ids j
      using spool_okD(7) [OF ok] idx [OF that(1)] that by simp
  qed
  show "forgotten (spool_view s) (spool_view (snd (SweepRetention stuck now s)))"
    unfolding u_def [symmetric] forgotten_def spool_view_def jobs same(2) using ended by (auto split: option.split)
qed

subsection \<open>The spool as a machine\<close>

datatype spool_op =
    SEnqueue gotime job
  | SCancelJob gotime job string
  | STryLease gotime string
  | SDefer gotime string
  | SPrune "string list"
  | SComplete spool_lease
  | SFail spool_lease
  | SCancelLease spool_lease
  | SRetry spool_lease
  | SRenew gotime spool_lease
  | SRecover
  | SReclaim gotime
  | SSweep "spool_entry \<Rightarrow> bool" gotime
  | SHasJob string
  | SConfigure dur int bool dur

fun spool_step :: "codec \<Rightarrow> spool_op \<Rightarrow> spool \<Rightarrow> spool" where
  "spool_step co (SEnqueue now job) s = spool_EnqueueJob co now job s"
| "spool_step co (SCancelJob now job reason) s = spool_CancelJob co now job reason s"
| "spool_step co (STryLease now name) s = snd (tryLease co now name s)"
| "spool_step co (SDefer now name) s = snd (notBeforeDeferred co now name s)"
| "spool_step co (SPrune names) s = pruneNotBefore names s"
| "spool_step co (SComplete l) s = CompleteLease l s"
| "spool_step co (SFail l) s = FailLease l s"
| "spool_step co (SCancelLease l) s = CancelLease l s"
| "spool_step co (SRetry l) s = RetryLease l s"
| "spool_step co (SRenew now l) s = snd (RenewSpoolLease now l s)"
| "spool_step co SRecover s = snd (RecoverOrphanLeases s)"
| "spool_step co (SReclaim now) s = snd (ReclaimExpiredLeases now s)"
| "spool_step co (SSweep stuck now) s = snd (SweepRetention stuck now s)"
| "spool_step co (SHasJob j) s = snd (HasJob j s)"
| "spool_step co (SConfigure ttl mx honor leaseTTL) s = SetLeaseTTL leaseTTL (SetHonorNotBefore honor (SetRetention ttl mx s))"

text \<open>Job identifiers have no dot; a lease is one that was granted.\<close>

fun spool_op_ok :: "spool_op \<Rightarrow> bool" where
  "spool_op_ok (SEnqueue now job) = job_name (job_ID job)"
| "spool_op_ok (SCancelJob now job reason) = job_name (job_ID job)"
| "spool_op_ok (SComplete l) = lease_ok l"
| "spool_op_ok (SFail l) = lease_ok l"
| "spool_op_ok (SCancelLease l) = lease_ok l"
| "spool_op_ok (SRetry l) = lease_ok l"
| "spool_op_ok (SHasJob j) = job_name j"
| "spool_op_ok _ = True"

definition settled :: "spool_lease \<Rightarrow> job_place \<Rightarrow> (string \<Rightarrow> job_place) \<Rightarrow> string \<Rightarrow> job_place" where
  "settled l p a = (if a (sl_JobID l) = JAssigned (sl_Path l) then a(sl_JobID l := p) else a)"

text \<open>The abstract steps.\<close>

fun spool_spec :: "spool_op \<Rightarrow> (string \<Rightarrow> job_place) \<Rightarrow> (string \<Rightarrow> job_place) \<Rightarrow> bool" where
  "spool_spec (SEnqueue now job) a b =
     (b = (if TerminalStatus (job_Status job) \<or> a (job_ID job) \<noteq> JAbsent then a else a(job_ID job := JQueued)))"
| "spool_spec (SCancelJob now job reason) a b = (b = a(job_ID job := JEnded))"
| "spool_spec (STryLease now name) a b =
     (b = a \<or> (\<exists>j. name = envelope_name j \<and> a j = JQueued \<and>
                   (b = a(j := JEnded) \<or> b = a(j := JAssigned (lease_name j (show_int (unix_nano now)))))))"
| "spool_spec (SComplete l) a b = (b = settled l JEnded a)"
| "spool_spec (SFail l) a b = (b = settled l JEnded a)"
| "spool_spec (SCancelLease l) a b = (b = settled l JEnded a)"
| "spool_spec (SRetry l) a b = (b = settled l JQueued a)"
| "spool_spec SRecover a b = requeued a b"
| "spool_spec (SReclaim now) a b = requeued a b"
| "spool_spec (SSweep stuck now) a b = forgotten a b"
| "spool_spec _ a b = (b = a)"

lemma spool_step_spec:
  assumes ok: "spool_ok s" and op: "spool_op_ok op"
  shows "spool_ok (spool_step co op s) \<and> spool_spec op (spool_view s) (spool_view (spool_step co op s))"
proof (cases op)
  case (SEnqueue now job)
  then show ?thesis using EnqueueJob_effect [OF ok, of job co now] op by simp
next
  case (SCancelJob now job reason)
  then show ?thesis using spool_CancelJob_effect [OF ok, of job co now reason] op by simp
next
  case (STryLease now name)
  obtain r t where "tryLease co now name s = (r, t)" by fastforce
  then show ?thesis by (cases rule: tryLease_effect [OF ok]) (use STryLease ok in auto)
next
  case (SDefer now name)
  have "spool_names d (snd (notBeforeDeferred co now name s)) = spool_names d s"
      "sp_terminalIDs (snd (notBeforeDeferred co now name s)) = sp_terminalIDs s" for d
    by (auto simp: notBeforeDeferred_def spool_names_def split: option.splits)
  then show ?thesis using spool_ok_cong [OF ok, of "snd (notBeforeDeferred co now name s)"] SDefer by simp
next
  case (SPrune names)
  have "spool_names d (pruneNotBefore names s) = spool_names d s" "sp_terminalIDs (pruneNotBefore names s) = sp_terminalIDs s" for d
    by (simp_all add: pruneNotBefore_def spool_names_def)
  then show ?thesis using spool_ok_cong [OF ok, of "pruneNotBefore names s"] SPrune by simp
next
  case (SRetry l)
  then show ?thesis using RetryLease_effect [OF ok, of l] op by (simp add: settled_def)
next
  case (SRenew now l)
  then show ?thesis using RenewSpoolLease_effect [OF ok, of now l] by simp
next
  case SRecover
  then show ?thesis using recoverLeases_effect(1,2) [OF ok, where expired = None] by (simp add: RecoverOrphanLeases_def)
next
  case (SReclaim now)
  then show ?thesis using recoverLeases_effect(1,2) [OF ok] ok by (simp add: ReclaimExpiredLeases_def requeued_refl)
next
  case (SSweep stuck now)
  then show ?thesis using SweepRetention_effect(1,2) [OF ok] by simp
next
  case (SHasJob j)
  obtain b t where "jobExistsInAnyState j s = (b, t)" by fastforce
  then show ?thesis using jobExistsInAnyState_effect [OF ok, of j b t] SHasJob op by (simp add: HasJob_def)
next
  case (SConfigure ttl mx honor leaseTTL)
  have "spool_names d (spool_step co op s) = spool_names d s" "sp_terminalIDs (spool_step co op s) = sp_terminalIDs s" for d
    by (simp_all add: SConfigure SetLeaseTTL_def SetHonorNotBefore_def SetRetention_def spool_names_def)
  then show ?thesis using spool_ok_cong [OF ok, of "spool_step co op s"] SConfigure by simp
qed (use op settle_effect [OF ok] in
     \<open>simp_all add: settled_def CompleteLease_def FailLease_def CancelLease_def terminal_dirs_def\<close>)

interpretation spool_machine: guarded_machine "spool_step co" spool_op_ok spool_ok "\<lambda>_ _. True" for co
  by unfold_locales (use spool_step_spec in auto)

text \<open>C13. The spool refines the map of job places: after any operations each further one is its abstract
  step. So an enqueued job is in exactly one place, a lease settles only the job it was granted
  for and only while it still holds it, and only retention forgets jobs, ended ones.
\<close>

theorem spool_refines_job_places:
  assumes "list_all spool_op_ok ops" "spool_op_ok op"
  shows "spool_spec op (spool_view (fold (spool_step co) ops NewFileSpoolDispatcher))
           (spool_view (fold (spool_step co) (ops @ [op]) NewFileSpoolDispatcher))"
  using spool_step_spec [OF _ assms(2)] spool_machine.guarded_run [OF spool_ok_new assms(1)] by simp

text \<open>
  Once \<open>CancelJob\<close> returned, the job is not queued and not leased, whatever is enqueued, leased,
  retried or recovered afterwards, until retention removes its files.
\<close>

definition no_sweep :: "spool_op \<Rightarrow> bool" where
  "no_sweep op = (spool_op_ok op \<and> (case op of SSweep stuck now \<Rightarrow> False | _ \<Rightarrow> True))"

lemma requeued_ended: "requeued a b \<Longrightarrow> a j = JEnded \<Longrightarrow> b j = JEnded"
  unfolding requeued_def by (metis job_place.distinct(11))

lemma ended_place_stays:
  assumes "spool_ok s" "spool_view s j = JEnded" "no_sweep op"
  shows "spool_view (spool_step co op s) j = JEnded"
  using spool_step_spec [OF assms(1), of op co] assms(2,3)
  by (cases op) (auto simp: no_sweep_def settled_def intro: requeued_ended split: if_splits)

interpretation ended_machine: guarded_machine "spool_step co" no_sweep "\<lambda>s. spool_ok s \<and> spool_view s j = JEnded" "\<lambda>_ _. True"
  for co j
  by unfold_locales (use ended_place_stays spool_step_spec in \<open>auto simp: no_sweep_def\<close>)

text \<open>C18. Once \<open>CancelJob\<close> has run for a job, the job's place is among the ended ones and no later
  operation puts it back: not a second enqueue, not the retry or renewal of a lease a worker
  still holds, not the recovery of leases. Only the retention sweep, left out here, forgets it.
\<close>

theorem cancelled_job_stays_off_the_queue:
  assumes "list_all spool_op_ok ops" "job_name (job_ID job)" "list_all no_sweep later"
  shows "spool_view (fold (spool_step co) (ops @ [SCancelJob now job reason] @ later) NewFileSpoolDispatcher) (job_ID job) = JEnded"
proof -
  let ?s = "fold (spool_step co) ops NewFileSpoolDispatcher"
  have ok: "spool_ok ?s" using spool_machine.guarded_run [OF spool_ok_new assms(1)] by blast
  have "spool_ok (spool_CancelJob co now job reason ?s) \<and> spool_view (spool_CancelJob co now job reason ?s) (job_ID job) = JEnded"
    using spool_CancelJob_effect [OF ok assms(2)] by simp
  from ended_machine.guarded_run [OF this assms(3)] show ?thesis by simp
qed

subsection \<open>Leases are granted oldest first\<close>

lemma first_min_least:
  assumes "ns = drop i names" "i \<le> length names" "first < length names" "\<forall>x \<in> set (take i names). names ! first \<le> x"
  shows "first_min names first i ns < length names \<and> (\<forall>x \<in> set names. names ! first_min names first i ns \<le> x)"
  using assms
proof (induction ns arbitrary: first i)
  case Nil
  then show ?case by simp
next
  case (Cons n ns)
  have i: "i < length names" using Cons.prems(1) by (metis drop_all list.distinct(1) not_less)
  then have n: "n = names ! i" "ns = drop (Suc i) names" using Cons.prems(1) by (metis Cons_nth_drop_Suc list.inject)+
  let ?f = "if n < names ! first then i else first"
  have "\<forall>x \<in> set (take (Suc i) names). names ! ?f \<le> x"
    using Cons.prems(4) i n by (auto simp: take_Suc_conv_app_nth)
  with Cons.IH [of "Suc i" ?f] n i Cons.prems(3) show ?case by auto
qed

text \<open>The single-pass minimum and the lazy sort list the names in order.\<close>

lemma lease_order_sorted: "lease_order names = sort names"
proof (cases names)
  case (Cons n0 ns)
  define f where "f = first_min names 0 0 names"
  define sw where "sw = names[0 := names ! f, f := n0]"
  have f: "f < length names" "\<forall>x \<in> set names. names ! f \<le> x"
    using first_min_least [of names 0 names 0] Cons by (auto simp: f_def)
  have m: "mset sw = mset names"
    using mset_swap [of f names 0] f(1) Cons by (simp add: sw_def)
  then have ne: "sw \<noteq> []" using Cons by auto
  have "hd sw = names ! f" using Cons f(1) by (cases f) (simp_all add: sw_def)
  then have h: "\<forall>x \<in> set sw. hd sw \<le> x" using f(2) mset_eq_setD [OF m] by simp
  have "sorted (hd sw # sort (tl sw))" using h by (auto dest: list.set_sel(2) [OF ne])
  moreover have "mset (hd sw # sort (tl sw)) = mset names" using m ne by (cases sw) auto
  ultimately have "sort names = hd sw # sort (tl sw)" by (intro properties_for_sort) auto
  then show ?thesis using Cons by (simp add: lease_order_def f_def sw_def Let_def)
qed (simp add: lease_order_def)

lemma tryLease_not_lost:
  assumes "spool_ok s" "name \<in> set (spool_names DirPending s)" "tryLease co now name s = (r, t)"
  shows "r \<noteq> LeaseLost"
  by (cases rule: tryLease_effect [OF assms(1,3)]) (use assms(2) in auto)

lemma LeaseNext_oldest:
  assumes ok: "spool_ok s" and off: "\<not> sp_honorNotBefore s"
  shows "spool_LeaseNext (\<lambda>_ s. s) co now claim s =
    (if spool_names DirPending s = [] then (LeaseLost, s)
     else let oldest = Min (set (spool_names DirPending s)) in tryLease co (claim oldest) oldest s)"
proof -
  let ?ns = "sort (spool_names DirPending s)"
  have "suffix json_ext n" if "n \<in> set (spool_names DirPending s)" for n
    using spool_okD(2) [OF ok that] by (auto simp: pending_ok_def envelope_name_def suffix_def)
  then have f: "filter (suffix json_ext) ?ns = ?ns" by (simp add: filter_id_conv)
  show ?thesis
  proof (cases ?ns)
    case Nil
    then have "spool_names DirPending s = []" by (metis set_sort set_empty)
    then show ?thesis by (simp add: spool_LeaseNext_def)
  next
    case (Cons n ns)
    have n: "n \<in> set (spool_names DirPending s)" "\<forall>x \<in> set (spool_names DirPending s). n \<le> x"
    proof -
      have "sorted (n # ns)" "set (n # ns) = set (spool_names DirPending s)"
        using sorted_sort [of "spool_names DirPending s"] set_sort [where f = "\<lambda>x. x" and xs = "spool_names DirPending s"] unfolding Cons by blast+
      then show "n \<in> set (spool_names DirPending s)" "\<forall>x \<in> set (spool_names DirPending s). n \<le> x" by auto
    qed
    then have m: "Min (set (spool_names DirPending s)) = n" by (intro Min_eqI) auto
    obtain r t where t: "tryLease co (claim n) n s = (r, t)" by fastforce
    have "r \<noteq> LeaseLost" by (rule tryLease_not_lost [OF ok n(1) t])
    then have "try_leases (\<lambda>_ s. s) co now claim (n # ns) s = (r, t)"
      using t off by (cases r) simp_all
    moreover have "sort (n # ns) = n # ns" using sorted_sort [of "spool_names DirPending s"] unfolding Cons by (rule sorted_sort_id)
    ultimately have "spool_LeaseNext (\<lambda>_ s. s) co now claim s = (r, t)"
      using off unfolding spool_LeaseNext_def f unfolding Cons lease_order_sorted by (simp del: try_leases.simps)
    moreover have "spool_names DirPending s \<noteq> []" using n(1) by auto
    ultimately show ?thesis using m t by (simp add: Let_def)
  qed
qed

text \<open>With scheduling off, and nobody else at work between the listing and the claim, \<open>LeaseNext\<close>
  claims the oldest pending envelope (the least name; job identifiers are numbered), and it
  answers that the queue is empty only when it is.
\<close>

theorem oldest_envelope_first:
  assumes "list_all spool_op_ok ops" "s = fold (spool_step co) ops NewFileSpoolDispatcher" "\<not> sp_honorNotBefore s"
  shows "spool_LeaseNext (\<lambda>_ s. s) co now claim s =
    (if spool_names DirPending s = [] then (LeaseLost, s)
     else let oldest = Min (set (spool_names DirPending s)) in tryLease co (claim oldest) oldest s)"
proof -
  have "spool_ok s" using spool_machine.guarded_run [OF spool_ok_new assms(1)] assms(2) by simp
  then show ?thesis using assms(3) by (rule LeaseNext_oldest)
qed

text \<open>Whatever else runs in between, leasing is a run of the steps above.\<close>

lemma try_leases_run:
  "\<exists>ops. snd (try_leases (\<lambda>n s. fold (spool_step co) (other n) s) co now claim names s) = fold (spool_step co) ops s
     \<and> (\<forall>op \<in> set ops. spool_op_ok op \<or> (\<exists>n. op \<in> set (other n)))"
proof (induction names arbitrary: s)
  case Nil
  show ?case by (intro exI [of _ "[]"]) simp
next
  case (Cons n ns)
  let ?step = "spool_step co" and ?leases = "try_leases (\<lambda>n s. fold (spool_step co) (other n) s) co now claim"
  let ?d = "if sp_honorNotBefore s then [SDefer now n] else []"
  define s1 where "s1 = fold ?step ?d s"
  obtain b where b: "(if sp_honorNotBefore s then notBeforeDeferred co now n s else (False, s)) = (b, s1)"
    by (cases "sp_honorNotBefore s"; cases "notBeforeDeferred co now n s") (auto simp: s1_def)
  show ?case
  proof (cases b)
    case True
    obtain ops where "snd (?leases ns s1) = fold ?step ops s1" "\<forall>op \<in> set ops. spool_op_ok op \<or> (\<exists>n. op \<in> set (other n))"
      using Cons.IH by blast
    then show ?thesis using b True by (intro exI [of _ "?d @ ops"]) (auto simp: s1_def)
  next
    case False
    obtain r t where t: "tryLease co (claim n) n (fold ?step (other n) s1) = (r, t)" by fastforce
    then have t': "t = fold ?step (?d @ other n @ [STryLease (claim n) n]) s" by (simp add: s1_def)
    show ?thesis
    proof (cases "r = LeaseLost")
      case True
      obtain ops where "snd (?leases ns t) = fold ?step ops t" "\<forall>op \<in> set ops. spool_op_ok op \<or> (\<exists>n. op \<in> set (other n))"
        using Cons.IH by blast
      then show ?thesis using b False t t' True
        by (intro exI [of _ "(?d @ other n @ [STryLease (claim n) n]) @ ops"]) auto
    next
      case lost: False
      then have "snd (?leases (n # ns) s) = t" using b False t by (cases r) auto
      then show ?thesis using t' by (intro exI [of _ "?d @ other n @ [STryLease (claim n) n]"]) auto
    qed
  qed
qed

subsection \<open>A lease is kept while it is renewed\<close>

lemma leaseLiveness_ge: "m \<le> leaseLiveness name m"
  by (auto simp: leaseLiveness_def Let_def split: option.split prod.split)

lemma fs_find_renewed:
  "RenewSpoolLease t l s = (True, s') \<Longrightarrow> 0 < sp_leaseTTL s \<Longrightarrow>
     \<exists>f. fs_find DirLeased (sl_Path l) s' = Some f \<and> sf_Modified f = t \<and> sp_leaseTTL s' = sp_leaseTTL s"
  by (auto simp: RenewSpoolLease_def fs_put_def fs_find_def update_conv' split: option.splits)

text \<open>With a lease time to live, a sweep for expired leases takes a lease back exactly when its time
  to live has passed since it was granted or last renewed; so a holder that renews in time keeps
  it, and one whose lease was taken back learns it at its next renewal.
\<close>

theorem lease_is_kept_while_renewed:
  assumes "list_all spool_op_ok ops" "s = fold (spool_step co) ops NewFileSpoolDispatcher" "0 < sp_leaseTTL s"
  shows "(case fs_find DirLeased (sl_Path l) s of
        None \<Rightarrow> RenewSpoolLease t l s = (False, s)
      | Some f \<Rightarrow>
          fst (RenewSpoolLease t l s) \<and>
          (fs_find DirLeased (sl_Path l) (snd (ReclaimExpiredLeases now s)) =
             (if sp_leaseTTL s < now - leaseLiveness (sl_Path l) (sf_Modified f) then None else Some f)) \<and>
          (now \<le> t + sp_leaseTTL s \<longrightarrow>
             fs_find DirLeased (sl_Path l) (snd (ReclaimExpiredLeases now (snd (RenewSpoolLease t l s)))) \<noteq> None))"
proof -
  have ok: "spool_ok s" using spool_machine.guarded_run [OF spool_ok_new assms(1)] assms(2) by simp
  show ?thesis
  proof (cases "fs_find DirLeased (sl_Path l) s")
    case None
    then show ?thesis using assms(3) by (simp add: RenewSpoolLease_def)
  next
    case (Some f)
    obtain s' where r: "RenewSpoolLease t l s = (True, s')" using Some assms(3) by (simp add: RenewSpoolLease_def)
    obtain g where g: "fs_find DirLeased (sl_Path l) s' = Some g" "sf_Modified g = t" "sp_leaseTTL s' = sp_leaseTTL s"
      using fs_find_renewed [OF r assms(3)] by blast
    have ok': "spool_ok s'" using RenewSpoolLease_effect(1) [OF ok, of t l] r by simp
    have "now \<le> t + sp_leaseTTL s \<Longrightarrow> \<not> sp_leaseTTL s < now - leaseLiveness (sl_Path l) (sf_Modified g)"
      using leaseLiveness_ge [of "sf_Modified g" "sl_Path l"] g(2) by linarith
    then have "now \<le> t + sp_leaseTTL s \<Longrightarrow> fs_find DirLeased (sl_Path l) (snd (ReclaimExpiredLeases now s')) = Some g"
      using recoverLeases_effect(3) [OF ok' g(1)] assms(3) g(3)
      by (simp add: ReclaimExpiredLeases_def recover_test_def)
    moreover have "fs_find DirLeased (sl_Path l) (snd (ReclaimExpiredLeases now s)) =
             (if sp_leaseTTL s < now - leaseLiveness (sl_Path l) (sf_Modified f) then None else Some f)"
      using recoverLeases_effect(3) [OF ok Some] assms(3) by (simp add: ReclaimExpiredLeases_def recover_test_def)
    ultimately show ?thesis using Some r by simp
  qed
qed

subsection \<open>Retention is exact\<close>

lemma terminal_entries_iff:
  assumes "\<forall>d. distinct (spool_names d s)"
  shows "(d, n, m) \<in> set (terminal_entries s) \<longleftrightarrow>
    d \<in> set terminal_dirs \<and> suffix json_ext n \<and> (\<exists>f. fs_find d n s = Some f \<and> sf_Modified f = m)"
proof -
  have "distinct (map fst (sp_dirs s d))" using assms by (simp add: spool_names_def)
  then have "fs_find d n s = Some f \<longleftrightarrow> (n, f) \<in> set (sp_dirs s d)" for f
    by (simp add: fs_find_def)
  then show ?thesis by (force simp: terminal_entries_def)
qed

lemma fs_find_fold_del:
  "(\<forall>m. (d, n, m) \<notin> set ds) \<Longrightarrow> fs_find d n (fold del_entry ds s) = fs_find d n s"
proof (induction ds arbitrary: s)
  case (Cons e ds)
  obtain a b m where e: "e = (a, b, m)" by (cases e)
  then have "fs_find d n (del_entry e s) = fs_find d n s" using Cons.prems by (force simp: del_entry_def)
  then show ?case using Cons by simp
qed simp

lemma terminal_entries_fold_del:
  assumes "\<forall>d. distinct (spool_names d s)" "set ds \<subseteq> set (terminal_entries s)"
  shows "set (terminal_entries (fold del_entry ds s)) = set (terminal_entries s) - set ds"
proof -
  have d': "\<forall>d. distinct (spool_names d (fold del_entry ds s))" using fold_del_frame(2) [OF assms(1)] by blast
  have "(d, n, m) \<in> set (terminal_entries (fold del_entry ds s)) \<longleftrightarrow>
      (d, n, m) \<in> set (terminal_entries s) \<and> (d, n, m) \<notin> set ds" for d n m
  proof (cases "\<exists>m'. (d, n, m') \<in> set ds")
    case True
    then obtain m' where m': "(d, n, m') \<in> set ds" by blast
    then have "fs_find d n (fold del_entry ds s) = None"
      using fold_del_names [of d ds s] by (auto simp: fs_find_iff)
    moreover have "(d, n, m) \<in> set (terminal_entries s) \<Longrightarrow> m = m'"
      using m' assms(2) terminal_entries_iff [OF assms(1), of d n] by auto
    ultimately show ?thesis using m' terminal_entries_iff [OF d', of d n m] by auto
  next
    case False
    then show ?thesis
      using fs_find_fold_del [of d n ds s] terminal_entries_iff [OF d', of d n m] terminal_entries_iff [OF assms(1), of d n m] by auto
  qed
  then show ?thesis by auto
qed

lemma distinct_terminal_entries:
  assumes "\<forall>d. distinct (spool_names d s)"
  shows "distinct (terminal_entries s)"
proof -
  have "distinct (map (\<lambda>(name, f). (d, name, sf_Modified f)) (filter (\<lambda>(name, _). suffix json_ext name) (sp_dirs s d)))" for d
  proof -
    have "distinct (map fst (sp_dirs s d))" using assms by (simp add: spool_names_def)
    then have "distinct (map fst (filter (\<lambda>(name, _). suffix json_ext name) (sp_dirs s d)))" by (rule distinct_map_filter)
    then show ?thesis by (auto simp: distinct_map inj_on_def)
  qed
  then show ?thesis by (auto simp: terminal_entries_def terminal_dirs_def)
qed

text \<open>One pass of the retention sweep (in which no deletion fails), over the terminal envelopes
  oldest first: what it deletes is a prefix; of what it keeps nothing is older than the time to
  live and there are no more than the cap; and the last one deleted did break a bound.
\<close>

theorem retention_is_exact:
  assumes "list_all spool_op_ok ops" "s = fold (spool_step co) ops NewFileSpoolDispatcher"
    "es = sort_key (\<lambda>e. (entry_modified e, entry_path e)) (terminal_entries s)"
    "SweepRetention (\<lambda>_. False) now s = (k, t)"
  shows "k \<le> length es \<and> set (terminal_entries t) = set (drop k es)
    \<and> list_all (\<lambda>e. sp_retentionTTL s \<le> 0 \<or> now - entry_modified e \<le> sp_retentionTTL s) (drop k es)
    \<and> (0 < sp_retentionMax s \<longrightarrow> int (length (drop k es)) \<le> sp_retentionMax s)
    \<and> (k = 0 \<or> over_bound (sp_retentionTTL s) (sp_retentionMax s) now (length es) (k - 1) (es ! (k - 1)))"
proof -
  have ok: "spool_ok s" using spool_machine.guarded_run [OF spool_ok_new assms(1)] assms(2) by simp
  then have di: "\<forall>d. distinct (spool_names d s)" using spool_okD(1) by blast
  let ?ttl = "sp_retentionTTL s" and ?mx = "sp_retentionMax s"
  have es: "set es = set (terminal_entries s)" "distinct es" "sorted (map (\<lambda>e. (entry_modified e, entry_path e)) es)"
    using assms(3) distinct_terminal_entries [OF di] by (simp_all add: distinct_sort)
  show ?thesis
  proof (cases "0 < ?ttl \<or> 0 < ?mx")
    case False
    then have "k = 0" "t = s" using assms(4) by (simp_all add: SweepRetention_def)
    then show ?thesis using es False by (simp add: list_all_iff)
  next
    case True
    obtain j where j: "j \<le> length es"
        "sweep_each (\<lambda>_. False) ?ttl ?mx now (length es) 0 es (0, s) = (0 + j, fold del_entry (take j es) s)"
        "\<forall>i < j. over_bound ?ttl ?mx now (length es) (0 + i) (es ! i)"
        "j < length es \<longrightarrow> \<not> over_bound ?ttl ?mx now (length es) (0 + j) (es ! j)"
      using sweep_each_prefix by blast
    have k: "k = j" and dirs: "sp_dirs t = sp_dirs (fold del_entry (take j es) s)"
      using assms(3,4) j(2) True by (auto simp: SweepRetention_def Let_def split: if_splits)
    have "terminal_entries t = terminal_entries (fold del_entry (take j es) s)" by (simp add: terminal_entries_def dirs)
    then have "set (terminal_entries t) = set es - set (take j es)"
      using terminal_entries_fold_del [OF di, of "take j es"] es(1) set_take_subset [of j es] by auto
    also have "\<dots> = set (drop j es)"
    proof -
      have "set es = set (take j es) \<union> set (drop j es)" by (metis append_take_drop_id set_append)
      then show ?thesis using set_take_disj_set_drop_if_distinct [OF es(2), of j j] by auto
    qed
    finally have kept: "set (terminal_entries t) = set (drop j es)" .
    have old: "?ttl \<le> 0 \<or> now - entry_modified e \<le> ?ttl" if "e \<in> set (drop j es)" for e
    proof -
      obtain i where "i < length (drop j es)" "e = drop j es ! i" using \<open>e \<in> _\<close> by (auto simp: in_set_conv_nth)
      then have i: "j + i < length es" "e = es ! (j + i)" by simp_all
      then have "(entry_modified (es ! j), entry_path (es ! j)) \<le> (entry_modified e, entry_path e)"
        using sorted_nth_mono [OF es(3), of j "j + i"] by simp
      then have "entry_modified (es ! j) \<le> entry_modified e" by (auto simp: less_eq_prod_def)
      moreover have "\<not> (0 < ?ttl \<and> ?ttl < now - entry_modified (es ! j))" using j(4) i(1) by (auto simp: over_bound_def)
      ultimately show ?thesis by auto
    qed
    have "0 < ?mx \<longrightarrow> int (length (drop j es)) \<le> ?mx"
      using j(4) by (cases "j < length es") (auto simp: over_bound_def)
    moreover have "j = 0 \<or> over_bound ?ttl ?mx now (length es) (j - 1) (es ! (j - 1))" using j(3) by (cases j) auto
    ultimately show ?thesis using k kept old j(1) by (auto simp: list_all_iff)
  qed
qed

subsection \<open>Witnesses\<close>

definition wit_job :: job where
  "wit_job = snd (Create wit_request (NewMemoryStore wit_clock))"

definition wit_codec :: codec where
  "wit_codec = \<lparr>co_encode = ev_JobID, co_decode = (\<lambda>_. Some (EnvelopeFromJob wit_job)), co_not_before = (\<lambda>_. None),
                co_marker = (\<lambda>_ reason _. reason)\<rparr>"

lemma job_name_ident [simp]: "job_name (job_ident n)"
proof -
  have "CHR ''.'' \<notin> set (replicate k (CHR ''0''))" for k by (induction k) auto
  then show ?thesis using digits_no_dot [of n] by (simp add: job_name_def job_ident_def pad12_def)
qed

lemma wit_job_name [simp]: "job_name (job_ID wit_job)"
  by (simp add: wit_job_def Create_def Let_def NewMemoryStore_def)

lemma spool_refines_job_places_witness:
  "spool_spec (STryLease 6 (envelope_name (job_ID wit_job)))
     (spool_view (fold (spool_step wit_codec) [SEnqueue 5 wit_job] NewFileSpoolDispatcher))
     (spool_view (fold (spool_step wit_codec) ([SEnqueue 5 wit_job] @ [STryLease 6 (envelope_name (job_ID wit_job))]) NewFileSpoolDispatcher))"
  by (rule spool_refines_job_places) simp_all

lemma cancelled_job_stays_off_the_queue_witness:
  "spool_view (fold (spool_step wit_codec) ([SEnqueue 5 wit_job] @ [SCancelJob 6 wit_job ''stop''] @ [SEnqueue 7 wit_job, SRecover])
     NewFileSpoolDispatcher) (job_ID wit_job) = JEnded"
  by (rule cancelled_job_stays_off_the_queue) (simp_all add: no_sweep_def)

definition wit_time :: "int \<Rightarrow> gotime" where
  "wit_time n = 62135596800 * second + n"

definition wit_queued :: spool where
  "wit_queued = fold (spool_step wit_codec) [SConfigure 10 0 False 5, SEnqueue (wit_time 5) wit_job] NewFileSpoolDispatcher"

definition wit_spool :: spool where
  "wit_spool = fold (spool_step wit_codec) [SConfigure 10 0 False 5, SEnqueue (wit_time 5) wit_job,
     STryLease (wit_time 6) (envelope_name (job_ID wit_job))] NewFileSpoolDispatcher"

definition wit_lease :: spool_lease where
  "wit_lease = \<lparr>sl_JobID = job_ID wit_job, sl_LeaseID = ''6'', sl_Path = ''job_000000000001.6.json'',
     sl_Envelope = EnvelopeFromJob wit_job, sl_LeasedAt = wit_time 6\<rparr>"

lemma wit_evaluated:
  "job_ID wit_job = ''job_000000000001''" "ev_JobID (EnvelopeFromJob wit_job) = ''job_000000000001''"
  "TerminalStatus (job_Status wit_job) = False" "show_int (unix_nano (wit_time 6)) = ''6''"
  by code_simp+

lemma wit_queued_dirs:
  "wit_queued = NewFileSpoolDispatcher\<lparr>sp_dirs := (\<lambda>_. [])(DirPending := [(''job_000000000001.json'',
       \<lparr>sf_Modified = wit_time 5, sf_Raw = ''job_000000000001'' @ [CHR 0x0A]\<rparr>)]), sp_terminalIDs := Some {}, sp_leaseTTL := 5,
       sp_retentionTTL := 10, sp_wake := True\<rparr>"
  by (simp add: wit_queued_def spool_EnqueueJob_def wit_evaluated NewFileSpoolDispatcher_def SetRetention_def SetHonorNotBefore_def
      SetLeaseTTL_def jobExistsInAnyState_def findJobPath_def fs_find_def spool_names_def jobExistsInTerminalState_def
      load_terminal_def terminal_dirs_def envelope_name_def json_ext_def wit_codec_def fs_put_def notifyEnqueue_def)

lemma wit_spool_dirs:
  "wit_spool = wit_queued\<lparr>sp_dirs := (\<lambda>_. [])(DirLeased := [(''job_000000000001.6.json'',
       \<lparr>sf_Modified = wit_time 5, sf_Raw = ''job_000000000001'' @ [CHR 0x0A]\<rparr>)])\<rparr>"
proof -
  have "wit_spool = snd (tryLease wit_codec (wit_time 6) ''job_000000000001.json'' wit_queued)"
    by (simp add: wit_spool_def wit_queued_def wit_evaluated envelope_name_def json_ext_def)
  also have "\<dots> = wit_queued\<lparr>sp_dirs := (\<lambda>_. [])(DirLeased := [(''job_000000000001.6.json'',
       \<lparr>sf_Modified = wit_time 5, sf_Raw = ''job_000000000001'' @ [CHR 0x0A]\<rparr>)])\<rparr>"
    by (simp add: tryLease_def Let_def fun_upd_idem cut_suffix_def json_ext_def suffix_def lease_name_def wit_evaluated fs_rename_def fs_find_def
        wit_queued_dirs NewFileSpoolDispatcher_def fs_put_def fs_del_def maxSpoolEnvelopeBytes_def wit_codec_def)
  finally show ?thesis .
qed

lemma wit_spool_ttl: "sp_leaseTTL wit_spool = 5" "\<not> sp_honorNotBefore wit_spool"
  by (simp_all add: wit_spool_dirs wit_queued_dirs NewFileSpoolDispatcher_def)

lemma wit_spool_leased: "fs_find DirLeased (sl_Path wit_lease) wit_spool \<noteq> None"
  by (simp add: wit_lease_def wit_spool_dirs fs_find_def)

lemma oldest_envelope_first_witness:
  "spool_LeaseNext (\<lambda>_ s. s) wit_codec 6 (\<lambda>_. 6) wit_spool =
    (if spool_names DirPending wit_spool = [] then (LeaseLost, wit_spool)
     else let oldest = Min (set (spool_names DirPending wit_spool)) in tryLease wit_codec 6 oldest wit_spool)"
  by (rule oldest_envelope_first [OF _ wit_spool_def wit_spool_ttl(2)]) simp

lemma lease_is_kept_while_renewed_witness:
  "fst (RenewSpoolLease (wit_time 9) wit_lease wit_spool) \<and>
   fs_find DirLeased (sl_Path wit_lease) (snd (ReclaimExpiredLeases (wit_time 14) (snd (RenewSpoolLease (wit_time 9) wit_lease wit_spool)))) \<noteq> None"
proof -
  obtain f where f: "fs_find DirLeased (sl_Path wit_lease) wit_spool = Some f" using wit_spool_leased by auto
  have "0 < sp_leaseTTL wit_spool" using wit_spool_ttl(1) by simp
  from lease_is_kept_while_renewed [OF _ wit_spool_def this, where l = wit_lease and t = "wit_time 9" and now = "wit_time 14"] f wit_spool_ttl(1)
  show ?thesis by (simp add: wit_time_def)
qed

definition wit_swept :: spool where
  "wit_swept = fold (spool_step wit_codec) [SConfigure 10 0 False 0, SCancelJob 5 wit_job ''stop''] NewFileSpoolDispatcher"

lemma retention_is_exact_witness:
  "fst (SweepRetention (\<lambda>_. False) 100 wit_swept) = 1 \<and> terminal_entries (snd (SweepRetention (\<lambda>_. False) 100 wit_swept)) = []"
proof -
  have n: "length (terminal_entries wit_swept) = 1" "fst (SweepRetention (\<lambda>_. False) 100 wit_swept) = 1" by code_simp+
  have "set (terminal_entries (snd (SweepRetention (\<lambda>_. False) 100 wit_swept))) = {}"
    using retention_is_exact [OF _ wit_swept_def refl surjective_pairing, of 100] n by simp
  then show ?thesis using n(2) by simp
qed

end
