(* ===== verification/ConsumerInv.thy ===== *)
theory ConsumerInv
  imports Consumer SpoolProps JobProps
begin

text \<open>
  What each stage of the consumer does to the lease it holds and to the job behind it: every way
  a lease ends is a move of its file, and every stage is summarised by where the job's envelope
  is afterwards and whether the job has ended in the store.
\<close>

subsection \<open>The state a stage works in\<close>

definition ended_in :: "string \<Rightarrow> memory_store \<Rightarrow> bool" where
  "ended_in j m = (\<exists>job. ms_jobs m j = Some job \<and> TerminalStatus (job_Status job))"

definition lease_attempt :: "run_once \<Rightarrow> spool_lease \<Rightarrow> string option" where
  "lease_attempt ro l = (if ro_attemptIDs ro then Some (attemptIDForLease (ro_digest ro) (sl_LeaseID l)) else None)"

definition failure_ident :: "run_once \<Rightarrow> spool_lease \<Rightarrow> string" where
  "failure_ident ro l =
     ''gateway_worker_failure:'' @ sl_JobID l @ '':'' @ sl_LeaseID l @
     (case lease_attempt ro l of None \<Rightarrow> [] | Some a \<Rightarrow> '':'' @ a)"

definition failure_key :: "run_once \<Rightarrow> spool_lease \<Rightarrow> string" where
  "failure_key ro l = ''id:'' @ failure_ident ro l"

text \<open>The envelope a lease is run with.\<close>

definition envelope_for :: "run_once \<Rightarrow> spool_lease \<Rightarrow> envelope \<Rightarrow> bool" where
  "envelope_for ro l e = (ev_JobID e = sl_JobID l \<and> ev_Attempt e = lease_attempt ro l)"

definition job_of :: "envelope \<Rightarrow> memory_store \<Rightarrow> bool" where
  "job_of e m =
     (\<exists>job. ms_jobs m (ev_JobID e) = Some job \<and> job_APIVersion job = ev_APIVersion e \<and> job_TraceID job = ev_TraceID e)"

definition store_fit :: "run_once \<Rightarrow> spool_lease \<Rightarrow> envelope \<Rightarrow> memory_store \<Rightarrow> bool" where
  "store_fit ro l e m = (store_ok m \<and> job_of e m \<and> failure_key ro l \<notin> ms_eventKey m (sl_JobID l))"

definition lease_held :: "spool_lease \<Rightarrow> spool \<Rightarrow> bool" where
  "lease_held l s = (spool_ok s \<and> lease_ok l \<and> spool_view s (sl_JobID l) = JAssigned (sl_Path l))"

definition holding :: "run_once \<Rightarrow> spool_lease \<Rightarrow> envelope \<Rightarrow> consumer \<Rightarrow> bool" where
  "holding ro l e c = (lease_held l (cn_Spool c) \<and> store_fit ro l e (cn_Jobs c))"

text \<open>
  Other goroutines that leave the lease to its holder: they may do anything to the job's status
  and to every other job, but they do not take the lease's file away, nor delete the job, nor
  record the failure event of this lease, nor run the job.
\<close>

definition peaceful :: "run_once \<Rightarrow> spool_lease \<Rightarrow> (consumer \<Rightarrow> consumer) \<Rightarrow> bool" where
  "peaceful ro l f = (\<forall>e c. holding ro l e c \<longrightarrow> holding ro l e (f c) \<and> cn_Ran (f c) = cn_Ran c)"

lemma attempt_not_blank: "lease_attempt ro l = Some a \<Longrightarrow> a \<noteq> []"
  by (auto simp: lease_attempt_def attemptIDForLease_def split: if_splits)

lemma failureEventID_lease: "envelope_for ro l e \<Longrightarrow> failureEventID (sl_JobID l) (sl_LeaseID l) e = failure_ident ro l"
  using attempt_not_blank [of ro l]
  by (auto simp: envelope_for_def failureEventID_def failure_ident_def split: option.split)

lemma leased_envelope_for:
  assumes "job_ID job = sl_JobID l"
  shows "envelope_for ro l (leased_envelope ro l job)"
    "ev_APIVersion (leased_envelope ro l job) = job_APIVersion job" "ev_TraceID (leased_envelope ro l job) = job_TraceID job"
  using assms by (simp_all add: envelope_for_def leased_envelope_def lease_attempt_def EnvelopeFromJobWithConversation_def Let_def)

lemma failure_event_key: "envelope_for ro l e \<Longrightarrow> workerEventKey (failure_event ro l e err timed) = failure_key ro l"
  by (simp add: failure_event_def workerEventKey_def failureEventID_lease failure_key_def) (simp add: failure_ident_def)

lemma key_of_other_event: "we_EventID ev \<noteq> failure_ident ro l \<Longrightarrow> workerEventKey ev \<noteq> failure_key ro l"
  by (auto simp: workerEventKey_def failure_key_def)

subsection \<open>Worker events keep the state fit\<close>

lemma ApplyWorkerEvent_keys:
  assumes "store_ok m"
  shows "ms_eventKey (fst (ApplyWorkerEvent env e m)) x \<subseteq> insert (workerEventKey e) (ms_eventKey m x)"
proof (cases "ms_jobs m (we_JobID e)")
  case None
  then show ?thesis by (auto simp: ApplyWorkerEvent_def split: option.split)
next
  case (Some job)
  obtain m' job' r where a: "applyWorkerEventLocked env m job e = (m', job', r)"
    by (cases "applyWorkerEventLocked env m job e")
  have "ms_eventKey m' x \<subseteq> insert (workerEventKey e) (ms_eventKey m x)"
    using a by (cases rule: apply_cases) (auto simp: take_key_def)
  then show ?thesis using a Some by (auto simp: ApplyWorkerEvent_def split: option.split)
qed

lemma store_le_job_of:
  assumes "store_le m m'" "job_of e m"
  shows "job_of e m'"
proof -
  obtain job where j: "ms_jobs m (ev_JobID e) = Some job" "job_APIVersion job = ev_APIVersion e" "job_TraceID job = ev_TraceID e"
    using assms(2) by (auto simp: job_of_def)
  then obtain j' where "ms_jobs m' (ev_JobID e) = Some j'" "job_le job j'" using assms(1) unfolding store_le_def by blast
  moreover from this(2) have "job_APIVersion j' = job_APIVersion job" "job_TraceID j' = job_TraceID job"
    by (cases job; cases j'; simp add: job_le_def)+
  ultimately show ?thesis using j by (auto simp: job_of_def)
qed

lemma store_fit_apply:
  assumes "store_fit ro l e m" "workerEventKey ev \<noteq> failure_key ro l"
  shows "store_fit ro l e (fst (ApplyWorkerEvent env ev m))"
proof -
  have m: "store_ok m" "job_of e m" "failure_key ro l \<notin> ms_eventKey m (sl_JobID l)" using assms(1) by (auto simp: store_fit_def)
  have "failure_key ro l \<notin> ms_eventKey (fst (ApplyWorkerEvent env ev m)) (sl_JobID l)"
    using ApplyWorkerEvent_keys [OF m(1), of env ev "sl_JobID l"] m(3) assms(2) by auto
  then show ?thesis
    using ApplyWorkerEvent_store_ok [OF m(1)] store_le_job_of [OF ApplyWorkerEvent_le [OF m(1)] m(2)] by (simp add: store_fit_def)
qed

lemma store_fit_update:
  assumes "store_fit ro l e m"
  shows "store_fit ro l e (fst (UpdateStatus i st m))"
proof -
  have ok: "store_ok m" using assms by (simp add: store_fit_def)
  have "ms_eventKey (fst (UpdateStatus i st m)) = ms_eventKey m"
    by (simp add: UpdateStatus_def set_status_def Let_def split: option.split)
  then show ?thesis
    using assms UpdateStatus_store_ok [OF ok] store_le_job_of [OF UpdateStatus_le [OF ok], of e] unfolding store_fit_def by simp
qed

lemma normalized_ident: "normalizeWorkerEvent e ev = Some n \<Longrightarrow> we_EventID n = we_EventID ev \<and> we_JobID n = ev_JobID e"
  by (auto simp: normalizeWorkerEvent_def Let_def split: if_splits)

lemma normalize_all_idents:
  "normalize_all e evs = Inr ns \<Longrightarrow> map we_EventID ns = map we_EventID evs \<and> (\<forall>n \<in> set ns. we_JobID n = ev_JobID e)"
  by (induction evs arbitrary: ns) (auto split: option.splits sum.splits dest: normalized_ident)

lemma apply_events_fit:
  assumes "store_fit ro l e m" "\<forall>n \<in> set ns. we_EventID n \<noteq> failure_ident ro l"
  shows "store_fit ro l e (fst (apply_events ro i ns m))"
  using assms
proof (induction ns arbitrary: i m)
  case (Cons n ns)
  have fit: "store_fit ro l e (fst (ApplyWorkerEvent (ro_env ro) n m))"
    using store_fit_apply [OF Cons.prems(1) key_of_other_event, of n "ro_env ro"] Cons.prems(2) by simp
  obtain m1 r where a: "ApplyWorkerEvent (ro_env ro) n m = (m1, r)" by fastforce
  have "store_fit ro l e (fst (apply_events ro (Suc i) ns m1))" using Cons.IH fit a Cons.prems(2) by simp
  moreover have "store_fit ro l e (fst (apply_events ro (Suc i) ns m))" using Cons.IH Cons.prems by simp
  ultimately show ?case using fit a Cons.prems(1) by (auto split: sum.split option.split)
qed simp

text \<open>With the job in the store no event is for a missing job.\<close>

lemma apply_events_found:
  assumes "store_fit ro l e m" "\<forall>n \<in> set ns. we_EventID n \<noteq> failure_ident ro l" "\<forall>n \<in> set ns. we_JobID n = ev_JobID e"
  shows "snd (apply_events ro i ns m) \<noteq> ApplyMissing x"
  using assms
proof (induction ns arbitrary: i m)
  case (Cons n ns)
  have fit: "store_fit ro l e (fst (ApplyWorkerEvent (ro_env ro) n m))"
    using store_fit_apply [OF Cons.prems(1) key_of_other_event, of n "ro_env ro"] Cons.prems(2) by simp
  obtain m1 r where a: "ApplyWorkerEvent (ro_env ro) n m = (m1, r)" by fastforce
  have "r \<noteq> Inr None"
    using a Cons.prems(1,3) by (auto simp: ApplyWorkerEvent_def store_fit_def job_of_def split: option.splits prod.splits)
  then show ?case using Cons.IH [of m1 "Suc i"] Cons.IH [of m "Suc i"] fit a Cons.prems by (auto split: sum.split option.split)
qed simp

subsection \<open>The failure event is one the store accepts\<close>

lemma ends_Seq: "ends t (Seq r s) i \<noteq> [] \<Longrightarrow> ends t r i \<noteq> [] \<and> (\<exists>j. ends t s j \<noteq> [])"
  by auto

lemma lit_needs: "ends t (lit s) i \<noteq> [] \<Longrightarrow> c \<in> set s \<Longrightarrow> \<exists>r \<in> set t. fold_eq (of_char c) r"
proof (induction s arbitrary: i rule: lit.induct)
  case (2 d)
  then show ?case by (auto split: if_splits)
next
  case (3 d x s)
  then show ?case using ends_Seq [of t "One (fold_eq (of_char d))" "lit (x # s)" i] by (auto split: if_splits)
qed simp

lemma runes_ascii: "\<forall>c \<in> set s. (of_char c :: nat) < 0x80 \<Longrightarrow> runes s = map of_char s"
proof -
  have "decode_runes bs = bs" if "\<forall>b \<in> set bs. b < 0x80" for bs
    using that by (induction bs) (simp_all add: decode_rune_def byte_at_def)
  then show "\<forall>c \<in> set s. (of_char c :: nat) < 0x80 \<Longrightarrow> runes s = map of_char s" by (simp add: runes_def)
qed

text \<open>
  A text without a hyphen and without an h matches neither the private key nor the captcha
  pattern; without an r, or without "be", it names no bearer.
\<close>

fun has_be :: "string \<Rightarrow> bool" where
  "has_be (c # d # s) = (c \<in> {CHR ''b'', CHR ''B''} \<and> d \<in> {CHR ''e'', CHR ''E''} \<or> has_be (d # s))"
| "has_be _ = False"

definition harmless_text :: "string \<Rightarrow> bool" where
  "harmless_text s =
     (list_all (\<lambda>c. CHR '' '' \<le> c \<and> c \<le> CHR ''z'' \<and> c \<notin> {CHR ''-'', CHR ''h'', CHR ''H''}) s \<and>
      (\<not> has_be s \<or> list_all (\<lambda>c. c \<notin> {CHR ''r'', CHR ''R''}) s))"

lemma fold_eq_lower:
  assumes "c = of_char a" "c = of_char A + 32" "in_range 0x61 0x7A c" "c \<noteq> 0x73" "c \<noteq> 0x6B"
  shows "fold_eq c (of_char x) \<longleftrightarrow> x = a \<or> x = A"
proof -
  have "of_char x + 32 = c \<longleftrightarrow> x = A" using assms(2) by simp
  moreover have "of_char x = c \<longleftrightarrow> x = a" using assms(1) by simp
  ultimately show ?thesis using assms(3-5) unfolding fold_eq_def by blast
qed

lemma fold_eq_char:
  "fold_eq 0x62 (of_char x) \<longleftrightarrow> x = CHR ''b'' \<or> x = CHR ''B''" "fold_eq 0x65 (of_char x) \<longleftrightarrow> x = CHR ''e'' \<or> x = CHR ''E''"
  "fold_eq 0x68 (of_char x) \<longleftrightarrow> x = CHR ''h'' \<or> x = CHR ''H''" "fold_eq 0x72 (of_char x) \<longleftrightarrow> x = CHR ''r'' \<or> x = CHR ''R''"
  "fold_eq 0x2D (of_char x) \<longleftrightarrow> x = CHR ''-''"
proof -
  have "(of_char x :: nat) = of_char (CHR ''-'') \<longleftrightarrow> x = CHR ''-''" by (rule of_char_eq_iff)
  then show "fold_eq 0x2D (of_char x) \<longleftrightarrow> x = CHR ''-''" by (simp add: fold_eq_def in_range_def)
qed (rule fold_eq_lower; simp add: in_range_def)+

lemma has_be_at: "Suc i < length s \<Longrightarrow> s ! i \<in> {CHR ''b'', CHR ''B''} \<Longrightarrow> s ! Suc i \<in> {CHR ''e'', CHR ''E''} \<Longrightarrow> has_be s"
proof (induction s arbitrary: i rule: has_be.induct)
  case (1 c d s)
  then show ?case by (cases i) auto
qed auto

lemma harmless_text_ok:
  assumes h: "harmless_text s"
  shows "stringReason s = None"
proof -
  have c: "c \<le> CHR ''z''" "c \<noteq> CHR ''-''" "c \<noteq> CHR ''h''" "c \<noteq> CHR ''H''" if "c \<in> set s" for c
    using that h unfolding harmless_text_def list_all_iff by auto
  have "(of_char c :: nat) < 0x80" if "c \<in> set s" for c
    using c(1) [OF that] by (simp add: less_eq_char_def)
  then have t: "runes s = map of_char s" by (intro runes_ascii) blast
  have no: "ends (runes s) (lit w) i = []" if "CHR ''-'' \<in> set w \<or> CHR ''h'' \<in> set w" for w i
  proof (rule ccontr)
    assume e: "ends (runes s) (lit w) i \<noteq> []"
    from that show False
    proof
      assume "CHR ''-'' \<in> set w"
      from lit_needs [OF e this] show False using c unfolding t by (auto simp: fold_eq_char)
    next
      assume "CHR ''h'' \<in> set w"
      from lit_needs [OF e this] show False using c unfolding t by (auto simp: fold_eq_char)
    qed
  qed
  have bearer: "ends (runes s) (lit ''bearer'') i = []" for i
  proof (rule ccontr)
    assume e: "ends (runes s) (lit ''bearer'') i \<noteq> []"
    show False
    proof (cases "has_be s")
      case True
      then have r: "c \<noteq> CHR ''r'' \<and> c \<noteq> CHR ''R''" if "c \<in> set s" for c
        using h that by (simp add: harmless_text_def list_all_iff)
      have "CHR ''r'' \<in> set ''bearer''" by simp
      from lit_needs [OF e this] show False using r unfolding t by (auto simp: fold_eq_char)
    next
      case False
      have "i < length s \<and> fold_eq 0x62 (runes s ! i) \<and> Suc i < length s \<and> fold_eq 0x65 (runes s ! Suc i)"
        using e t by (auto split: if_splits)
      then have "Suc i < length s" "s ! i \<in> {CHR ''b'', CHR ''B''}" "s ! Suc i \<in> {CHR ''e'', CHR ''E''}"
        using t by (auto simp: fold_eq_char)
      then show False using has_be_at False by blast
    qed
  qed
  have seq: "ends (runes s) (Seq r q) i = []" if "ends (runes s) r i = [] \<or> (\<forall>j. ends (runes s) q j = [])" for r q i
    using that by auto
  have captcha: "ends (runes s) (lit ''captcha'') i = []" for i by (rule no) simp
  have here: "ends (runes s) (Seq (lit ''captcha'') q) i = []" for q i by (rule seq) (simp add: captcha del: lit.simps)
  have later: "ends (runes s) (Seq r q) i = []" if "\<And>j. ends (runes s) q j = []" for r q i by (rule seq) (simp add: that)
  have "ends (runes s) captchaSolverPattern i = []" for i
    unfolding captchaSolverPattern_def Let_def ends.simps(5) append_is_Nil_conv
    by (rule conjI; (rule here | rule later)+)
  then have "\<not> MatchString captchaSolverPattern s" by (simp add: MatchString_def Let_def list_ex_iff)
  moreover have "\<not> MatchString privateKeyValuePattern s"
    by (simp add: MatchString_def Let_def privateKeyValuePattern_def no list_ex_iff del: lit.simps)
  moreover have "\<not> MatchString bearerValuePattern s"
    by (simp add: MatchString_def Let_def bearerValuePattern_def bearer list_ex_iff del: lit.simps)
  ultimately show ?thesis by (simp add: stringReason_def)
qed

lemma payload_ok_Cons:
  "payload_ok (JObj ((k, v) # m)) \<longleftrightarrow> key_ok k \<and> payload_ok v \<and> payload_ok (JObj m)"
  "payload_ok (JArr (v # vs)) \<longleftrightarrow> payload_ok v \<and> payload_ok (JArr vs)"
  by auto

lemma removeUnsafe_payload_ok:
  "payload_ok v \<Longrightarrow> payload_ok (removeUnsafeWorkerKeys env et v)"
  "payload_ok (JObj m) \<Longrightarrow> payload_ok (JObj (removeUnsafeEntries env et m))"
  "payload_ok (JArr vs) \<Longrightarrow> payload_ok (JArr (removeUnsafeItems env et vs))"
  by (induction env et v and env et m and env et vs
      rule: removeUnsafeWorkerKeys_removeUnsafeEntries_removeUnsafeItems.induct)
    (auto simp del: payload_ok_simps simp: payload_ok_simps(3-6) payload_ok_Cons)

definition failure_texts :: "string list" where
  "failure_texts =
     [''failed_terminal'', ''failed_retryable'', ''post_submit_failure'', ''error'', ''worker execution deadline exceeded'',
      ''worker failed after prompt submission; reconcile required'', ''worker execution timed out'', ''worker execution failed'',
      ''post_submit_ambiguous'', ''provider_interaction'', ''worker_deadline'', ''worker_execution'', ''worker_process_exit'',
      ''worker_protocol'', ''event_ingestion'', ''worker_process_start'', ''worker_start'', ''worker_reported_failure'']"

lemma failure_texts_harmless: "list_all harmless_text failure_texts"
  by (simp add: failure_texts_def harmless_text_def less_eq_char_def)

lemma failure_keys_normal1:
  "NormalizeKey ''status'' = ''status''"
  "NormalizeKey ''retryable'' = ''retryable''"
  "NormalizeKey ''reason'' = ''reason''"
  by code_simp+

lemma failure_keys_allowed1:
  "disallowedKeyReason ''status'' = None"
  "disallowedKeyReason ''retryable'' = None"
  "disallowedKeyReason ''reason'' = None"
  by code_simp+

lemma failure_keys_normal2:
  "NormalizeKey ''submitted'' = ''submitted''"
  "NormalizeKey ''reconcile_required'' = ''reconcile_required''"
  "NormalizeKey ''stream_end_reason'' = ''stream_end_reason''"
  by code_simp+

lemma failure_keys_allowed2:
  "disallowedKeyReason ''submitted'' = None"
  "disallowedKeyReason ''reconcile_required'' = None"
  "disallowedKeyReason ''stream_end_reason'' = None"
  by code_simp+

lemma failure_keys_normal3:
  "NormalizeKey ''error_class'' = ''error_class''"
  "NormalizeKey ''message'' = ''message''"
  "NormalizeKey ''execution_stage'' = ''execution_stage''"
  by code_simp+

lemma failure_keys_allowed3:
  "disallowedKeyReason ''error_class'' = None"
  "disallowedKeyReason ''message'' = None"
  "disallowedKeyReason ''execution_stage'' = None"
  by code_simp+

lemma failure_keys_normal4:
  "NormalizeKey ''diagnostic_ref'' = ''diagnostic_ref''"
  "NormalizeKey ''attempt_id'' = ''attempt_id''"
  "NormalizeKey ''elapsed_ms'' = ''elapsed_ms''"
  by code_simp+

lemma failure_keys_allowed4:
  "disallowedKeyReason ''diagnostic_ref'' = None"
  "disallowedKeyReason ''attempt_id'' = None"
  "disallowedKeyReason ''elapsed_ms'' = None"
  by code_simp+

lemmas failure_keys_ok = failure_keys_normal1 failure_keys_allowed1 failure_keys_normal2 failure_keys_allowed2 failure_keys_normal3 failure_keys_allowed3 failure_keys_normal4 failure_keys_allowed4

definition hex_digest :: "(string \<Rightarrow> string) \<Rightarrow> bool" where
  "hex_digest digest = (\<forall>x. list_all (\<lambda>c. c \<in> set ''0123456789abcdef'') (digest x))"

definition token_char :: "char \<Rightarrow> bool" where
  "token_char c = (c \<in> set ''0123456789abcdefgit_'')"

lemma token_char_harmless:
  "token_char c \<Longrightarrow> CHR '' '' \<le> c \<and> c \<le> CHR ''z'' \<and> c \<notin> {CHR ''-'', CHR ''h'', CHR ''H''} \<and> c \<notin> {CHR ''r'', CHR ''R''}"
  by (auto simp: token_char_def less_eq_char_def)

lemma no_r_harmless: "list_all token_char s \<Longrightarrow> harmless_text s"
  unfolding harmless_text_def list_all_iff using token_char_harmless by blast

lemma digest_harmless:
  assumes "hex_digest digest" "list_all token_char p"
  shows "stringReason (p @ take n (digest x)) = None"
proof -
  have "token_char c" if "c \<in> set (digest x)" for c
  proof -
    have "c \<in> set ''0123456789abcdef''" using assms(1) that unfolding hex_digest_def list_all_iff by blast
    moreover have "set ''0123456789abcdef'' \<subseteq> set ''0123456789abcdefgit_''" by simp
    ultimately show ?thesis unfolding token_char_def by blast
  qed
  then have "list_all token_char (p @ take n (digest x))"
    using assms(2) by (auto simp: list_all_iff dest: in_set_takeD)
  then show ?thesis using no_r_harmless harmless_text_ok by blast
qed

lemma failure_payload_ok:
  assumes "hex_digest (ro_digest ro)" "envelope_for ro l e"
  shows "payload_ok (JObj (failure_data ro l e err timed))"
proof -
  have att: "(case ev_Attempt e of Some a \<Rightarrow> if a \<noteq> [] then a else attemptIDForLease (ro_digest ro) (sl_LeaseID l)
       | None \<Rightarrow> attemptIDForLease (ro_digest ro) (sl_LeaseID l)) = attemptIDForLease (ro_digest ro) (sl_LeaseID l)"
    using assms(2) by (auto simp: envelope_for_def lease_attempt_def split: if_splits)
  have d: "stringReason (attemptIDForLease (ro_digest ro) x) = None" "stringReason (''diag_'' @ take 24 (ro_digest ro x)) = None" for x
    using digest_harmless [OF assms(1), of "''att_''" 32 x] digest_harmless [OF assms(1), of "''diag_''" 24 x]
    by (simp_all add: attemptIDForLease_def token_char_def)
  have fixed: "stringReason s = None" if "s \<in> set failure_texts" for s
    using failure_texts_harmless that harmless_text_ok by (simp add: list_all_iff)
  then have texts: "list_all (\<lambda>s. stringReason s = None) failure_texts" by (simp add: list_all_iff)
  have t: "stringReason ''failed_terminal'' = None" "stringReason ''failed_retryable'' = None"
      "stringReason ''post_submit_failure'' = None" "stringReason ''error'' = None" "stringReason ''worker execution deadline exceeded'' = None"
      "stringReason ''worker failed after prompt submission; reconcile required'' = None"
      "stringReason (sanitizeWorkerError err) = None"
    using texts by (simp_all add: failure_texts_def sanitizeWorkerError_def)
  have cl: "stringReason (fst (workerFailureClass err)) = None \<and> stringReason (snd (workerFailureClass err)) = None"
    using texts unfolding workerFailureClass_def by (simp add: failure_texts_def)
  obtain cl stage where cs: "workerFailureClass err = (cl, stage)" by fastforce
  show ?thesis
    using d t cl by (simp add: failure_data_def att cs Let_def key_ok_def failure_keys_ok)
qed

definition failure_fits :: "run_once \<Rightarrow> spool_lease \<Rightarrow> envelope \<Rightarrow> bool" where
  "failure_fits ro l e = (\<forall>err timed. marshal_len (ro_env ro) (JObj (failure_data ro l e err timed)) \<le> 64 * 1024)"

lemma failure_valid:
  assumes "hex_digest (ro_digest ro)" "envelope_for ro l e" "failure_fits ro l e"
  shows "validateWorkerEventData (ro_env ro) t (Some (failure_data ro l e err timed)) = None"
  using failure_payload_ok [OF assms(1,2), of err timed] removeUnsafe_payload_ok(1) [of "JObj (failure_data ro l e err timed)"] assms(3)
  by (simp add: validateWorkerEventData_def Validate_def validate_iff failure_fits_def not_less del: payload_ok_simps removeUnsafeWorkerKeys.simps)

subsection \<open>Recording a failure\<close>

lemma advance_to_terminal: "KnownStatus a \<Longrightarrow> \<not> TerminalStatus a \<Longrightarrow> TerminalStatus b \<Longrightarrow> shouldAdvanceStatus a b"
  by (cases a; cases b) (simp_all add: KnownStatus_def TerminalStatus_def shouldAdvanceStatus_def)

lemma Status_failed [simp]:
  "Status ''failed_terminal'' = StatusFailedTerminal" "Status ''failed_retryable'' = StatusFailedRetryable"
  by code_simp+

lemma failure_data_status:
  "map_of (failure_data ro l e err timed) ''status'' = Some (JStr (if re_ambiguous err then ''failed_terminal'' else ''failed_retryable''))"
  "map_of (failure_data ro l e err timed) ''retryable'' = Some (JBool (\<not> re_ambiguous err))"
  by (cases "workerFailureClass err"; simp add: failure_data_def Let_def)+

lemma failure_is_terminal: "TerminalStatus (statusFromWorkerEvent (failure_event ro l e err timed) st)"
  by (simp add: statusFromWorkerEvent_def failure_event_def data_map_def failure_data_status workerEventStatus_def
      event_retryable_def TerminalStatus_def Let_def)

lemma applyFailure_effect:
  assumes fit: "store_fit ro l e (cn_Jobs c)" and e: "envelope_for ro l e" and a: "applyFailure ro l e err timed c = (b, c')"
  shows "c' = c\<lparr>cn_Jobs := cn_Jobs c'\<rparr>" "b \<Longrightarrow> ended_in (sl_JobID l) (cn_Jobs c')"
proof -
  show "c' = c\<lparr>cn_Jobs := cn_Jobs c'\<rparr>"
    using a by (auto simp: applyFailure_def split: if_splits prod.splits sum.splits option.splits)
  assume b
  then obtain m j where run: "ApplyWorkerEvent (ro_env ro) (failure_event ro l e err timed) (cn_Jobs c) = (m, Inr (Some j))"
      and c': "c' = c\<lparr>cn_Jobs := m\<rparr>"
    using a by (auto simp: applyFailure_def split: if_splits prod.splits sum.splits option.splits)
  from run obtain job where job: "ms_jobs (cn_Jobs c) (sl_JobID l) = Some job"
      and ap: "applyWorkerEventLocked (ro_env ro) (cn_Jobs c) job (failure_event ro l e err timed) = (m, j, None)"
    by (elim ApplyWorkerEvent_ran) (simp add: failure_event_def)
  have ok: "store_ok (cn_Jobs c)" using fit by (simp add: store_fit_def)
  have id: "job_ID job = sl_JobID l" "KnownStatus (job_Status job)" using jobs_okD [OF ok job] by auto
  from ap show "ended_in (sl_JobID l) (cn_Jobs c')"
  proof (cases rule: apply_cases)
    case duplicate
    then show ?thesis using fit id failure_event_key [OF e] by (simp add: store_fit_def)
  next
    case ended
    then show ?thesis using job c' by (simp add: ended_in_def)
  next
    case lands
    let ?j = "landed_job (ro_env ro) (take_key (cn_Jobs c) job (failure_event ro l e err timed)) job (failure_event ro l e err timed)"
    have "TerminalStatus (job_Status ?j)"
      using advance_to_terminal [OF id(2) lands(2) failure_is_terminal] failure_is_terminal by (simp add: landed_job_status)
    then show ?thesis using lands c' id by (simp add: ended_in_def)
  qed simp_all
qed

text \<open>The conditions under which a failure is recorded.\<close>

definition recordable :: "run_once \<Rightarrow> spool_lease \<Rightarrow> envelope \<Rightarrow> bool" where
  "recordable ro l e =
     (\<not> ro_fault ro FFailure \<and> hex_digest (ro_digest ro) \<and> failure_fits ro l e \<and> ev_APIVersion e \<noteq> [] \<and> ev_TraceID e \<noteq> [] \<and>
      sl_JobID l \<noteq> [])"

lemma applyFailure_recorded:
  assumes fit: "store_fit ro l e (cn_Jobs c)" and e: "envelope_for ro l e" and r: "recordable ro l e"
  shows "fst (applyFailure ro l e err timed c)"
proof -
  let ?ev = "failure_event ro l e err timed"
  obtain job where job: "ms_jobs (cn_Jobs c) (sl_JobID l) = Some job" "job_APIVersion job = ev_APIVersion e" "job_TraceID job = ev_TraceID e"
    using fit e by (auto simp: store_fit_def job_of_def envelope_for_def)
  have "checkWorkerEvent ?ev = None"
    using r failure_event_key [OF e, of err timed]
    by (simp add: checkWorkerEvent_def recordable_def failure_key_def) (simp add: failure_event_def knownWorkerEventType_def workerEventTypes_def)
  moreover have "checkWorkerEventAgainstJob job ?ev = None" using job by (simp add: checkWorkerEventAgainstJob_def failure_event_def)
  moreover have "validateWorkerEventData (ro_env ro) (we_Type ?ev) (we_Data ?ev) = None"
    using failure_valid [of ro l e] r e by (simp add: recordable_def failure_event_def)
  ultimately have "snd (snd (applyWorkerEventLocked (ro_env ro) (cn_Jobs c) job ?ev)) = None" by (simp add: apply_outcome)
  then show ?thesis
    using r job(1) \<open>checkWorkerEvent ?ev = None\<close>
    by (auto simp: applyFailure_def recordable_def ApplyWorkerEvent_def failure_event_def split: prod.split)
qed

subsection \<open>Ends of a lease\<close>

definition settled_as :: "spool_lease \<Rightarrow> spool \<Rightarrow> spool \<Rightarrow> bool \<Rightarrow> bool" where
  "settled_as l s s' queued =
     (spool_ok s' \<and> spool_view s' = (spool_view s)(sl_JobID l := if queued then JQueued else JEnded))"

text \<open>
  The lease went back to the queue (only if \<open>again\<close>, or when an ended job could not be notified),
  or its envelope ended (then the job has ended in the store, or \<open>lost\<close>).
\<close>

definition notify_down :: "run_once \<Rightarrow> bool" where
  "notify_down ro = (ro_fault ro FNotify \<or> ro_fault ro FNotifyGet)"

definition outcome :: "run_once \<Rightarrow> spool_lease \<Rightarrow> consumer \<Rightarrow> consumer \<Rightarrow> bool \<Rightarrow> bool \<Rightarrow> bool" where
  "outcome ro l c c' again lost =
     (\<exists>queued. settled_as l (cn_Spool c) (cn_Spool c') queued \<and>
        (if queued then again \<or> ended_in (sl_JobID l) (cn_Jobs c') \<and> notify_down ro
         else ended_in (sl_JobID l) (cn_Jobs c') \<or> lost))"

lemma outcome_mono:
  assumes "outcome ro l c c' a b" "a \<Longrightarrow> a'" "b \<Longrightarrow> b'"
  shows "outcome ro l c c' a' b'"
proof -
  obtain queued where "settled_as l (cn_Spool c) (cn_Spool c') queued"
      "if queued then a \<or> ended_in (sl_JobID l) (cn_Jobs c') \<and> notify_down ro else ended_in (sl_JobID l) (cn_Jobs c') \<or> b"
    using assms(1) by (auto simp: outcome_def)
  then show ?thesis using assms(2,3) unfolding outcome_def by (intro exI [of _ queued]) (auto split: if_splits)
qed

lemma outcome_again:
  assumes "lease_held l (cn_Spool c)" "cn_Spool c' = RetryLease l (cn_Spool c)"
    "again \<or> ended_in (sl_JobID l) (cn_Jobs c') \<and> notify_down ro"
  shows "outcome ro l c c' again lost"
  using assms RetryLease_effect [of "cn_Spool c" l] unfolding outcome_def settled_as_def lease_held_def
  by (intro exI [of _ True]) simp

lemma outcome_closed:
  assumes "lease_held l (cn_Spool c)" "ended_in (sl_JobID l) (cn_Jobs c') \<or> lost"
    "cn_Spool c' = CompleteLease l (cn_Spool c) \<or> cn_Spool c' = FailLease l (cn_Spool c) \<or> cn_Spool c' = CancelLease l (cn_Spool c)"
  shows "outcome ro l c c' again lost"
proof -
  have "settled_as l (cn_Spool c) (cn_Spool c') False"
    using assms(1,3) settle_effect [of "cn_Spool c" l DirDone] settle_effect [of "cn_Spool c" l DirFailed] settle_effect [of "cn_Spool c" l DirCancelled]
    by (auto simp: settled_as_def lease_held_def CompleteLease_def FailLease_def CancelLease_def terminal_dirs_def)
  then show ?thesis using assms(2) unfolding outcome_def by (intro exI [of _ False]) simp
qed

lemma on_spool_simps [simp]:
  "cn_Spool (on_spool f c) = f (cn_Spool c)" "cn_Jobs (on_spool f c) = cn_Jobs c" "cn_Ran (on_spool f c) = cn_Ran c"
  "cn_Holds (on_spool f c) = cn_Holds c" "cn_Notified (on_spool f c) = cn_Notified c"
  by (simp_all add: on_spool_def)

lemma notifyTerminalJob_effect:
  assumes "notifyTerminalJob ro l job c = (b, c')"
  shows "cn_Jobs c' = cn_Jobs c" "cn_Spool c' = (if b then cn_Spool c else RetryLease l (cn_Spool c))" "cn_Ran c' = cn_Ran c"
    "\<not> b \<Longrightarrow> TerminalStatus (job_Status job) \<and> notify_down ro"
  using assms by (cases "TerminalStatus (job_Status job)"; cases "ro_fault ro FNotify"; auto simp: notifyTerminalJob_def notify_down_def)+

lemma release_token_simps [simp]:
  "cn_Jobs (release_token job c) = cn_Jobs c" "cn_Spool (release_token job c) = cn_Spool c" "cn_Ran (release_token job c) = cn_Ran c"
  by (simp_all add: release_token_def)

lemma notifyCurrent_effect:
  assumes "ended_in (sl_JobID l) (cn_Jobs c)" "notifyCurrentTerminalJob ro l c = (b, c')"
  shows "cn_Jobs c' = cn_Jobs c" "cn_Spool c' = (if b then cn_Spool c else RetryLease l (cn_Spool c))" "cn_Ran c' = cn_Ran c"
    "\<not> b \<Longrightarrow> notify_down ro"
proof -
  obtain job where job: "ms_jobs (cn_Jobs c) (sl_JobID l) = Some job" "TerminalStatus (job_Status job)"
    using assms(1) by (auto simp: ended_in_def)
  have "cn_Jobs c' = cn_Jobs c \<and> cn_Spool c' = (if b then cn_Spool c else RetryLease l (cn_Spool c)) \<and> cn_Ran c' = cn_Ran c \<and>
    (\<not> b \<longrightarrow> notify_down ro)"
  proof (cases "ro_fault ro FNotifyGet")
    case True
    then have "b = False" "c' = on_spool (RetryLease l) c" using assms(2) by (simp_all add: notifyCurrentTerminalJob_def)
    then show ?thesis using True by (simp add: notify_down_def)
  next
    case False
    then have n: "notifyTerminalJob ro l job (release_token job c) = (b, c')"
      using assms(2) job by (simp add: notifyCurrentTerminalJob_def)
    show ?thesis using notifyTerminalJob_effect [OF n] by auto
  qed
  then show "cn_Jobs c' = cn_Jobs c" "cn_Spool c' = (if b then cn_Spool c else RetryLease l (cn_Spool c))" "cn_Ran c' = cn_Ran c"
    "\<not> b \<Longrightarrow> notify_down ro" by blast+
qed

lemma finishLeased_outcome:
  assumes "lease_held l (cn_Spool c)" "ms_jobs (cn_Jobs c) (sl_JobID l) = Some job" "TerminalStatus (job_Status job)"
  shows "outcome ro l c (snd (finishTerminalLeasedJob ro l job c)) again lost" "cn_Ran (snd (finishTerminalLeasedJob ro l job c)) = cn_Ran c"
proof -
  obtain b c1 where n: "notifyTerminalJob ro l job c = (b, c1)" by fastforce
  have e: "ended_in (sl_JobID l) (cn_Jobs c)" using assms(2,3) by (auto simp: ended_in_def)
  show "outcome ro l c (snd (finishTerminalLeasedJob ro l job c)) again lost"
  proof (cases b)
    case True
    then show ?thesis using n notifyTerminalJob_effect [OF n] e assms(1)
      by (intro outcome_closed) (auto simp: finishTerminalLeasedJob_def)
  next
    case False
    then show ?thesis using n notifyTerminalJob_effect [OF n] e assms(1)
      by (intro outcome_again) (auto simp: finishTerminalLeasedJob_def)
  qed
  show "cn_Ran (snd (finishTerminalLeasedJob ro l job c)) = cn_Ran c"
    using n notifyTerminalJob_effect [OF n] by (auto simp: finishTerminalLeasedJob_def split: bool.split)
qed

lemma finishIngested_outcome:
  assumes "lease_held l (cn_Spool c)" "ms_jobs (cn_Jobs c) (sl_JobID l) = Some job" "TerminalStatus (job_Status job)"
    "finish = CompleteLease \<or> finish = FailLease \<or> finish = CancelLease"
  shows "outcome ro l c (snd (finishTerminalIngestedJob ro l job finish c)) again lost"
    "cn_Ran (snd (finishTerminalIngestedJob ro l job finish c)) = cn_Ran c"
proof -
  obtain b c1 where n: "notifyTerminalJob ro l job (release_token job c) = (b, c1)" by fastforce
  have e: "ended_in (sl_JobID l) (cn_Jobs c)" using assms(2,3) by (auto simp: ended_in_def)
  show "outcome ro l c (snd (finishTerminalIngestedJob ro l job finish c)) again lost"
  proof (cases b)
    case True
    then show ?thesis using n notifyTerminalJob_effect [OF n] e assms(1,4)
      by (intro outcome_closed) (auto simp: finishTerminalIngestedJob_def)
  next
    case False
    then show ?thesis using n notifyTerminalJob_effect [OF n] e assms(1)
      by (intro outcome_again) (auto simp: finishTerminalIngestedJob_def)
  qed
  show "cn_Ran (snd (finishTerminalIngestedJob ro l job finish c)) = cn_Ran c"
    using n notifyTerminalJob_effect [OF n] by (auto simp: finishTerminalIngestedJob_def split: bool.split)
qed

subsection \<open>Ingestion\<close>

text \<open>Recording a failure, notifying and closing: what the failing branches share.\<close>

lemma record_outcome:
  assumes h: "holding ro l e c" and e: "envelope_for ro l e" and a: "applyFailure ro l e err timed c = (b, c1)"
    and c': "c' = (if b then (case notifyCurrentTerminalJob ro l c1 of (False, c2) \<Rightarrow> c2 | (True, c2) \<Rightarrow> on_spool (FailLease l) c2)
                  else on_spool (if keep then FailLease l else RetryLease l) c1)"
  shows "outcome ro l c c' (\<not> keep \<and> \<not> recordable ro l e) (keep \<and> \<not> recordable ro l e)" "cn_Ran c' = cn_Ran c"
proof -
  have fit: "store_fit ro l e (cn_Jobs c)" and lh: "lease_held l (cn_Spool c)" using h by (simp_all add: holding_def)
  have c1: "c1 = c\<lparr>cn_Jobs := cn_Jobs c1\<rparr>" "b \<Longrightarrow> ended_in (sl_JobID l) (cn_Jobs c1)"
    using applyFailure_effect [OF fit e a] by blast+
  then have s: "cn_Spool c1 = cn_Spool c" "cn_Ran c1 = cn_Ran c" by (metis consumer.select_convs(2,5) consumer.update_convs(1) consumer.surjective)+
  obtain n c2 where n: "notifyCurrentTerminalJob ro l c1 = (n, c2)" by fastforce
  show "outcome ro l c c' (\<not> keep \<and> \<not> recordable ro l e) (keep \<and> \<not> recordable ro l e)"
  proof (cases b)
    case True
    then have end1: "ended_in (sl_JobID l) (cn_Jobs c1)" using c1(2) by simp
    note nc = notifyCurrent_effect [OF end1 n]
    show ?thesis
    proof (cases n)
      case n1: True
      then have "cn_Spool c' = FailLease l (cn_Spool c)" "ended_in (sl_JobID l) (cn_Jobs c')" using nc s c' True end1 n by auto
      then show ?thesis using lh by (intro outcome_closed) auto
    next
      case n0: False
      then have "cn_Spool c' = RetryLease l (cn_Spool c)" "ended_in (sl_JobID l) (cn_Jobs c')" "notify_down ro" using nc s c' True end1 n by auto
      then show ?thesis using lh by (intro outcome_again) auto
    qed
  next
    case False
    then have nr: "\<not> recordable ro l e" using applyFailure_recorded [OF fit e, of err timed] a by auto
    show ?thesis
    proof (cases keep)
      case True
      then show ?thesis using False c' s lh nr by (intro outcome_closed) auto
    next
      case k: False
      then show ?thesis using False c' s lh nr by (intro outcome_again) auto
    qed
  qed
  show "cn_Ran c' = cn_Ran c"
  proof (cases b)
    case True
    then show ?thesis using c' n notifyCurrent_effect(3) [OF c1(2) n] s by (auto split: bool.split)
  qed (use c' s in auto)
qed

lemma ingest_failure_outcome:
  assumes "holding ro l e c" "envelope_for ro l e"
  shows "outcome ro l c (snd (ingest_failure ro l e err c)) (\<not> recordable ro l e) False" "cn_Ran (snd (ingest_failure ro l e err c)) = cn_Ran c"
proof -
  obtain b c1 where a: "applyFailure ro l e err False c = (b, c1)" by fastforce
  have "snd (ingest_failure ro l e err c) = (if b then (case notifyCurrentTerminalJob ro l c1 of (False, c2) \<Rightarrow> c2 | (True, c2) \<Rightarrow> on_spool (FailLease l) c2)
                  else on_spool (if False then FailLease l else RetryLease l) c1)"
    using a by (auto simp: ingest_failure_def split: prod.split bool.split)
  from record_outcome [OF assms a this]
  show "outcome ro l c (snd (ingest_failure ro l e err c)) (\<not> recordable ro l e) False" "cn_Ran (snd (ingest_failure ro l e err c)) = cn_Ran c"
    by simp_all
qed

lemma finish_ingested_outcome:
  assumes "holding ro l e c" "envelope_for ro l e"
  shows "outcome ro l c (snd (finish_ingested ro l e streamed evs c)) (ro_fault ro FFinal \<or> \<not> recordable ro l e) False"
    "cn_Ran (snd (finish_ingested ro l e streamed evs c)) = cn_Ran c"
proof -
  have lh: "lease_held l (cn_Spool c)" using assms(1) by (simp add: holding_def)
  obtain job where job: "ms_jobs (cn_Jobs c) (sl_JobID l) = Some job"
    using assms by (auto simp: holding_def store_fit_def job_of_def envelope_for_def)
  have t: "TerminalStatus StatusCanceled" "TerminalStatus StatusCompleted" "TerminalStatus StatusCompletedWithWarnings"
    by (simp_all add: TerminalStatus_def)
  note fi = finishIngested_outcome [OF lh job, of _ ro]
  note fail = ingest_failure_outcome [OF assms, of "ambiguousIfSubmitted (ro_strict ro) (plain_error ''worker did not reach a terminal status'') streamed evs"]
  show "outcome ro l c (snd (finish_ingested ro l e streamed evs c)) (ro_fault ro FFinal \<or> \<not> recordable ro l e) False"
  proof (cases "ro_fault ro FFinal")
    case True
    then show ?thesis using lh by (intro outcome_again) (auto simp: finish_ingested_def)
  next
    case False
    then show ?thesis using job fi(1) t outcome_mono [OF fail(1)] by (auto simp: finish_ingested_def)
  qed
  show "cn_Ran (snd (finish_ingested ro l e streamed evs c)) = cn_Ran c"
    using job fi(2) t fail(2) by (auto simp: finish_ingested_def)
qed

lemma dropped_subset: "set (dropStaleAttemptEvents e evs) \<subseteq> set evs"
  by (auto simp: dropStaleAttemptEvents_def)

lemma ingest_outcome:
  assumes h: "holding ro l e c" and e: "envelope_for ro l e" and id: "\<forall>ev \<in> set evs. we_EventID ev \<noteq> failure_ident ro l"
  shows "outcome ro l c (snd (ingest ro l e evs streamed c)) (ro_fault ro FFinal \<or> \<not> recordable ro l e) False
    \<and> cn_Ran (snd (ingest ro l e evs streamed c)) = cn_Ran c"
proof (cases "evs = []")
  case True
  then show ?thesis using ingest_failure_outcome [OF h e] outcome_mono [OF ingest_failure_outcome(1) [OF h e]] by (auto simp: ingest_def)
next
  case ne: False
  let ?evs = "dropStaleAttemptEvents e evs"
  let ?err = "\<lambda>err. ambiguousIfSubmitted (ro_strict ro) (plain_error (ro_text ro err)) streamed ?evs"
  have failed: "outcome ro l c (snd (ingest_failure ro l e (?err err) d)) (ro_fault ro FFinal \<or> \<not> recordable ro l e) False
      \<and> cn_Ran (snd (ingest_failure ro l e (?err err) d)) = cn_Ran c"
    if "holding ro l e d" "cn_Spool d = cn_Spool c" "cn_Ran d = cn_Ran c" for d err
  proof -
    have "outcome ro l c x a b = outcome ro l d x a b" for x a b by (simp add: outcome_def settled_as_def that(2))
    then show ?thesis using ingest_failure_outcome [OF that(1) e, of "?err err"] that(3) outcome_mono by auto
  qed
  show ?thesis
  proof (cases "normalize_all e ?evs")
    case (Inl bad)
    then show ?thesis using ne failed [OF h] by (simp add: ingest_def Let_def)
  next
    case (Inr ns)
    then have "map we_EventID ns = map we_EventID ?evs" and nj: "\<forall>n \<in> set ns. we_JobID n = ev_JobID e"
      using normalize_all_idents by blast+
    then have "we_EventID ` set ns = we_EventID ` set ?evs" by (metis set_map)
    then have "we_EventID n \<in> we_EventID ` set evs" if "n \<in> set ns" for n
      using that dropped_subset [of e evs] by (metis (no_types) image_eqI image_mono subsetD)
    then have ni: "\<forall>n \<in> set ns. we_EventID n \<noteq> failure_ident ro l" using id by fastforce
    have fit: "store_fit ro l e (cn_Jobs c)" using h by (simp add: holding_def)
    obtain m r where a: "apply_events ro 0 ns (cn_Jobs c) = (m, r)" by fastforce
    have hm: "holding ro l e (c\<lparr>cn_Jobs := m\<rparr>)" using apply_events_fit [OF fit ni, of 0] a h by (simp add: holding_def)
    have nm: "r \<noteq> ApplyMissing x" for x using apply_events_found [OF fit ni nj, of 0 x] a by simp
    have same: "outcome ro l (c\<lparr>cn_Jobs := m\<rparr>) x a' b' = outcome ro l c x a' b'" for x a' b' by (simp add: outcome_def)
    show ?thesis
    proof (cases "length (filter (\<lambda>n. terminalWorkerEventType (we_Type n)) ns) = 1")
      case False
      then show ?thesis using ne Inr failed [OF h] by (simp add: ingest_def Let_def)
    next
      case True
      then show ?thesis
        using ne Inr a nm failed [OF hm] finish_ingested_outcome [OF hm e, of streamed ?evs] same
        by (cases r) (auto simp: ingest_def Let_def)
    qed
  qed
qed

subsection \<open>The run and the lease\<close>

lemma run_failed_outcome:
  assumes h: "holding ro l e c" and e: "envelope_for ro l e"
  shows "outcome ro l c (snd (run_failed ro l e err c))
      (\<not> re_ambiguous err \<and> (ro_shutdown ro \<or> re_canceled err \<or> \<not> recordable ro l e))
      (re_missingJob err \<or> re_ambiguous err \<and> \<not> recordable ro l e)" (is "?o (snd (run_failed ro l e err c))")
    "cn_Ran (snd (run_failed ro l e err c)) = cn_Ran c"
proof -
  have lh: "lease_held l (cn_Spool c)" using h by (simp add: holding_def)
  obtain b c1 where a: "applyFailure ro l e err True c = (b, c1)" by fastforce
  have "snd (record_run_failure ro l e err c) = (if b then (case notifyCurrentTerminalJob ro l c1 of (False, c2) \<Rightarrow> c2 | (True, c2) \<Rightarrow> on_spool (FailLease l) c2)
                  else on_spool (if re_ambiguous err then FailLease l else RetryLease l) c1)"
    using a by (auto simp: record_run_failure_def split: prod.split bool.split)
  note r = record_outcome [OF h e a this]
  have rec: "?o (snd (record_run_failure ro l e err c))" "cn_Ran (snd (record_run_failure ro l e err c)) = cn_Ran c"
    using outcome_mono [OF r(1)] r(2) by auto
  have again: "?o (on_spool (RetryLease l) c)" if "\<not> re_ambiguous err" "ro_shutdown ro \<or> re_canceled err"
    using lh that by (intro outcome_again) auto
  have gone: "?o (on_spool (FailLease l) c)" if "re_missingJob err" using lh that by (intro outcome_closed) auto
  show "?o (snd (run_failed ro l e err c)) "
  proof (cases "re_missingJob err \<or> ro_shutdown ro \<and> \<not> re_ambiguous err \<or> \<not> re_canceled err")
    case True
    then show ?thesis using rec(1) again gone by (auto simp: run_failed_def Let_def)
  next
    case False
    then have c: "re_canceled err" "\<not> re_missingJob err" "\<not> (ro_shutdown ro \<and> \<not> re_ambiguous err)" by auto
    show ?thesis
    proof (cases "if ro_fault ro FCanceledGet then None else ms_jobs (cn_Jobs c) (sl_JobID l)")
      case None
      then show ?thesis using c rec(1) again by (cases "re_ambiguous err") (simp_all add: run_failed_def Let_def)
    next
      case (Some job)
      then have job: "ms_jobs (cn_Jobs c) (sl_JobID l) = Some job" by (simp split: if_splits)
      show ?thesis
      proof (cases "TerminalStatus (job_Status job)")
        case True
        then have "ended_in (sl_JobID l) (cn_Jobs c)" using job by (auto simp: ended_in_def)
        then have "?o (on_spool (CancelLease l) c)" using lh by (intro outcome_closed) auto
        then show ?thesis using c Some True finishLeased_outcome(1) [OF lh job True]
          by (cases "re_ambiguous err") (simp_all add: run_failed_def Let_def)
      next
        case False
        then have "job_Status job \<noteq> StatusCanceled" by (auto simp: TerminalStatus_def)
        then show ?thesis using c Some False rec(1) again by (cases "re_ambiguous err") (simp_all add: run_failed_def Let_def)
      qed
    qed
  qed
  show "cn_Ran (snd (run_failed ro l e err c)) = cn_Ran c"
  proof (cases "if ro_fault ro FCanceledGet then None else ms_jobs (cn_Jobs c) (sl_JobID l)")
    case None
    then show ?thesis using rec(2) by (simp add: run_failed_def Let_def)
  next
    case (Some job)
    then have "ms_jobs (cn_Jobs c) (sl_JobID l) = Some job" by (simp split: if_splits)
    then show ?thesis using Some rec(2) finishLeased_outcome(2) [OF lh, of job ro] by (simp add: run_failed_def Let_def)
  qed
qed

text \<open>What the result of a run allows.\<close>

definition may_run_again :: "run_once \<Rightarrow> spool_lease \<Rightarrow> envelope \<Rightarrow> bool" where
  "may_run_again ro l e =
     (case ro_run ro e of
        RunOverloaded _ _ \<Rightarrow> True
      | RunFailed err \<Rightarrow> \<not> re_ambiguous err \<and> (ro_shutdown ro \<or> re_canceled err \<or> \<not> recordable ro l e)
      | RunEvents _ _ \<Rightarrow> ro_fault ro FFinal \<or> \<not> recordable ro l e)"

definition may_close_unfinished :: "run_once \<Rightarrow> spool_lease \<Rightarrow> envelope \<Rightarrow> bool" where
  "may_close_unfinished ro l e =
     (case ro_run ro e of
        RunFailed err \<Rightarrow> re_missingJob err \<or> re_ambiguous err \<and> \<not> recordable ro l e
      | _ \<Rightarrow> False)"

text \<open>The worker does not forge the gateway's own failure event.\<close>

definition honest_run :: "run_once \<Rightarrow> spool_lease \<Rightarrow> envelope \<Rightarrow> bool" where
  "honest_run ro l e =
     (case ro_run ro e of RunEvents evs _ \<Rightarrow> (\<forall>ev \<in> set evs. we_EventID ev \<noteq> failure_ident ro l) | _ \<Rightarrow> True)"

text \<open>
  The same where others may have moved envelopes of other jobs meanwhile: the envelopes are those
  of some spool in which the lease was held, the one at the start if nobody else touched the spool.
\<close>

definition spool_idle :: "run_once \<Rightarrow> bool" where
  "spool_idle ro = (\<forall>c. cn_Spool (ro_before ro c) = cn_Spool c \<and> cn_Spool (ro_during ro c) = cn_Spool c)"

definition closed_as :: "run_once \<Rightarrow> spool_lease \<Rightarrow> consumer \<Rightarrow> consumer \<Rightarrow> bool \<Rightarrow> bool \<Rightarrow> bool" where
  "closed_as ro l c c' again lost =
     (\<exists>d. (spool_idle ro \<longrightarrow> cn_Spool d = cn_Spool c) \<and> outcome ro l d c' again lost)"

lemma outcome_closed_as: "outcome ro l d c' again lost \<Longrightarrow> spool_idle ro \<longrightarrow> cn_Spool d = cn_Spool c \<Longrightarrow> closed_as ro l c c' again lost"
  unfolding closed_as_def by blast

lemma outcome_closed_here: "outcome ro l d c' again lost \<Longrightarrow> cn_Spool d = cn_Spool c \<Longrightarrow> closed_as ro l c c' again lost"
  unfolding closed_as_def by blast

lemma closed_as_from: "closed_as ro l c1 c' again lost \<Longrightarrow> spool_idle ro \<longrightarrow> cn_Spool c1 = cn_Spool c \<Longrightarrow> closed_as ro l c c' again lost"
  unfolding closed_as_def by auto

lemma run_assigned_outcome:
  assumes h: "holding ro l e c" and e: "envelope_for ro l e" and d: "peaceful ro l (ro_during ro)" and w: "honest_run ro l e"
  shows "closed_as ro l c (snd (run_assigned ro l job e c)) (may_run_again ro l e) (may_close_unfinished ro l e)"
    "cn_Ran (snd (run_assigned ro l job e c)) = cn_Ran c @ [sl_JobID l]"
proof -
  let ?c1 = "ro_during ro (c\<lparr>cn_Ran := cn_Ran c @ [ev_JobID e]\<rparr>)"
  have "holding ro l e (c\<lparr>cn_Ran := cn_Ran c @ [ev_JobID e]\<rparr>)" using h by (simp add: holding_def)
  then have h1: "holding ro l e ?c1" and r1: "cn_Ran ?c1 = cn_Ran c @ [sl_JobID l]"
    using d e by (auto simp: peaceful_def envelope_for_def)
  have lh: "lease_held l (cn_Spool ?c1)" using h1 by (simp add: holding_def)
  have idle: "spool_idle ro \<longrightarrow> cn_Spool ?c1 = cn_Spool c" by (simp add: spool_idle_def)
  have "closed_as ro l c (snd (run_assigned ro l job e c)) (may_run_again ro l e) (may_close_unfinished ro l e)
    \<and> cn_Ran (snd (run_assigned ro l job e c)) = cn_Ran c @ [sl_JobID l]"
  proof (cases "ro_run ro e")
    case (RunEvents evs streamed)
    then have "\<forall>ev \<in> set evs. we_EventID ev \<noteq> failure_ident ro l" using w by (simp add: honest_run_def)
    from ingest_outcome [OF h1 e this, of streamed] RunEvents r1 show ?thesis
      by (auto simp: run_assigned_def Let_def may_run_again_def may_close_unfinished_def dest: outcome_closed_as [OF _ idle])
  next
    case (RunOverloaded reason retryAfter)
    let ?x = "snd (run_assigned ro l job e c)"
    have "cn_Spool ?x = RetryLease l (cn_Spool ?c1)" "cn_Ran ?x = cn_Ran ?c1"
      using RunOverloaded by (auto simp: run_assigned_def Let_def hold_back_def)
    then show ?thesis using RunOverloaded r1 outcome_closed_as [OF outcome_again [OF lh, of ?x True ro] idle]
      by (simp add: may_run_again_def)
  next
    case (RunFailed err)
    from run_failed_outcome [OF h1 e, of err] RunFailed r1 show ?thesis
      by (auto simp: run_assigned_def Let_def may_run_again_def may_close_unfinished_def dest: outcome_closed_as [OF _ idle])
  qed
  then show "closed_as ro l c (snd (run_assigned ro l job e c)) (may_run_again ro l e) (may_close_unfinished ro l e)"
    "cn_Ran (snd (run_assigned ro l job e c)) = cn_Ran c @ [sl_JobID l]" by blast+
qed

text \<open>
  The summary of a lease: where its envelope is, and whether the job was handed to the runner.
  One that was not run went back only if something held it back, and ended unfinished only if it
  was refused (\<open>bad\<close>).
\<close>

definition held_back :: "run_once \<Rightarrow> bool" where
  "held_back ro =
     (ro_fault ro FGet \<or> ro_fault ro FAssign \<or> ro_exec ro = ExecFailed \<or> ro_exec ro = ExecHeldElsewhere \<or>
      \<not> ro_slotFree ro \<or> ro_lane ro \<noteq> None)"

definition lease_result :: "run_once \<Rightarrow> spool_lease \<Rightarrow> envelope \<Rightarrow> consumer \<Rightarrow> consumer \<Rightarrow> bool \<Rightarrow> bool" where
  "lease_result ro l e c c' bad =
     (cn_Ran c' = cn_Ran c \<and> closed_as ro l c c' (held_back ro) bad \<or>
      cn_Ran c' = cn_Ran c @ [sl_JobID l] \<and> closed_as ro l c c' (may_run_again ro l e) (may_close_unfinished ro l e))"

lemma assign_and_run_result:
  assumes h: "holding ro l e c" and e: "envelope_for ro l e" and d: "peaceful ro l (ro_during ro)" and w: "honest_run ro l e"
    and j: "job_ID job = sl_JobID l"
  shows "lease_result ro l e c (snd (assign_and_run ro l job e c)) bad"
proof -
  let ?c = "c\<lparr>cn_Holds := hold_Clear (job_ID job) (cn_Holds c)\<rparr>"
  have hc: "holding ro l e ?c" using h by (simp add: holding_def)
  then have lh: "lease_held l (cn_Spool ?c)" by (simp add: holding_def)
  show ?thesis
  proof (cases "ro_fault ro FAssign")
    case True
    have "outcome ro l ?c (on_spool (RetryLease l) ?c) (held_back ro) bad" using lh True by (intro outcome_again) (auto simp: held_back_def)
    then show ?thesis using True by (auto simp: assign_and_run_def Let_def lease_result_def dest: outcome_closed_here)
  next
    case False
    obtain m r where u: "UpdateStatus (job_ID job) StatusAssigned (cn_Jobs ?c) = (m, r)" by fastforce
    have hm: "holding ro l e (?c\<lparr>cn_Jobs := m\<rparr>)"
      using store_fit_update [of ro l e "cn_Jobs ?c" "job_ID job" StatusAssigned] hc u by (simp add: holding_def)
    then have lm: "lease_held l (cn_Spool (?c\<lparr>cn_Jobs := m\<rparr>))" by (simp add: holding_def)
    obtain old where old: "ms_jobs (cn_Jobs c) (job_ID job) = Some old"
      using h e j by (auto simp: holding_def store_fit_def job_of_def envelope_for_def)
    have ok: "store_ok (cn_Jobs c)" using h by (simp add: holding_def store_fit_def)
    obtain new f where new: "r = Inr (Some new, f)" "ms_jobs m (job_ID job) = Some new"
      using u old jobs_okD [OF ok old]
      by (auto simp: UpdateStatus_def KnownStatus_def set_status_def Let_def split: if_splits)
    show ?thesis
    proof (cases "TerminalStatus (job_Status new)")
      case True
      have "outcome ro l (?c\<lparr>cn_Jobs := m\<rparr>) (snd (finishTerminalLeasedJob ro l new (?c\<lparr>cn_Jobs := m\<rparr>))) (held_back ro) bad"
        "cn_Ran (snd (finishTerminalLeasedJob ro l new (?c\<lparr>cn_Jobs := m\<rparr>))) = cn_Ran c"
        using finishLeased_outcome(1) [OF lm, of new ro "held_back ro" bad] finishLeased_outcome(2) [OF lm, of new ro] new(2) True j by simp_all
      then show ?thesis using False u new(1) True
        by (auto simp: assign_and_run_def Let_def lease_result_def dest: outcome_closed_here)
    next
      case live: False
      show ?thesis using False u new(1) live run_assigned_outcome [OF hm e d w, of job]
          closed_as_from [OF run_assigned_outcome(1) [OF hm e d w, of job], of c]
        by (simp add: assign_and_run_def Let_def lease_result_def)
    qed
  qed
qed

lemma hold_back_result:
  assumes "lease_held l (cn_Spool c)" "cn_Ran c = cn_Ran c0" "spool_idle ro \<longrightarrow> cn_Spool c = cn_Spool c0"
    "held_back ro"
  shows "lease_result ro l e c0 (snd (hold_back ro l job reason delay assigned c)) bad"
proof -
  let ?x = "snd (hold_back ro l job reason delay assigned c)"
  have "cn_Spool ?x = RetryLease l (cn_Spool c)" "cn_Ran ?x = cn_Ran c0" using assms(2) by (simp_all add: hold_back_def)
  then show ?thesis using outcome_closed_as [OF outcome_again [OF assms(1), of ?x "held_back ro" ro bad] assms(3)] assms(4) by (simp add: lease_result_def)
qed

text \<open>The fit of the state to a lease just granted.\<close>

definition granted :: "run_once \<Rightarrow> spool_lease \<Rightarrow> consumer \<Rightarrow> bool" where
  "granted ro l c =
     (lease_held l (cn_Spool c) \<and> store_ok (cn_Jobs c) \<and> failure_key ro l \<notin> ms_eventKey (cn_Jobs c) (sl_JobID l))"

definition refused_lease :: "run_once \<Rightarrow> spool_lease \<Rightarrow> consumer \<Rightarrow> bool" where
  "refused_lease ro l c =
     (case ms_jobs (cn_Jobs c) (sl_JobID l) of
        None \<Rightarrow> True
      | Some job \<Rightarrow> \<not> validateLeaseEnvelope (ro_marshal ro) job (sl_Envelope l))"

lemma consume_lease_result:
  assumes g: "granted ro l c" and b: "peaceful ro l (ro_before ro)" and d: "peaceful ro l (ro_during ro)"
    and w: "\<And>job. ms_jobs (cn_Jobs c) (sl_JobID l) = Some job \<Longrightarrow> e = leased_envelope ro l job \<and> honest_run ro l e"
  shows "lease_result ro l e c (snd (consume_lease ro l c)) (refused_lease ro l c)"
proof -
  let ?bad = "refused_lease ro l c"
  have lh: "lease_held l (cn_Spool c)" and ok: "store_ok (cn_Jobs c)" using g by (simp_all add: granted_def)
  have retry: "lease_result ro l e c (on_spool (RetryLease l) c) ?bad" if "held_back ro"
  proof -
    have "outcome ro l c (on_spool (RetryLease l) c) (held_back ro) ?bad" using lh that by (intro outcome_again) auto
    then show ?thesis by (auto simp: lease_result_def dest: outcome_closed_here)
  qed
  show ?thesis
  proof (cases "ro_fault ro FGet")
    case True
    then show ?thesis using retry by (simp add: consume_lease_def held_back_def)
  next
    case get: False
    have fail: "lease_result ro l e c (on_spool (FailLease l) c) ?bad" if ?bad
    proof -
      have "outcome ro l c (on_spool (FailLease l) c) (held_back ro) ?bad" using lh that by (intro outcome_closed) auto
      then show ?thesis by (auto simp: lease_result_def dest: outcome_closed_here)
    qed
    show ?thesis
    proof (cases "ms_jobs (cn_Jobs c) (sl_JobID l)")
      case None
      then show ?thesis using fail get by (simp add: consume_lease_def refused_lease_def)
    next
      case (Some job)
      then have j: "job_ID job = sl_JobID l" using jobs_okD [OF ok Some] by simp
      show ?thesis
      proof (cases "validateLeaseEnvelope (ro_marshal ro) job (sl_Envelope l)")
        case False
        then show ?thesis using fail get Some by (simp add: consume_lease_def refused_lease_def)
      next
        case valid: True
        have e: "e = leased_envelope ro l job" and hr: "honest_run ro l e" using w [OF Some] by auto
        have ef: "envelope_for ro l e" and ej: "job_of e (cn_Jobs c)"
          using leased_envelope_for [OF j, of ro] Some e by (auto simp: job_of_def envelope_for_def)
        have h: "holding ro l e c" using g ej by (simp add: granted_def holding_def store_fit_def)
        show ?thesis
        proof (cases "TerminalStatus (job_Status job)")
          case True
          let ?c = "c\<lparr>cn_Holds := hold_Clear (job_ID job) (cn_Holds c)\<rparr>"
          have "outcome ro l ?c (snd (finishTerminalLeasedJob ro l job ?c)) (held_back ro) ?bad" "cn_Ran (snd (finishTerminalLeasedJob ro l job ?c)) = cn_Ran c"
            using finishLeased_outcome(1) [of l ?c job ro "held_back ro" ?bad] finishLeased_outcome(2) [of l ?c job ro] lh Some True by simp_all
          then show ?thesis using get Some valid True
            by (auto simp: consume_lease_def Let_def lease_result_def dest: outcome_closed_here)
        next
          case live: False
          let ?c1 = "ro_before ro c"
          have h1: "holding ro l e ?c1" and r1: "cn_Ran ?c1 = cn_Ran c" using b h by (auto simp: peaceful_def)
          then have lh1: "lease_held l (cn_Spool ?c1)" by (simp add: holding_def)
          have idle: "spool_idle ro \<longrightarrow> cn_Spool ?c1 = cn_Spool c" by (simp add: spool_idle_def)
          have run: "lease_result ro l e c (snd (assign_and_run ro l job e ?c1)) ?bad"
            using assign_and_run_result [OF h1 ef d hr j, of ?bad] r1 closed_as_from [OF _ idle] by (auto simp: lease_result_def)
          show ?thesis
            using get Some valid live e retry run hold_back_result [OF lh1 r1 idle]
            by (cases "ro_exec ro") (auto simp: consume_lease_def Let_def held_back_def split: option.split)
        qed
      qed
    qed
  qed
qed

end
