(* ===== verification/ConsumerProps.thy ===== *)
theory ConsumerProps
  imports ConsumerInv
begin

text \<open>
  The properties of the worker consumer: no job is dropped, what was submitted is not run again,
  and a loop over \<open>RunOnce\<close> empties the queue.
\<close>

subsection \<open>What LeaseNext grants\<close>

lemma notBeforeDeferred_keeps:
  assumes "spool_ok s"
  shows "spool_ok (snd (notBeforeDeferred co now name s))"
proof -
  have "spool_names d (snd (notBeforeDeferred co now name s)) = spool_names d s"
      "sp_terminalIDs (snd (notBeforeDeferred co now name s)) = sp_terminalIDs s" for d
    by (auto simp: notBeforeDeferred_def spool_names_def split: option.splits)
  then show ?thesis using spool_ok_cong [OF assms] by simp
qed

lemma pruneNotBefore_keeps: "spool_ok s \<Longrightarrow> spool_ok (pruneNotBefore names s)"
  by (rule spool_ok_cong) (simp_all add: pruneNotBefore_def spool_names_def)

lemma try_leases_granted:
  assumes "\<And>n s. spool_ok s \<Longrightarrow> spool_ok (race n s)" "spool_ok s" "try_leases race co now claim names s = (r, t)"
  shows "spool_ok t" "r = LeaseGranted l \<Longrightarrow> lease_held l t"
proof -
  have "spool_ok t \<and> (r = LeaseGranted l \<longrightarrow> lease_held l t)"
    using assms(2,3)
  proof (induction names arbitrary: s)
    case (Cons n ns)
    obtain b s1 where d: "(if sp_honorNotBefore s then notBeforeDeferred co now n s else (False, s)) = (b, s1)" by fastforce
    have ok1: "spool_ok s1" using notBeforeDeferred_keeps [OF Cons.prems(1), of co now n] d Cons.prems(1) by (auto split: if_splits)
    show ?case
    proof (cases b)
      case True
      then show ?thesis using Cons.IH [OF ok1] Cons.prems(2) d by simp
    next
      case False
      have okr: "spool_ok (race n s1)" using assms(1) ok1 by simp
      obtain r2 s2 where t: "tryLease co (claim n) n (race n s1) = (r2, s2)" by fastforce
      from okr t show ?thesis
      proof (cases rule: tryLease_effect)
        case lost
        then show ?thesis using Cons.IH [OF okr] Cons.prems(2) d False t by simp
      next
        case (refused j e)
        then show ?thesis using Cons.prems(2) d False t by auto
      next
        case (granted j l')
        then show ?thesis using Cons.prems(2) d False t by (auto simp: lease_held_def)
      qed
    qed
  qed auto
  then show "spool_ok t" "r = LeaseGranted l \<Longrightarrow> lease_held l t" by auto
qed

lemma LeaseNext_granted:
  assumes "\<And>n s. spool_ok s \<Longrightarrow> spool_ok (race n s)" "spool_ok s" "spool_LeaseNext race co now claim s = (r, t)"
  shows "spool_ok t" "r = LeaseGranted l \<Longrightarrow> lease_held l t"
proof -
  let ?names = "filter (suffix json_ext) (sort (spool_names DirPending s))"
  let ?s1 = "if sp_honorNotBefore s then pruneNotBefore ?names s else s"
  have "spool_ok t \<and> (r = LeaseGranted l \<longrightarrow> lease_held l t)"
  proof (cases "?names = []")
    case True
    then show ?thesis using assms(2,3) by (simp add: spool_LeaseNext_def)
  next
    case False
    have "spool_ok ?s1" using assms(2) pruneNotBefore_keeps [OF assms(2)] by simp
    moreover have "try_leases race co now claim (lease_order ?names) ?s1 = (r, t)"
      using assms(3) False unfolding spool_LeaseNext_def Let_def by (simp only: if_False)
    ultimately show ?thesis using try_leases_granted(1) [of race ?s1 co now claim "lease_order ?names" r t]
        try_leases_granted(2) [of race ?s1 co now claim "lease_order ?names" r t l] assms(1) by blast
  qed
  then show "spool_ok t" "r = LeaseGranted l \<Longrightarrow> lease_held l t" by blast+
qed

text \<open>The setting of the theorems: a lease \<open>l\<close> is granted in a well-formed state.\<close>

definition leases :: "run_once \<Rightarrow> consumer \<Rightarrow> spool_lease \<Rightarrow> bool" where
  "leases ro c l =
     (fst (spool_LeaseNext (ro_race ro) (ro_codec ro) (ro_now ro) (ro_claim ro) (cn_Spool c)) = LeaseGranted l)"

definition consumer_ok :: "run_once \<Rightarrow> consumer \<Rightarrow> bool" where
  "consumer_ok ro c = (spool_ok (cn_Spool c) \<and> store_ok (cn_Jobs c) \<and> (\<forall>n s. spool_ok s \<longrightarrow> spool_ok (ro_race ro n s)))"

definition stored_envelope :: "run_once \<Rightarrow> spool_lease \<Rightarrow> consumer \<Rightarrow> envelope option" where
  "stored_envelope ro l c = map_option (leased_envelope ro l) (ms_jobs (cn_Jobs c) (sl_JobID l))"

text \<open>Nobody forges the failure event of the lease, and others leave the lease to its holder.\<close>

definition undisturbed :: "run_once \<Rightarrow> spool_lease \<Rightarrow> consumer \<Rightarrow> bool" where
  "undisturbed ro l c =
     (failure_key ro l \<notin> ms_eventKey (cn_Jobs c) (sl_JobID l) \<and> peaceful ro l (ro_before ro) \<and> peaceful ro l (ro_during ro) \<and>
      pred_option (honest_run ro l) (stored_envelope ro l c))"

lemma RunOnce_result:
  assumes "consumer_ok ro c" "leases ro c l" "undisturbed ro l c"
  obtains s where "snd (spool_LeaseNext (ro_race ro) (ro_codec ro) (ro_now ro) (ro_claim ro) (cn_Spool c)) = s" "lease_held l s"
    "\<And>e. pred_option ((=) e) (stored_envelope ro l c) \<Longrightarrow>
       lease_result ro l e (c\<lparr>cn_Spool := s\<rparr>) (snd (RunOnce ro c)) (refused_lease ro l c)"
proof -
  obtain s where n: "spool_LeaseNext (ro_race ro) (ro_codec ro) (ro_now ro) (ro_claim ro) (cn_Spool c) = (LeaseGranted l, s)"
    using assms(2) by (metis leases_def prod.collapse)
  have ok: "spool_ok (cn_Spool c)" "store_ok (cn_Jobs c)" and race: "\<And>n s. spool_ok s \<Longrightarrow> spool_ok (ro_race ro n s)"
    using assms(1) by (simp_all add: consumer_ok_def)
  have lh: "lease_held l s" by (rule LeaseNext_granted(2) [OF race ok(1) n refl])
  let ?c = "c\<lparr>cn_Spool := s\<rparr>"
  have g: "granted ro l ?c" using lh ok(2) assms(3) by (simp add: granted_def undisturbed_def)
  have "lease_result ro l e ?c (snd (RunOnce ro c)) (refused_lease ro l c)" if e: "pred_option ((=) e) (stored_envelope ro l c)" for e
  proof -
    have "e = leased_envelope ro l job \<and> honest_run ro l e" if "ms_jobs (cn_Jobs ?c) (sl_JobID l) = Some job" for job
      using assms(3) e that by (simp add: undisturbed_def stored_envelope_def)
    from consume_lease_result [OF g _ _ this] assms(3) show ?thesis
      by (simp add: RunOnce_def n undisturbed_def refused_lease_def)
  qed
  then show thesis using that [of s] n lh by simp
qed

lemma lease_result_place:
  assumes "lease_result ro l e c c' bad"
  shows "spool_ok (cn_Spool c')"
    "spool_view (cn_Spool c') (sl_JobID l) = JQueued \<or> spool_view (cn_Spool c') (sl_JobID l) = JEnded"
    "spool_view (cn_Spool c') (sl_JobID l) = JEnded \<Longrightarrow>
       ended_in (sl_JobID l) (cn_Jobs c') \<or> bad \<or> cn_Ran c' \<noteq> cn_Ran c \<and> may_close_unfinished ro l e"
    "spool_view (cn_Spool c') (sl_JobID l) = JQueued \<Longrightarrow>
       ended_in (sl_JobID l) (cn_Jobs c') \<or> cn_Ran c' = cn_Ran c \<or> may_run_again ro l e"
  using assms by (auto simp: lease_result_def closed_as_def outcome_def settled_as_def split: if_splits)

subsection \<open>No job is dropped\<close>

text \<open>C11. After \<open>RunOnce\<close> took a lease, whatever fails meanwhile (any store call, the runner, the notifier,
  a shutdown), the job's envelope is back in the queue or ended, never stuck in the hands of the
  consumer. It ended only if the job has ended in the store, or the lease was refused (the
  store does not know the job, or the envelope is not that of the job), or the worker stream
  found the job missing, or a failure after the submission could not be recorded, which must
  not be run again.
\<close>

theorem no_job_is_dropped:
  assumes "consumer_ok ro c" "leases ro c l" "undisturbed ro l c"
  shows "(let c' = snd (RunOnce ro c); j = sl_JobID l; place = spool_view (cn_Spool c') j in
    (place = JQueued \<or> place = JEnded) \<and>
    (place = JEnded \<longrightarrow>
       ended_in j (cn_Jobs c') \<or>
       (case ms_jobs (cn_Jobs c) j of
          None \<Rightarrow> True
        | Some job \<Rightarrow>
            \<not> validateLeaseEnvelope (ro_marshal ro) job (sl_Envelope l) \<or>
            (case ro_run ro (leased_envelope ro l job) of
               RunFailed err \<Rightarrow> re_missingJob err \<or> re_ambiguous err \<and> \<not> recordable ro l (leased_envelope ro l job)
             | _ \<Rightarrow> False))))"
proof -
  define e where "e = (case stored_envelope ro l c of Some e \<Rightarrow> e | None \<Rightarrow> undefined)"
  have "pred_option ((=) e) (stored_envelope ro l c)" by (simp add: e_def split: option.split)
  with RunOnce_result [OF assms] obtain s where
      r: "lease_result ro l e (c\<lparr>cn_Spool := s\<rparr>) (snd (RunOnce ro c)) (refused_lease ro l c)" by blast
  have bad: "refused_lease ro l c \<or> may_close_unfinished ro l e \<Longrightarrow>
     (case ms_jobs (cn_Jobs c) (sl_JobID l) of
          None \<Rightarrow> True
        | Some job \<Rightarrow>
            \<not> validateLeaseEnvelope (ro_marshal ro) job (sl_Envelope l) \<or>
            (case ro_run ro (leased_envelope ro l job) of
               RunFailed err \<Rightarrow> re_missingJob err \<or> re_ambiguous err \<and> \<not> recordable ro l (leased_envelope ro l job)
             | _ \<Rightarrow> False))"
    by (auto simp: refused_lease_def may_close_unfinished_def e_def stored_envelope_def o_def split: option.splits run_result.splits)
  show ?thesis using lease_result_place(2,3) [OF r] bad unfolding Let_def by blast
qed

subsection \<open>What was submitted is not run again\<close>

text \<open>C12. A job whose run failed with the mark that the prompt had been submitted never goes back to the queue
  unfinished, whatever else fails: it has ended in the store, or its envelope has ended. A job whose run
  returned events goes back unfinished in two cases only: the store did not take the gateway's own failure
  event, or it did not answer the final read. (In the first of them the code replays a prompt it may know to
  be submitted, see \<open>unrecorded_ingest_failure_replays\<close>.)
\<close>

theorem submitted_prompt_replay_is_confined:
  assumes "consumer_ok ro c" "leases ro c l" "undisturbed ro l c"
    and "ms_jobs (cn_Jobs c) (sl_JobID l) = Some job"
    and "case ro_run ro (leased_envelope ro l job) of RunEvents _ _ \<Rightarrow> True | RunFailed err \<Rightarrow> re_ambiguous err | RunOverloaded _ _ \<Rightarrow> False"
    and "cn_Ran (snd (RunOnce ro c)) \<noteq> cn_Ran c"
  shows "ended_in (sl_JobID l) (cn_Jobs (snd (RunOnce ro c))) \<or> spool_view (cn_Spool (snd (RunOnce ro c))) (sl_JobID l) = JEnded \<or>
    (case ro_run ro (leased_envelope ro l job) of
       RunEvents _ _ \<Rightarrow> ro_fault ro FFinal \<or> \<not> recordable ro l (leased_envelope ro l job)
     | _ \<Rightarrow> False)"
proof -
  let ?e = "leased_envelope ro l job"
  have "pred_option ((=) ?e) (stored_envelope ro l c)" using assms(4) by (simp add: stored_envelope_def)
  with RunOnce_result [OF assms(1-3)] obtain s where
      r: "lease_result ro l ?e (c\<lparr>cn_Spool := s\<rparr>) (snd (RunOnce ro c)) (refused_lease ro l c)" by blast
  have "may_run_again ro l ?e \<Longrightarrow> (case ro_run ro ?e of RunEvents _ _ \<Rightarrow> ro_fault ro FFinal \<or> \<not> recordable ro l ?e | _ \<Rightarrow> False)"
    using assms(5) by (simp add: may_run_again_def split: run_result.splits)
  then show ?thesis using lease_result_place(2,4) [OF r] assms(6) by auto
qed

subsection \<open>The loop empties the queue\<close>

lemma serial_rounds_fold: "snd (serial_rounds poll idleMax errors streak ros c) = fold (\<lambda>ro c. snd (RunOnce ro c)) ros c"
  by (induction poll idleMax errors streak ros c rule: serial_rounds.induct) (auto split: prod.split once_result.split)

text \<open>
  A round in which nothing fails that sends a job back: no store call, no held job, no run that
  may be repeated.
\<close>

definition smooth :: "run_once \<Rightarrow> consumer \<Rightarrow> bool" where
  "smooth ro c =
     (consumer_ok ro c \<and> ro_race ro = (\<lambda>_ s. s) \<and> \<not> sp_honorNotBefore (cn_Spool c) \<and> spool_idle ro \<and> \<not> held_back ro \<and> \<not> notify_down ro \<and>
      (\<forall>l. leases ro c l \<longrightarrow> undisturbed ro l c \<and> pred_option (\<lambda>e. \<not> may_run_again ro l e) (stored_envelope ro l c)))"

fun all_smooth :: "run_once list \<Rightarrow> consumer \<Rightarrow> bool" where
  "all_smooth [] c = True"
| "all_smooth (ro # ros) c = (smooth ro c \<and> all_smooth ros (snd (RunOnce ro c)))"

definition queued_jobs :: "consumer \<Rightarrow> string set" where
  "queued_jobs c = {j. spool_view (cn_Spool c) j = JQueued}"

lemma queued_jobs_names:
  assumes "spool_ok (cn_Spool c)"
  shows "finite (queued_jobs c)" "card (queued_jobs c) \<le> length (spool_names DirPending (cn_Spool c))"
    "queued_jobs c = {} \<longleftrightarrow> spool_names DirPending (cn_Spool c) = []"
proof -
  have q: "queued_jobs c = jobs_in DirPending (cn_Spool c)" using view_queued [OF assms] by (auto simp: queued_jobs_def)
  then show "finite (queued_jobs c)" "queued_jobs c = {} \<longleftrightarrow> spool_names DirPending (cn_Spool c) = []" by (auto simp: jobs_in_def)
  show "card (queued_jobs c) \<le> length (spool_names DirPending (cn_Spool c))"
    unfolding q jobs_in_def by (meson card_image_le card_length le_trans List.finite_set)
qed

lemma smooth_round:
  assumes s: "smooth ro c"
  shows "spool_ok (cn_Spool (snd (RunOnce ro c)))"
    "queued_jobs c = {} \<and> spool_view (cn_Spool (snd (RunOnce ro c))) = spool_view (cn_Spool c) \<or>
     (\<exists>j. j \<in> queued_jobs c \<and> spool_view (cn_Spool (snd (RunOnce ro c))) = (spool_view (cn_Spool c))(j := JEnded))"
proof -
  let ?s = "cn_Spool c" and ?c' = "snd (RunOnce ro c)"
  have ok: "spool_ok ?s" and race: "ro_race ro = (\<lambda>_ s. s)" and off: "\<not> sp_honorNotBefore ?s"
    using s by (auto simp: smooth_def consumer_ok_def)
  have "spool_ok (cn_Spool ?c') \<and>
     (queued_jobs c = {} \<and> spool_view (cn_Spool ?c') = spool_view ?s \<or>
      (\<exists>j. j \<in> queued_jobs c \<and> spool_view (cn_Spool ?c') = (spool_view ?s)(j := JEnded)))"
  proof (cases "spool_names DirPending ?s = []")
    case True
    then have "spool_LeaseNext (ro_race ro) (ro_codec ro) (ro_now ro) (ro_claim ro) ?s = (LeaseLost, ?s)"
      unfolding race LeaseNext_oldest [OF ok off] by simp
    then show ?thesis using ok True queued_jobs_names(3) [OF ok] by (simp add: RunOnce_def)
  next
    case False
    let ?n = "Min (set (spool_names DirPending ?s))"
    obtain r t where t: "tryLease (ro_codec ro) (ro_claim ro ?n) ?n ?s = (r, t)" by fastforce
    then have ln: "spool_LeaseNext (ro_race ro) (ro_codec ro) (ro_now ro) (ro_claim ro) ?s = (r, t)"
      unfolding race LeaseNext_oldest [OF ok off] using False by (simp add: Let_def)
    have "?n \<in> set (spool_names DirPending ?s)" using False by (intro Min_in) simp_all
    from ok t show ?thesis
    proof (cases rule: tryLease_effect)
      case lost
      then show ?thesis using \<open>?n \<in> _\<close> by simp
    next
      case (refused j e)
      then have "spool_view (cn_Spool ?c') = (spool_view ?s)(j := JEnded)" "spool_ok (cn_Spool ?c')" by (simp_all add: RunOnce_def ln)
      then show ?thesis using refused(3) unfolding queued_jobs_def by blast
    next
      case (granted j l)
      have le: "leases ro c l" using ln granted(4) by (simp add: leases_def)
      then have u: "undisturbed ro l c" and nr: "pred_option (\<lambda>e. \<not> may_run_again ro l e) (stored_envelope ro l c)"
        using s by (auto simp: smooth_def)
      define e where "e = (case stored_envelope ro l c of Some e \<Rightarrow> e | None \<Rightarrow> undefined)"
      have pe: "pred_option ((=) e) (stored_envelope ro l c)" by (simp add: e_def split: option.split)
      have cok: "consumer_ok ro c" using s by (simp add: smooth_def)
      obtain s' where s': "snd (spool_LeaseNext (ro_race ro) (ro_codec ro) (ro_now ro) (ro_claim ro) ?s) = s'"
          and r: "lease_result ro l e (c\<lparr>cn_Spool := s'\<rparr>) ?c' (refused_lease ro l c)"
        using RunOnce_result [OF cok le u] pe by blast
      have t': "s' = t" using s' ln by simp
      have closed: "\<exists>queued. settled_as l t (cn_Spool ?c') queued \<and> (queued \<longrightarrow> held_back ro \<or> cn_Ran ?c' \<noteq> cn_Ran c \<and> may_run_again ro l e \<or> notify_down ro)"
      proof -
        have "spool_idle ro" using s by (simp add: smooth_def)
        then show ?thesis using r unfolding t' lease_result_def closed_as_def outcome_def by (auto split: if_splits)
      qed
      moreover have "\<not> (cn_Ran ?c' \<noteq> cn_Ran c \<and> may_run_again ro l e)"
      proof (cases "stored_envelope ro l c")
        case None
        then have "ms_jobs (cn_Jobs c) (sl_JobID l) = None" by (simp add: stored_envelope_def)
        then have "cn_Ran ?c' = cn_Ran c"
          using ln granted(4) by (simp add: RunOnce_def consume_lease_def)
        then show ?thesis by simp
      next
        case (Some e')
        then show ?thesis using nr by (simp add: e_def)
      qed
      ultimately have "settled_as l t (cn_Spool ?c') False" using s by (auto simp: smooth_def)
      then have "spool_ok (cn_Spool ?c')" "spool_view (cn_Spool ?c') = (spool_view ?s)(j := JEnded)"
        using granted by (simp_all add: settled_as_def)
      then show ?thesis using granted(3) unfolding queued_jobs_def by blast
    qed
  qed
  then show "spool_ok (cn_Spool ?c')"
    "queued_jobs c = {} \<and> spool_view (cn_Spool ?c') = spool_view ?s \<or>
     (\<exists>j. j \<in> queued_jobs c \<and> spool_view (cn_Spool ?c') = (spool_view ?s)(j := JEnded))" by blast+
qed

lemma smooth_rounds:
  assumes "all_smooth ros c" "spool_ok (cn_Spool c)"
  shows "let c' = fold (\<lambda>ro c. snd (RunOnce ro c)) ros c in
    spool_ok (cn_Spool c') \<and> card (queued_jobs c') = card (queued_jobs c) - length ros \<and>
    (\<forall>j. spool_view (cn_Spool c') j = spool_view (cn_Spool c) j \<or> j \<in> queued_jobs c \<and> spool_view (cn_Spool c') j = JEnded)"
  using assms
proof (induction ros arbitrary: c)
  case (Cons ro ros)
  let ?c1 = "snd (RunOnce ro c)"
  have r: "smooth ro c" and rest: "all_smooth ros ?c1" using Cons.prems(1) by simp_all
  note sr = smooth_round [OF r]
  note IH = Cons.IH [OF rest sr(1), unfolded Let_def]
  from sr(2) show ?case
  proof
    assume n: "queued_jobs c = {} \<and> spool_view (cn_Spool ?c1) = spool_view (cn_Spool c)"
    then have "queued_jobs ?c1 = queued_jobs c" by (simp add: queued_jobs_def)
    then show ?thesis using IH n by (simp add: Let_def)
  next
    assume "\<exists>j. j \<in> queued_jobs c \<and> spool_view (cn_Spool ?c1) = (spool_view (cn_Spool c))(j := JEnded)"
    then obtain j where j: "j \<in> queued_jobs c" "spool_view (cn_Spool ?c1) = (spool_view (cn_Spool c))(j := JEnded)" by blast
    then have q: "queued_jobs ?c1 = queued_jobs c - {j}" by (auto simp: queued_jobs_def)
    then have "card (queued_jobs ?c1) = card (queued_jobs c) - 1" using j(1) queued_jobs_names(1) [OF Cons.prems(2)] by simp
    moreover have "spool_view (cn_Spool (fold (\<lambda>ro c. snd (RunOnce ro c)) ros ?c1)) i = spool_view (cn_Spool c) i \<or>
        i \<in> queued_jobs c \<and> spool_view (cn_Spool (fold (\<lambda>ro c. snd (RunOnce ro c)) ros ?c1)) i = JEnded" for i
      using conjunct2 [OF conjunct2 [OF IH], rule_format, of i] j q by (cases "i = j") auto
    ultimately show ?thesis using IH by (simp add: Let_def)
  qed
qed (simp add: Let_def)

text \<open>C14. A serial worker whose rounds are smooth empties the queue within as many rounds as there are
  pending envelopes: afterwards nothing is pending and every job that was queued has ended.
\<close>

theorem serial_worker_drains_queue:
  assumes "all_smooth ros c" "spool_ok (cn_Spool c)" "length (spool_names DirPending (cn_Spool c)) \<le> length ros"
  shows "spool_names DirPending (cn_Spool (snd (runSerial poll idleMax ros c))) = []
    \<and> (\<forall>j. spool_view (cn_Spool (snd (runSerial poll idleMax ros c))) j =
         (if spool_view (cn_Spool c) j = JQueued then JEnded else spool_view (cn_Spool c) j))"
proof -
  let ?c' = "snd (runSerial poll idleMax ros c)"
  have r: "spool_ok (cn_Spool ?c')" "card (queued_jobs ?c') = card (queued_jobs c) - length ros"
    "\<forall>j. spool_view (cn_Spool ?c') j = spool_view (cn_Spool c) j \<or> j \<in> queued_jobs c \<and> spool_view (cn_Spool ?c') j = JEnded"
    using smooth_rounds [OF assms(1,2)] by (simp_all add: runSerial_def serial_rounds_fold Let_def)
  have "card (queued_jobs ?c') = 0" using r(2) queued_jobs_names(2) [OF assms(2)] assms(3) by simp
  then have none: "queued_jobs ?c' = {}" using queued_jobs_names(1) [OF r(1)] by simp
  then have "spool_view (cn_Spool ?c') j = (if spool_view (cn_Spool c) j = JQueued then JEnded else spool_view (cn_Spool c) j)" for j
  proof -
    have "spool_view (cn_Spool ?c') j \<noteq> JQueued" using none by (auto simp: queued_jobs_def)
    then show ?thesis using r(3) [rule_format, of j] by (auto simp: queued_jobs_def)
  qed
  then show ?thesis using none queued_jobs_names(3) [OF r(1)] by simp
qed

subsection \<open>Others at work\<close>

text \<open>A status change by another goroutine (a cancel, the stale-job reaper) leaves the lease to its holder.\<close>

lemma status_change_is_peaceful: "peaceful ro l (\<lambda>c. c\<lparr>cn_Jobs := fst (UpdateStatus i st (cn_Jobs c))\<rparr>)"
  using store_fit_update unfolding peaceful_def holding_def by simp

lemma nothing_is_peaceful: "peaceful ro l (\<lambda>c. c)"
  by (simp add: peaceful_def)

subsection \<open>A submitted prompt can be replayed after all\<close>

lemma unrecorded_ingest_failure_replays:
  assumes "lease_held l (cn_Spool c)" "ro_fault ro FFailure" "ro_strict ro"
    "ev \<in> set evs" "we_Type ev = promptSubmittedEventType" "list_all (\<lambda>n. normalizeWorkerEvent e n = Some n) (dropStaleAttemptEvents e evs)"
    "list_all (\<lambda>n. \<not> terminalWorkerEventType (we_Type n)) evs"
  shows "spool_view (cn_Spool (snd (ingest ro l e evs streamed c))) (sl_JobID l) = JQueued \<and> cn_Jobs (snd (ingest ro l e evs streamed c)) = cn_Jobs c"
proof -
  let ?evs = "dropStaleAttemptEvents e evs"
  have n: "normalize_all e ns = Inr ns" if "list_all (\<lambda>n. normalizeWorkerEvent e n = Some n) ns" for ns
    using that by (induction ns) simp_all
  have "filter (\<lambda>n. terminalWorkerEventType (we_Type n)) ?evs = []"
    using assms(7) dropped_subset [of e evs] by (auto simp: filter_empty_conv list_all_iff)
  moreover have "evs \<noteq> []" using assms(4) by auto
  ultimately have i: "snd (ingest ro l e evs streamed c) = on_spool (RetryLease l) c"
    using n [OF assms(6)] assms(2) by (simp add: ingest_def Let_def ingest_failure_def applyFailure_def)
  have "spool_view (RetryLease l (cn_Spool c)) (sl_JobID l) = JQueued"
    using assms(1) RetryLease_effect(2) [of "cn_Spool c" l] by (simp add: lease_held_def)
  then show ?thesis using i by simp
qed

subsection \<open>Witnesses\<close>

definition wit_consumer :: consumer where
  "wit_consumer = \<lparr>cn_Jobs = fst (Create wit_request (NewMemoryStore wit_clock)), cn_Spool = wit_queued, cn_Holds = [],
     cn_Concurrency = undefined, cn_Ran = [], cn_Notified = []\<rparr>"

text \<open>A run that fails after the submission while another goroutine cancels the job in the store.\<close>

definition wit_error :: run_error where
  "wit_error = (plain_error ''connection lost'')\<lparr>re_ambiguous := True\<rparr>"

definition wit_once :: run_once where
  "wit_once = \<lparr>ro_env = wit_env\<lparr>marshal_len := \<lambda>_. 100\<rparr>, ro_codec = wit_codec, ro_marshal = (\<lambda>_. None), ro_digest = (\<lambda>_. ''0a''),
     ro_text = (\<lambda>_. []), ro_resolve = None, ro_strict = True, ro_attemptIDs = False, ro_now = wit_time 6, ro_claim = (\<lambda>_. wit_time 6),
     ro_race = (\<lambda>_ s. s), ro_fault = (\<lambda>_. False), ro_exec = ExecOff, ro_slotFree = True, ro_lane = None, ro_before = (\<lambda>c. c),
     ro_during = (\<lambda>c. c\<lparr>cn_Jobs := fst (UpdateStatus ''job_000000000001'' StatusCanceled (cn_Jobs c))\<rparr>),
     ro_run = (\<lambda>_. RunFailed wit_error), ro_shutdown = False, ro_elapsed = 5\<rparr>"

lemma wit_consumer_ok: "consumer_ok wit_once wit_consumer"
proof -
  have "spool_ok wit_queued"
    using spool_machine.guarded_run [OF spool_ok_new, of "[SConfigure 10 0 False 5, SEnqueue (wit_time 5) wit_job]"]
    by (simp add: wit_queued_def)
  then show ?thesis using Create_store_ok [OF store_ok_new] by (simp add: consumer_ok_def wit_consumer_def wit_once_def)
qed

lemma wit_stored: "ms_jobs (cn_Jobs wit_consumer) ''job_000000000001'' = Some wit_job"
  "ms_eventKey (cn_Jobs wit_consumer) = (\<lambda>_. {})"
proof -
  have "ms_jobs (fst (Create r m)) (job_ID (snd (Create r m))) = Some (snd (Create r m))"
       "ms_eventKey (fst (Create r m)) = ms_eventKey m" for r m
    by (simp_all add: Create_def Let_def appendEventLocked_def)
  from this(1) [of wit_request "NewMemoryStore wit_clock"] this(2) [of wit_request "NewMemoryStore wit_clock"]
  show "ms_jobs (cn_Jobs wit_consumer) ''job_000000000001'' = Some wit_job" "ms_eventKey (cn_Jobs wit_consumer) = (\<lambda>_. {})"
    using wit_evaluated(1) by (simp_all add: wit_consumer_def wit_job_def NewMemoryStore_def)
qed

lemma wit_next_lease:
  "spool_LeaseNext (ro_race wit_once) (ro_codec wit_once) (ro_now wit_once) (ro_claim wit_once) (cn_Spool wit_consumer) =
   (LeaseGranted wit_lease, wit_spool)"
proof -
  have ok: "spool_ok wit_queued" using wit_consumer_ok by (simp add: consumer_ok_def wit_consumer_def)
  have off: "\<not> sp_honorNotBefore wit_queued" and n: "spool_names DirPending wit_queued = [''job_000000000001.json'']"
    by (simp_all add: wit_queued_dirs NewFileSpoolDispatcher_def spool_names_def)
  have "tryLease wit_codec (wit_time 6) ''job_000000000001.json'' wit_queued = (LeaseGranted wit_lease, wit_spool)"
    by (simp add: tryLease_def Let_def fun_upd_idem cut_suffix_def json_ext_def suffix_def lease_name_def wit_evaluated fs_rename_def fs_find_def
        wit_queued_dirs NewFileSpoolDispatcher_def fs_put_def fs_del_def maxSpoolEnvelopeBytes_def wit_codec_def wit_lease_def wit_spool_dirs)
  then show ?thesis using LeaseNext_oldest [OF ok off, of wit_codec "wit_time 6" "\<lambda>_. wit_time 6"] n
    by (simp add: wit_once_def wit_consumer_def)
qed

lemma wit_leases: "leases wit_once wit_consumer wit_lease"
  by (simp add: leases_def wit_next_lease)

lemma wit_lease_job: "sl_JobID wit_lease = ''job_000000000001''"
  by (simp add: wit_lease_def wit_evaluated)

lemma wit_undisturbed: "undisturbed wit_once wit_lease wit_consumer"
  using status_change_is_peaceful [of wit_once wit_lease "''job_000000000001''" StatusCanceled] nothing_is_peaceful [of wit_once wit_lease]
  by (simp add: undisturbed_def wit_stored stored_envelope_def wit_lease_job honest_run_def) (simp add: wit_once_def)

lemma wit_recordable: "recordable wit_once wit_lease (leased_envelope wit_once wit_lease wit_job)"
proof -
  have "job_APIVersion wit_job = ''v1''" "job_TraceID wit_job = ''tr''"
    by (simp_all add: wit_job_def Create_def Let_def wit_request_def)
  then show ?thesis using leased_envelope_for [of wit_job wit_lease wit_once] wit_evaluated(1) wit_lease_job
    by (simp add: recordable_def hex_digest_def failure_fits_def) (simp add: wit_once_def)
qed

lemma wit_assigned:
  obtains m new f where "UpdateStatus (job_ID wit_job) StatusAssigned (cn_Jobs wit_consumer) = (m, Inr (Some new, f))"
      "\<not> TerminalStatus (job_Status new)"
proof -
  have live: "\<not> TerminalStatus (job_Status wit_job)" and j: "ms_jobs (cn_Jobs wit_consumer) (job_ID wit_job) = Some wit_job"
    using wit_stored(1) wit_evaluated(1,3) by simp_all
  have k: "KnownStatus StatusAssigned" "\<not> TerminalStatus StatusAssigned" by (simp_all add: KnownStatus_def TerminalStatus_def)
  obtain m new where s: "set_status wit_job StatusAssigned (cn_Jobs wit_consumer) = (m, new)" by fastforce
  then have "job_Status new = StatusAssigned" by (auto simp: set_status_def Let_def)
  with s live j k that show thesis unfolding UpdateStatus_def
    by (cases "job_Status wit_job = StatusAssigned"; cases "shouldAdvanceStatus (job_Status wit_job) StatusAssigned"; simp)
qed

lemma wit_ran: "cn_Ran (snd (RunOnce wit_once wit_consumer)) = [''job_000000000001'']"
proof -
  let ?c = "wit_consumer\<lparr>cn_Spool := wit_spool\<rparr>" and ?e = "leased_envelope wit_once wit_lease wit_job"
  have j: "job_ID wit_job = sl_JobID wit_lease" using wit_lease_job wit_evaluated(1) by simp
  have lh: "lease_held wit_lease wit_spool"
  proof -
    have "spool_ok (cn_Spool wit_consumer)" "\<And>n s. spool_ok s \<Longrightarrow> spool_ok (ro_race wit_once n s)"
      using wit_consumer_ok by (simp_all add: consumer_ok_def)
    from LeaseNext_granted(2) [OF this(2,1) wit_next_lease refl] show ?thesis .
  qed
  have u: "undisturbed wit_once wit_lease wit_consumer" by (rule wit_undisturbed)
  have ok: "store_ok (cn_Jobs wit_consumer)" using wit_consumer_ok by (simp add: consumer_ok_def)
  have e: "envelope_for wit_once wit_lease ?e" "job_of ?e (cn_Jobs wit_consumer)"
    using leased_envelope_for [OF j, of wit_once] wit_stored(1) wit_lease_job by (auto simp: job_of_def envelope_for_def)
  let ?c0 = "?c\<lparr>cn_Holds := hold_Clear (job_ID wit_job) (cn_Holds ?c)\<rparr>"
  obtain m new f where up: "UpdateStatus (job_ID wit_job) StatusAssigned (cn_Jobs wit_consumer) = (m, Inr (Some new, f))"
      and live: "\<not> TerminalStatus (job_Status new)"
    by (rule wit_assigned)
  have fit: "store_fit wit_once wit_lease ?e m"
    using store_fit_update [of wit_once wit_lease ?e "cn_Jobs wit_consumer" "job_ID wit_job" StatusAssigned] up u ok e(2)
    by (simp add: store_fit_def undisturbed_def)
  have h: "holding wit_once wit_lease ?e (?c0\<lparr>cn_Jobs := m\<rparr>)" using fit lh by (simp add: holding_def)
  have hon: "honest_run wit_once wit_lease ?e" and du: "peaceful wit_once wit_lease (ro_during wit_once)"
    using u wit_stored(1) wit_lease_job by (simp_all add: undisturbed_def stored_envelope_def)
  have valid: "validateLeaseEnvelope (ro_marshal wit_once) wit_job (sl_Envelope wit_lease)"
    by (simp add: wit_lease_def validateLeaseEnvelope_def jsonSemanticallyEqual_def Let_def)
  have open_path: "\<not> ro_fault wit_once FGet" "ro_exec wit_once = ExecOff" "ro_before wit_once = (\<lambda>c. c)" "ro_slotFree wit_once"
      "ro_lane wit_once = None" "\<not> ro_fault wit_once FAssign"
    by (simp_all add: wit_once_def)
  have "RunOnce wit_once wit_consumer = run_assigned wit_once wit_lease wit_job ?e (?c0\<lparr>cn_Jobs := m\<rparr>)"
    using wit_next_lease wit_stored(1) wit_lease_job valid wit_evaluated(3) up live
    by (simp add: RunOnce_def consume_lease_def assign_and_run_def Let_def open_path)
  then show ?thesis using run_assigned_outcome(2) [OF h e(1) du hon, of wit_job] wit_lease_job by (simp add: wit_consumer_def)
qed

lemma no_job_is_dropped_witness:
  "(let c' = snd (RunOnce wit_once wit_consumer); j = sl_JobID wit_lease; place = spool_view (cn_Spool c') j in
    (place = JQueued \<or> place = JEnded))"
  using no_job_is_dropped [OF wit_consumer_ok wit_leases wit_undisturbed] by (simp add: Let_def)

lemma submitted_prompt_replay_is_confined_witness:
  "ended_in (sl_JobID wit_lease) (cn_Jobs (snd (RunOnce wit_once wit_consumer))) \<or>
   spool_view (cn_Spool (snd (RunOnce wit_once wit_consumer))) (sl_JobID wit_lease) = JEnded"
proof -
  have job: "ms_jobs (cn_Jobs wit_consumer) (sl_JobID wit_lease) = Some wit_job" using wit_stored(1) wit_lease_job by simp
  have ran: "cn_Ran (snd (RunOnce wit_once wit_consumer)) \<noteq> cn_Ran wit_consumer" using wit_ran by (simp add: wit_consumer_def)
  have run: "ro_run wit_once (leased_envelope wit_once wit_lease wit_job) = RunFailed wit_error" "re_ambiguous wit_error"
    by (simp_all add: wit_once_def wit_error_def)
  from submitted_prompt_replay_is_confined [OF wit_consumer_ok wit_leases wit_undisturbed job _ ran] run show ?thesis by simp
qed

lemma wit_smooth_round: "smooth wit_once wit_consumer"
proof -
  have "l = wit_lease" if "leases wit_once wit_consumer l" for l
    using that wit_next_lease by (simp add: leases_def)
  moreover have "\<not> may_run_again wit_once wit_lease (leased_envelope wit_once wit_lease wit_job)"
    using wit_recordable by (simp add: may_run_again_def) (simp add: wit_once_def wit_error_def)
  moreover have "\<not> sp_honorNotBefore (cn_Spool wit_consumer)" by (simp add: wit_consumer_def wit_queued_dirs NewFileSpoolDispatcher_def)
  moreover have "ro_race wit_once = (\<lambda>_ s. s)" "spool_idle wit_once" "\<not> held_back wit_once" "\<not> notify_down wit_once"
    by (simp_all add: wit_once_def held_back_def notify_down_def spool_idle_def)
  moreover have "stored_envelope wit_once wit_lease wit_consumer = Some (leased_envelope wit_once wit_lease wit_job)"
    using wit_stored(1) wit_lease_job by (simp add: stored_envelope_def)
  ultimately show ?thesis using wit_consumer_ok wit_undisturbed unfolding smooth_def by (metis option.pred_inject(2))
qed

lemma serial_worker_drains_queue_witness:
  "spool_names DirPending (cn_Spool (snd (runSerial 0 0 [wit_once] wit_consumer))) = []"
proof -
  have "length (spool_names DirPending (cn_Spool wit_consumer)) \<le> length [wit_once]"
    by (simp add: wit_consumer_def wit_queued_dirs NewFileSpoolDispatcher_def spool_names_def)
  moreover have "all_smooth [wit_once] wit_consumer" using wit_smooth_round by simp
  moreover have "spool_ok (cn_Spool wit_consumer)" using wit_consumer_ok by (simp add: consumer_ok_def)
  ultimately show ?thesis using serial_worker_drains_queue by blast
qed

end
