(* ===== verification/Maintenance.thy ===== *)
theory Maintenance
  imports Spool AttemptLedger Admission GoNet
begin

text \<open>
  The background sweeps over the job store: \<open>executor/queue_reconciler.go\<close> (a queued job without
  a queue entry is enqueued again), \<open>executor/reaper.go\<close> (a job past its deadline is timed out
  and its concurrency token returned) and the hints of \<open>executor/cancelregistry.go\<close>.

  The sweeps read the in-memory store, whose listings do not fail, and the file spool; the two
  spool calls the reconciler may see fail are predicates of the job id.
\<close>

definition UnboundedScanLimit :: int where "UnboundedScanLimit = 10000"

text \<open>\<open>jobstore.ListFilter{Status: status, Limit: UnboundedScanLimit}\<close>.\<close>

definition status_scan :: "status \<Rightarrow> list_filter" where
  "status_scan st = \<lparr>lf_TenantID = [], lf_AppID = [], lf_Status = status_string st, lf_Target = [],
     lf_Descending = False, lf_AfterID = [], lf_Limit = UnboundedScanLimit\<rparr>"

subsection \<open>Queued jobs without a queue entry\<close>

definition defaultQueueReconcilerMinAge :: dur where "defaultQueueReconcilerMinAge = 120 * second"

record queue_reconciler =
  qr_MinAge :: dur
  qr_HasJobFails :: "string \<Rightarrow> bool"
  qr_EnqueueFails :: "string \<Rightarrow> bool"

definition qr_minAge :: "queue_reconciler \<Rightarrow> dur" where
  "qr_minAge r = (if 0 < qr_MinAge r then qr_MinAge r else defaultQueueReconcilerMinAge)"

definition reenqueue :: "queue_reconciler \<Rightarrow> codec \<Rightarrow> gotime \<Rightarrow> gotime \<Rightarrow> job \<Rightarrow> nat \<times> spool \<Rightarrow> nat \<times> spool" where
  "reenqueue r co now cutoff job = (\<lambda>(n, s).
     if cutoff < job_CreatedAt job then (n, s)
     else if qr_HasJobFails r (job_ID job) then (n, s)
     else (case HasJob (job_ID job) s of
             (True, s1) \<Rightarrow> (n, s1)
           | (False, s1) \<Rightarrow>
               if qr_EnqueueFails r (job_ID job) then (n, s1)
               else (Suc n, spool_EnqueueJob co now job s1)))"

definition queue_SweepOnce :: "queue_reconciler \<Rightarrow> codec \<Rightarrow> gotime \<Rightarrow> memory_store \<Rightarrow> spool \<Rightarrow> nat \<times> spool" where
  "queue_SweepOnce r co now m s =
     fold (\<lambda>st. fold (reenqueue r co now (now - qr_minAge r)) (ListJobs (status_scan st) m))
       [StatusQueued, StatusScheduled] (0, s)"

subsection \<open>Stale jobs\<close>

record stale_reaper =
  rp_MaxLifetime :: dur
  rp_HasAttempts :: bool
  rp_HasConcurrency :: bool
  rp_HasNotifier :: bool

text \<open>The state a sweep changes; the log holds the jobs handed to the notifier.\<close>

record reaped_state =
  rs_Jobs :: memory_store
  rs_Concurrency :: registry
  rs_Notified :: "string list"

text \<open>
  \<open>int(v)\<close> of a JSON number truncates toward zero. (A number beyond the 64-bit range has no
  defined conversion in Go; here it keeps its value.)
\<close>

definition jobTimeoutSeconds :: "job \<Rightarrow> int" where
  "jobTimeoutSeconds job =
     (case job_Options job of
        None \<Rightarrow> 0
      | Some opts \<Rightarrow>
          (case map_of opts ''timeout_seconds'' of
             Some (JNum q) \<Rightarrow> if 0 \<le> q then \<lfloor>q\<rfloor> else \<lceil>q\<rceil>
           | _ \<Rightarrow> 0))"

text \<open>\<open>now.Sub(t)\<close> saturates at the range of a duration.\<close>

definition time_Sub :: "gotime \<Rightarrow> gotime \<Rightarrow> dur" where
  "time_Sub now t = max (- (2 ^ 63)) (min (2 ^ 63 - 1) (now - t))"

definition isStale :: "stale_reaper \<Rightarrow> job \<Rightarrow> gotime \<Rightarrow> bool" where
  "isStale rp job now =
     (if (case job_NotBefore job of Some t \<Rightarrow> now < t | None \<Rightarrow> False) then False
      else if 0 < jobTimeoutSeconds job \<and> job_CreatedAt job \<noteq> 0 \<and>
              wrap64 (jobTimeoutSeconds job * second) \<le> time_Sub now (job_CreatedAt job) then True
      else if 0 < rp_MaxLifetime rp then
        (let last = (if job_UpdatedAt job = 0 \<or> job_UpdatedAt job < job_CreatedAt job then job_CreatedAt job
                     else job_UpdatedAt job)
         in last \<noteq> 0 \<and> rp_MaxLifetime rp \<le> time_Sub now last)
      else False)"

definition reap :: "stale_reaper \<Rightarrow> gotime \<Rightarrow> job \<Rightarrow> nat \<times> reaped_state \<Rightarrow> nat \<times> reaped_state" where
  "reap rp now job = (\<lambda>(n, h).
     if \<not> isStale rp job now then (n, h)
     else (case UpdateStatus (job_ID job) StatusTimedOut (rs_Jobs h) of
             (m, Inr (Some updated, _)) \<Rightarrow>
               let h1 = h\<lparr>rs_Jobs := m\<rparr> in
               if \<not> TerminalStatus (job_Status updated) then (n, h1)
               else
                 let h2 = (if rp_HasConcurrency rp then h1\<lparr>rs_Concurrency := ReleaseForJob (job_ID updated) (rs_Concurrency h1)\<rparr> else h1);
                     h3 = (if rp_HasNotifier rp then h2\<lparr>rs_Notified := rs_Notified h2 @ [job_ID updated]\<rparr> else h2)
                 in (if job_Status updated = StatusTimedOut then Suc n else n, h3)
           | (m, _) \<Rightarrow> (n, h\<lparr>rs_Jobs := m\<rparr>)))"

definition reap_status :: "stale_reaper \<Rightarrow> gotime \<Rightarrow> status \<Rightarrow> nat \<times> reaped_state \<Rightarrow> nat \<times> reaped_state" where
  "reap_status rp now st x =
     (if TerminalStatus st then x else fold (reap rp now) (ListJobs (status_scan st) (rs_Jobs (snd x))) x)"

definition reaper_SweepOnce :: "stale_reaper \<Rightarrow> gotime \<Rightarrow> reaped_state \<Rightarrow> nat \<times> reaped_state" where
  "reaper_SweepOnce rp now h =
     (let h1 = (if rp_HasAttempts rp then h\<lparr>rs_Jobs := fst (ExpireAttempts 0 (rs_Jobs h))\<rparr> else h)
      in fold (reap_status rp now) LifecycleStatuses (0, h1))"

subsection \<open>Cancel hints\<close>

text \<open>
  A watcher is a channel of capacity one: the number it was made with and whether a hint is
  pending in it. \<open>watch_made\<close> counts the channels made so far.
\<close>

record cancel_registry =
  watchers :: "string \<Rightarrow> (nat \<times> bool) list"
  watch_made :: nat

definition NewCancelRegistry :: cancel_registry where
  "NewCancelRegistry = \<lparr>watchers = (\<lambda>_. []), watch_made = 0\<rparr>"

definition Watch :: "string \<Rightarrow> cancel_registry \<Rightarrow> nat \<times> cancel_registry" where
  "Watch jobID r =
     (watch_made r, r\<lparr>watchers := (watchers r)(jobID := (watch_made r, False) # watchers r jobID),
        watch_made := Suc (watch_made r)\<rparr>)"

definition release_watch :: "string \<Rightarrow> nat \<Rightarrow> cancel_registry \<Rightarrow> cancel_registry" where
  "release_watch jobID ch r =
     r\<lparr>watchers := (watchers r)(jobID := filter (\<lambda>w. fst w \<noteq> ch) (watchers r jobID))\<rparr>"

definition Hint :: "string \<Rightarrow> cancel_registry \<Rightarrow> bool \<times> cancel_registry" where
  "Hint jobID r =
     (watchers r jobID \<noteq> [],
      r\<lparr>watchers := (watchers r)(jobID := map (\<lambda>(ch, _). (ch, True)) (watchers r jobID))\<rparr>)"

text \<open>A watcher reads its channel.\<close>

definition receive_hint :: "string \<Rightarrow> nat \<Rightarrow> cancel_registry \<Rightarrow> bool \<times> cancel_registry" where
  "receive_hint jobID ch r =
     (map_of (watchers r jobID) ch = Some True,
      r\<lparr>watchers := (watchers r)(jobID := map (\<lambda>(c, b). (c, b \<and> c \<noteq> ch)) (watchers r jobID))\<rparr>)"

text \<open>\<open>cancelNotifier.CancelJob\<close> over a dispatcher whose answer is the flag.\<close>

definition notifier_CancelJob :: "bool \<Rightarrow> string \<Rightarrow> cancel_registry \<Rightarrow> bool \<times> cancel_registry" where
  "notifier_CancelJob dispatched jobID r = (if dispatched then (True, snd (Hint jobID r)) else (False, r))"

end
