(* ===== verification/MaintenanceProps.thy ===== *)
theory MaintenanceProps
  imports Maintenance SpoolProps JobProps
begin

text \<open>
  What the sweeps do: the reconciler queues exactly the old jobs without an entry and disturbs no
  other, the reaper ends exactly the stale jobs, hints reach every watcher.
\<close>

subsection \<open>Scans\<close>

text \<open>Whether the scan of a status sees all its jobs.\<close>

definition scannable :: "status \<Rightarrow> memory_store \<Rightarrow> bool" where
  "scannable st m = (int (length (matching_jobs (status_scan st) m)) \<le> UnboundedScanLimit)"

lemma scan_all: "scannable st m \<Longrightarrow> ListJobs (status_scan st) m = ordered_jobs (status_scan st) m"
  by (simp add: scannable_def ListJobs_def ordered_jobs_def Let_def) (simp add: status_scan_def UnboundedScanLimit_def)

lemma status_string_inj:
  assumes "KnownStatus st" "status_string a = status_string st"
  shows "a = st \<or> (\<exists>s. a = StatusOther s)"
  using assms by (cases a; cases st) (auto simp: KnownStatus_def)

lemma status_filter:
  assumes "store_ok m" "KnownStatus st" "ms_jobs m (job_ID j) = Some j"
  shows "filter_matches (status_scan st) j \<longleftrightarrow> job_Status j = st"
proof -
  have "KnownStatus (job_Status j)" using jobs_okD [OF assms(1,3)] by simp
  then have "status_string (job_Status j) = status_string st \<longleftrightarrow> job_Status j = st"
    using status_string_inj [OF assms(2), of "job_Status j"] by (auto simp: KnownStatus_def)
  moreover have "status_string st \<noteq> []" using assms(2) by (cases st) (auto simp: KnownStatus_def)
  ultimately show ?thesis by (simp add: filter_matches_def status_scan_def)
qed

lemma scan_spec:
  assumes ok: "store_ok m" and sc: "scannable st m" and st: "KnownStatus st"
  shows "set (ListJobs (status_scan st) m) = {j. ms_jobs m (job_ID j) = Some j \<and> job_Status j = st}"
    "distinct (map job_ID (ListJobs (status_scan st) m))"
proof -
  show "set (ListJobs (status_scan st) m) = {j. ms_jobs m (job_ID j) = Some j \<and> job_Status j = st}"
    using ordered_jobs_spec(1) [OF ok, of "status_scan st"] scan_all [OF sc] status_filter [OF ok st] by auto
  show "distinct (map job_ID (ListJobs (status_scan st) m))"
    using ordered_jobs_spec(2) [OF ok] scan_all [OF sc] by simp
qed

subsection \<open>The reconciler\<close>

definition wanted :: "queue_reconciler \<Rightarrow> gotime \<Rightarrow> job \<Rightarrow> bool" where
  "wanted r cutoff job =
     (job_CreatedAt job \<le> cutoff \<and> \<not> qr_HasJobFails r (job_ID job) \<and> \<not> qr_EnqueueFails r (job_ID job))"

lemma reenqueue_effect:
  assumes ok: "spool_ok s" and j: "job_name (job_ID job)" and live: "\<not> TerminalStatus (job_Status job)"
    and r: "reenqueue r co now cutoff job (n, s) = (n', s')"
  shows "spool_ok s' \<and>
    spool_view s' = (if wanted r cutoff job \<and> spool_view s (job_ID job) = JAbsent then (spool_view s)(job_ID job := JQueued) else spool_view s) \<and>
    n' = (if wanted r cutoff job \<and> spool_view s (job_ID job) = JAbsent then Suc n else n)"
proof (cases "job_CreatedAt job \<le> cutoff \<and> \<not> qr_HasJobFails r (job_ID job)")
  case False
  then show ?thesis using r ok by (auto simp: reenqueue_def wanted_def split: if_splits)
next
  case True
  obtain b t where e: "jobExistsInAnyState (job_ID job) s = (b, t)" by fastforce
  note x = jobExistsInAnyState_effect [OF ok j e]
  show ?thesis
  proof (cases "b \<or> qr_EnqueueFails r (job_ID job)")
    case True
    then show ?thesis using r x e \<open>job_CreatedAt job \<le> cutoff \<and> _\<close>
      by (auto simp: reenqueue_def wanted_def HasJob_def split: bool.splits)
  next
    case False
    then have "n' = Suc n" "s' = spool_EnqueueJob co now job t"
      using r e True by (simp_all add: reenqueue_def HasJob_def)
    then show ?thesis using EnqueueJob_effect [OF x(2) j, of co now] x(1,3) False True live by (simp add: wanted_def)
  qed
qed

lemma queue_once_more:
  fixes v :: "string \<Rightarrow> job_place"
  shows "(if (if w \<and> v k = JAbsent then v(k := JQueued) else v) j = JAbsent \<and> b then JQueued
          else (if w \<and> v k = JAbsent then v(k := JQueued) else v) j) =
         (if v j = JAbsent \<and> (w \<and> k = j \<or> b) then JQueued else v j)"
  by (cases "k = j"; cases w; cases "v k = JAbsent"; simp)

lemma reenqueue_all:
  assumes "spool_ok s" "list_all (\<lambda>job. job_name (job_ID job) \<and> \<not> TerminalStatus (job_Status job)) jobs" "distinct (map job_ID jobs)"
    "fold (reenqueue r co now cutoff) jobs (n, s) = (n', s')"
  shows "spool_ok s' \<and>
    (\<forall>j. spool_view s' j = (if spool_view s j = JAbsent \<and> (\<exists>job \<in> set jobs. job_ID job = j \<and> wanted r cutoff job) then JQueued else spool_view s j)) \<and>
    n' = n + length (filter (\<lambda>job. wanted r cutoff job \<and> spool_view s (job_ID job) = JAbsent) jobs)"
  using assms
proof (induction jobs arbitrary: n s)
  case (Cons job jobs)
  obtain n1 s1 where one: "reenqueue r co now cutoff job (n, s) = (n1, s1)" by fastforce
  note e = reenqueue_effect [OF Cons.prems(1) _ _ one]
  have ok1: "spool_ok s1" using e Cons.prems(2) by simp
  have rest: "fold (reenqueue r co now cutoff) jobs (n1, s1) = (n', s')" using Cons.prems(4) one by simp
  note ih = Cons.IH [OF ok1 _ _ rest]
  have v: "spool_view s1 (job_ID k) = spool_view s (job_ID k)" if "k \<in> set jobs" for k
  proof -
    have "job_ID k \<noteq> job_ID job" using Cons.prems(3) that by (metis distinct.simps(2) image_eqI list.simps(9) set_map)
    then show ?thesis using e Cons.prems(2) by simp
  qed
  then have f: "filter (\<lambda>job. wanted r cutoff job \<and> spool_view s1 (job_ID job) = JAbsent) jobs =
      filter (\<lambda>job. wanted r cutoff job \<and> spool_view s (job_ID job) = JAbsent) jobs"
    by (intro filter_cong) auto
  have "spool_ok s'" using ih Cons.prems(2,3) by simp
  moreover have "n' = n + length (filter (\<lambda>job. wanted r cutoff job \<and> spool_view s (job_ID job) = JAbsent) (job # jobs))"
    using ih e f Cons.prems(2,3) by simp
  moreover have "spool_view s' j = (if spool_view s j = JAbsent \<and> (\<exists>k \<in> set (job # jobs). job_ID k = j \<and> wanted r cutoff k)
      then JQueued else spool_view s j)" for j
  proof -
    have s1: "spool_view s1 = (if wanted r cutoff job \<and> spool_view s (job_ID job) = JAbsent then (spool_view s)(job_ID job := JQueued) else spool_view s)"
      using e Cons.prems(2) by simp
    have s': "spool_view s' j = (if spool_view s1 j = JAbsent \<and> (\<exists>job \<in> set jobs. job_ID job = j \<and> wanted r cutoff job) then JQueued else spool_view s1 j)"
      using ih Cons.prems(2,3) by simp
    have m: "(\<exists>k \<in> set (job # jobs). job_ID k = j \<and> wanted r cutoff k) \<longleftrightarrow>
        wanted r cutoff job \<and> job_ID job = j \<or> (\<exists>k \<in> set jobs. job_ID k = j \<and> wanted r cutoff k)" by auto
    show ?thesis unfolding s' s1 m by (rule queue_once_more)
  qed
  ultimately show ?case by blast
qed simp

definition awaiting :: "memory_store \<Rightarrow> job \<Rightarrow> bool" where
  "awaiting m job = (ms_jobs m (job_ID job) = Some job \<and> job_Status job \<in> {StatusQueued, StatusScheduled})"

text \<open>C16. The gap between creating a job and enqueueing it is closed by one sweep, and nothing else moves:
  afterwards a stored queued or scheduled job that is old enough has a queue entry unless a
  spool call for it failed; the place of every job that had an entry, whatever its state, and
  of every job that is not to be queued is the same; the result counts the jobs it queued. (One scan reads at
  most 10000 jobs of a status, so the store may hold no more queued or scheduled ones than that.)
\<close>

theorem reconciler_closes_enqueue_gap:
  assumes "store_ok m" "spool_ok s" "\<forall>i \<in> dom (ms_jobs m). job_name i" "scannable StatusQueued m" "scannable StatusScheduled m"
  shows "(case queue_SweepOnce r co now m s of (n, s') \<Rightarrow>
    (\<forall>j. spool_view s' j =
       (if spool_view s j = JAbsent \<and> (\<exists>job. job_ID job = j \<and> awaiting m job \<and> wanted r (now - qr_minAge r) job) then JQueued
        else spool_view s j)) \<and>
    n = card {j. spool_view s j = JAbsent \<and> spool_view s' j = JQueued})"
proof -
  let ?q = "ListJobs (status_scan StatusQueued) m" and ?w = "ListJobs (status_scan StatusScheduled) m" and ?c = "now - qr_minAge r"
  have k: "KnownStatus StatusQueued" "KnownStatus StatusScheduled" by (simp_all add: KnownStatus_def)
  note q = scan_spec [OF assms(1,4) k(1)] and w = scan_spec [OF assms(1,5) k(2)]
  obtain n s' where run: "queue_SweepOnce r co now m s = (n, s')" by fastforce
  then have f: "fold (reenqueue r co now ?c) (?q @ ?w) (0, s) = (n, s')" by (simp add: queue_SweepOnce_def)
  have all: "set (?q @ ?w) = {job. awaiting m job}" using q(1) w(1) by (auto simp: awaiting_def)
  have names: "list_all (\<lambda>job. job_name (job_ID job) \<and> \<not> TerminalStatus (job_Status job)) (?q @ ?w)"
    using q(1) w(1) assms(3) by (fastforce simp: list_all_iff TerminalStatus_def dom_def)
  have "job_ID ` set ?q \<inter> job_ID ` set ?w = {}"
  proof -
    have False if "a \<in> set ?q" "b \<in> set ?w" "job_ID a = job_ID b" for a b using that q(1) w(1) by simp
    then show ?thesis by blast
  qed
  then have dist: "distinct (map job_ID (?q @ ?w))" using q(2) w(2) by simp
  note all_effect = reenqueue_all [OF assms(2) names dist f]
  have view: "spool_view s' j =
      (if spool_view s j = JAbsent \<and> (\<exists>job. job_ID job = j \<and> awaiting m job \<and> wanted r ?c job) then JQueued else spool_view s j)" for j
    using all_effect all by (smt (verit) mem_Collect_eq)
  let ?f = "filter (\<lambda>job. wanted r ?c job \<and> spool_view s (job_ID job) = JAbsent) (?q @ ?w)"
  have "{j. spool_view s j = JAbsent \<and> spool_view s' j = JQueued} = job_ID ` set ?f"
    unfolding view set_filter all by auto
  also have "\<dots> = set (map job_ID ?f)" by (simp only: set_map)
  finally have "card {j. spool_view s j = JAbsent \<and> spool_view s' j = JQueued} = card (set (map job_ID ?f))" by simp
  also have "\<dots> = length (map job_ID ?f)" by (rule distinct_card [OF distinct_map_filter [OF dist]])
  finally have "n = card {j. spool_view s j = JAbsent \<and> spool_view s' j = JQueued}" using all_effect by simp
  then show ?thesis using run view by simp
qed

subsection \<open>The reaper\<close>

definition timed_out :: "job \<Rightarrow> gotime \<Rightarrow> job" where
  "timed_out job t = job\<lparr>job_Status := StatusTimedOut, job_UpdatedAt := t\<rparr>"

lemma UpdateStatus_timed_out:
  assumes "ms_jobs m (job_ID job) = Some job" "KnownStatus (job_Status job)" "\<not> TerminalStatus (job_Status job)"
  obtains m' t where "UpdateStatus (job_ID job) StatusTimedOut m = (m', Inr (Some (timed_out job t), True))"
    "ms_jobs m' = (ms_jobs m)(job_ID job \<mapsto> timed_out job t)"
proof -
  have adv: "shouldAdvanceStatus (job_Status job) StatusTimedOut" "job_Status job \<noteq> StatusTimedOut" "KnownStatus StatusTimedOut"
    using assms(2,3) by (cases "job_Status job"; simp add: shouldAdvanceStatus_def TerminalStatus_def KnownStatus_def)+
  obtain m' job' where s: "set_status job StatusTimedOut m = (m', job')" by fastforce
  then have "job' = timed_out job (now_value m)" "ms_jobs m' = (ms_jobs m)(job_ID job \<mapsto> job')"
    by (auto simp: set_status_def timed_out_def appendEventLocked_def Let_def)
  with s that show thesis using assms adv by (simp add: UpdateStatus_def)
qed

definition reaped :: "stale_reaper \<Rightarrow> string list \<Rightarrow> reaped_state \<Rightarrow> nat \<times> reaped_state \<Rightarrow> bool" where
  "reaped rp ids h0 x =
     (store_ok (rs_Jobs (snd x)) \<and> distinct ids \<and> fst x = length ids \<and>
      (\<forall>i. i \<in> set ids \<longrightarrow> (\<exists>job t. ms_jobs (rs_Jobs h0) i = Some job \<and> ms_jobs (rs_Jobs (snd x)) i = Some (timed_out job t))) \<and>
      (\<forall>i. i \<notin> set ids \<longrightarrow> ms_jobs (rs_Jobs (snd x)) i = ms_jobs (rs_Jobs h0) i) \<and>
      rs_Notified (snd x) = rs_Notified h0 @ (if rp_HasNotifier rp then ids else []) \<and>
      rs_Concurrency (snd x) = (if rp_HasConcurrency rp then fold ReleaseForJob ids (rs_Concurrency h0) else rs_Concurrency h0))"

lemma reap_effect:
  assumes R: "reaped rp ids h0 (n, h)" and job: "ms_jobs (rs_Jobs h0) (job_ID job) = Some job" "job_ID job \<notin> set ids"
    and live: "\<not> TerminalStatus (job_Status job)"
  shows "reaped rp (if isStale rp job now then ids @ [job_ID job] else ids) h0 (reap rp now job (n, h))"
proof (cases "isStale rp job now")
  case True
  have ok: "store_ok (rs_Jobs h)" and here: "ms_jobs (rs_Jobs h) (job_ID job) = Some job"
    using R job by (auto simp: reaped_def split: if_splits)
  have known: "KnownStatus (job_Status job)" using jobs_okD [OF ok here] by simp
  obtain m t where u: "UpdateStatus (job_ID job) StatusTimedOut (rs_Jobs h) = (m, Inr (Some (timed_out job t), True))"
      "ms_jobs m = (ms_jobs (rs_Jobs h))(job_ID job \<mapsto> timed_out job t)"
    using UpdateStatus_timed_out [OF here known live] by blast
  have ok': "store_ok m" using UpdateStatus_store_ok [OF ok, of "job_ID job" StatusTimedOut] u(1) by simp
  have ended: "TerminalStatus (job_Status (timed_out job t))" "job_Status (timed_out job t) = StatusTimedOut" "job_ID (timed_out job t) = job_ID job"
    by (simp_all add: timed_out_def TerminalStatus_def)
  obtain h' where h': "reap rp now job (n, h) = (Suc n, h')" "rs_Jobs h' = m"
      "rs_Notified h' = rs_Notified h @ (if rp_HasNotifier rp then [job_ID job] else [])"
      "rs_Concurrency h' = (if rp_HasConcurrency rp then ReleaseForJob (job_ID job) (rs_Concurrency h) else rs_Concurrency h)"
    by (rule that [of "snd (reap rp now job (n, h))"]) (use True u(1) ended in \<open>simp_all add: reap_def Let_def\<close>)
  have "\<exists>job t. ms_jobs (rs_Jobs h0) i = Some job \<and> ms_jobs m i = Some (timed_out job t)" if "i \<in> set (ids @ [job_ID job])" for i
  proof (cases "i = job_ID job")
    case False
    then show ?thesis using R u(2) that unfolding reaped_def by simp
  qed (use u(2) job(1) in auto)
  moreover have "ms_jobs m i = ms_jobs (rs_Jobs h0) i" if "i \<notin> set (ids @ [job_ID job])" for i
    using R u(2) that unfolding reaped_def by simp
  ultimately show ?thesis using R True h' ok' job(2) unfolding reaped_def by simp
qed (use R in \<open>simp add: reap_def\<close>)

lemma reap_all:
  assumes "reaped rp ids h0 x" "\<forall>job \<in> set jobs. ms_jobs (rs_Jobs h0) (job_ID job) = Some job \<and> \<not> TerminalStatus (job_Status job) \<and> job_ID job \<notin> set ids"
    "distinct (map job_ID jobs)"
  shows "reaped rp (ids @ map job_ID (filter (\<lambda>job. isStale rp job now) jobs)) h0 (fold (reap rp now) jobs x)"
  using assms
proof (induction jobs arbitrary: ids x)
  case (Cons job jobs)
  let ?ids = "if isStale rp job now then ids @ [job_ID job] else ids"
  have one: "reaped rp ?ids h0 (reap rp now job x)" using reap_effect [of rp ids h0 "fst x" "snd x" job now] Cons.prems by simp
  have fresh: "job_ID k \<noteq> job_ID job" if "k \<in> set jobs" for k
    using Cons.prems(3) that by (metis distinct.simps(2) image_eqI list.simps(9) set_map)
  have "\<forall>k \<in> set jobs. ms_jobs (rs_Jobs h0) (job_ID k) = Some k \<and> \<not> TerminalStatus (job_Status k) \<and> job_ID k \<notin> set ?ids"
    using Cons.prems(2) fresh by simp
  from Cons.IH [OF one this] Cons.prems(3)
  have "reaped rp (?ids @ map job_ID (filter (\<lambda>job. isStale rp job now) jobs)) h0 (fold (reap rp now) jobs (reap rp now job x))"
    by simp
  then show ?case by (cases "isStale rp job now") simp_all
qed simp

lemma scan_size:
  assumes "store_ok m" "KnownStatus st"
  shows "scannable st m \<longleftrightarrow> int (card {i. \<exists>job. ms_jobs m i = Some job \<and> job_Status job = st}) \<le> UnboundedScanLimit"
proof -
  let ?l = "matching_jobs (status_scan st) m"
  have l: "set (ordered_jobs (status_scan st) m) = set ?l" "length (ordered_jobs (status_scan st) m) = length ?l"
    by (simp_all add: ordered_jobs_def Let_def)
  have s: "set ?l = {j. ms_jobs m (job_ID j) = Some j \<and> job_Status j = st}"
    using ordered_jobs_spec(1) [OF assms(1), of "status_scan st"] status_filter [OF assms] l(1) by auto
  have "job_ID ` set ?l = {i. \<exists>job. ms_jobs m i = Some job \<and> job_Status job = st}"
  proof (intro set_eqI iffI)
    fix i assume "i \<in> {i. \<exists>job. ms_jobs m i = Some job \<and> job_Status job = st}"
    then obtain job where job: "ms_jobs m i = Some job" "job_Status job = st" by blast
    then have "job_ID job = i" using jobs_okD [OF assms(1)] by blast
    with job show "i \<in> job_ID ` set ?l" unfolding s by blast
  qed (auto simp: s)
  moreover have "card (job_ID ` set ?l) = length ?l"
    using distinct_card [OF ordered_jobs_spec(2) [OF assms(1), of "status_scan st"]] l by simp
  ultimately show ?thesis by (simp add: scannable_def)
qed

lemma reap_status_all:
  assumes "store_ok (rs_Jobs h0)" "reaped rp ids h0 x" "KnownStatus st" "\<not> TerminalStatus st" "scannable st (rs_Jobs h0)"
    and other: "\<And>i job. i \<in> set ids \<Longrightarrow> ms_jobs (rs_Jobs h0) i = Some job \<Longrightarrow> job_Status job \<noteq> st"
  obtains new where "reaped rp (ids @ new) h0 (reap_status rp now st x)"
    "set new = {i. \<exists>job. ms_jobs (rs_Jobs h0) i = Some job \<and> job_Status job = st \<and> isStale rp job now}"
proof -
  let ?m = "rs_Jobs (snd x)" and ?old = "rs_Jobs h0"
  have ok: "store_ok ?m" using assms(2) by (simp add: reaped_def)
  have same: "ms_jobs ?m i = Some job \<and> job_Status job = st \<longleftrightarrow> ms_jobs ?old i = Some job \<and> job_Status job = st" for i job
  proof (cases "i \<in> set ids")
    case True
    then obtain job' t where "ms_jobs ?old i = Some job'" "ms_jobs ?m i = Some (timed_out job' t)"
      using assms(2) by (auto simp: reaped_def)
    moreover have "st \<noteq> StatusTimedOut" using assms(4) by (auto simp: TerminalStatus_def)
    ultimately show ?thesis using other [OF True] by (auto simp: timed_out_def)
  qed (use assms(2) in \<open>simp add: reaped_def\<close>)
  have sc: "scannable st ?m" using assms(5) unfolding scan_size [OF ok assms(3)] scan_size [OF assms(1,3)] same .
  let ?jobs = "ListJobs (status_scan st) ?m"
  have jobs: "set ?jobs = {j. ms_jobs ?old (job_ID j) = Some j \<and> job_Status j = st}" "distinct (map job_ID ?jobs)"
    using scan_spec [OF ok sc assms(3)] same by auto
  have "\<forall>job \<in> set ?jobs. ms_jobs ?old (job_ID job) = Some job \<and> \<not> TerminalStatus (job_Status job) \<and> job_ID job \<notin> set ids"
    using jobs(1) assms(4) other by auto
  from reap_all [OF assms(2) this jobs(2)]
  have "reaped rp (ids @ map job_ID (filter (\<lambda>job. isStale rp job now) ?jobs)) h0 (reap_status rp now st x)"
    using assms(4) by (simp add: reap_status_def)
  moreover have "set (map job_ID (filter (\<lambda>job. isStale rp job now) ?jobs)) =
      {i. \<exists>job. ms_jobs ?old i = Some job \<and> job_Status job = st \<and> isStale rp job now}"
    using jobs(1) jobs_okD [OF assms(1)] by (auto simp: image_iff)
  ultimately show thesis by (rule that)
qed

lemma reap_statuses:
  assumes ok: "store_ok (rs_Jobs h0)" and sc: "\<And>st. KnownStatus st \<Longrightarrow> \<not> TerminalStatus st \<Longrightarrow> scannable st (rs_Jobs h0)"
  shows "list_all KnownStatus sts \<Longrightarrow> distinct sts \<Longrightarrow>
    \<exists>ids. reaped rp ids h0 (fold (reap_status rp now) sts (0, h0)) \<and>
      set ids = {i. \<exists>job. ms_jobs (rs_Jobs h0) i = Some job \<and> job_Status job \<in> set sts \<and> \<not> TerminalStatus (job_Status job) \<and> isStale rp job now}"
proof (induction sts rule: rev_induct)
  case Nil
  have "reaped rp [] h0 (0, h0)" using ok by (simp add: reaped_def)
  then show ?case by (intro exI [of _ "[]"]) simp
next
  case (snoc st sts)
  let ?x = "fold (reap_status rp now) sts (0, h0)"
  obtain ids where ids: "reaped rp ids h0 ?x"
      "set ids = {i. \<exists>job. ms_jobs (rs_Jobs h0) i = Some job \<and> job_Status job \<in> set sts \<and> \<not> TerminalStatus (job_Status job) \<and> isStale rp job now}"
    using snoc by auto
  show ?case
  proof (cases "TerminalStatus st")
    case True
    then have "fold (reap_status rp now) (sts @ [st]) (0, h0) = ?x" by (simp add: reap_status_def [of rp now st])
    moreover have "{i. \<exists>job. ms_jobs (rs_Jobs h0) i = Some job \<and> job_Status job \<in> set (sts @ [st]) \<and> \<not> TerminalStatus (job_Status job) \<and> isStale rp job now} = set ids"
      unfolding ids(2) using True by auto
    ultimately show ?thesis using ids(1) by metis
  next
    case False
    have other: "job_Status job \<noteq> st" if "i \<in> set ids" "ms_jobs (rs_Jobs h0) i = Some job" for i job
      using that ids(2) snoc.prems(2) by auto
    obtain new where new: "reaped rp (ids @ new) h0 (reap_status rp now st ?x)"
        "set new = {i. \<exists>job. ms_jobs (rs_Jobs h0) i = Some job \<and> job_Status job = st \<and> isStale rp job now}"
      by (rule reap_status_all [OF ok ids(1) _ False, of now]) (use sc False snoc.prems(1) other in auto)
    then show ?thesis using ids(2) False by (intro exI [of _ "ids @ new"]) auto
  qed
qed

lemma ExpireAttempts_jobs: "ms_jobs (fst (ExpireAttempts k m)) = ms_jobs m \<and> store_ok (fst (ExpireAttempts k m)) = store_ok m"
proof -
  have put: "ms_jobs (put_attempt j i f m) = ms_jobs m" "store_ok (put_attempt j i f m) = store_ok m" for j i f m
    by (simp_all add: put_attempt_def store_ok_def jobs_ok_def logs_ok_def event_ids_ok_def)
  have p: "ms_jobs (fold (\<lambda>a. put_attempt (att_JobID a) (att_AttemptID a) f) due m) = ms_jobs m \<and>
      store_ok (fold (\<lambda>a. put_attempt (att_JobID a) (att_AttemptID a) f) due m) = store_ok m" for f due m
    by (induction due arbitrary: m) (simp_all add: put)
  show ?thesis by (simp add: ExpireAttempts_def Let_def p)
qed

text \<open>C17. One sweep ends exactly the stale jobs. Afterwards every job that had not ended and was past
  its deadline is timed out, no other job has changed, each of the jobs ended this way was
  handed to the notifier once and its concurrency token was returned, and the result is their
  number. (The deadline is the one \<open>isStale\<close> computes; one scan reads at most 10000 jobs of a status, so
  the store may hold no more of any status that is not terminal.)
\<close>

theorem reaper_ends_exactly_the_stale:
  assumes "store_ok (rs_Jobs h)" "\<And>st. KnownStatus st \<Longrightarrow> \<not> TerminalStatus st \<Longrightarrow> scannable st (rs_Jobs h)"
  shows "\<exists>ids. distinct ids \<and>
    set ids = {i. \<exists>job. ms_jobs (rs_Jobs h) i = Some job \<and> \<not> TerminalStatus (job_Status job) \<and> isStale rp job now} \<and>
    (case reaper_SweepOnce rp now h of (n, h') \<Rightarrow>
       n = length ids \<and>
       (\<forall>i. i \<in> set ids \<longrightarrow> (\<exists>job t. ms_jobs (rs_Jobs h) i = Some job \<and> ms_jobs (rs_Jobs h') i = Some (timed_out job t))) \<and>
       (\<forall>i. i \<notin> set ids \<longrightarrow> ms_jobs (rs_Jobs h') i = ms_jobs (rs_Jobs h) i) \<and>
       rs_Notified h' = rs_Notified h @ (if rp_HasNotifier rp then ids else []) \<and>
       rs_Concurrency h' = (if rp_HasConcurrency rp then fold ReleaseForJob ids (rs_Concurrency h) else rs_Concurrency h))"
proof -
  define h1 where "h1 = (if rp_HasAttempts rp then h\<lparr>rs_Jobs := fst (ExpireAttempts 0 (rs_Jobs h))\<rparr> else h)"
  have h1: "ms_jobs (rs_Jobs h1) = ms_jobs (rs_Jobs h)" "store_ok (rs_Jobs h1)" "rs_Notified h1 = rs_Notified h" "rs_Concurrency h1 = rs_Concurrency h"
    using ExpireAttempts_jobs assms(1) by (simp_all add: h1_def)
  have sc: "scannable st (rs_Jobs h1)" if "KnownStatus st" "\<not> TerminalStatus st" for st
    using assms(2) [OF that] scan_size [OF assms(1) that(1)] scan_size [OF h1(2) that(1)] h1(1) by simp
  have known: "list_all KnownStatus LifecycleStatuses" "distinct LifecycleStatuses"
    by (simp_all add: LifecycleStatuses_def KnownStatus_def)
  obtain ids where ids: "reaped rp ids h1 (reaper_SweepOnce rp now h)"
      "set ids = {i. \<exists>job. ms_jobs (rs_Jobs h1) i = Some job \<and> job_Status job \<in> set LifecycleStatuses \<and> \<not> TerminalStatus (job_Status job) \<and> isStale rp job now}"
    using reap_statuses [OF h1(2) sc known, of rp now] by (auto simp: reaper_SweepOnce_def h1_def Let_def)
  have "set ids = {i. \<exists>job. ms_jobs (rs_Jobs h) i = Some job \<and> \<not> TerminalStatus (job_Status job) \<and> isStale rp job now}"
    using ids(2) jobs_okD [OF assms(1)] by (auto simp: h1(1) KnownStatus_lifecycle [symmetric])
  then show ?thesis using ids(1) unfolding reaped_def h1 by (intro exI [of _ ids]) (auto simp: case_prod_beta)
qed

subsection \<open>Deadlines\<close>

lemma explicit_deadline:
  assumes "job_NotBefore job = None" "rp_MaxLifetime rp \<le> 0" "0 < jobTimeoutSeconds job" "jobTimeoutSeconds job \<le> 9223372036"
    "0 < job_CreatedAt job" "\<bar>now - job_CreatedAt job\<bar> < 2 ^ 63"
  shows "isStale rp job now \<longleftrightarrow> job_CreatedAt job + jobTimeoutSeconds job * second \<le> now"
proof -
  have "wrap64 (jobTimeoutSeconds job * second) = jobTimeoutSeconds job * second" using assms(3,4) by simp
  moreover have "time_Sub now (job_CreatedAt job) = now - job_CreatedAt job" using assms(6) by (simp add: time_Sub_def)
  ultimately show ?thesis using assms by (auto simp: isStale_def)
qed

lemma active_job_is_not_idle:
  assumes "jobTimeoutSeconds job \<le> 0" "job_CreatedAt job \<le> job_UpdatedAt job" "job_UpdatedAt job \<noteq> 0"
    "now - job_UpdatedAt job < rp_MaxLifetime rp" "\<bar>now - job_UpdatedAt job\<bar> < 2 ^ 63"
  shows "\<not> isStale rp job now"
  using assms by (auto simp: isStale_def time_Sub_def Let_def)

text \<open>A budget of more seconds than a duration holds wraps around: the job is stale at once.\<close>

lemma huge_budget_is_none:
  assumes "job_Options job = Some [(''timeout_seconds'', JNum 10000000000)]" "job_NotBefore job = None" "0 < job_CreatedAt job"
  shows "isStale rp job (job_CreatedAt job)"
proof -
  have "jobTimeoutSeconds job = 10000000000" using assms(1) by (simp add: jobTimeoutSeconds_def)
  then show ?thesis using assms by (simp add: isStale_def wrap64_def time_Sub_def)
qed

subsection \<open>Hints\<close>

definition hints_ok :: "cancel_registry \<Rightarrow> bool" where
  "hints_ok r = (\<forall>j. distinct (map fst (watchers r j)) \<and> (\<forall>w \<in> set (watchers r j). fst w < watch_made r))"

lemma hints_ok_kept:
  assumes "hints_ok r"
  shows "hints_ok (snd (Watch j r))" "hints_ok (release_watch j ch r)" "hints_ok (snd (Hint j r))" "hints_ok (snd (receive_hint j ch r))"
proof -
  have d: "distinct (map fst (watchers r k))" and l: "(c, b) \<in> set (watchers r k) \<Longrightarrow> c < watch_made r" for k c b
    using assms by (force simp: hints_ok_def)+
  have f: "fst \<circ> (\<lambda>(c, b). (c, g c b)) = fst" for g :: "nat \<Rightarrow> bool \<Rightarrow> bool" by auto
  show "hints_ok (snd (Watch j r))" unfolding hints_ok_def Watch_def using d [of j] d l by (auto intro: less_SucI dest: l)
  show "hints_ok (release_watch j ch r)" unfolding hints_ok_def release_watch_def using d l by (auto intro: distinct_map_filter)
  show "hints_ok (snd (Hint j r))" unfolding hints_ok_def Hint_def using d l f [of "\<lambda>_ _. True"] by auto
  show "hints_ok (snd (receive_hint j ch r))"
    unfolding hints_ok_def receive_hint_def using d l f [of "\<lambda>c b. b \<and> c \<noteq> ch"] by auto
qed

lemma hint_wakes_watcher:
  assumes "hints_ok r" "ch \<in> fst ` set (watchers r j)"
  shows "fst (Hint j r)" "fst (receive_hint j ch (snd (Hint j r)))"
proof -
  show "fst (Hint j r)" using assms(2) by (auto simp: Hint_def)
  have d: "distinct (map fst (map (\<lambda>(ch, _). (ch, True)) (watchers r j)))"
    using hints_ok_kept(3) [OF assms(1), of j] by (auto simp: hints_ok_def Hint_def dest: spec [of _ j])
  have "(ch, True) \<in> set (map (\<lambda>(ch, _). (ch, True)) (watchers r j))" using assms(2) by force
  then show "fst (receive_hint j ch (snd (Hint j r)))"
    using d by (simp add: receive_hint_def Hint_def map_of_is_SomeI)
qed

subsection \<open>Witnesses\<close>

definition wit_old_store :: memory_store where
  "wit_old_store = fst (Create wit_request (NewMemoryStore (\<lambda>_. 1)))"

definition wit_old_job :: job where
  "wit_old_job = snd (Create wit_request (NewMemoryStore (\<lambda>_. 1)))"

definition wit_reconciler :: queue_reconciler where
  "wit_reconciler = \<lparr>qr_MinAge = 0, qr_HasJobFails = (\<lambda>_. False), qr_EnqueueFails = (\<lambda>_. False)\<rparr>"

definition wit_reaper :: stale_reaper where
  "wit_reaper = \<lparr>rp_MaxLifetime = hour, rp_HasAttempts = True, rp_HasConcurrency = True, rp_HasNotifier = True\<rparr>"

definition wit_reaped :: reaped_state where
  "wit_reaped = \<lparr>rs_Jobs = wit_old_store, rs_Concurrency = NewConcurrencyRegistry, rs_Notified = []\<rparr>"

lemma wit_old_facts:
  "ms_jobs wit_old_store = [''job_000000000001'' \<mapsto> wit_old_job]" "job_ID wit_old_job = ''job_000000000001''"
  "job_Status wit_old_job = StatusQueued" "job_CreatedAt wit_old_job = 1" "job_UpdatedAt wit_old_job = 1"
  "job_NotBefore wit_old_job = None" "job_Options wit_old_job = None" "ms_order wit_old_store = [''job_000000000001'']"
proof -
  have i: "job_ident 1 = ''job_000000000001''" by code_simp
  show "job_ID wit_old_job = ''job_000000000001''" using i by (simp add: wit_old_job_def Create_def Let_def NewMemoryStore_def)
  show "ms_jobs wit_old_store = [''job_000000000001'' \<mapsto> wit_old_job]" "ms_order wit_old_store = [''job_000000000001'']"
    using i by (simp_all add: wit_old_store_def wit_old_job_def Create_def Let_def NewMemoryStore_def appendEventLocked_def)
  show "job_Status wit_old_job = StatusQueued" "job_CreatedAt wit_old_job = 1" "job_UpdatedAt wit_old_job = 1"
    "job_NotBefore wit_old_job = None" "job_Options wit_old_job = None"
    by (simp_all add: wit_old_job_def Create_def Let_def NewMemoryStore_def wit_request_def create_status_def now_value_def)
qed

lemma wit_old_ok: "store_ok wit_old_store"
  using Create_store_ok [OF store_ok_new] by (simp add: wit_old_store_def)

lemma wit_scannable: "scannable st wit_old_store"
proof -
  have "length (matching_jobs (status_scan st) wit_old_store) \<le> 1"
    by (simp add: matching_jobs_def wit_old_facts map_filter_simps)
  then show ?thesis by (simp add: scannable_def UnboundedScanLimit_def)
qed

lemma reconciler_closes_enqueue_gap_witness:
  "spool_view (snd (queue_SweepOnce wit_reconciler wit_codec hour wit_old_store NewFileSpoolDispatcher)) ''job_000000000001'' = JQueued"
proof -
  have "\<forall>i \<in> dom (ms_jobs wit_old_store). job_name i" using wit_job_name by (simp add: wit_old_facts wit_evaluated)
  from reconciler_closes_enqueue_gap [OF wit_old_ok spool_ok_new this wit_scannable wit_scannable, where r = wit_reconciler and co = wit_codec and now = hour]
  have "spool_view (snd (queue_SweepOnce wit_reconciler wit_codec hour wit_old_store NewFileSpoolDispatcher)) (job_ID wit_old_job) =
      (if spool_view NewFileSpoolDispatcher (job_ID wit_old_job) = JAbsent \<and>
          (\<exists>job. job_ID job = job_ID wit_old_job \<and> awaiting wit_old_store job \<and> wanted wit_reconciler (hour - qr_minAge wit_reconciler) job)
       then JQueued else spool_view NewFileSpoolDispatcher (job_ID wit_old_job))"
    by (simp add: case_prod_beta)
  moreover have "awaiting wit_old_store wit_old_job" "wanted wit_reconciler (hour - qr_minAge wit_reconciler) wit_old_job"
    by (simp_all add: awaiting_def wanted_def wit_old_facts wit_reconciler_def qr_minAge_def defaultQueueReconcilerMinAge_def)
  moreover have "spool_view NewFileSpoolDispatcher j = JAbsent" for j
    by (simp add: spool_view_def jobs_in_def ended_jobs_def NewFileSpoolDispatcher_def spool_names_def)
  ultimately show ?thesis by (auto simp: wit_old_facts)
qed

lemma reaper_ends_exactly_the_stale_witness: "fst (reaper_SweepOnce wit_reaper (2 * hour) wit_reaped) = 1"
proof -
  have h: "rs_Jobs wit_reaped = wit_old_store" by (simp add: wit_reaped_def)
  obtain ids where ids: "distinct ids" "set ids = {i. \<exists>job. ms_jobs wit_old_store i = Some job \<and>
        \<not> TerminalStatus (job_Status job) \<and> isStale wit_reaper job (2 * hour)}"
      "fst (reaper_SweepOnce wit_reaper (2 * hour) wit_reaped) = length ids"
    using reaper_ends_exactly_the_stale [of wit_reaped wit_reaper "2 * hour"] wit_old_ok wit_scannable unfolding h
    by (auto simp: case_prod_beta)
  have "isStale wit_reaper wit_old_job (2 * hour)"
    by (simp add: isStale_def wit_reaper_def wit_old_facts jobTimeoutSeconds_def time_Sub_def)
  then have "set ids = {''job_000000000001''}" using ids(2) by (auto simp: wit_old_facts TerminalStatus_def split: if_splits)
  then have "length ids = 1" using distinct_card [OF ids(1)] by simp
  then show ?thesis using ids(3) by simp
qed

end
