(* ===== verification/StreamIngest.thy ===== *)
theory StreamIngest
  imports Consumer GoNet
begin

text \<open>
  The sink of a streamed run (\<open>executor/streamingest.go\<close>) and its call site (\<open>runWorker\<close> in
  \<open>executor/streamrunner.go\<close>). Events are written while the worker runs: tokens are merged until
  the next flush, telemetry is set aside, the terminal event is held back until the run has
  ended cleanly.

  Every call is given the clock reading \<open>now\<close> and whether the store call it may make fails
  (\<open>flt\<close>). The flush timer is an operation of its own, which may fire at any time. A pending
  event carries the \<open>coalesced_deltas\<close> count the buffer itself stamped on it, 0 when none (Go tells
  that \<open>int\<close> from a number of the worker by its type). \<open>si_Sent\<close> records the events handed to the store. Not modelled: the time
  spent, and the alerts and projections fired after an event has been applied.
\<close>

definition defaultStreamByteBudget :: int where "defaultStreamByteBudget = 8 * 2 ^ 20"
definition defaultStreamFlushInterval :: dur where "defaultStreamFlushInterval = 50 * millisecond"
definition streamEventOverheadBytes :: int where "streamEventOverheadBytes = 256"
definition maxCoalescedTokenBytes :: nat where "maxCoalescedTokenBytes = 16 * 2 ^ 10"
definition maxPendingStreamEvents :: nat where "maxPendingStreamEvents = 64"

text \<open>The environment's value as \<open>strconv.Atoi\<close> reads it (\<open>None\<close>: unset or not a number).\<close>

definition streamByteBudget :: "int option \<Rightarrow> int" where
  "streamByteBudget v = (case v of Some n \<Rightarrow> if 0 < n then n else defaultStreamByteBudget | None \<Rightarrow> defaultStreamByteBudget)"

definition streamFlushInterval :: "int option \<Rightarrow> dur" where
  "streamFlushInterval v =
     (case v of Some n \<Rightarrow> if 0 \<le> n then wrap64 (n * millisecond) else defaultStreamFlushInterval | None \<Rightarrow> defaultStreamFlushInterval)"

record stream_ingest =
  si_Jobs :: memory_store
  si_Events :: nat
  si_Terminal :: "worker_event option"
  si_Submitted :: bool
  si_Used :: int
  si_Pending :: "(worker_event \<times> nat) list"
  si_LastFlush :: gotime
  si_Timer :: bool
  si_Closed :: bool
  si_FlushErr :: "run_error option"
  si_Sent :: "worker_event list"

record stream_config =
  st_env :: env
  st_envelope :: envelope
  st_strict :: bool
  st_budget :: int
  st_interval :: dur

definition new_stream :: "memory_store \<Rightarrow> stream_ingest" where
  "new_stream m = \<lparr>si_Jobs = m, si_Events = 0, si_Terminal = None, si_Submitted = False, si_Used = 0, si_Pending = [],
     si_LastFlush = 0, si_Timer = False, si_Closed = False, si_FlushErr = None, si_Sent = []\<rparr>"

definition stream_fail :: "stream_config \<Rightarrow> stream_ingest \<Rightarrow> string \<Rightarrow> run_error" where
  "stream_fail k s text = classifySubmission (st_strict k) ((plain_error text)\<lparr>re_syntax := True\<rparr>) (si_Submitted s)"

subsection \<open>Merging tokens\<close>

definition tokenText :: "worker_event \<Rightarrow> string option" where
  "tokenText ev =
     (case map_get (we_Data ev) ''delta'' of
        Some (JObj delta) \<Rightarrow> (case map_of delta ''text'' of Some (JStr t) \<Rightarrow> Some t | _ \<Rightarrow> None)
      | _ \<Rightarrow> None)"

definition mergeTokens :: "worker_event \<times> nat \<Rightarrow> worker_event \<Rightarrow> (worker_event \<times> nat) option" where
  "mergeTokens prev nxt =
     (if we_Type (fst prev) \<noteq> ''token'' \<or> we_Type nxt \<noteq> ''token'' then None
      else (case (tokenText (fst prev), tokenText nxt) of
              (Some a, Some b) \<Rightarrow>
                if maxCoalescedTokenBytes < length a + length b then None
                else
                  let n = (if snd prev = 0 then 1 else snd prev) + 1;
                      data = (case we_Data (fst prev) of None \<Rightarrow> [] | Some d \<Rightarrow> d);
                      data = AList.update ''delta'' (JObj [(''text'', JStr (a @ b))]) data;
                      data = AList.update ''coalesced_deltas'' (JNum (of_nat n)) data
                  in Some ((fst prev)\<lparr>we_Data := Some data\<rparr>, n)
            | _ \<Rightarrow> None))"

definition stream_buffer :: "worker_event \<Rightarrow> (worker_event \<times> nat) list \<Rightarrow> (worker_event \<times> nat) list" where
  "stream_buffer ev pending =
     (if pending \<noteq> [] \<and> we_Type ev = ''token''
      then (case mergeTokens (last pending) ev of
              Some merged \<Rightarrow> butlast pending @ [merged]
            | None \<Rightarrow> pending @ [(ev, 0)])
      else pending @ [(ev, 0)])"

definition dataSize :: "env \<Rightarrow> jmap option \<Rightarrow> int" where
  "dataSize env data = marshal_len env (case data of None \<Rightarrow> JNull | Some d \<Rightarrow> JObj d)"

subsection \<open>Flushing\<close>

definition stream_flush :: "stream_config \<Rightarrow> bool \<Rightarrow> gotime \<Rightarrow> stream_ingest \<Rightarrow> run_error option \<times> stream_ingest" where
  "stream_flush k flt now s0 =
     (let s = s0\<lparr>si_Timer := False\<rparr> in
      if si_Pending s = [] then (None, s)
      else
        let batch = map fst (si_Pending s);
            s1 = s\<lparr>si_Pending := [], si_LastFlush := now, si_Sent := si_Sent s @ batch\<rparr>
        in if flt then (Some (stream_fail k s1 ''store''), s1)
           else (case ApplyWorkerEvents (st_env k) batch (si_Jobs s1) of
                   (m, Inl _) \<Rightarrow> (Some (stream_fail k s1 ''store''), s1\<lparr>si_Jobs := m\<rparr>)
                 | (m, Inr None) \<Rightarrow>
                     (Some ((stream_fail k s1 ''worker event referenced missing job'')\<lparr>re_missingJob := True\<rparr>), s1\<lparr>si_Jobs := m\<rparr>)
                 | (m, Inr (Some _)) \<Rightarrow> (None, s1\<lparr>si_Jobs := m\<rparr>)))"

definition flushOnTimer :: "stream_config \<Rightarrow> bool \<Rightarrow> gotime \<Rightarrow> stream_ingest \<Rightarrow> stream_ingest" where
  "flushOnTimer k flt now s0 =
     (let s = s0\<lparr>si_Timer := False\<rparr> in
      if si_Closed s \<or> si_FlushErr s \<noteq> None then s
      else (case stream_flush k flt now s of (err, s1) \<Rightarrow> s1\<lparr>si_FlushErr := err\<rparr>))"

subsection \<open>One event\<close>

definition stream_Emit :: "stream_config \<Rightarrow> bool \<Rightarrow> gotime \<Rightarrow> worker_event \<Rightarrow> stream_ingest \<Rightarrow> run_error option \<times> stream_ingest" where
  "stream_Emit k flt now ev s0 =
     (if si_FlushErr s0 \<noteq> None then (si_FlushErr s0, s0)
      else
        let s1 = s0\<lparr>si_Events := Suc (si_Events s0),
                    si_Used := si_Used s0 + streamEventOverheadBytes + dataSize (st_env k) (we_Data ev)\<rparr>
        in if st_budget k < si_Used s1 then (Some (stream_fail k s1 ''worker stream exceeded the byte budget''), s1)
           else if we_Type ev = [] then (Some (stream_fail k s1 ''worker event is missing type''), s1)
           else if staleAttemptEvent (st_envelope k) ev then (None, s1)
           else (case normalizeWorkerEvent (st_envelope k) ev of
                   None \<Rightarrow> (Some (stream_fail k s1 ''invalid worker event''), s1)
                 | Some n \<Rightarrow>
                     let s2 = (if we_Type n = promptSubmittedEventType then s1\<lparr>si_Submitted := True\<rparr> else s1) in
                     if telemetryEventType (we_Type n) then (None, s2)
                     else if terminalWorkerEventType (we_Type n)
                     then (if si_Terminal s2 \<noteq> None
                           then (Some (stream_fail k s2 ''worker emitted a second terminal event; expected exactly one''), s2)
                           else (None, s2\<lparr>si_Terminal := Some n\<rparr>))
                     else if si_Terminal s2 \<noteq> None then (None, s2)
                     else
                       let s3 = s2\<lparr>si_Pending := stream_buffer n (si_Pending s2)\<rparr>;
                           wait = st_interval k - (now - si_LastFlush s3)
                       in if we_Type n \<noteq> ''token'' \<or> maxPendingStreamEvents \<le> length (si_Pending s3) \<or> wait \<le> 0
                          then stream_flush k flt now s3
                          else (None, s3\<lparr>si_Timer := True\<rparr>)))"

subsection \<open>The end of a run\<close>

definition stream_close :: "stream_config \<Rightarrow> bool \<Rightarrow> gotime \<Rightarrow> stream_ingest \<Rightarrow> run_error option \<times> stream_ingest" where
  "stream_close k flt now s0 =
     (let s = s0\<lparr>si_Closed := True\<rparr> in
      if si_FlushErr s \<noteq> None then (si_FlushErr s, s) else stream_flush k flt now s)"

definition stream_finish :: "stream_config \<Rightarrow> stream_ingest \<Rightarrow> run_error + worker_event list" where
  "stream_finish k s =
     (case si_Terminal s of
        None \<Rightarrow> Inl (stream_fail k s (if si_Events s = 0 then ''worker emitted no events''
                                      else ''worker emitted 0 terminal events; expected exactly one''))
      | Some ev \<Rightarrow> Inr [ev])"

text \<open>
  A run as the sink sees it: the calls to \<open>Emit\<close>, in order, with the timer firing between them.
  The runner stops at the first error \<open>Emit\<close> returns and returns it.
\<close>

datatype stream_call = CallEmit gotime bool worker_event | TimerFires gotime bool

fun stream_calls :: "stream_config \<Rightarrow> stream_call list \<Rightarrow> stream_ingest \<Rightarrow> run_error option \<times> stream_ingest" where
  "stream_calls k [] s = (None, s)"
| "stream_calls k (TimerFires now flt # cs) s = stream_calls k cs (if si_Timer s then flushOnTimer k flt now s else s)"
| "stream_calls k (CallEmit now flt ev # cs) s =
     (case stream_Emit k flt now ev s of
        (None, s1) \<Rightarrow> stream_calls k cs s1
      | (Some err, s1) \<Rightarrow> (Some err, s1))"

text \<open>\<open>runWorker\<close>; \<open>ended\<close> is the runner's own error after the last call (\<open>None\<close>: a clean end).\<close>

definition runWorker ::
  "stream_config \<Rightarrow> stream_call list \<Rightarrow> run_error option \<Rightarrow> bool \<Rightarrow> gotime \<Rightarrow> memory_store
   \<Rightarrow> (run_error + worker_event list) \<times> stream_ingest" where
  "runWorker k calls ended flt now m =
     (case stream_calls k calls (new_stream m) of
        (emitErr, s) \<Rightarrow>
          (case stream_close k flt now s of
             (flushErr, s1) \<Rightarrow>
               (case (case emitErr of Some e \<Rightarrow> Some e | None \<Rightarrow> ended) of
                  Some e \<Rightarrow> (Inl e, s1)
                | None \<Rightarrow> (case flushErr of Some e \<Rightarrow> (Inl e, s1) | None \<Rightarrow> (stream_finish k s1, s1)))))"

end
