(* ===== verification/StreamIngestProps.thy ===== *)
theory StreamIngestProps
  imports StreamIngest
begin

text \<open>
  What a streamed run leaves in the history: the worker's own events in their order, tokens
  merged without losing text, never the terminal event.
\<close>

subsection \<open>The events that count\<close>

text \<open>An event of this attempt that is not telemetry, as the store would see it.\<close>

definition visible :: "stream_config \<Rightarrow> worker_event \<Rightarrow> worker_event option" where
  "visible k ev =
     (if staleAttemptEvent (st_envelope k) ev then None
      else (case normalizeWorkerEvent (st_envelope k) ev of
              None \<Rightarrow> None
            | Some n \<Rightarrow> if telemetryEventType (we_Type n) then None else Some n))"

definition kept :: "stream_config \<Rightarrow> worker_event list \<Rightarrow> worker_event list" where
  "kept k evs = takeWhile (\<lambda>n. \<not> terminalWorkerEventType (we_Type n)) (List.map_filter (visible k) evs)"

definition terminals :: "stream_config \<Rightarrow> worker_event list \<Rightarrow> worker_event list" where
  "terminals k evs = filter (\<lambda>n. terminalWorkerEventType (we_Type n)) (List.map_filter (visible k) evs)"

lemma map_filter_snoc: "List.map_filter f (xs @ [x]) = List.map_filter f xs @ (case f x of None \<Rightarrow> [] | Some y \<Rightarrow> [y])"
  by (induction xs) (auto simp: map_filter_def split: option.split)

lemma kept_snoc:
  "kept k (evs @ [ev]) = kept k evs @
     (case visible k ev of Some n \<Rightarrow> if terminals k evs = [] \<and> \<not> terminalWorkerEventType (we_Type n) then [n] else [] | None \<Rightarrow> [])"
proof -
  have "takeWhile P (xs @ [x]) = takeWhile P xs @ (if filter (\<lambda>y. \<not> P y) xs = [] \<and> P x then [x] else [])"
    for P and xs :: "worker_event list" and x
    by (induction xs) auto
  from this [of "\<lambda>n. \<not> terminalWorkerEventType (we_Type n)"] show ?thesis
    by (auto simp: kept_def terminals_def map_filter_snoc split: option.split)
qed

lemma terminals_snoc:
  "terminals k (evs @ [ev]) = terminals k evs @
     (case visible k ev of Some n \<Rightarrow> if terminalWorkerEventType (we_Type n) then [n] else [] | None \<Rightarrow> [])"
  by (auto simp: terminals_def map_filter_snoc split: option.split)

lemma kept_peaceful: "ev \<in> set (kept k evs) \<Longrightarrow> \<not> terminalWorkerEventType (we_Type ev)"
  by (auto simp: kept_def dest: set_takeWhileD)

subsection \<open>Merged tokens\<close>

definition token_like :: "worker_event \<Rightarrow> bool" where
  "token_like ev = (we_Type ev = ''token'' \<and> tokenText ev \<noteq> None)"

definition texts :: "worker_event list \<Rightarrow> string" where
  "texts evs = concat (map (\<lambda>ev. case tokenText ev of Some t \<Rightarrow> t | None \<Rightarrow> []) evs)"

definition same_but_data :: "worker_event \<Rightarrow> worker_event \<Rightarrow> bool" where
  "same_but_data a b = (a\<lparr>we_Data := None\<rparr> = b\<lparr>we_Data := None\<rparr>)"

lemma same_but_data_type: "same_but_data a b \<Longrightarrow> we_Type a = we_Type b"
  unfolding same_but_data_def by (drule arg_cong [of _ _ we_Type]) simp

lemma same_but_data_put [simp]: "same_but_data (a\<lparr>we_Data := d\<rparr>) b = same_but_data a b" "same_but_data a a"
  by (simp_all add: same_but_data_def)

text \<open>What a pending or written event stands for: itself, or the tokens merged into it.\<close>

definition stands_for :: "worker_event list \<Rightarrow> worker_event \<times> nat \<Rightarrow> bool" where
  "stands_for g p =
     (g = [fst p] \<and> snd p = 0 \<or>
      2 \<le> length g \<and> snd p = length g \<and> list_all token_like g \<and>
      same_but_data (fst p) (hd g) \<and> tokenText (fst p) = Some (texts g) \<and>
      length (texts g) \<le> maxCoalescedTokenBytes \<and>
      map_get (we_Data (fst p)) ''coalesced_deltas'' = Some (JNum (of_nat (length g))) \<and>
      (\<forall>key. key \<noteq> ''delta'' \<and> key \<noteq> ''coalesced_deltas'' \<longrightarrow> map_get (we_Data (fst p)) key = map_get (we_Data (hd g)) key))"

lemma stands_forE:
  assumes "stands_for g p"
  obtains "g = [fst p]" "snd p = 0"
    | "g \<noteq> []" "2 \<le> length g" "snd p = length g" "list_all token_like g" "same_but_data (fst p) (hd g)" "tokenText (fst p) = Some (texts g)"
proof -
  have "g \<noteq> []" by (rule notI) (use assms in \<open>simp add: stands_for_def\<close>)
  then show thesis using assms that unfolding stands_for_def by blast
qed

lemma stands_for_type:
  assumes "stands_for g p" "ev \<in> set g"
  shows "we_Type ev = we_Type (fst p)"
  using assms(1)
proof (cases rule: stands_forE)
  case 2
  have "we_Type (fst p) = we_Type (hd g)" by (rule same_but_data_type [OF 2(5)])
  moreover have "hd g \<in> set g" using 2(1) by simp
  ultimately show ?thesis using 2(4) assms(2) by (simp add: list_all_iff token_like_def)
qed (use assms(2) in auto)

lemma merge_stands:
  assumes g: "stands_for g p" and m: "mergeTokens p ev = Some q"
  shows "stands_for (g @ [ev]) q"
proof -
  obtain a b where ab: "we_Type (fst p) = ''token''" "we_Type ev = ''token''" "tokenText (fst p) = Some a" "tokenText ev = Some b"
      "length a + length b \<le> maxCoalescedTokenBytes"
      and q: "snd q = (if snd p = 0 then 1 else snd p) + 1"
        "fst q = (fst p)\<lparr>we_Data := Some (AList.update ''coalesced_deltas'' (JNum (of_nat ((if snd p = 0 then 1 else snd p) + 1)))
          (AList.update ''delta'' (JObj [(''text'', JStr (a @ b))]) (case we_Data (fst p) of None \<Rightarrow> [] | Some d \<Rightarrow> d)))\<rparr>"
  proof (cases "tokenText (fst p)"; cases "tokenText ev")
    fix a b assume t: "tokenText (fst p) = Some a" "tokenText ev = Some b"
    have c: "we_Type (fst p) = ''token''" "we_Type ev = ''token''" "\<not> maxCoalescedTokenBytes < length a + length b"
      using m t by (auto simp: mergeTokens_def split: if_splits)
    let ?n = "(if snd p = 0 then 1 else snd p) + 1"
    have "mergeTokens p ev = Some ((fst p)\<lparr>we_Data := Some (AList.update ''coalesced_deltas'' (JNum (of_nat ?n))
          (AList.update ''delta'' (JObj [(''text'', JStr (a @ b))]) (case we_Data (fst p) of None \<Rightarrow> [] | Some d \<Rightarrow> d)))\<rparr>, ?n)"
      unfolding mergeTokens_def Let_def using c by (simp only: t option.case prod.case if_False simp_thms)
    with m have "q = ((fst p)\<lparr>we_Data := Some (AList.update ''coalesced_deltas'' (JNum (of_nat ?n))
          (AList.update ''delta'' (JObj [(''text'', JStr (a @ b))]) (case we_Data (fst p) of None \<Rightarrow> [] | Some d \<Rightarrow> d)))\<rparr>, ?n)" by simp
    then show thesis using t c by (intro that [of a b]) (simp_all only: fst_conv snd_conv linorder_not_less)
  qed (use m in \<open>simp_all add: mergeTokens_def split: if_splits\<close>)
  have "(if snd p = 0 then 1 else snd p) = length g \<and> g \<noteq> [] \<and> list_all token_like g \<and> texts g = a \<and> same_but_data (fst p) (hd g)"
    using g by (cases rule: stands_forE) (use ab(1,3) in \<open>auto simp: token_like_def texts_def\<close>)
  then have size: "(if snd p = 0 then 1 else snd p) = length g" "g \<noteq> []" "list_all token_like g" "texts g = a" "hd (g @ [ev]) = hd g"
    "same_but_data (fst p) (hd g)" by simp_all
  have t: "tokenText (fst q) = Some (a @ b)" by (simp add: tokenText_def q(2) map_get_def update_conv')
  have same: "map_get (we_Data (fst q)) key = map_get (we_Data (hd g)) key" if "key \<noteq> ''delta''" "key \<noteq> ''coalesced_deltas''" for key
  proof -
    have "map_get (we_Data (fst q)) key = map_get (we_Data (fst p)) key"
      using that by (auto simp: q(2) map_get_def update_conv' split: option.split)
    also have "\<dots> = map_get (we_Data (hd g)) key" using g that unfolding stands_for_def by (elim disjE) simp_all
    finally show ?thesis .
  qed
  have rest: "same_but_data (fst q) (hd (g @ [ev]))" using size(5,6) by (simp add: q(2))
  have "2 \<le> length (g @ [ev])" "snd q = length (g @ [ev])" "list_all token_like (g @ [ev])" "texts (g @ [ev]) = a @ b"
    "map_get (we_Data (fst q)) ''coalesced_deltas'' = Some (JNum (of_nat (length (g @ [ev]))))"
    using size ab q(1) by (auto simp: token_like_def texts_def Suc_le_eq q(2) map_get_def update_conv')
  then show ?thesis using t same rest ab(5) size(5) unfolding stands_for_def by simp
qed

definition pending_for :: "worker_event list \<Rightarrow> (worker_event \<times> nat) list \<Rightarrow> bool" where
  "pending_for evs ps = (\<exists>gs. concat gs = evs \<and> list_all2 stands_for gs ps)"

definition written_for :: "worker_event list \<Rightarrow> worker_event list \<Rightarrow> bool" where
  "written_for evs out = (\<exists>gs. concat gs = evs \<and> list_all2 (\<lambda>g ev. \<exists>n. stands_for g (ev, n)) gs out)"

lemma buffer_pending:
  assumes "pending_for evs ps"
  shows "pending_for (evs @ [ev]) (stream_buffer ev ps)"
proof -
  obtain gs where gs: "concat gs = evs" "list_all2 stands_for gs ps" using assms by (auto simp: pending_for_def)
  have new: "pending_for (evs @ [ev]) (ps @ [(ev, 0)])"
    unfolding pending_for_def using gs by (intro exI [of _ "gs @ [[ev]]"]) (auto simp: list_all2_appendI stands_for_def)
  show ?thesis
  proof (cases "ps \<noteq> [] \<and> we_Type ev = ''token'' \<and> mergeTokens (last ps) ev \<noteq> None")
    case True
    then obtain q where q: "mergeTokens (last ps) ev = Some q" by auto
    then have buf: "stream_buffer ev ps = butlast ps @ [q]" using True by (simp add: stream_buffer_def)
    have "gs \<noteq> []" using gs(2) True by auto
    then obtain hs g where h: "gs = hs @ [g]" by (cases gs rule: rev_cases) auto
    obtain qs p where ps: "ps = qs @ [p]" using True by (cases ps rule: rev_cases) auto
    have two: "list_all2 stands_for hs qs" "stands_for g p"
      using gs(2) list_all2_lengthD [OF gs(2)] by (simp_all add: h ps list_all2_append)
    have "stands_for (g @ [ev]) q" using merge_stands [OF two(2)] q ps by simp
    then show ?thesis unfolding pending_for_def buf using two(1) gs(1)
      by (intro exI [of _ "hs @ [g @ [ev]]"]) (simp add: h ps list_all2_appendI)
  next
    case False
    then have "stream_buffer ev ps = ps @ [(ev, 0)]"
      unfolding stream_buffer_def
      by (cases "ps \<noteq> [] \<and> we_Type ev = ''token''"; cases "mergeTokens (last ps) ev") (simp_all only: if_True if_False option.case simp_thms option.distinct)
    then show ?thesis using new by simp
  qed
qed

lemma write_pending:
  assumes "written_for evs out" "pending_for fs ps"
  shows "written_for (evs @ fs) (out @ map fst ps)"
proof -
  obtain gs hs where "concat gs = evs" "list_all2 (\<lambda>g ev. \<exists>n. stands_for g (ev, n)) gs out" "concat hs = fs" "list_all2 stands_for hs ps"
    using assms by (auto simp: written_for_def pending_for_def)
  moreover from this(4) have "list_all2 (\<lambda>g ev. \<exists>n. stands_for g (ev, n)) hs (map fst ps)"
    unfolding list_all2_map2 by (rule list_all2_mono) (metis prod.collapse)
  ultimately show ?thesis unfolding written_for_def by (intro exI [of _ "gs @ hs"]) (simp add: list_all2_appendI)
qed

lemma written_texts:
  assumes "written_for evs out"
  shows "texts out = texts evs"
proof -
  obtain gs where "concat gs = evs" "list_all2 (\<lambda>g ev. \<exists>n. stands_for g (ev, n)) gs out" using assms by (auto simp: written_for_def)
  from this(2) have "texts out = texts (concat gs)"
  proof (induction rule: list_all2_induct)
    case (Cons g gs ev out)
    from Cons(1) obtain n where "stands_for g (ev, n)" by blast
    then have "g = [ev] \<or> tokenText ev = Some (texts g)" by (cases rule: stands_forE) simp_all
    then have "texts [ev] = texts g" by (elim disjE) (simp_all add: texts_def)
    then show ?case using Cons by (simp add: texts_def)
  qed simp
  with \<open>concat gs = evs\<close> show ?thesis by simp
qed

subsection \<open>The invariant of a run\<close>

definition history :: "stream_config \<Rightarrow> worker_event list \<Rightarrow> stream_ingest \<Rightarrow> bool" where
  "history k evs s = (\<exists>ws fs. written_for ws (si_Sent s) \<and> pending_for fs (si_Pending s) \<and> ws @ fs = kept k evs)"

definition stream_inv :: "stream_config \<Rightarrow> worker_event list \<Rightarrow> stream_ingest \<Rightarrow> bool" where
  "stream_inv k evs s =
     (history k evs s \<and> (si_FlushErr s \<noteq> None \<longrightarrow> si_Pending s = []) \<and>
      terminals k evs = (case si_Terminal s of None \<Rightarrow> [] | Some n \<Rightarrow> [n]) \<and> si_Events s = length evs)"

lemma history_same:
  "si_Sent s' = si_Sent s \<Longrightarrow> si_Pending s' = si_Pending s \<Longrightarrow> kept k evs' = kept k evs \<Longrightarrow> history k evs' s' = history k evs s"
  by (simp add: history_def)

lemma history_buffered:
  assumes "history k evs s"
  shows "\<exists>ws fs. written_for ws (si_Sent s) \<and> pending_for fs (stream_buffer n (si_Pending s)) \<and> ws @ fs = kept k evs @ [n]"
proof -
  obtain ws fs where "written_for ws (si_Sent s)" "pending_for fs (si_Pending s)" "ws @ fs = kept k evs"
    using assms by (auto simp: history_def)
  then show ?thesis using buffer_pending [of fs "si_Pending s" n] by (intro exI [of _ ws] exI [of _ "fs @ [n]"]) simp
qed

lemma stream_flush_effect:
  assumes "stream_flush k flt now s = (err, s')"
  shows "history k evs s \<longrightarrow> history k evs s'" "si_Pending s' = []" "si_FlushErr s' = si_FlushErr s" "si_Terminal s' = si_Terminal s"
    "si_Events s' = si_Events s" "si_Used s' = si_Used s"
proof -
  have s': "si_Sent s' = si_Sent s @ map fst (si_Pending s) \<and> si_Pending s' = [] \<and> si_FlushErr s' = si_FlushErr s \<and> si_Terminal s' = si_Terminal s \<and>
      si_Events s' = si_Events s \<and> si_Used s' = si_Used s"
    using assms by (auto simp: stream_flush_def Let_def split: if_splits prod.splits sum.splits option.splits)
  then show "si_Pending s' = []" "si_FlushErr s' = si_FlushErr s" "si_Terminal s' = si_Terminal s" "si_Events s' = si_Events s" "si_Used s' = si_Used s"
    by simp_all
  show "history k evs s \<longrightarrow> history k evs s'"
  proof
    assume "history k evs s"
    then obtain ws fs where "written_for ws (si_Sent s)" "pending_for fs (si_Pending s)" "ws @ fs = kept k evs"
      by (auto simp: history_def)
    from write_pending [OF this(1,2)] this(3) show "history k evs s'"
      unfolding history_def using s' by (intro exI [of _ "ws @ fs"] exI [of _ "[]"]) (simp add: pending_for_def)
  qed
qed

lemma stream_inv_flush:
  assumes "stream_inv k evs s" "stream_flush k flt now s = (err, s')"
  shows "stream_inv k evs (s'\<lparr>si_FlushErr := e\<rparr>)"
  using stream_flush_effect [OF assms(2)] assms(1) by (simp add: stream_inv_def history_def)

lemma stream_timer_effect: "stream_inv k evs s \<Longrightarrow> stream_inv k evs (flushOnTimer k flt now s)"
proof -
  assume "stream_inv k evs s"
  then have "stream_inv k evs (s\<lparr>si_Timer := False\<rparr>)" by (simp add: stream_inv_def history_def)
  then show ?thesis unfolding flushOnTimer_def Let_def
    by (cases "stream_flush k flt now (s\<lparr>si_Timer := False\<rparr>)") (auto dest: stream_inv_flush)
qed

lemma stream_Emit_effect:
  assumes inv: "stream_inv k evs s" and e: "stream_Emit k flt now ev s = (err, s')"
  shows "(err = None \<longrightarrow> stream_inv k (evs @ [ev]) s') \<and> (history k evs s' \<or> history k (evs @ [ev]) s') \<and>
    (si_FlushErr s' \<noteq> None \<longrightarrow> si_Pending s' = [])"
proof -
  have h: "history k evs s" and f: "si_FlushErr s \<noteq> None \<longrightarrow> si_Pending s = []"
    and t: "terminals k evs = (case si_Terminal s of None \<Rightarrow> [] | Some n \<Rightarrow> [n])" and len: "si_Events s = length evs"
    using inv by (simp_all add: stream_inv_def)
  define s1 where "s1 = s\<lparr>si_Events := Suc (si_Events s), si_Used := si_Used s + streamEventOverheadBytes + dataSize (st_env k) (we_Data ev)\<rparr>"
  have h1: "history k evs s1" "si_Sent s1 = si_Sent s" "si_Pending s1 = si_Pending s" "si_Terminal s1 = si_Terminal s"
      "si_FlushErr s1 = si_FlushErr s" "si_Events s1 = Suc (length evs)"
    using h len by (simp_all add: s1_def history_def)
  have shown_ok: ?thesis if shown: "\<not> staleAttemptEvent (st_envelope k) ev" "normalizeWorkerEvent (st_envelope k) ev = Some n" "si_FlushErr s = None"
      "si_Used s1 \<le> st_budget k" "we_Type ev \<noteq> []" for n
  proof -
    define s2 where "s2 = (if we_Type n = promptSubmittedEventType then s1\<lparr>si_Submitted := True\<rparr> else s1)"
    have h2: "history k evs s2" "si_Sent s2 = si_Sent s" "si_Pending s2 = si_Pending s" "si_Terminal s2 = si_Terminal s"
        "si_FlushErr s2 = None" "si_Events s2 = Suc (length evs)"
      using h1 shown(3) by (simp_all add: s2_def history_def)
    define s3 where "s3 = s2\<lparr>si_Pending := stream_buffer n (si_Pending s2)\<rparr>"
    have emit: "(if telemetryEventType (we_Type n) then (None, s2)
                 else if terminalWorkerEventType (we_Type n)
                 then (if si_Terminal s2 \<noteq> None
                       then (Some (stream_fail k s2 ''worker emitted a second terminal event; expected exactly one''), s2)
                       else (None, s2\<lparr>si_Terminal := Some n\<rparr>))
                 else if si_Terminal s2 \<noteq> None then (None, s2)
                 else if we_Type n \<noteq> ''token'' \<or> maxPendingStreamEvents \<le> length (si_Pending s3) \<or> st_interval k - (now - si_LastFlush s3) \<le> 0
                      then stream_flush k flt now s3
                      else (None, s3\<lparr>si_Timer := True\<rparr>)) = (err, s')"
      using e shown unfolding stream_Emit_def Let_def s1_def [symmetric]
      by (simp only: linorder_not_less [symmetric] option.case if_False s2_def [symmetric] s3_def [symmetric] simp_thms not_None_eq)
    consider (early) "err \<noteq> None" "si_Sent s' = si_Sent s" "si_Pending s' = si_Pending s" "si_FlushErr s' = si_FlushErr s"
      | (telemetry) "err = None" "s' = s2" "telemetryEventType (we_Type n)"
      | (terminal) "err = None" "s' = s2\<lparr>si_Terminal := Some n\<rparr>" "\<not> telemetryEventType (we_Type n)" "terminalWorkerEventType (we_Type n)" "si_Terminal s2 = None"
      | (late) "err = None" "s' = s2" "\<not> telemetryEventType (we_Type n)" "\<not> terminalWorkerEventType (we_Type n)" "si_Terminal s2 \<noteq> None"
      | (flush) "stream_flush k flt now s3 = (err, s')" "\<not> telemetryEventType (we_Type n)" "\<not> terminalWorkerEventType (we_Type n)" "si_Terminal s2 = None"
      | (wait) "err = None" "s' = s3\<lparr>si_Timer := True\<rparr>" "\<not> telemetryEventType (we_Type n)" "\<not> terminalWorkerEventType (we_Type n)" "si_Terminal s2 = None"
      using emit
      by (cases "telemetryEventType (we_Type n)"; cases "terminalWorkerEventType (we_Type n)"; cases "si_Terminal s2";
          cases "we_Type n \<noteq> ''token'' \<or> maxPendingStreamEvents \<le> length (si_Pending s3) \<or> st_interval k - (now - si_LastFlush s3) \<le> 0")
        (use h2(2-5) shown(3) in \<open>auto simp del: de_Morgan_disj\<close>)
    then show ?thesis
    proof cases
      case early
      then show ?thesis using h f by (auto simp: history_def)
    next
      case telemetry
      then have "visible k ev = None" using shown by (simp add: visible_def)
      then show ?thesis using telemetry h2 t by (simp add: stream_inv_def kept_snoc terminals_snoc history_def)
    next
      case terminal
      then have v: "visible k ev = Some n" using shown by (simp add: visible_def)
      have "terminals k evs = []" using t terminal(5) h2(4) by simp
      then show ?thesis using terminal h2 v by (simp add: stream_inv_def kept_snoc terminals_snoc history_def)
    next
      case late
      then have v: "visible k ev = Some n" using shown by (simp add: visible_def)
      have "terminals k evs \<noteq> []" using t late(5) h2(4) by (auto split: option.splits)
      then show ?thesis using late h2 v t by (simp add: stream_inv_def kept_snoc terminals_snoc history_def)
    next
      case flush
      then have v: "visible k ev = Some n" using shown by (simp add: visible_def)
      have none: "terminals k evs = []" using t flush(4) h2(4) by simp
      have "history k (evs @ [ev]) s3" using history_buffered [OF h2(1)] v none flush(3) by (simp add: s3_def kept_snoc history_def)
      then show ?thesis using stream_flush_effect(1) [OF flush(1), of "evs @ [ev]"] stream_flush_effect(2-) [OF flush(1)] h2 none v flush(3,4)
        by (simp add: stream_inv_def terminals_snoc s3_def)
    next
      case wait
      then have v: "visible k ev = Some n" using shown by (simp add: visible_def)
      have none: "terminals k evs = []" using t wait(5) h2(4) by simp
      have "history k (evs @ [ev]) s3" using history_buffered [OF h2(1)] v none wait(4) by (simp add: s3_def kept_snoc history_def)
      then show ?thesis using h2 none v wait by (simp add: stream_inv_def terminals_snoc s3_def history_def)
    qed
  qed
  consider (gone) "si_FlushErr s \<noteq> None" | (over) "si_FlushErr s = None" "st_budget k < si_Used s1 \<or> we_Type ev = []"
    | (stale) "si_FlushErr s = None" "si_Used s1 \<le> st_budget k" "we_Type ev \<noteq> []" "staleAttemptEvent (st_envelope k) ev"
    | (invalid) "si_FlushErr s = None" "si_Used s1 \<le> st_budget k" "we_Type ev \<noteq> []" "\<not> staleAttemptEvent (st_envelope k) ev" "normalizeWorkerEvent (st_envelope k) ev = None"
    | (seen) n where "si_FlushErr s = None" "si_Used s1 \<le> st_budget k" "we_Type ev \<noteq> []" "\<not> staleAttemptEvent (st_envelope k) ev" "normalizeWorkerEvent (st_envelope k) ev = Some n"
    by fastforce
  then show ?thesis
  proof cases
    case gone
    then have "err \<noteq> None" "s' = s" using e by (auto simp: stream_Emit_def)
    then show ?thesis using h f by auto
  next
    case over
    then have "err \<noteq> None" "s' = s1" using e unfolding stream_Emit_def Let_def s1_def [symmetric] by (auto split: if_splits)
    then show ?thesis using h1 over(1) by auto
  next
    case stale
    then have r: "err = None" "s' = s1" using e unfolding stream_Emit_def Let_def s1_def [symmetric] by auto
    have "visible k ev = None" using stale(4) by (simp add: visible_def)
    then show ?thesis using r h1 f t by (simp add: stream_inv_def kept_snoc terminals_snoc history_def)
  next
    case invalid
    then have "err \<noteq> None" "s' = s1" using e unfolding stream_Emit_def Let_def s1_def [symmetric] by auto
    then show ?thesis using h1 invalid(1) by auto
  qed (use shown_ok in blast)
qed

fun emitted :: "stream_call list \<Rightarrow> worker_event list" where
  "emitted [] = []"
| "emitted (CallEmit now flt ev # cs) = ev # emitted cs"
| "emitted (TimerFires now flt # cs) = emitted cs"

lemma stream_calls_effect:
  assumes "stream_inv k evs s" "stream_calls k cs s = (err, s')"
  shows "(err = None \<longrightarrow> stream_inv k (evs @ emitted cs) s') \<and>
    (\<exists>n \<le> length (emitted cs). history k (evs @ take n (emitted cs)) s' \<and> (err = None \<longrightarrow> n = length (emitted cs))) \<and>
    (si_FlushErr s' \<noteq> None \<longrightarrow> si_Pending s' = [])"
  using assms
proof (induction cs arbitrary: evs s)
  case Nil
  then show ?case by (simp add: stream_inv_def)
next
  case (Cons c cs)
  show ?case
  proof (cases c)
    case (TimerFires now flt)
    have "stream_inv k evs (if si_Timer s then flushOnTimer k flt now s else s)" using stream_timer_effect Cons.prems(1) by simp
    from Cons.IH [OF this] Cons.prems(2) show ?thesis by (simp add: TimerFires)
  next
    case (CallEmit now flt ev)
    obtain r s1 where e: "stream_Emit k flt now ev s = (r, s1)" by fastforce
    note one = stream_Emit_effect [OF Cons.prems(1) e]
    show ?thesis
    proof (cases r)
      case None
      then have "stream_inv k (evs @ [ev]) s1" using one by simp
      from Cons.IH [OF this] Cons.prems(2) None e obtain n where
          "err = None \<longrightarrow> stream_inv k (evs @ ev # emitted cs) s'" "n \<le> length (emitted cs)" "history k (evs @ ev # take n (emitted cs)) s'"
          "err = None \<longrightarrow> n = length (emitted cs)" "si_FlushErr s' \<noteq> None \<longrightarrow> si_Pending s' = []"
        by (auto simp: CallEmit)
      then show ?thesis by (intro conjI exI [of _ "Suc n"]) (simp_all add: CallEmit)
    next
      case (Some x)
      then have r: "err = Some x" "s' = s1" using Cons.prems(2) e by (simp_all add: CallEmit)
      have "history k (evs @ take 0 (emitted (c # cs))) s' \<or> history k (evs @ take 1 (emitted (c # cs))) s'"
        using one r by (simp add: CallEmit)
      moreover have "1 \<le> length (emitted (c # cs))" by (simp add: CallEmit)
      ultimately have "\<exists>n \<le> length (emitted (c # cs)). history k (evs @ take n (emitted (c # cs))) s'" by blast
      then show ?thesis using r one by simp
    qed
  qed
qed

lemma new_stream_inv: "stream_inv k [] (new_stream m)"
  by (auto simp: stream_inv_def history_def new_stream_def kept_def terminals_def map_filter_def written_for_def pending_for_def)

text \<open>C15. What a streamed run writes is what the worker said. However the calls and the timer interleave,
  and however the run ends, the events handed to the store are, in order, the visible events of
  the calls made before it ended (all of them when no call was refused) up to the first terminal
  one, each as it came or merged with the tokens next to it, so that no text is lost or
  repeated; a terminal event is never among them. The run yields a result only when exactly one terminal
  event came, and then the result is that event.
\<close>

theorem stream_writes_what_the_worker_said:
  assumes "runWorker k calls ended flt now m = (res, s)"
  shows "\<exists>n \<le> length (emitted calls).
    written_for (kept k (take n (emitted calls))) (si_Sent s) \<and>
    texts (si_Sent s) = texts (kept k (take n (emitted calls))) \<and>
    list_all (\<lambda>ev. \<not> terminalWorkerEventType (we_Type ev)) (si_Sent s) \<and>
    (fst (stream_calls k calls (new_stream m)) = None \<longrightarrow> n = length (emitted calls)) \<and>
    (\<forall>evs. res = Inr evs \<longrightarrow> terminals k (emitted calls) = evs \<and> length evs = 1 \<and> n = length (emitted calls))"
proof -
  obtain e s1 where c: "stream_calls k calls (new_stream m) = (e, s1)" by fastforce
  obtain f s2 where d: "stream_close k flt now s1 = (f, s2)" by fastforce
  have s: "s = s2" using assms c d by (auto simp: runWorker_def split: option.splits)
  from stream_calls_effect [OF new_stream_inv c] obtain n where
      n: "e = None \<longrightarrow> stream_inv k (emitted calls) s1" "n \<le> length (emitted calls)" "history k (take n (emitted calls)) s1"
      "e = None \<longrightarrow> n = length (emitted calls)" "si_FlushErr s1 \<noteq> None \<longrightarrow> si_Pending s1 = []" by auto
  have closed: "history k evs s1 \<longrightarrow> history k evs s2" "si_Pending s2 = []" "si_Terminal s2 = si_Terminal s1" for evs
  proof -
    let ?c = "s1\<lparr>si_Closed := True\<rparr>"
    have same: "history k evs ?c = history k evs s1" by (simp add: history_def)
    have "(history k evs s1 \<longrightarrow> history k evs s2) \<and> si_Pending s2 = [] \<and> si_Terminal s2 = si_Terminal s1"
    proof (cases "si_FlushErr s1")
      case None
      then have "stream_flush k flt now ?c = (f, s2)" using d by (simp add: stream_close_def Let_def)
      from stream_flush_effect [OF this] same show ?thesis by simp
    next
      case (Some x)
      then have "s2 = ?c" using d by (simp add: stream_close_def Let_def)
      then show ?thesis using same Some n(5) by simp
    qed
    then show "history k evs s1 \<longrightarrow> history k evs s2" "si_Pending s2 = []" "si_Terminal s2 = si_Terminal s1" by simp_all
  qed
  have w: "written_for (kept k (take n (emitted calls))) (si_Sent s)"
  proof -
    obtain ws fs where "written_for ws (si_Sent s2)" "pending_for fs []" "ws @ fs = kept k (take n (emitted calls))"
      using closed(1) [of "take n (emitted calls)"] closed(2) n(3) by (auto simp: history_def)
    then show ?thesis unfolding s by (auto simp: pending_for_def)
  qed
  have "\<not> terminalWorkerEventType (we_Type ev)" if "ev \<in> set (si_Sent s)" for ev
  proof -
    obtain gs where gs: "concat gs = kept k (take n (emitted calls))" "list_all2 (\<lambda>g ev. \<exists>n. stands_for g (ev, n)) gs (si_Sent s)"
      using w by (auto simp: written_for_def)
    obtain i where i: "i < length (si_Sent s)" "ev = si_Sent s ! i" using \<open>ev \<in> set (si_Sent s)\<close> by (auto simp: in_set_conv_nth)
    then have "gs ! i \<in> set gs" "\<exists>c. stands_for (gs ! i) (ev, c)" using gs(2) by (simp_all add: list_all2_conv_all_nth)
    then obtain g c where g: "g \<in> set gs" "stands_for g (ev, c)" by blast
    have "g \<noteq> []" using g(2) by (cases rule: stands_forE) simp_all
    then have "hd g \<in> set (kept k (take n (emitted calls)))" using g(1) gs(1) by (metis concat_append hd_in_set UN_I set_concat)
    then show ?thesis using kept_peaceful stands_for_type [OF g(2), of "hd g"] \<open>g \<noteq> []\<close> by fastforce
  qed
  moreover have "terminals k (emitted calls) = evs \<and> length evs = 1 \<and> n = length (emitted calls)" if "res = Inr evs" for evs
  proof -
    have fin: "e = None" "stream_finish k s2 = Inr evs" using that assms c d by (auto simp: runWorker_def split: option.splits)
    then obtain t where "si_Terminal s2 = Some t" "evs = [t]" by (auto simp: stream_finish_def split: option.splits)
    moreover have "terminals k (emitted calls) = (case si_Terminal s1 of None \<Rightarrow> [] | Some t \<Rightarrow> [t])"
      using n(1) fin(1) unfolding stream_inv_def by blast
    ultimately show ?thesis using n(4) fin(1) closed(3) by simp
  qed
  ultimately show ?thesis using n(2,4) w written_texts [OF w] c by (intro exI [of _ n]) (simp add: list_all_iff)
qed

text \<open>Merging keeps the text of a delta and nothing else of it.\<close>

lemma merged_delta_is_text_only:
  assumes "mergeTokens p ev = Some q"
  shows "\<exists>a b. tokenText (fst p) = Some a \<and> tokenText ev = Some b \<and>
    map_get (we_Data (fst q)) ''delta'' = Some (JObj [(''text'', JStr (a @ b))])"
proof -
  obtain a b where "tokenText (fst p) = Some a" "tokenText ev = Some b"
    using assms by (auto simp: mergeTokens_def split: if_splits option.splits)
  moreover from this have "map_get (we_Data (fst q)) ''delta'' = Some (JObj [(''text'', JStr (a @ b))])"
    using assms by (auto simp: mergeTokens_def Let_def map_get_def update_conv' split: if_splits)
  ultimately show ?thesis by blast
qed

subsection \<open>A witness\<close>

definition wit_stream :: stream_config where
  "wit_stream = \<lparr>st_env = \<lparr>marshal_len = (\<lambda>_. 20), format_time = (\<lambda>_. []), parse_url = (\<lambda>_. None), ip_loopback = (\<lambda>_. None)\<rparr>,
     st_envelope = \<lparr>ev_APIVersion = ''v1'', ev_JobID = ''j'', ev_TenantID = ''t'', ev_AppID = ''a'', ev_IdempotencyKey = [],
       ev_TraceID = ''tr'', ev_RetryOf = [], ev_NotBefore = None, ev_Job = \<lparr>dj_Target = ''mock'', dj_CommandType = ''chat.prompt'', dj_ConversationID = [], dj_TemplateID = [],
         dj_Input = None, dj_Options = None, dj_Callbacks = None, dj_Context = None\<rparr>,
       ev_Conversation = None, ev_Client = None, ev_Attempt = None, ev_CreatedAt = 0\<rparr>,
     st_strict = True, st_budget = 1000, st_interval = 10\<rparr>"

definition wit_said :: "nat \<Rightarrow> string \<Rightarrow> jmap \<Rightarrow> worker_event" where
  "wit_said n t d = \<lparr>we_EventID = [], we_JobID = [], we_APIVersion = [], we_Type = t, we_Sequence = int n,
     we_Data = Some d, we_TraceID = [], we_CreatedAt = 0\<rparr>"

definition wit_calls :: "stream_call list" where
  "wit_calls =
     [CallEmit 1 False (wit_said 1 ''token'' [(''delta'', JObj [(''text'', JStr ''a'')])]),
      CallEmit 2 False (wit_said 2 ''token'' [(''delta'', JObj [(''text'', JStr ''b'')])]),
      CallEmit 3 False (wit_said 3 ''completed'' [])]"

lemma stream_writes_what_the_worker_said_witness:
  "texts (si_Sent (snd (runWorker wit_stream wit_calls None True 4 (NewMemoryStore (\<lambda>_. 1))))) = ''ab''"
proof -
  have ok: "fst (stream_calls wit_stream wit_calls (new_stream (NewMemoryStore (\<lambda>_. 1)))) = None"
    by (simp add: wit_calls_def stream_Emit_def new_stream_def wit_stream_def wit_said_def staleAttemptEvent_def normalizeWorkerEvent_def
        telemetryEventType_def terminalWorkerEventType_def promptSubmittedEventType_def stream_buffer_def mergeTokens_def tokenText_def map_get_def
        streamEventOverheadBytes_def dataSize_def maxPendingStreamEvents_def maxCoalescedTokenBytes_def Let_def)
  have "texts (kept wit_stream (emitted wit_calls)) = ''ab''"
    by (simp add: wit_calls_def wit_stream_def wit_said_def kept_def visible_def staleAttemptEvent_def normalizeWorkerEvent_def
        telemetryEventType_def terminalWorkerEventType_def map_filter_simps texts_def tokenText_def map_get_def Let_def)
  moreover obtain res s where r: "runWorker wit_stream wit_calls None True 4 (NewMemoryStore (\<lambda>_. 1)) = (res, s)" by fastforce
  ultimately show ?thesis using stream_writes_what_the_worker_said [OF r] ok by auto
qed

end
