(* ===== verification/Webhooks.thy ===== *)
theory Webhooks
  imports JobCore GoNet JobStore Breaker
begin

text \<open>
  Webhook delivery: the outbox (\<open>webhooks/store.go\<close>, \<open>webhooks/memory.go\<close>), the delivery worker
  (\<open>webhooks/worker.go\<close>), the sender (\<open>webhooks/sender.go\<close>), the rules for callback URLs
  (\<open>webhooks/callbacks.go\<close>) and the enqueueing of finished jobs (\<open>webhooks/projector.go\<close>).

  Parameters: \<open>whash\<close>, the hex SHA-256; URL and IP
  parsing, name resolution, HMAC signatures, the plugin hook, the HTTP exchange and clock readings.
\<close>

subsection \<open>Deliveries\<close>

datatype delivery_status = WhPending | WhLeased | WhRetryScheduled | WhDelivered | WhDeadLettered | WhCancelled

definition TerminalDeliveryStatus :: "delivery_status \<Rightarrow> bool" where
  "TerminalDeliveryStatus st = (st \<in> {WhDelivered, WhDeadLettered, WhCancelled})"

record delivery =
  dl_ID :: string
  dl_TenantID :: string
  dl_AppID :: string
  dl_JobID :: string
  dl_EventName :: string
  dl_EndpointID :: string
  dl_EndpointKind :: string
  dl_URL :: string
  dl_SecretID :: string
  dl_DedupeKey :: string
  dl_Payload :: string
  dl_TraceID :: string
  dl_Status :: delivery_status
  dl_AttemptCount :: int
  dl_MaxAttempts :: int
  dl_NextAttemptAt :: gotime
  dl_LeaseID :: string
  dl_LeasedUntil :: gotime
  dl_LastHTTPStatus :: int
  dl_LastErrorClass :: string
  dl_LastErrorMessage :: string
  dl_ReplayOf :: string
  dl_CreatedAt :: gotime
  dl_UpdatedAt :: gotime
  dl_DeliveredAt :: gotime

record enqueue_request =
  eq_TenantID :: string
  eq_AppID :: string
  eq_JobID :: string
  eq_EventName :: string
  eq_EndpointID :: string
  eq_EndpointKind :: string
  eq_URL :: string
  eq_SecretID :: string
  eq_DedupeKey :: string
  eq_Payload :: string
  eq_TraceID :: string
  eq_MaxAttempts :: int
  eq_NextAttemptAt :: gotime
  eq_ReplayOf :: string

record attempt_result =
  ar_StatusCode :: int
  ar_ErrorClass :: string
  ar_ErrorMessage :: string
  ar_Retryable :: bool

text \<open>\<open>fmt.Sprint\<close> of a slice: its elements, a blank between them, in brackets.\<close>

fun sprint_parts :: "string list \<Rightarrow> string" where
  "sprint_parts [] = []"
| "sprint_parts [p] = p"
| "sprint_parts (p # ps) = p @ '' '' @ sprint_parts ps"

definition StableID :: "(string \<Rightarrow> string) \<Rightarrow> string \<Rightarrow> string list \<Rightarrow> string" where
  "StableID whash pre parts = pre @ ''_'' @ take 24 (whash (''['' @ sprint_parts parts @ '']''))"

definition normalizeMaxAttempts :: "int \<Rightarrow> int" where
  "normalizeMaxAttempts v = (if v \<le> 0 then 8 else v)"

definition sanitizeErrorMessage :: "string \<Rightarrow> string" where
  "sanitizeErrorMessage v = take 256 (trim_space v)"

subsection \<open>The outbox\<close>

record outbox =
  wh_maxEntries :: int
  wh_deliveries :: "string \<Rightarrow> delivery option"
  wh_dedupe :: "string \<Rightarrow> string option"
  wh_order :: "string list"

definition NewOutbox :: outbox where
  "NewOutbox = \<lparr>wh_maxEntries = 10000, wh_deliveries = Map.empty, wh_dedupe = Map.empty, wh_order = []\<rparr>"

definition validateEnqueue :: "enqueue_request \<Rightarrow> bool" where
  "validateEnqueue r =
     (trim_space (eq_TenantID r) \<noteq> [] \<and> trim_space (eq_AppID r) \<noteq> [] \<and> trim_space (eq_URL r) \<noteq> [] \<and>
      trim_space (eq_SecretID r) \<noteq> [] \<and> trim_space (eq_DedupeKey r) \<noteq> [] \<and> eq_Payload r \<noteq> [])"

definition dedupeScope :: "string \<Rightarrow> string \<Rightarrow> string \<Rightarrow> string" where
  "dedupeScope tenant app key = trim_space tenant @ [CHR 0x00] @ trim_space app @ [CHR 0x00] @ trim_space key"

text \<open>\<open>len(m.deliveries)\<close>: every stored id is in \<open>wh_order\<close>.\<close>

definition wh_len :: "outbox \<Rightarrow> nat" where
  "wh_len m = length (filter (\<lambda>i. wh_deliveries m i \<noteq> None) (remdups (wh_order m)))"

definition evictable :: "outbox \<Rightarrow> string \<Rightarrow> bool" where
  "evictable m i = (case wh_deliveries m i of Some d \<Rightarrow> TerminalDeliveryStatus (dl_Status d) | None \<Rightarrow> False)"

definition evict_one :: "string \<Rightarrow> outbox \<Rightarrow> outbox" where
  "evict_one i m =
     (case wh_deliveries m i of
        None \<Rightarrow> m
      | Some d \<Rightarrow>
          let key = dedupeScope (dl_TenantID d) (dl_AppID d) (dl_DedupeKey d);
              dd = (if dl_DedupeKey d \<noteq> [] \<and> wh_dedupe m key = Some i then (wh_dedupe m)(key := None) else wh_dedupe m)
          in m\<lparr>wh_deliveries := (wh_deliveries m)(i := None), wh_dedupe := dd, wh_order := remove1 i (wh_order m)\<rparr>)"

function (sequential) evictLocked :: "outbox \<Rightarrow> outbox" where
  "evictLocked m =
     (if wh_maxEntries m \<le> 0 \<or> int (wh_len m) \<le> wh_maxEntries m then m
      else (case find (evictable m) (wh_order m) of
              None \<Rightarrow> m
            | Some i \<Rightarrow> evictLocked (evict_one i m)))"
  by pat_completeness auto
termination
proof (relation "measure (\<lambda>m. length (wh_order m))")
  fix m i
  assume "find (evictable m) (wh_order m) = Some i"
  then have i: "i \<in> set (wh_order m)" "evictable m i" by (auto simp: find_Some_iff in_set_conv_nth)
  then have "length (wh_order (evict_one i m)) = length (wh_order m) - 1" "0 < length (wh_order m)"
    by (auto simp: evictable_def evict_one_def Let_def length_remove1 split: option.splits)
  then show "(evict_one i m, m) \<in> measure (\<lambda>m. length (wh_order m))" by simp
qed simp

declare evictLocked.simps [simp del]

definition new_delivery :: "(string \<Rightarrow> string) \<Rightarrow> gotime \<Rightarrow> enqueue_request \<Rightarrow> delivery" where
  "new_delivery whash now r =
     \<lparr>dl_ID = StableID whash ''whd'' [eq_TenantID r, eq_AppID r, eq_DedupeKey r],
      dl_TenantID = eq_TenantID r, dl_AppID = eq_AppID r, dl_JobID = eq_JobID r, dl_EventName = eq_EventName r,
      dl_EndpointID = FirstNonEmpty [eq_EndpointID r, StableID whash ''whe'' [eq_URL r, eq_SecretID r]],
      dl_EndpointKind = FirstNonEmpty [eq_EndpointKind r, ''job_callback''],
      dl_URL = eq_URL r, dl_SecretID = eq_SecretID r, dl_DedupeKey = eq_DedupeKey r, dl_Payload = eq_Payload r,
      dl_TraceID = eq_TraceID r, dl_Status = WhPending, dl_AttemptCount = 0,
      dl_MaxAttempts = normalizeMaxAttempts (eq_MaxAttempts r),
      dl_NextAttemptAt = (if IsZero (eq_NextAttemptAt r) then now else eq_NextAttemptAt r),
      dl_LeaseID = [], dl_LeasedUntil = 0, dl_LastHTTPStatus = 0, dl_LastErrorClass = [], dl_LastErrorMessage = [],
      dl_ReplayOf = eq_ReplayOf r, dl_CreatedAt = now, dl_UpdatedAt = now, dl_DeliveredAt = 0\<rparr>"

text \<open>
  \<open>None\<close>: the request was invalid; else the delivery and whether it was stored by this call. A known key
  whose delivery is gone gives \<open>Some (None, False)\<close>, where Go answers a zero \<open>Delivery\<close>.
\<close>

definition wh_Enqueue :: "(string \<Rightarrow> string) \<Rightarrow> gotime \<Rightarrow> enqueue_request \<Rightarrow> outbox \<Rightarrow> (delivery option \<times> bool) option \<times> outbox" where
  "wh_Enqueue whash now r m =
     (if \<not> validateEnqueue r then (None, m)
      else
        let key = dedupeScope (eq_TenantID r) (eq_AppID r) (eq_DedupeKey r) in
        case wh_dedupe m key of
          Some i \<Rightarrow> (Some (wh_deliveries m i, False), m)
        | None \<Rightarrow>
            let d = new_delivery whash now r;
                m1 = m\<lparr>wh_deliveries := (wh_deliveries m)(dl_ID d \<mapsto> d), wh_dedupe := (wh_dedupe m)(key \<mapsto> dl_ID d),
                       wh_order := wh_order m @ [dl_ID d]\<rparr>
            in (Some (Some d, True), evictLocked m1))"

definition wh_Get :: "string \<Rightarrow> string \<Rightarrow> string \<Rightarrow> outbox \<Rightarrow> delivery option" where
  "wh_Get tenant app i m =
     (case wh_deliveries m i of
        None \<Rightarrow> None
      | Some d \<Rightarrow> if dl_TenantID d \<noteq> tenant \<or> dl_AppID d \<noteq> app then None else Some d)"

definition replay_request :: "delivery \<Rightarrow> string \<Rightarrow> gotime \<Rightarrow> enqueue_request" where
  "replay_request d idem now =
     \<lparr>eq_TenantID = dl_TenantID d, eq_AppID = dl_AppID d, eq_JobID = dl_JobID d, eq_EventName = dl_EventName d,
      eq_EndpointID = dl_EndpointID d, eq_EndpointKind = dl_EndpointKind d, eq_URL = dl_URL d, eq_SecretID = dl_SecretID d,
      eq_DedupeKey = ''replay:'' @ dl_ID d @ '':'' @ idem, eq_Payload = dl_Payload d, eq_TraceID = dl_TraceID d,
      eq_MaxAttempts = dl_MaxAttempts d, eq_NextAttemptAt = now, eq_ReplayOf = dl_ID d\<rparr>"

definition wh_Replay ::
  "(string \<Rightarrow> string) \<Rightarrow> gotime \<Rightarrow> string \<Rightarrow> string \<Rightarrow> string \<Rightarrow> string \<Rightarrow> gotime \<Rightarrow> outbox \<Rightarrow> (delivery option \<times> bool) option \<times> outbox" where
  "wh_Replay whash clock tenant app i idem now m =
     (case wh_Get tenant app i m of
        None \<Rightarrow> (None, m)
      | Some d \<Rightarrow> wh_Enqueue whash clock (replay_request d idem now) m)"

definition leasable :: "gotime \<Rightarrow> delivery \<Rightarrow> bool" where
  "leasable now d =
     (\<not> TerminalDeliveryStatus (dl_Status d) \<and>
      ((dl_Status d = WhPending \<or> dl_Status d = WhRetryScheduled) \<and> dl_NextAttemptAt d \<le> now \<or>
       dl_Status d = WhLeased \<and> \<not> IsZero (dl_LeasedUntil d) \<and> dl_LeasedUntil d \<le> now))"

definition leased_as :: "string \<Rightarrow> gotime \<Rightarrow> gotime \<Rightarrow> delivery \<Rightarrow> delivery" where
  "leased_as lid untl now d = d\<lparr>dl_Status := WhLeased, dl_LeaseID := lid, dl_LeasedUntil := untl, dl_UpdatedAt := now\<rparr>"

text \<open>The loop over \<open>wh_order\<close>; \<open>stamp\<close> prints the clock reading.\<close>

fun lease_due :: "(string \<Rightarrow> string) \<Rightarrow> string \<Rightarrow> nat \<Rightarrow> gotime \<Rightarrow> string \<Rightarrow> gotime \<Rightarrow> string list \<Rightarrow> outbox \<Rightarrow> delivery list \<times> outbox" where
  "lease_due whash worker limit untl stamp now [] m = ([], m)"
| "lease_due whash worker limit untl stamp now (i # is) m =
     (if limit = 0 then ([], m)
      else (case wh_deliveries m i of
              None \<Rightarrow> lease_due whash worker limit untl stamp now is m
            | Some d \<Rightarrow>
                if \<not> leasable now d then lease_due whash worker limit untl stamp now is m
                else
                  let d' = leased_as (StableID whash ''whlease'' [worker, i, stamp]) untl now d;
                      (ds, m') = lease_due whash worker (limit - 1) untl stamp now is (m\<lparr>wh_deliveries := (wh_deliveries m)(i \<mapsto> d')\<rparr>)
                  in (d' # ds, m')))"

definition wh_LeaseDue ::
  "(string \<Rightarrow> string) \<Rightarrow> string \<Rightarrow> int \<Rightarrow> dur \<Rightarrow> string \<Rightarrow> gotime \<Rightarrow> outbox \<Rightarrow> delivery list option \<times> outbox" where
  "wh_LeaseDue whash worker limit leaseFor stamp now m =
     (if trim_space worker = [] then (None, m)
      else
        (case lease_due whash worker (nat (if limit \<le> 0 then 10 else limit))
                (now + (if leaseFor \<le> 0 then 30 * second else leaseFor)) stamp now (wh_order m) m of
           (ds, m') \<Rightarrow> (Some ds, m')))"

definition marked :: "delivery_status \<Rightarrow> gotime \<Rightarrow> attempt_result \<Rightarrow> gotime \<Rightarrow> delivery \<Rightarrow> delivery" where
  "marked st nxt res now d =
     d\<lparr>dl_Status := st, dl_AttemptCount := dl_AttemptCount d + 1, dl_LeaseID := [], dl_LeasedUntil := 0,
       dl_LastHTTPStatus := ar_StatusCode res, dl_LastErrorClass := ar_ErrorClass res,
       dl_LastErrorMessage := sanitizeErrorMessage (ar_ErrorMessage res), dl_NextAttemptAt := nxt, dl_UpdatedAt := now,
       dl_DeliveredAt := (if st = WhDelivered then now else dl_DeliveredAt d)\<rparr>"

definition wh_mark ::
  "string \<Rightarrow> string \<Rightarrow> delivery_status \<Rightarrow> gotime \<Rightarrow> attempt_result \<Rightarrow> gotime \<Rightarrow> outbox \<Rightarrow> bool \<times> outbox" where
  "wh_mark i lid st nxt res now m =
     (case wh_deliveries m i of
        None \<Rightarrow> (False, m)
      | Some d \<Rightarrow>
          if dl_LeaseID d \<noteq> lid then (False, m)
          else (True, m\<lparr>wh_deliveries := (wh_deliveries m)(i \<mapsto> marked st nxt res now d)\<rparr>))"

definition MarkDelivered :: "string \<Rightarrow> string \<Rightarrow> attempt_result \<Rightarrow> gotime \<Rightarrow> outbox \<Rightarrow> bool \<times> outbox" where
  "MarkDelivered i lid res now m = wh_mark i lid WhDelivered 0 res now m"

definition MarkRetry :: "string \<Rightarrow> string \<Rightarrow> gotime \<Rightarrow> attempt_result \<Rightarrow> gotime \<Rightarrow> outbox \<Rightarrow> bool \<times> outbox" where
  "MarkRetry i lid nxt res now m = wh_mark i lid WhRetryScheduled nxt res now m"

definition MarkDeadLetter :: "string \<Rightarrow> string \<Rightarrow> attempt_result \<Rightarrow> gotime \<Rightarrow> outbox \<Rightarrow> bool \<times> outbox" where
  "MarkDeadLetter i lid res now m = wh_mark i lid WhDeadLettered 0 res now m"

subsection \<open>The delivery worker\<close>

record wh_retry_policy =
  wr_BaseDelay :: dur
  wr_MaxDelay :: dur
  wr_JitterRatio :: rat

text \<open>FNV-1a over the bytes of the delivery id, scaled to the unit interval; rationals where Go rounds to \<open>float64\<close>.\<close>

definition stableUnitInterval :: "string \<Rightarrow> rat" where
  "stableUnitInterval s =
     of_nat (unat (fold (\<lambda>c h. xor h (word_of_nat (of_char c)) * 16777619) s (2166136261 :: 32 word))) / 4294967295"

text \<open>The loop \<open>for i := 1; i < attempts\<close>: it runs \<open>attempts - 1\<close> times unless the cap is met.\<close>

fun double_delay :: "dur \<Rightarrow> nat \<Rightarrow> dur \<Rightarrow> dur" where
  "double_delay cap 0 delay = delay"
| "double_delay cap (Suc n) delay = (if cap div 2 \<le> delay then cap else double_delay cap n (delay * 2))"

definition retry_delay :: "string \<Rightarrow> int \<Rightarrow> wh_retry_policy \<Rightarrow> dur" where
  "retry_delay deliveryID attempts p =
     (let base = (if wr_BaseDelay p \<le> 0 then second else wr_BaseDelay p);
          cap = (if wr_MaxDelay p \<le> 0 then 300 * second else wr_MaxDelay p);
          delay = min cap (double_delay cap (nat (attempts - 1)) base)
      in if 0 < wr_JitterRatio p
         then (let ratio = min (wr_JitterRatio p) (9 / 10);
                   factor = 1 - ratio + stableUnitInterval deliveryID * 2 * ratio
               in max millisecond \<lfloor>of_int delay * factor\<rfloor>)
         else delay)"

definition NextRetryAt :: "gotime \<Rightarrow> string \<Rightarrow> int \<Rightarrow> wh_retry_policy \<Rightarrow> gotime" where
  "NextRetryAt now deliveryID attempts p = now + retry_delay deliveryID attempts p"

text \<open>
  A worker's environment. \<open>wk_send\<close> answers a delivery (\<open>None\<close>: \<open>Send\<close> returned an error),
  \<open>wk_cooldown\<close> is \<open>CooldownRemaining\<close> of the breaker of the delivery's host, \<open>wk_time\<close> the clock the
  next attempt is computed from, \<open>wk_clock\<close> that of the store; both may differ from call to call.
\<close>

record delivery_worker =
  wk_ID :: string
  wk_LeaseFor :: dur
  wk_BatchSize :: int
  wk_Policy :: wh_retry_policy
  wk_send :: "delivery \<Rightarrow> attempt_result option"
  wk_cooldown :: "delivery \<Rightarrow> dur"
  wk_time :: "delivery \<Rightarrow> gotime"
  wk_clock :: "delivery \<Rightarrow> gotime"

definition settle_delivery :: "delivery_worker \<Rightarrow> delivery \<Rightarrow> attempt_result \<Rightarrow> outbox \<Rightarrow> bool \<times> outbox" where
  "settle_delivery w d res m =
     (if ar_ErrorClass res = ''none'' then MarkDelivered (dl_ID d) (dl_LeaseID d) res (wk_clock w d) m
      else if ar_ErrorClass res = ''circuit_open''
      then MarkRetry (dl_ID d) (dl_LeaseID d) (wk_time w d + max second (wk_cooldown w d)) res (wk_clock w d) m
      else if ar_Retryable res \<and> dl_AttemptCount d + 1 < normalizeMaxAttempts (dl_MaxAttempts d)
      then MarkRetry (dl_ID d) (dl_LeaseID d) (NextRetryAt (wk_time w d) (dl_ID d) (dl_AttemptCount d + 1) (wk_Policy w)) res (wk_clock w d) m
      else MarkDeadLetter (dl_ID d) (dl_LeaseID d) res (wk_clock w d) m)"

text \<open>The loop over the leased batch stops at the first error. \<open>between\<close> is what other workers and requests do to the store meanwhile.\<close>

fun settle_all :: "delivery_worker \<Rightarrow> (delivery \<Rightarrow> outbox \<Rightarrow> outbox) \<Rightarrow> delivery list \<Rightarrow> outbox \<Rightarrow> bool \<times> outbox" where
  "settle_all w between [] m = (True, m)"
| "settle_all w between (d # ds) m =
     (let m1 = between d m in
      case wk_send w d of
        None \<Rightarrow> (False, m1)
      | Some res \<Rightarrow>
          (case settle_delivery w d res m1 of
             (True, m2) \<Rightarrow> settle_all w between ds m2
           | (False, m2) \<Rightarrow> (False, m2)))"

text \<open>Whether there was something to do, whether it went without error.\<close>

definition delivery_RunOnce ::
  "(string \<Rightarrow> string) \<Rightarrow> delivery_worker \<Rightarrow> (delivery \<Rightarrow> outbox \<Rightarrow> outbox) \<Rightarrow> string \<Rightarrow> gotime \<Rightarrow> outbox \<Rightarrow> bool \<times> bool \<times> outbox" where
  "delivery_RunOnce whash w between stamp now m =
     (case wh_LeaseDue whash (FirstNonEmpty [wk_ID w, ''gateway-webhook-worker''])
             (if wk_BatchSize w \<le> 0 then 10 else wk_BatchSize w) (if wk_LeaseFor w \<le> 0 then 30 * second else wk_LeaseFor w) stamp now m of
        (None, m1) \<Rightarrow> (False, False, m1)
      | (Some ds, m1) \<Rightarrow>
          if ds = [] then (False, True, m1)
          else (case settle_all w between ds m1 of (ok, m2) \<Rightarrow> (True, ok, m2)))"

subsection \<open>Addresses\<close>

text \<open>\<open>net.IP\<close>: 4 or 16 bytes; \<open>To4\<close> finds the IPv4 address mapped into an IPv6 one.\<close>

type_synonym ip = "nat list"

definition To4 :: "ip \<Rightarrow> ip option" where
  "To4 a = (if length a = 4 then Some a
            else if length a = 16 \<and> take 10 a = replicate 10 0 \<and> a ! 10 = 255 \<and> a ! 11 = 255 then Some (drop 12 a) else None)"

definition IsLoopback :: "ip \<Rightarrow> bool" where
  "IsLoopback a = (case To4 a of Some b \<Rightarrow> b ! 0 = 127 | None \<Rightarrow> a = replicate 15 0 @ [1])"

definition IsPrivate :: "ip \<Rightarrow> bool" where
  "IsPrivate a =
     (case To4 a of
        Some b \<Rightarrow> b ! 0 = 10 \<or> b ! 0 = 172 \<and> b ! 1 div 16 = 1 \<or> b ! 0 = 192 \<and> b ! 1 = 168
      | None \<Rightarrow> length a = 16 \<and> a ! 0 div 2 = 126)"

definition IsLinkLocalUnicast :: "ip \<Rightarrow> bool" where
  "IsLinkLocalUnicast a =
     (case To4 a of Some b \<Rightarrow> b ! 0 = 169 \<and> b ! 1 = 254 | None \<Rightarrow> length a = 16 \<and> a ! 0 = 254 \<and> a ! 1 div 64 = 2)"

definition IsMulticast :: "ip \<Rightarrow> bool" where
  "IsMulticast a = (case To4 a of Some b \<Rightarrow> b ! 0 div 16 = 14 | None \<Rightarrow> length a = 16 \<and> a ! 0 = 255)"

definition IsLinkLocalMulticast :: "ip \<Rightarrow> bool" where
  "IsLinkLocalMulticast a =
     (case To4 a of Some b \<Rightarrow> take 3 b = [224, 0, 0] | None \<Rightarrow> length a = 16 \<and> a ! 0 = 255 \<and> a ! 1 mod 16 = 2)"

definition IsUnspecified :: "ip \<Rightarrow> bool" where
  "IsUnspecified a = (To4 a = Some (replicate 4 0) \<or> a = replicate 16 0)"

definition isPrivateOrLocalIP :: "ip option \<Rightarrow> bool" where
  "isPrivateOrLocalIP ip =
     (case ip of
        None \<Rightarrow> True
      | Some a \<Rightarrow> IsLoopback a \<or> IsPrivate a \<or> IsLinkLocalUnicast a \<or> IsLinkLocalMulticast a \<or> IsMulticast a \<or> IsUnspecified a)"

subsection \<open>Callback URLs\<close>

text \<open>
  \<open>up_ParseIP\<close> is \<open>net.ParseIP\<close>, \<open>up_QueryKeys\<close> the keys \<open>url.Query\<close> finds in a raw query,
  \<open>up_Resolver\<close> the configured resolver and \<open>up_DefaultResolver\<close> the system's (\<open>None\<close>: the lookup
  fails; an address may be nil).
\<close>

record url_policy =
  up_AllowInsecureHTTP :: bool
  up_AllowPrivateHosts :: bool
  up_AllowAnyPublicHost :: bool
  up_AllowedHosts :: "string list"
  up_Resolver :: "(string \<Rightarrow> ip option list option) option"
  up_DefaultResolver :: "string \<Rightarrow> ip option list option"
  up_ParseIP :: "string \<Rightarrow> ip option"
  up_QueryKeys :: "string \<Rightarrow> string list"

definition trim_brackets :: "string \<Rightarrow> string" where
  "trim_brackets s = rev (dropWhile (\<lambda>c. c \<in> set ''[]'') (rev (dropWhile (\<lambda>c. c \<in> set ''[]'') s)))"

definition hasSensitiveQuery :: "string list \<Rightarrow> bool" where
  "hasSensitiveQuery keys =
     list_ex (\<lambda>k. list_ex (\<lambda>marker. sublist marker (to_lower (filter (\<lambda>c. c \<noteq> CHR ''_'') k)))
                ([''token'', ''secret'', ''apikey'', ''password'', ''credential'', ''cookie''])) keys"

text \<open>\<open>EqualFold\<close> is exact for hosts in ASCII, as URLs carry them.\<close>

definition hostAllowed :: "string \<Rightarrow> string list \<Rightarrow> bool" where
  "hostAllowed host allowed = list_ex (\<lambda>a. EqualFold (trim_space a) host) allowed"

definition isBlockedHostName :: "string \<Rightarrow> bool" where
  "isBlockedHostName host =
     (host \<in> {''localhost'', ''metadata.google.internal'', ''169.254.169.254''} \<or> suffix ''.localhost'' host \<or> suffix ''.local'' host)"

definition resolveHostForPolicy :: "url_policy \<Rightarrow> string \<Rightarrow> ip option list option" where
  "resolveHostForPolicy p host =
     (case up_ParseIP p (trim_brackets host) of
        Some a \<Rightarrow> Some [Some a]
      | None \<Rightarrow>
          (case (case up_Resolver p of Some r \<Rightarrow> r | None \<Rightarrow> up_DefaultResolver p) host of
             None \<Rightarrow> None
           | Some [] \<Rightarrow> None
           | Some as \<Rightarrow> Some as))"

definition ValidateCallbackURL :: "env \<Rightarrow> string \<Rightarrow> url_policy \<Rightarrow> bool" where
  "ValidateCallbackURL env raw p =
     (case parse_url env (trim_space raw) of
        None \<Rightarrow> False
      | Some u \<Rightarrow>
          let scheme = to_lower (url_Scheme u); host = trim_brackets (to_lower (url_Hostname u)) in
          if url_Hostname u = [] \<and> url_Port u = [] then False
          else if url_hasUser u then False
          else if url_Fragment u \<noteq> [] then False
          else if scheme \<noteq> ''https'' \<and> \<not> (scheme = ''http'' \<and> up_AllowInsecureHTTP p) then False
          else if hasSensitiveQuery (up_QueryKeys p (url_RawQuery u)) then False
          else if host = [] then False
          else if \<not> up_AllowAnyPublicHost p \<and> \<not> hostAllowed host (up_AllowedHosts p) then False
          else if isBlockedHostName host \<and> \<not> up_AllowPrivateHosts p then False
          else (case up_ParseIP p host of
                  Some a \<Rightarrow> \<not> isPrivateOrLocalIP (Some a) \<or> up_AllowPrivateHosts p
                | None \<Rightarrow>
                    if up_Resolver p = None then True
                    else (case resolveHostForPolicy p host of
                            None \<Rightarrow> False
                          | Some as \<Rightarrow> list_all (\<lambda>a. \<not> isPrivateOrLocalIP a \<or> up_AllowPrivateHosts p) as)))"

record callback_config =
  cb_URL :: string
  cb_SecretID :: string
  cb_EventTypes :: "string set"

datatype callback_answer = NoCallback | BadCallback | Callback callback_config

definition string_field :: "jmap \<Rightarrow> string \<Rightarrow> string" where
  "string_field m k = (case map_of m k of Some (JStr v) \<Rightarrow> trim_space v | _ \<Rightarrow> [])"

definition CallbackFromMap :: "env \<Rightarrow> jmap option \<Rightarrow> url_policy \<Rightarrow> callback_answer" where
  "CallbackFromMap env callbacks p =
     (case callbacks of
        None \<Rightarrow> NoCallback
      | Some m \<Rightarrow>
          let raw = string_field m ''webhook_url''; secretID = string_field m ''webhook_secret_id'' in
          if raw = [] then NoCallback
          else if secretID = [] then BadCallback
          else if \<not> ValidateCallbackURL env raw p then BadCallback
          else Callback \<lparr>cb_URL = raw, cb_SecretID = secretID,
                 cb_EventTypes =
                   (case map_of m ''event_types'' of
                      Some (JArr vs) \<Rightarrow> set (filter (\<lambda>t. t \<noteq> []) (map trim_space (List.map_filter (\<lambda>v. case v of JStr t \<Rightarrow> Some t | _ \<Rightarrow> None) vs)))
                    | _ \<Rightarrow> {})\<rparr>)"

definition EventAllowed :: "callback_config \<Rightarrow> string \<Rightarrow> bool" where
  "EventAllowed c name = (cb_EventTypes c = {} \<or> name \<in> cb_EventTypes c)"

definition EventNameForJobStatus :: "status \<Rightarrow> string" where
  "EventNameForJobStatus st =
     (case st of
        StatusFailedTerminal \<Rightarrow> ''job.failed''
      | StatusDeadLetter \<Rightarrow> ''job.dead_lettered''
      | _ \<Rightarrow> ''job.'' @ status_string st)"

definition job_payload :: "env \<Rightarrow> job \<Rightarrow> string \<Rightarrow> json" where
  "job_payload env job name =
     JObj [(''api_version'', JStr (job_APIVersion job)),
       (''event'', JObj [(''type'', JStr name), (''created_at'', JStr (format_time env (job_UpdatedAt job)))]),
       (''job'', JObj ([(''job_id'', JStr (job_ID job)), (''status'', JStr (status_string (job_Status job))),
          (''target'', JStr (job_Target job)), (''command_type'', JStr (job_CommandType job))] @
          (if job_RetryOf job \<noteq> [] then [(''retry_of'', JStr (job_RetryOf job))] else []))),
       (''trace_id'', JStr (job_TraceID job))]"

text \<open>\<open>False\<close>: an error. \<open>marshal\<close> prints the payload, \<open>clock\<close> is the store's clock.\<close>

definition EnqueueTerminalJob ::
  "env \<Rightarrow> url_policy \<Rightarrow> (string \<Rightarrow> string) \<Rightarrow> (json \<Rightarrow> string) \<Rightarrow> int \<Rightarrow> gotime \<Rightarrow> gotime \<Rightarrow> job \<Rightarrow> outbox \<Rightarrow> bool \<times> outbox" where
  "EnqueueTerminalJob env p whash marshal maxAttempts now clock job m =
     (if \<not> TerminalStatus (job_Status job) then (True, m)
      else (case CallbackFromMap env (job_Callbacks job) p of
              NoCallback \<Rightarrow> (True, m)
            | BadCallback \<Rightarrow> (False, m)
            | Callback c \<Rightarrow>
                let name = EventNameForJobStatus (job_Status job) in
                if \<not> EventAllowed c name then (True, m)
                else (case wh_Enqueue whash clock
                        \<lparr>eq_TenantID = job_TenantID job, eq_AppID = job_AppID job, eq_JobID = job_ID job, eq_EventName = name,
                         eq_EndpointID = [], eq_EndpointKind = ''job_callback'', eq_URL = cb_URL c, eq_SecretID = cb_SecretID c,
                         eq_DedupeKey = ''job-terminal:'' @ job_ID job @ '':'' @ status_string (job_Status job),
                         eq_Payload = marshal (job_payload env job name), eq_TraceID = job_TraceID job,
                         eq_MaxAttempts = normalizeMaxAttempts maxAttempts, eq_NextAttemptAt = now, eq_ReplayOf = []\<rparr> m of
                        (None, m1) \<Rightarrow> (False, m1)
                      | (Some _, m1) \<Rightarrow> (True, m1))))"

subsection \<open>Sending\<close>

text \<open>The dialer of the sender's HTTP client: the address connected to and every address tried.\<close>

fun dial_first :: "url_policy \<Rightarrow> (ip option \<Rightarrow> bool) \<Rightarrow> ip option list \<Rightarrow> ip option option \<times> ip option list" where
  "dial_first p dial [] = (None, [])"
| "dial_first p dial (a # as) =
     (if isPrivateOrLocalIP a \<and> \<not> up_AllowPrivateHosts p then dial_first p dial as
      else if dial a then (Some a, [a])
      else (case dial_first p dial as of (c, tried) \<Rightarrow> (c, a # tried)))"

definition DialContext :: "url_policy \<Rightarrow> (ip option \<Rightarrow> bool) \<Rightarrow> string \<Rightarrow> ip option option \<times> ip option list" where
  "DialContext p dial address =
     (case SplitHostPort address of
        None \<Rightarrow> (None, [])
      | Some (host, _) \<Rightarrow>
          (case resolveHostForPolicy p host of None \<Rightarrow> (None, []) | Some as \<Rightarrow> dial_first p dial as))"

definition retryableStatus :: "int \<Rightarrow> bool" where
  "retryableStatus st = (st \<in> {408, 409, 425, 429} \<or> 500 \<le> st)"

definition errorClassForStatus :: "int \<Rightarrow> string" where
  "errorClassForStatus st =
     (if 500 \<le> st then ''http_5xx'' else if st = 429 then ''rate_limited'' else if 400 \<le> st then ''http_4xx''
      else if 300 \<le> st then ''redirect'' else ''unknown'')"

datatype transform = TransformNone | TransformReject string | TransformTo string
datatype http_answer = RequestInvalid string | NetworkError string | HTTPStatus int
datatype breaker_note = NoNote | NoteSuccess | NoteFailure

text \<open>
  \<open>HTTPSender.Send\<close>: the policy check, the plugin's transformation, the secret (\<open>None\<close>: not
  resolved), the breaker (\<open>None\<close>: none for the host; else whether it allows the call) and the HTTP exchange.
  The result and what was recorded on the breaker.
\<close>

definition wh_result :: "int \<Rightarrow> string \<Rightarrow> string \<Rightarrow> bool \<Rightarrow> attempt_result" where
  "wh_result st c msg r = \<lparr>ar_StatusCode = st, ar_ErrorClass = c, ar_ErrorMessage = msg, ar_Retryable = r\<rparr>"

definition sender_Send ::
  "env \<Rightarrow> url_policy \<Rightarrow> (delivery \<Rightarrow> transform) \<Rightarrow> (string \<Rightarrow> string option) \<Rightarrow> bool option \<Rightarrow> (delivery \<Rightarrow> http_answer) \<Rightarrow> delivery
   \<Rightarrow> attempt_result \<times> breaker_note" where
  "sender_Send env p transform secret breaker exchange d0 =
     (if \<not> ValidateCallbackURL env (dl_URL d0) p then (wh_result 0 ''url_policy'' ''url_policy'' False, NoNote)
      else
        (case (if dl_Payload d0 = [] then TransformNone else transform d0) of
           TransformReject reason \<Rightarrow>
             (wh_result 0 ''plugin_reject'' (if reason = [] then ''webhook delivery rejected by plugin'' else reason) False, NoNote)
         | t \<Rightarrow>
             let d = (case t of TransformTo payload \<Rightarrow> if payload = [] then d0 else d0\<lparr>dl_Payload := payload\<rparr> | _ \<Rightarrow> d0) in
             (case secret (dl_SecretID d) of
                None \<Rightarrow> (wh_result 0 ''signing_error'' ''signing_error'' False, NoNote)
              | Some [] \<Rightarrow> (wh_result 0 ''signing_error'' ''webhook secret is required'' False, NoNote)
              | Some _ \<Rightarrow>
                  if breaker = Some False then (wh_result 0 ''circuit_open'' ''circuit_open'' True, NoNote)
                  else
                    let note = (\<lambda>n. if breaker = None then NoNote else n) in
                    (case exchange d of
                       RequestInvalid msg \<Rightarrow> (wh_result 0 ''request_invalid'' msg False, note NoteFailure)
                     | NetworkError msg \<Rightarrow> (wh_result 0 ''network'' (sanitizeErrorMessage msg) True, note NoteFailure)
                     | HTTPStatus st \<Rightarrow>
                         if 200 \<le> st \<and> st < 300 then (wh_result st ''none'' [] (retryableStatus st), note NoteSuccess)
                         else (wh_result st (errorClassForStatus st) ''webhook endpoint returned HTTP'' (retryableStatus st),
                               note (if 500 \<le> st then NoteFailure else NoteSuccess))))))"

end
