(* ===== verification/WebhooksProps.thy ===== *)
theory WebhooksProps
  imports Webhooks
begin

text \<open>
  The invariant of the outbox over every history, and what the delivery worker promises: left alone it settles
  every callback within a bounded number of polls.
\<close>

subsection \<open>The invariant of the outbox\<close>

definition scope_of :: "delivery \<Rightarrow> string" where
  "scope_of d = dedupeScope (dl_TenantID d) (dl_AppID d) (dl_DedupeKey d)"

definition delivery_ok :: "delivery \<Rightarrow> bool" where
  "delivery_ok d =
     (dl_DedupeKey d \<noteq> [] \<and> (dl_Status d = WhLeased \<longleftrightarrow> dl_LeaseID d \<noteq> []) \<and> (dl_Status d = WhLeased \<longrightarrow> 0 < dl_LeasedUntil d) \<and>
      0 \<le> dl_AttemptCount d)"

definition outbox_ok :: "outbox \<Rightarrow> bool" where
  "outbox_ok m =
     (distinct (wh_order m) \<and> set (wh_order m) = dom (wh_deliveries m) \<and>
      (\<forall>i d. wh_deliveries m i = Some d \<longrightarrow> dl_ID d = i \<and> delivery_ok d \<and> wh_dedupe m (scope_of d) = Some i) \<and>
      (\<forall>k i. wh_dedupe m k = Some i \<longrightarrow> (\<exists>d. wh_deliveries m i = Some d \<and> scope_of d = k)))"

lemma outbox_okD:
  assumes "outbox_ok m"
  shows "distinct (wh_order m)" "i \<in> set (wh_order m) \<longleftrightarrow> wh_deliveries m i \<noteq> None"
    "wh_deliveries m i = Some d \<Longrightarrow> dl_ID d = i" "wh_deliveries m i = Some d \<Longrightarrow> delivery_ok d"
    "wh_deliveries m i = Some d \<Longrightarrow> wh_dedupe m (scope_of d) = Some i"
    "wh_dedupe m k = Some i \<Longrightarrow> \<exists>d. wh_deliveries m i = Some d \<and> scope_of d = k"
  using assms by (auto simp: outbox_ok_def)

lemma outbox_ok_new: "outbox_ok (NewOutbox\<lparr>wh_maxEntries := n\<rparr>)"
  by (simp add: outbox_ok_def NewOutbox_def)

lemma wh_len_order: "outbox_ok m \<Longrightarrow> wh_len m = length (wh_order m)"
proof -
  assume ok: "outbox_ok m"
  have "filter (\<lambda>i. wh_deliveries m i \<noteq> None) (wh_order m) = wh_order m"
    using outbox_okD(2) [OF ok] by (simp add: filter_id_conv)
  then show ?thesis using outbox_okD(1) [OF ok] by (simp add: wh_len_def distinct_remdups_id)
qed

text \<open>A change of one stored delivery that keeps its identity.\<close>

lemma outbox_ok_put:
  assumes ok: "outbox_ok m" and d: "wh_deliveries m i = Some d" and d': "dl_ID d' = i" "scope_of d' = scope_of d" "delivery_ok d'"
  shows "outbox_ok (m\<lparr>wh_deliveries := (wh_deliveries m)(i \<mapsto> d')\<rparr>)"
proof -
  have "wh_dedupe m (scope_of d) = Some i" using outbox_okD(5) [OF ok d] .
  moreover have "k = scope_of d" if "wh_dedupe m k = Some i" for k using outbox_okD(6) [OF ok that] d by simp
  ultimately show ?thesis using ok d d' unfolding outbox_ok_def by (auto split: if_splits)
qed

lemma evict_one_ok:
  assumes ok: "outbox_ok m" and d: "wh_deliveries m i = Some d"
  shows "outbox_ok (evict_one i m)" "wh_deliveries (evict_one i m) = (wh_deliveries m)(i := None)"
    "wh_order (evict_one i m) = remove1 i (wh_order m)" "wh_maxEntries (evict_one i m) = wh_maxEntries m"
proof -
  let ?k = "scope_of d"
  have k: "wh_dedupe m ?k = Some i" "dl_DedupeKey d \<noteq> []"
    using outbox_okD(4,5) [OF ok d] by (simp_all add: delivery_ok_def)
  then have e: "evict_one i m = m\<lparr>wh_deliveries := (wh_deliveries m)(i := None), wh_dedupe := (wh_dedupe m)(?k := None), wh_order := remove1 i (wh_order m)\<rparr>"
    using d by (simp add: evict_one_def Let_def scope_of_def)
  then show "wh_deliveries (evict_one i m) = (wh_deliveries m)(i := None)" "wh_order (evict_one i m) = remove1 i (wh_order m)"
    "wh_maxEntries (evict_one i m) = wh_maxEntries m" by simp_all
  have "set (wh_order m) = dom (wh_deliveries m)" "distinct (wh_order m)" using ok by (simp_all add: outbox_ok_def)
  moreover have "wh_dedupe m (scope_of d') = Some j \<and> scope_of d' \<noteq> ?k" if "wh_deliveries m j = Some d'" "j \<noteq> i" for j d'
    using outbox_okD(5) [OF ok that(1)] k(1) that(2) by auto
  moreover have "\<exists>d'. wh_deliveries m j = Some d' \<and> scope_of d' = k' \<and> j \<noteq> i" if "wh_dedupe m k' = Some j" "k' \<noteq> ?k" for j k'
    using outbox_okD(6) [OF ok that(1)] that(2) d by auto
  ultimately show "outbox_ok (evict_one i m)"
    using ok unfolding e outbox_ok_def by (auto simp: set_remove1_eq)
qed

lemma evict_effect:
  assumes "outbox_ok m"
  shows "outbox_ok (evictLocked m) \<and> wh_maxEntries (evictLocked m) = wh_maxEntries m \<and>
    (\<forall>i. wh_deliveries (evictLocked m) i = wh_deliveries m i \<or> evictable m i \<and> wh_deliveries (evictLocked m) i = None) \<and>
    (0 < wh_maxEntries m \<longrightarrow> int (wh_len (evictLocked m)) \<le> wh_maxEntries m \<or> (\<forall>i. \<not> evictable (evictLocked m) i))"
  using assms
proof (induction m rule: evictLocked.induct)
  case (1 m)
  show ?case
  proof (cases "wh_maxEntries m \<le> 0 \<or> int (wh_len m) \<le> wh_maxEntries m")
    case True
    then show ?thesis using 1(2) by (auto simp: evictLocked.simps [of m])
  next
    case False
    show ?thesis
    proof (cases "find (evictable m) (wh_order m)")
      case None
      then have "\<not> evictable m i" for i using outbox_okD(2) [OF 1(2), of i] by (auto simp: find_None_iff evictable_def split: option.splits)
      then show ?thesis using False None 1(2) by (auto simp: evictLocked.simps [of m])
    next
      case (Some i)
      then have e: "evictable m i" by (auto simp: find_Some_iff)
      then obtain d where d: "wh_deliveries m i = Some d" by (auto simp: evictable_def split: option.splits)
      note one = evict_one_ok [OF 1(2) d]
      have step: "evictLocked m = evictLocked (evict_one i m)" using False Some by (simp add: evictLocked.simps [of m])
      have "evictable (evict_one i m) j \<longleftrightarrow> evictable m j \<and> j \<noteq> i" for j by (simp add: evictable_def one(2))
      then show ?thesis unfolding step using 1(1) [OF False Some one(1)] one(2,4) e by (auto split: if_splits)
    qed
  qed
qed

subsection \<open>Identities\<close>

text \<open>What no operation changes of a delivery.\<close>

definition callback_of :: "delivery \<Rightarrow> string list \<times> int \<times> gotime" where
  "callback_of d = ([dl_ID d, dl_TenantID d, dl_AppID d, dl_JobID d, dl_EventName d, dl_EndpointID d, dl_EndpointKind d,
      dl_URL d, dl_SecretID d, dl_DedupeKey d, dl_Payload d, dl_TraceID d, dl_ReplayOf d], dl_MaxAttempts d, dl_CreatedAt d)"

lemma callback_of_kept [simp]:
  "callback_of (leased_as lid untl now d) = callback_of d" "callback_of (marked st nxt res now d) = callback_of d"
  by (simp_all add: callback_of_def leased_as_def marked_def)

lemma callback_of_eqD:
  "callback_of d' = callback_of d \<Longrightarrow> dl_ID d' = dl_ID d \<and> scope_of d' = scope_of d \<and> dl_TenantID d' = dl_TenantID d \<and>
     dl_AppID d' = dl_AppID d \<and> dl_DedupeKey d' = dl_DedupeKey d"
  by (simp add: callback_of_def scope_of_def)

definition identity :: "string \<Rightarrow> string \<Rightarrow> string \<Rightarrow> string" where
  "identity tenant app key = ''['' @ sprint_parts [tenant, app, key] @ '']''"

definition blank_free :: "string \<Rightarrow> bool" where
  "blank_free s = (CHR '' '' \<notin> set s)"

lemma blank_split: "blank_free a \<Longrightarrow> blank_free a' \<Longrightarrow> a @ '' '' @ x = a' @ '' '' @ x' \<Longrightarrow> a = a' \<and> x = x'"
proof (induction a arbitrary: a')
  case Nil
  then show ?case by (cases a') (auto simp: blank_free_def)
next
  case (Cons c a)
  then show ?case by (cases a') (auto simp: blank_free_def)
qed

lemma identity_inj:
  assumes "blank_free t" "blank_free t'" "blank_free a" "blank_free a'" "identity t a k = identity t' a' k'"
  shows "t = t' \<and> a = a' \<and> k = k'"
proof -
  have "t @ '' '' @ (a @ '' '' @ k) = t' @ '' '' @ (a' @ '' '' @ k')" using assms(5) by (simp add: identity_def)
  from blank_split [OF assms(1,2) this] have "t = t'" "a @ '' '' @ k = a' @ '' '' @ k'" by simp_all
  with blank_split [OF assms(3,4) this(2)] show ?thesis by simp
qed

text \<open>Without the restriction the printed form is ambiguous: two tenants share an identity.\<close>

lemma identity_is_ambiguous: "identity ''a b'' ''c'' k = identity ''a'' ''b c'' k"
  by (simp add: identity_def)

text \<open>
  The identities in use, on which the truncated hash is assumed to have no collision.
\<close>

definition from_request :: "(string \<Rightarrow> string) \<Rightarrow> string set \<Rightarrow> delivery \<Rightarrow> bool" where
  "from_request whash U d =
     (blank_free (dl_TenantID d) \<and> blank_free (dl_AppID d) \<and> identity (dl_TenantID d) (dl_AppID d) (dl_DedupeKey d) \<in> U \<and>
      dl_ID d = ''whd_'' @ take 24 (whash (identity (dl_TenantID d) (dl_AppID d) (dl_DedupeKey d))))"

definition outbox_inv :: "(string \<Rightarrow> string) \<Rightarrow> string set \<Rightarrow> outbox \<Rightarrow> bool" where
  "outbox_inv whash U m = (outbox_ok m \<and> (\<forall>i d. wh_deliveries m i = Some d \<longrightarrow> from_request whash U d))"

definition collision_free :: "(string \<Rightarrow> string) \<Rightarrow> string set \<Rightarrow> bool" where
  "collision_free whash U = inj_on (\<lambda>s. take 24 (whash s)) U"

lemma outbox_inv_put:
  assumes "outbox_inv whash U m" "wh_deliveries m i = Some d" "callback_of d' = callback_of d" "delivery_ok d'"
  shows "outbox_inv whash U (m\<lparr>wh_deliveries := (wh_deliveries m)(i \<mapsto> d')\<rparr>)"
proof -
  have ok: "outbox_ok m" "from_request whash U d" using assms(1,2) by (auto simp: outbox_inv_def)
  have "dl_ID d = i" using outbox_okD(3) [OF ok(1) assms(2)] .
  moreover have "from_request whash U d'" using ok(2) callback_of_eqD [OF assms(3)] by (simp add: from_request_def)
  ultimately show ?thesis using outbox_ok_put [OF ok(1) assms(2)] callback_of_eqD [OF assms(3)] assms(1,4) by (auto simp: outbox_inv_def)
qed

subsection \<open>The operations\<close>

lemma Enqueue_effect:
  assumes inv: "outbox_inv whash U m" and cf: "collision_free whash U"
    and r: "blank_free (eq_TenantID r)" "blank_free (eq_AppID r)" "identity (eq_TenantID r) (eq_AppID r) (eq_DedupeKey r) \<in> U"
    and e: "wh_Enqueue whash now r m = (res, m')"
  shows "outbox_inv whash U m'"
proof (cases "validateEnqueue r \<and> wh_dedupe m (dedupeScope (eq_TenantID r) (eq_AppID r) (eq_DedupeKey r)) = None")
  case False
  then have "m' = m" using e by (auto simp: wh_Enqueue_def Let_def split: if_splits option.splits)
  then show ?thesis using inv by simp
next
  case True
  let ?k = "dedupeScope (eq_TenantID r) (eq_AppID r) (eq_DedupeKey r)"
  define d where "d = new_delivery whash now r"
  define m1 where "m1 = m\<lparr>wh_deliveries := (wh_deliveries m)(dl_ID d \<mapsto> d), wh_dedupe := (wh_dedupe m)(?k \<mapsto> dl_ID d), wh_order := wh_order m @ [dl_ID d]\<rparr>"
  have ok: "outbox_ok m" and from_r: "\<And>i d. wh_deliveries m i = Some d \<Longrightarrow> from_request whash U d"
    using inv by (auto simp: outbox_inv_def)
  have m': "m' = evictLocked m1" using e True by (simp add: wh_Enqueue_def Let_def d_def m1_def)
  have k: "scope_of d = ?k" by (simp add: d_def new_delivery_def scope_of_def)
  have fd: "from_request whash U d"
    using r by (simp add: from_request_def d_def new_delivery_def StableID_def identity_def)
  have dok: "delivery_ok d" using True by (auto simp: delivery_ok_def d_def new_delivery_def validateEnqueue_def)
  have new: "wh_deliveries m (dl_ID d) = None"
  proof (rule ccontr)
    assume "wh_deliveries m (dl_ID d) \<noteq> None"
    then obtain c where c: "wh_deliveries m (dl_ID d) = Some c" by blast
    have same: "dl_ID c = dl_ID d" using outbox_okD(3) [OF ok c] .
    have "identity (dl_TenantID c) (dl_AppID c) (dl_DedupeKey c) = identity (dl_TenantID d) (dl_AppID d) (dl_DedupeKey d)"
      using from_r [OF c] fd same cf by (auto simp: from_request_def collision_free_def inj_on_def)
    from identity_inj [OF _ _ _ _ this] have "scope_of c = scope_of d" using from_r [OF c] fd by (auto simp: from_request_def scope_of_def)
    then show False using outbox_okD(5) [OF ok c] True k by simp
  qed
  have "wh_dedupe m (scope_of c) = Some i \<and> scope_of c \<noteq> ?k" if "wh_deliveries m i = Some c" for i c
    using outbox_okD(5) [OF ok that] True by auto
  moreover have "i \<noteq> dl_ID d" if "wh_deliveries m i = Some c" for i c using that new by auto
  moreover have "dl_ID d \<notin> set (wh_order m)" using outbox_okD(2) [OF ok] new by simp
  moreover have "wh_dedupe m k' \<noteq> Some (dl_ID d)" for k' using outbox_okD(6) [OF ok, of k' "dl_ID d"] new by auto
  ultimately have ok1: "outbox_ok m1"
    using ok dok k True unfolding m1_def outbox_ok_def by auto
  note ev = evict_effect [OF ok1, folded m']
  have "from_request whash U c" if "wh_deliveries m' i = Some c" for i c
  proof -
    have "wh_deliveries m1 i = Some c" using ev that by (metis option.distinct(1))
    then show ?thesis using fd from_r by (auto simp: m1_def split: if_splits)
  qed
  then show ?thesis using ev by (simp add: outbox_inv_def)
qed

text \<open>Leasing, exactly: the first \<open>limit\<close> leasable deliveries, oldest first.\<close>

definition due_ids :: "gotime \<Rightarrow> nat \<Rightarrow> string list \<Rightarrow> outbox \<Rightarrow> string list" where
  "due_ids now limit is m = take limit (filter (\<lambda>i. pred_option (leasable now) (wh_deliveries m i) \<and> wh_deliveries m i \<noteq> None) is)"

definition lease_granted :: "(string \<Rightarrow> string) \<Rightarrow> string \<Rightarrow> gotime \<Rightarrow> string \<Rightarrow> gotime \<Rightarrow> delivery \<Rightarrow> delivery" where
  "lease_granted whash worker untl stamp now d = leased_as (StableID whash ''whlease'' [worker, dl_ID d, stamp]) untl now d"

lemma lease_due_exact:
  assumes "distinct is" "\<And>i d. wh_deliveries m i = Some d \<Longrightarrow> dl_ID d = i"
  shows "lease_due whash worker limit untl stamp now is m =
    (map (\<lambda>i. lease_granted whash worker untl stamp now (the (wh_deliveries m i))) (due_ids now limit is m),
     m\<lparr>wh_deliveries := (\<lambda>i. if i \<in> set (due_ids now limit is m) then map_option (lease_granted whash worker untl stamp now) (wh_deliveries m i)
                            else wh_deliveries m i)\<rparr>)"
  using assms
proof (induction "is" arbitrary: limit m)
  case Nil
  then show ?case by (simp add: due_ids_def)
next
  case (Cons i "is")
  show ?case
  proof (cases "limit = 0 \<or> wh_deliveries m i = None \<or> \<not> pred_option (leasable now) (wh_deliveries m i)")
    case True
    then show ?thesis
    proof (cases "limit = 0")
      case False
      with True have "lease_due whash worker limit untl stamp now (i # is) m = lease_due whash worker limit untl stamp now is m"
          "due_ids now limit (i # is) m = due_ids now limit is m"
        by (auto simp: due_ids_def split: option.splits)
      then show ?thesis using Cons.IH [where limit = limit and m = m] Cons.prems by simp
    qed (simp add: due_ids_def)
  next
    case False
    then obtain d where d: "wh_deliveries m i = Some d" "leasable now d" and l: "limit \<noteq> 0" by auto
    let ?m = "m\<lparr>wh_deliveries := (wh_deliveries m)(i \<mapsto> lease_granted whash worker untl stamp now d)\<rparr>"
    have id: "dl_ID d = i" using Cons.prems(2) d(1) by blast
    have same: "wh_deliveries ?m j = wh_deliveries m j" if "j \<in> set is" for j using that Cons.prems(1) by auto
    have due: "due_ids now (limit - 1) is ?m = due_ids now (limit - 1) is m"
      unfolding due_ids_def using same by (simp cong: filter_cong)
    have sub: "set (due_ids now (limit - 1) is m) \<subseteq> set is" by (auto simp: due_ids_def dest: in_set_takeD)
    have cons: "due_ids now limit (i # is) m = i # due_ids now (limit - 1) is m"
      using d l by (cases limit) (simp_all add: due_ids_def)
    have "dl_ID c = j" if "wh_deliveries ?m j = Some c" for j c
      using that Cons.prems(2) id by (auto simp: lease_granted_def leased_as_def split: if_splits)
    from Cons.IH [where limit = "limit - 1" and m = ?m, OF _ this] Cons.prems(1)
    have ih: "lease_due whash worker (limit - 1) untl stamp now is ?m =
        (map (\<lambda>i. lease_granted whash worker untl stamp now (the (wh_deliveries ?m i))) (due_ids now (limit - 1) is m),
         ?m\<lparr>wh_deliveries := (\<lambda>i. if i \<in> set (due_ids now (limit - 1) is m) then map_option (lease_granted whash worker untl stamp now) (wh_deliveries ?m i)
                            else wh_deliveries ?m i)\<rparr>)" unfolding due by simp
    have m1: "map (\<lambda>i. lease_granted whash worker untl stamp now (the (wh_deliveries ?m i))) (due_ids now (limit - 1) is m) =
        map (\<lambda>i. lease_granted whash worker untl stamp now (the (wh_deliveries m i))) (due_ids now (limit - 1) is m)"
      using sub same by (intro map_cong) (auto simp del: fun_upd_apply)
    have "i \<notin> set (due_ids now (limit - 1) is m)" using sub Cons.prems(1) by auto
    then have m2: "(\<lambda>j. if j \<in> set (due_ids now (limit - 1) is m) then map_option (lease_granted whash worker untl stamp now) (wh_deliveries ?m j)
        else wh_deliveries ?m j) = (\<lambda>j. if j \<in> set (i # due_ids now (limit - 1) is m) then map_option (lease_granted whash worker untl stamp now) (wh_deliveries m j)
        else wh_deliveries m j)"
      using d(1) by (auto simp: fun_eq_iff)
    have "lease_due whash worker limit untl stamp now (i # is) m =
        (case lease_due whash worker (limit - 1) untl stamp now is ?m of (ds, m') \<Rightarrow> (lease_granted whash worker untl stamp now d # ds, m'))"
      using d l id by (simp add: lease_granted_def Let_def)
    then show ?thesis unfolding ih prod.case cons m1 using d(1) m2 by simp
  qed
qed

definition lease_effect :: "(string \<Rightarrow> string) \<Rightarrow> string \<Rightarrow> nat \<Rightarrow> gotime \<Rightarrow> string \<Rightarrow> gotime \<Rightarrow> outbox \<Rightarrow> outbox" where
  "lease_effect whash worker n untl stamp now m =
     m\<lparr>wh_deliveries := (\<lambda>i. if i \<in> set (due_ids now n (wh_order m) m) then map_option (lease_granted whash worker untl stamp now) (wh_deliveries m i)
                            else wh_deliveries m i)\<rparr>"

lemma LeaseDue_exact:
  assumes "outbox_ok m" "trim_space worker \<noteq> []"
  shows "wh_LeaseDue whash worker limit leaseFor stamp now m =
    (let n = nat (if limit \<le> 0 then 10 else limit); untl = now + (if leaseFor \<le> 0 then 30 * second else leaseFor)
     in (Some (map (\<lambda>i. lease_granted whash worker untl stamp now (the (wh_deliveries m i))) (due_ids now n (wh_order m) m)),
         lease_effect whash worker n untl stamp now m))"
proof -
  have "lease_due whash worker k u stamp now (wh_order m) m =
      (map (\<lambda>i. lease_granted whash worker u stamp now (the (wh_deliveries m i))) (due_ids now k (wh_order m) m), lease_effect whash worker k u stamp now m)" for k u
    unfolding lease_effect_def by (rule lease_due_exact [OF outbox_okD(1,3) [OF assms(1)]])
  then show ?thesis using assms(2) by (simp only: wh_LeaseDue_def Let_def prod.case if_False)
qed

lemma LeaseDue_plain:
  assumes "outbox_ok m" "trim_space worker \<noteq> []" "0 < limit" "0 < leaseFor"
  shows "wh_LeaseDue whash worker limit leaseFor stamp now m =
    (Some (map (\<lambda>i. lease_granted whash worker (now + leaseFor) stamp now (the (wh_deliveries m i))) (due_ids now (nat limit) (wh_order m) m)),
     lease_effect whash worker (nat limit) (now + leaseFor) stamp now m)"
  using LeaseDue_exact [OF assms(1,2), of whash limit leaseFor stamp now] assms(3,4) by (simp only: Let_def not_le [symmetric] if_False)

lemma due_ids_stored:
  "i \<in> set (due_ids now n is m) \<Longrightarrow> i \<in> set is \<and> (\<exists>d. wh_deliveries m i = Some d \<and> leasable now d)"
  by (auto simp: due_ids_def dest!: in_set_takeD)

lemma lease_granted_ok: "delivery_ok d \<Longrightarrow> 0 < untl \<Longrightarrow> delivery_ok (lease_granted whash worker untl stamp now d)"
  by (simp add: delivery_ok_def lease_granted_def leased_as_def StableID_def)

lemma lease_granted_simps [simp]:
  "callback_of (lease_granted whash worker untl stamp now d) = callback_of d"
  "dl_AttemptCount (lease_granted whash worker untl stamp now d) = dl_AttemptCount d"
  "dl_Status (lease_granted whash worker untl stamp now d) = WhLeased"
  "dl_ID (lease_granted whash worker untl stamp now d) = dl_ID d"
  "dl_MaxAttempts (lease_granted whash worker untl stamp now d) = dl_MaxAttempts d"
  by (simp_all add: lease_granted_def leased_as_def callback_of_def)

lemma lease_effect_at:
  assumes "wh_deliveries m i = Some d"
  shows "wh_deliveries (lease_effect whash worker n untl stamp now m) i =
    Some (if i \<in> set (due_ids now n (wh_order m) m) then lease_granted whash worker untl stamp now d else d)"
  using assms by (simp add: lease_effect_def)

lemma lease_effect_ok:
  assumes ok: "outbox_ok m" and t: "0 < untl"
  shows "outbox_ok (lease_effect whash worker n untl stamp now m)"
proof -
  let ?m = "lease_effect whash worker n untl stamp now m"
  have dom: "dom (wh_deliveries ?m) = dom (wh_deliveries m)" by (auto simp: lease_effect_def split: if_splits)
  have "dl_ID d' = i \<and> delivery_ok d' \<and> wh_dedupe m (scope_of d') = Some i" if d': "wh_deliveries ?m i = Some d'" for i d'
  proof -
    from d' dom obtain d where d: "wh_deliveries m i = Some d" by blast
    then have "d' = d \<or> d' = lease_granted whash worker untl stamp now d" using d' by (auto simp: lease_effect_at split: if_splits)
    then have "delivery_ok d'" "callback_of d' = callback_of d" using lease_granted_ok [OF outbox_okD(4) [OF ok d] t] outbox_okD(4) [OF ok d] by auto
    then show ?thesis using callback_of_eqD [of d' d] outbox_okD(3,5) [OF ok d] by simp
  qed
  moreover have "\<exists>d. wh_deliveries ?m i = Some d \<and> scope_of d = k" if "wh_dedupe m k = Some i" for k i
  proof -
    from outbox_okD(6) [OF ok that] obtain d where d: "wh_deliveries m i = Some d" "scope_of d = k" by blast
    have "scope_of (lease_granted whash worker untl stamp now d) = k"
      using callback_of_eqD [OF lease_granted_simps(1)] d(2) by metis
    then show ?thesis using d by (simp add: lease_effect_at)
  qed
  moreover have "wh_order ?m = wh_order m" "wh_dedupe ?m = wh_dedupe m" by (simp_all add: lease_effect_def)
  moreover have "distinct (wh_order m)" "set (wh_order m) = dom (wh_deliveries m)" using ok by (simp_all add: outbox_ok_def)
  ultimately show ?thesis unfolding outbox_ok_def dom by simp
qed

lemma lease_effect_keeps:
  assumes inv: "outbox_inv whash U m" and t: "0 < untl"
  shows "outbox_inv whash U (lease_effect h worker n untl stamp now m)"
proof -
  let ?m = "lease_effect h worker n untl stamp now m"
  have ok: "outbox_ok m" using inv by (simp add: outbox_inv_def)
  have "from_request whash U d'" if d': "wh_deliveries ?m i = Some d'" for i d'
  proof -
    from d' obtain d where d: "wh_deliveries m i = Some d" by (auto simp: lease_effect_def split: if_splits)
    then have "callback_of d' = callback_of d" using d' by (auto simp: lease_effect_at split: if_splits)
    moreover have "from_request whash U d" using inv d by (auto simp: outbox_inv_def)
    ultimately show ?thesis using callback_of_eqD [of d' d] by (simp add: from_request_def)
  qed
  then show ?thesis using lease_effect_ok [OF ok t] by (simp add: outbox_inv_def)
qed

lemma marked_ok:
  "delivery_ok d \<Longrightarrow> st \<noteq> WhLeased \<Longrightarrow> delivery_ok (marked st nxt res now d)"
  by (simp add: delivery_ok_def marked_def)

lemma mark_effect:
  assumes inv: "outbox_inv whash U m" and l: "lid \<noteq> []" and st: "st \<in> {WhDelivered, WhRetryScheduled, WhDeadLettered}"
    and e: "wh_mark i lid st nxt res now m = (ok, m')"
  shows "outbox_inv whash U m'"
proof (cases "wh_deliveries m i = None \<or> dl_LeaseID (the (wh_deliveries m i)) \<noteq> lid")
  case True
  then have "m' = m" using e by (auto simp: wh_mark_def split: option.splits if_splits)
  then show ?thesis using inv by simp
next
  case False
  then obtain d where d: "wh_deliveries m i = Some d" "dl_LeaseID d = lid" by auto
  have m': "m' = m\<lparr>wh_deliveries := (wh_deliveries m)(i \<mapsto> marked st nxt res now d)\<rparr>" using e d by (simp add: wh_mark_def)
  have dok: "delivery_ok d" using inv d(1) outbox_okD(4) by (auto simp: outbox_inv_def)
  have "delivery_ok (marked st nxt res now d)" using marked_ok [OF dok] st by auto
  then show ?thesis unfolding m'
    using outbox_inv_put [OF inv d(1) callback_of_kept(2)] by simp
qed

subsection \<open>Every history\<close>

datatype wh_op =
    WEnqueue gotime enqueue_request
  | WReplay gotime string string string string gotime
  | WLease string int dur string gotime
  | WDelivered string string attempt_result gotime
  | WRetry string string gotime attempt_result gotime
  | WDead string string attempt_result gotime

fun wh_step :: "(string \<Rightarrow> string) \<Rightarrow> wh_op \<Rightarrow> outbox \<Rightarrow> outbox" where
  "wh_step whash (WEnqueue now r) m = snd (wh_Enqueue whash now r m)"
| "wh_step whash (WReplay clock tenant app i idem now) m = snd (wh_Replay whash clock tenant app i idem now m)"
| "wh_step whash (WLease worker limit leaseFor stamp now) m = snd (wh_LeaseDue whash worker limit leaseFor stamp now m)"
| "wh_step whash (WDelivered i lid res now) m = snd (MarkDelivered i lid res now m)"
| "wh_step whash (WRetry i lid nxt res now) m = snd (MarkRetry i lid nxt res now m)"
| "wh_step whash (WDead i lid res now) m = snd (MarkDeadLetter i lid res now m)"

definition wh_run :: "(string \<Rightarrow> string) \<Rightarrow> wh_op list \<Rightarrow> outbox \<Rightarrow> outbox" where
  "wh_run whash ops m = fold (wh_step whash) ops m"

lemma wh_run_simps [simp]:
  "wh_run whash [] m = m" "wh_run whash (ops @ ops') m = wh_run whash ops' (wh_run whash ops m)"
  "wh_run whash (x # ops) m = wh_run whash ops (wh_step whash x m)"
  by (simp_all add: wh_run_def)

text \<open>Tenant and application ids have no blanks, a settling call names a lease, the clock is past its zero.\<close>

fun wh_op_ok :: "string set \<Rightarrow> wh_op \<Rightarrow> bool" where
  "wh_op_ok U (WEnqueue now r) =
     (blank_free (eq_TenantID r) \<and> blank_free (eq_AppID r) \<and> identity (eq_TenantID r) (eq_AppID r) (eq_DedupeKey r) \<in> U)"
| "wh_op_ok U (WReplay clock tenant app i idem now) = (identity tenant app (''replay:'' @ i @ '':'' @ idem) \<in> U)"
| "wh_op_ok U (WLease worker limit leaseFor stamp now) = (0 \<le> now)"
| "wh_op_ok U (WDelivered i lid res now) = (lid \<noteq> [])"
| "wh_op_ok U (WRetry i lid nxt res now) = (lid \<noteq> [])"
| "wh_op_ok U (WDead i lid res now) = (lid \<noteq> [])"

lemma Replay_effect:
  assumes inv: "outbox_inv whash U m" and cf: "collision_free whash U"
    and U: "identity tenant app (''replay:'' @ i @ '':'' @ idem) \<in> U"
    and e: "wh_Replay whash clock tenant app i idem now m = (res, m')"
  shows "outbox_inv whash U m'"
proof (cases "wh_Get tenant app i m")
  case None
  then show ?thesis using e inv by (simp add: wh_Replay_def)
next
  case (Some d)
  then have d: "wh_deliveries m i = Some d" "dl_TenantID d = tenant" "dl_AppID d = app" by (auto simp: wh_Get_def split: option.splits if_splits)
  have "from_request whash U d" "dl_ID d = i" using inv d(1) outbox_okD(3) by (auto simp: outbox_inv_def)
  moreover have "wh_Enqueue whash clock (replay_request d idem now) m = (res, m')" using e Some by (simp add: wh_Replay_def)
  ultimately show ?thesis using U d by (intro Enqueue_effect [OF inv cf]) (auto simp: replay_request_def from_request_def)
qed

lemma LeaseDue_effect:
  assumes inv: "outbox_inv whash U m" and t: "0 \<le> now"
  shows "outbox_inv whash U (snd (wh_LeaseDue h worker limit leaseFor stamp now m))"
proof (cases "trim_space worker = []")
  case True
  then show ?thesis using inv by (simp add: wh_LeaseDue_def)
next
  case False
  have ok: "outbox_ok m" using inv by (simp add: outbox_inv_def)
  have "0 < now + (if leaseFor \<le> 0 then 30 * second else leaseFor)" using t by simp
  from lease_effect_keeps [OF inv this] show ?thesis unfolding LeaseDue_exact [OF ok False] Let_def by simp
qed

lemma wh_step_effect:
  assumes "outbox_inv whash U m" "collision_free whash U" "wh_op_ok U x"
  shows "outbox_inv whash U (wh_step whash x m)"
proof (cases x)
  case (WEnqueue now r)
  then show ?thesis using assms Enqueue_effect [OF assms(1,2), of r now] by (cases "wh_Enqueue whash now r m") auto
next
  case (WReplay clock tenant app i idem now)
  then show ?thesis using assms Replay_effect [OF assms(1,2), of tenant app i idem clock now]
    by (cases "wh_Replay whash clock tenant app i idem now m") auto
next
  case (WLease worker limit leaseFor stamp now)
  then show ?thesis using assms LeaseDue_effect [OF assms(1)] by simp
next
  case (WDelivered i lid res now)
  then show ?thesis using assms mark_effect [OF assms(1), of lid WhDelivered i 0 res now] by (cases "MarkDelivered i lid res now m") (simp add: MarkDelivered_def)
next
  case (WRetry i lid nxt res now)
  then show ?thesis using assms mark_effect [OF assms(1), of lid WhRetryScheduled i nxt res now] by (cases "MarkRetry i lid nxt res now m") (simp add: MarkRetry_def)
next
  case (WDead i lid res now)
  then show ?thesis using assms mark_effect [OF assms(1), of lid WhDeadLettered i 0 res now] by (cases "MarkDeadLetter i lid res now m") (simp add: MarkDeadLetter_def)
qed

interpretation outbox_machine: guarded_machine "wh_step whash" "wh_op_ok U" "\<lambda>m. collision_free whash U \<and> outbox_inv whash U m" "\<lambda>_ _. True"
  for whash U
  by unfold_locales (simp_all add: wh_step_effect)

lemma wh_run_inv:
  assumes "outbox_inv whash U m" "collision_free whash U" "list_all (wh_op_ok U) ops"
  shows "outbox_inv whash U (wh_run whash ops m)"
  using outbox_machine.guarded_run [of whash U m ops] assms by (simp add: wh_run_def)

lemma outbox_inv_new: "outbox_inv whash U (NewOutbox\<lparr>wh_maxEntries := n\<rparr>)"
  using outbox_ok_new by (simp add: outbox_inv_def NewOutbox_def)

subsection \<open>A worker left alone settles everything\<close>

text \<open>Attempts a delivery may still take: at least one, also where an open breaker has used them up.\<close>

definition attempts_left :: "delivery \<Rightarrow> nat" where
  "attempts_left d =
     (if TerminalDeliveryStatus (dl_Status d) then 0 else max 1 (nat (normalizeMaxAttempts (dl_MaxAttempts d) - dl_AttemptCount d)))"

definition backlog :: "outbox \<Rightarrow> nat" where
  "backlog m = (\<Sum>i\<leftarrow>wh_order m. attempts_left (the (wh_deliveries m i)))"

definition nearer :: "delivery \<Rightarrow> delivery \<Rightarrow> bool" where
  "nearer d d' =
     (callback_of d' = callback_of d \<and> attempts_left d' \<le> attempts_left d \<and> dl_AttemptCount d \<le> dl_AttemptCount d' \<and>
      dl_AttemptCount d' + int (attempts_left d') \<le> dl_AttemptCount d + int (attempts_left d))"

lemma nearer_refl [simp]: "nearer d d"
  by (simp add: nearer_def)

lemma nearer_trans: "nearer a b \<Longrightarrow> nearer b c \<Longrightarrow> nearer a c"
  by (simp add: nearer_def)

definition closer :: "outbox \<Rightarrow> outbox \<Rightarrow> bool" where
  "closer m m' = (wh_order m' = wh_order m \<and> (\<forall>i. rel_option nearer (wh_deliveries m i) (wh_deliveries m' i)))"

lemma closer_refl [simp]: "closer m m"
  by (simp add: closer_def option.rel_refl)

lemma closer_trans: "closer a b \<Longrightarrow> closer b c \<Longrightarrow> closer a c"
  unfolding closer_def by (metis (mono_tags, lifting) nearer_trans option.rel_transp transpD transpI)

lemma closer_at: "closer m m' \<Longrightarrow> wh_deliveries m i = Some d \<Longrightarrow> \<exists>d'. wh_deliveries m' i = Some d' \<and> nearer d d'"
  unfolding closer_def by (metis option.rel_cases option.inject option.distinct(1))

lemma closer_put:
  "wh_deliveries m i = Some d \<Longrightarrow> nearer d d' \<Longrightarrow> closer m (m\<lparr>wh_deliveries := (wh_deliveries m)(i \<mapsto> d')\<rparr>)"
  by (auto simp: closer_def option.rel_refl)

lemma closer_backlog:
  assumes "outbox_ok m" "closer m m'"
  shows "backlog m' \<le> backlog m"
    "i \<in> set (wh_order m) \<Longrightarrow> attempts_left (the (wh_deliveries m' i)) < attempts_left (the (wh_deliveries m i)) \<Longrightarrow> backlog m' < backlog m"
proof -
  have o: "wh_order m' = wh_order m" using assms(2) by (simp add: closer_def)
  have le: "attempts_left (the (wh_deliveries m' j)) \<le> attempts_left (the (wh_deliveries m j))" if "j \<in> set (wh_order m)" for j
    using that outbox_okD(2) [OF assms(1), of j] closer_at [OF assms(2), of j] by (auto simp: nearer_def)
  then show "backlog m' \<le> backlog m" unfolding backlog_def o by (intro sum_list_mono) simp
  assume i: "i \<in> set (wh_order m)" "attempts_left (the (wh_deliveries m' i)) < attempts_left (the (wh_deliveries m i))"
  have d: "distinct (wh_order m)" using outbox_okD(1) [OF assms(1)] .
  show "backlog m' < backlog m"
    unfolding backlog_def o sum_list_distinct_conv_sum_set [OF d] by (rule sum_strict_mono_ex1) (use le i in auto)
qed

lemma settle_one:
  assumes ok: "outbox_ok m" and d: "wh_deliveries m (dl_ID d) = Some d" "\<not> TerminalDeliveryStatus (dl_Status d)"
    and res: "ar_ErrorClass res \<noteq> ''circuit_open''"
  obtains d' where "settle_delivery w d res m = (True, m\<lparr>wh_deliveries := (wh_deliveries m)(dl_ID d \<mapsto> d')\<rparr>)"
    "outbox_ok (m\<lparr>wh_deliveries := (wh_deliveries m)(dl_ID d \<mapsto> d')\<rparr>)" "nearer d d'" "attempts_left d' < attempts_left d"
proof -
  have ok': "outbox_ok (m\<lparr>wh_deliveries := (wh_deliveries m)(dl_ID d \<mapsto> marked st nxt res now d)\<rparr>)" if "st \<noteq> WhLeased" for st nxt now
    using outbox_ok_put [OF ok d(1)] callback_of_eqD [OF callback_of_kept(2)] marked_ok [OF outbox_okD(4) [OF ok d(1)] that] by simp
  have near: "nearer d (marked st nxt res now d) \<and> attempts_left (marked st nxt res now d) < attempts_left d"
    if "TerminalDeliveryStatus st \<or> dl_AttemptCount d + 1 < normalizeMaxAttempts (dl_MaxAttempts d)" for st nxt now
    using that d(2) callback_of_kept(2) [of st nxt res now d] unfolding nearer_def by (auto simp: attempts_left_def marked_def)
  have mark: "wh_mark (dl_ID d) (dl_LeaseID d) st nxt res now m = (True, m\<lparr>wh_deliveries := (wh_deliveries m)(dl_ID d \<mapsto> marked st nxt res now d)\<rparr>)" for st nxt now
    using d(1) by (simp add: wh_mark_def)
  have T: "TerminalDeliveryStatus WhDelivered" "TerminalDeliveryStatus WhDeadLettered" by (simp_all add: TerminalDeliveryStatus_def)
  have "\<exists>st nxt. settle_delivery w d res m = wh_mark (dl_ID d) (dl_LeaseID d) st nxt res (wk_clock w d) m \<and> st \<noteq> WhLeased \<and>
      (TerminalDeliveryStatus st \<or> dl_AttemptCount d + 1 < normalizeMaxAttempts (dl_MaxAttempts d))"
    unfolding settle_delivery_def MarkDelivered_def MarkRetry_def MarkDeadLetter_def using res
    by (auto simp: TerminalDeliveryStatus_def intro: exI [of _ WhDelivered] exI [of _ WhRetryScheduled] exI [of _ WhDeadLettered])
  then obtain st nxt where st: "settle_delivery w d res m = wh_mark (dl_ID d) (dl_LeaseID d) st nxt res (wk_clock w d) m" "st \<noteq> WhLeased"
      "TerminalDeliveryStatus st \<or> dl_AttemptCount d + 1 < normalizeMaxAttempts (dl_MaxAttempts d)" by blast
  show thesis
    by (rule that [of "marked st nxt res (wk_clock w d) d"]) (use st mark ok' near in auto)
qed

definition answers :: "delivery_worker \<Rightarrow> bool" where
  "answers w = (\<forall>d. \<exists>res. wk_send w d = Some res \<and> ar_ErrorClass res \<noteq> ''circuit_open'')"

lemma settle_all_effect:
  assumes "answers w" "outbox_ok m" "distinct (map dl_ID ds)"
    "\<And>d. d \<in> set ds \<Longrightarrow> wh_deliveries m (dl_ID d) = Some d \<and> \<not> TerminalDeliveryStatus (dl_Status d)"
  shows "\<exists>m'. settle_all w (\<lambda>_ m. m) ds m = (True, m') \<and> outbox_ok m' \<and> closer m m' \<and> (ds \<noteq> [] \<longrightarrow> backlog m' < backlog m)"
  using assms(2-4)
proof (induction ds arbitrary: m)
  case (Cons d ds)
  obtain res where res: "wk_send w d = Some res" "ar_ErrorClass res \<noteq> ''circuit_open''" using assms(1) by (auto simp: answers_def)
  have d: "wh_deliveries m (dl_ID d) = Some d" "\<not> TerminalDeliveryStatus (dl_Status d)" using Cons.prems(3) by auto
  from settle_one [OF Cons.prems(1) d res(2), of w] obtain d' where
    s: "settle_delivery w d res m = (True, m\<lparr>wh_deliveries := (wh_deliveries m)(dl_ID d \<mapsto> d')\<rparr>)"
      "outbox_ok (m\<lparr>wh_deliveries := (wh_deliveries m)(dl_ID d \<mapsto> d')\<rparr>)" "nearer d d'" "attempts_left d' < attempts_left d" .
  let ?m = "m\<lparr>wh_deliveries := (wh_deliveries m)(dl_ID d \<mapsto> d')\<rparr>"
  have c: "closer m ?m" by (rule closer_put [OF d(1) s(3)])
  have "dl_ID d \<in> set (wh_order m)" using outbox_okD(2) [OF Cons.prems(1)] d(1) by simp
  from closer_backlog(2) [OF Cons.prems(1) c this] have b: "backlog ?m < backlog m" using s(4) d(1) by simp
  have rest: "wh_deliveries ?m (dl_ID x) = Some x \<and> \<not> TerminalDeliveryStatus (dl_Status x)" if "x \<in> set ds" for x
  proof -
    have "dl_ID x \<noteq> dl_ID d" using that Cons.prems(2) by (metis distinct.simps(2) image_eqI list.set_map list.simps(9))
    then show ?thesis using Cons.prems(3) [of x] that by simp
  qed
  have "distinct (map dl_ID ds)" using Cons.prems(2) by simp
  from Cons.IH [OF s(2) this rest] obtain m' where
    i: "settle_all w (\<lambda>_ m. m) ds ?m = (True, m')" "outbox_ok m'" "closer ?m m'" by blast
  have "backlog m' \<le> backlog ?m" by (rule closer_backlog(1) [OF s(2) i(3)])
  moreover have "settle_all w (\<lambda>_ m. m) (d # ds) m = (True, m')" using res(1) s(1) i(1) by simp
  ultimately show ?case using i(2) closer_trans [OF c i(3)] b by (intro exI [of _ m']) simp
qed simp

text \<open>The first moment every unsettled delivery is due.\<close>

definition due_time :: "outbox \<Rightarrow> gotime" where
  "due_time m = foldr (\<lambda>i t. case wh_deliveries m i of None \<Rightarrow> t | Some d \<Rightarrow> max t (max (dl_NextAttemptAt d) (dl_LeasedUntil d))) (wh_order m) 0"

lemma foldr_due:
  "0 \<le> foldr (\<lambda>i t. case m i of None \<Rightarrow> t | Some d \<Rightarrow> max t (max (dl_NextAttemptAt d) (dl_LeasedUntil d))) is 0 \<and>
   (i \<in> set is \<longrightarrow> m i = Some d \<longrightarrow> max (dl_NextAttemptAt d) (dl_LeasedUntil d) \<le>
      foldr (\<lambda>i t. case m i of None \<Rightarrow> t | Some d \<Rightarrow> max t (max (dl_NextAttemptAt d) (dl_LeasedUntil d))) is 0)"
  by (induction "is") (auto split: option.splits)

lemma due_time_nonneg: "0 \<le> due_time m"
  unfolding due_time_def by (rule conjunct1 [OF foldr_due])

lemma due_time_late:
  assumes "outbox_ok m" "wh_deliveries m i = Some d" "\<not> TerminalDeliveryStatus (dl_Status d)" "due_time m \<le> t"
  shows "leasable t d"
proof -
  have "i \<in> set (wh_order m)" using outbox_okD(2) [OF assms(1)] assms(2) by simp
  then have "dl_NextAttemptAt d \<le> t" "dl_LeasedUntil d \<le> t"
    using foldr_due [of "wh_deliveries m" "wh_order m" i d] assms(2,4) by (auto simp: due_time_def)
  moreover have "dl_Status d = WhLeased \<Longrightarrow> dl_LeasedUntil d \<noteq> 0"
    using outbox_okD(4) [OF assms(1,2)] by (simp add: delivery_ok_def)
  ultimately show ?thesis using assms(3)
    by (cases "dl_Status d") (auto simp: leasable_def TerminalDeliveryStatus_def IsZero_def)
qed

fun polls :: "(string \<Rightarrow> string) \<Rightarrow> delivery_worker \<Rightarrow> string \<Rightarrow> int list \<Rightarrow> outbox \<Rightarrow> outbox" where
  "polls whash w stamp [] m = m"
| "polls whash w stamp (late # lates) m =
     polls whash w stamp lates (snd (snd (delivery_RunOnce whash w (\<lambda>_ m. m) stamp (due_time m + max 0 late) m)))"

lemma lease_effect_closer: "closer m (lease_effect whash worker n untl stamp now m)"
proof -
  have "rel_option nearer (wh_deliveries m i) (wh_deliveries (lease_effect whash worker n untl stamp now m) i)" for i
  proof (cases "wh_deliveries m i")
    case (Some d)
    have "nearer d (lease_granted whash worker untl stamp now d)" if "leasable now d"
      using that by (auto simp: nearer_def attempts_left_def leasable_def TerminalDeliveryStatus_def)
    then show ?thesis using due_ids_stored [of i now n "wh_order m" m] Some by (auto simp: lease_effect_at)
  qed (simp add: lease_effect_def)
  then show ?thesis by (simp add: closer_def lease_effect_def)
qed

definition batch :: "(string \<Rightarrow> string) \<Rightarrow> string \<Rightarrow> nat \<Rightarrow> gotime \<Rightarrow> string \<Rightarrow> gotime \<Rightarrow> outbox \<Rightarrow> delivery list" where
  "batch whash worker n u stamp now m = map (\<lambda>i. lease_granted whash worker u stamp now (the (wh_deliveries m i))) (due_ids now n (wh_order m) m)"

lemma batch_ok:
  assumes ok: "outbox_ok m"
  shows "map dl_ID (batch whash worker n u stamp now m) = due_ids now n (wh_order m) m"
    "distinct (map dl_ID (batch whash worker n u stamp now m))"
    "d \<in> set (batch whash worker n u stamp now m) \<Longrightarrow>
       wh_deliveries (lease_effect whash worker n u stamp now m) (dl_ID d) = Some d \<and> \<not> TerminalDeliveryStatus (dl_Status d)"
proof -
  have id: "dl_ID (the (wh_deliveries m i)) = i" if "i \<in> set (due_ids now n (wh_order m) m)" for i
    using due_ids_stored [OF that] outbox_okD(3) [OF ok] by auto
  then show ids: "map dl_ID (batch whash worker n u stamp now m) = due_ids now n (wh_order m) m"
    by (simp add: batch_def comp_def map_idI)
  show "distinct (map dl_ID (batch whash worker n u stamp now m))"
    unfolding ids using outbox_okD(1) [OF ok] by (simp add: due_ids_def)
  assume "d \<in> set (batch whash worker n u stamp now m)"
  then obtain i where i: "i \<in> set (due_ids now n (wh_order m) m)" "d = lease_granted whash worker u stamp now (the (wh_deliveries m i))"
    by (auto simp: batch_def)
  obtain c where c: "wh_deliveries m i = Some c" using due_ids_stored [OF i(1)] by blast
  have "dl_ID d = i" using i id by simp
  then show "wh_deliveries (lease_effect whash worker n u stamp now m) (dl_ID d) = Some d \<and> \<not> TerminalDeliveryStatus (dl_Status d)"
    using i c lease_effect_at [OF c, of whash worker n u stamp now] by (simp add: TerminalDeliveryStatus_def)
qed

lemma batch_nonempty:
  assumes ok: "outbox_ok m" and d: "wh_deliveries m i = Some d" "\<not> TerminalDeliveryStatus (dl_Status d)" and t: "due_time m \<le> now" and n: "0 < n"
  shows "batch whash worker n u stamp now m \<noteq> []"
proof -
  let ?p = "\<lambda>i. pred_option (leasable now) (wh_deliveries m i) \<and> wh_deliveries m i \<noteq> None"
  have "i \<in> set (filter ?p (wh_order m))"
    using due_time_late [OF ok d t] d(1) outbox_okD(2) [OF ok, of i] by simp
  then have "filter ?p (wh_order m) \<noteq> []" by (metis empty_iff list.set(1))
  then show ?thesis using n by (simp add: batch_def due_ids_def)
qed

text \<open>A poll: the batch is leased, then settled one by one.\<close>

lemma poll_exact:
  assumes ok: "outbox_ok m"
  obtains worker n u where "0 < n" "now < u"
    "delivery_RunOnce whash w between stamp now m =
       (if batch whash worker n u stamp now m = [] then (False, True, lease_effect whash worker n u stamp now m)
        else (True, settle_all w between (batch whash worker n u stamp now m) (lease_effect whash worker n u stamp now m)))"
proof -
  define worker where "worker = FirstNonEmpty [wk_ID w, ''gateway-webhook-worker'']"
  define b where "b = (if wk_BatchSize w \<le> 0 then 10 else wk_BatchSize w)"
  define l where "l = (if wk_LeaseFor w \<le> 0 then 30 * second else wk_LeaseFor w)"
  have "trim_space ''gateway-webhook-worker'' \<noteq> []" by code_simp
  then have wk: "trim_space worker \<noteq> []" by (simp add: worker_def)
  have pos: "0 < b" "0 < l" by (simp_all add: b_def l_def)
  have "delivery_RunOnce whash w between stamp now m =
       (if batch whash worker (nat b) (now + l) stamp now m = [] then (False, True, lease_effect whash worker (nat b) (now + l) stamp now m)
        else (True, settle_all w between (batch whash worker (nat b) (now + l) stamp now m) (lease_effect whash worker (nat b) (now + l) stamp now m)))"
    unfolding delivery_RunOnce_def worker_def [symmetric] b_def [symmetric] l_def [symmetric] LeaseDue_plain [OF ok wk pos] batch_def [symmetric]
    by (simp split: prod.split)
  then show thesis using that [of "nat b" "now + l" worker] pos by simp
qed

lemma poll_effect:
  assumes ok: "outbox_ok m" and w: "answers w" and t: "due_time m \<le> now"
    and e: "delivery_RunOnce whash w (\<lambda>_ m. m) stamp now m = (p, r, m')"
  shows "outbox_ok m' \<and> closer m m' \<and>
    ((\<exists>i d. wh_deliveries m i = Some d \<and> \<not> TerminalDeliveryStatus (dl_Status d)) \<longrightarrow> backlog m' < backlog m)"
proof -
  obtain worker n u where x: "0 < n" "now < u"
    "delivery_RunOnce whash w (\<lambda>_ m. m) stamp now m =
       (if batch whash worker n u stamp now m = [] then (False, True, lease_effect whash worker n u stamp now m)
        else (True, settle_all w (\<lambda>_ m. m) (batch whash worker n u stamp now m) (lease_effect whash worker n u stamp now m)))"
    by (rule poll_exact [OF ok])
  define m1 where "m1 = lease_effect whash worker n u stamp now m"
  define ds where "ds = batch whash worker n u stamp now m"
  have "0 \<le> due_time m" by (rule due_time_nonneg)
  then have "0 < u" using t x(2) by linarith
  then have ok1: "outbox_ok m1" unfolding m1_def by (rule lease_effect_ok [OF ok])
  have c1: "closer m m1" unfolding m1_def by (rule lease_effect_closer)
  have good: "distinct (map dl_ID ds)" "\<And>d. d \<in> set ds \<Longrightarrow> wh_deliveries m1 (dl_ID d) = Some d \<and> \<not> TerminalDeliveryStatus (dl_Status d)"
    using batch_ok(2,3) [OF ok] by (simp_all add: ds_def m1_def)
  from settle_all_effect [OF w ok1 good] obtain m2 where
    s: "settle_all w (\<lambda>_ m. m) ds m1 = (True, m2)" "outbox_ok m2" "closer m1 m2" "ds \<noteq> [] \<longrightarrow> backlog m2 < backlog m1" by blast
  have m': "m' = (if ds = [] then m1 else m2)" using e s(1) x(3) unfolding ds_def [symmetric] m1_def [symmetric] by (simp split: if_splits)
  have b1: "backlog m1 \<le> backlog m" by (rule closer_backlog(1) [OF ok c1])
  have "ds \<noteq> []" if "wh_deliveries m i = Some d" "\<not> TerminalDeliveryStatus (dl_Status d)" for i d
    unfolding ds_def by (rule batch_nonempty [OF ok that t x(1)])
  then show ?thesis using m' ok1 s(2-4) c1 closer_trans [OF c1 s(3)] b1 by auto
qed

lemma attempts_left_zero: "attempts_left d = 0 \<longleftrightarrow> TerminalDeliveryStatus (dl_Status d)"
  by (simp add: attempts_left_def)

lemma polls_settle:
  assumes "outbox_ok m" "answers w" "backlog m \<le> length lates"
  shows "outbox_ok (polls whash w stamp lates m) \<and> closer m (polls whash w stamp lates m) \<and> backlog (polls whash w stamp lates m) = 0"
  using assms(1,3)
proof (induction lates arbitrary: m)
  case (Cons late lates)
  let ?m = "snd (snd (delivery_RunOnce whash w (\<lambda>_ m. m) stamp (due_time m + max 0 late) m))"
  obtain p r where e: "delivery_RunOnce whash w (\<lambda>_ m. m) stamp (due_time m + max 0 late) m = (p, r, ?m)"
    by (metis prod.collapse)
  have one: "outbox_ok ?m" "closer m ?m"
      "(\<exists>i d. wh_deliveries m i = Some d \<and> \<not> TerminalDeliveryStatus (dl_Status d)) \<longrightarrow> backlog ?m < backlog m"
    using poll_effect [OF Cons.prems(1) assms(2) _ e] by simp_all
  have "backlog ?m \<le> length lates"
  proof (cases "\<exists>i d. wh_deliveries m i = Some d \<and> \<not> TerminalDeliveryStatus (dl_Status d)")
    case True
    then show ?thesis using one(3) Cons.prems(2) by simp
  next
    case False
    have "attempts_left (the (wh_deliveries m i)) = 0" if "i \<in> set (wh_order m)" for i
      using False outbox_okD(2) [OF Cons.prems(1), of i] that by (auto simp: attempts_left_zero)
    then have "backlog m = 0" by (auto simp: backlog_def sum_list_eq_0_iff)
    then show ?thesis using closer_backlog(1) [OF Cons.prems(1) one(2)] by simp
  qed
  from Cons.IH [OF one(1) this] show ?case using closer_trans [OF one(2)] by auto
qed simp

text \<open>
  A call the breaker refused is recorded as an attempt although nothing was sent: after
  \<open>MaxAttempts - 1\<close> of them the first real failure dead-letters the callback.
\<close>

lemma refused_call_uses_an_attempt:
  assumes "wh_deliveries m (dl_ID d) = Some d" "ar_ErrorClass res = ''circuit_open''"
  shows "map_option dl_AttemptCount (wh_deliveries (snd (settle_delivery w d res m)) (dl_ID d)) = Some (dl_AttemptCount d + 1)"
  using assms by (simp add: settle_delivery_def MarkRetry_def wh_mark_def marked_def)

lemma last_attempt_dead_letters:
  assumes "wh_deliveries m (dl_ID d) = Some d" "normalizeMaxAttempts (dl_MaxAttempts d) \<le> dl_AttemptCount d + 1"
    and "ar_ErrorClass res \<notin> {''none'', ''circuit_open''}"
  shows "map_option dl_Status (wh_deliveries (snd (settle_delivery w d res m)) (dl_ID d)) = Some WhDeadLettered"
  using assms by (simp add: settle_delivery_def MarkDeadLetter_def wh_mark_def marked_def)

subsection \<open>The promises\<close>

definition example_request :: "string \<Rightarrow> enqueue_request" where
  "example_request key =
     \<lparr>eq_TenantID = ''t'', eq_AppID = ''a'', eq_JobID = ''j'', eq_EventName = ''job.completed'', eq_EndpointID = ''e'', eq_EndpointKind = ''job_callback'',
      eq_URL = ''https://cb.example/'', eq_SecretID = ''s'', eq_DedupeKey = key, eq_Payload = ''{}'', eq_TraceID = [],
      eq_MaxAttempts = 3, eq_NextAttemptAt = 5, eq_ReplayOf = []\<rparr>"

text \<open>C20. The delivery worker settles everything. Leave one worker alone with an outbox that any history
  has led to, of tenants and applications whose ids have no blanks and with delivery ids that do not collide,
  its sender answering every delivery somehow (delivered, refused, failed, timed out; only not with
  an open breaker, which postpones), and let it poll whenever it likes but not before the next retry or lease is
  due. After as many polls as there are attempts left, every delivery is delivered or dead-lettered: none is lost,
  none changed, and none has been sent more often than its maximum, or once more if it had none left.\<close>

theorem delivery_worker_settles_everything:
  assumes "collision_free whash U" and "list_all (wh_op_ok U) ops" and "answers w"
    and "m = wh_run whash ops (NewOutbox\<lparr>wh_maxEntries := cap\<rparr>)"
    and "backlog m \<le> length lates"
  shows "rel_option (\<lambda>d d'. callback_of d' = callback_of d \<and> TerminalDeliveryStatus (dl_Status d') \<and>
      (dl_AttemptCount d' \<le> max (dl_AttemptCount d + 1) (normalizeMaxAttempts (dl_MaxAttempts d))))
    (wh_deliveries m i) (wh_deliveries (polls whash w stamp lates m) i)"
proof -
  have ok: "outbox_ok m" using wh_run_inv [OF outbox_inv_new assms(1,2)] assms(4) by (simp add: outbox_inv_def)
  from polls_settle [OF ok assms(3,5)] have p: "outbox_ok (polls whash w stamp lates m)" "closer m (polls whash w stamp lates m)"
    "backlog (polls whash w stamp lates m) = 0" by simp_all
  have "callback_of d' = callback_of d \<and> TerminalDeliveryStatus (dl_Status d') \<and>
      (dl_AttemptCount d' \<le> max (dl_AttemptCount d + 1) (normalizeMaxAttempts (dl_MaxAttempts d)))"
    if n: "nearer d d'" and d': "wh_deliveries (polls whash w stamp lates m) i = Some d'" for d d'
  proof -
    have "i \<in> set (wh_order (polls whash w stamp lates m))" using outbox_okD(2) [OF p(1)] d' by simp
    then have "attempts_left d' = 0" using p(3) d' by (auto simp: backlog_def sum_list_eq_0_iff)
    moreover have "dl_AttemptCount d + int (attempts_left d) \<le> max (dl_AttemptCount d + 1) (normalizeMaxAttempts (dl_MaxAttempts d))"
      by (auto simp: attempts_left_def max_def)
    ultimately show ?thesis using n by (simp add: nearer_def attempts_left_zero)
  qed
  moreover have "rel_option nearer (wh_deliveries m i) (wh_deliveries (polls whash w stamp lates m) i)"
    using p(2) by (simp add: closer_def)
  ultimately show ?thesis by (cases "wh_deliveries m i") (auto simp: option_rel_Some1)
qed

definition example_worker :: delivery_worker where
  "example_worker =
     \<lparr>wk_ID = ''w'', wk_LeaseFor = 0, wk_BatchSize = 1, wk_Policy = \<lparr>wr_BaseDelay = 0, wr_MaxDelay = 0, wr_JitterRatio = 0\<rparr>,
      wk_send = (\<lambda>d. Some (wh_result 503 ''http_5xx'' [] True)), wk_cooldown = (\<lambda>_. 0), wk_time = (\<lambda>_. 7), wk_clock = (\<lambda>_. 7)\<rparr>"

lemma delivery_worker_settles_everything_witness:
  "map_option (\<lambda>d. TerminalDeliveryStatus (dl_Status d))
     (wh_deliveries (polls id example_worker ''1'' [0, 4, 0] (wh_run id [WEnqueue 5 (example_request ''k'')] (NewOutbox\<lparr>wh_maxEntries := 1\<rparr>))) ''whd_[t a k]'') = Some True"
proof -
  let ?ops = "[WEnqueue 5 (example_request ''k'')]" and ?m = "NewOutbox\<lparr>wh_maxEntries := 1\<rparr>" and ?i = "''whd_[t a k]''"
  have ok: "list_all (wh_op_ok {''[t a k]''}) ?ops"
    by (simp add: example_request_def blank_free_def identity_def)
  have c: "collision_free id {''[t a k]''}" by (simp add: collision_free_def)
  have a: "answers example_worker" by (simp add: answers_def example_worker_def wh_result_def)
  have b: "backlog (wh_run id ?ops ?m) \<le> length [0, 4, 0 :: int]" by code_simp
  have "wh_deliveries (wh_run id ?ops ?m) ?i \<noteq> None" by code_simp
  with delivery_worker_settles_everything [OF c ok a refl b, of ?i "''1''"] show ?thesis by (auto simp: option_rel_Some1)
qed

end
