(* ===== verification/OutboxProps.thy ===== *)
theory OutboxProps
  imports WebhooksProps
begin

text \<open>
  A callback stays in the outbox until it is settled: over every history, with no assumption on the ids or on
  the hash. The one way to lose an unsettled callback is stated in the conclusion: a request of another
  scope whose delivery id is the same.
\<close>

subsection \<open>What every operation keeps\<close>

text \<open>The dedupe key of a stored delivery leads to it, also after ids have collided.\<close>

definition keyed :: "outbox \<Rightarrow> bool" where
  "keyed m = (\<forall>i d. wh_deliveries m i = Some d \<longrightarrow> wh_dedupe m (scope_of d) = Some i)"

text \<open>The same callback later, with no fewer attempts.\<close>

definition later_delivery :: "delivery \<Rightarrow> delivery \<Rightarrow> bool" where
  "later_delivery d d' = (callback_of d' = callback_of d \<and> dl_AttemptCount d \<le> dl_AttemptCount d')"

lemma later_delivery_refl [simp]: "later_delivery d d"
  by (simp add: later_delivery_def)

lemma later_delivery_trans: "later_delivery a b \<Longrightarrow> later_delivery b c \<Longrightarrow> later_delivery a c"
  by (simp add: later_delivery_def)

lemma later_delivery_ops [simp]:
  "later_delivery d (leased_as lid untl now d)" "later_delivery d (marked st nxt res now d)"
  by (simp_all add: later_delivery_def) (simp_all add: leased_as_def marked_def)

lemma later_delivery_scope: "later_delivery d d' \<Longrightarrow> scope_of d' = scope_of d"
  using callback_of_eqD [of d' d] by (simp add: later_delivery_def)

text \<open>Leases and results only advance stored deliveries.\<close>

definition advances :: "outbox \<Rightarrow> outbox \<Rightarrow> bool" where
  "advances m m' = (wh_dedupe m' = wh_dedupe m \<and> (\<forall>i. rel_option later_delivery (wh_deliveries m i) (wh_deliveries m' i)))"

lemma advances_refl [simp]: "advances m m"
  by (simp add: advances_def option.rel_refl)

lemma advances_trans: "advances a b \<Longrightarrow> advances b c \<Longrightarrow> advances a c"
  unfolding advances_def by (metis (mono_tags, lifting) later_delivery_trans option.rel_transp transpD transpI)

lemma advances_put:
  "wh_deliveries m i = Some d \<Longrightarrow> later_delivery d d' \<Longrightarrow> advances m (m\<lparr>wh_deliveries := (wh_deliveries m)(i \<mapsto> d')\<rparr>)"
  by (auto simp: advances_def option.rel_refl)

lemma advances_at:
  "advances m m' \<Longrightarrow> wh_deliveries m i = Some d \<Longrightarrow> \<exists>d'. wh_deliveries m' i = Some d' \<and> later_delivery d d'"
  unfolding advances_def by (metis option.rel_cases option.inject option.distinct(1))

lemma advances_keyed:
  assumes "advances m m'" and "keyed m"
  shows "keyed m'"
  unfolding keyed_def
proof (intro allI impI)
  fix i d' assume d': "wh_deliveries m' i = Some d'"
  have "rel_option later_delivery (wh_deliveries m i) (Some d')" using assms(1) d' by (metis advances_def)
  then obtain d where d: "wh_deliveries m i = Some d" "later_delivery d d'" by (auto simp: option_rel_Some2)
  then show "wh_dedupe m' (scope_of d') = Some i"
    using assms later_delivery_scope [OF d(2)] by (simp add: advances_def keyed_def)
qed

lemma lease_due_advances: "lease_due whash worker limit untl stamp now is m = (ds, m') \<Longrightarrow> advances m m'"
proof (induction "is" arbitrary: limit m ds m')
  case (Cons i "is")
  show ?case
  proof (cases "limit = 0 \<or> wh_deliveries m i = None \<or> \<not> pred_option (leasable now) (wh_deliveries m i)")
    case True
    then show ?thesis using Cons by (auto split: if_splits option.splits)
  next
    case False
    then obtain d where d: "wh_deliveries m i = Some d" "leasable now d" "limit \<noteq> 0" by auto
    let ?m = "m\<lparr>wh_deliveries := (wh_deliveries m)(i \<mapsto> leased_as (StableID whash ''whlease'' [worker, i, stamp]) untl now d)\<rparr>"
    obtain es m1 where r: "lease_due whash worker (limit - 1) untl stamp now is ?m = (es, m1)" by fastforce
    have "m' = m1" using Cons.prems d r by (simp add: Let_def)
    then show ?thesis using advances_trans [OF advances_put [OF d(1)] Cons.IH [OF r]] by simp
  qed
qed simp

lemma LeaseDue_advances: "advances m (snd (wh_LeaseDue whash worker limit leaseFor stamp now m))"
  by (auto simp: wh_LeaseDue_def split: prod.splits dest: lease_due_advances)

lemma mark_advances: "advances m (snd (wh_mark i lid st nxt res now m))"
  by (auto simp: wh_mark_def advances_put split: option.splits)

lemma keyed_inj:
  "keyed m \<Longrightarrow> wh_deliveries m i = Some c \<Longrightarrow> wh_deliveries m j = Some d \<Longrightarrow> scope_of c = scope_of d \<Longrightarrow> i = j"
  by (metis keyed_def option.inject)

lemma evict_one_keyed:
  assumes "keyed m"
  shows "keyed (evict_one i m)" "wh_deliveries (evict_one i m) = (wh_deliveries m)(i := None)"
proof -
  show "keyed (evict_one i m)"
    using assms keyed_inj [OF assms] unfolding keyed_def evict_one_def Let_def
    by (fastforce simp: scope_of_def split: option.splits if_splits)
  show "wh_deliveries (evict_one i m) = (wh_deliveries m)(i := None)"
    by (auto simp: evict_one_def Let_def split: option.splits)
qed

lemma evict_keyed:
  assumes "keyed m"
  shows "keyed (evictLocked m) \<and> (\<forall>i. wh_deliveries (evictLocked m) i = wh_deliveries m i \<or> evictable m i \<and> wh_deliveries (evictLocked m) i = None)"
  using assms
proof (induction m rule: evictLocked.induct)
  case (1 m)
  show ?case
  proof (cases "wh_maxEntries m \<le> 0 \<or> int (wh_len m) \<le> wh_maxEntries m \<or> find (evictable m) (wh_order m) = None")
    case True
    then show ?thesis using 1(2) by (auto simp: evictLocked.simps [of m])
  next
    case False
    then obtain i where i: "find (evictable m) (wh_order m) = Some i" by auto
    then have e: "evictable m i" by (auto simp: find_Some_iff)
    have step: "evictLocked m = evictLocked (evict_one i m)" using False i by (simp add: evictLocked.simps [of m])
    note one = evict_one_keyed [OF 1(2), of i]
    have "evictable (evict_one i m) j \<longleftrightarrow> evictable m j \<and> j \<noteq> i" for j by (simp add: evictable_def one(2))
    then show ?thesis unfolding step using 1(1) [OF _ i one(1)] False one(2) e by (auto split: if_splits)
  qed
qed

subsection \<open>One step\<close>

text \<open>The request that an operation enqueues, if it is one.\<close>

fun enqueued_by :: "wh_op \<Rightarrow> outbox \<Rightarrow> enqueue_request option" where
  "enqueued_by (WEnqueue now r) m = Some r"
| "enqueued_by (WReplay clock tenant app i idem now) m = map_option (\<lambda>d. replay_request d idem now) (wh_Get tenant app i m)"
| "enqueued_by x m = None"

text \<open>A request that gets the delivery id of a stored delivery of another tenant, application or key.\<close>

definition collides :: "(string \<Rightarrow> string) \<Rightarrow> enqueue_request \<Rightarrow> delivery \<Rightarrow> bool" where
  "collides whash r d =
     (dedupeScope (eq_TenantID r) (eq_AppID r) (eq_DedupeKey r) \<noteq> scope_of d \<and>
      StableID whash ''whd'' [eq_TenantID r, eq_AppID r, eq_DedupeKey r] = dl_ID d)"

definition survives :: "(string \<Rightarrow> string) \<Rightarrow> enqueue_request option \<Rightarrow> outbox \<Rightarrow> outbox \<Rightarrow> bool" where
  "survives whash req m m' =
     (\<forall>i d. wh_deliveries m i = Some d \<longrightarrow> dl_ID d = i \<longrightarrow>
        TerminalDeliveryStatus (dl_Status d) \<or> (\<exists>d'. wh_deliveries m' i = Some d' \<and> later_delivery d d') \<or>
        (\<exists>r. req = Some r \<and> collides whash r d))"

lemma advances_survives: "advances m m' \<Longrightarrow> survives whash req m m'"
  using advances_at by (fastforce simp: survives_def)

lemma Enqueue_survives:
  assumes k: "keyed m"
  shows "keyed (snd (wh_Enqueue whash now r m)) \<and> survives whash (Some r) m (snd (wh_Enqueue whash now r m))"
proof (cases "validateEnqueue r \<and> wh_dedupe m (dedupeScope (eq_TenantID r) (eq_AppID r) (eq_DedupeKey r)) = None")
  case False
  then have "snd (wh_Enqueue whash now r m) = m" by (auto simp: wh_Enqueue_def Let_def split: option.splits)
  then show ?thesis using k by (simp add: advances_survives)
next
  case True
  let ?k = "dedupeScope (eq_TenantID r) (eq_AppID r) (eq_DedupeKey r)"
  define d where "d = new_delivery whash now r"
  define m1 where "m1 = m\<lparr>wh_deliveries := (wh_deliveries m)(dl_ID d \<mapsto> d), wh_dedupe := (wh_dedupe m)(?k \<mapsto> dl_ID d), wh_order := wh_order m @ [dl_ID d]\<rparr>"
  have m': "snd (wh_Enqueue whash now r m) = evictLocked m1" using True by (simp add: wh_Enqueue_def Let_def d_def m1_def)
  have s: "scope_of d = ?k" "dl_ID d = StableID whash ''whd'' [eq_TenantID r, eq_AppID r, eq_DedupeKey r]"
    by (simp_all add: d_def new_delivery_def scope_of_def)
  have other: "scope_of c \<noteq> ?k" if "wh_deliveries m i = Some c" for i c using k True that unfolding keyed_def by (metis option.distinct(1))
  then have "keyed m1" using k s by (auto simp: keyed_def m1_def)
  note ev = evict_keyed [OF this]
  have "survives whash (Some r) m (evictLocked m1)"
    unfolding survives_def
  proof (intro allI impI)
    fix i c assume c: "wh_deliveries m i = Some c" "dl_ID c = i"
    show "TerminalDeliveryStatus (dl_Status c) \<or> (\<exists>d'. wh_deliveries (evictLocked m1) i = Some d' \<and> later_delivery c d') \<or>
        (\<exists>r'. Some r = Some r' \<and> collides whash r' c)"
    proof (cases "i = dl_ID d")
      case True
      then show ?thesis using c(2) s(2) other [OF c(1)] by (auto simp: collides_def)
    next
      case False
      then have "wh_deliveries m1 i = Some c" using c(1) by (simp add: m1_def)
      moreover have "wh_deliveries (evictLocked m1) i = wh_deliveries m1 i \<or> evictable m1 i" using ev by blast
      ultimately show ?thesis using later_delivery_refl [of c] by (auto simp: evictable_def)
    qed
  qed
  then show ?thesis using ev m' by simp
qed

lemma step_survives:
  assumes "keyed m"
  shows "keyed (wh_step whash x m) \<and> survives whash (enqueued_by x m) m (wh_step whash x m)"
proof (cases x)
  case (WReplay clock tenant app i idem now)
  then show ?thesis using Enqueue_survives [OF assms] assms
    by (cases "wh_Get tenant app i m") (simp_all add: wh_Replay_def advances_survives)
next
  case (WLease worker limit leaseFor stamp now)
  then show ?thesis using LeaseDue_advances advances_keyed [OF _ assms] by (simp add: advances_survives)
qed (use Enqueue_survives [OF assms] mark_advances advances_keyed [OF _ assms] in
     \<open>simp_all add: advances_survives MarkDelivered_def MarkRetry_def MarkDeadLetter_def\<close>)

subsection \<open>Every history\<close>

interpretation keyed_machine: guarded_machine "wh_step whash" "\<lambda>_. True" keyed "\<lambda>_ _. True"
  for whash
  by unfold_locales (simp_all add: step_survives)

lemma run_keyed: "keyed (wh_run whash ops (NewOutbox\<lparr>wh_maxEntries := cap\<rparr>))"
proof -
  have "keyed (NewOutbox\<lparr>wh_maxEntries := cap\<rparr>)" by (simp add: keyed_def NewOutbox_def)
  then show ?thesis using keyed_machine.guarded_run [of _ ops whash] by (simp add: wh_run_def list_all_iff)
qed

definition settled_or_overwritten :: "(string \<Rightarrow> string) \<Rightarrow> delivery \<Rightarrow> wh_op list \<Rightarrow> outbox \<Rightarrow> bool" where
  "settled_or_overwritten whash d ops m =
     (\<exists>mid d'. prefix mid ops \<and> wh_deliveries (wh_run whash mid m) (dl_ID d) = Some d' \<and> later_delivery d d' \<and>
        (TerminalDeliveryStatus (dl_Status d') \<or>
         (\<exists>x rest r. ops = mid @ x # rest \<and> enqueued_by x (wh_run whash mid m) = Some r \<and> collides whash r d)))"

lemma kept_unless:
  assumes "keyed m" "wh_deliveries m (dl_ID d) = Some d"
  shows "(\<exists>d'. wh_deliveries (wh_run whash ops m) (dl_ID d) = Some d' \<and> later_delivery d d') \<or> settled_or_overwritten whash d ops m"
  using assms
proof (induction ops arbitrary: m d)
  case (Cons x ops)
  have one: "keyed (wh_step whash x m)" "survives whash (enqueued_by x m) m (wh_step whash x m)"
    using step_survives [OF Cons.prems(1)] by simp_all
  from one(2) Cons.prems(2) consider "TerminalDeliveryStatus (dl_Status d) \<or> (\<exists>r. enqueued_by x m = Some r \<and> collides whash r d)"
    | d1 where "wh_deliveries (wh_step whash x m) (dl_ID d) = Some d1" "later_delivery d d1"
    unfolding survives_def by blast
  then show ?case
  proof cases
    case 1
    then show ?thesis unfolding settled_or_overwritten_def using Cons.prems(2) by (intro disjI2 exI [of _ "[]"] exI [of _ d]) auto
  next
    case 2
    have same: "dl_ID d1 = dl_ID d" "scope_of d1 = scope_of d"
      using callback_of_eqD [of d1 d] 2(2) by (simp_all add: later_delivery_def)
    have "wh_deliveries (wh_step whash x m) (dl_ID d1) = Some d1" using 2(1) same by simp
    from Cons.IH [OF one(1) this] show ?thesis
    proof
      assume "\<exists>d'. wh_deliveries (wh_run whash ops (wh_step whash x m)) (dl_ID d1) = Some d' \<and> later_delivery d1 d'"
      then show ?thesis using 2(2) same later_delivery_trans by auto
    next
      assume "settled_or_overwritten whash d1 ops (wh_step whash x m)"
      then obtain mid d' where "prefix mid ops" "wh_deliveries (wh_run whash mid (wh_step whash x m)) (dl_ID d1) = Some d'" "later_delivery d1 d'"
        "TerminalDeliveryStatus (dl_Status d') \<or>
         (\<exists>y rest r. ops = mid @ y # rest \<and> enqueued_by y (wh_run whash mid (wh_step whash x m)) = Some r \<and> collides whash r d1)"
        unfolding settled_or_overwritten_def by blast
      then have "settled_or_overwritten whash d (x # ops) m"
        unfolding settled_or_overwritten_def using same later_delivery_trans [OF 2(2)]
        by (intro exI [of _ "x # mid"] exI [of _ d']) (auto simp: collides_def)
      then show ?thesis ..
    qed
  qed
qed auto

text \<open>
  Ids without blanks on which the truncated hash has no collision never meet that way; with blanks they do
  (\<open>identity_is_ambiguous\<close>).
\<close>

lemma identities_do_not_collide:
  assumes "collision_free whash U" "from_request whash U d"
    and "blank_free (eq_TenantID r)" "blank_free (eq_AppID r)" "identity (eq_TenantID r) (eq_AppID r) (eq_DedupeKey r) \<in> U"
  shows "\<not> collides whash r d"
proof
  assume c: "collides whash r d"
  then have "take 24 (whash (identity (eq_TenantID r) (eq_AppID r) (eq_DedupeKey r))) =
      take 24 (whash (identity (dl_TenantID d) (dl_AppID d) (dl_DedupeKey d)))"
    using assms(2) by (simp add: collides_def from_request_def StableID_def identity_def)
  then have "identity (eq_TenantID r) (eq_AppID r) (eq_DedupeKey r) = identity (dl_TenantID d) (dl_AppID d) (dl_DedupeKey d)"
    using assms(1,2,5) by (auto simp: from_request_def collision_free_def inj_on_def)
  from identity_inj [OF assms(3) _ assms(4) _ this] assms(2) c show False
    by (auto simp: collides_def from_request_def scope_of_def)
qed

text \<open>C19. A callback is kept until it is settled. Take any history of enqueues, replays, leases and results, from any
  number of workers, with expired leases and late or repeated results, for any ids, any hash and an outbox of any
  capacity. A delivery that is stored at some point of it is, after any further calls, still stored as the
  same callback (same tenant, URL, payload, identity) with no fewer attempts, with two exceptions: at some
  moment on the way, until which it was kept, it was delivered or dead-lettered (eviction drops only such
  deliveries), or a request of another tenant, application or key came that is given the same delivery
  id. The second happens when two scopes print alike, see \<open>identity_is_ambiguous\<close>, or when the truncated
  hash collides; \<open>identities_do_not_collide\<close> excludes it otherwise.\<close>

theorem callback_is_kept_until_settled:
  assumes "m = wh_run whash past (NewOutbox\<lparr>wh_maxEntries := cap\<rparr>)" and "wh_deliveries m (dl_ID d) = Some d"
  shows "(\<exists>d'. wh_deliveries (wh_run whash ops m) (dl_ID d) = Some d' \<and> callback_of d' = callback_of d \<and>
      dl_AttemptCount d \<le> dl_AttemptCount d') \<or>
    (\<exists>mid d'. prefix mid ops \<and> wh_deliveries (wh_run whash mid m) (dl_ID d) = Some d' \<and> callback_of d' = callback_of d \<and>
      dl_AttemptCount d \<le> dl_AttemptCount d' \<and>
      (TerminalDeliveryStatus (dl_Status d') \<or>
       (\<exists>x rest r. ops = mid @ x # rest \<and> enqueued_by x (wh_run whash mid m) = Some r \<and> collides whash r d)))"
proof -
  have "keyed m" unfolding assms(1) by (rule run_keyed)
  from kept_unless [OF this assms(2), of whash ops] show ?thesis
    unfolding settled_or_overwritten_def later_delivery_def by blast
qed

lemma callback_is_kept_until_settled_witness:
  "\<exists>d d'. wh_deliveries (wh_run id [WEnqueue 5 (example_request ''k''), WLease ''w'' 10 0 ''1'' 9] (NewOutbox\<lparr>wh_maxEntries := 1\<rparr>)) ''whd_[t a k]'' = Some d' \<and>
     callback_of d' = callback_of d \<and> dl_Status d = WhPending \<and> dl_Status d' = WhLeased"
proof -
  let ?i = "''whd_[t a k]''" and ?past = "[WEnqueue 5 (example_request ''k'')]" and ?m = "NewOutbox\<lparr>wh_maxEntries := 1\<rparr>"
    and ?ops = "[WLease ''w'' 10 0 ''1'' 9]"
  have "map_option (\<lambda>d. (dl_Status d, dl_ID d)) (wh_deliveries (wh_run id ?past ?m) ?i) = Some (WhPending, ?i)" by code_simp
  then obtain d where d: "wh_deliveries (wh_run id ?past ?m) (dl_ID d) = Some d" "dl_Status d = WhPending" "dl_ID d = ?i" by auto
  have e: "map_option dl_Status (wh_deliveries (wh_run id ?ops (wh_run id ?past ?m)) ?i) = Some WhLeased" by code_simp
  from callback_is_kept_until_settled [OF refl d(1), of ?ops] show ?thesis
    using d e by (auto simp: prefix_Cons TerminalDeliveryStatus_def)
qed

text \<open>
  The exception occurs: the second tenant's request replaces the pending delivery of the first.
\<close>

lemma other_tenant_overwrites:
  "(let m = wh_run id [WEnqueue 5 ((example_request ''k'')\<lparr>eq_TenantID := ''a b'', eq_AppID := ''c''\<rparr>)] (NewOutbox\<lparr>wh_maxEntries := 9\<rparr>);
        m' = wh_step id (WEnqueue 6 ((example_request ''k'')\<lparr>eq_TenantID := ''a'', eq_AppID := ''b c''\<rparr>)) m in
    map_option (\<lambda>d. (dl_TenantID d, dl_Status d)) (wh_deliveries m ''whd_[a b c k]'') = Some (''a b'', WhPending) \<and>
    map_option dl_TenantID (wh_deliveries m' ''whd_[a b c k]'') = Some ''a'')"
  by code_simp

end
