(* ===== verification/CallbackHostProps.thy ===== *)
theory CallbackHostProps
  imports Webhooks
begin

text \<open>
  Where a callback may connect to: the address classes of \<open>isPrivateOrLocalIP\<close> against the list of
  networks they stand for, and the dialer of the delivery client.
\<close>

subsection \<open>Networks\<close>

text \<open>An address as a number of 128 bits, an IPv4 address in its mapped form; a network as a base and a prefix length.\<close>

definition ip_value :: "nat list \<Rightarrow> nat" where
  "ip_value a = foldl (\<lambda>n b. 256 * n + b) 0 a"

definition as16 :: "ip \<Rightarrow> ip" where
  "as16 a = (if length a = 4 then replicate 10 0 @ [255, 255] @ a else a)"

definition valid_ip :: "ip \<Rightarrow> bool" where
  "valid_ip a = ((length a = 4 \<or> length a = 16) \<and> list_all (\<lambda>b. b < 256) a)"

definition in_network :: "ip \<Rightarrow> ip \<times> nat \<Rightarrow> bool" where
  "in_network a net = (ip_value (as16 a) div 2 ^ (128 - snd net) = ip_value (as16 (fst net)) div 2 ^ (128 - snd net))"

definition blocked_networks :: "(ip \<times> nat) list" where
  "blocked_networks =
     [([127, 0, 0, 0], 104), ([10, 0, 0, 0], 104), ([172, 16, 0, 0], 108), ([192, 168, 0, 0], 112), ([169, 254, 0, 0], 112),
      ([224, 0, 0, 0], 100), ([0, 0, 0, 0], 128), ([0, 0, 0, 0, 0, 0, 0, 0, 0, 0, 0, 0, 0, 0, 0, 1], 128), ([0, 0, 0, 0, 0, 0, 0, 0, 0, 0, 0, 0, 0, 0, 0, 0], 128),
      
      ([252, 0, 0, 0, 0, 0, 0, 0, 0, 0, 0, 0, 0, 0, 0, 0], 7), ([254, 128, 0, 0, 0, 0, 0, 0, 0, 0, 0, 0, 0, 0, 0, 0], 10), ([255, 0, 0, 0, 0, 0, 0, 0, 0, 0, 0, 0, 0, 0, 0, 0], 8)]"

lemma ip_value_append: "ip_value (xs @ ys) = ip_value xs * 256 ^ length ys + ip_value ys"
proof (induction ys rule: rev_induct)
  case (snoc y ys)
  have "ip_value (zs @ [y]) = 256 * ip_value zs + y" for zs by (simp add: ip_value_def)
  from this [of "xs @ ys"] this [of ys] show ?case using snoc by (simp add: algebra_simps)
qed (simp add: ip_value_def)

lemma ip_value_snoc [simp]: "ip_value [] = 0" "ip_value (xs @ [y]) = 256 * ip_value xs + y"
  by (simp_all add: ip_value_def)

lemma ip_value_bound: "list_all (\<lambda>b. b < 256) xs \<Longrightarrow> ip_value xs < 256 ^ length xs"
proof (induction xs rule: rev_induct)
  case (snoc x xs)
  then have "ip_value xs + 1 \<le> 256 ^ length xs" "x < 256" by simp_all
  then show ?case by simp
qed simp

lemma ip_value_inj:
  assumes "length xs = length ys" "list_all (\<lambda>b. b < 256) xs" "list_all (\<lambda>b. b < 256) ys"
  shows "ip_value xs = ip_value ys \<longleftrightarrow> xs = ys"
  using assms
proof (induction xs arbitrary: ys rule: rev_induct)
  case (snoc x xs)
  then obtain zs z where z: "ys = zs @ [z]" by (cases ys rule: rev_cases) auto
  have "256 * n + x = 256 * k + z \<longleftrightarrow> n = k \<and> x = z" if "x < 256" "z < 256" for n k :: nat
  proof
    assume e: "256 * n + x = 256 * k + z"
    from arg_cong [OF e, of "\<lambda>v. v mod 256"] have "x = z" using that by simp
    with e show "n = k \<and> x = z" by simp
  qed simp
  moreover have "x < 256" "z < 256" using snoc.prems(2,3) z by simp_all
  ultimately have "256 * n + x = 256 * k + z \<longleftrightarrow> n = k \<and> x = z" for n k by blast
  then show ?case using snoc z by simp
qed simp

lemma split_at: "k < length x \<Longrightarrow> x = take k x @ [x ! k] @ drop (Suc k) x"
  by (simp add: Cons_nth_drop_Suc)

text \<open>A prefix of \<open>8 * k + r\<close> bits is the first \<open>k\<close> bytes and \<open>r\<close> bits of the next.\<close>

lemma ip_value_prefix:
  assumes x: "length x = 16" "list_all (\<lambda>b. b < 256) x" and k: "k < 16" "r < 8"
  shows "ip_value x div 2 ^ (128 - (8 * k + r)) = 2 ^ r * ip_value (take k x) + x ! k div 2 ^ (8 - r)"
proof -
  have "x = (take k x @ [x ! k]) @ drop (Suc k) x" using split_at [of k x] x(1) k(1) by simp
  then have v: "ip_value x = (256 * ip_value (take k x) + x ! k) * 256 ^ (15 - k) + ip_value (drop (Suc k) x)"
    using ip_value_append [of "take k x @ [x ! k]" "drop (Suc k) x"] x(1) by simp
  have "list_all (\<lambda>b. b < 256) (drop (Suc k) x)" using x(2) by (auto simp: list_all_iff dest: in_set_dropD)
  from ip_value_bound [OF this] have "ip_value (drop (Suc k) x) < 256 ^ (15 - k)" using x(1) by simp
  then have d: "ip_value x div 256 ^ (15 - k) = 256 * ip_value (take k x) + x ! k" unfolding v by simp
  have "128 - (8 * k + r) = 8 * (15 - k) + (8 - r)" using k by simp
  then have "(2::nat) ^ (128 - (8 * k + r)) = 256 ^ (15 - k) * 2 ^ (8 - r)" by (simp add: power_add power_mult)
  then have "ip_value x div 2 ^ (128 - (8 * k + r)) = (256 * ip_value (take k x) + x ! k) div 2 ^ (8 - r)"
    using d by (simp add: div_mult2_eq)
  also have "(256::nat) = 2 ^ (8 - r) * 2 ^ r" using k(2) by (simp flip: power_add)
  then have "256 * ip_value (take k x) + x ! k = 2 ^ (8 - r) * (2 ^ r * ip_value (take k x)) + x ! k" by (simp only: mult.assoc)
  then have "(256 * ip_value (take k x) + x ! k) div 2 ^ (8 - r) = 2 ^ r * ip_value (take k x) + x ! k div 2 ^ (8 - r)"
    by (simp only: div_mult_self4 power_not_zero zero_neq_numeral [symmetric] not_False_eq_True)
  finally show ?thesis .
qed

lemma prefix_eq:
  assumes x: "length x = 16" "list_all (\<lambda>b. b < 256) x" and y: "length y = 16" "list_all (\<lambda>b. b < 256) y" and k: "k < 16" "r < 8"
  shows "ip_value x div 2 ^ (128 - (8 * k + r)) = ip_value y div 2 ^ (128 - (8 * k + r)) \<longleftrightarrow>
    take k x = take k y \<and> x ! k div 2 ^ (8 - r) = y ! k div 2 ^ (8 - r)"
proof -
  have small: "z ! k div 2 ^ (8 - r) < 2 ^ r" if "length z = 16" "list_all (\<lambda>b. b < 256) z" for z :: "nat list"
  proof -
    have "z ! k < 256" using that k(1) by (simp add: list_all_length)
    also have "(256::nat) = 2 ^ r * 2 ^ (8 - r)" using k(2) by (simp flip: power_add)
    finally show ?thesis by (simp add: less_mult_imp_div_less)
  qed
  have "2 ^ r * n + a = 2 ^ r * m + b \<longleftrightarrow> n = m \<and> a = b" if "a < 2 ^ r" "b < 2 ^ r" for n m a b :: nat
    using that by (metis add_left_cancel div_mult_self4 div_less power_not_zero zero_neq_numeral add.right_neutral)
  moreover have "ip_value (take k x) = ip_value (take k y) \<longleftrightarrow> take k x = take k y"
    by (rule ip_value_inj) (use x y in \<open>auto simp: list_all_iff dest: in_set_takeD\<close>)
  ultimately show ?thesis unfolding ip_value_prefix [OF x k] ip_value_prefix [OF y k] using small [OF x] small [OF y] by metis
qed

subsection \<open>The blocked classes\<close>

lemma as16_four [simp]: "as16 [w, x, y, z] = [0, 0, 0, 0, 0, 0, 0, 0, 0, 0, 255, 255, w, x, y, z]"
  by (simp add: as16_def numeral_eq_Suc)

lemma as16_sixteen: "length a = 16 \<Longrightarrow> as16 a = a"
  by (simp add: as16_def)

lemma four_or_sixteen:
  assumes "valid_ip a"
  obtains w x y z where "a = [w, x, y, z]" | "length a = 16"
proof (cases "length a = 4")
  case True
  then have "a = [a ! 0, a ! 1, a ! 2, a ! 3]" using map_nth [of a] by (simp add: upt_conv_Cons numeral_eq_Suc)
  then show thesis using that(1) by blast
next
  case False
  then show thesis using assms that(2) by (simp add: valid_ip_def)
qed

lemma as16_ok: "valid_ip a \<Longrightarrow> length (as16 a) = 16 \<and> list_all (\<lambda>b. b < 256) (as16 a)"
proof -
  assume v: "valid_ip a"
  then show ?thesis by (rule four_or_sixteen) (use v in \<open>simp_all add: valid_ip_def as16_sixteen\<close>)
qed

lemma in_network_prefix:
  assumes "valid_ip a" "valid_ip n" "k < 16" "r < 8"
  shows "in_network a (n, 8 * k + r) \<longleftrightarrow> take k (as16 a) = take k (as16 n) \<and> as16 a ! k div 2 ^ (8 - r) = as16 n ! k div 2 ^ (8 - r)"
  unfolding in_network_def fst_conv snd_conv using as16_ok [OF assms(1)] as16_ok [OF assms(2)] assms(3,4) by (intro prefix_eq) simp_all

lemma in_network_host:
  assumes "valid_ip a" "valid_ip n"
  shows "in_network a (n, 128) \<longleftrightarrow> as16 a = as16 n"
  unfolding in_network_def fst_conv snd_conv using as16_ok [OF assms(1)] as16_ok [OF assms(2)] ip_value_inj by simp

lemma sixteen:
  assumes "length a = 16"
  obtains b0 b1 b2 b3 b4 b5 b6 b7 b8 b9 b10 b11 b12 b13 b14 b15 where "a = [b0, b1, b2, b3, b4, b5, b6, b7, b8, b9, b10, b11, b12, b13, b14, b15]"
proof -
  have "[0..<16] = [0, 1, 2, 3, 4, 5, 6, 7, 8, 9, 10, 11, 12, 13, 14, 15 :: nat]" by (simp add: upt_rec)
  then have "a = map ((!) a) [0, 1, 2, 3, 4, 5, 6, 7, 8, 9, 10, 11, 12, 13, 14, 15]" using map_nth [of a] assms by simp
  then show thesis using that unfolding list.map by blast
qed

lemma network_bytes:
  assumes a: "valid_ip a" and b: "as16 a = [b0, b1, b2, b3, b4, b5, b6, b7, b8, b9, b10, b11, b12, b13, b14, b15]"
  shows "in_network a ([127, 0, 0, 0], 104) \<longleftrightarrow> (b0 = 0 \<and> b1 = 0 \<and> b2 = 0 \<and> b3 = 0 \<and> b4 = 0 \<and> b5 = 0 \<and> b6 = 0 \<and> b7 = 0 \<and> b8 = 0 \<and> b9 = 0 \<and> b10 = 255 \<and> b11 = 255) \<and> b12 = 127"
    "in_network a ([10, 0, 0, 0], 104) \<longleftrightarrow> (b0 = 0 \<and> b1 = 0 \<and> b2 = 0 \<and> b3 = 0 \<and> b4 = 0 \<and> b5 = 0 \<and> b6 = 0 \<and> b7 = 0 \<and> b8 = 0 \<and> b9 = 0 \<and> b10 = 255 \<and> b11 = 255) \<and> b12 = 10"
    "in_network a ([172, 16, 0, 0], 108) \<longleftrightarrow> (b0 = 0 \<and> b1 = 0 \<and> b2 = 0 \<and> b3 = 0 \<and> b4 = 0 \<and> b5 = 0 \<and> b6 = 0 \<and> b7 = 0 \<and> b8 = 0 \<and> b9 = 0 \<and> b10 = 255 \<and> b11 = 255) \<and> b12 = 172 \<and> b13 div 16 = 1"
    "in_network a ([192, 168, 0, 0], 112) \<longleftrightarrow> (b0 = 0 \<and> b1 = 0 \<and> b2 = 0 \<and> b3 = 0 \<and> b4 = 0 \<and> b5 = 0 \<and> b6 = 0 \<and> b7 = 0 \<and> b8 = 0 \<and> b9 = 0 \<and> b10 = 255 \<and> b11 = 255) \<and> b12 = 192 \<and> b13 = 168"
    "in_network a ([169, 254, 0, 0], 112) \<longleftrightarrow> (b0 = 0 \<and> b1 = 0 \<and> b2 = 0 \<and> b3 = 0 \<and> b4 = 0 \<and> b5 = 0 \<and> b6 = 0 \<and> b7 = 0 \<and> b8 = 0 \<and> b9 = 0 \<and> b10 = 255 \<and> b11 = 255) \<and> b12 = 169 \<and> b13 = 254"
    "in_network a ([224, 0, 0, 0], 100) \<longleftrightarrow> (b0 = 0 \<and> b1 = 0 \<and> b2 = 0 \<and> b3 = 0 \<and> b4 = 0 \<and> b5 = 0 \<and> b6 = 0 \<and> b7 = 0 \<and> b8 = 0 \<and> b9 = 0 \<and> b10 = 255 \<and> b11 = 255) \<and> b12 div 16 = 14"
    "in_network a ([252, 0, 0, 0, 0, 0, 0, 0, 0, 0, 0, 0, 0, 0, 0, 0], 7) \<longleftrightarrow> b0 div 2 = 126"
    "in_network a ([254, 128, 0, 0, 0, 0, 0, 0, 0, 0, 0, 0, 0, 0, 0, 0], 10) \<longleftrightarrow> b0 = 254 \<and> b1 div 64 = 2"
    "in_network a ([255, 0, 0, 0, 0, 0, 0, 0, 0, 0, 0, 0, 0, 0, 0, 0], 8) \<longleftrightarrow> b0 = 255"
    "in_network a ([0, 0, 0, 0], 128) \<longleftrightarrow> (b0 = 0 \<and> b1 = 0 \<and> b2 = 0 \<and> b3 = 0 \<and> b4 = 0 \<and> b5 = 0 \<and> b6 = 0 \<and> b7 = 0 \<and> b8 = 0 \<and> b9 = 0 \<and> b10 = 255 \<and> b11 = 255) \<and> b12 = 0 \<and> b13 = 0 \<and> b14 = 0 \<and> b15 = 0"
    "in_network a ([0, 0, 0, 0, 0, 0, 0, 0, 0, 0, 0, 0, 0, 0, 0, 1], 128) \<longleftrightarrow> b0 = 0 \<and> b1 = 0 \<and> b2 = 0 \<and> b3 = 0 \<and> b4 = 0 \<and> b5 = 0 \<and> b6 = 0 \<and> b7 = 0 \<and> b8 = 0 \<and> b9 = 0 \<and> b10 = 0 \<and> b11 = 0 \<and> b12 = 0 \<and> b13 = 0 \<and> b14 = 0 \<and> b15 = 1"
    "in_network a ([0, 0, 0, 0, 0, 0, 0, 0, 0, 0, 0, 0, 0, 0, 0, 0], 128) \<longleftrightarrow> b0 = 0 \<and> b1 = 0 \<and> b2 = 0 \<and> b3 = 0 \<and> b4 = 0 \<and> b5 = 0 \<and> b6 = 0 \<and> b7 = 0 \<and> b8 = 0 \<and> b9 = 0 \<and> b10 = 0 \<and> b11 = 0 \<and> b12 = 0 \<and> b13 = 0 \<and> b14 = 0 \<and> b15 = 0"
proof -
  have byte: "as16 a ! k div 256 = 0" if "k < 16" for k using as16_ok [OF a] that by (simp add: list_all_length)
  show "in_network a ([127, 0, 0, 0], 104) \<longleftrightarrow> (b0 = 0 \<and> b1 = 0 \<and> b2 = 0 \<and> b3 = 0 \<and> b4 = 0 \<and> b5 = 0 \<and> b6 = 0 \<and> b7 = 0 \<and> b8 = 0 \<and> b9 = 0 \<and> b10 = 255 \<and> b11 = 255) \<and> b12 = 127"
    using in_network_prefix [OF a, of "[127, 0, 0, 0]" 13 0] byte [of 13] by (simp add: b valid_ip_def as16_sixteen)
  show "in_network a ([10, 0, 0, 0], 104) \<longleftrightarrow> (b0 = 0 \<and> b1 = 0 \<and> b2 = 0 \<and> b3 = 0 \<and> b4 = 0 \<and> b5 = 0 \<and> b6 = 0 \<and> b7 = 0 \<and> b8 = 0 \<and> b9 = 0 \<and> b10 = 255 \<and> b11 = 255) \<and> b12 = 10"
    using in_network_prefix [OF a, of "[10, 0, 0, 0]" 13 0] byte [of 13] by (simp add: b valid_ip_def as16_sixteen)
  show "in_network a ([172, 16, 0, 0], 108) \<longleftrightarrow> (b0 = 0 \<and> b1 = 0 \<and> b2 = 0 \<and> b3 = 0 \<and> b4 = 0 \<and> b5 = 0 \<and> b6 = 0 \<and> b7 = 0 \<and> b8 = 0 \<and> b9 = 0 \<and> b10 = 255 \<and> b11 = 255) \<and> b12 = 172 \<and> b13 div 16 = 1"
    using in_network_prefix [OF a, of "[172, 16, 0, 0]" 13 4] by (simp add: b valid_ip_def as16_sixteen)
  show "in_network a ([192, 168, 0, 0], 112) \<longleftrightarrow> (b0 = 0 \<and> b1 = 0 \<and> b2 = 0 \<and> b3 = 0 \<and> b4 = 0 \<and> b5 = 0 \<and> b6 = 0 \<and> b7 = 0 \<and> b8 = 0 \<and> b9 = 0 \<and> b10 = 255 \<and> b11 = 255) \<and> b12 = 192 \<and> b13 = 168"
    using in_network_prefix [OF a, of "[192, 168, 0, 0]" 14 0] byte [of 14] by (simp add: b valid_ip_def as16_sixteen)
  show "in_network a ([169, 254, 0, 0], 112) \<longleftrightarrow> (b0 = 0 \<and> b1 = 0 \<and> b2 = 0 \<and> b3 = 0 \<and> b4 = 0 \<and> b5 = 0 \<and> b6 = 0 \<and> b7 = 0 \<and> b8 = 0 \<and> b9 = 0 \<and> b10 = 255 \<and> b11 = 255) \<and> b12 = 169 \<and> b13 = 254"
    using in_network_prefix [OF a, of "[169, 254, 0, 0]" 14 0] byte [of 14] by (simp add: b valid_ip_def as16_sixteen)
  show "in_network a ([224, 0, 0, 0], 100) \<longleftrightarrow> (b0 = 0 \<and> b1 = 0 \<and> b2 = 0 \<and> b3 = 0 \<and> b4 = 0 \<and> b5 = 0 \<and> b6 = 0 \<and> b7 = 0 \<and> b8 = 0 \<and> b9 = 0 \<and> b10 = 255 \<and> b11 = 255) \<and> b12 div 16 = 14"
    using in_network_prefix [OF a, of "[224, 0, 0, 0]" 12 4] by (simp add: b valid_ip_def as16_sixteen)
  show "in_network a ([252, 0, 0, 0, 0, 0, 0, 0, 0, 0, 0, 0, 0, 0, 0, 0], 7) \<longleftrightarrow> b0 div 2 = 126"
    using in_network_prefix [OF a, of "[252, 0, 0, 0, 0, 0, 0, 0, 0, 0, 0, 0, 0, 0, 0, 0]" 0 7] by (simp add: b valid_ip_def as16_sixteen)
  show "in_network a ([254, 128, 0, 0, 0, 0, 0, 0, 0, 0, 0, 0, 0, 0, 0, 0], 10) \<longleftrightarrow> b0 = 254 \<and> b1 div 64 = 2"
    using in_network_prefix [OF a, of "[254, 128, 0, 0, 0, 0, 0, 0, 0, 0, 0, 0, 0, 0, 0, 0]" 1 2] by (simp add: b valid_ip_def as16_sixteen)
  show "in_network a ([255, 0, 0, 0, 0, 0, 0, 0, 0, 0, 0, 0, 0, 0, 0, 0], 8) \<longleftrightarrow> b0 = 255"
    using in_network_prefix [OF a, of "[255, 0, 0, 0, 0, 0, 0, 0, 0, 0, 0, 0, 0, 0, 0, 0]" 1 0] byte [of 1] by (simp add: b valid_ip_def as16_sixteen)
  show "in_network a ([0, 0, 0, 0], 128) \<longleftrightarrow> (b0 = 0 \<and> b1 = 0 \<and> b2 = 0 \<and> b3 = 0 \<and> b4 = 0 \<and> b5 = 0 \<and> b6 = 0 \<and> b7 = 0 \<and> b8 = 0 \<and> b9 = 0 \<and> b10 = 255 \<and> b11 = 255) \<and> b12 = 0 \<and> b13 = 0 \<and> b14 = 0 \<and> b15 = 0"
    using in_network_host [OF a, of "[0, 0, 0, 0]"] by (simp add: b valid_ip_def as16_sixteen)
  show "in_network a ([0, 0, 0, 0, 0, 0, 0, 0, 0, 0, 0, 0, 0, 0, 0, 1], 128) \<longleftrightarrow> b0 = 0 \<and> b1 = 0 \<and> b2 = 0 \<and> b3 = 0 \<and> b4 = 0 \<and> b5 = 0 \<and> b6 = 0 \<and> b7 = 0 \<and> b8 = 0 \<and> b9 = 0 \<and> b10 = 0 \<and> b11 = 0 \<and> b12 = 0 \<and> b13 = 0 \<and> b14 = 0 \<and> b15 = 1"
    using in_network_host [OF a, of "[0, 0, 0, 0, 0, 0, 0, 0, 0, 0, 0, 0, 0, 0, 0, 1]"] by (simp add: b valid_ip_def as16_sixteen)
  show "in_network a ([0, 0, 0, 0, 0, 0, 0, 0, 0, 0, 0, 0, 0, 0, 0, 0], 128) \<longleftrightarrow> b0 = 0 \<and> b1 = 0 \<and> b2 = 0 \<and> b3 = 0 \<and> b4 = 0 \<and> b5 = 0 \<and> b6 = 0 \<and> b7 = 0 \<and> b8 = 0 \<and> b9 = 0 \<and> b10 = 0 \<and> b11 = 0 \<and> b12 = 0 \<and> b13 = 0 \<and> b14 = 0 \<and> b15 = 0"
    using in_network_host [OF a, of "[0, 0, 0, 0, 0, 0, 0, 0, 0, 0, 0, 0, 0, 0, 0, 0]"] by (simp add: b valid_ip_def as16_sixteen)
qed

lemma To4_four [simp]: "To4 [w, x, y, z] = Some [w, x, y, z]"
  by (simp add: To4_def)

lemma To4_sixteen:
  "To4 [b0, b1, b2, b3, b4, b5, b6, b7, b8, b9, b10, b11, b12, b13, b14, b15] = (if [b0, b1, b2, b3, b4, b5, b6, b7, b8, b9, b10, b11] = [0, 0, 0, 0, 0, 0, 0, 0, 0, 0, 255, 255] then Some [b12, b13, b14, b15] else None)"
  by (simp add: To4_def numeral_eq_Suc)

lemma replicates: "replicate 3 (0::nat) = [0, 0, 0]" "replicate 4 (0::nat) = [0, 0, 0, 0]" "replicate 15 (0::nat) = [0, 0, 0, 0, 0, 0, 0, 0, 0, 0, 0, 0, 0, 0, 0]" "replicate 16 (0::nat) = [0, 0, 0, 0, 0, 0, 0, 0, 0, 0, 0, 0, 0, 0, 0, 0]"
  by (simp_all add: numeral_eq_Suc)

lemma blocked_four:
  assumes "valid_ip [w, x, y, z]"
  shows "isPrivateOrLocalIP (Some [w, x, y, z]) \<longleftrightarrow> list_ex (in_network [w, x, y, z]) blocked_networks"
proof -
  have "isPrivateOrLocalIP (Some [w, x, y, z]) \<longleftrightarrow> w = 127 \<or> w = 10 \<or> w = 172 \<and> x div 16 = 1 \<or> w = 192 \<and> x = 168 \<or>
      w = 169 \<and> x = 254 \<or> w div 16 = 14 \<or> [w, x, y, z] = [0, 0, 0, 0]"
    by (auto simp: isPrivateOrLocalIP_def IsLoopback_def IsPrivate_def IsLinkLocalUnicast_def IsLinkLocalMulticast_def IsMulticast_def
        IsUnspecified_def replicates)
  then show ?thesis by (simp add: blocked_networks_def network_bytes [OF assms as16_four] del: One_nat_def)
qed

lemma blocked_mapped:
  assumes "valid_ip ([0, 0, 0, 0, 0, 0, 0, 0, 0, 0, 255, 255] @ [w, x, y, z])"
  shows "isPrivateOrLocalIP (Some ([0, 0, 0, 0, 0, 0, 0, 0, 0, 0, 255, 255] @ [w, x, y, z])) \<longleftrightarrow> list_ex (in_network ([0, 0, 0, 0, 0, 0, 0, 0, 0, 0, 255, 255] @ [w, x, y, z])) blocked_networks"
proof -
  have v: "valid_ip [w, x, y, z]" using assms by (simp add: valid_ip_def)
  have "isPrivateOrLocalIP (Some ([0, 0, 0, 0, 0, 0, 0, 0, 0, 0, 255, 255] @ [w, x, y, z])) = isPrivateOrLocalIP (Some [w, x, y, z])"
    by (simp add: isPrivateOrLocalIP_def IsLoopback_def IsPrivate_def IsLinkLocalUnicast_def IsLinkLocalMulticast_def IsMulticast_def
        IsUnspecified_def To4_sixteen replicates)
  moreover have "in_network ([0, 0, 0, 0, 0, 0, 0, 0, 0, 0, 255, 255] @ [w, x, y, z]) = in_network [w, x, y, z]"
    by (simp add: in_network_def fun_eq_iff as16_sixteen)
  ultimately show ?thesis using blocked_four [OF v] by simp
qed

lemma blocked_sixteen:
  assumes v: "valid_ip a" "length a = 16" "To4 a = None"
  shows "isPrivateOrLocalIP (Some a) \<longleftrightarrow> list_ex (in_network a) blocked_networks"
proof -
  obtain b0 b1 b2 b3 b4 b5 b6 b7 b8 b9 b10 b11 b12 b13 b14 b15 where b: "a = [b0, b1, b2, b3, b4, b5, b6, b7, b8, b9, b10, b11, b12, b13, b14, b15]" by (rule sixteen [OF v(2)])
  have m: "(b0 = 0 \<and> b1 = 0 \<and> b2 = 0 \<and> b3 = 0 \<and> b4 = 0 \<and> b5 = 0 \<and> b6 = 0 \<and> b7 = 0 \<and> b8 = 0 \<and> b9 = 0 \<and> b10 = 255 \<and> b11 = 255) = False" using v(3) unfolding b To4_sixteen by (simp split: if_splits)
  have cls: "isPrivateOrLocalIP (Some a) \<longleftrightarrow> a = [0, 0, 0, 0, 0, 0, 0, 0, 0, 0, 0, 0, 0, 0, 0, 1] \<or> a = [0, 0, 0, 0, 0, 0, 0, 0, 0, 0, 0, 0, 0, 0, 0, 0] \<or> b0 div 2 = 126 \<or> b0 = 254 \<and> b1 div 64 = 2 \<or> b0 = 255"
    using v(3) by (auto simp: isPrivateOrLocalIP_def IsLoopback_def IsPrivate_def IsLinkLocalUnicast_def IsLinkLocalMulticast_def IsMulticast_def
        IsUnspecified_def replicates b)
  have as: "as16 a = [b0, b1, b2, b3, b4, b5, b6, b7, b8, b9, b10, b11, b12, b13, b14, b15]" using v(2) b by (simp add: as16_sixteen)
  show ?thesis
    unfolding cls blocked_networks_def list_ex_iff by (simp add: network_bytes [OF v(1) as, unfolded m] del: One_nat_def) (auto simp: b simp del: One_nat_def)
qed

lemma blocked_addresses_exact:
  assumes v: "valid_ip a"
  shows "isPrivateOrLocalIP (Some a) \<longleftrightarrow> list_ex (in_network a) blocked_networks"
proof (rule four_or_sixteen [OF v])
  fix w x y z assume "a = [w, x, y, z]"
  then show ?thesis using blocked_four v by simp
next
  assume l: "length a = 16"
  show ?thesis
  proof (cases "To4 a")
    case None
    then show ?thesis by (rule blocked_sixteen [OF v l])
  next
    case (Some c)
    obtain b0 b1 b2 b3 b4 b5 b6 b7 b8 b9 b10 b11 b12 b13 b14 b15 where b: "a = [b0, b1, b2, b3, b4, b5, b6, b7, b8, b9, b10, b11, b12, b13, b14, b15]" by (rule sixteen [OF l])
    have "a = [0, 0, 0, 0, 0, 0, 0, 0, 0, 0, 255, 255] @ [b12, b13, b14, b15]" using Some unfolding b To4_sixteen by (simp split: if_splits)
    then show ?thesis using blocked_mapped v by metis
  qed
qed

subsection \<open>The dialer\<close>

definition public_address :: "ip option \<Rightarrow> bool" where
  "public_address x = (case x of None \<Rightarrow> False | Some a \<Rightarrow> \<not> list_ex (in_network a) blocked_networks)"

lemma dial_first_exact:
  assumes "dial_first p dial as = (c, tried)"
  shows "c = find (\<lambda>x. (up_AllowPrivateHosts p \<or> \<not> isPrivateOrLocalIP x) \<and> dial x) as \<and>
    (\<forall>x \<in> set tried. x \<in> set as \<and> (up_AllowPrivateHosts p \<or> \<not> isPrivateOrLocalIP x)) \<and> (\<forall>x. c = Some x \<longrightarrow> x \<in> set tried)"
  using assms by (induction as arbitrary: c tried) (auto split: if_splits prod.splits)

lemma public_address_exact: "(\<And>a. x = Some a \<Longrightarrow> valid_ip a) \<Longrightarrow> isPrivateOrLocalIP x \<longleftrightarrow> \<not> public_address x"
  by (cases x) (simp_all add: public_address_def blocked_addresses_exact isPrivateOrLocalIP_def [of None])

lemma find_cong_set: "(\<And>x. x \<in> set xs \<Longrightarrow> P x = Q x) \<Longrightarrow> find P xs = find Q xs"
  by (induction xs) auto

text \<open>C21. A callback never reaches the inside of the network. Unless the operator allows private
  hosts, the delivery client tries an address only if it lies in none of the networks of
  \<open>blocked_networks\<close> (loopback, private, link-local, multicast and unspecified, IPv4 also in its
  form mapped into IPv6), whatever the name resolves to at that moment; and it is not stricter
  than that: it connects to the first public address the name resolves to that answers. A
  URL is accepted as a callback only if it has no user, no fragment and an allowed scheme, and a
  literal address in it is public.\<close>

theorem callbacks_reach_public_hosts_only:
  assumes "\<not> up_AllowPrivateHosts p"
    and "\<And>host as a. resolveHostForPolicy p host = Some as \<Longrightarrow> Some a \<in> set as \<Longrightarrow> valid_ip a"
    and "\<And>host a. up_ParseIP p host = Some a \<Longrightarrow> valid_ip a"
    and "DialContext p dial address = (c, tried)"
  shows "list_all public_address tried \<and>
    c = (case SplitHostPort address of None \<Rightarrow> None | Some (host, _) \<Rightarrow>
        (case resolveHostForPolicy p host of None \<Rightarrow> None | Some as \<Rightarrow> find (\<lambda>x. public_address x \<and> dial x) as)) \<and>
    (ValidateCallbackURL env raw p \<longrightarrow>
      (case parse_url env (trim_space raw) of
         None \<Rightarrow> False
       | Some u \<Rightarrow> \<not> url_hasUser u \<and> url_Fragment u = [] \<and> (to_lower (url_Scheme u) = ''https'' \<or> up_AllowInsecureHTTP p) \<and>
           (case up_ParseIP p (trim_brackets (to_lower (url_Hostname u))) of Some a \<Rightarrow> public_address (Some a) | None \<Rightarrow> True)))"
proof (intro conjI impI)
  have pub: "isPrivateOrLocalIP x \<longleftrightarrow> \<not> public_address x" if "resolveHostForPolicy p h = Some as" "x \<in> set as" for h as x
    using public_address_exact [of x] assms(2) [OF that(1)] that(2) by blast
  show "list_all public_address tried"
    using assms(1,4) dial_first_exact [of p dial] pub by (fastforce simp: DialContext_def list_all_iff split: option.splits prod.splits)
  show "c = (case SplitHostPort address of None \<Rightarrow> None | Some (host, _) \<Rightarrow>
        (case resolveHostForPolicy p host of None \<Rightarrow> None | Some as \<Rightarrow> find (\<lambda>x. public_address x \<and> dial x) as))"
  proof (cases "SplitHostPort address")
    case (Some hp)
    obtain host port where hp: "hp = (host, port)" by (cases hp)
    note addr = \<open>SplitHostPort address = Some hp\<close> hp
    show ?thesis
    proof (cases "resolveHostForPolicy p host")
      case (Some as)
      then have "dial_first p dial as = (c, tried)" using assms(4) addr by (simp add: DialContext_def)
      from dial_first_exact [OF this] have "c = find (\<lambda>x. \<not> isPrivateOrLocalIP x \<and> dial x) as" using assms(1) by simp
      also have "\<dots> = find (\<lambda>x. public_address x \<and> dial x) as" by (rule find_cong_set) (use pub [OF Some] in blast)
      finally show ?thesis using Some addr by simp
    qed (use assms(4) addr in \<open>simp add: DialContext_def\<close>)
  qed (use assms(4) in \<open>simp add: DialContext_def\<close>)
  have lit: "isPrivateOrLocalIP (Some a) \<longleftrightarrow> \<not> public_address (Some a)" if "up_ParseIP p h = Some a" for h a
    using public_address_exact [of "Some a"] assms(3) [OF that] by simp
  assume "ValidateCallbackURL env raw p"
  then show "(case parse_url env (trim_space raw) of
         None \<Rightarrow> False
       | Some u \<Rightarrow> \<not> url_hasUser u \<and> url_Fragment u = [] \<and> (to_lower (url_Scheme u) = ''https'' \<or> up_AllowInsecureHTTP p) \<and>
           (case up_ParseIP p (trim_brackets (to_lower (url_Hostname u))) of Some a \<Rightarrow> public_address (Some a) | None \<Rightarrow> True))"
    using assms(1) lit by (auto simp: ValidateCallbackURL_def Let_def split: option.splits if_splits)
qed

definition example_policy :: url_policy where
  "example_policy =
     \<lparr>up_AllowInsecureHTTP = False, up_AllowPrivateHosts = False, up_AllowAnyPublicHost = True, up_AllowedHosts = [],
      up_Resolver = Some (\<lambda>h. if h = ''cb.example'' then Some [Some [10, 0, 0, 1], Some [93, 184, 216, 34]] else None),
      up_DefaultResolver = (\<lambda>_. None), up_ParseIP = (\<lambda>_. None), up_QueryKeys = (\<lambda>_. [])\<rparr>"

lemma callbacks_reach_public_hosts_only_witness:
  "DialContext example_policy (\<lambda>_. True) ''cb.example:443'' = (Some (Some [93, 184, 216, 34]), [Some [93, 184, 216, 34]]) \<and>
   list_all public_address [Some [93, 184, 216, 34]]"
proof -
  have d: "DialContext example_policy (\<lambda>_. True) ''cb.example:443'' = (Some (Some [93, 184, 216, 34]), [Some [93, 184, 216, 34]])"
    by code_simp
  have v: "valid_ip a" if "resolveHostForPolicy example_policy h = Some as" "Some a \<in> set as" for h as a
    using that by (auto simp: resolveHostForPolicy_def example_policy_def valid_ip_def split: if_splits)
  have q: "up_ParseIP example_policy h = None" "\<not> up_AllowPrivateHosts example_policy" for h
    by (simp_all add: example_policy_def)
  have "list_all public_address [Some [93, 184, 216, 34]]"
    by (rule conjunct1 [OF callbacks_reach_public_hosts_only [OF q(2) v _ d]]) (simp_all add: q(1))
  then show ?thesis using d by simp
qed

end
