(* ===== verification/Spec2Isabelle.thy ===== *)
theory Spec2Isabelle
  imports JobRedact AttemptProps WorkflowEngine BrowserLaneProps AdmissionRegistry VoiceProps PlacerProps ReconcileProps BreakerProps IdempotencyProps JobServiceProps JobStreamProps
    RateLimitProps Region AttemptCapProps CredentialsProps ConsumerProps MaintenanceProps StreamIngestProps
    OutboxProps CallbackHostProps
begin

text \<open>
  A verification library of the UBAG gateway (Go, \<open>src/apps/gateway/internal\<close>, abbreviated to
  its package paths below): browser automation jobs are accepted over HTTP and gRPC, stored,
  queued, leased to worker processes that drive a browser (on this host or on a Helper Node), and
  their events are written back.

  \<^bold>\<open>The program and its model.\<close> A request is authorised, its idempotency key reserved, the job
  admitted under its tenant's ceiling, created in the job store and enqueued in the spool. A
  consumer leases the envelope, waits until no voice session uses the browser, assigns the job, runs a
  worker and ingests its events; the store checks, redacts and appends them and moves the job
  forward. Sweeps repair what a crash leaves behind. Runs on Helper Nodes are placed by capacity
  and fenced by the attempt ledger. Each part below has a theory of definitions, in the order of
  the code, and one or two of proofs. A Go struct is a record, an enumeration a datatype, a
  method a function that returns the changed state, an error a value.

  \<^item> Jobs. \<open>JobStatus\<close> (jobs/vocabulary.go), \<open>JobStore\<close> (jobs/memory.go, jobs/store.go), \<open>Attempt\<close> and
    \<open>AttemptLedger\<close> (jobs/attempts.go, jobs/memory_attempts.go), \<open>PayloadPolicy\<close> (payloadpolicy).
    The state is \<open>memory_store\<close>, the fields of Go's \<open>MemoryStore\<close>; the mutex makes every method one
    step. \<open>JobStoreInv\<close>, \<open>AttemptInv\<close>: every method keeps \<open>store_ok\<close> and \<open>ledgers_ok\<close>; \<open>JobStoreEvents\<close>:
    the five outcomes of a worker event; \<open>JobMachine\<close>: all methods as one step relation with its forward order; \<open>JobProps\<close>,
    \<open>AttemptProps\<close>, \<open>JobRedact\<close>: the properties over every reachable store; \<open>JobRedact\<close> lists the names of secrets and the
    ways to write them apart from the code's tables and shows that none passes.
  \<^item> Front ends. \<open>JobCore\<close> (jobcore, authz), \<open>Idempotency\<close> (idempotency/service.go, memory.go), \<open>JobService\<close>
    (grpcapi/server.go, whole handlers). \<open>JobServiceProps\<close>, \<open>IdempotencyProps\<close>, \<open>JobStreamProps\<close>: requests of any
    tenants interleaved with the writes of workers.
  \<^item> Queue and worker. \<open>Dispatch\<close> (executor/executor.go, queueholds.go and the pure helpers of
    workerconsumer.go), \<open>Spool\<close> (executor/filespool.go: directories are association lists of
    files, a rename is one step), \<open>Consumer\<close> (executor/workerconsumer.go \<open>RunOnce\<close> and \<open>runSerial\<close>,
    submission.go, failurediagnostics.go), \<open>StreamIngest\<close> (executor/streamingest.go, streamrunner.go),
    \<open>Maintenance\<close> (executor/queue_reconciler.go, reaper.go, cancelregistry.go). \<open>SpoolInv\<close> defines the
    abstract queue (a job is absent, queued, assigned or ended) and \<open>SpoolProps\<close> proves every operation
    a step of it; \<open>ConsumerInv\<close> and \<open>ConsumerProps\<close> follow a lease through every branch on that view;
    \<open>StreamIngestProps\<close> compares a stream with the worker's own event list.
  \<^item> Admission. \<open>Admission\<close> (topology/admission_sql.go: one SQL transaction is one step;
    topology/concurrency.go), \<open>AdmissionProps\<close> (ceilings over all interleavings of replicas, exceeded
    only by what is associated late),
    \<open>AdmissionRegistry\<close> (the process-local registry refines a budget). \<open>RateLimit\<close> (ratelimit).
  \<^item> Browser and voice. \<open>Voice\<close> (voice/voice.go, media.go, lane.go), \<open>VoiceInv\<close>, \<open>VoiceProps\<close>; \<open>BrowserLane\<close>
    (topology/lane.go, executor/voicelane.go): jobs and sessions as processes with program
    counters, \<open>BrowserLaneProps\<close> proves the exclusion over every interleaving.
  \<^item> Helper Nodes. \<open>Nodes\<close>, \<open>NodePolicy\<close>, \<open>Fleet\<close>, \<open>Placer\<close>, \<open>Reconcile\<close> (nodes/*.go), \<open>AttemptCap\<close>
    (attemptcap), \<open>Region\<close> (region).
  \<^item> Webhooks. \<open>Webhooks\<close> (webhooks/memory.go, store.go, worker.go, sender.go, callbacks.go, projector.go): the
    state is \<open>outbox\<close>, the fields of the in-memory outbox. \<open>WebhooksProps\<close>: its invariant over every history, and
    a worker that settles everything; the number of polls needed is \<open>backlog\<close>, the attempts left. \<open>OutboxProps\<close>:
    no callback is lost, also when delivery ids collide, but by the collision itself. \<open>CallbackHostProps\<close>:
    the address classes against the networks they stand for, and the dialer.
  \<^item> Others. \<open>Workflow\<close>, \<open>WorkflowSort\<close>, \<open>WorkflowEngine\<close> (workflow; the trace of an
    advance tells the writes the store took from those it refused), \<open>Breaker\<close> (retrypolicy,
    resilience), \<open>Credentials\<close> (session, pat, jitadmin, mfa).

  \<^bold>\<open>The library.\<close> \<open>Prelude\<close> holds Go's times, strings and JSON values, the list and map lemmas, and the
  locales \<open>machine\<close>, \<open>forward_machine\<close>, \<open>clocked_machine\<close> and \<open>guarded_machine\<close>: what a step
  keeps, every run keeps. Each component interprets them on its own step function.
  \<open>fenced_ledger\<close> (\<open>JobMachine\<close>) is what a fenced writer relies on, \<open>window_counter\<close> (\<open>RateLimitProps\<close>)
  what the limiter needs of a counter store. \<open>GoNet\<close> has 64-bit wrap-around and Go's number and address parsing.

  \<^bold>\<open>Conventions.\<close> A Go string is its list of bytes. A time is the number of nanoseconds since Go's zero time, which
  is 0; unix seconds start at 62135596800 seconds. Durations are unbounded integers where the code cannot reach
  the 64-bit range and are wrapped by \<open>wrap64\<close> where it can. A Go map is an association list where it is
  iterated, a partial map elsewhere.

  \<^bold>\<open>Parameters.\<close> Arguments of the definitions stand for what is not under src/ or has no value in HOL:
  clock readings, random identifiers, SHA-256, HMAC, Argon2, RSA and CEL, \<open>encoding/json\<close> and \<open>net/url\<close>
  results, the worker itself, and which store, spool or notifier calls fail. Assumptions about them are hypotheses of the
  theorems that need them, discharged in their witnesses.

  \<^bold>\<open>Bounds and loops.\<close> Kahn's loop in \<open>Workflow\<close> takes fuel, one more than the number of steps; \<open>kahn_returns\<close>
  proves that this never runs out. Every other loop over a collection is a fold or a structural recursion; the loops of
  background goroutines are lists of rounds or of steps of any length, so a property covers every
  number of them; \<open>serial_worker_drains_queue\<close> shows that as many rounds as there are pending
  envelopes are enough to empty the queue.

  \<^bold>\<open>Not modelled.\<close> HTTP handlers and process wiring (decoding and construction around the modelled rules), the SQL
  variants of the stores (SQL text whose semantics is the database's), the NATS queue (a client
  library), worker processes and the streams to Helper Nodes (pipes, gRPC), voice media,
  artifacts, single sign-on, SCIM, plugins, webhook signatures, caches, audit and alert export, backup
  and migration tools, the command line, the SDK and the operator. In the consumer: the
  helper plane, held leases off the worker, metrics, alerts, plugin hooks and telemetry
  projections. Ticker loops are represented by their sweeps.
\<close>

end
